(* ===== verification/Prelude.thy ===== *)
theory Prelude
  imports Complex_Main "HOL-Library.Multiset"
begin

section \<open>Shared types, error values and lemmas\<close>

text \<open>
  What the component theories share: the types of the simulator's scalars, the error values
  that stand for its \<open>abort()\<close> and \<open>exit(1)\<close> calls, the result type and its bind, C++'s
  conversions between \<open>double\<close> and the integer types, and the collections of simplification
  rules the components add to.

  \<^item> \<open>double\<close> is \<^typ>\<open>real\<close>: rounding is not modelled. Where the code divides by a value that
    may be zero, or stores the quotient in a timer, the IEEE results are written out in
    \<open>xreal\<close>.
  \<^item> \<open>int\<close>, \<open>long\<close> and \<open>seq_t\<close> (\<open>int64_t\<close>) are \<^typ>\<open>int\<close>. Signed overflow is undefined in C++; the
    operations that treat it are listed in the header of \<open>Spec2Isabelle\<close>: some return the error
    \<open>IntOutOfRange\<close>, some counters wrap with \<open>int32_of\<close> as two's complement does, and all others keep
    the mathematical value. A narrowing conversion is \<open>int32_of\<close>. Unsigned counters that wrap are
    natural numbers with the \<open>mod\<close> written out where they are used.
\<close>

type_synonym time = real
type_synonym seq_t = int
type_synonym addr = nat

subsection \<open>Error values\<close>

text \<open>
  One constructor for every \<open>abort()\<close> or \<open>exit(1)\<close> the modelled code can reach, and for the
  undefined behaviours that the model keeps visible.
\<close>

datatype sim_error =
    TimerNotScheduled            \<comment> \<open>\<open>TimerHandler::cancel\<close>: not pending\<close>
  | TimerCouldNotSchedule        \<comment> \<open>\<open>TimerHandler::sched\<close>: not idle\<close>
  | TimerHandleSanity            \<comment> \<open>\<open>TimerHandler::handle\<close>: not pending\<close>
  | EventUidNotValid             \<comment> \<open>\<open>Scheduler::schedule\<close>: event already queued\<close>
  | NullHandler                  \<comment> \<open>\<open>Scheduler::schedule\<close>: no handler\<close>
  | UidSpaceExhausted            \<comment> \<open>\<open>Scheduler::schedule\<close>\<close>
  | ClockBackwards               \<comment> \<open>\<open>Scheduler::dispatch\<close>\<close>
  | EventNotFound                \<comment> \<open>\<open>cancel\<close> of the list and splay schedulers\<close>
  | CreditStopTimerBusy          \<comment> \<open>\<open>XPassAgent::recv_credit\<close>\<close>
  | CreditSeqReverted            \<comment> \<open>\<open>XPassAgent::recv_data\<close>\<close>
  | NegativePacketLength         \<comment> \<open>\<open>XPassAgent::process_ack\<close>\<close>
  | DataLengthNotPositive        \<comment> \<open>\<open>XPassAgent::construct_data\<close>\<close>
  | CreditSizeOrder              \<comment> \<open>\<open>XPassAgent::construct_credit\<close>\<close>
  | JitterOrder                  \<comment> \<open>\<open>XPassAgent::send_credit\<close>\<close>
  | RetransmitWhileClosed        \<comment> \<open>\<open>XPassAgent::handle_sender_retransmit\<close>\<close>
  | RemoveTargetNotFound         \<comment> \<open>\<open>PacketQueue::remove\<close>\<close>
  | CreditTimerNotSet            \<comment> \<open>\<open>XPassDropTail::deque\<close>\<close>
  | ScoreBoardAssert             \<comment> \<open>\<open>ScoreBoard::UpdateScoreBoard\<close>: \<open>ASSERT\<close> and \<open>ASSERT1\<close>\<close>
  | ScoreBoardTooLarge           \<comment> \<open>\<open>ScoreBoard::UpdateScoreBoard\<close>\<close>
  | NegativeRTO                  \<comment> \<open>\<open>TcpAgent::rtt_timeout\<close>\<close>
  | WindowOption                 \<comment> \<open>\<open>TcpAgent::opencwnd\<close>: unknown \<open>windowOption_\<close>\<close>
  | WindowInitOption             \<comment> \<open>\<open>TcpAgent::initial_window\<close>\<close>
  | CloseOption                  \<comment> \<open>\<open>TcpAgent::closecwnd\<close>\<close>
  | CalendarAssert               \<comment> \<open>\<open>assert\<close> of \<open>CalendarScheduler\<close>\<close>
  | NullPointer                  \<comment> \<open>a null pointer is dereferenced\<close>
  | IndexOutOfRange              \<comment> \<open>an array is accessed outside its bounds\<close>
  | IntOutOfRange                \<comment> \<open>a \<open>double\<close> or a sum that does not fit in an \<open>int\<close>\<close>
  | NotFinite                    \<comment> \<open>a \<open>double\<close> becomes infinite or not a number\<close>
  | ShiftOutOfRange              \<comment> \<open>a shift by a negative number or by 32 and more\<close>
  | DivisionByZero               \<comment> \<open>division of integers by zero\<close>
  | LoopDoesNotEnd               \<comment> \<open>a loop over a linked structure never returns\<close>

type_synonym 'a res = "sim_error + 'a"

fun res_bind :: "'a res \<Rightarrow> ('a \<Rightarrow> 'b res) \<Rightarrow> 'b res" where
  "res_bind (Inl e) f = Inl e"
| "res_bind (Inr x) f = f x"

text \<open>A loop written with \<^const>\<open>None\<close> for not returning, as a result.\<close>

fun of_loop :: "'a res option \<Rightarrow> 'a res" where
  "of_loop None = Inl LoopDoesNotEnd"
| "of_loop (Some r) = r"

fun res_all :: "('a \<Rightarrow> bool) \<Rightarrow> 'a res \<Rightarrow> bool" where
  "res_all P (Inl e) = True"
| "res_all P (Inr x) = P x"

text \<open>A computation that returns, with a result that satisfies \<open>P\<close>.\<close>

definition returns :: "'a res \<Rightarrow> ('a \<Rightarrow> bool) \<Rightarrow> bool" where
  "returns m P \<longleftrightarrow> (\<exists>x. m = Inr x \<and> P x)"

subsection \<open>C++ conversions and comparisons\<close>

definition int_of_double :: "real \<Rightarrow> int" where
  "int_of_double x = (if 0 \<le> x then \<lfloor>x\<rfloor> else \<lceil>x\<rceil>)"

definition int32_of :: "int \<Rightarrow> int" where
  "int32_of n = (n + 2 ^ 31) mod 2 ^ 32 - 2 ^ 31"

definition in_int32 :: "int \<Rightarrow> bool" where
  "in_int32 n \<longleftrightarrow> - (2 ^ 31) \<le> n \<and> n < 2 ^ 31"

text \<open>The conversion of a \<open>double\<close> to \<open>int\<close>, which is undefined where the value does not fit.\<close>

definition to_int :: "real \<Rightarrow> int res" where
  "to_int x = (if in_int32 (int_of_double x) then Inr (int_of_double x) else Inl IntOutOfRange)"

definition int16_of :: "int \<Rightarrow> int" where
  "int16_of n = (n + 2 ^ 15) mod 2 ^ 16 - 2 ^ 15"

text \<open>
  Division of C++ truncates, for integers and in \<open>fmod\<close>; a shift is by 0 to 31 bits. The value of a
  left shift is the mathematical product, also where it does not fit in an \<open>int\<close>.
\<close>

definition cdiv :: "int \<Rightarrow> int \<Rightarrow> int res" where
  "cdiv a b = (if b = 0 then Inl DivisionByZero else Inr (sgn a * sgn b * (\<bar>a\<bar> div \<bar>b\<bar>)))"

definition fmod :: "real \<Rightarrow> real \<Rightarrow> real" where
  "fmod x y = x - of_int (int_of_double (x / y)) * y"

definition shl :: "int \<Rightarrow> int \<Rightarrow> int res" where
  "shl x n = (if 0 \<le> n \<and> n < 32 then Inr (x * 2 ^ nat n) else Inl ShiftOutOfRange)"

definition shr :: "int \<Rightarrow> int \<Rightarrow> int res" where
  "shr x n = (if 0 \<le> n \<and> n < 32 then Inr (x div 2 ^ nat n) else Inl ShiftOutOfRange)"

text \<open>C's \<open>pow\<close> where it is finite.\<close>

definition cpow :: "real \<Rightarrow> real \<Rightarrow> real res" where
  "cpow x y =
     (if 0 < x then Inr (x powr y)
      else if y = 0 then Inr 1
      else if x = 0 then (if 0 < y then Inr 0 else Inl NotFinite)
      else if y = of_int \<lfloor>y\<rfloor> then Inr (power_int x \<lfloor>y\<rfloor>) else Inl NotFinite)"

definition tmin :: "'a::linorder \<Rightarrow> 'a \<Rightarrow> 'a" where
  "tmin a b = (if a < b then a else b)"

definition tmax :: "'a::linorder \<Rightarrow> 'a \<Rightarrow> 'a" where
  "tmax a b = (if a < b then b else a)"

text \<open>The values of a \<open>double\<close> that a division by zero can produce.\<close>

datatype xreal = Fin real | PInf | NInf | NotANum

definition xdiv :: "real \<Rightarrow> real \<Rightarrow> xreal" where
  "xdiv a b = (if b \<noteq> 0 then Fin (a / b)
               else if 0 < a then PInf else if a < 0 then NInf else NotANum)"

fun xmul :: "xreal \<Rightarrow> real \<Rightarrow> xreal" where
  "xmul (Fin a) b = Fin (a * b)"
| "xmul PInf b = (if 0 < b then PInf else if b < 0 then NInf else NotANum)"
| "xmul NInf b = (if 0 < b then NInf else if b < 0 then PInf else NotANum)"
| "xmul NotANum b = NotANum"

fun xadd :: "real \<Rightarrow> xreal \<Rightarrow> xreal" where
  "xadd a (Fin b) = Fin (a + b)"
| "xadd a PInf = PInf"
| "xadd a NInf = NInf"
| "xadd a NotANum = NotANum"

subsection \<open>Collections\<close>

named_theorems inv_simps \<open>definitions of the components' invariants\<close>
named_theorems op_defs \<open>definitions of the components' operations\<close>

subsection \<open>Lemmas\<close>

lemma res_bind_Inr_iff [simp]:
  "res_bind m f = Inr y \<longleftrightarrow> (\<exists>x. m = Inr x \<and> f x = Inr y)"
  by (cases m) auto

lemma res_bind_Inl_iff:
  "res_bind m f = Inl e \<longleftrightarrow> m = Inl e \<or> (\<exists>x. m = Inr x \<and> f x = Inl e)"
  by (cases m) auto

lemma res_bind_assoc: "res_bind (res_bind m f) g = res_bind m (\<lambda>x. res_bind (f x) g)"
  by (cases m) auto

lemma res_bind_cong [fundef_cong]:
  "m = m' \<Longrightarrow> (\<And>x. m' = Inr x \<Longrightarrow> f x = g x) \<Longrightarrow> res_bind m f = res_bind m' g"
  by (cases m') auto

lemma returns_Inr [simp]: "returns (Inr x) P = P x"
  by (simp add: returns_def)

lemma returns_Inl [simp]: "\<not> returns (Inl e) P"
  by (simp add: returns_def)

lemma returns_bind: "returns m P \<Longrightarrow> (\<And>x. P x \<Longrightarrow> returns (f x) Q) \<Longrightarrow> returns (res_bind m f) Q"
  by (auto simp: returns_def)

lemma returns_mono: "returns m P \<Longrightarrow> (\<And>x. P x \<Longrightarrow> Q x) \<Longrightarrow> returns m Q"
  by (auto simp: returns_def)

lemma returnsI: "m = Inr x \<Longrightarrow> P x \<Longrightarrow> returns m P"
  by (simp add: returns_def)

lemma returnsD: "returns m P \<Longrightarrow> m = Inr x \<Longrightarrow> P x"
  by (auto simp: returns_def)

lemma returnsE: "returns m P \<Longrightarrow> (\<And>x. m = Inr x \<Longrightarrow> P x \<Longrightarrow> thesis) \<Longrightarrow> thesis"
  by (auto simp: returns_def)

lemma res_all_iff: "res_all P m \<longleftrightarrow> (\<forall>x. m = Inr x \<longrightarrow> P x)"
  by (cases m) auto

lemma tmin_eq [simp]: "tmin a b = min a b"
  by (auto simp: tmin_def min_def)

lemma tmax_eq [simp]: "tmax a b = max a b"
  by (auto simp: tmax_def max_def)

lemma int_of_double_of_int [simp]: "int_of_double (of_int n) = n"
  by (simp add: int_of_double_def)

lemma int_of_double_le: "0 \<le> x \<Longrightarrow> of_int (int_of_double x) \<le> x"
  by (simp add: int_of_double_def)

lemma int_of_double_nonneg [simp]: "0 \<le> x \<Longrightarrow> 0 \<le> int_of_double x"
  by (simp add: int_of_double_def)

lemma int_of_double_gt: "x - 1 < of_int (int_of_double x)"
  unfolding int_of_double_def by (simp; linarith)

lemma int_of_double_mono: "x \<le> y \<Longrightarrow> int_of_double x \<le> int_of_double y"
proof -
  assume le: "x \<le> y"
  consider "0 \<le> x" | "x < 0" "0 \<le> y" | "y < 0" using le by linarith
  then show ?thesis
  proof cases
    case 1
    then show ?thesis using le by (simp add: int_of_double_def floor_mono)
  next
    case 2
    then have "\<lceil>x\<rceil> \<le> 0" "0 \<le> \<lfloor>y\<rfloor>" by simp_all
    then have "\<lceil>x\<rceil> \<le> \<lfloor>y\<rfloor>" by (rule order_trans)
    with 2 show ?thesis by (simp add: int_of_double_def)
  next
    case 3
    then show ?thesis using le by (simp add: int_of_double_def ceiling_mono)
  qed
qed

lemma int_of_double_ge_int: "of_int n \<le> x \<Longrightarrow> n \<le> int_of_double x"
  using int_of_double_mono [of "of_int n" x] by simp

lemma int_of_double_le_int: "x \<le> of_int n \<Longrightarrow> int_of_double x \<le> n"
  using int_of_double_mono [of x "of_int n"] by simp

lemma int32_of_id: "- (2 ^ 31) \<le> n \<Longrightarrow> n < 2 ^ 31 \<Longrightarrow> int32_of n = n"
  by (simp add: int32_of_def)

lemma int32_of_idem [simp]: "int32_of (int32_of n) = int32_of n"
  by (simp add: int32_of_def mod_simps)

lemma int32_of_add [simp]:
  "int32_of (int32_of a + b) = int32_of (a + b)" "int32_of (a + int32_of b) = int32_of (a + b)"
  by (simp_all add: int32_of_def mod_simps algebra_simps)

lemma int32_of_0 [simp]: "int32_of 0 = 0"
  by (simp add: int32_of_def)

lemma int32_of_bounds: "- (2 ^ 31) \<le> int32_of n" "int32_of n < 2 ^ 31"
  by (simp_all add: int32_of_def)

end
