(* ===== verification/Packets.thy ===== *)
theory Packets
  imports Prelude
begin

section \<open>Packets (\<open>common/packet.h\<close>, \<open>xpass/xpass.h\<close>, \<open>common/agent.cc\<close>)\<close>

text \<open>
  The header fields that the modelled components read or write: \<open>hdr_cmn\<close>'s type and size,
  \<open>hdr_tcp\<close>'s sequence number, acknowledgement number and header length, and the three fields
  of \<open>hdr_xpass\<close>. Addresses, ports, flags and trace fields are written by \<open>Agent::initpkt\<close> and
  read by none of them, so they have no field here. \<open>PT_OTHER\<close> stands for every packet type of
  \<open>packet.h\<close> that ExpressPass does not name.
\<close>

datatype packet_t =
    PT_XPASS_CREDIT_REQUEST | PT_XPASS_CREDIT_STOP | PT_XPASS_CREDIT | PT_XPASS_DATA
  | PT_XPASS_NACK | PT_OTHER

record packet =
  ptype :: packet_t
  pkt_size :: int
  seqno :: seq_t
  ackno :: seq_t
  hlen :: int
  credit_sent_time :: time
  credit_seq :: seq_t
  sendbuffer :: int

text \<open>\<open>Agent::allocpkt\<close>: \<open>Packet::alloc\<close> zeroes the headers, \<open>initpkt\<close> sets type and size.\<close>

definition allocpkt :: "packet_t \<Rightarrow> int \<Rightarrow> packet" where
  "allocpkt ty n =
     \<lparr>ptype = ty, pkt_size = n, seqno = 0, ackno = 0, hlen = 0,
      credit_sent_time = 0, credit_seq = 0, sendbuffer = 0\<rparr>"

lemma allocpkt_sel [simp]:
  "ptype (allocpkt ty n) = ty" "pkt_size (allocpkt ty n) = n" "seqno (allocpkt ty n) = 0"
  "ackno (allocpkt ty n) = 0" "hlen (allocpkt ty n) = 0" "credit_sent_time (allocpkt ty n) = 0"
  "credit_seq (allocpkt ty n) = 0" "sendbuffer (allocpkt ty n) = 0"
  by (simp_all add: allocpkt_def)

end
