(* ===== verification/Timer_Handler.thy ===== *)
theory Timer_Handler
  imports Prelude
begin

section \<open>Timers (\<open>common/timer-handler.h\<close>, \<open>common/timer-handler.cc\<close>)\<close>

text \<open>
  A \<open>TimerHandler\<close> owns one scheduler event, \<open>event_\<close>. The model keeps the status and, for the
  event, the time for which it is queued (\<open>None\<close>: not in the scheduler's queue). \<open>_sched\<close> and
  \<open>_cancel\<close> are the two calls a timer makes to the scheduler; \<open>_sched\<close> fails where
  \<open>Scheduler::schedule\<close> aborts on an event that is already queued.
\<close>

datatype TimerStatus = TIMER_IDLE | TIMER_PENDING | TIMER_HANDLING

record timer =
  status :: TimerStatus
  event_at :: "xreal option"

definition new_timer :: timer where
  "new_timer = \<lparr>status = TIMER_IDLE, event_at = None\<rparr>"

definition tm_sched_event :: "time \<Rightarrow> xreal \<Rightarrow> timer \<Rightarrow> timer res" where
  "tm_sched_event now delay t =
     (if event_at t \<noteq> None then Inl EventUidNotValid
      else Inr (t\<lparr>event_at := Some (xadd now delay)\<rparr>))"

definition tm_cancel_event :: "timer \<Rightarrow> timer" where
  "tm_cancel_event t = t\<lparr>event_at := None\<rparr>"

definition tm_cancel :: "timer \<Rightarrow> timer res" where
  "tm_cancel t =
     (if status t \<noteq> TIMER_PENDING then Inl TimerNotScheduled
      else Inr ((tm_cancel_event t)\<lparr>status := TIMER_IDLE\<rparr>))"

definition tm_force_cancel :: "timer \<Rightarrow> timer" where
  "tm_force_cancel t =
     (if status t = TIMER_PENDING then (tm_cancel_event t)\<lparr>status := TIMER_IDLE\<rparr> else t)"

definition tm_sched :: "time \<Rightarrow> xreal \<Rightarrow> timer \<Rightarrow> timer res" where
  "tm_sched now delay t =
     (if status t \<noteq> TIMER_IDLE then Inl TimerCouldNotSchedule
      else res_bind (tm_sched_event now delay t) (\<lambda>t. Inr (t\<lparr>status := TIMER_PENDING\<rparr>)))"

definition tm_resched :: "time \<Rightarrow> xreal \<Rightarrow> timer \<Rightarrow> timer res" where
  "tm_resched now delay t =
     (let t = (if status t = TIMER_PENDING then tm_cancel_event t else t)
      in res_bind (tm_sched_event now delay t) (\<lambda>t. Inr (t\<lparr>status := TIMER_PENDING\<rparr>)))"

text \<open>
  \<open>handle\<close> is called by \<open>Scheduler::dispatch\<close>, which has taken the event off the queue. The
  client's \<open>expire\<close> works on the whole object the timer is a field of, so \<open>tm_handle\<close> takes the
  field's reader and writer and the client's function.
\<close>

definition tm_handle ::
  "('s \<Rightarrow> timer) \<Rightarrow> (timer \<Rightarrow> 's \<Rightarrow> 's) \<Rightarrow> ('s \<Rightarrow> 's res) \<Rightarrow> 's \<Rightarrow> 's res" where
  "tm_handle get put expire s =
     (let t = tm_cancel_event (get s)
      in if status t \<noteq> TIMER_PENDING then Inl TimerHandleSanity
         else res_bind (expire (put (t\<lparr>status := TIMER_HANDLING\<rparr>) s))
                (\<lambda>s. Inr (if status (get s) = TIMER_HANDLING
                          then put ((get s)\<lparr>status := TIMER_IDLE\<rparr>) s else s)))"

text \<open>The event is queued exactly while the timer is pending.\<close>

definition timer_ok :: "timer \<Rightarrow> bool" where
  "timer_ok t \<longleftrightarrow> (status t = TIMER_PENDING \<longleftrightarrow> event_at t \<noteq> None)"

abbreviation pending :: "timer \<Rightarrow> bool" where
  "pending t \<equiv> status t = TIMER_PENDING"

declare timer_ok_def [inv_simps]

lemmas timer_defs = tm_sched_event_def tm_cancel_event_def tm_cancel_def tm_force_cancel_def
  tm_sched_def tm_resched_def

subsection \<open>Behaviour of each operation\<close>

lemma timer_ok_new [simp]: "timer_ok new_timer"
  by (simp add: timer_ok_def new_timer_def)

lemma timer_ok_force_cancel [simp]: "timer_ok t \<Longrightarrow> timer_ok (tm_force_cancel t)"
  by (simp add: timer_ok_def timer_defs)

lemma not_pending_force_cancel [simp]: "\<not> pending (tm_force_cancel t)"
  by (simp add: timer_defs)

lemma force_cancel_idle [simp]: "\<not> pending t \<Longrightarrow> tm_force_cancel t = t"
  by (simp add: timer_defs)

text \<open>\<open>resched\<close> never fails on a well-formed timer, whatever its status.\<close>

lemma tm_resched_ok:
  "timer_ok t \<Longrightarrow>
   tm_resched now d t = Inr \<lparr>status = TIMER_PENDING, event_at = Some (xadd now d)\<rparr>"
  by (cases t) (auto simp: timer_ok_def timer_defs Let_def)

lemma tm_sched_ok:
  "timer_ok t \<Longrightarrow> status t = TIMER_IDLE \<Longrightarrow>
   tm_sched now d t = Inr \<lparr>status = TIMER_PENDING, event_at = Some (xadd now d)\<rparr>"
  by (cases t) (auto simp: timer_ok_def timer_defs Let_def)

lemma tm_sched_busy:
  "status t \<noteq> TIMER_IDLE \<Longrightarrow> tm_sched now d t = Inl TimerCouldNotSchedule"
  by (simp add: timer_defs)

lemma timer_ok_pending [simp]: "timer_ok \<lparr>status = TIMER_PENDING, event_at = Some x\<rparr>"
  by (simp add: timer_ok_def)

text \<open>What the client's \<open>expire\<close> sees of its own timer.\<close>

abbreviation handling :: timer where
  "handling \<equiv> \<lparr>status = TIMER_HANDLING, event_at = None\<rparr>"

lemma timer_ok_handling [simp]: "timer_ok handling"
  by (simp add: timer_ok_def)

lemma tm_handle_pending:
  assumes "pending (get s)"
  shows "tm_handle get put expire s =
    res_bind (expire (put handling s))
      (\<lambda>s. Inr (if status (get s) = TIMER_HANDLING
                then put ((get s)\<lparr>status := TIMER_IDLE\<rparr>) s else s))"
proof -
  have "(tm_cancel_event (get s))\<lparr>status := TIMER_HANDLING\<rparr> = handling"
    by (cases "get s") (simp add: tm_cancel_event_def)
  moreover have "pending (tm_cancel_event (get s))"
    using assms by (simp add: tm_cancel_event_def)
  ultimately show ?thesis by (simp add: tm_handle_def Let_def)
qed

lemma tm_handle_not_pending:
  "\<not> pending (get s) \<Longrightarrow> tm_handle get put expire s = Inl TimerHandleSanity"
  by (simp add: tm_handle_def tm_cancel_event_def)

end
