(* ===== verification/XPass_Agent.thy ===== *)
theory XPass_Agent
  imports Packets Timer_Handler
begin

section \<open>The ExpressPass agent (\<open>xpass/xpass.h\<close>, \<open>xpass/xpass.cc\<close>)\<close>

text \<open>
  One \<open>XPassAgent\<close> is both ends of a flow: the data sender, driven by \<open>credit_recv_state\<close>, and
  the data receiver, which paces credits and is driven by \<open>credit_send_state\<close>. The record has the
  members of the class, the bound configuration variables first. Three fields stand for the
  agent's surroundings: \<open>sent\<close> is every packet given to \<open>Agent::send\<close> in order, \<open>log_lines\<close> the
  lines written to \<open>outputs/fct.out\<close> and \<open>outputs/waste.out\<close>, and \<open>rand_seq\<close> with \<open>rand_pos\<close>
  the values that \<open>rand()\<close> returns. Every operation takes the clock's value as its argument
  \<open>now\<close> (the method \<open>now()\<close>) and returns the new state, or the error at which the code exits.
\<close>

datatype XPASS_SEND_STATE =
    XPASS_SEND_CLOSED | XPASS_SEND_CLOSE_WAIT | XPASS_SEND_CREDIT_SENDING
  | XPASS_SEND_CREDIT_STOP_RECEIVED | XPASS_SEND_NSTATE

datatype XPASS_RECV_STATE =
    XPASS_RECV_CLOSED | XPASS_RECV_CLOSE_WAIT | XPASS_RECV_CREDIT_REQUEST_SENT
  | XPASS_RECV_CREDIT_RECEIVING | XPASS_RECV_CREDIT_STOP_SENT | XPASS_RECV_NSTATE

datatype log_line =
    FctLine int seq_t time      \<comment> \<open>flow id, bytes received, completion time\<close>
  | WasteLine int seq_t int     \<comment> \<open>flow id, bytes sent, credits wasted\<close>

record xpass =
  fid :: int
  agent_size :: int
  min_ethernet_size :: int
  max_ethernet_size :: int
  min_credit_size :: int
  max_credit_size :: int
  xpass_hdr_size :: int
  max_credit_rate :: int
  alpha :: real
  target_loss_scaling :: real
  w_init :: real
  min_w :: real
  max_jitter :: real
  min_jitter :: real
  retransmit_timeout :: time
  default_credit_stop_timeout :: time
  credit_send_state :: XPASS_SEND_STATE
  credit_recv_state :: XPASS_RECV_STATE
  cur_credit_rate :: int
  last_credit_rate_update :: time
  credit_total :: int
  credit_dropped :: int
  w_cur :: real
  can_increase_w :: bool
  send_credit_timer :: timer
  credit_stop_timer :: timer
  sender_retransmit_timer :: timer
  receiver_retransmit_timer :: timer
  fct_timer :: timer
  curseq :: seq_t
  t_seqno :: seq_t
  recv_next :: seq_t
  c_seqno :: seq_t
  c_recv_next :: seq_t
  rtt :: time
  fst_time :: time
  fct :: time
  credit_recved :: int
  credit_recved_rtt :: int
  last_credit_recv_update :: time
  wait_retransmission :: bool
  credit_wasted :: int
  sent :: "packet list"
  log_lines :: "log_line list"
  rand_seq :: "nat \<Rightarrow> int"
  rand_pos :: nat

text \<open>The constructor: the members of its initialiser list; the bound variables keep the values
  Tcl gives them and \<open>cur_credit_rate\<close>, \<open>w_cur\<close>, \<open>fst_time\<close> and \<open>fct\<close> are not initialised.\<close>

definition new_XPassAgent :: "xpass \<Rightarrow> xpass" where
  "new_XPassAgent s =
     s\<lparr>credit_send_state := XPASS_SEND_CLOSED, credit_recv_state := XPASS_RECV_CLOSED,
       last_credit_rate_update := 0, credit_total := 0, credit_dropped := 0,
       can_increase_w := False, send_credit_timer := new_timer, credit_stop_timer := new_timer,
       sender_retransmit_timer := new_timer, receiver_retransmit_timer := new_timer,
       fct_timer := new_timer, curseq := 1, t_seqno := 1, recv_next := 1, c_seqno := 1,
       c_recv_next := 1, rtt := 0, credit_recved := 0, wait_retransmission := False,
       credit_wasted := 0, credit_recved_rtt := 0, last_credit_recv_update := 0\<rparr>"

subsection \<open>Small operations\<close>

definition rand_max :: int where "rand_max = 2147483647"

definition draw_rand :: "xpass \<Rightarrow> int \<times> xpass" where
  "draw_rand s = (rand_seq s (rand_pos s), s\<lparr>rand_pos := Suc (rand_pos s)\<rparr>)"

definition send :: "packet \<Rightarrow> xpass \<Rightarrow> xpass" where
  "send p s = s\<lparr>sent := sent s @ [p]\<rparr>"

definition on_timer ::
  "(xpass \<Rightarrow> timer) \<Rightarrow> ((timer \<Rightarrow> timer) \<Rightarrow> xpass \<Rightarrow> xpass) \<Rightarrow> (timer \<Rightarrow> timer res) \<Rightarrow>
   xpass \<Rightarrow> xpass res" where
  "on_timer get upd f s = res_bind (f (get s)) (\<lambda>t. Inr (upd (\<lambda>_. t) s))"

definition datalen_remaining :: "xpass \<Rightarrow> seq_t" where
  "datalen_remaining s = curseq s - t_seqno s"

definition max_segment :: "xpass \<Rightarrow> int" where
  "max_segment s = max_ethernet_size s - xpass_hdr_size s"

definition pkt_remaining :: "xpass \<Rightarrow> int" where
  "pkt_remaining s = \<lceil>real_of_int (datalen_remaining s) / real_of_int (max_segment s)\<rceil>"

definition avg_credit_size :: "xpass \<Rightarrow> real" where
  "avg_credit_size s = real_of_int (min_credit_size s + max_credit_size s) / 2"

definition xp_init :: "time \<Rightarrow> xpass \<Rightarrow> xpass" where
  "xp_init now s = s\<lparr>w_cur := w_init s, last_credit_rate_update := now\<rparr>"

subsection \<open>Packet construction\<close>

definition construct_credit_request :: "time \<Rightarrow> xpass \<Rightarrow> packet \<times> xpass" where
  "construct_credit_request now s =
     ((allocpkt PT_XPASS_DATA (agent_size s))
        \<lparr>seqno := t_seqno s, ackno := recv_next s, hlen := xpass_hdr_size s,
         pkt_size := min_ethernet_size s, ptype := PT_XPASS_CREDIT_REQUEST,
         credit_seq := 0, credit_sent_time := now, sendbuffer := pkt_remaining s\<rparr>,
      s\<lparr>rtt := now\<rparr>)"

definition construct_credit_stop :: "xpass \<Rightarrow> packet" where
  "construct_credit_stop s =
     (allocpkt PT_XPASS_DATA (agent_size s))
        \<lparr>seqno := t_seqno s, ackno := recv_next s, hlen := xpass_hdr_size s,
         pkt_size := min_ethernet_size s, ptype := PT_XPASS_CREDIT_STOP, credit_seq := 0\<rparr>"

definition construct_credit :: "time \<Rightarrow> xpass \<Rightarrow> (packet \<times> xpass) res" where
  "construct_credit now s =
     res_bind
       (if min_credit_size s < max_credit_size s
        then let (r, s) = draw_rand s
             in Inr (min_credit_size s + r mod (max_credit_size s - min_credit_size s + 1), s)
        else if min_credit_size s \<noteq> max_credit_size s then Inl CreditSizeOrder
        else Inr (min_credit_size s, s))
       (\<lambda>(credit_size, s).
          Inr ((allocpkt PT_XPASS_DATA (agent_size s))
                 \<lparr>seqno := t_seqno s, ackno := recv_next s, hlen := credit_size,
                  pkt_size := credit_size, ptype := PT_XPASS_CREDIT,
                  credit_sent_time := now, credit_seq := c_seqno s\<rparr>,
               s\<lparr>c_seqno := tmax 1 (c_seqno s + 1)\<rparr>))"

definition construct_data :: "packet \<Rightarrow> xpass \<Rightarrow> (packet \<times> xpass) res" where
  "construct_data credit s =
     (let datalen = int32_of (tmin (max_segment s) (datalen_remaining s))
      in if datalen \<le> 0 then Inl DataLengthNotPositive
         else Inr ((allocpkt PT_XPASS_DATA (agent_size s))
                     \<lparr>seqno := t_seqno s, ackno := recv_next s, hlen := xpass_hdr_size s,
                      pkt_size := tmax (min_ethernet_size s) (xpass_hdr_size s + datalen),
                      ptype := PT_XPASS_DATA,
                      credit_sent_time := credit_sent_time credit,
                      credit_seq := credit_seq credit\<rparr>,
                   s\<lparr>t_seqno := t_seqno s + datalen\<rparr>))"

definition construct_nack :: "seq_t \<Rightarrow> xpass \<Rightarrow> packet" where
  "construct_nack seq_no s =
     (allocpkt PT_XPASS_DATA (agent_size s))
        \<lparr>ackno := seq_no, hlen := xpass_hdr_size s,
         pkt_size := min_ethernet_size s, ptype := PT_XPASS_NACK\<rparr>"

subsection \<open>Credit pacing and feedback control (data receiver)\<close>

text \<open>
  The branches of \<open>credit_feedback_control\<close>: congestion has been detected, there is no congestion,
  and the limits at the end. A target loss that is not finite is the error \<open>NotFinite\<close>.
\<close>

definition feedback_congested :: "time \<Rightarrow> real \<Rightarrow> real \<Rightarrow> xpass \<Rightarrow> xpass res" where
  "feedback_congested now target_loss loss_rate s =
     (let old_rate = cur_credit_rate s
      in res_bind
           (if 1 \<le> loss_rate then to_int (avg_credit_size s / rtt s)
            else to_int (avg_credit_size s * real_of_int (credit_total s - credit_dropped s)
                           / (now - last_credit_rate_update s) * (1 + target_loss)))
           (\<lambda>rate.
              let s = s\<lparr>cur_credit_rate := rate\<rparr>;
                  s = (if old_rate < cur_credit_rate s then s\<lparr>cur_credit_rate := old_rate\<rparr> else s)
              in Inr (s\<lparr>w_cur := tmax (w_cur s / 2) (min_w s), can_increase_w := False\<rparr>)))"

definition feedback_raise :: "xpass \<Rightarrow> xpass res" where
  "feedback_raise s =
     (let s = (if can_increase_w s then s\<lparr>w_cur := tmin (w_cur s + 5 / 100) (1 / 2)\<rparr>
               else s\<lparr>can_increase_w := True\<rparr>)
      in if cur_credit_rate s < max_credit_rate s
         then res_bind
                (to_int (w_cur s * real_of_int (max_credit_rate s)
                           + (1 - w_cur s) * real_of_int (cur_credit_rate s)))
                (\<lambda>rate. Inr (s\<lparr>cur_credit_rate := rate\<rparr>))
         else Inr s)"

definition feedback_limit :: "int \<Rightarrow> xpass \<Rightarrow> xpass" where
  "feedback_limit min_rate s =
     (let s = (if max_credit_rate s < cur_credit_rate s
               then s\<lparr>cur_credit_rate := max_credit_rate s\<rparr> else s)
      in if cur_credit_rate s < min_rate then s\<lparr>cur_credit_rate := min_rate\<rparr> else s)"

definition credit_feedback_control :: "time \<Rightarrow> xpass \<Rightarrow> xpass res" where
  "credit_feedback_control now s =
     (if rtt s \<le> 0 then Inr s
      else if now - last_credit_rate_update s < rtt s then Inr s
      else if credit_total s = 0 then Inr s
      else if max_credit_rate s = 0 then Inl NotFinite
      else
        let loss_rate = real_of_int (credit_dropped s) / real_of_int (credit_total s);
            target_loss = (1 - real_of_int (cur_credit_rate s) / real_of_int (max_credit_rate s))
                            * target_loss_scaling s
        in res_bind (to_int (avg_credit_size s / rtt s)) (\<lambda>min_rate.
           res_bind (if target_loss < loss_rate then feedback_congested now target_loss loss_rate s
                     else feedback_raise s) (\<lambda>s.
             Inr ((feedback_limit min_rate s)
                    \<lparr>credit_total := 0, credit_dropped := 0, last_credit_rate_update := now\<rparr>))))"

definition credit_delay :: "xpass \<Rightarrow> (xreal \<times> xpass) res" where
  "credit_delay s =
     (let delay = xdiv (avg_credit_size s) (real_of_int (cur_credit_rate s))
      in if min_jitter s < max_jitter s
         then let (r, s) = draw_rand s;
                  jitter = real_of_int r / real_of_int rand_max;
                  jitter = jitter * (max_jitter s - min_jitter s) + min_jitter s
              in Inr (xmul delay (1 + jitter), s)
         else if max_jitter s < min_jitter s then Inl JitterOrder
         else Inr (delay, s))"

definition send_credit :: "time \<Rightarrow> xpass \<Rightarrow> xpass res" where
  "send_credit now s =
     res_bind (credit_feedback_control now s) (\<lambda>s.
     res_bind (construct_credit now s) (\<lambda>(p, s).
     res_bind (credit_delay (send p s)) (\<lambda>(delay, s).
     on_timer send_credit_timer send_credit_timer_update (tm_resched now delay) s)))"

definition send_credit_stop :: "time \<Rightarrow> xpass \<Rightarrow> xpass res" where
  "send_credit_stop now s =
     (let s = send (construct_credit_stop s) s
      in res_bind
           (on_timer sender_retransmit_timer sender_retransmit_timer_update
              (tm_resched now
                 (Fin (if 0 < rtt s then 2 * rtt s else default_credit_stop_timeout s))) s)
           (\<lambda>s. Inr (s\<lparr>credit_recv_state := XPASS_RECV_CREDIT_STOP_SENT\<rparr>)))"

definition send_credit_request :: "time \<Rightarrow> xpass \<Rightarrow> xpass" where
  "send_credit_request now s =
     (let (p, s) = construct_credit_request now s in send p s)"

definition send_data :: "packet \<Rightarrow> xpass \<Rightarrow> xpass res" where
  "send_data credit s = res_bind (construct_data credit s) (\<lambda>(p, s). Inr (send p s))"

definition advance_bytes :: "time \<Rightarrow> seq_t \<Rightarrow> xpass \<Rightarrow> xpass res" where
  "advance_bytes now nb s =
     (let s = s\<lparr>curseq := curseq s + nb\<rparr>;
          s = send_credit_request now s
      in res_bind
           (on_timer sender_retransmit_timer sender_retransmit_timer_update
              (tm_sched now (Fin (retransmit_timeout s))) s)
           (\<lambda>s. Inr (s\<lparr>credit_recv_state := XPASS_RECV_CREDIT_REQUEST_SENT\<rparr>)))"

subsection \<open>Receiving data (data receiver)\<close>

definition process_ack :: "time \<Rightarrow> packet \<Rightarrow> xpass \<Rightarrow> xpass res" where
  "process_ack now pkt s =
     (let datalen = pkt_size pkt - hlen pkt
      in if datalen < 0 then Inl NegativePacketLength
         else if recv_next s < seqno pkt
         then if \<not> wait_retransmission s
              then let s = s\<lparr>wait_retransmission := True\<rparr>;
                       s = send (construct_nack (recv_next s) s) s
                   in on_timer receiver_retransmit_timer receiver_retransmit_timer_update
                        (tm_resched now (Fin (retransmit_timeout s))) s
              else Inr s
         else if seqno pkt = recv_next s
         then let s = (if wait_retransmission s
                       then s\<lparr>wait_retransmission := False,
                              receiver_retransmit_timer :=
                                tm_force_cancel (receiver_retransmit_timer s)\<rparr>
                       else s)
              in Inr (s\<lparr>recv_next := recv_next s + datalen\<rparr>)
         else Inr s)"

definition update_rtt :: "time \<Rightarrow> packet \<Rightarrow> xpass \<Rightarrow> xpass" where
  "update_rtt now pkt s =
     (let r = now - credit_sent_time pkt
      in if 0 < rtt s then s\<lparr>rtt := 8 / 10 * rtt s + 2 / 10 * r\<rparr> else s\<lparr>rtt := r\<rparr>)"

definition recv_data :: "time \<Rightarrow> packet \<Rightarrow> xpass \<Rightarrow> xpass res" where
  "recv_data now pkt s =
     (let distance = int32_of (credit_seq pkt - c_recv_next s)
      in if distance < 0 then Inl CreditSeqReverted
         else
           let s = s\<lparr>credit_total := credit_total s + (distance + 1),
                     credit_dropped := credit_dropped s + distance,
                     c_recv_next := credit_seq pkt + 1\<rparr>
           in res_bind (process_ack now pkt s) (\<lambda>s. Inr (update_rtt now pkt s)))"

definition recv_credit_request :: "time \<Rightarrow> packet \<Rightarrow> xpass \<Rightarrow> xpass res" where
  "recv_credit_request now pkt s =
     (let start = (\<lambda>s.
            let s = xp_init now s;
                lalpha = (if 40 \<le> sendbuffer pkt then alpha s
                          else alpha s * real_of_int (sendbuffer pkt) / 40)
            in res_bind (to_int (lalpha * real_of_int (max_credit_rate s))) (\<lambda>rate.
               res_bind (send_credit now (s\<lparr>cur_credit_rate := rate, fst_time := credit_sent_time pkt\<rparr>))
                 (\<lambda>s. Inr (s\<lparr>credit_send_state := XPASS_SEND_CREDIT_SENDING\<rparr>))))
      in case credit_send_state s of
           XPASS_SEND_CLOSE_WAIT \<Rightarrow> start (s\<lparr>fct_timer := tm_force_cancel (fct_timer s)\<rparr>)
         | XPASS_SEND_CLOSED \<Rightarrow> start s
         | _ \<Rightarrow> Inr s)"

definition recv_credit_stop :: "time \<Rightarrow> packet \<Rightarrow> xpass \<Rightarrow> xpass res" where
  "recv_credit_stop now pkt s =
     (let s = s\<lparr>fct := now - fst_time s\<rparr>
      in res_bind
           (on_timer fct_timer fct_timer_update
              (tm_sched now (Fin (default_credit_stop_timeout s))) s)
           (\<lambda>s. Inr (s\<lparr>send_credit_timer := tm_force_cancel (send_credit_timer s),
                      credit_send_state := XPASS_SEND_CLOSE_WAIT\<rparr>)))"

definition handle_fct :: "xpass \<Rightarrow> xpass" where
  "handle_fct s =
     s\<lparr>log_lines := log_lines s @ [FctLine (fid s) (recv_next s - 1) (fct s)],
       credit_send_state := XPASS_SEND_CLOSED\<rparr>"

definition handle_receiver_retransmit :: "time \<Rightarrow> xpass \<Rightarrow> xpass res" where
  "handle_receiver_retransmit now s =
     (if wait_retransmission s
      then let s = send (construct_nack (recv_next s) s) s
           in on_timer receiver_retransmit_timer receiver_retransmit_timer_update
                (tm_resched now (Fin (retransmit_timeout s))) s
      else Inr s)"

subsection \<open>Receiving credits (data sender)\<close>

definition sched_credit_stop :: "time \<Rightarrow> xpass \<Rightarrow> xpass res" where
  "sched_credit_stop now s =
     (if status (credit_stop_timer s) \<noteq> TIMER_IDLE then Inl CreditStopTimerBusy
      else on_timer credit_stop_timer credit_stop_timer_update (tm_sched now (Fin 0)) s)"

definition check_credit_stop :: "time \<Rightarrow> xpass \<Rightarrow> xpass res" where
  "check_credit_stop now s =
     (if datalen_remaining s = 0 then sched_credit_stop now s
      else if rtt s \<le> now - last_credit_recv_update s
      then res_bind
             (if 1 * pkt_remaining s \<le> credit_recved_rtt s then sched_credit_stop now s
              else Inr s)
             (\<lambda>s. Inr (s\<lparr>credit_recved_rtt := 0, last_credit_recv_update := now\<rparr>))
      else Inr s)"

definition recv_credit_receiving :: "time \<Rightarrow> packet \<Rightarrow> xpass \<Rightarrow> xpass res" where
  "recv_credit_receiving now pkt s =
     res_bind (if 0 < datalen_remaining s then send_data pkt s else Inr s)
       (check_credit_stop now)"

definition recv_credit :: "time \<Rightarrow> packet \<Rightarrow> xpass \<Rightarrow> xpass res" where
  "recv_credit now pkt s =
     (let s = s\<lparr>credit_recved_rtt := credit_recved_rtt s + 1\<rparr>
      in case credit_recv_state s of
           XPASS_RECV_CREDIT_REQUEST_SENT \<Rightarrow>
             recv_credit_receiving now pkt
               (s\<lparr>sender_retransmit_timer := tm_force_cancel (sender_retransmit_timer s),
                  credit_recv_state := XPASS_RECV_CREDIT_RECEIVING,
                  rtt := now - rtt s,
                  last_credit_recv_update := now\<rparr>)
         | XPASS_RECV_CREDIT_RECEIVING \<Rightarrow> recv_credit_receiving now pkt s
         | XPASS_RECV_CREDIT_STOP_SENT \<Rightarrow>
             res_bind
               (if 0 < datalen_remaining s then send_data pkt s
                else Inr (s\<lparr>credit_wasted := credit_wasted s + 1\<rparr>))
               (\<lambda>s. Inr (s\<lparr>credit_recved := credit_recved s + 1\<rparr>))
         | XPASS_RECV_CLOSE_WAIT \<Rightarrow> Inr (s\<lparr>credit_wasted := credit_wasted s + 1\<rparr>)
         | XPASS_RECV_CLOSED \<Rightarrow> Inr (s\<lparr>credit_wasted := credit_wasted s + 1\<rparr>)
         | XPASS_RECV_NSTATE \<Rightarrow> Inr s)"

definition recv_nack :: "time \<Rightarrow> packet \<Rightarrow> xpass \<Rightarrow> xpass res" where
  "recv_nack now pkt s =
     (let restart = (\<lambda>s. s\<lparr>t_seqno := ackno pkt\<rparr>);
          reopen = (\<lambda>s.
            let s = send_credit_request now s;
                s = s\<lparr>credit_recv_state := XPASS_RECV_CREDIT_REQUEST_SENT\<rparr>
            in res_bind
                 (on_timer sender_retransmit_timer sender_retransmit_timer_update
                    (tm_resched now (Fin (retransmit_timeout s))) s)
                 (\<lambda>s. Inr (restart s)))
      in case credit_recv_state s of
           XPASS_RECV_CREDIT_STOP_SENT \<Rightarrow> reopen s
         | XPASS_RECV_CLOSE_WAIT \<Rightarrow> reopen s
         | XPASS_RECV_CLOSED \<Rightarrow> reopen s
         | XPASS_RECV_CREDIT_REQUEST_SENT \<Rightarrow> Inr (restart s)
         | XPASS_RECV_CREDIT_RECEIVING \<Rightarrow> Inr (restart s)
         | XPASS_RECV_NSTATE \<Rightarrow> Inr s)"

definition handle_sender_retransmit :: "time \<Rightarrow> xpass \<Rightarrow> xpass res" where
  "handle_sender_retransmit now s =
     (case credit_recv_state s of
        XPASS_RECV_CREDIT_REQUEST_SENT \<Rightarrow>
          let s = send_credit_request now s
          in on_timer sender_retransmit_timer sender_retransmit_timer_update
               (tm_resched now (Fin (retransmit_timeout s))) s
      | XPASS_RECV_CREDIT_STOP_SENT \<Rightarrow>
          if 0 < datalen_remaining s
          then let s = s\<lparr>credit_recv_state := XPASS_RECV_CREDIT_REQUEST_SENT\<rparr>;
                   s = send_credit_request now s
               in on_timer sender_retransmit_timer sender_retransmit_timer_update
                    (tm_resched now (Fin (retransmit_timeout s))) s
          else let s = s\<lparr>credit_recv_state := XPASS_RECV_CLOSE_WAIT, credit_recved := 0\<rparr>
               in on_timer sender_retransmit_timer sender_retransmit_timer_update
                    (tm_resched now
                       (Fin (if 0 < rtt s then rtt s else default_credit_stop_timeout s))) s
      | XPASS_RECV_CLOSE_WAIT \<Rightarrow>
          if credit_recved s = 0
          then Inr (s\<lparr>credit_recv_state := XPASS_RECV_CLOSED,
                      sender_retransmit_timer := tm_force_cancel (sender_retransmit_timer s),
                      log_lines := log_lines s
                        @ [WasteLine (fid s) (curseq s - 1) (credit_wasted s)]\<rparr>)
          else send_credit_stop now s
      | XPASS_RECV_CLOSED \<Rightarrow> Inl RetransmitWhileClosed
      | _ \<Rightarrow> Inr s)"

subsection \<open>Entry points: packets, timers, commands\<close>

definition recv :: "time \<Rightarrow> packet \<Rightarrow> xpass \<Rightarrow> xpass res" where
  "recv now pkt s =
     (case ptype pkt of
        PT_XPASS_CREDIT_REQUEST \<Rightarrow> recv_credit_request now pkt s
      | PT_XPASS_CREDIT \<Rightarrow> recv_credit now pkt s
      | PT_XPASS_DATA \<Rightarrow> recv_data now pkt s
      | PT_XPASS_CREDIT_STOP \<Rightarrow> recv_credit_stop now pkt s
      | PT_XPASS_NACK \<Rightarrow> recv_nack now pkt s
      | PT_OTHER \<Rightarrow> Inr s)"

definition SendCreditTimer_expire :: "time \<Rightarrow> xpass \<Rightarrow> xpass res" where
  "SendCreditTimer_expire now s = send_credit now s"

definition CreditStopTimer_expire :: "time \<Rightarrow> xpass \<Rightarrow> xpass res" where
  "CreditStopTimer_expire now s = send_credit_stop now s"

definition SenderRetransmitTimer_expire :: "time \<Rightarrow> xpass \<Rightarrow> xpass res" where
  "SenderRetransmitTimer_expire now s = handle_sender_retransmit now s"

definition ReceiverRetransmitTimer_expire :: "time \<Rightarrow> xpass \<Rightarrow> xpass res" where
  "ReceiverRetransmitTimer_expire now s = handle_receiver_retransmit now s"

definition FCTTimer_expire :: "time \<Rightarrow> xpass \<Rightarrow> xpass res" where
  "FCTTimer_expire now s = Inr (handle_fct s)"

datatype tcl_result = TCL_OK | TCL_ERROR

datatype xp_command = CmdListen | CmdStop | CmdAdvanceBytes seq_t

definition command :: "time \<Rightarrow> xp_command \<Rightarrow> xpass \<Rightarrow> (tcl_result \<times> xpass) res" where
  "command now c s =
     (case c of
        CmdListen \<Rightarrow> Inr (TCL_OK, s)
      | CmdStop \<Rightarrow> Inr (TCL_OK, s)
      | CmdAdvanceBytes nb \<Rightarrow>
          if credit_recv_state s = XPASS_RECV_CLOSED
          then res_bind (advance_bytes now nb s) (\<lambda>s. Inr (TCL_OK, s))
          else Inr (TCL_ERROR, s))"

datatype xp_event =
    EvRecv packet | EvSendCredit | EvCreditStop | EvSenderRetransmit | EvReceiverRetransmit
  | EvFct | EvCommand xp_command

fun xp_handle :: "time \<Rightarrow> xp_event \<Rightarrow> xpass \<Rightarrow> xpass res" where
  "xp_handle now (EvRecv p) s = recv now p s"
| "xp_handle now EvSendCredit s =
     tm_handle send_credit_timer (\<lambda>t. send_credit_timer_update (\<lambda>_. t))
       (SendCreditTimer_expire now) s"
| "xp_handle now EvCreditStop s =
     tm_handle credit_stop_timer (\<lambda>t. credit_stop_timer_update (\<lambda>_. t))
       (CreditStopTimer_expire now) s"
| "xp_handle now EvSenderRetransmit s =
     tm_handle sender_retransmit_timer (\<lambda>t. sender_retransmit_timer_update (\<lambda>_. t))
       (SenderRetransmitTimer_expire now) s"
| "xp_handle now EvReceiverRetransmit s =
     tm_handle receiver_retransmit_timer (\<lambda>t. receiver_retransmit_timer_update (\<lambda>_. t))
       (ReceiverRetransmitTimer_expire now) s"
| "xp_handle now EvFct s =
     tm_handle fct_timer (\<lambda>t. fct_timer_update (\<lambda>_. t)) (FCTTimer_expire now) s"
| "xp_handle now (EvCommand c) s =
     res_bind (command now c s) (\<lambda>(r, s). Inr s)"

text \<open>A timer event can only be dispatched while the timer's event is in the scheduler's queue.\<close>

fun xp_enabled :: "xp_event \<Rightarrow> xpass \<Rightarrow> bool" where
  "xp_enabled EvSendCredit s = pending (send_credit_timer s)"
| "xp_enabled EvCreditStop s = pending (credit_stop_timer s)"
| "xp_enabled EvSenderRetransmit s = pending (sender_retransmit_timer s)"
| "xp_enabled EvReceiverRetransmit s = pending (receiver_retransmit_timer s)"
| "xp_enabled EvFct s = pending (fct_timer s)"
| "xp_enabled _ s = True"

inductive xp_step :: "xpass \<Rightarrow> xpass \<Rightarrow> bool" where
  xp_stepI: "xp_enabled ev s \<Longrightarrow> xp_handle now ev s = Inr s' \<Longrightarrow> xp_step s s'"

inductive xp_reach :: "xpass \<Rightarrow> bool" where
  xp_start: "xp_reach (new_XPassAgent s)"
| xp_more: "xp_reach s \<Longrightarrow> xp_step s s' \<Longrightarrow> xp_reach s'"

end
