(* ===== verification/XPass_Control.thy ===== *)
theory XPass_Control
  imports XPass_Agent
begin

section \<open>Control states and timers of the ExpressPass agent\<close>

text \<open>
  The invariant that ties the two state machines of the agent to its five timers, that every
  handler keeps it, and what follows from it in every reachable state: which timers run in which
  state, which of the code's exits can be reached, and that the retransmission of a credit stop
  cannot.
\<close>

definition recv_waiting :: "XPASS_RECV_STATE \<Rightarrow> bool" where
  "recv_waiting st \<longleftrightarrow> st = XPASS_RECV_CREDIT_REQUEST_SENT \<or> st = XPASS_RECV_CREDIT_STOP_SENT
     \<or> st = XPASS_RECV_CLOSE_WAIT"

definition timer_idle_or_pending :: "timer \<Rightarrow> bool" where
  "timer_idle_or_pending t \<longleftrightarrow> timer_ok t \<and> status t \<noteq> TIMER_HANDLING"

definition sender_ctl :: "XPASS_RECV_STATE \<Rightarrow> timer \<Rightarrow> timer \<Rightarrow> int \<Rightarrow> bool" where
  "sender_ctl st retransmit stop recved \<longleftrightarrow>
     timer_idle_or_pending retransmit \<and> timer_idle_or_pending stop \<and>
     st \<noteq> XPASS_RECV_NSTATE \<and>
     (pending retransmit \<longleftrightarrow> recv_waiting st) \<and>
     (pending stop \<longrightarrow> st = XPASS_RECV_CREDIT_RECEIVING) \<and>
     (st = XPASS_RECV_CLOSE_WAIT \<longrightarrow> recved = 0)"

definition receiver_ctl :: "XPASS_SEND_STATE \<Rightarrow> timer \<Rightarrow> timer \<Rightarrow> timer \<Rightarrow> bool \<Rightarrow> bool" where
  "receiver_ctl st credit fctt nackt wait \<longleftrightarrow>
     timer_idle_or_pending credit \<and> timer_idle_or_pending fctt \<and> timer_idle_or_pending nackt \<and>
     (pending credit \<longleftrightarrow> st = XPASS_SEND_CREDIT_SENDING) \<and>
     (pending fctt \<longleftrightarrow> st = XPASS_SEND_CLOSE_WAIT) \<and>
     (st = XPASS_SEND_CREDIT_SENDING \<or> st = XPASS_SEND_CLOSE_WAIT \<or> st = XPASS_SEND_CLOSED) \<and>
     (pending nackt \<longleftrightarrow> wait)"

definition ctl_inv :: "xpass \<Rightarrow> bool" where
  "ctl_inv s \<longleftrightarrow>
     sender_ctl (credit_recv_state s) (sender_retransmit_timer s) (credit_stop_timer s)
       (credit_recved s) \<and>
     receiver_ctl (credit_send_state s) (send_credit_timer s) (fct_timer s)
       (receiver_retransmit_timer s) (wait_retransmission s)"

lemmas ctl_defs = ctl_inv_def sender_ctl_def receiver_ctl_def timer_idle_or_pending_def
  recv_waiting_def

subsection \<open>Frame lemmas of the helpers\<close>

lemma timer_new_sel [simp]: "status new_timer = TIMER_IDLE" "event_at new_timer = None"
  by (simp_all add: new_timer_def)

lemma on_timer_resched [simp]:
  "timer_ok (get s) \<Longrightarrow>
   on_timer get upd (tm_resched now d) s
     = Inr (upd (\<lambda>_. \<lparr>status = TIMER_PENDING, event_at = Some (xadd now d)\<rparr>) s)"
  by (simp add: on_timer_def tm_resched_ok)

lemma on_timer_sched [simp]:
  "timer_ok (get s) \<Longrightarrow> status (get s) = TIMER_IDLE \<Longrightarrow>
   on_timer get upd (tm_sched now d) s
     = Inr (upd (\<lambda>_. \<lparr>status = TIMER_PENDING, event_at = Some (xadd now d)\<rparr>) s)"
  by (simp add: on_timer_def tm_sched_ok)

lemma on_timer_sched_busy:
  "status (get s) \<noteq> TIMER_IDLE \<Longrightarrow>
   on_timer get upd (tm_sched now d) s = Inl TimerCouldNotSchedule"
  by (simp add: on_timer_def tm_sched_busy)

lemma feedback_congested_eq:
  assumes "feedback_congested now tgt lr s = Inr s'"
  obtains r where "(if 1 \<le> lr then to_int (avg_credit_size s / rtt s)
      else to_int (avg_credit_size s * real_of_int (credit_total s - credit_dropped s)
             / (now - last_credit_rate_update s) * (1 + tgt))) = Inr r"
    "s' = s\<lparr>cur_credit_rate := min (cur_credit_rate s) r, w_cur := max (w_cur s / 2) (min_w s),
            can_increase_w := False\<rparr>"
proof -
  from assms obtain r where r: "(if 1 \<le> lr then to_int (avg_credit_size s / rtt s)
      else to_int (avg_credit_size s * real_of_int (credit_total s - credit_dropped s)
             / (now - last_credit_rate_update s) * (1 + tgt))) = Inr r"
    "s' = (let s1 = s\<lparr>cur_credit_rate := r\<rparr>;
              s2 = (if cur_credit_rate s < cur_credit_rate s1 then s1\<lparr>cur_credit_rate := cur_credit_rate s\<rparr> else s1)
          in s2\<lparr>w_cur := tmax (w_cur s2 / 2) (min_w s2), can_increase_w := False\<rparr>)"
    unfolding feedback_congested_def Let_def by (elim res_bind_Inr_iff [THEN iffD1, THEN exE]) simp
  then show thesis by (intro that [OF r(1)]) (simp add: Let_def min_def)
qed

lemma feedback_raise_frame:
  assumes "feedback_raise s = Inr s'"
  obtains w r where "s' = s\<lparr>cur_credit_rate := r, w_cur := w, can_increase_w := True\<rparr>"
proof -
  have "s' = s\<lparr>cur_credit_rate := cur_credit_rate s', w_cur := w_cur s', can_increase_w := True\<rparr>"
    using assms by (auto simp: feedback_raise_def Let_def split: if_splits)
  then show ?thesis by (rule that)
qed

lemma feedback_limit_eq:
  "feedback_limit m s = s\<lparr>cur_credit_rate := max m (min (max_credit_rate s) (cur_credit_rate s))\<rparr>"
  by (simp add: feedback_limit_def Let_def max_def min_def)

lemma credit_feedback_control_frame:
  assumes "credit_feedback_control now s = Inr f"
  obtains r w c t d l where
    "f = s\<lparr>cur_credit_rate := r, w_cur := w, can_increase_w := c, credit_total := t,
         credit_dropped := d, last_credit_rate_update := l\<rparr>"
proof -
  consider "f = s" | m s1 tgt lr where "feedback_congested now tgt lr s = Inr s1 \<or> feedback_raise s = Inr s1"
      "f = (feedback_limit m s1)\<lparr>credit_total := 0, credit_dropped := 0, last_credit_rate_update := now\<rparr>"
    using assms unfolding credit_feedback_control_def Let_def by (force split: if_splits)
  then have "f = s\<lparr>cur_credit_rate := cur_credit_rate f, w_cur := w_cur f, can_increase_w := can_increase_w f,
      credit_total := credit_total f, credit_dropped := credit_dropped f,
      last_credit_rate_update := last_credit_rate_update f\<rparr>"
    by cases (auto simp: feedback_limit_eq elim: feedback_congested_eq feedback_raise_frame)
  then show ?thesis by (rule that)
qed

lemma send_credit_request_frame:
  "send_credit_request now s =
     s\<lparr>rtt := now, sent := sent s @ [fst (construct_credit_request now s)]\<rparr>"
  by (simp add: send_credit_request_def construct_credit_request_def send_def)

lemma construct_credit_frame:
  assumes "construct_credit now s = Inr (p, s')"
  obtains k where "s' = s\<lparr>c_seqno := max 1 (c_seqno s + 1), rand_pos := k\<rparr>"
proof -
  from assms have "s' = s\<lparr>c_seqno := max 1 (c_seqno s + 1), rand_pos := rand_pos s'\<rparr>"
    by (auto simp: construct_credit_def draw_rand_def split: if_splits)
  then show ?thesis by (rule that)
qed

lemma credit_delay_frame:
  assumes "credit_delay s = Inr (d, s')"
  obtains k where "s' = s\<lparr>rand_pos := k\<rparr>"
proof -
  from assms have "s' = s\<lparr>rand_pos := rand_pos s'\<rparr>"
    by (auto simp: credit_delay_def draw_rand_def Let_def split: if_splits)
  then show ?thesis by (rule that)
qed

lemma send_data_frame:
  assumes "send_data c s = Inr s'"
  obtains q p where "s' = s\<lparr>t_seqno := q, sent := p\<rparr>"
proof -
  from assms have "s' = s\<lparr>t_seqno := t_seqno s', sent := sent s'\<rparr>"
    by (auto simp: send_data_def construct_data_def send_def Let_def split: if_splits)
  then show ?thesis by (rule that)
qed

lemma send_credit_frame:
  assumes "send_credit now s = Inr s'" and "timer_ok (send_credit_timer s)"
  obtains r w c t d l q k p x where
    "s' = s\<lparr>cur_credit_rate := r, w_cur := w, can_increase_w := c, credit_total := t,
         credit_dropped := d, last_credit_rate_update := l, c_seqno := q, sent := p,
         rand_pos := k, send_credit_timer := \<lparr>status = TIMER_PENDING, event_at = Some x\<rparr>\<rparr>"
proof -
  from assms(1) obtain f p s1 dl s2 where
    s0: "credit_feedback_control now s = Inr f" and
    s1: "construct_credit now f = Inr (p, s1)" and
    s2: "credit_delay (send p s1) = Inr (dl, s2)" and
    s': "on_timer send_credit_timer send_credit_timer_update (tm_resched now dl) s2 = Inr s'"
    by (auto simp: send_credit_def)
  from credit_feedback_control_frame [OF s0] obtain r w c t d l where cfc:
    "f = s\<lparr>cur_credit_rate := r, w_cur := w, can_increase_w := c, credit_total := t,
         credit_dropped := d, last_credit_rate_update := l\<rparr>" .
  from construct_credit_frame [OF s1] obtain k1 where
    k1: "s1 = f\<lparr>c_seqno := max 1 (c_seqno f + 1), rand_pos := k1\<rparr>" .
  from credit_delay_frame [OF s2] obtain k2 where k2: "s2 = (send p s1)\<lparr>rand_pos := k2\<rparr>" .
  have "s' = s\<lparr>cur_credit_rate := r, w_cur := w, can_increase_w := c, credit_total := t,
         credit_dropped := d, last_credit_rate_update := l, c_seqno := max 1 (c_seqno s + 1),
         sent := sent s @ [p], rand_pos := k2,
         send_credit_timer := \<lparr>status = TIMER_PENDING, event_at = Some (xadd now dl)\<rparr>\<rparr>"
    using s' assms(2) by (simp add: k2 k1 cfc send_def eq_commute [of _ s'])
  then show ?thesis by (rule that)
qed

subsection \<open>Transitions of the two control records\<close>

abbreviation pend :: "xreal \<Rightarrow> timer" where
  "pend x \<equiv> \<lparr>status = TIMER_PENDING, event_at = Some x\<rparr>"

lemma status_idleI: "\<not> pending t \<Longrightarrow> status t \<noteq> TIMER_HANDLING \<Longrightarrow> status t = TIMER_IDLE"
  by (cases "status t") auto

lemma sender_ctl_timers:
  "sender_ctl st r c n \<Longrightarrow> timer_ok r" "sender_ctl st r c n \<Longrightarrow> timer_ok c"
  "sender_ctl st r c n \<Longrightarrow> \<not> pending c \<Longrightarrow> status c = TIMER_IDLE"
  "sender_ctl st r c n \<Longrightarrow> \<not> recv_waiting st \<Longrightarrow> status r = TIMER_IDLE"
  by (auto simp: sender_ctl_def timer_idle_or_pending_def intro: status_idleI)

lemma sender_ctl_waiting:
  assumes "sender_ctl st r c n" and "st \<noteq> XPASS_RECV_CREDIT_RECEIVING"
  shows "sender_ctl XPASS_RECV_CREDIT_REQUEST_SENT (pend x) c m"
    and "sender_ctl XPASS_RECV_CREDIT_STOP_SENT (pend x) c m"
    and "sender_ctl XPASS_RECV_CLOSE_WAIT (pend x) c 0"
  using assms by (auto simp: sender_ctl_def timer_idle_or_pending_def recv_waiting_def)

lemma sender_ctl_receiving:
  assumes "sender_ctl XPASS_RECV_CREDIT_REQUEST_SENT r c n"
  shows "sender_ctl XPASS_RECV_CREDIT_RECEIVING (tm_force_cancel r) c m"
  using assms
  by (auto simp: sender_ctl_def timer_idle_or_pending_def recv_waiting_def timer_ok_def timer_defs)

lemma sender_ctl_stop_pending:
  assumes "sender_ctl XPASS_RECV_CREDIT_RECEIVING r c n"
  shows "sender_ctl XPASS_RECV_CREDIT_RECEIVING r (pend x) m"
  using assms by (auto simp: sender_ctl_def timer_idle_or_pending_def)

lemma sender_ctl_recved:
  "st \<noteq> XPASS_RECV_CLOSE_WAIT \<Longrightarrow> sender_ctl st r c n \<Longrightarrow> sender_ctl st r c m"
  by (simp add: sender_ctl_def)

lemma receiver_ctl_timers:
  "receiver_ctl st cr f na wt \<Longrightarrow> timer_ok cr" "receiver_ctl st cr f na wt \<Longrightarrow> timer_ok f"
  "receiver_ctl st cr f na wt \<Longrightarrow> timer_ok na"
  "receiver_ctl st cr f na wt \<Longrightarrow> st \<noteq> XPASS_SEND_CLOSE_WAIT \<Longrightarrow> status f = TIMER_IDLE"
  by (auto simp: receiver_ctl_def timer_idle_or_pending_def intro: status_idleI)

lemma receiver_ctl_start:
  assumes "receiver_ctl st cr f na wt"
  shows "receiver_ctl XPASS_SEND_CREDIT_SENDING (pend x) (tm_force_cancel f) na wt"
  using assms
  by (auto simp: receiver_ctl_def timer_idle_or_pending_def timer_ok_def timer_defs)

lemma receiver_ctl_closed_fct:
  "receiver_ctl XPASS_SEND_CLOSED cr f na wt \<Longrightarrow> tm_force_cancel f = f"
  by (simp add: receiver_ctl_def)

lemma receiver_ctl_stop:
  assumes "receiver_ctl st cr f na wt"
  shows "receiver_ctl XPASS_SEND_CLOSE_WAIT (tm_force_cancel cr) (pend x) na wt"
  using assms
  by (auto simp: receiver_ctl_def timer_idle_or_pending_def timer_ok_def timer_defs)

lemma receiver_ctl_nack:
  assumes "receiver_ctl st cr f na wt"
  shows "receiver_ctl st cr f (pend x) True"
    and "receiver_ctl st cr f (tm_force_cancel na) False"
  using assms
  by (auto simp: receiver_ctl_def timer_idle_or_pending_def timer_ok_def timer_defs)

subsection \<open>Every handler keeps the invariant\<close>

lemma ctl_inv_new: "ctl_inv (new_XPassAgent s)"
  by (simp add: ctl_defs new_XPassAgent_def)

lemma ctl_invD:
  assumes "ctl_inv s"
  shows "sender_ctl (credit_recv_state s) (sender_retransmit_timer s) (credit_stop_timer s)
           (credit_recved s)"
    and "receiver_ctl (credit_send_state s) (send_credit_timer s) (fct_timer s)
           (receiver_retransmit_timer s) (wait_retransmission s)"
  using assms by (simp_all add: ctl_inv_def)

lemma ctl_start_credits:
  assumes inv: "ctl_inv s"
    and ok: "send_credit now s0 = Inr s1"
    and s0: "s0 = s\<lparr>fct_timer := tm_force_cancel (fct_timer s), w_cur := w,
               last_credit_rate_update := now, cur_credit_rate := r, fst_time := t\<rparr>"
  shows "ctl_inv (s1\<lparr>credit_send_state := XPASS_SEND_CREDIT_SENDING\<rparr>)"
proof -
  note r = ctl_invD(2) [OF inv]
  have "timer_ok (send_credit_timer s0)" using receiver_ctl_timers(1) [OF r] by (simp add: s0)
  from send_credit_frame [OF ok this] obtain r w c t d l q p k x where
    "s1 = s0\<lparr>cur_credit_rate := r, w_cur := w, can_increase_w := c, credit_total := t,
         credit_dropped := d, last_credit_rate_update := l, c_seqno := q, sent := p,
         rand_pos := k, send_credit_timer := pend x\<rparr>" .
  then show ?thesis
    using receiver_ctl_start [OF r] ctl_invD(1) [OF inv] by (simp add: ctl_inv_def s0)
qed

lemma ctl_recv_credit_request:
  assumes inv: "ctl_inv s" and ok: "recv_credit_request now pkt s = Inr s'"
  shows "ctl_inv s'"
proof (cases "credit_send_state s")
  case XPASS_SEND_CLOSED
  then have "tm_force_cancel (fct_timer s) = fct_timer s"
    using ctl_invD(2) [OF inv] by (simp add: receiver_ctl_closed_fct)
  then have "s = s\<lparr>fct_timer := tm_force_cancel (fct_timer s)\<rparr>" by simp
  then show ?thesis
    using ok XPASS_SEND_CLOSED
    by (auto simp: recv_credit_request_def Let_def xp_init_def intro!: ctl_start_credits [OF inv])
next
  case XPASS_SEND_CLOSE_WAIT
  then show ?thesis
    using ok by (auto simp: recv_credit_request_def Let_def xp_init_def
        intro!: ctl_start_credits [OF inv])
qed (use inv ok in \<open>simp_all add: recv_credit_request_def Let_def\<close>)

lemma ctl_process_ack:
  assumes inv: "ctl_inv s" and ok: "process_ack now pkt s = Inr s'"
  shows "ctl_inv s'"
proof -
  note r = ctl_invD(2) [OF inv]
  show ?thesis
    using ok inv receiver_ctl_timers(3) [OF r] receiver_ctl_nack [OF r]
    by (auto simp: process_ack_def ctl_inv_def Let_def send_def split: if_splits)
qed

lemma ctl_recv_data:
  assumes inv: "ctl_inv s" and ok: "recv_data now pkt s = Inr s'"
  shows "ctl_inv s'"
proof -
  have upd: "ctl_inv (update_rtt now pkt s1) = ctl_inv s1" for s1
    by (simp add: update_rtt_def ctl_inv_def Let_def)
  have cnt: "ctl_inv (s\<lparr>credit_total := a, credit_dropped := b, c_recv_next := c\<rparr>)" for a b c
    using inv by (simp add: ctl_inv_def)
  show ?thesis
    using ok ctl_process_ack [OF cnt]
    by (auto simp: recv_data_def Let_def upd split: if_splits)
qed

lemma recv_credit_stop_cases:
  assumes inv: "ctl_inv s"
  shows "recv_credit_stop now pkt s =
    (if credit_send_state s = XPASS_SEND_CLOSE_WAIT then Inl TimerCouldNotSchedule
     else Inr (s\<lparr>fct := now - fst_time s,
                 fct_timer := pend (Fin (now + default_credit_stop_timeout s)),
                 send_credit_timer := tm_force_cancel (send_credit_timer s),
                 credit_send_state := XPASS_SEND_CLOSE_WAIT\<rparr>))"
proof -
  note r = ctl_invD(2) [OF inv]
  show ?thesis
  proof (cases "credit_send_state s = XPASS_SEND_CLOSE_WAIT")
    case True
    then have "status (fct_timer s) \<noteq> TIMER_IDLE" using r by (simp add: receiver_ctl_def)
    with True show ?thesis by (simp add: recv_credit_stop_def Let_def on_timer_sched_busy)
  next
    case False
    then show ?thesis
      using receiver_ctl_timers(2,4) [OF r] by (simp add: recv_credit_stop_def Let_def)
  qed
qed

lemma ctl_recv_credit_stop:
  assumes inv: "ctl_inv s" and ok: "recv_credit_stop now pkt s = Inr s'"
  shows "ctl_inv s'"
  using ok ctl_invD(1) [OF inv] receiver_ctl_stop [OF ctl_invD(2) [OF inv]]
  by (auto simp: recv_credit_stop_cases [OF inv] ctl_inv_def split: if_splits)

lemma ctl_send_data:
  assumes "ctl_inv s" and "send_data c s = Inr s'"
  shows "ctl_inv s'" and "credit_recv_state s' = credit_recv_state s"
proof -
  from send_data_frame [OF assms(2)] obtain q p where "s' = s\<lparr>t_seqno := q, sent := p\<rparr>" .
  then show "ctl_inv s'" "credit_recv_state s' = credit_recv_state s"
    using assms(1) by (simp_all add: ctl_inv_def)
qed

lemma ctl_sched_credit_stop:
  assumes inv: "ctl_inv s" and st: "credit_recv_state s = XPASS_RECV_CREDIT_RECEIVING"
    and ok: "sched_credit_stop now s = Inr s'"
  shows "ctl_inv s'"
proof -
  note sc = ctl_invD(1) [OF inv, unfolded st]
  show ?thesis
    using ok ctl_invD(2) [OF inv] sender_ctl_timers(2) [OF sc] sender_ctl_stop_pending [OF sc]
    by (auto simp: sched_credit_stop_def ctl_inv_def st split: if_splits)
qed

lemma ctl_check_credit_stop:
  assumes inv: "ctl_inv s" and st: "credit_recv_state s = XPASS_RECV_CREDIT_RECEIVING"
    and ok: "check_credit_stop now s = Inr s'"
  shows "ctl_inv s'"
proof -
  have fr: "ctl_inv (s2\<lparr>credit_recved_rtt := a, last_credit_recv_update := b\<rparr>) = ctl_inv s2"
    for s2 a b by (simp add: ctl_inv_def)
  show ?thesis
    using ok inv ctl_sched_credit_stop [OF inv st]
    by (auto simp: check_credit_stop_def fr split: if_splits)
qed

lemma ctl_recv_credit_receiving:
  assumes inv: "ctl_inv s" and st: "credit_recv_state s = XPASS_RECV_CREDIT_RECEIVING"
    and ok: "recv_credit_receiving now pkt s = Inr s'"
  shows "ctl_inv s'"
proof -
  from ok obtain s1 where s1: "check_credit_stop now s1 = Inr s'"
    and "s1 = s \<or> send_data pkt s = Inr s1"
    by (auto simp: recv_credit_receiving_def split: if_splits)
  then have "ctl_inv s1 \<and> credit_recv_state s1 = XPASS_RECV_CREDIT_RECEIVING"
    using inv st ctl_send_data [OF inv] by metis
  then show ?thesis using s1 ctl_check_credit_stop by blast
qed

lemma ctl_recv_credit:
  assumes inv: "ctl_inv s" and ok: "recv_credit now pkt s = Inr s'"
  shows "ctl_inv s'"
proof -
  let ?s = "s\<lparr>credit_recved_rtt := credit_recved_rtt s + 1\<rparr>"
  have i: "ctl_inv ?s" using inv by (simp add: ctl_inv_def)
  note sc = ctl_invD(1) [OF inv]
  show ?thesis
  proof (cases "credit_recv_state s")
    case XPASS_RECV_CREDIT_REQUEST_SENT
    let ?s1 = "?s\<lparr>sender_retransmit_timer := tm_force_cancel (sender_retransmit_timer s),
        credit_recv_state := XPASS_RECV_CREDIT_RECEIVING, rtt := now - rtt s,
        last_credit_recv_update := now\<rparr>"
    have "ctl_inv ?s1"
      using ctl_invD(2) [OF inv] sender_ctl_receiving [OF sc [unfolded XPASS_RECV_CREDIT_REQUEST_SENT]]
      by (simp add: ctl_inv_def)
    then show ?thesis
      using ok XPASS_RECV_CREDIT_REQUEST_SENT
      by (auto simp: recv_credit_def Let_def intro: ctl_recv_credit_receiving [of ?s1])
  next
    case XPASS_RECV_CREDIT_RECEIVING
    then show ?thesis
      using ok i by (auto simp: recv_credit_def Let_def intro: ctl_recv_credit_receiving [of ?s])
  next
    case XPASS_RECV_CREDIT_STOP_SENT
    have fr: "ctl_inv (s2\<lparr>credit_recved := a\<rparr>)"
      if "ctl_inv s2" "credit_recv_state s2 = XPASS_RECV_CREDIT_STOP_SENT" for s2 a
      using that by (simp add: ctl_inv_def sender_ctl_def)
    have w: "ctl_inv (?s\<lparr>credit_wasted := a\<rparr>)" for a using i by (simp add: ctl_inv_def)
    show ?thesis
      using ok XPASS_RECV_CREDIT_STOP_SENT ctl_send_data [OF i] w fr
      by (auto simp: recv_credit_def Let_def split: if_splits)
  qed (use inv ok in \<open>auto simp: recv_credit_def ctl_inv_def Let_def\<close>)
qed

lemma ctl_recv_nack:
  assumes inv: "ctl_inv s" and ok: "recv_nack now pkt s = Inr s'"
  shows "ctl_inv s'"
proof -
  note sc = ctl_invD(1) [OF inv]
  show ?thesis
    by (cases "credit_recv_state s")
      (use ok ctl_invD(2) [OF inv] sc sender_ctl_timers(1) [OF sc] sender_ctl_waiting(1) [OF sc] in
        \<open>auto simp: recv_nack_def Let_def send_credit_request_frame ctl_inv_def\<close>)
qed

lemma ctl_recv:
  assumes "ctl_inv s" and "recv now pkt s = Inr s'"
  shows "ctl_inv s'"
  using assms
  by (auto simp: recv_def split: packet_t.splits
      intro: ctl_recv_credit_request ctl_recv_credit ctl_recv_data ctl_recv_credit_stop
        ctl_recv_nack)


lemma ctl_command:
  assumes inv: "ctl_inv s" and ok: "command now c s = Inr (r, s')"
  shows "ctl_inv s'"
proof (cases "\<exists>nb. c = CmdAdvanceBytes nb \<and> credit_recv_state s = XPASS_RECV_CLOSED")
  case True
  then obtain nb where c: "c = CmdAdvanceBytes nb" and st: "credit_recv_state s = XPASS_RECV_CLOSED"
    by blast
  note sc = ctl_invD(1) [OF inv]
  have "status (sender_retransmit_timer s) = TIMER_IDLE"
    using sender_ctl_timers(4) [OF sc] st by (simp add: recv_waiting_def)
  then show ?thesis
    using ok c st ctl_invD(2) [OF inv] sender_ctl_timers(1) [OF sc] sender_ctl_waiting(1) [OF sc]
    by (auto simp: command_def advance_bytes_def send_credit_request_frame Let_def ctl_inv_def)
next
  case False
  with inv ok show ?thesis by (auto simp: command_def split: xp_command.splits if_splits)
qed

subsection \<open>Timer expirations\<close>

lemma ctl_send_credit_expire:
  assumes inv: "ctl_inv s" and p: "pending (send_credit_timer s)"
    and ok: "xp_handle now EvSendCredit s = Inr s'"
  shows "ctl_inv s'"
proof -
  let ?s0 = "s\<lparr>send_credit_timer := handling\<rparr>"
  from ok p obtain s1 where s1: "send_credit now ?s0 = Inr s1"
    and s': "s' = (if status (send_credit_timer s1) = TIMER_HANDLING
       then s1\<lparr>send_credit_timer := (send_credit_timer s1)\<lparr>status := TIMER_IDLE\<rparr>\<rparr> else s1)"
    by (auto simp: tm_handle_pending SendCreditTimer_expire_def simp del: if_split)
  have "timer_ok (send_credit_timer ?s0)" by simp
  from send_credit_frame [OF s1 this] obtain r w c t d l q p k x where
    "s1 = ?s0\<lparr>cur_credit_rate := r, w_cur := w, can_increase_w := c, credit_total := t,
         credit_dropped := d, last_credit_rate_update := l, c_seqno := q, sent := p,
         rand_pos := k, send_credit_timer := pend x\<rparr>" .
  then show ?thesis
    using s' p inv by (simp add: ctl_inv_def receiver_ctl_def timer_idle_or_pending_def)
qed

lemma ctl_fct_expire:
  assumes inv: "ctl_inv s" and p: "pending (fct_timer s)"
    and ok: "xp_handle now EvFct s = Inr s'"
  shows "ctl_inv s'"
  using assms
  by (auto simp: tm_handle_pending Let_def FCTTimer_expire_def
      handle_fct_def ctl_inv_def receiver_ctl_def timer_idle_or_pending_def timer_ok_def)

lemma ctl_receiver_retransmit_expire:
  assumes inv: "ctl_inv s" and p: "pending (receiver_retransmit_timer s)"
    and ok: "xp_handle now EvReceiverRetransmit s = Inr s'"
  shows "ctl_inv s'"
proof -
  have "wait_retransmission s" using p ctl_invD(2) [OF inv] by (simp add: receiver_ctl_def)
  then show ?thesis
    using ok p ctl_invD(1) [OF inv] receiver_ctl_nack(1) [OF ctl_invD(2) [OF inv]]
    by (auto simp: tm_handle_pending Let_def send_def
        ReceiverRetransmitTimer_expire_def handle_receiver_retransmit_def ctl_inv_def)
qed

lemma ctl_credit_stop_expire:
  assumes inv: "ctl_inv s" and p: "pending (credit_stop_timer s)"
    and ok: "xp_handle now EvCreditStop s = Inr s'"
  shows "ctl_inv s'"
  using ok p ctl_invD [OF inv]
  by (auto simp: tm_handle_pending Let_def send_def
      CreditStopTimer_expire_def send_credit_stop_def ctl_inv_def sender_ctl_def
      timer_idle_or_pending_def timer_ok_def recv_waiting_def)

lemma ctl_handle_sender_retransmit:
  assumes inv: "ctl_inv s" and p: "pending (sender_retransmit_timer s)"
    and ok: "handle_sender_retransmit now (s\<lparr>sender_retransmit_timer := handling\<rparr>) = Inr s1"
  shows "if status (sender_retransmit_timer s1) = TIMER_HANDLING
         then ctl_inv (s1\<lparr>sender_retransmit_timer :=
                (sender_retransmit_timer s1)\<lparr>status := TIMER_IDLE\<rparr>\<rparr>)
         else ctl_inv s1"
proof -
  note sc = ctl_invD(1) [OF inv] and rc = ctl_invD(2) [OF inv]
  have w: "recv_waiting (credit_recv_state s)" using p sc by (simp add: sender_ctl_def)
  then have r: "credit_recv_state s \<noteq> XPASS_RECV_CREDIT_RECEIVING" by (auto simp: recv_waiting_def)
  note upd = sender_ctl_waiting [OF sc r]
  have closed: "sender_ctl XPASS_RECV_CLOSED \<lparr>status = TIMER_IDLE, event_at = None\<rparr>
      (credit_stop_timer s) n" for n
    using sc r by (auto simp: sender_ctl_def timer_idle_or_pending_def recv_waiting_def timer_ok_def)
  from w consider
      "credit_recv_state s = XPASS_RECV_CREDIT_REQUEST_SENT"
    | "credit_recv_state s = XPASS_RECV_CREDIT_STOP_SENT" "0 < datalen_remaining s"
    | "credit_recv_state s = XPASS_RECV_CREDIT_STOP_SENT" "\<not> 0 < datalen_remaining s"
    | "credit_recv_state s = XPASS_RECV_CLOSE_WAIT" "credit_recved s = 0"
    using sc by (auto simp: recv_waiting_def sender_ctl_def)
  then show ?thesis
    by cases (use ok rc upd closed in \<open>auto simp: handle_sender_retransmit_def Let_def
        send_credit_request_frame ctl_inv_def datalen_remaining_def\<close>)
qed

lemma ctl_sender_retransmit_expire:
  assumes inv: "ctl_inv s" and p: "pending (sender_retransmit_timer s)"
    and ok: "xp_handle now EvSenderRetransmit s = Inr s'"
  shows "ctl_inv s'"
proof -
  from ok p obtain s1 where
    s1: "handle_sender_retransmit now (s\<lparr>sender_retransmit_timer := handling\<rparr>) = Inr s1" and
    s': "s' = (if status (sender_retransmit_timer s1) = TIMER_HANDLING
      then s1\<lparr>sender_retransmit_timer := (sender_retransmit_timer s1)\<lparr>status := TIMER_IDLE\<rparr>\<rparr>
      else s1)"
    by (auto simp: tm_handle_pending SenderRetransmitTimer_expire_def simp del: if_split)
  show ?thesis
    using ctl_handle_sender_retransmit [OF inv p s1] by (cases "status (sender_retransmit_timer s1)")
      (simp_all add: s')
qed

theorem ctl_inv_step:
  assumes "ctl_inv s" and "xp_step s s'"
  shows "ctl_inv s'"
  using assms(2,1)
proof cases
  case (xp_stepI ev now)
  with assms(1) show ?thesis
    by (cases ev) (auto intro: ctl_recv ctl_send_credit_expire ctl_credit_stop_expire
        ctl_sender_retransmit_expire ctl_receiver_retransmit_expire ctl_fct_expire ctl_command
        simp del: xp_handle.simps(2-6))
qed

theorem ctl_inv_reach: "xp_reach s \<Longrightarrow> ctl_inv s"
  by (induction rule: xp_reach.induct) (auto intro: ctl_inv_new ctl_inv_step)

end
