(* ===== verification/XPass_Data.thy ===== *)
theory XPass_Data
  imports XPass_Control
begin

section \<open>The data plane of the ExpressPass agent\<close>

text \<open>
  What each handler does to the configuration, the sequence numbers and the packets sent. A
  handler is \<open>quiet\<close> when it sends neither data nor negative acknowledgements and moves no
  sequence number; the other handlers are described by how they move them.
\<close>

definition config :: "xpass \<Rightarrow> (int \<times> int \<times> int \<times> int \<times> int \<times> int) \<times> real \<times> real" where
  "config s = ((min_ethernet_size s, max_ethernet_size s, xpass_hdr_size s, min_credit_size s,
                max_credit_size s, max_credit_rate s), w_init s, min_w s)"

definition ctl_packets :: "packet list \<Rightarrow> packet list \<Rightarrow> bool" where
  "ctl_packets qs qs' \<longleftrightarrow>
     (\<exists>ps. qs' = qs @ ps \<and>
        (\<forall>p \<in> set ps. ptype p \<noteq> PT_XPASS_DATA \<and> ptype p \<noteq> PT_XPASS_NACK))"

definition quiet :: "xpass \<Rightarrow> xpass \<Rightarrow> bool" where
  "quiet s s' \<longleftrightarrow> config s' = config s \<and> curseq s' = curseq s \<and> t_seqno s' = t_seqno s \<and>
     recv_next s' = recv_next s \<and> ctl_packets (sent s) (sent s')"

definition data_sent :: "packet \<Rightarrow> xpass \<Rightarrow> xpass \<Rightarrow> bool" where
  "data_sent p s s' \<longleftrightarrow> config s' = config s \<and> curseq s' = curseq s \<and>
     recv_next s' = recv_next s \<and> sent s' = sent s @ [p] \<and>
     ptype p = PT_XPASS_DATA \<and> seqno p = t_seqno s \<and> hlen p = xpass_hdr_size s \<and>
     t_seqno s < t_seqno s' \<and> t_seqno s' \<le> curseq s \<and>
     pkt_size p = max (min_ethernet_size s) (xpass_hdr_size s + (t_seqno s' - t_seqno s))"

definition nack_sent :: "packet \<Rightarrow> xpass \<Rightarrow> xpass \<Rightarrow> bool" where
  "nack_sent p s s' \<longleftrightarrow> config s' = config s \<and> curseq s' = curseq s \<and> t_seqno s' = t_seqno s \<and>
     recv_next s' = recv_next s \<and> sent s' = sent s @ [p] \<and>
     ptype p = PT_XPASS_NACK \<and> ackno p = recv_next s"

definition segment_ok :: "xpass \<Rightarrow> bool" where
  "segment_ok s \<longleftrightarrow> 0 < max_segment s \<and> max_segment s < 2 ^ 31"

definition nack_received :: "packet \<Rightarrow> xpass \<Rightarrow> xpass \<Rightarrow> bool" where
  "nack_received p s s' \<longleftrightarrow> config s' = config s \<and> curseq s' = curseq s \<and>
     t_seqno s' = ackno p \<and> recv_next s' = recv_next s \<and> ctl_packets (sent s) (sent s')"

definition data_received :: "packet \<Rightarrow> xpass \<Rightarrow> xpass \<Rightarrow> bool" where
  "data_received p s s' \<longleftrightarrow> config s' = config s \<and> curseq s' = curseq s \<and>
     t_seqno s' = t_seqno s \<and> sent s' = sent s \<and> seqno p = recv_next s \<and>
     0 \<le> pkt_size p - hlen p \<and> recv_next s' = recv_next s + (pkt_size p - hlen p)"

definition bytes_advanced :: "seq_t \<Rightarrow> xpass \<Rightarrow> xpass \<Rightarrow> bool" where
  "bytes_advanced nb s s' \<longleftrightarrow> config s' = config s \<and> curseq s' = curseq s + nb \<and>
     t_seqno s' = t_seqno s \<and> recv_next s' = recv_next s \<and> ctl_packets (sent s) (sent s')"

lemma ctl_packets_refl [simp]: "ctl_packets qs qs"
  by (simp add: ctl_packets_def)

lemma ctl_packets_snoc [simp]:
  "ctl_packets qs (qs @ [p]) \<longleftrightarrow> ptype p \<noteq> PT_XPASS_DATA \<and> ptype p \<noteq> PT_XPASS_NACK"
  by (simp add: ctl_packets_def)

lemma ctl_packets_trans: "ctl_packets a b \<Longrightarrow> ctl_packets b c \<Longrightarrow> ctl_packets a c"
  by (auto simp: ctl_packets_def)

lemma quiet_refl [simp]: "quiet s s"
  by (simp add: quiet_def)

lemma quiet_trans: "quiet s s1 \<Longrightarrow> quiet s1 s2 \<Longrightarrow> quiet s s2"
  by (auto simp: quiet_def intro: ctl_packets_trans)

lemma data_sent_quiet:
  "quiet s s0 \<Longrightarrow> segment_ok s0 = segment_ok s"
  by (simp add: quiet_def segment_ok_def max_segment_def config_def)

subsection \<open>Quiet handlers\<close>

lemma on_timer_frame:
  assumes "on_timer get upd f s = Inr s'"
  obtains t where "s' = upd (\<lambda>_. t) s"
  using assms by (auto simp: on_timer_def)

lemma quiet_construct_credit:
  assumes "construct_credit now s = Inr (p, s1)"
  shows "quiet s (send p s1)"
proof -
  from construct_credit_frame [OF assms] obtain k where
    "s1 = s\<lparr>c_seqno := max 1 (c_seqno s + 1), rand_pos := k\<rparr>" .
  moreover have "ptype p = PT_XPASS_CREDIT"
    using assms by (auto simp: construct_credit_def split: if_splits)
  ultimately show ?thesis by (auto simp: quiet_def send_def config_def)
qed

lemma quiet_credit_feedback_control:
  assumes "credit_feedback_control now s = Inr f"
  shows "quiet s f"
proof -
  from credit_feedback_control_frame [OF assms] obtain r w c t d l where
    "f = s\<lparr>cur_credit_rate := r, w_cur := w, can_increase_w := c, credit_total := t,
         credit_dropped := d, last_credit_rate_update := l\<rparr>" .
  then show ?thesis by (simp add: quiet_def config_def)
qed

lemma quiet_send_credit:
  assumes "send_credit now s = Inr s'"
  shows "quiet s s'"
proof -
  from assms obtain f p s1 dl s2 where
    s0: "credit_feedback_control now s = Inr f" and
    s1: "construct_credit now f = Inr (p, s1)" and
    s2: "credit_delay (send p s1) = Inr (dl, s2)" and
    s': "on_timer send_credit_timer send_credit_timer_update (tm_resched now dl) s2 = Inr s'"
    by (auto simp: send_credit_def)
  from credit_delay_frame [OF s2] obtain k where "s2 = (send p s1)\<lparr>rand_pos := k\<rparr>" .
  moreover from on_timer_frame [OF s'] obtain t where "s' = s2\<lparr>send_credit_timer := t\<rparr>" .
  ultimately have "quiet (send p s1) s'" by (simp add: quiet_def config_def)
  then show ?thesis
    using quiet_construct_credit [OF s1] quiet_credit_feedback_control [OF s0] quiet_trans by blast
qed

lemma quiet_send_credit_request: "quiet s (send_credit_request now s)"
  by (auto simp: send_credit_request_def construct_credit_request_def send_def quiet_def config_def)

lemma quiet_send_credit_stop:
  assumes "send_credit_stop now s = Inr s'"
  shows "quiet s s'"
  using assms
  by (auto simp: send_credit_stop_def construct_credit_stop_def send_def quiet_def config_def Let_def
      elim!: on_timer_frame)

lemma quiet_recv_credit_request:
  assumes "recv_credit_request now pkt s = Inr s'"
  shows "quiet s s'"
proof (cases "credit_send_state s = XPASS_SEND_CLOSED \<or> credit_send_state s = XPASS_SEND_CLOSE_WAIT")
  case True
  with assms obtain s0 s1 where "send_credit now s0 = Inr s1" "quiet s s0"
      "s' = s1\<lparr>credit_send_state := XPASS_SEND_CREDIT_SENDING\<rparr>"
    by (auto simp: recv_credit_request_def Let_def xp_init_def quiet_def config_def)
  moreover have "quiet s1 (s1\<lparr>credit_send_state := XPASS_SEND_CREDIT_SENDING\<rparr>)"
    by (simp add: quiet_def config_def)
  ultimately show ?thesis using quiet_send_credit quiet_trans by blast
next
  case False
  with assms show ?thesis
    by (auto simp: recv_credit_request_def Let_def split: XPASS_SEND_STATE.splits)
qed

lemma quiet_recv_credit_stop:
  assumes "recv_credit_stop now pkt s = Inr s'"
  shows "quiet s s'"
  using assms
  by (auto simp: recv_credit_stop_def quiet_def config_def Let_def elim!: on_timer_frame)

lemma quiet_sched_credit_stop:
  assumes "sched_credit_stop now s = Inr s'"
  shows "quiet s s'"
  using assms
  by (auto simp: sched_credit_stop_def quiet_def config_def elim!: on_timer_frame split: if_splits)

lemma quiet_check_credit_stop:
  assumes "check_credit_stop now s = Inr s'"
  shows "quiet s s'"
proof -
  have fr: "quiet s2 (s1\<lparr>credit_recved_rtt := a, last_credit_recv_update := b\<rparr>) = quiet s2 s1"
    for s1 s2 a b by (simp add: quiet_def config_def)
  show ?thesis
    using assms by (auto simp: check_credit_stop_def fr dest: quiet_sched_credit_stop split: if_splits)
qed

lemma quiet_handle_fct: "quiet s (handle_fct s)"
  by (simp add: handle_fct_def quiet_def config_def)

lemma quiet_handle_sender_retransmit:
  assumes "handle_sender_retransmit now s = Inr s'"
  shows "quiet s s'"
proof -
  have stop: "quiet s s1" if "send_credit_stop now s = Inr s1" for s1
    using that by (rule quiet_send_credit_stop)
  show ?thesis
    using assms stop
    by (cases "credit_recv_state s")
      (auto simp: handle_sender_retransmit_def Let_def send_credit_request_frame
        construct_credit_request_def quiet_def config_def elim!: on_timer_frame split: if_splits)
qed

subsection \<open>Handlers that move sequence numbers\<close>

lemma send_data_ok:
  assumes rem: "0 < datalen_remaining s" and seg: "segment_ok s"
  obtains p s' where "send_data c s = Inr s'" and "data_sent p s s'"
    and "t_seqno s' = t_seqno s + min (max_segment s) (datalen_remaining s)"
    and "credit_seq p = credit_seq c" and "credit_sent_time p = credit_sent_time c"
proof -
  let ?d = "min (max_segment s) (datalen_remaining s)"
  have d: "\<not> ?d \<le> 0" "int32_of ?d = ?d"
    using rem seg by (auto simp: segment_ok_def intro!: int32_of_id)
  let ?p = "(allocpkt PT_XPASS_DATA (agent_size s))
     \<lparr>seqno := t_seqno s, ackno := recv_next s, hlen := xpass_hdr_size s,
      pkt_size := max (min_ethernet_size s) (xpass_hdr_size s + ?d), ptype := PT_XPASS_DATA,
      credit_sent_time := credit_sent_time c, credit_seq := credit_seq c\<rparr>"
  let ?s = "send ?p (s\<lparr>t_seqno := t_seqno s + ?d\<rparr>)"
  have "send_data c s = Inr ?s"
    using d by (simp add: send_data_def construct_data_def Let_def del: min_less_iff_conj min.bounded_iff)
  moreover have "data_sent ?p s ?s"
    using d by (auto simp: data_sent_def send_def config_def datalen_remaining_def)
  ultimately show ?thesis by (rule that) (simp_all add: send_def)
qed

lemma send_data_data:
  assumes "send_data c s = Inr s'" and "0 < datalen_remaining s" and "segment_ok s"
  shows "\<exists>p. data_sent p s s'"
  using send_data_ok [OF assms(2,3), of c] assms(1) by (metis Inr_inject)

lemma recv_credit_receiving_data:
  assumes ok: "recv_credit_receiving now pkt s = Inr s'" and seg: "segment_ok s"
  shows "quiet s s' \<or> (\<exists>p s1. data_sent p s s1 \<and> quiet s1 s')"
proof (cases "0 < datalen_remaining s")
  case True
  with ok obtain s1 where "send_data pkt s = Inr s1" "check_credit_stop now s1 = Inr s'"
    by (auto simp: recv_credit_receiving_def)
  with True seg show ?thesis using send_data_data quiet_check_credit_stop by blast
next
  case False
  with ok show ?thesis by (simp add: recv_credit_receiving_def quiet_check_credit_stop)
qed

lemma recv_credit_data:
  assumes ok: "recv_credit now pkt s = Inr s'" and seg: "segment_ok s"
  shows "\<exists>s0. quiet s s0 \<and> (quiet s0 s' \<or> (\<exists>p s1. data_sent p s0 s1 \<and> quiet s1 s'))"
proof -
  let ?s = "s\<lparr>credit_recved_rtt := credit_recved_rtt s + 1\<rparr>"
  let ?s1 = "?s\<lparr>sender_retransmit_timer := tm_force_cancel (sender_retransmit_timer s),
      credit_recv_state := XPASS_RECV_CREDIT_RECEIVING, rtt := now - rtt s,
      last_credit_recv_update := now\<rparr>"
  have q: "quiet s ?s" "quiet s ?s1" by (simp_all add: quiet_def config_def)
  then have seg': "segment_ok ?s" "segment_ok ?s1" using seg data_sent_quiet by blast+
  show ?thesis
  proof (cases "credit_recv_state s")
    case XPASS_RECV_CREDIT_REQUEST_SENT
    then have "recv_credit_receiving now pkt ?s1 = Inr s'"
      using ok by (simp add: recv_credit_def Let_def)
    with q(2) seg'(2) recv_credit_receiving_data show ?thesis by blast
  next
    case XPASS_RECV_CREDIT_RECEIVING
    then have "recv_credit_receiving now pkt ?s = Inr s'"
      using ok by (simp add: recv_credit_def Let_def)
    with q(1) seg'(1) recv_credit_receiving_data show ?thesis by blast
  next
    case XPASS_RECV_CREDIT_STOP_SENT
    show ?thesis
    proof (cases "0 < datalen_remaining ?s")
      case True
      with ok XPASS_RECV_CREDIT_STOP_SENT obtain s1 where "send_data pkt ?s = Inr s1"
        and "s' = s1\<lparr>credit_recved := credit_recved s1 + 1\<rparr>"
        by (auto simp: recv_credit_def Let_def)
      moreover from this(2) have "quiet s1 s'" by (simp add: quiet_def config_def)
      ultimately show ?thesis using send_data_data True seg'(1) q(1) by blast
    next
      case False
      with ok XPASS_RECV_CREDIT_STOP_SENT have "quiet ?s s'"
        by (auto simp: recv_credit_def Let_def quiet_def config_def)
      with q(1) show ?thesis by blast
    qed
  next
    case XPASS_RECV_NSTATE
    with ok show ?thesis by (auto simp: recv_credit_def Let_def intro: q)
  qed (use ok in \<open>auto simp: recv_credit_def Let_def quiet_def config_def\<close>)
qed

lemma process_ack_data:
  assumes ok: "process_ack now pkt s = Inr s'"
  shows "quiet s s' \<or> (\<exists>p. nack_sent p s s') \<or> data_received pkt s s'"
proof -
  let ?d = "pkt_size pkt - hlen pkt"
  have d: "0 \<le> ?d" using ok by (auto simp: process_ack_def Let_def split: if_splits)
  consider "recv_next s < seqno pkt" "\<not> wait_retransmission s"
    | "recv_next s < seqno pkt" "wait_retransmission s"
    | "seqno pkt = recv_next s" | "seqno pkt < recv_next s" by linarith
  then show ?thesis
  proof cases
    case 1
    then have "nack_sent (construct_nack (recv_next s) (s\<lparr>wait_retransmission := True\<rparr>)) s s'"
      using ok d by (auto simp: process_ack_def Let_def send_def nack_sent_def config_def
          elim!: on_timer_frame) (simp_all add: construct_nack_def)
    then show ?thesis by blast
  next
    case 3
    then have "data_received pkt s s'"
      using ok d by (auto simp: process_ack_def Let_def data_received_def config_def)
    then show ?thesis by blast
  qed (use ok d in \<open>auto simp: process_ack_def Let_def\<close>)
qed

lemma recv_data_data:
  assumes ok: "recv_data now pkt s = Inr s'"
  shows "quiet s s' \<or> (\<exists>p. nack_sent p s s') \<or> data_received pkt s s'"
proof -
  let ?s = "s\<lparr>credit_total := credit_total s + (int32_of (credit_seq pkt - c_recv_next s) + 1),
      credit_dropped := credit_dropped s + int32_of (credit_seq pkt - c_recv_next s),
      c_recv_next := credit_seq pkt + 1\<rparr>"
  from ok obtain s1 where s1: "process_ack now pkt ?s = Inr s1" and s': "s' = update_rtt now pkt s1"
    by (auto simp: recv_data_def Let_def split: if_splits)
  have fr: "config s' = config s1" "curseq s' = curseq s1" "t_seqno s' = t_seqno s1"
      "recv_next s' = recv_next s1" "sent s' = sent s1"
    by (simp_all add: s' update_rtt_def Let_def config_def)
  have cf: "config ?s = config s" by (simp add: config_def)
  from process_ack_data [OF s1] show ?thesis
    by (simp add: quiet_def nack_sent_def data_received_def fr cf)
qed

lemma recv_nack_data:
  assumes ok: "recv_nack now pkt s = Inr s'"
  shows "quiet s s' \<or> nack_received pkt s s'"
proof (cases "credit_recv_state s = XPASS_RECV_NSTATE")
  case True
  with ok show ?thesis by (simp add: recv_nack_def Let_def)
next
  case False
  then have "nack_received pkt s s'"
    using ok by (cases "credit_recv_state s")
      (auto simp: recv_nack_def Let_def send_credit_request_frame construct_credit_request_def
        nack_received_def config_def elim!: on_timer_frame)
  then show ?thesis by blast
qed

lemma handle_receiver_retransmit_data:
  assumes ok: "handle_receiver_retransmit now s = Inr s'"
  shows "quiet s s' \<or> (\<exists>p. nack_sent p s s')"
  using ok
  by (auto simp: handle_receiver_retransmit_def Let_def send_def nack_sent_def construct_nack_def
      config_def elim!: on_timer_frame split: if_splits)

lemma command_data:
  assumes ok: "command now c s = Inr (r, s')"
  shows "quiet s s' \<or> (\<exists>nb. c = CmdAdvanceBytes nb \<and> bytes_advanced nb s s')"
proof (cases "\<exists>nb. c = CmdAdvanceBytes nb \<and> credit_recv_state s = XPASS_RECV_CLOSED")
  case True
  then obtain nb where c: "c = CmdAdvanceBytes nb" and st: "credit_recv_state s = XPASS_RECV_CLOSED"
    by blast
  then have "bytes_advanced nb s s'"
    using ok by (auto simp: command_def advance_bytes_def Let_def send_credit_request_frame
        construct_credit_request_def bytes_advanced_def config_def elim!: on_timer_frame)
  with c show ?thesis by blast
next
  case False
  with ok show ?thesis by (auto simp: command_def split: xp_command.splits if_splits)
qed

end
