(* ===== verification/XPass_Rate.thy ===== *)
theory XPass_Rate
  imports XPass_Data
begin

section \<open>Credit rate, loss counters and aggressiveness factor\<close>

text \<open>
  The feedback control of the data receiver: how one update moves the credit rate, and the
  invariant of the loss counters and of the aggressiveness factor over every run of the agent.
\<close>

definition loss_rate :: "xpass \<Rightarrow> real" where
  "loss_rate s = real_of_int (credit_dropped s) / real_of_int (credit_total s)"

definition target_loss :: "xpass \<Rightarrow> real" where
  "target_loss s = (1 - real_of_int (cur_credit_rate s) / real_of_int (max_credit_rate s))
     * target_loss_scaling s"

definition min_rate :: "xpass \<Rightarrow> int" where
  "min_rate s = int_of_double (avg_credit_size s / rtt s)"

definition update_due :: "time \<Rightarrow> xpass \<Rightarrow> bool" where
  "update_due now s \<longleftrightarrow>
     0 < rtt s \<and> rtt s \<le> now - last_credit_rate_update s \<and> credit_total s \<noteq> 0"

text \<open>One update of the rate as a function of the state before it.\<close>

definition congested_rate :: "time \<Rightarrow> xpass \<Rightarrow> int" where
  "congested_rate now s =
     min (cur_credit_rate s)
       (if 1 \<le> loss_rate s then min_rate s
        else int_of_double (avg_credit_size s * real_of_int (credit_total s - credit_dropped s)
               / (now - last_credit_rate_update s) * (1 + target_loss s)))"

definition raised_w :: "xpass \<Rightarrow> real" where
  "raised_w s = (if can_increase_w s then min (w_cur s + 5 / 100) (1 / 2) else w_cur s)"

definition raised_rate :: "xpass \<Rightarrow> int" where
  "raised_rate s =
     (if cur_credit_rate s < max_credit_rate s
      then int_of_double (raised_w s * real_of_int (max_credit_rate s)
             + (1 - raised_w s) * real_of_int (cur_credit_rate s))
      else cur_credit_rate s)"

definition next_rate :: "time \<Rightarrow> xpass \<Rightarrow> int" where
  "next_rate now s =
     max (min_rate s) (min (max_credit_rate s)
       (if target_loss s < loss_rate s then congested_rate now s else raised_rate s))"

text \<open>The measured rate, of which an update under congestion takes the minimum with the old one.\<close>

definition measured_rate :: "time \<Rightarrow> xpass \<Rightarrow> real" where
  "measured_rate now s =
     avg_credit_size s * real_of_int (credit_total s - credit_dropped s) / (now - last_credit_rate_update s)
       * (1 + target_loss s)"

lemma credit_feedback_control_not_due:
  "\<not> update_due now s \<Longrightarrow> credit_feedback_control now s = Inr s"
  by (auto simp: credit_feedback_control_def update_due_def)

lemma to_int_value: "to_int x = Inr n \<Longrightarrow> n = int_of_double x"
  by (simp add: to_int_def split: if_splits)

lemma feedback_raise_eq:
  assumes "feedback_raise s = Inr s'"
  shows "s' = s\<lparr>cur_credit_rate := raised_rate s, w_cur := raised_w s, can_increase_w := True\<rparr>"
proof -
  define s1 where "s1 = s\<lparr>w_cur := raised_w s, can_increase_w := True\<rparr>"
  have "(if can_increase_w s then s\<lparr>w_cur := tmin (w_cur s + 5 / 100) (1 / 2)\<rparr>
      else s\<lparr>can_increase_w := True\<rparr>) = s1" by (simp add: s1_def raised_w_def)
  then have "feedback_raise s = (if cur_credit_rate s1 < max_credit_rate s1
      then res_bind (to_int (w_cur s1 * real_of_int (max_credit_rate s1)
             + (1 - w_cur s1) * real_of_int (cur_credit_rate s1))) (\<lambda>rate. Inr (s1\<lparr>cur_credit_rate := rate\<rparr>))
      else Inr s1)" unfolding feedback_raise_def Let_def by simp
  then show ?thesis using assms
    by (auto simp: s1_def raised_rate_def to_int_def split: if_splits)
qed

lemma credit_feedback_control_due:
  assumes due: "update_due now s" and r: "credit_feedback_control now s = Inr s'"
  shows "s' = s\<lparr>cur_credit_rate := next_rate now s,
      w_cur := (if target_loss s < loss_rate s then max (w_cur s / 2) (min_w s) else raised_w s),
      can_increase_w := \<not> target_loss s < loss_rate s,
      credit_total := 0, credit_dropped := 0, last_credit_rate_update := now\<rparr>"
proof -
  have g: "\<not> rtt s \<le> 0" "\<not> now - last_credit_rate_update s < rtt s" "credit_total s \<noteq> 0"
    using due by (auto simp: update_due_def)
  then have "max_credit_rate s \<noteq> 0" using r by (auto simp: credit_feedback_control_def)
  then obtain m s1 where m: "to_int (avg_credit_size s / rtt s) = Inr m"
    and s1: "(if target_loss s < loss_rate s then feedback_congested now (target_loss s) (loss_rate s) s
      else feedback_raise s) = Inr s1"
    and s': "s' = (feedback_limit m s1)\<lparr>credit_total := 0, credit_dropped := 0, last_credit_rate_update := now\<rparr>"
    using r g unfolding credit_feedback_control_def Let_def loss_rate_def [symmetric] target_loss_def [symmetric]
    by auto
  have min: "m = min_rate s" using m by (simp add: to_int_def min_rate_def split: if_splits)
  show ?thesis
  proof (cases "target_loss s < loss_rate s")
    case True
    then have cong: "feedback_congested now (target_loss s) (loss_rate s) s = Inr s1" using s1 by simp
    obtain q where "(if 1 \<le> loss_rate s then to_int (avg_credit_size s / rtt s)
        else to_int (measured_rate now s)) = Inr q"
      "s1 = s\<lparr>cur_credit_rate := min (cur_credit_rate s) q, w_cur := max (w_cur s / 2) (min_w s),
              can_increase_w := False\<rparr>"
      unfolding measured_rate_def by (rule feedback_congested_eq [OF cong])
    then have s1': "s1 = s\<lparr>cur_credit_rate := congested_rate now s, w_cur := max (w_cur s / 2) (min_w s),
              can_increase_w := False\<rparr>"
      using to_int_value unfolding congested_rate_def min_rate_def measured_rate_def [symmetric]
      by (cases "1 \<le> loss_rate s") simp_all
    show ?thesis using True by (simp add: s' s1' min feedback_limit_eq next_rate_def)
  next
    case False
    then have "s1 = s\<lparr>cur_credit_rate := raised_rate s, w_cur := raised_w s, can_increase_w := True\<rparr>"
      using s1 feedback_raise_eq by simp
    then show ?thesis using False by (simp add: s' min feedback_limit_eq next_rate_def)
  qed
qed

lemma raised_rate_bounds:
  assumes w: "0 \<le> w_cur s" "w_cur s \<le> 1"
  shows "cur_credit_rate s \<le> raised_rate s"
    and "cur_credit_rate s \<le> max_credit_rate s \<Longrightarrow> raised_rate s \<le> max_credit_rate s"
proof -
  let ?m = "real_of_int (max_credit_rate s)" and ?c = "real_of_int (cur_credit_rate s)"
  let ?w = "raised_w s"
  have w': "0 \<le> ?w" "?w \<le> 1" using w by (auto simp: raised_w_def)
  have mix: "?w * ?m + (1 - ?w) * ?c = ?c + ?w * (?m - ?c)" by (simp add: algebra_simps)
  have lo: "?c \<le> ?w * ?m + (1 - ?w) * ?c" if "?c \<le> ?m"
    using that w' unfolding mix by simp
  have hi: "?w * ?m + (1 - ?w) * ?c \<le> ?m" if "?c \<le> ?m"
    using that w' mult_left_le_one_le [of "?m - ?c" ?w] unfolding mix by simp
  show "cur_credit_rate s \<le> raised_rate s"
    using lo by (auto simp: raised_rate_def intro: int_of_double_ge_int)
  show "raised_rate s \<le> max_credit_rate s" if "cur_credit_rate s \<le> max_credit_rate s"
    using hi that by (auto simp: raised_rate_def intro: int_of_double_le_int)
qed

text \<open>
  The conversions of one update that can leave the range of an \<open>int\<close>: the floor, and the measured
  rate where it is computed. The raised rate lies between the old rate and the maximum.
\<close>

definition feedback_in_range :: "time \<Rightarrow> xpass \<Rightarrow> bool" where
  "feedback_in_range now s \<longleftrightarrow> in_int32 (min_rate s) \<and>
     (target_loss s < loss_rate s \<and> loss_rate s < 1 \<longrightarrow> in_int32 (int_of_double (measured_rate now s)))"

lemma feedback_congested_result:
  "in_int32 (min_rate s) \<Longrightarrow> target_loss s < loss_rate s \<Longrightarrow>
   (\<exists>s'. feedback_congested now (target_loss s) (loss_rate s) s = Inr s') \<and> feedback_in_range now s \<or>
   feedback_congested now (target_loss s) (loss_rate s) s = Inl IntOutOfRange \<and> \<not> feedback_in_range now s"
  unfolding feedback_congested_def measured_rate_def [symmetric] feedback_in_range_def
  by (cases "1 \<le> loss_rate s"; cases "in_int32 (int_of_double (measured_rate now s))")
    (simp_all add: to_int_def Let_def min_rate_def)

lemma raised_rate_step:
  assumes "0 \<le> w_cur s" "w_cur s \<le> 1" "0 \<le> cur_credit_rate s" "cur_credit_rate s \<le> max_credit_rate s"
  shows "raised_rate s = cur_credit_rate s + \<lfloor>raised_w s * real_of_int (max_credit_rate s - cur_credit_rate s)\<rfloor>"
proof (cases "cur_credit_rate s < max_credit_rate s")
  case True
  let ?w = "raised_w s" and ?m = "real_of_int (max_credit_rate s)" and ?c = "real_of_int (cur_credit_rate s)"
  have w: "0 \<le> ?w" using assms(1) by (auto simp: raised_w_def)
  have eq: "?w * ?m + (1 - ?w) * ?c = ?w * (?m - ?c) + ?c" by (simp add: algebra_simps)
  have "0 \<le> ?w * (?m - ?c) + ?c" using w True assms(3) by simp
  then show ?thesis using True by (simp add: raised_rate_def eq int_of_double_def)
qed (use assms(4) in \<open>simp add: raised_rate_def\<close>)

lemma feedback_raise_returns:
  assumes "0 \<le> w_cur s" "w_cur s \<le> 1" "in_int32 (cur_credit_rate s)" "in_int32 (max_credit_rate s)"
    and "cur_credit_rate s \<le> max_credit_rate s"
  shows "\<exists>s'. feedback_raise s = Inr s'"
proof -
  have "in_int32 (raised_rate s)"
    using raised_rate_bounds [OF assms(1,2)] assms(3-5) by (auto simp: in_int32_def)
  then show ?thesis
    by (auto simp: feedback_raise_def Let_def to_int_def raised_rate_def raised_w_def split: if_splits)
qed

lemma credit_feedback_control_result:
  assumes due: "update_due now s" and "0 < max_credit_rate s"
    and raise: "\<not> target_loss s < loss_rate s \<Longrightarrow> \<exists>s'. feedback_raise s = Inr s'"
  shows "(\<exists>s'. credit_feedback_control now s = Inr s') \<and> feedback_in_range now s \<or>
    credit_feedback_control now s = Inl IntOutOfRange \<and> \<not> feedback_in_range now s"
proof -
  have g: "\<not> rtt s \<le> 0" "\<not> now - last_credit_rate_update s < rtt s" "credit_total s \<noteq> 0"
      "max_credit_rate s \<noteq> 0"
    using due assms(2) by (auto simp: update_due_def)
  have ctl: "credit_feedback_control now s = res_bind (to_int (avg_credit_size s / rtt s)) (\<lambda>m.
      res_bind (if target_loss s < loss_rate s then feedback_congested now (target_loss s) (loss_rate s) s
        else feedback_raise s) (\<lambda>s. Inr ((feedback_limit m s)
          \<lparr>credit_total := 0, credit_dropped := 0, last_credit_rate_update := now\<rparr>)))"
    using g unfolding credit_feedback_control_def Let_def loss_rate_def [symmetric] target_loss_def [symmetric]
    by simp
  show ?thesis
  proof (cases "in_int32 (min_rate s)")
    case True
    with feedback_congested_result [OF True, of now] raise show ?thesis
      by (cases "target_loss s < loss_rate s")
        (auto simp: ctl to_int_def min_rate_def [symmetric] feedback_in_range_def)
  next
    case False
    then show ?thesis by (simp add: ctl to_int_def min_rate_def [symmetric] feedback_in_range_def)
  qed
qed

subsection \<open>Loss counters and aggressiveness over a run\<close>

definition rate_inv :: "xpass \<Rightarrow> bool" where
  "rate_inv s \<longleftrightarrow> 0 \<le> credit_dropped s \<and> credit_dropped s \<le> credit_total s \<and>
     (credit_send_state s = XPASS_SEND_CREDIT_SENDING \<longrightarrow> min_w s \<le> w_cur s \<and> w_cur s \<le> 1 / 2)"

definition w_config_ok :: "xpass \<Rightarrow> bool" where
  "w_config_ok s \<longleftrightarrow> 0 \<le> min_w s \<and> min_w s \<le> w_init s \<and> w_init s \<le> 1 / 2"

text \<open>The counters and the factor, with the state they depend on.\<close>

definition rates :: "xpass \<Rightarrow> int \<times> int \<times> real \<times> XPASS_SEND_STATE \<times> real \<times> real" where
  "rates s = (credit_total s, credit_dropped s, w_cur s, credit_send_state s, w_init s, min_w s)"

lemma rates_inv: "rates s' = rates s \<Longrightarrow> rate_inv s' = rate_inv s"
  "rates s' = rates s \<Longrightarrow> w_config_ok s' = w_config_ok s"
  by (simp_all add: rates_def rate_inv_def w_config_ok_def)

lemma rates_on_timer:
  assumes "on_timer get upd f s = Inr s'" and "\<And>t s. rates (upd (\<lambda>_. t) s) = rates s"
  shows "rates s' = rates s"
  using assms by (auto elim!: on_timer_frame)

definition w_ok :: "xpass \<Rightarrow> bool" where
  "w_ok s \<longleftrightarrow> min_w s \<le> w_cur s \<and> w_cur s \<le> 1 / 2"

lemma w_ok_feedback:
  assumes "w_ok s" and "0 \<le> min_w s" and "credit_feedback_control now s = Inr s'"
  shows "w_ok s'"
proof (cases "update_due now s")
  case True
  have "min_w s \<le> w_cur s" "w_cur s \<le> 1 / 2" using assms(1) by (simp_all add: w_ok_def)
  then have "min_w s \<le> raised_w s" "raised_w s \<le> 1 / 2"
      "max (w_cur s / 2) (min_w s) \<le> 1 / 2"
    using assms(2) by (auto simp: raised_w_def min_def)
  then show ?thesis by (simp add: credit_feedback_control_due [OF True assms(3)] w_ok_def)
next
  case False
  with assms show ?thesis by (simp add: credit_feedback_control_not_due)
qed

lemma counters_feedback:
  assumes "0 \<le> credit_dropped s" "credit_dropped s \<le> credit_total s" "credit_feedback_control now s = Inr s'"
  shows "0 \<le> credit_dropped s' \<and> credit_dropped s' \<le> credit_total s'"
proof (cases "update_due now s")
  case True
  then show ?thesis by (simp add: credit_feedback_control_due [OF True assms(3)])
next
  case False
  with assms show ?thesis by (simp add: credit_feedback_control_not_due)
qed

lemma send_credit_rates:
  assumes "send_credit now s = Inr s'"
  obtains f where "credit_feedback_control now s = Inr f" "rates s' = rates f"
proof -
  from assms obtain f p s1 dl s2 where
    s0: "credit_feedback_control now s = Inr f" and
    s1: "construct_credit now f = Inr (p, s1)" and
    s2: "credit_delay (send p s1) = Inr (dl, s2)" and
    s': "on_timer send_credit_timer send_credit_timer_update (tm_resched now dl) s2 = Inr s'"
    by (auto simp: send_credit_def)
  have "rates s' = rates s2" by (rule rates_on_timer [OF s']) (simp add: rates_def)
  also from credit_delay_frame [OF s2] obtain k2 where "s2 = (send p s1)\<lparr>rand_pos := k2\<rparr>" .
  then have "rates s2 = rates s1" by (simp add: rates_def send_def)
  also from construct_credit_frame [OF s1] obtain k1 where
    "s1 = f\<lparr>c_seqno := max 1 (c_seqno f + 1), rand_pos := k1\<rparr>" .
  then have "rates s1 = rates f" by (simp add: rates_def)
  finally show thesis using that s0 by blast
qed

lemma feedback_state:
  assumes "credit_feedback_control now s = Inr s'"
  shows "credit_send_state s' = credit_send_state s" "min_w s' = min_w s" "w_init s' = w_init s"
  by (rule credit_feedback_control_frame [OF assms]; simp)+

lemma send_credit_rate_inv:
  assumes ok: "send_credit now s = Inr s'" and w: "w_ok s" "0 \<le> min_w s"
    and c: "0 \<le> credit_dropped s" "credit_dropped s \<le> credit_total s"
  shows "rate_inv (s'\<lparr>credit_send_state := st\<rparr>)" "rate_inv s'"
    and "w_init s' = w_init s" "min_w s' = min_w s"
proof -
  obtain f where f: "credit_feedback_control now s = Inr f" "rates s' = rates f"
    by (rule send_credit_rates [OF ok])
  show "rate_inv (s'\<lparr>credit_send_state := st\<rparr>)" "rate_inv s'" "w_init s' = w_init s" "min_w s' = min_w s"
    using f(2) w_ok_feedback [OF w f(1)] counters_feedback [OF c f(1)]
    by (simp_all add: rates_def rate_inv_def w_ok_def feedback_state [OF f(1)])
qed

subsection \<open>Each handler and the rate invariant\<close>

lemma tm_handle_elim:
  assumes "tm_handle get put expire s = Inr s'"
  obtains s1 where "expire (put handling s) = Inr s1"
    and "s' = s1 \<or> s' = put ((get s1)\<lparr>status := TIMER_IDLE\<rparr>) s1"
proof -
  have "pending (get s)" using assms tm_handle_not_pending [of get s put expire] by fastforce
  from assms [unfolded tm_handle_pending [of get s put expire, OF this]] that
  show ?thesis by (auto split: if_splits)
qed

lemma rates_send_data:
  assumes "send_data c s = Inr s'" shows "rates s' = rates s"
proof -
  from send_data_frame [OF assms] obtain q p where "s' = s\<lparr>t_seqno := q, sent := p\<rparr>" .
  then show ?thesis by (simp add: rates_def)
qed

lemma rates_sched_credit_stop:
  "sched_credit_stop now s = Inr s' \<Longrightarrow> rates s' = rates s"
  by (auto simp: sched_credit_stop_def rates_def elim!: on_timer_frame split: if_splits)

lemma rates_check_credit_stop:
  assumes "check_credit_stop now s = Inr s'" shows "rates s' = rates s"
proof -
  have fr: "rates (s1\<lparr>credit_recved_rtt := a, last_credit_recv_update := b\<rparr>) = rates s1" for s1 a b
    by (simp add: rates_def)
  show ?thesis
    using assms by (auto simp: check_credit_stop_def fr dest: rates_sched_credit_stop split: if_splits)
qed

lemma rates_recv_credit_receiving:
  assumes "recv_credit_receiving now pkt s = Inr s'" shows "rates s' = rates s"
  using assms
  by (auto simp: recv_credit_receiving_def dest!: rates_check_credit_stop dest: rates_send_data
      split: if_splits)

lemma rates_recv_credit:
  assumes "recv_credit now pkt s = Inr s'" shows "rates s' = rates s"
proof -
  have fr: "rates (s1\<lparr>credit_recved := a\<rparr>) = rates s1" for s1 a by (simp add: rates_def)
  show ?thesis
    using assms
    by (cases "credit_recv_state s")
      (auto simp: recv_credit_def Let_def fr split: if_splits
        dest!: rates_recv_credit_receiving rates_send_data, auto simp: rates_def)
qed

lemma rates_recv_nack:
  assumes "recv_nack now pkt s = Inr s'" shows "rates s' = rates s"
  using assms
  by (cases "credit_recv_state s")
    (auto simp: recv_nack_def Let_def send_credit_request_frame rates_def elim!: on_timer_frame)

lemma rates_send_credit_stop:
  assumes "send_credit_stop now s = Inr s'" shows "rates s' = rates s"
  using assms by (auto simp: send_credit_stop_def send_def rates_def Let_def elim!: on_timer_frame)

lemma rates_handle_sender_retransmit:
  assumes "handle_sender_retransmit now s = Inr s'" shows "rates s' = rates s"
  using assms rates_send_credit_stop [of now s s']
  by (cases "credit_recv_state s")
    (auto simp: handle_sender_retransmit_def Let_def send_credit_request_frame rates_def
      elim!: on_timer_frame split: if_splits)

lemma rates_handle_receiver_retransmit:
  assumes "handle_receiver_retransmit now s = Inr s'" shows "rates s' = rates s"
  using assms
  by (auto simp: handle_receiver_retransmit_def Let_def send_def rates_def elim!: on_timer_frame
      split: if_splits)

lemma rates_command:
  assumes "command now c s = Inr (r, s')" shows "rates s' = rates s"
  using assms
  by (cases c) (auto simp: command_def advance_bytes_def Let_def send_credit_request_frame rates_def
      elim!: on_timer_frame split: if_splits)

lemma rates_process_ack:
  assumes "process_ack now pkt s = Inr s'" shows "rates s' = rates s"
  using assms
  by (auto simp: process_ack_def Let_def send_def rates_def elim!: on_timer_frame split: if_splits)

lemma rate_inv_recv_data:
  assumes inv: "rate_inv s" "w_config_ok s" and ok: "recv_data now pkt s = Inr s'"
  shows "rate_inv s' \<and> w_config_ok s'"
proof -
  let ?d = "int32_of (credit_seq pkt - c_recv_next s)"
  let ?s = "s\<lparr>credit_total := credit_total s + (?d + 1), credit_dropped := credit_dropped s + ?d,
      c_recv_next := credit_seq pkt + 1\<rparr>"
  from ok obtain s1 where d: "0 \<le> ?d" and s1: "process_ack now pkt ?s = Inr s1"
    and s': "s' = update_rtt now pkt s1"
    by (auto simp: recv_data_def Let_def split: if_splits)
  have "rates s' = rates s1" by (simp add: s' update_rtt_def rates_def Let_def)
  then have "rates s' = rates ?s" using rates_process_ack [OF s1] by simp
  moreover have "rate_inv ?s" "w_config_ok ?s"
    using inv d by (auto simp: rate_inv_def w_config_ok_def)
  ultimately show ?thesis using rates_inv by blast
qed

lemma rate_inv_recv_credit_request:
  assumes inv: "rate_inv s" "w_config_ok s" and ok: "recv_credit_request now pkt s = Inr s'"
  shows "rate_inv s' \<and> w_config_ok s'"
proof (cases "credit_send_state s = XPASS_SEND_CLOSED \<or> credit_send_state s = XPASS_SEND_CLOSE_WAIT")
  case True
  with ok obtain s0 s1 where s1: "send_credit now s0 = Inr s1"
    and s': "s' = s1\<lparr>credit_send_state := XPASS_SEND_CREDIT_SENDING\<rparr>"
    and s0: "w_cur s0 = w_init s" "w_init s0 = w_init s" "min_w s0 = min_w s"
      "credit_dropped s0 = credit_dropped s" "credit_total s0 = credit_total s"
    by (auto simp: recv_credit_request_def Let_def xp_init_def)
  have w: "w_ok s0" "0 \<le> min_w s0" using inv s0 by (auto simp: w_ok_def w_config_ok_def)
  have c: "0 \<le> credit_dropped s0" "credit_dropped s0 \<le> credit_total s0"
    using inv s0 by (simp_all add: rate_inv_def)
  from send_credit_rate_inv [OF s1 w c] inv(2) s0 show ?thesis
    by (simp add: s' w_config_ok_def)
next
  case False
  with ok inv show ?thesis
    by (auto simp: recv_credit_request_def Let_def split: XPASS_SEND_STATE.splits)
qed

lemma rate_inv_recv_credit_stop:
  assumes inv: "rate_inv s" "w_config_ok s" and ok: "recv_credit_stop now pkt s = Inr s'"
  shows "rate_inv s' \<and> w_config_ok s'"
  using assms
  by (auto simp: recv_credit_stop_def Let_def rate_inv_def w_config_ok_def elim!: on_timer_frame)

lemma rate_inv_send_credit_expire:
  assumes inv: "ctl_inv s" "rate_inv s" "w_config_ok s"
    and ok: "xp_handle now EvSendCredit s = Inr s'"
  shows "rate_inv s' \<and> w_config_ok s'"
proof -
  let ?s = "s\<lparr>send_credit_timer := handling\<rparr>"
  have p: "pending (send_credit_timer s)"
    using ok tm_handle_not_pending [of send_credit_timer s] by fastforce
  from ok obtain s1 where s1: "send_credit now ?s = Inr s1"
    and s': "s' = s1 \<or> s' = s1\<lparr>send_credit_timer := (send_credit_timer s1)\<lparr>status := TIMER_IDLE\<rparr>\<rparr>"
    by (auto simp: SendCreditTimer_expire_def elim!: tm_handle_elim)
  have "credit_send_state s = XPASS_SEND_CREDIT_SENDING"
    using p ctl_invD(2) [OF inv(1)] by (simp add: receiver_ctl_def)
  then have w: "w_ok ?s" "0 \<le> min_w ?s"
      and c: "0 \<le> credit_dropped ?s" "credit_dropped ?s \<le> credit_total ?s"
    using inv(2,3) by (simp_all add: rate_inv_def w_ok_def w_config_ok_def)
  have "rates s' = rates s1" using s' by (auto simp: rates_def)
  moreover from send_credit_rate_inv [OF s1 w c] inv(3) have "rate_inv s1" "w_config_ok s1"
    by (simp_all add: w_config_ok_def)
  ultimately show ?thesis using rates_inv by blast
qed

lemma rate_inv_recv:
  assumes inv: "rate_inv s" "w_config_ok s" and ok: "recv now p s = Inr s'"
  shows "rate_inv s' \<and> w_config_ok s'"
proof (cases "ptype p")
  case PT_XPASS_CREDIT_REQUEST
  with ok rate_inv_recv_credit_request [OF inv] show ?thesis by (simp add: recv_def)
next
  case PT_XPASS_CREDIT_STOP
  with ok rate_inv_recv_credit_stop [OF inv] show ?thesis by (simp add: recv_def)
next
  case PT_XPASS_CREDIT
  with ok have "rates s' = rates s" by (simp add: recv_def rates_recv_credit)
  with inv rates_inv show ?thesis by blast
next
  case PT_XPASS_DATA
  with ok rate_inv_recv_data [OF inv] show ?thesis by (simp add: recv_def)
next
  case PT_XPASS_NACK
  with ok have "rates s' = rates s" by (simp add: recv_def rates_recv_nack)
  with inv rates_inv show ?thesis by blast
next
  case PT_OTHER
  with ok inv show ?thesis by (simp add: recv_def)
qed

lemma rate_inv_handle:
  assumes inv: "ctl_inv s" "rate_inv s" "w_config_ok s" and ok: "xp_handle now ev s = Inr s'"
  shows "rate_inv s' \<and> w_config_ok s'"
proof -
  have same: ?thesis if "rates s' = rates s" using that inv rates_inv by blast
  show ?thesis
  proof (cases ev)
    case (EvRecv p)
    then show ?thesis using ok rate_inv_recv [OF inv(2,3)] by simp
  next
    case EvSendCredit
    then show ?thesis using rate_inv_send_credit_expire inv ok by blast
  next
    case EvCreditStop
    with ok have "rates s' = rates s"
      by (auto simp: CreditStopTimer_expire_def dest!: rates_send_credit_stop elim!: tm_handle_elim)
        (simp_all add: rates_def)
    then show ?thesis by (rule same)
  next
    case EvSenderRetransmit
    with ok have "rates s' = rates s"
      by (auto simp: SenderRetransmitTimer_expire_def dest!: rates_handle_sender_retransmit
          elim!: tm_handle_elim) (simp_all add: rates_def)
    then show ?thesis by (rule same)
  next
    case EvReceiverRetransmit
    with ok have "rates s' = rates s"
      by (auto simp: ReceiverRetransmitTimer_expire_def dest!: rates_handle_receiver_retransmit
          elim!: tm_handle_elim) (simp_all add: rates_def)
    then show ?thesis by (rule same)
  next
    case EvFct
    with ok inv show ?thesis
      by (auto simp: FCTTimer_expire_def handle_fct_def rate_inv_def w_config_ok_def
          elim!: tm_handle_elim)
  next
    case (EvCommand c)
    with ok show ?thesis by (auto intro!: same dest: rates_command)
  qed
qed

lemma rate_inv_run:
  assumes "xp_step\<^sup>*\<^sup>* (new_XPassAgent s0) s" and "w_config_ok s0"
  shows "ctl_inv s \<and> rate_inv s \<and> w_config_ok s"
  using assms(1)
proof (induction rule: rtranclp_induct)
  case base
  have "rate_inv (new_XPassAgent s0)" "w_config_ok (new_XPassAgent s0)"
    using assms(2) by (simp_all add: rate_inv_def w_config_ok_def new_XPassAgent_def)
  then show ?case using ctl_inv_new by blast
next
  case (step s s')
  have "ctl_inv s'" using step ctl_inv_step by blast
  moreover from step.hyps(2) obtain now ev where "xp_handle now ev s = Inr s'"
    by (cases rule: xp_step.cases)
  ultimately show ?case using step.IH rate_inv_handle by blast
qed

end
