(* ===== verification/XPass_Moves.thy ===== *)
theory XPass_Moves
  imports XPass_Rate
begin

section \<open>The moves of the two state machines\<close>

text \<open>
  The edges that the code's comments and assignments describe, and that every step of a reachable
  agent follows one of them or stays where it is.
\<close>

definition recv_moves :: "(XPASS_RECV_STATE \<times> XPASS_RECV_STATE) list" where
  "recv_moves =
     [(XPASS_RECV_CLOSED, XPASS_RECV_CREDIT_REQUEST_SENT),
      (XPASS_RECV_CREDIT_REQUEST_SENT, XPASS_RECV_CREDIT_RECEIVING),
      (XPASS_RECV_CREDIT_RECEIVING, XPASS_RECV_CREDIT_STOP_SENT),
      (XPASS_RECV_CREDIT_STOP_SENT, XPASS_RECV_CREDIT_REQUEST_SENT),
      (XPASS_RECV_CREDIT_STOP_SENT, XPASS_RECV_CLOSE_WAIT),
      (XPASS_RECV_CLOSE_WAIT, XPASS_RECV_CREDIT_REQUEST_SENT),
      (XPASS_RECV_CLOSE_WAIT, XPASS_RECV_CLOSED)]"

definition send_moves :: "(XPASS_SEND_STATE \<times> XPASS_SEND_STATE) list" where
  "send_moves =
     [(XPASS_SEND_CLOSED, XPASS_SEND_CREDIT_SENDING),
      (XPASS_SEND_CLOSE_WAIT, XPASS_SEND_CREDIT_SENDING),
      (XPASS_SEND_CREDIT_SENDING, XPASS_SEND_CLOSE_WAIT),
      (XPASS_SEND_CLOSED, XPASS_SEND_CLOSE_WAIT),
      (XPASS_SEND_CLOSE_WAIT, XPASS_SEND_CLOSED)]"

definition moves_ok :: "xpass \<Rightarrow> xpass \<Rightarrow> bool" where
  "moves_ok s s' \<longleftrightarrow>
     (credit_recv_state s' = credit_recv_state s \<or>
      (credit_recv_state s, credit_recv_state s') \<in> set recv_moves) \<and>
     (credit_send_state s' = credit_send_state s \<or>
      (credit_send_state s, credit_send_state s') \<in> set send_moves)"

definition states :: "xpass \<Rightarrow> XPASS_RECV_STATE \<times> XPASS_SEND_STATE" where
  "states s = (credit_recv_state s, credit_send_state s)"

lemma moves_ok_states: "states s' = states s \<Longrightarrow> moves_ok s s'"
  by (simp add: moves_ok_def states_def)

lemma states_send_data:
  assumes "send_data c s = Inr s'" shows "states s' = states s"
proof -
  from send_data_frame [OF assms] obtain q p where "s' = s\<lparr>t_seqno := q, sent := p\<rparr>" .
  then show ?thesis by (simp add: states_def)
qed

lemma states_check_credit_stop:
  assumes "check_credit_stop now s = Inr s'" shows "states s' = states s"
  using assms
  by (auto simp: check_credit_stop_def sched_credit_stop_def states_def elim!: on_timer_frame
      split: if_splits)

lemma states_recv_credit_receiving:
  assumes "recv_credit_receiving now pkt s = Inr s'" shows "states s' = states s"
  using assms
  by (auto simp: recv_credit_receiving_def dest!: states_check_credit_stop dest: states_send_data
      split: if_splits)

lemma moves_recv_credit:
  assumes ok: "recv_credit now pkt s = Inr s'" shows "moves_ok s s'"
proof (cases "credit_recv_state s")
  case XPASS_RECV_CREDIT_REQUEST_SENT
  with ok have "states s' = (XPASS_RECV_CREDIT_RECEIVING, credit_send_state s)"
    by (auto simp: recv_credit_def Let_def dest!: states_recv_credit_receiving) (simp add: states_def)
  with XPASS_RECV_CREDIT_REQUEST_SENT show ?thesis
    by (simp add: moves_ok_def states_def recv_moves_def)
next
  case XPASS_RECV_CREDIT_RECEIVING
  with ok have "states s' = states s"
    by (auto simp: recv_credit_def Let_def dest!: states_recv_credit_receiving) (simp add: states_def)
  then show ?thesis by (rule moves_ok_states)
next
  case XPASS_RECV_CREDIT_STOP_SENT
  with ok have "states s' = states s"
    by (auto simp: recv_credit_def Let_def dest!: states_send_data split: if_splits)
      (simp_all add: states_def)
  then show ?thesis by (rule moves_ok_states)
qed (use ok in \<open>auto simp: recv_credit_def Let_def moves_ok_def\<close>)

lemma moves_recv_nack:
  assumes ok: "recv_nack now pkt s = Inr s'" shows "moves_ok s s'"
  using ok
  by (cases "credit_recv_state s")
    (auto simp: recv_nack_def Let_def send_credit_request_frame moves_ok_def recv_moves_def
      elim!: on_timer_frame)

lemma moves_recv_data:
  assumes ok: "recv_data now pkt s = Inr s'" shows "moves_ok s s'"
proof -
  have ack: "states s2 = states s1" if "process_ack now pkt s1 = Inr s2" for s1 s2
    using that
    by (auto simp: process_ack_def Let_def send_def states_def elim!: on_timer_frame split: if_splits)
  have upd: "states (update_rtt now pkt s1) = states s1" for s1
    by (simp add: update_rtt_def states_def Let_def)
  from ok have "states s' = states s"
    by (auto simp: recv_data_def Let_def upd dest!: ack split: if_splits) (simp add: states_def)
  then show ?thesis by (rule moves_ok_states)
qed

lemma states_send_credit:
  assumes ok: "send_credit now s = Inr s'" and t: "timer_ok (send_credit_timer s)"
  shows "states s' = states s"
proof -
  from send_credit_frame [OF ok t] obtain r w c t d l q p k x where
    "s' = s\<lparr>cur_credit_rate := r, w_cur := w, can_increase_w := c, credit_total := t,
         credit_dropped := d, last_credit_rate_update := l, c_seqno := q, sent := p,
         rand_pos := k, send_credit_timer := pend x\<rparr>" .
  then show ?thesis by (simp add: states_def)
qed

lemma moves_recv_credit_request:
  assumes inv: "ctl_inv s" and ok: "recv_credit_request now pkt s = Inr s'" shows "moves_ok s s'"
proof (cases "credit_send_state s = XPASS_SEND_CLOSED \<or> credit_send_state s = XPASS_SEND_CLOSE_WAIT")
  case True
  with ok obtain s0 s1 where s1: "send_credit now s0 = Inr s1"
    and s': "s' = s1\<lparr>credit_send_state := XPASS_SEND_CREDIT_SENDING\<rparr>"
    and s0: "send_credit_timer s0 = send_credit_timer s" "credit_recv_state s0 = credit_recv_state s"
    by (auto simp: recv_credit_request_def Let_def xp_init_def)
  have "timer_ok (send_credit_timer s0)"
    using receiver_ctl_timers(1) [OF ctl_invD(2) [OF inv]] s0 by simp
  from states_send_credit [OF s1 this] True s0 show ?thesis
    by (auto simp: s' moves_ok_def states_def send_moves_def)
next
  case False
  with ok show ?thesis
    by (auto simp: recv_credit_request_def Let_def moves_ok_def split: XPASS_SEND_STATE.splits)
qed

lemma moves_recv:
  assumes inv: "ctl_inv s" and ok: "recv now p s = Inr s'" shows "moves_ok s s'"
proof (cases "ptype p")
  case PT_XPASS_CREDIT_REQUEST
  with ok moves_recv_credit_request [OF inv] show ?thesis by (simp add: recv_def)
next
  case PT_XPASS_CREDIT_STOP
  have "credit_send_state s \<in> {XPASS_SEND_CREDIT_SENDING, XPASS_SEND_CLOSE_WAIT, XPASS_SEND_CLOSED}"
    using ctl_invD(2) [OF inv] by (auto simp: receiver_ctl_def)
  with PT_XPASS_CREDIT_STOP ok show ?thesis
    by (auto simp: recv_def recv_credit_stop_cases [OF inv] moves_ok_def send_moves_def split: if_splits)
next
  case PT_XPASS_CREDIT
  with ok moves_recv_credit show ?thesis by (simp add: recv_def)
next
  case PT_XPASS_DATA
  with ok moves_recv_data show ?thesis by (simp add: recv_def)
next
  case PT_XPASS_NACK
  with ok moves_recv_nack show ?thesis by (simp add: recv_def)
next
  case PT_OTHER
  with ok show ?thesis by (simp add: recv_def moves_ok_def)
qed

lemma moves_timer_wrap:
  assumes "tm_handle get put expire s = Inr s'" and "\<And>t s. states (put t s) = states s"
    and "\<And>s1. expire (put handling s) = Inr s1 \<Longrightarrow> moves_ok (put handling s) s1"
  shows "moves_ok s s'"
proof (rule tm_handle_elim [OF assms(1)])
  fix s1 assume s1: "expire (put handling s) = Inr s1"
    and s': "s' = s1 \<or> s' = put ((get s1)\<lparr>status := TIMER_IDLE\<rparr>) s1"
  from s' assms(2) have "states s' = states s1" by auto
  then show ?thesis
    using assms(3) [OF s1] assms(2) [of handling s] by (simp add: moves_ok_def states_def)
qed

lemma moves_handle_sender_retransmit:
  assumes ok: "handle_sender_retransmit now s = Inr s'" and z: "credit_recv_state s = XPASS_RECV_CLOSE_WAIT \<Longrightarrow> credit_recved s = 0"
  shows "moves_ok s s'"
  using ok z
  by (cases "credit_recv_state s")
    (auto simp: handle_sender_retransmit_def Let_def send_credit_request_frame moves_ok_def
      recv_moves_def elim!: on_timer_frame split: if_splits)

lemma moves_step:
  assumes inv: "ctl_inv s" and step: "xp_step s s'"
  shows "moves_ok s s'"
  using step
proof cases
  case (xp_stepI ev now)
  note sc = ctl_invD(1) [OF inv] and rc = ctl_invD(2) [OF inv]
  show ?thesis
  proof (cases ev)
    case (EvRecv p)
    with xp_stepI moves_recv [OF inv] show ?thesis by simp
  next
    case EvSendCredit
    show ?thesis
      by (rule moves_timer_wrap [OF xp_stepI(2) [unfolded EvSendCredit xp_handle.simps]])
        (auto simp: states_def SendCreditTimer_expire_def
          intro: moves_ok_states [OF states_send_credit])
  next
    case EvCreditStop
    have "credit_recv_state s = XPASS_RECV_CREDIT_RECEIVING"
      using xp_stepI(1) sc EvCreditStop by (simp add: sender_ctl_def)
    then show ?thesis
      by (intro moves_timer_wrap [OF xp_stepI(2) [unfolded EvCreditStop xp_handle.simps]])
        (auto simp: states_def CreditStopTimer_expire_def send_credit_stop_def send_def Let_def
          moves_ok_def recv_moves_def elim!: on_timer_frame)
  next
    case EvSenderRetransmit
    have "credit_recv_state s = XPASS_RECV_CLOSE_WAIT \<Longrightarrow> credit_recved s = 0"
      using sc by (simp add: sender_ctl_def)
    then show ?thesis
      by (intro moves_timer_wrap [OF xp_stepI(2) [unfolded EvSenderRetransmit xp_handle.simps]])
        (auto simp: states_def SenderRetransmitTimer_expire_def intro: moves_handle_sender_retransmit)
  next
    case EvReceiverRetransmit
    show ?thesis
      by (rule moves_timer_wrap [OF xp_stepI(2) [unfolded EvReceiverRetransmit xp_handle.simps]])
        (auto simp: states_def ReceiverRetransmitTimer_expire_def handle_receiver_retransmit_def
          send_def Let_def moves_ok_def elim!: on_timer_frame split: if_splits)
  next
    case EvFct
    have "credit_send_state s = XPASS_SEND_CLOSE_WAIT"
      using xp_stepI(1) rc EvFct by (simp add: receiver_ctl_def)
    then show ?thesis
      by (intro moves_timer_wrap [OF xp_stepI(2) [unfolded EvFct xp_handle.simps]])
        (auto simp: states_def FCTTimer_expire_def handle_fct_def moves_ok_def send_moves_def)
  next
    case (EvCommand c)
    with xp_stepI(2) show ?thesis
      by (cases c) (auto simp: command_def advance_bytes_def Let_def send_credit_request_frame
          moves_ok_def recv_moves_def elim!: on_timer_frame split: if_splits)
  qed
qed

end
