(* ===== verification/XPass_System.thy ===== *)
theory XPass_System
  imports XPass_Rate
begin

section \<open>Two ExpressPass agents and a network\<close>

text \<open>
  Two agents exchange packets through a network that may lose, delay, reorder and duplicate
  them: any packet an agent has ever sent may be delivered to its peer at any time. The
  application's \<open>advance-bytes\<close> command is given a positive number of bytes.
\<close>

definition no_padding :: "xpass \<Rightarrow> bool" where
  "no_padding s \<longleftrightarrow> min_ethernet_size s \<le> xpass_hdr_size s + 1"

inductive net_step :: "xpass \<times> xpass \<Rightarrow> xpass \<times> xpass \<Rightarrow> bool" where
  net_left: "xp_handle now ev a = Inr a' \<Longrightarrow> \<forall>p. ev \<noteq> EvRecv p \<Longrightarrow>
    \<forall>nb. ev = EvCommand (CmdAdvanceBytes nb) \<longrightarrow> 0 < nb \<Longrightarrow> net_step (a, b) (a', b)"
| net_right: "xp_handle now ev b = Inr b' \<Longrightarrow> \<forall>p. ev \<noteq> EvRecv p \<Longrightarrow>
    \<forall>nb. ev = EvCommand (CmdAdvanceBytes nb) \<longrightarrow> 0 < nb \<Longrightarrow> net_step (a, b) (a, b')"
| net_deliver_right: "p \<in> set (sent a) \<Longrightarrow> xp_handle now (EvRecv p) b = Inr b' \<Longrightarrow>
    net_step (a, b) (a, b')"
| net_deliver_left: "p \<in> set (sent b) \<Longrightarrow> xp_handle now (EvRecv p) a = Inr a' \<Longrightarrow>
    net_step (a, b) (a', b)"

definition net_start :: "xpass \<Rightarrow> xpass \<Rightarrow> xpass \<times> xpass" where
  "net_start a b = (new_XPassAgent (a\<lparr>sent := []\<rparr>), new_XPassAgent (b\<lparr>sent := []\<rparr>))"

text \<open>One direction of the flow, from the data sender \<open>a\<close> to the data receiver \<open>b\<close>.\<close>

definition flow_inv :: "xpass \<Rightarrow> xpass \<Rightarrow> bool" where
  "flow_inv a b \<longleftrightarrow>
     segment_ok a \<and> no_padding a \<and> t_seqno a \<le> curseq a \<and> recv_next b \<le> curseq a \<and>
     (\<forall>p \<in> set (sent a). ptype p = PT_XPASS_DATA \<longrightarrow> seqno p + (pkt_size p - hlen p) \<le> curseq a) \<and>
     (\<forall>p \<in> set (sent b). ptype p = PT_XPASS_NACK \<longrightarrow> ackno p \<le> recv_next b)"

text \<open>What one event may do to the sequence numbers and to the packets sent.\<close>

definition plain_step :: "xpass \<Rightarrow> xpass \<Rightarrow> bool" where
  "plain_step s s' \<longleftrightarrow> quiet s s' \<or> (\<exists>p. nack_sent p s s') \<or>
     (\<exists>s0. quiet s s0 \<and> (\<exists>p s1. data_sent p s0 s1 \<and> quiet s1 s'))"

lemma quiet_plain: "quiet s s' \<Longrightarrow> plain_step s s'"
  by (simp add: plain_step_def)

lemma flow_inv_sender_quiet: "quiet a a' \<Longrightarrow> flow_inv a b \<Longrightarrow> flow_inv a' b"
  by (auto simp: flow_inv_def quiet_def ctl_packets_def segment_ok_def max_segment_def config_def
      no_padding_def)

lemma flow_inv_receiver_quiet: "quiet b b' \<Longrightarrow> flow_inv a b \<Longrightarrow> flow_inv a b'"
  by (auto simp: flow_inv_def quiet_def ctl_packets_def)

lemma flow_inv_data_sent:
  assumes "data_sent p a a'" and "flow_inv a b"
  shows "flow_inv a' b"
proof -
  have size: "pkt_size p - hlen p = t_seqno a' - t_seqno a"
    using assms by (auto simp: data_sent_def flow_inv_def no_padding_def max_def)
  show ?thesis
    using assms size
    by (auto simp: flow_inv_def data_sent_def segment_ok_def max_segment_def config_def no_padding_def)
qed

lemma flow_inv_data_sent_back: "data_sent p b b' \<Longrightarrow> flow_inv a b \<Longrightarrow> flow_inv a b'"
  by (auto simp: flow_inv_def data_sent_def)

lemma flow_inv_nack_sent: "nack_sent p b b' \<Longrightarrow> flow_inv a b \<Longrightarrow> flow_inv a b'"
  by (auto simp: flow_inv_def nack_sent_def)

lemma flow_inv_nack_sent_back: "nack_sent p a a' \<Longrightarrow> flow_inv a b \<Longrightarrow> flow_inv a' b"
  by (auto simp: flow_inv_def nack_sent_def segment_ok_def max_segment_def config_def no_padding_def)

lemma flow_inv_plain:
  assumes "plain_step a a'" and "flow_inv a b" and "flow_inv b a"
  shows "flow_inv a' b" and "flow_inv b a'"
  using assms unfolding plain_step_def
  by (blast intro: flow_inv_sender_quiet flow_inv_receiver_quiet flow_inv_data_sent
      flow_inv_data_sent_back flow_inv_nack_sent flow_inv_nack_sent_back)+

lemma flow_inv_data_received:
  assumes "data_received p b b'" and "p \<in> set (sent a)" and "ptype p = PT_XPASS_DATA"
    and "flow_inv a b" and "flow_inv b a"
  shows "flow_inv a b'" and "flow_inv b' a"
  using assms
  by (fastforce simp: flow_inv_def data_received_def segment_ok_def max_segment_def config_def
      no_padding_def)+

lemma flow_inv_nack_received:
  assumes "nack_received p a a'" and "p \<in> set (sent b)" and "ptype p = PT_XPASS_NACK"
    and "flow_inv a b" and "flow_inv b a"
  shows "flow_inv a' b" and "flow_inv b a'"
  using assms
  by (fastforce simp: flow_inv_def nack_received_def ctl_packets_def segment_ok_def max_segment_def
      config_def no_padding_def)+

lemma flow_inv_bytes_advanced:
  assumes "bytes_advanced nb a a'" and "0 < nb" and "flow_inv a b" and "flow_inv b a"
  shows "flow_inv a' b" and "flow_inv b a'"
  using assms
  by (fastforce simp: flow_inv_def bytes_advanced_def ctl_packets_def segment_ok_def max_segment_def
      config_def no_padding_def)+

subsection \<open>Every event of an agent\<close>

lemma deliver_cases:
  assumes ok: "xp_handle now (EvRecv p) s = Inr s'" and seg: "segment_ok s"
  shows "plain_step s s' \<or> (ptype p = PT_XPASS_DATA \<and> data_received p s s') \<or>
    (ptype p = PT_XPASS_NACK \<and> nack_received p s s')"
proof (cases "ptype p")
  case PT_XPASS_CREDIT_REQUEST
  with ok quiet_recv_credit_request show ?thesis by (auto simp: recv_def intro: quiet_plain)
next
  case PT_XPASS_CREDIT_STOP
  with ok quiet_recv_credit_stop show ?thesis by (auto simp: recv_def intro: quiet_plain)
next
  case PT_XPASS_CREDIT
  with ok have "recv_credit now p s = Inr s'" by (simp add: recv_def)
  from recv_credit_data [OF this seg] show ?thesis
    unfolding plain_step_def using quiet_trans by blast
next
  case PT_XPASS_DATA
  with ok have "recv_data now p s = Inr s'" by (simp add: recv_def)
  from recv_data_data [OF this] PT_XPASS_DATA show ?thesis by (auto simp: plain_step_def)
next
  case PT_XPASS_NACK
  with ok have "recv_nack now p s = Inr s'" by (simp add: recv_def)
  from recv_nack_data [OF this] PT_XPASS_NACK show ?thesis by (auto simp: plain_step_def)
next
  case PT_OTHER
  with ok show ?thesis by (simp add: recv_def quiet_plain)
qed

lemma quiet_timer_wrap:
  assumes "tm_handle get put expire s = Inr s'"
    and "\<And>t s. quiet s (put t s)"
    and "\<And>s s'. expire s = Inr s' \<Longrightarrow> quiet s s'"
  shows "quiet s s'"
  using assms(1) by (rule tm_handle_elim) (metis assms(2,3) quiet_trans)

lemma local_cases:
  assumes ok: "xp_handle now ev s = Inr s'" and nr: "\<forall>p. ev \<noteq> EvRecv p"
  shows "plain_step s s' \<or> (\<exists>nb. ev = EvCommand (CmdAdvanceBytes nb) \<and> bytes_advanced nb s s')"
proof (cases ev)
  case EvSendCredit
  have "quiet s s'"
    by (rule quiet_timer_wrap [OF ok [unfolded EvSendCredit xp_handle.simps]])
      (auto simp: SendCreditTimer_expire_def intro: quiet_send_credit, simp add: quiet_def config_def)
  then show ?thesis by (blast intro: quiet_plain)
next
  case EvCreditStop
  have "quiet s s'"
    by (rule quiet_timer_wrap [OF ok [unfolded EvCreditStop xp_handle.simps]])
      (auto simp: CreditStopTimer_expire_def intro: quiet_send_credit_stop,
        simp add: quiet_def config_def)
  then show ?thesis by (blast intro: quiet_plain)
next
  case EvSenderRetransmit
  have "quiet s s'"
    by (rule quiet_timer_wrap [OF ok [unfolded EvSenderRetransmit xp_handle.simps]])
      (auto simp: SenderRetransmitTimer_expire_def intro: quiet_handle_sender_retransmit,
        simp add: quiet_def config_def)
  then show ?thesis by (blast intro: quiet_plain)
next
  case EvReceiverRetransmit
  from ok [unfolded EvReceiverRetransmit xp_handle.simps]
  obtain s1 where "handle_receiver_retransmit now (s\<lparr>receiver_retransmit_timer := handling\<rparr>) = Inr s1"
    and s': "s' = s1 \<or> s' = s1\<lparr>receiver_retransmit_timer :=
      (receiver_retransmit_timer s1)\<lparr>status := TIMER_IDLE\<rparr>\<rparr>"
    by (rule tm_handle_elim) (simp add: ReceiverRetransmitTimer_expire_def)
  from handle_receiver_retransmit_data [OF this(1)] s' have "quiet s s' \<or> (\<exists>p. nack_sent p s s')"
    by (auto simp: quiet_def nack_sent_def config_def)
  then show ?thesis by (auto simp: plain_step_def)
next
  case EvFct
  have "quiet s s'"
    by (rule quiet_timer_wrap [OF ok [unfolded EvFct xp_handle.simps]])
      (auto simp: FCTTimer_expire_def intro: quiet_handle_fct, simp add: quiet_def config_def)
  then show ?thesis by (blast intro: quiet_plain)
next
  case (EvCommand c)
  with ok obtain r where "command now c s = Inr (r, s')" by auto
  from command_data [OF this] EvCommand show ?thesis by (auto intro: quiet_plain)
qed (use nr in auto)

lemma flow_inv_step:
  assumes "net_step (a, b) (a', b')" and "flow_inv a b" and "flow_inv b a"
  shows "flow_inv a' b' \<and> flow_inv b' a'"
  using assms(1)
proof cases
  case (net_left now ev)
  from local_cases [OF net_left(2,3)] net_left(1,4) show ?thesis
    using flow_inv_plain [OF _ assms(2,3)] flow_inv_bytes_advanced [OF _ _ assms(2,3)] by blast
next
  case (net_right now ev)
  from local_cases [OF net_right(2,3)] net_right(1,4) show ?thesis
    using flow_inv_plain [OF _ assms(3,2)] flow_inv_bytes_advanced [OF _ _ assms(3,2)] by blast
next
  case (net_deliver_right p now)
  have "segment_ok b" using assms(3) by (simp add: flow_inv_def)
  from deliver_cases [OF net_deliver_right(3) this] net_deliver_right(1,2) show ?thesis
    using flow_inv_plain [OF _ assms(3,2)] flow_inv_data_received [OF _ _ _ assms(2,3)]
      flow_inv_nack_received [OF _ _ _ assms(3,2)] by blast
next
  case (net_deliver_left p now)
  have "segment_ok a" using assms(2) by (simp add: flow_inv_def)
  from deliver_cases [OF net_deliver_left(3) this] net_deliver_left(1,2) show ?thesis
    using flow_inv_plain [OF _ assms(2,3)] flow_inv_data_received [OF _ _ _ assms(3,2)]
      flow_inv_nack_received [OF _ _ _ assms(2,3)] by blast
qed

lemma flow_inv_run:
  assumes "net_step\<^sup>*\<^sup>* (net_start a0 b0) (a, b)"
    and "segment_ok a0" "no_padding a0" "segment_ok b0" "no_padding b0"
  shows "flow_inv a b \<and> flow_inv b a"
proof -
  have "flow_inv (fst s) (snd s) \<and> flow_inv (snd s) (fst s)" if "net_step\<^sup>*\<^sup>* (net_start a0 b0) s" for s
    using that
  proof (induction rule: rtranclp_induct)
    case base
    then show ?case
      using assms(2-) by (simp add: net_start_def flow_inv_def new_XPassAgent_def segment_ok_def
          max_segment_def no_padding_def)
  next
    case (step s s')
    then show ?case using flow_inv_step [of "fst s" "snd s" "fst s'" "snd s'"] by simp
  qed
  from this [OF assms(1)] show ?thesis by simp
qed

end
