(* ===== verification/XPass_Drain.thy ===== *)
theory XPass_Drain
  imports XPass_System
begin

section \<open>Credits and the data they pull\<close>

text \<open>
  What one credit does to a data sender that is sending (\<open>XPASS_RECV_CREDIT_REQUEST_SENT\<close>,
  \<open>XPASS_RECV_CREDIT_RECEIVING\<close> or \<open>XPASS_RECV_CREDIT_STOP_SENT\<close>), and what a list of credits does.
  The credit stop timer is set with no delay, so the scheduler dispatches it before a credit that
  arrives later.
\<close>

text \<open>The data packets that an agent has sent.\<close>

definition data_packets :: "xpass \<Rightarrow> packet list" where
  "data_packets s = filter (\<lambda>p. ptype p = PT_XPASS_DATA) (sent s)"

text \<open>Delivering a list of credits, each followed by the expiration of the credit stop timer if it was set.\<close>

fun recv_credits :: "(time \<times> packet) list \<Rightarrow> xpass \<Rightarrow> xpass res" where
  "recv_credits [] s = Inr s"
| "recv_credits ((now, c) # cs) s =
     res_bind (recv now c s) (\<lambda>s.
     res_bind (if pending (credit_stop_timer s) then xp_handle now EvCreditStop s else Inr s)
       (recv_credits cs))"

definition sending :: "xpass \<Rightarrow> bool" where
  "sending s \<longleftrightarrow> credit_recv_state s = XPASS_RECV_CREDIT_REQUEST_SENT \<or>
     credit_recv_state s = XPASS_RECV_CREDIT_RECEIVING \<or> credit_recv_state s = XPASS_RECV_CREDIT_STOP_SENT"

text \<open>Nothing that concerns the data changes.\<close>

definition same_data :: "xpass \<Rightarrow> xpass \<Rightarrow> bool" where
  "same_data s s' \<longleftrightarrow> curseq s' = curseq s \<and> t_seqno s' = t_seqno s \<and> config s' = config s \<and>
     data_packets s' = data_packets s"

text \<open>The next segment is sent, if there is one.\<close>

definition segment_sent :: "xpass \<Rightarrow> xpass \<Rightarrow> bool" where
  "segment_sent s s' \<longleftrightarrow> curseq s' = curseq s \<and> config s' = config s \<and>
     (if 0 < datalen_remaining s
      then t_seqno s' = t_seqno s + min (max_segment s) (datalen_remaining s) \<and>
        (\<exists>p. data_packets s' = data_packets s @ [p] \<and> seqno p = t_seqno s)
      else t_seqno s' = t_seqno s \<and> data_packets s' = data_packets s)"

lemma same_data_refl [simp]: "same_data s s"
  by (simp add: same_data_def)

lemma segment_sent_same: "segment_sent s s1 \<Longrightarrow> same_data s1 s2 \<Longrightarrow> segment_sent s s2"
  by (auto simp: segment_sent_def same_data_def)

lemma same_data_segment: "same_data s s0 \<Longrightarrow> segment_sent s0 s1 \<Longrightarrow> segment_sent s s1"
  by (auto simp: segment_sent_def same_data_def datalen_remaining_def max_segment_def config_def split: if_splits)

lemma same_data_ok: "same_data s s0 \<Longrightarrow> segment_ok s0 = segment_ok s"
    "same_data s s0 \<Longrightarrow> datalen_remaining s0 = datalen_remaining s"
  by (simp_all add: same_data_def segment_ok_def max_segment_def config_def datalen_remaining_def)

lemma segment_sent_ok:
  assumes "segment_sent s s'"
  shows "segment_ok s' = segment_ok s" "max_segment s' = max_segment s" "curseq s' = curseq s"
    and "0 < max_segment s \<Longrightarrow> 0 \<le> datalen_remaining s \<Longrightarrow>
      datalen_remaining s' = max 0 (datalen_remaining s - max_segment s)"
  using assms
  by (auto simp: segment_sent_def segment_ok_def max_segment_def config_def datalen_remaining_def split: if_splits)

subsection \<open>One credit\<close>

text \<open>The state of the sender outside the timers and counters that a credit may change.\<close>

lemma send_data_segment:
  assumes "segment_ok s" "0 < datalen_remaining s"
  obtains s' where "send_data c s = Inr s'" "segment_sent s s'"
    "credit_recv_state s' = credit_recv_state s" "credit_stop_timer s' = credit_stop_timer s"
proof -
  from send_data_ok [OF assms(2,1), of c] obtain p s' where s': "send_data c s = Inr s'" "data_sent p s s'"
    "t_seqno s' = t_seqno s + min (max_segment s) (datalen_remaining s)" by blast
  from s' assms(2) have seg: "segment_sent s s'"
    by (simp add: segment_sent_def data_sent_def data_packets_def)
  from send_data_frame [OF s'(1)] obtain q ps where "s' = s\<lparr>t_seqno := q, sent := ps\<rparr>" .
  then show thesis using that [OF s'(1) seg] by simp
qed

text \<open>A segment, when there is data, as all three states send it.\<close>

lemma maybe_segment:
  assumes "segment_ok s"
  obtains s' where "(if 0 < datalen_remaining s then send_data c s else Inr s) = Inr s'" "segment_sent s s'"
    "credit_recv_state s' = credit_recv_state s" "credit_stop_timer s' = credit_stop_timer s"
proof (cases "0 < datalen_remaining s")
  case True
  then show thesis using send_data_segment [OF assms True, of c] that by auto
next
  case False
  then show thesis by (intro that [of s]) (simp_all add: segment_sent_def)
qed

lemma sched_credit_stop_pending:
  assumes "status (credit_stop_timer s) = TIMER_IDLE" "timer_ok (credit_stop_timer s)"
  shows "\<exists>s'. sched_credit_stop now s = Inr s' \<and> same_data s s' \<and> pending (credit_stop_timer s') \<and>
    credit_recv_state s' = credit_recv_state s"
  using assms by (simp add: sched_credit_stop_def same_data_def data_packets_def config_def)

lemma check_credit_stop_data:
  assumes "status (credit_stop_timer s) = TIMER_IDLE" "timer_ok (credit_stop_timer s)"
  obtains s' where "check_credit_stop now s = Inr s'" "same_data s s'"
    "credit_recv_state s' = credit_recv_state s" "datalen_remaining s = 0 \<longrightarrow> pending (credit_stop_timer s')"
proof -
  obtain s1 where s1: "sched_credit_stop now s = Inr s1" "same_data s s1" "pending (credit_stop_timer s1)"
    "credit_recv_state s1 = credit_recv_state s" using sched_credit_stop_pending [OF assms] by blast
  have fr: "same_data s (s2\<lparr>credit_recved_rtt := a, last_credit_recv_update := b\<rparr>) = same_data s s2" for s2 a b
    by (simp add: same_data_def data_packets_def config_def)
  show thesis
  proof (cases "datalen_remaining s = 0")
    case True
    with s1 show thesis by (intro that [of s1]) (simp_all add: check_credit_stop_def)
  next
    case False
    consider (wait) "\<not> rtt s \<le> now - last_credit_recv_update s"
      | (stop) "rtt s \<le> now - last_credit_recv_update s" "pkt_remaining s \<le> credit_recved_rtt s"
      | (go) "rtt s \<le> now - last_credit_recv_update s" "\<not> pkt_remaining s \<le> credit_recved_rtt s"
      by blast
    then show thesis
    proof cases
      case wait
      with False show thesis by (intro that [of s]) (simp_all add: check_credit_stop_def)
    next
      case stop
      let ?t = "s1\<lparr>credit_recved_rtt := 0, last_credit_recv_update := now\<rparr>"
      show thesis by (rule that [of ?t]) (use False s1 stop in \<open>simp_all add: check_credit_stop_def fr\<close>)
    next
      case go
      let ?t = "s\<lparr>credit_recved_rtt := 0, last_credit_recv_update := now\<rparr>"
      show thesis by (rule that [of ?t]) (use False go in \<open>simp_all add: check_credit_stop_def fr\<close>)
    qed
  qed
qed

lemma receiving_segment:
  assumes "status (credit_stop_timer s) = TIMER_IDLE" "timer_ok (credit_stop_timer s)" "segment_ok s"
  obtains s' where "recv_credit_receiving now c s = Inr s'" "segment_sent s s'"
    "credit_recv_state s' = credit_recv_state s" "datalen_remaining s' = 0 \<longrightarrow> pending (credit_stop_timer s')"
proof -
  obtain s1 where s1: "(if 0 < datalen_remaining s then send_data c s else Inr s) = Inr s1" "segment_sent s s1"
    "credit_recv_state s1 = credit_recv_state s" "credit_stop_timer s1 = credit_stop_timer s"
    by (rule maybe_segment [OF assms(3)])
  obtain s2 where s2: "check_credit_stop now s1 = Inr s2" "same_data s1 s2"
    "credit_recv_state s2 = credit_recv_state s1" "datalen_remaining s1 = 0 \<longrightarrow> pending (credit_stop_timer s2)"
    by (rule check_credit_stop_data [of s1 now]) (simp_all add: s1(4) assms)
  show thesis
    by (rule that [of s2])
      (use s1 s2 segment_sent_same same_data_ok(2) in \<open>auto simp: recv_credit_receiving_def\<close>)
qed

text \<open>Changing counters, timers and states outside the data.\<close>

lemma same_data_updates:
  "same_data s (s'\<lparr>credit_recved_rtt := a\<rparr>) = same_data s s'"
  "same_data s (s'\<lparr>credit_recved := a\<rparr>) = same_data s s'"
  "same_data s (s'\<lparr>credit_wasted := a\<rparr>) = same_data s s'"
  "same_data s (s'\<lparr>sender_retransmit_timer := t\<rparr>) = same_data s s'"
  "same_data s (s'\<lparr>credit_recv_state := st\<rparr>) = same_data s s'"
  "same_data s (s'\<lparr>rtt := r\<rparr>) = same_data s s'"
  "same_data s (s'\<lparr>last_credit_recv_update := r\<rparr>) = same_data s s'"
  by (simp_all add: same_data_def data_packets_def config_def)

lemma recv_one_credit:
  assumes "ctl_inv s" "sending s" "\<not> pending (credit_stop_timer s)" "segment_ok s" "ptype c = PT_XPASS_CREDIT"
  obtains s' where "recv now c s = Inr s'" "segment_sent s s'" "sending s'"
    "datalen_remaining s' = 0 \<longrightarrow>
       pending (credit_stop_timer s') \<or> credit_recv_state s' = XPASS_RECV_CREDIT_STOP_SENT"
proof -
  let ?s = "s\<lparr>credit_recved_rtt := credit_recved_rtt s + 1\<rparr>"
  note sc = ctl_invD(1) [OF assms(1)]
  have t: "timer_ok (credit_stop_timer s)" "status (credit_stop_timer s) = TIMER_IDLE"
    using sender_ctl_timers(2,3) [OF sc] assms(3) by auto
  note result = that
  have receiving: thesis
    if s0: "same_data s s0" "credit_stop_timer s0 = credit_stop_timer s" "credit_recv_state s0 = XPASS_RECV_CREDIT_RECEIVING"
      and eq: "recv now c s = recv_credit_receiving now c s0" for s0
  proof -
    obtain s1 where s1: "recv_credit_receiving now c s0 = Inr s1" "segment_sent s0 s1"
      "credit_recv_state s1 = credit_recv_state s0" "datalen_remaining s1 = 0 \<longrightarrow> pending (credit_stop_timer s1)"
      by (rule receiving_segment [of s0 now c]) (use t s0 assms(4) same_data_ok(1) in simp_all)
    show thesis
      by (rule result [of s1]) (use s0 s1 eq same_data_segment in \<open>auto simp: sending_def\<close>)
  qed
  from assms(2) consider (req) "credit_recv_state s = XPASS_RECV_CREDIT_REQUEST_SENT"
    | (rec) "credit_recv_state s = XPASS_RECV_CREDIT_RECEIVING"
    | (stop) "credit_recv_state s = XPASS_RECV_CREDIT_STOP_SENT" by (auto simp: sending_def)
  then show thesis
  proof cases
    case req
    then show thesis
      by (intro receiving [of "?s\<lparr>sender_retransmit_timer := tm_force_cancel (sender_retransmit_timer s),
          credit_recv_state := XPASS_RECV_CREDIT_RECEIVING, rtt := now - rtt s, last_credit_recv_update := now\<rparr>"])
        (simp_all add: recv_def recv_credit_def Let_def assms(5) same_data_updates)
  next
    case rec
    then show thesis
      by (intro receiving [of ?s]) (simp_all add: recv_def recv_credit_def Let_def assms(5) same_data_updates)
  next
    case stop
    show thesis
    proof (cases "0 < datalen_remaining s")
      case True
      have "segment_ok ?s" "0 < datalen_remaining ?s"
        using True assms(4) same_data_ok [of s ?s] by (simp_all add: same_data_updates)
      from send_data_segment [OF this, of c] obtain s1 where s1: "send_data c ?s = Inr s1" "segment_sent ?s s1"
        "credit_recv_state s1 = credit_recv_state ?s" by blast
      let ?t = "s1\<lparr>credit_recved := credit_recved s1 + 1\<rparr>"
      have "segment_sent s ?t"
        by (rule segment_sent_same [OF same_data_segment [OF _ s1(2)]]) (simp_all add: same_data_updates)
      then show thesis
        by (rule that [of ?t, rotated])
          (use s1 stop True in \<open>simp_all add: recv_def recv_credit_def Let_def assms(5) sending_def datalen_remaining_def\<close>)
    next
      case False
      let ?t = "?s\<lparr>credit_wasted := credit_wasted s + 1, credit_recved := credit_recved s + 1\<rparr>"
      have "segment_sent s ?t"
        by (rule segment_sent_same [of s s]) (use False in \<open>simp_all add: segment_sent_def same_data_updates\<close>)
      then show thesis
        by (rule that [of ?t, rotated])
          (use stop False in \<open>simp_all add: recv_def recv_credit_def Let_def assms(5) sending_def datalen_remaining_def\<close>)
    qed
  qed
qed

text \<open>The credit stop timer, dispatched when it was set, sends the credit stop.\<close>

lemma credit_stop_data:
  assumes "ctl_inv s" "pending (credit_stop_timer s)"
  obtains s' where "xp_handle now EvCreditStop s = Inr s'" "same_data s s'"
    "credit_recv_state s' = XPASS_RECV_CREDIT_STOP_SENT"
proof -
  have t: "timer_ok (sender_retransmit_timer s)"
    using sender_ctl_timers(1) [OF ctl_invD(1) [OF assms(1)]] .
  have "\<exists>s'. xp_handle now EvCreditStop s = Inr s' \<and> same_data s s' \<and>
      credit_recv_state s' = XPASS_RECV_CREDIT_STOP_SENT"
    using t assms(2)
    by (simp add: tm_handle_pending Let_def send_def CreditStopTimer_expire_def send_credit_stop_def
        same_data_def data_packets_def config_def construct_credit_stop_def)
  then show thesis using that by blast
qed

lemma credit_and_stop:
  assumes "ctl_inv s" "sending s" "\<not> pending (credit_stop_timer s)" "segment_ok s" "ptype c = PT_XPASS_CREDIT"
  obtains s' where "recv_credits ((now, c) # cs) s = recv_credits cs s'" "segment_sent s s'"
    "ctl_inv s'" "sending s'" "\<not> pending (credit_stop_timer s')"
    "datalen_remaining s' = 0 \<longrightarrow> credit_recv_state s' = XPASS_RECV_CREDIT_STOP_SENT"
proof -
  obtain s1 where s1: "recv now c s = Inr s1" "segment_sent s s1" "sending s1"
    "datalen_remaining s1 = 0 \<longrightarrow>
       pending (credit_stop_timer s1) \<or> credit_recv_state s1 = XPASS_RECV_CREDIT_STOP_SENT"
    by (rule recv_one_credit [OF assms, of now])
  have "xp_step s s1" by (rule xp_stepI [of "EvRecv c"]) (use s1(1) in simp_all)
  then have i1: "ctl_inv s1" by (rule ctl_inv_step [OF assms(1)])
  show thesis
  proof (cases "pending (credit_stop_timer s1)")
    case True
    obtain s2 where s2: "xp_handle now EvCreditStop s1 = Inr s2" "same_data s1 s2"
      "credit_recv_state s2 = XPASS_RECV_CREDIT_STOP_SENT" by (rule credit_stop_data [OF i1 True])
    have "xp_step s1 s2" by (rule xp_stepI [of EvCreditStop]) (use True s2(1) in simp_all)
    then have i2: "ctl_inv s2" by (rule ctl_inv_step [OF i1])
    moreover from ctl_invD(1) [OF i2] have "\<not> pending (credit_stop_timer s2)"
      by (auto simp: sender_ctl_def s2(3))
    moreover have "recv_credits ((now, c) # cs) s = recv_credits cs s2"
      using s1(1) s2(1) True by simp
    ultimately show thesis
      by (intro that [of s2]) (use segment_sent_same [OF s1(2) s2(2)] s2(3) in \<open>simp_all add: sending_def\<close>)
  next
    case False
    then show thesis using s1 i1 by (intro that [of s1]) auto
  qed
qed

subsection \<open>A list of credits\<close>

lemma drain_arith:
  fixes d m :: int
  assumes "0 < m"
  shows "max 0 (max 0 (d - m) - int k * m) = max 0 (d - (1 + int k) * m)"
proof -
  have "0 \<le> int k * m" using assms by simp
  then show ?thesis by (auto simp: max_def algebra_simps)
qed

lemma pkt_remaining_pos:
  assumes "0 < max_segment s"
  shows "0 < pkt_remaining s \<longleftrightarrow> 0 < datalen_remaining s"
  using assms by (simp add: pkt_remaining_def zero_less_divide_iff)

lemma pkt_remaining_enough:
  assumes "0 < max_segment s" "pkt_remaining s \<le> int n"
  shows "datalen_remaining s \<le> int n * max_segment s"
proof -
  have "real_of_int (datalen_remaining s) / real_of_int (max_segment s) \<le> real n"
    using assms(2) by (simp add: pkt_remaining_def ceiling_le_iff)
  then have "real_of_int (datalen_remaining s) \<le> real_of_int (int n * max_segment s)"
    using assms(1) by (simp add: divide_le_eq)
  then show ?thesis by (simp only: of_int_le_iff)
qed

lemma pkt_remaining_segment:
  assumes "segment_sent s s'" "0 < max_segment s" "0 < datalen_remaining s"
  shows "nat (pkt_remaining s) = Suc (nat (pkt_remaining s'))"
    and "0 < pkt_remaining s' \<Longrightarrow> t_seqno s' = t_seqno s + max_segment s"
proof -
  let ?m = "max_segment s" and ?d = "datalen_remaining s"
  have d': "datalen_remaining s' = max 0 (?d - ?m)" and m': "max_segment s' = ?m"
    using segment_sent_ok [OF assms(1)] assms(2,3) by auto
  have "pkt_remaining s = pkt_remaining s' + 1"
  proof (cases "?d \<le> ?m")
    case True
    then have "0 < real_of_int ?d / real_of_int ?m" "real_of_int ?d / real_of_int ?m \<le> 1"
      using assms(2,3) by simp_all
    then have "\<lceil>real_of_int ?d / real_of_int ?m\<rceil> = 1" by linarith
    then show ?thesis using True by (simp add: pkt_remaining_def d' m')
  next
    case False
    then have "real_of_int (datalen_remaining s') / real_of_int ?m = real_of_int ?d / real_of_int ?m - 1"
      using assms(2) by (simp add: d' diff_divide_distrib)
    then show ?thesis by (simp add: pkt_remaining_def m')
  qed
  moreover have "0 \<le> real_of_int (datalen_remaining s') / real_of_int ?m"
    using d' assms(2) by simp
  then have "0 \<le> pkt_remaining s'" unfolding pkt_remaining_def m' by linarith
  ultimately show "nat (pkt_remaining s) = Suc (nat (pkt_remaining s'))" by simp
  assume "0 < pkt_remaining s'"
  then have "?m < ?d" using pkt_remaining_pos [of s'] assms(2) d' m' by simp
  then show "t_seqno s' = t_seqno s + ?m" using assms(1,3) by (simp add: segment_sent_def)
qed

text \<open>The numbers of the first \<open>n\<close> segments from a position.\<close>

definition segment_seqnos :: "seq_t \<Rightarrow> int \<Rightarrow> nat \<Rightarrow> seq_t list" where
  "segment_seqnos q m n = map (\<lambda>i. q + int i * m) [0..<n]"

lemma segment_seqnos_0 [simp]: "segment_seqnos q m 0 = []"
  by (simp add: segment_seqnos_def)

lemma segment_seqnos_Suc: "segment_seqnos q m (Suc n) = q # segment_seqnos (q + m) m n"
  by (simp add: segment_seqnos_def map_upt_Suc algebra_simps del: upt_Suc)

text \<open>One credit more: what it pulled and what the rest pulls.\<close>

lemma segment_then:
  assumes "segment_sent s s1" "0 < max_segment s" "0 \<le> datalen_remaining s"
    and ps: "data_packets s' = data_packets s1 @ ps"
      "map seqno ps = segment_seqnos (t_seqno s1) (max_segment s1) (min n (nat (pkt_remaining s1)))"
  shows "\<exists>qs. data_packets s' = data_packets s @ qs \<and>
    map seqno qs = segment_seqnos (t_seqno s) (max_segment s) (min (Suc n) (nat (pkt_remaining s)))"
proof (cases "0 < datalen_remaining s")
  case True
  obtain p where p: "data_packets s1 = data_packets s @ [p]" "seqno p = t_seqno s"
    using assms(1) True by (auto simp: segment_sent_def)
  have m: "max_segment s1 = max_segment s" by (rule segment_sent_ok(2) [OF assms(1)])
  note step = pkt_remaining_segment [OF assms(1,2) True]
  have "segment_seqnos (t_seqno s1) (max_segment s) (min n (nat (pkt_remaining s1))) =
      segment_seqnos (t_seqno s + max_segment s) (max_segment s) (min n (nat (pkt_remaining s1)))"
    using step(2) by (cases "0 < pkt_remaining s1") simp_all
  then show ?thesis
    using ps p m step(1) by (intro exI [of _ "p # ps"]) (simp add: segment_seqnos_Suc)
next
  case False
  then have "datalen_remaining s = 0" "t_seqno s1 = t_seqno s" "datalen_remaining s1 = 0"
      "data_packets s1 = data_packets s"
    using assms(1,3) by (auto simp: segment_sent_def datalen_remaining_def)
  then show ?thesis using ps by (simp add: pkt_remaining_def)
qed

lemma recv_credits_drain:
  assumes "ctl_inv s" "sending s" "\<not> pending (credit_stop_timer s)" "segment_ok s" "0 \<le> datalen_remaining s"
    and "\<forall>(now, c) \<in> set cs. ptype c = PT_XPASS_CREDIT"
  shows "\<exists>s'. recv_credits cs s = Inr s' \<and> curseq s' = curseq s \<and>
    datalen_remaining s' = max 0 (datalen_remaining s - int (length cs) * max_segment s) \<and>
    (\<exists>ps. data_packets s' = data_packets s @ ps \<and>
      map seqno ps = segment_seqnos (t_seqno s) (max_segment s) (min (length cs) (nat (pkt_remaining s)))) \<and>
    (cs \<noteq> [] \<and> datalen_remaining s' = 0 \<longrightarrow> credit_recv_state s' = XPASS_RECV_CREDIT_STOP_SENT)"
  using assms
proof (induction cs arbitrary: s)
  case (Cons nc cs)
  obtain now c where nc: "nc = (now, c)" by fastforce
  have c: "ptype c = PT_XPASS_CREDIT" and m: "0 < max_segment s"
    using Cons.prems(4,6) nc by (simp_all add: segment_ok_def)
  obtain s1 where s1: "recv_credits ((now, c) # cs) s = recv_credits cs s1" "segment_sent s s1"
    "ctl_inv s1" "sending s1" "\<not> pending (credit_stop_timer s1)"
    "datalen_remaining s1 = 0 \<longrightarrow> credit_recv_state s1 = XPASS_RECV_CREDIT_STOP_SENT"
    by (rule credit_and_stop [OF Cons.prems(1-4) c, of now cs])
  note seg = segment_sent_ok(1-3) [OF s1(2)] segment_sent_ok(4) [OF s1(2) m Cons.prems(5)]
  have "segment_ok s1" "0 \<le> datalen_remaining s1" "\<forall>(now, c) \<in> set cs. ptype c = PT_XPASS_CREDIT"
    using Cons.prems(4,6) seg by simp_all
  from Cons.IH [OF s1(3-5) this] obtain s' ps where
    s': "recv_credits cs s1 = Inr s'" "curseq s' = curseq s1"
      "datalen_remaining s' = max 0 (datalen_remaining s1 - int (length cs) * max_segment s1)"
    and ps: "data_packets s' = data_packets s1 @ ps"
      "map seqno ps = segment_seqnos (t_seqno s1) (max_segment s1) (min (length cs) (nat (pkt_remaining s1)))"
    and stop: "cs \<noteq> [] \<and> datalen_remaining s' = 0 \<longrightarrow> credit_recv_state s' = XPASS_RECV_CREDIT_STOP_SENT"
    by blast
  have st: "credit_recv_state s' = XPASS_RECV_CREDIT_STOP_SENT" if "datalen_remaining s' = 0"
    using that s' stop s1(6) by (cases cs) auto
  have "recv_credits (nc # cs) s = Inr s'" using s1(1) s'(1) by (simp only: nc)
  moreover have "datalen_remaining s' = max 0 (datalen_remaining s - int (length (nc # cs)) * max_segment s)"
    using s'(3) seg drain_arith [OF m, of "datalen_remaining s" "length cs"] by simp
  moreover note segment_then [OF s1(2) m Cons.prems(5) ps]
  ultimately show ?case using s'(2) seg(3) st by (intro exI [of _ s']) simp
qed (auto simp: segment_seqnos_def)

end
