(* ===== verification/XPass_Properties.thy ===== *)
theory XPass_Properties
  imports XPass_Moves XPass_Drain
begin

section \<open>Properties of the ExpressPass agent\<close>

text \<open>
  The statements about one agent and about two agents and a network, each with a witness on the
  agent that \<open>tcl/lib/ns-default.tcl\<close> configures.
\<close>

definition default_agent :: xpass where
  "default_agent =
     \<lparr>fid = 0, agent_size = 0, min_ethernet_size = 84, max_ethernet_size = 1538,
      min_credit_size = 84, max_credit_size = 84, xpass_hdr_size = 78,
      max_credit_rate = 64734895, alpha = 1 / 2, target_loss_scaling = 1 / 8,
      w_init = 1 / 2, min_w = 1 / 100, max_jitter = 1 / 10, min_jitter = - 1 / 10,
      retransmit_timeout = 1 / 10, default_credit_stop_timeout = 2 / 1000,
      credit_send_state = XPASS_SEND_CLOSED, credit_recv_state = XPASS_RECV_CLOSED,
      cur_credit_rate = 0, last_credit_rate_update = 0, credit_total = 0, credit_dropped = 0,
      w_cur = 0, can_increase_w = False, send_credit_timer = new_timer,
      credit_stop_timer = new_timer, sender_retransmit_timer = new_timer,
      receiver_retransmit_timer = new_timer, fct_timer = new_timer, curseq = 1, t_seqno = 1,
      recv_next = 1, c_seqno = 1, c_recv_next = 1, rtt = 0, fst_time = 0, fct = 0,
      credit_recved = 0, credit_recved_rtt = 0, last_credit_recv_update = 0,
      wait_retransmission = False, credit_wasted = 0, sent = [], log_lines = [],
      rand_seq = (\<lambda>_. 0), rand_pos = 0\<rparr>"

text \<open>A run: events with the times at which the scheduler dispatches them.\<close>

fun xp_run :: "(time \<times> xp_event) list \<Rightarrow> xpass \<Rightarrow> xpass res" where
  "xp_run [] s = Inr s"
| "xp_run ((now, ev) # evs) s =
     (if xp_enabled ev s then res_bind (xp_handle now ev s) (xp_run evs) else Inl TimerHandleSanity)"

text \<open>The default agent after \<open>advance-bytes\<close>, and a data receiver after a credit stop.\<close>

definition requested :: xpass where
  "requested = default_agent\<lparr>curseq := 1001, sent := [fst (construct_credit_request 0
       (default_agent\<lparr>curseq := 1001\<rparr>))],
     sender_retransmit_timer := pend (Fin (1 / 10)),
     credit_recv_state := XPASS_RECV_CREDIT_REQUEST_SENT\<rparr>"

definition stopped :: xpass where
  "stopped = default_agent\<lparr>fct := 5, fct_timer := pend (Fin (5 + 2 / 1000)),
     credit_send_state := XPASS_SEND_CLOSE_WAIT\<rparr>"

abbreviation stop_packet :: packet where
  "stop_packet \<equiv> (allocpkt PT_XPASS_CREDIT_STOP 84)"

lemma new_default: "new_XPassAgent default_agent = default_agent"
  by (simp add: new_XPassAgent_def default_agent_def)

lemma reach_default: "xp_reach default_agent"
  using xp_start [of default_agent] by (simp add: new_default)

lemma reach_run: "xp_run evs s = Inr s' \<Longrightarrow> xp_reach s \<Longrightarrow> xp_reach s'"
proof (induction evs s rule: xp_run.induct)
  case (2 now ev evs s)
  then obtain s1 where "xp_enabled ev s" "xp_handle now ev s = Inr s1" "xp_run evs s1 = Inr s'"
    by (auto split: if_splits)
  with 2 show ?case by (blast intro: xp_more xp_stepI)
qed simp

lemmas xp_eval = default_agent_def Let_def command_def advance_bytes_def recv_def recv_credit_def
  recv_credit_receiving_def check_credit_stop_def sched_credit_stop_def send_data_def
  construct_data_def send_credit_request_def construct_credit_request_def construct_credit_stop_def
  send_credit_stop_def handle_sender_retransmit_def send_def on_timer_def tm_handle_def timer_defs
  new_timer_def pkt_remaining_def datalen_remaining_def max_segment_def int32_of_def
  CreditStopTimer_expire_def SenderRetransmitTimer_expire_def

lemma requested_step: "xp_handle 0 (EvCommand (CmdAdvanceBytes 1000)) default_agent = Inr requested"
  by (simp add: command_def advance_bytes_def requested_def default_agent_def Let_def
      send_credit_request_def construct_credit_request_def send_def on_timer_def tm_sched_def
      tm_sched_event_def new_timer_def pkt_remaining_def datalen_remaining_def max_segment_def)

lemma reach_requested: "xp_reach requested"
  by (rule xp_more [OF reach_default], rule xp_stepI [OF _ requested_step]) simp

lemma stopped_step: "xp_handle 5 (EvRecv stop_packet) default_agent = Inr stopped"
  by (simp add: recv_def recv_credit_stop_def stopped_def default_agent_def Let_def on_timer_def
      tm_sched_def tm_sched_event_def new_timer_def tm_force_cancel_def)

lemma reach_stopped: "xp_reach stopped"
  by (rule xp_more [OF reach_default], rule xp_stepI [OF _ stopped_step]) simp

subsection \<open>Timers and states\<close>

text \<open>
  (C8) In every reachable state the four protocol timers run exactly in the states that wait for
  them: the sender's retransmission timer while a request or stop is outstanding or the close is
  awaited, the credit timer while credits are being sent, the completion timer in the close wait of
  the receiver, and the receiver's retransmission timer while it waits for a retransmission.
\<close>

theorem xp_timers_match_states:
  assumes "xp_reach s"
  shows "(pending (sender_retransmit_timer s) \<longleftrightarrow>
            credit_recv_state s = XPASS_RECV_CREDIT_REQUEST_SENT \<or>
            credit_recv_state s = XPASS_RECV_CREDIT_STOP_SENT \<or>
            credit_recv_state s = XPASS_RECV_CLOSE_WAIT) \<and>
         (pending (send_credit_timer s) \<longleftrightarrow> credit_send_state s = XPASS_SEND_CREDIT_SENDING) \<and>
         (pending (fct_timer s) \<longleftrightarrow> credit_send_state s = XPASS_SEND_CLOSE_WAIT) \<and>
         (pending (receiver_retransmit_timer s) \<longleftrightarrow> wait_retransmission s) \<and>
         (pending (credit_stop_timer s) \<longrightarrow> credit_recv_state s = XPASS_RECV_CREDIT_RECEIVING)"
  using ctl_invD [OF ctl_inv_reach [OF assms]]
  by (simp add: sender_ctl_def receiver_ctl_def recv_waiting_def)

theorem xp_timers_match_states_witness:
  "xp_reach requested \<and> pending (sender_retransmit_timer requested) \<and>
   \<not> pending (send_credit_timer requested)"
  using reach_requested xp_timers_match_states [OF reach_requested]
  by (simp add: requested_def default_agent_def)

text \<open>
  (C14) Each step of a reachable agent moves its two state machines along one of the edges of the
  protocol, or leaves them where they are.
\<close>

theorem xp_step_follows_protocol:
  assumes "xp_reach s" and "xp_step s s'"
  shows "(credit_recv_state s' = credit_recv_state s \<or>
           (credit_recv_state s, credit_recv_state s') \<in> set recv_moves) \<and>
         (credit_send_state s' = credit_send_state s \<or>
           (credit_send_state s, credit_send_state s') \<in> set send_moves)"
  using moves_step [OF ctl_inv_reach [OF assms(1)] assms(2)] by (simp add: moves_ok_def)

theorem xp_step_follows_protocol_witness:
  "(XPASS_RECV_CLOSED, XPASS_RECV_CREDIT_REQUEST_SENT) \<in> set recv_moves \<and>
   xp_step default_agent requested"
proof -
  have step: "xp_step default_agent requested" by (rule xp_stepI [OF _ requested_step]) simp
  then show ?thesis
    using xp_step_follows_protocol [OF reach_default step]
    by (simp add: requested_def default_agent_def)
qed

text \<open>
  The sender's retransmission timer never makes the code exit: whenever it expires in a
  reachable state the handler completes, so the exit for a retransmission on a closed connection
  cannot be reached.
\<close>

theorem xp_sender_retransmit_total:
  assumes "xp_reach s" and "pending (sender_retransmit_timer s)"
  shows "\<exists>s'. xp_handle now EvSenderRetransmit s = Inr s'"
proof -
  note sc = ctl_invD(1) [OF ctl_inv_reach [OF assms(1)]]
  have "recv_waiting (credit_recv_state s)"
      "credit_recv_state s = XPASS_RECV_CLOSE_WAIT \<Longrightarrow> credit_recved s = 0"
    using sc assms(2) by (simp_all add: sender_ctl_def)
  then have "\<exists>s1. handle_sender_retransmit now (s\<lparr>sender_retransmit_timer := handling\<rparr>) = Inr s1"
    by (auto simp: recv_waiting_def handle_sender_retransmit_def Let_def send_credit_request_frame)
  then show ?thesis
    using assms(2) by (auto simp: tm_handle_pending SenderRetransmitTimer_expire_def)
qed

theorem xp_sender_retransmit_total_witness:
  "\<exists>s'. xp_handle (1 / 10) EvSenderRetransmit requested = Inr s'"
  by (rule xp_sender_retransmit_total [OF reach_requested]) (simp add: requested_def)

text \<open>
  (C31) A credit stop is never retransmitted. Credits that arrive in the close wait of the sender
  are counted as wasted and not in \<open>credit_recved\<close>, so when the timer expires there the counter is
  zero in every reachable state: the connection is closed, nothing is sent, whether or not the
  credit stop was lost.
\<close>

theorem xp_credit_stop_not_retransmitted:
  assumes "xp_reach s" and "credit_recv_state s = XPASS_RECV_CLOSE_WAIT"
  shows "credit_recved s = 0 \<and>
    (\<exists>s'. xp_handle now EvSenderRetransmit s = Inr s' \<and>
      credit_recv_state s' = XPASS_RECV_CLOSED \<and> sent s' = sent s)"
proof -
  note sc = ctl_invD(1) [OF ctl_inv_reach [OF assms(1)]]
  have z: "credit_recved s = 0" and p: "pending (sender_retransmit_timer s)"
    using sc assms(2) by (simp_all add: sender_ctl_def recv_waiting_def)
  then show ?thesis
    using assms(2)
    by (simp add: tm_handle_pending SenderRetransmitTimer_expire_def handle_sender_retransmit_def)
qed

theorem xp_credit_stop_not_retransmitted_witness:
  "\<exists>s. xp_reach s \<and> credit_recv_state s = XPASS_RECV_CLOSE_WAIT \<and> length (sent s) = 3 \<and>
     (\<exists>s'. xp_handle 2 EvSenderRetransmit s = Inr s' \<and> length (sent s') = 3)"
proof -
  let ?evs = "[(0, EvCommand (CmdAdvanceBytes 1000)), (1 / 100, EvRecv (allocpkt PT_XPASS_CREDIT 84)),
     (1 / 100, EvCreditStop), (1, EvSenderRetransmit)]"
  obtain s where s: "xp_run ?evs default_agent = Inr s"
    and st: "credit_recv_state s = XPASS_RECV_CLOSE_WAIT" "length (sent s) = 3"
    by (simp add: xp_eval)
  have r: "xp_reach s" by (rule reach_run [OF s reach_default])
  show ?thesis
    using xp_credit_stop_not_retransmitted [OF r st(1), of 2] r st by auto
qed

text \<open>
  (C32) The data receiver accepts a credit stop in every reachable state but one: in its own close
  wait the completion timer is already running and scheduling it again aborts the simulation.
\<close>

theorem xp_recv_credit_stop_exact:
  assumes "xp_reach s"
  shows "recv_credit_stop now pkt s =
    (if credit_send_state s = XPASS_SEND_CLOSE_WAIT then Inl TimerCouldNotSchedule
     else Inr (s\<lparr>fct := now - fst_time s,
                 fct_timer := \<lparr>status = TIMER_PENDING,
                               event_at = Some (Fin (now + default_credit_stop_timeout s))\<rparr>,
                 send_credit_timer := tm_force_cancel (send_credit_timer s),
                 credit_send_state := XPASS_SEND_CLOSE_WAIT\<rparr>))"
  by (rule recv_credit_stop_cases [OF ctl_inv_reach [OF assms]])

theorem xp_recv_credit_stop_exact_witness:
  "recv_credit_stop 6 stop_packet stopped = Inl TimerCouldNotSchedule"
  using xp_recv_credit_stop_exact [OF reach_stopped, of 6 stop_packet] by (simp add: stopped_def)

subsection \<open>Feedback control\<close>

text \<open>
  (C30) An update of the credit rate that is due, exactly. The floor is the rate of one credit per
  round trip; the old rate is assumed not to exceed the maximum. The new rate lies between the floor
  and the larger of the floor and the configured maximum. With congestion it is at most the larger of
  the floor and the old rate (so it is raised only where the old rate is below the floor), and is the
  floor itself when every credit was lost. Without congestion it is the old rate plus the share \<open>w\<close>
  of the distance to the maximum, rounded down, or the floor where that is more. The loss counters
  start again. The only error is a conversion that leaves the range of an \<open>int\<close>, and it occurs
  exactly when the floor or the measured rate does.
\<close>

theorem xp_feedback_rate_bounds:
  assumes "0 < rtt s" and "rtt s \<le> now - last_credit_rate_update s" and "credit_total s \<noteq> 0"
    and "0 \<le> w_cur s" and "w_cur s \<le> 1" and "0 \<le> cur_credit_rate s"
    and "cur_credit_rate s \<le> max_credit_rate s" and "0 < max_credit_rate s" and "max_credit_rate s < 2 ^ 31"
  shows "let lo = int_of_double (avg_credit_size s / rtt s); old = cur_credit_rate s; top = max_credit_rate s
    in case credit_feedback_control now s of
      Inl e \<Rightarrow> e = IntOutOfRange \<and> \<not> feedback_in_range now s
    | Inr s' \<Rightarrow> feedback_in_range now s \<and>
        lo \<le> cur_credit_rate s' \<and> cur_credit_rate s' \<le> max lo top \<and>
        (if target_loss s < loss_rate s
         then cur_credit_rate s' \<le> max lo old \<and> (1 \<le> loss_rate s \<longrightarrow> cur_credit_rate s' = lo) \<and>
           w_cur s' = max (w_cur s / 2) (min_w s)
         else old \<le> cur_credit_rate s' \<and>
           cur_credit_rate s' = max lo (old + \<lfloor>raised_w s * real_of_int (top - old)\<rfloor>) \<and>
           w_cur s' = raised_w s) \<and>
        credit_total s' = 0 \<and> credit_dropped s' = 0 \<and> last_credit_rate_update s' = now"
proof -
  have due: "update_due now s" using assms(1-3) by (simp add: update_due_def)
  have range: "in_int32 (cur_credit_rate s)" "in_int32 (max_credit_rate s)"
    using assms(6,7,9) by (simp_all add: in_int32_def)
  note raise = feedback_raise_returns [OF assms(4,5) range assms(7)]
  have upd: "next_rate now s \<le> max (min_rate s) (max_credit_rate s)" "min_rate s \<le> next_rate now s"
    by (auto simp: next_rate_def)
  have cong: "next_rate now s \<le> max (min_rate s) (cur_credit_rate s) \<and>
      (1 \<le> loss_rate s \<longrightarrow> next_rate now s = min_rate s)" if "target_loss s < loss_rate s"
    using that by (auto simp: next_rate_def congested_rate_def)
  have up: "cur_credit_rate s \<le> next_rate now s \<and> next_rate now s = max (min_rate s)
      (cur_credit_rate s + \<lfloor>raised_w s * real_of_int (max_credit_rate s - cur_credit_rate s)\<rfloor>)"
    if "\<not> target_loss s < loss_rate s"
    using that raised_rate_bounds [OF assms(4,5)] assms(7)
    unfolding raised_rate_step [OF assms(4-7), symmetric] by (auto simp: next_rate_def)
  from credit_feedback_control_result [OF due assms(8) raise] show ?thesis
  proof
    assume "(\<exists>s'. credit_feedback_control now s = Inr s') \<and> feedback_in_range now s"
    then obtain s' where ok: "credit_feedback_control now s = Inr s'" "feedback_in_range now s" by blast
    show ?thesis unfolding min_rate_def [symmetric] Let_def ok(1)
      using upd cong up ok(2)
      by (cases "target_loss s < loss_rate s") (auto simp: credit_feedback_control_due [OF due ok(1)])
  qed (simp add: Let_def)
qed

text \<open>
  The credit rate can leave the range its declaration promises: when one credit per round trip
  is more than the configured maximum, a due update sets the rate to that floor, above
  \<open>max_credit_rate\<close>.
\<close>

lemma xp_feedback_rate_above_max:
  assumes "0 < rtt s" and "rtt s \<le> now - last_credit_rate_update s" and "credit_total s \<noteq> 0"
    and "max_credit_rate s < int_of_double (avg_credit_size s / rtt s)"
    and "credit_feedback_control now s = Inr s'"
  shows "cur_credit_rate s' = int_of_double (avg_credit_size s / rtt s) \<and> max_credit_rate s < cur_credit_rate s'"
proof -
  have due: "update_due now s" using assms(1-3) by (simp add: update_due_def)
  show ?thesis
    using assms(4) by (auto simp: credit_feedback_control_due [OF due assms(5)] next_rate_def min_rate_def)
qed

text \<open>
  Over every run of an agent whose configuration has \<open>0 \<le> min_w \<le> w_init \<le> 1/2\<close>, the dropped
  credits never outnumber the credits counted, and while credits are being sent the aggressiveness
  factor stays between \<open>min_w\<close> and one half.
\<close>

theorem xp_loss_counters_and_w:
  assumes "xp_step\<^sup>*\<^sup>* (new_XPassAgent s0) s"
    and "0 \<le> min_w s0" and "min_w s0 \<le> w_init s0" and "w_init s0 \<le> 1 / 2"
  shows "0 \<le> credit_dropped s \<and> credit_dropped s \<le> credit_total s \<and>
    (credit_send_state s = XPASS_SEND_CREDIT_SENDING \<longrightarrow> min_w s \<le> w_cur s \<and> w_cur s \<le> 1 / 2)"
  using rate_inv_run [OF assms(1)] assms(2-4) by (simp add: w_config_ok_def rate_inv_def)

theorem xp_loss_counters_and_w_witness:
  "0 \<le> credit_dropped requested \<and> credit_dropped requested \<le> credit_total requested"
proof -
  have "xp_step\<^sup>*\<^sup>* (new_XPassAgent default_agent) requested"
    unfolding new_default by (rule r_into_rtranclp, rule xp_stepI [OF _ requested_step]) simp
  from xp_loss_counters_and_w [OF this] show ?thesis by (simp add: default_agent_def)
qed

definition measured :: xpass where
  "measured = default_agent\<lparr>rtt := 1 / 100, cur_credit_rate := 1000000, w_cur := 1 / 2,
     credit_total := 10, credit_dropped := 5\<rparr>"

theorem xp_feedback_rate_bounds_witness:
  "\<exists>s'. credit_feedback_control 1 measured = Inr s' \<and> 8400 \<le> cur_credit_rate s' \<and>
     cur_credit_rate s' \<le> 1000000"
proof -
  have "feedback_in_range 1 measured"
    by (simp add: measured_def default_agent_def avg_credit_size_def feedback_in_range_def target_loss_def
        loss_rate_def measured_rate_def min_rate_def in_int32_def int_of_double_def)
  then show ?thesis
    using xp_feedback_rate_bounds [of measured 1]
    by (cases "credit_feedback_control 1 measured")
      (simp_all add: measured_def default_agent_def avg_credit_size_def Let_def target_loss_def
        loss_rate_def int_of_double_def)
qed

subsection \<open>Data transfer\<close>

text \<open>
  One data packet at the data receiver, on every branch. A credit sequence number below the
  expected one (as a 32-bit distance) and a negative payload length exit; otherwise the credits
  skipped count as dropped, in-order payload is accepted, a gap asks for retransmission once, and
  old data is ignored.
\<close>

theorem xp_recv_data_effect:
  assumes "xp_reach s" and "\<bar>credit_seq pkt - c_recv_next s\<bar> < 2 ^ 31"
  shows "let d = credit_seq pkt - c_recv_next s; len = pkt_size pkt - hlen pkt;
             gap = recv_next s < seqno pkt; next = (seqno pkt = recv_next s)
         in if d < 0 then recv_data now pkt s = Inl CreditSeqReverted
            else if len < 0 then recv_data now pkt s = Inl NegativePacketLength
            else \<exists>s'. recv_data now pkt s = Inr s' \<and>
              credit_total s' = credit_total s + d + 1 \<and>
              credit_dropped s' = credit_dropped s + d \<and>
              c_recv_next s' = credit_seq pkt + 1 \<and>
              recv_next s' = (if next then recv_next s + len else recv_next s) \<and>
              wait_retransmission s' = (gap \<or> wait_retransmission s \<and> \<not> next) \<and>
              sent s' = (if gap \<and> \<not> wait_retransmission s
                         then sent s @ [construct_nack (recv_next s) s] else sent s)"
proof -
  have d: "int32_of (credit_seq pkt - c_recv_next s) = credit_seq pkt - c_recv_next s"
    by (rule int32_of_id) (use assms(2) in auto)
  have t: "timer_ok (receiver_retransmit_timer s)"
    by (rule receiver_ctl_timers(3) [OF ctl_invD(2) [OF ctl_inv_reach [OF assms(1)]]])
  show ?thesis
    using t by (auto simp: recv_data_def d Let_def process_ack_def send_def update_rtt_def
        construct_nack_def)
qed

text \<open>
  (C29) A data sender that is sending (its request is outstanding, credits are arriving, or the credit
  stop has been sent) turns a list of credits into data: the credits pull consecutive segments from
  \<open>t_seqno\<close> on, one each while there is data and nothing more, each handler and each credit stop timer that
  one of them sets returns, and \<open>pkt_remaining\<close> credits are enough: after that many the whole
  remaining data has been sent, and after a credit that finds no data left the credit stop is out.
  (In the closed and close-wait states a credit is only counted as wasted.)
\<close>

theorem xp_credits_drain_data:
  assumes "xp_reach s" and "sending s" and "\<not> pending (credit_stop_timer s)" and "segment_ok s"
    and "0 \<le> datalen_remaining s" and "\<forall>(now, c) \<in> set cs. ptype c = PT_XPASS_CREDIT"
  shows "\<exists>s'. recv_credits cs s = Inr s' \<and> curseq s' = curseq s \<and>
    datalen_remaining s' = max 0 (datalen_remaining s - int (length cs) * max_segment s) \<and>
    (\<exists>ps. data_packets s' = data_packets s @ ps \<and>
      map seqno ps = segment_seqnos (t_seqno s) (max_segment s) (min (length cs) (nat (pkt_remaining s)))) \<and>
    (pkt_remaining s \<le> int (length cs) \<longrightarrow> t_seqno s' = curseq s \<and>
      (cs \<noteq> [] \<longrightarrow> credit_recv_state s' = XPASS_RECV_CREDIT_STOP_SENT))"
proof -
  have "0 < max_segment s" using assms(4) by (simp add: segment_ok_def)
  then have "datalen_remaining s \<le> int (length cs) * max_segment s" if "pkt_remaining s \<le> int (length cs)"
    using pkt_remaining_enough that by blast
  with recv_credits_drain [OF ctl_inv_reach [OF assms(1)] assms(2-6)] show ?thesis
    by (fastforce simp: datalen_remaining_def)
qed

text \<open>
  (C1) Whatever the network loses, delays, reorders or duplicates, the data receiver never counts
  more bytes than the application gave to the sender, and the sender never sends beyond them,
  provided the configuration needs no padding (\<open>min_ethernet_size \<le> xpass_hdr_size + 1\<close>).
\<close>

theorem xp_receiver_never_overruns:
  assumes "net_step\<^sup>*\<^sup>* (net_start a0 b0) (a, b)"
    and "segment_ok a0" and "no_padding a0" and "segment_ok b0" and "no_padding b0"
  shows "recv_next b \<le> curseq a \<and> t_seqno a \<le> curseq a \<and>
    (\<forall>p \<in> set (sent a). ptype p = PT_XPASS_DATA \<longrightarrow> seqno p + (pkt_size p - hlen p) \<le> curseq a)"
  using flow_inv_run [OF assms] by (simp add: flow_inv_def)

text \<open>
  Padding is counted as data. When the last segment is so short that the packet is padded to
  the minimum frame size, the receiver, which takes the payload length to be the packet size less
  the header, advances beyond the last byte of the application.
\<close>

theorem xp_padding_counted_as_data:
  assumes "segment_ok s" and "0 < datalen_remaining s" and "datalen_remaining s \<le> max_segment s"
    and "xpass_hdr_size s + datalen_remaining s < min_ethernet_size s"
    and "recv_next r = t_seqno s"
  shows "\<exists>s' p r'. send_data c s = Inr s' \<and> sent s' = sent s @ [p] \<and> t_seqno s' = curseq s \<and>
    process_ack now p r = Inr r' \<and>
    recv_next r' = t_seqno s + (min_ethernet_size s - xpass_hdr_size s) \<and> curseq s < recv_next r'"
proof -
  from send_data_ok [OF assms(2,1), of c] obtain p s' where
    p: "send_data c s = Inr s'" "data_sent p s s'"
      "t_seqno s' = t_seqno s + min (max_segment s) (datalen_remaining s)" by blast
  have t: "t_seqno s' = curseq s" using p(3) assms(3) by (simp add: datalen_remaining_def)
  have size: "pkt_size p - hlen p = min_ethernet_size s - xpass_hdr_size s" and "seqno p = t_seqno s"
    using p(2) t assms(4) by (auto simp: data_sent_def datalen_remaining_def)
  then have "\<exists>r'. process_ack now p r = Inr r' \<and>
      recv_next r' = t_seqno s + (min_ethernet_size s - xpass_hdr_size s)"
    using assms(2,4,5) by (auto simp: process_ack_def Let_def)
  moreover have "curseq s < t_seqno s + (min_ethernet_size s - xpass_hdr_size s)"
    using assms(4) by (simp add: datalen_remaining_def)
  ultimately show ?thesis using p(1,2) t by (auto simp: data_sent_def)
qed

text \<open>
  A negative acknowledgement that reaches a sender which had sent everything can stall the
  flow: the credit request is built before \<open>t_seqno\<close> is set back, so it announces zero packets, and
  a receiver that had closed takes a credit rate of zero from it, sends one credit and arms its
  credit timer for an infinite time.
\<close>

theorem xp_nack_request_stalls_receiver:
  assumes "xp_reach s" and "credit_recv_state s = XPASS_RECV_CREDIT_STOP_SENT"
    and "datalen_remaining s = 0"
    and "xp_reach r" and "credit_send_state r = XPASS_SEND_CLOSE_WAIT"
    and "0 < min_credit_size r" and "min_credit_size r = max_credit_size r"
    and "- 1 < min_jitter r" and "min_jitter r \<le> max_jitter r" and "\<forall>n. 0 \<le> rand_seq r n"
  shows "\<exists>s' q r'. recv_nack t1 nack s = Inr s' \<and> sent s' = sent s @ [q] \<and>
    t_seqno s' = ackno nack \<and> ptype q = PT_XPASS_CREDIT_REQUEST \<and> sendbuffer q = 0 \<and>
    recv t2 q r = Inr r' \<and> credit_send_state r' = XPASS_SEND_CREDIT_SENDING \<and>
    cur_credit_rate r' = 0 \<and> length (sent r') = length (sent r) + 1 \<and>
    event_at (send_credit_timer r') = Some PInf"
proof -
  let ?q = "fst (construct_credit_request t1 s)"
  have ts: "timer_ok (sender_retransmit_timer s)" and tr: "timer_ok (send_credit_timer r)"
    using sender_ctl_timers(1) [OF ctl_invD(1) [OF ctl_inv_reach [OF assms(1)]]]
      receiver_ctl_timers(1) [OF ctl_invD(2) [OF ctl_inv_reach [OF assms(4)]]] by auto
  have q: "ptype ?q = PT_XPASS_CREDIT_REQUEST" "sendbuffer ?q = 0"
    using assms(3) by (simp_all add: construct_credit_request_def pkt_remaining_def)
  have "\<exists>s'. recv_nack t1 nack s = Inr s' \<and> sent s' = sent s @ [?q] \<and> t_seqno s' = ackno nack"
    using ts assms(2) by (simp add: recv_nack_def Let_def send_credit_request_frame)
  moreover define r0 where "r0 = r\<lparr>fct_timer := tm_force_cancel (fct_timer r), w_cur := w_init r,
      last_credit_rate_update := t2, cur_credit_rate := 0, fst_time := credit_sent_time ?q\<rparr>"
  have "\<not> update_due t2 r0" by (simp add: update_due_def r0_def)
  then have sc: "send_credit t2 r0 = res_bind (construct_credit t2 r0) (\<lambda>(p, s).
         res_bind (credit_delay (send p s)) (\<lambda>(delay, s).
         on_timer send_credit_timer send_credit_timer_update (tm_resched t2 delay) s))"
    by (simp add: send_credit_def credit_feedback_control_not_due)
  have avg: "xdiv (avg_credit_size r1) 0 = PInf" if "min_credit_size r1 = min_credit_size r"
      "max_credit_size r1 = max_credit_size r" for r1
    using assms(6,7) that by (simp add: xdiv_def avg_credit_size_def)
  have jit: "0 < 1 + (real_of_int (rand_seq r n) / real_of_int rand_max
      * (max_jitter r - min_jitter r) + min_jitter r)" for n
  proof -
    have "0 \<le> real_of_int (rand_seq r n) / real_of_int rand_max * (max_jitter r - min_jitter r)"
      using assms(9,10) by (simp add: rand_max_def)
    then show ?thesis using assms(8) by linarith
  qed
  have "\<exists>r1. send_credit t2 r0 = Inr r1 \<and> cur_credit_rate r1 = 0 \<and>
      length (sent r1) = length (sent r) + 1 \<and> event_at (send_credit_timer r1) = Some PInf"
    using tr assms(7,9) jit
    unfolding sc by (auto simp: construct_credit_def credit_delay_def draw_rand_def send_def avg
        r0_def Let_def)
  then have "\<exists>r'. recv t2 ?q r = Inr r' \<and> credit_send_state r' = XPASS_SEND_CREDIT_SENDING \<and>
      cur_credit_rate r' = 0 \<and> length (sent r') = length (sent r) + 1 \<and>
      event_at (send_credit_timer r') = Some PInf"
    using assms(5) q
    by (auto simp: recv_def recv_credit_request_def Let_def xp_init_def r0_def int_of_double_def
        to_int_def in_int32_def)
  ultimately show ?thesis using q by blast
qed

subsection \<open>Witnesses of the data transfer\<close>

definition data_packet :: packet where
  "data_packet = (allocpkt PT_XPASS_DATA 1538)\<lparr>seqno := 1, hlen := 78, credit_seq := 3\<rparr>"

theorem xp_recv_data_effect_witness:
  "\<exists>s'. recv_data 1 data_packet default_agent = Inr s' \<and> recv_next s' = 1461 \<and> credit_dropped s' = 2"
  using xp_recv_data_effect [OF reach_default, of data_packet 1]
  by (auto simp: default_agent_def data_packet_def Let_def)

theorem xp_credits_drain_data_witness:
  "\<exists>s'. recv_credits [(1, allocpkt PT_XPASS_CREDIT 84)] requested = Inr s' \<and> t_seqno s' = 1001 \<and>
     credit_recv_state s' = XPASS_RECV_CREDIT_STOP_SENT"
proof -
  have "sending requested" "\<not> pending (credit_stop_timer requested)" "segment_ok requested"
      "0 \<le> datalen_remaining requested" "pkt_remaining requested = 1" "curseq requested = 1001"
    by (simp_all add: requested_def default_agent_def segment_ok_def max_segment_def sending_def
        datalen_remaining_def pkt_remaining_def new_timer_def)
  with xp_credits_drain_data [OF reach_requested, of "[(1, allocpkt PT_XPASS_CREDIT 84)]"]
  show ?thesis by fastforce
qed

text \<open>Two agents with a minimum frame of one byte more than the header, so that nothing is padded.\<close>

definition unpadded :: xpass where
  "unpadded = default_agent\<lparr>min_ethernet_size := 79\<rparr>"

theorem xp_receiver_never_overruns_witness:
  "\<exists>a b. net_step\<^sup>*\<^sup>* (net_start unpadded unpadded) (a, b) \<and> curseq a = 1001 \<and> recv_next b \<le> 1001"
proof -
  have ok: "segment_ok unpadded" "no_padding unpadded"
    by (simp_all add: unpadded_def default_agent_def segment_ok_def max_segment_def no_padding_def)
  let ?a = "new_XPassAgent (unpadded\<lparr>sent := []\<rparr>)"
  obtain a where a: "xp_handle 0 (EvCommand (CmdAdvanceBytes 1000)) ?a = Inr a" "curseq a = 1001"
    by (simp add: xp_eval unpadded_def new_XPassAgent_def)
  have "net_step (net_start unpadded unpadded) (a, ?a)"
    unfolding net_start_def by (rule net_left [OF a(1)]) simp_all
  then have "net_step\<^sup>*\<^sup>* (net_start unpadded unpadded) (a, ?a)" by (rule r_into_rtranclp)
  from this xp_receiver_never_overruns [OF this ok ok] a(2) show ?thesis by auto
qed

theorem xp_padding_counted_as_data_witness:
  "\<exists>s' p r'. send_data (allocpkt PT_XPASS_CREDIT 84) (default_agent\<lparr>curseq := 2\<rparr>) = Inr s' \<and>
     sent s' = [p] \<and> process_ack 0 p default_agent = Inr r' \<and> recv_next r' = 7"
  using xp_padding_counted_as_data [of "default_agent\<lparr>curseq := 2\<rparr>" default_agent
      "allocpkt PT_XPASS_CREDIT 84" 0]
  by (auto simp: default_agent_def segment_ok_def max_segment_def datalen_remaining_def)

theorem xp_nack_request_stalls_receiver_witness:
  "\<exists>s r r'. xp_reach s \<and> xp_reach r \<and> credit_recv_state s = XPASS_RECV_CREDIT_STOP_SENT \<and>
     (\<exists>q. sendbuffer q = 0 \<and> recv 2 q r = Inr r' \<and> event_at (send_credit_timer r') = Some PInf)"
proof -
  let ?evs = "[(0, EvCommand (CmdAdvanceBytes 1000)), (1 / 100, EvRecv (allocpkt PT_XPASS_CREDIT 84)),
     (1 / 100, EvCreditStop)]"
  obtain s where s: "xp_run ?evs default_agent = Inr s"
    and st: "credit_recv_state s = XPASS_RECV_CREDIT_STOP_SENT" "datalen_remaining s = 0"
    by (simp add: xp_eval)
  have r: "xp_reach s" by (rule reach_run [OF s reach_default])
  from xp_nack_request_stalls_receiver [OF r st reach_stopped, of 1 undefined 2]
  show ?thesis using r st reach_stopped
    by (auto simp: stopped_def default_agent_def)
qed

end
