(* ===== verification/Packet_Queue.thy ===== *)
theory Packet_Queue
  imports Packets
begin

section \<open>The packet list (\<open>queue/queue.h\<close>, \<open>queue/queue.cc\<close>: \<open>PacketQueue\<close>)\<close>

text \<open>
  \<open>PacketQueue\<close> is a singly linked list threaded through the \<open>next_\<close> field of the packets
  themselves. The model keeps that representation: a memory maps the address of a packet to its
  \<open>next_\<close> pointer and its headers (\<open>None\<close> is the null pointer), and a queue is a pair of pointers
  with the two counters. \<open>pq_rep\<close> relates a queue to the list of addresses it holds, and every
  operation is shown to implement the list operation one expects. The interface that the queue
  disciplines rely on is the locale \<open>packet_fifo\<close>.
\<close>

record pkt_mem =
  nxt :: "addr \<Rightarrow> addr option"
  pkt_at :: "addr \<Rightarrow> packet"

record packet_queue =
  pq_head :: "addr option"
  pq_tail :: "addr option"
  pq_len :: int
  pq_bytes :: int
  pq_iter :: "addr option"

abbreviation psize :: "pkt_mem \<Rightarrow> addr \<Rightarrow> int" where
  "psize m p \<equiv> pkt_size (pkt_at m p)"

definition set_nxt :: "addr \<Rightarrow> addr option \<Rightarrow> pkt_mem \<Rightarrow> pkt_mem" where
  "set_nxt p n m = m\<lparr>nxt := (nxt m)(p := n)\<rparr>"

text \<open>The constructor leaves \<open>iter\<close> uninitialised; the model starts it at null.\<close>

definition new_packet_queue :: packet_queue where
  "new_packet_queue = \<lparr>pq_head = None, pq_tail = None, pq_len = 0, pq_bytes = 0, pq_iter = None\<rparr>"

definition pq_enque :: "addr \<Rightarrow> pkt_mem \<Rightarrow> packet_queue \<Rightarrow> addr option \<times> pkt_mem \<times> packet_queue" where
  "pq_enque p m q =
     (let pt = pq_tail q;
          (m, q) = (case pq_tail q of
              None \<Rightarrow> (m, q\<lparr>pq_head := Some p, pq_tail := Some p\<rparr>)
            | Some t \<Rightarrow> (set_nxt t (Some p) m, q\<lparr>pq_tail := Some p\<rparr>));
          m = set_nxt p None m
      in (pt, m, q\<lparr>pq_len := pq_len q + 1, pq_bytes := pq_bytes q + psize m p\<rparr>))"

definition pq_deque :: "pkt_mem \<Rightarrow> packet_queue \<Rightarrow> addr option \<times> packet_queue" where
  "pq_deque m q =
     (case pq_head q of
        None \<Rightarrow> (None, q)
      | Some p \<Rightarrow>
          (let q = q\<lparr>pq_head := nxt m p\<rparr>;
               q = (if Some p = pq_tail q then q\<lparr>pq_head := None, pq_tail := None\<rparr> else q)
           in (Some p, q\<lparr>pq_len := pq_len q - 1, pq_bytes := pq_bytes q - psize m p\<rparr>)))"

text \<open>\<open>lookup(n)\<close> walks the list; on a cyclic list it need not return.\<close>

partial_function (option) pq_walk :: "pkt_mem \<Rightarrow> addr option \<Rightarrow> int \<Rightarrow> addr option option" where
  "pq_walk m p n =
     (case p of
        None \<Rightarrow> Some None
      | Some a \<Rightarrow> if n - 1 < 0 then Some (Some a) else pq_walk m (nxt m a) (n - 1))"

definition pq_lookup :: "pkt_mem \<Rightarrow> packet_queue \<Rightarrow> int \<Rightarrow> addr option option" where
  "pq_lookup m q n = pq_walk m (pq_head q) n"

text \<open>The loop of \<open>remove(target)\<close>: \<open>pp\<close> trails \<open>p\<close> by one element.\<close>

partial_function (option) pq_remove_loop ::
  "addr \<Rightarrow> pkt_mem \<Rightarrow> packet_queue \<Rightarrow> addr option \<Rightarrow> addr option \<Rightarrow> (pkt_mem \<times> packet_queue) res option"
where
  "pq_remove_loop target m q pp p =
     (case p of
        None \<Rightarrow> Some (Inl RemoveTargetNotFound)
      | Some a \<Rightarrow>
          if a = target then
            Some (Inr (case pp of
                None \<Rightarrow> (m, snd (pq_deque m q))
              | Some b \<Rightarrow>
                  (let q = (if Some a = pq_tail q then q\<lparr>pq_tail := Some b\<rparr> else q);
                       m = set_nxt b (nxt m a) m
                   in (m, q\<lparr>pq_len := pq_len q - 1, pq_bytes := pq_bytes q - psize m a\<rparr>))))
          else pq_remove_loop target m q (Some a) (nxt m a))"

definition pq_remove ::
  "addr \<Rightarrow> pkt_mem \<Rightarrow> packet_queue \<Rightarrow> (pkt_mem \<times> packet_queue) res option" where
  "pq_remove target m q = pq_remove_loop target m q None (pq_head q)"

text \<open>\<open>remove(pkt, prev)\<close>; a null \<open>prev\<close> is dereferenced when \<open>pkt\<close> is not the head.\<close>

definition pq_remove_after ::
  "addr option \<Rightarrow> addr option \<Rightarrow> pkt_mem \<Rightarrow> packet_queue \<Rightarrow> (pkt_mem \<times> packet_queue) res" where
  "pq_remove_after pkt prev m q =
     (case pkt of
        None \<Rightarrow> Inr (m, q)
      | Some a \<Rightarrow>
          if pq_head q = Some a then Inr (m, snd (pq_deque m q))
          else (case prev of
              None \<Rightarrow> Inl NullPointer
            | Some b \<Rightarrow>
                (let m = set_nxt b (nxt m a) m;
                     q = (if pq_tail q = Some a then q\<lparr>pq_tail := Some b\<rparr> else q)
                 in Inr (m, q\<lparr>pq_len := pq_len q - 1, pq_bytes := pq_bytes q - psize m a\<rparr>))))"

definition pq_enqueHead :: "addr \<Rightarrow> pkt_mem \<Rightarrow> packet_queue \<Rightarrow> pkt_mem \<times> packet_queue" where
  "pq_enqueHead p m q =
     (let q = (if pq_head q = None then q\<lparr>pq_tail := Some p\<rparr> else q);
          m = set_nxt p (pq_head q) m;
          q = q\<lparr>pq_head := Some p\<rparr>
      in (m, q\<lparr>pq_len := pq_len q + 1, pq_bytes := pq_bytes q + psize m p\<rparr>))"

definition pq_resetIterator :: "packet_queue \<Rightarrow> packet_queue" where
  "pq_resetIterator q = q\<lparr>pq_iter := pq_head q\<rparr>"

definition pq_getNext :: "pkt_mem \<Rightarrow> packet_queue \<Rightarrow> addr option \<times> packet_queue" where
  "pq_getNext m q =
     (case pq_iter q of
        None \<Rightarrow> (None, q)
      | Some a \<Rightarrow> (Some a, q\<lparr>pq_iter := nxt m a\<rparr>))"

declare pq_enque_def [op_defs] pq_deque_def [op_defs] pq_enqueHead_def [op_defs]
  pq_remove_after_def [op_defs] set_nxt_def [op_defs]

subsection \<open>The list a queue holds\<close>

fun lseg :: "pkt_mem \<Rightarrow> addr option \<Rightarrow> addr list \<Rightarrow> bool" where
  "lseg m p [] \<longleftrightarrow> p = None"
| "lseg m p (x # xs) \<longleftrightarrow> p = Some x \<and> lseg m (nxt m x) xs"

abbreviation total_size :: "pkt_mem \<Rightarrow> addr list \<Rightarrow> int" where
  "total_size m xs \<equiv> sum_list (map (psize m) xs)"

definition pq_rep :: "pkt_mem \<Rightarrow> packet_queue \<Rightarrow> addr list \<Rightarrow> bool" where
  "pq_rep m q xs \<longleftrightarrow>
     lseg m (pq_head q) xs \<and> distinct xs \<and>
     pq_tail q = (if xs = [] then None else Some (last xs)) \<and>
     pq_len q = int (length xs) \<and> pq_bytes q = total_size m xs"

lemma set_nxt_sel [simp]:
  "nxt (set_nxt p n m) = (nxt m)(p := n)" "pkt_at (set_nxt p n m) = pkt_at m"
  by (simp_all add: set_nxt_def)

lemma lseg_cong:
  "(\<And>x. x \<in> set xs \<Longrightarrow> nxt m' x = nxt m x) \<Longrightarrow> lseg m' p xs = lseg m p xs"
  by (induction xs arbitrary: p) auto

lemma lseg_set_other [simp]: "a \<notin> set xs \<Longrightarrow> lseg (set_nxt a n m) p xs = lseg m p xs"
  by (rule lseg_cong) auto

lemma lseg_append:
  "lseg m p (xs @ x # ys) \<Longrightarrow> lseg m (nxt m x) ys"
  by (induction xs arbitrary: p) auto

lemma lseg_snoc:
  "lseg m p xs \<Longrightarrow> xs \<noteq> [] \<Longrightarrow> distinct xs \<Longrightarrow> a \<notin> set xs \<Longrightarrow>
   lseg (set_nxt a None (set_nxt (last xs) (Some a) m)) p (xs @ [a])"
proof (induction xs arbitrary: p)
  case (Cons x xs)
  show ?case
  proof (cases "xs = []")
    case True
    then show ?thesis using Cons.prems by auto
  next
    case False
    then have "last xs \<noteq> x" "lseg m (nxt m x) xs" using Cons.prems by auto
    then show ?thesis using Cons.IH [of "nxt m x"] Cons.prems False by auto
  qed
qed simp

lemma lseg_unlink:
  "lseg m p (xs @ b # a # ys) \<Longrightarrow> distinct (xs @ b # a # ys) \<Longrightarrow>
   lseg (set_nxt b (nxt m a) m) p (xs @ b # ys)"
  by (induction xs arbitrary: p) auto

lemma pq_rep_new [simp]: "pq_rep m new_packet_queue []"
  by (simp add: pq_rep_def new_packet_queue_def)

lemma pq_rep_length: "pq_rep m q xs \<Longrightarrow> pq_len q = int (length xs)"
  by (simp add: pq_rep_def)

lemma pq_rep_bytes: "pq_rep m q xs \<Longrightarrow> pq_bytes q = total_size m xs"
  by (simp add: pq_rep_def)

lemma pq_rep_distinct: "pq_rep m q xs \<Longrightarrow> distinct xs"
  by (simp add: pq_rep_def)

lemma pq_rep_head: "pq_rep m q xs \<Longrightarrow> pq_head q = (case xs of [] \<Rightarrow> None | x # _ \<Rightarrow> Some x)"
  by (cases xs) (simp_all add: pq_rep_def)

lemma pq_rep_tail: "pq_rep m q xs \<Longrightarrow> pq_tail q = (if xs = [] then None else Some (last xs))"
  by (simp add: pq_rep_def)

text \<open>A queue is determined by the cells of its own packets.\<close>

lemma pq_rep_frame:
  assumes "pq_rep m q xs"
    and "\<And>x. x \<in> set xs \<Longrightarrow> nxt m' x = nxt m x" "\<And>x. x \<in> set xs \<Longrightarrow> psize m' x = psize m x"
  shows "pq_rep m' q xs"
  using assms lseg_cong [of xs m' m "pq_head q"] by (simp add: pq_rep_def cong: map_cong)

lemma lseg_unique: "lseg m p xs \<Longrightarrow> lseg m p ys \<Longrightarrow> xs = ys"
proof (induction xs arbitrary: p ys)
  case Nil
  then show ?case by (cases ys) auto
next
  case (Cons x xs)
  then show ?case by (cases ys) auto
qed

lemma pq_rep_unique: "pq_rep m q xs \<Longrightarrow> pq_rep m q ys \<Longrightarrow> xs = ys"
  by (auto simp: pq_rep_def intro: lseg_unique)

subsection \<open>Every operation implements its list operation\<close>

lemma pq_enque_mem:
  "fst (snd (pq_enque p m q)) =
     set_nxt p None (case pq_tail q of None \<Rightarrow> m | Some t \<Rightarrow> set_nxt t (Some p) m)"
  by (simp add: pq_enque_def Let_def split: option.split)

lemma pq_enque_rep:
  assumes rep: "pq_rep m q xs" and fresh: "p \<notin> set xs"
    and run: "pq_enque p m q = (pt, m', q')"
  shows "pq_rep m' q' (xs @ [p])" and "pt = (if xs = [] then None else Some (last xs))"
    and "pkt_at m' = pkt_at m"
    and "\<And>x. x \<noteq> p \<Longrightarrow> x \<notin> set xs \<Longrightarrow> nxt m' x = nxt m x"
proof -
  have "pq_rep m' q' (xs @ [p]) \<and> pt = (if xs = [] then None else Some (last xs)) \<and>
        pkt_at m' = pkt_at m \<and> (\<forall>x. x \<noteq> p \<longrightarrow> x \<notin> set xs \<longrightarrow> nxt m' x = nxt m x)"
  proof (cases "xs = []")
    case True
    then show ?thesis using rep run by (auto simp: pq_enque_def pq_rep_def Let_def)
  next
    case False
    then show ?thesis
      using rep run fresh lseg_snoc [of m "pq_head q" xs p]
      by (auto simp: pq_enque_def pq_rep_def Let_def)
  qed
  then show "pq_rep m' q' (xs @ [p])" "pt = (if xs = [] then None else Some (last xs))"
    "pkt_at m' = pkt_at m" "\<And>x. x \<noteq> p \<Longrightarrow> x \<notin> set xs \<Longrightarrow> nxt m' x = nxt m x" by blast+
qed

lemma pq_deque_empty: "pq_rep m q [] \<Longrightarrow> pq_deque m q = (None, q)"
  by (simp add: pq_rep_def pq_deque_def)

lemma pq_deque_rep:
  assumes "pq_rep m q (x # xs)" and "pq_deque m q = (r, q')"
  shows "r = Some x \<and> pq_rep m q' xs"
  using assms by (cases "xs = []") (auto simp: pq_rep_def pq_deque_def Let_def)

lemma pq_enqueHead_rep:
  assumes "pq_rep m q xs" and "p \<notin> set xs" and "pq_enqueHead p m q = (m', q')"
  shows "pq_rep m' q' (p # xs)"
  using assms by (cases xs) (auto simp: pq_rep_def pq_enqueHead_def Let_def)

lemma pq_walk_Some [simp]:
  "pq_walk m (Some a) n = (if n - 1 < 0 then Some (Some a) else pq_walk m (nxt m a) (n - 1))"
  by (subst pq_walk.simps) simp

lemma pq_walk_None [simp]: "pq_walk m None n = Some None"
  by (subst pq_walk.simps) simp

lemma pq_walk_lseg:
  "lseg m p xs \<Longrightarrow>
   pq_walk m p n = Some (if nat n < length xs then Some (xs ! nat n) else None)"
proof (induction xs arbitrary: p n)
  case Nil
  then show ?case by simp
next
  case (Cons x xs)
  show ?case
  proof (cases "n \<le> 0")
    case True
    then show ?thesis using Cons.prems by auto
  next
    case False
    then have "nat n = Suc (nat (n - 1))" by simp
    then show ?thesis
      using Cons.IH [of "nxt m x" "n - 1"] Cons.prems False by auto
  qed
qed

lemma pq_lookup_rep:
  "pq_rep m q xs \<Longrightarrow> pq_lookup m q n = Some (if nat n < length xs then Some (xs ! nat n) else None)"
  by (simp add: pq_lookup_def pq_rep_def pq_walk_lseg)

subsection \<open>Removal\<close>

lemma pq_remove_loop_None [simp]:
  "pq_remove_loop a m q pp None = Some (Inl RemoveTargetNotFound)"
  by (subst pq_remove_loop.simps) simp

lemma pq_remove_loop_other [simp]:
  "x \<noteq> a \<Longrightarrow> pq_remove_loop a m q pp (Some x) = pq_remove_loop a m q (Some x) (nxt m x)"
  by (subst pq_remove_loop.simps) simp

lemma pq_remove_loop_head [simp]:
  "pq_remove_loop a m q None (Some a) = Some (Inr (m, snd (pq_deque m q)))"
  by (subst pq_remove_loop.simps) simp

lemma pq_remove_loop_inner [simp]:
  "pq_remove_loop a m q (Some b) (Some a) =
     Some (Inr (set_nxt b (nxt m a) m,
       (if Some a = pq_tail q then q\<lparr>pq_tail := Some b\<rparr> else q)
         \<lparr>pq_len := pq_len q - 1, pq_bytes := pq_bytes q - psize m a\<rparr>))"
  by (subst pq_remove_loop.simps) (simp add: Let_def)

lemma pq_unlink_rep:
  assumes "pq_rep m q (xs @ b # a # ys)"
  shows "pq_rep (set_nxt b (nxt m a) m)
           ((if Some a = pq_tail q then q\<lparr>pq_tail := Some b\<rparr> else q)
              \<lparr>pq_len := pq_len q - 1, pq_bytes := pq_bytes q - psize m a\<rparr>)
           (xs @ b # ys)"
  using assms lseg_unlink [of m "pq_head q" xs b a ys]
  by (cases "ys = []") (auto simp: pq_rep_def)

lemma pq_remove_loop_found:
  assumes "pq_rep m q (xs @ b # zs @ a # ys)" and "a \<notin> set zs"
  shows "\<exists>m' q'. pq_remove_loop a m q (Some b) (nxt m b) = Some (Inr (m', q')) \<and>
                 pq_rep m' q' (xs @ b # zs @ ys) \<and> pkt_at m' = pkt_at m \<and>
                 (\<forall>x. x \<notin> set (xs @ b # zs) \<longrightarrow> nxt m' x = nxt m x)"
  using assms
proof (induction zs arbitrary: xs b)
  case Nil
  then have "nxt m b = Some a"
    using lseg_append [of m "pq_head q" xs b "a # ys"] by (simp add: pq_rep_def)
  then show ?case using pq_unlink_rep [of m q xs b a ys] Nil.prems(1) by simp
next
  case (Cons z zs)
  have "nxt m b = Some z"
    using Cons.prems lseg_append [of m "pq_head q" xs b "z # zs @ a # ys"] by (simp add: pq_rep_def)
  moreover have "z \<noteq> a" using Cons.prems by auto
  ultimately show ?case using Cons.IH [of "xs @ [b]" z] Cons.prems by simp
qed

lemma pq_remove_loop_missing:
  "lseg m p xs \<Longrightarrow> a \<notin> set xs \<Longrightarrow> pq_remove_loop a m q pp p = Some (Inl RemoveTargetNotFound)"
  by (induction xs arbitrary: p pp) auto

lemma pq_remove_missing:
  "pq_rep m q xs \<Longrightarrow> a \<notin> set xs \<Longrightarrow> pq_remove a m q = Some (Inl RemoveTargetNotFound)"
  unfolding pq_remove_def pq_rep_def by (blast intro: pq_remove_loop_missing)

lemma pq_remove_rep:
  assumes rep: "pq_rep m q (xs @ a # ys)"
  shows "\<exists>m' q'. pq_remove a m q = Some (Inr (m', q')) \<and> pq_rep m' q' (xs @ ys) \<and>
                 pkt_at m' = pkt_at m \<and> (\<forall>x. x \<notin> set xs \<longrightarrow> nxt m' x = nxt m x)"
proof (cases xs)
  case Nil
  obtain r q' where d: "pq_deque m q = (r, q')" by fastforce
  have "pq_head q = Some a" using pq_rep_head [OF rep] Nil by simp
  then show ?thesis
    using pq_deque_rep [of m q a ys r q'] rep d Nil
    by (simp add: pq_remove_def)
next
  case (Cons b zs)
  then have "b \<noteq> a" "a \<notin> set zs" "pq_head q = Some b"
    using rep pq_rep_head [OF rep] by (auto simp: pq_rep_def)
  then show ?thesis
    using pq_remove_loop_found [of m q "[]" b zs a ys] rep Cons
    by (auto simp: pq_remove_def)
qed

lemma pq_remove_after_head:
  assumes "pq_rep m q (a # ys)"
  shows "\<exists>q'. pq_remove_after (Some a) prev m q = Inr (m, q') \<and> pq_rep m q' ys"
  using assms pq_rep_head [OF assms] pq_deque_rep [OF assms]
  by (cases "pq_deque m q") (auto simp: pq_remove_after_def)

lemma pq_remove_after_inner:
  assumes rep: "pq_rep m q (xs @ b # a # ys)"
  shows "\<exists>m' q'. pq_remove_after (Some a) (Some b) m q = Inr (m', q') \<and>
                 pq_rep m' q' (xs @ b # ys) \<and> pkt_at m' = pkt_at m"
proof -
  have "pq_head q \<noteq> Some a"
    using pq_rep_head [OF rep] pq_rep_distinct [OF rep] by (cases xs) auto
  then show ?thesis
    using pq_unlink_rep [OF rep] by (simp add: pq_remove_after_def Let_def eq_commute split: if_splits)
qed

subsection \<open>The interface of the packet list\<close>

text \<open>
  What a queue discipline relies on: a representation predicate for the list of packets a queue
  holds, the laws of adding, taking and removing, the two counters, and that an operation on one
  queue leaves every other queue in the same memory alone. The lemmas about filling and draining
  are proved from these laws.
\<close>

fun drain :: "('q \<Rightarrow> 'a option \<times> 'q) \<Rightarrow> nat \<Rightarrow> 'q \<Rightarrow> 'a list" where
  "drain deq 0 q = []"
| "drain deq (Suc n) q =
     (case deq q of (None, q') \<Rightarrow> [] | (Some x, q') \<Rightarrow> x # drain deq n q')"

fun fill :: "(addr \<Rightarrow> 'm \<Rightarrow> 'q \<Rightarrow> 'm \<times> 'q) \<Rightarrow> addr list \<Rightarrow> 'm \<times> 'q \<Rightarrow> 'm \<times> 'q" where
  "fill enq [] mq = mq"
| "fill enq (x # xs) mq = fill enq xs (enq x (fst mq) (snd mq))"

locale packet_fifo =
  fixes rep :: "'m \<Rightarrow> 'q \<Rightarrow> addr list \<Rightarrow> bool"
    and hdr :: "'m \<Rightarrow> addr \<Rightarrow> packet"
    and enq :: "addr \<Rightarrow> 'm \<Rightarrow> 'q \<Rightarrow> 'm \<times> 'q"
    and deq :: "'m \<Rightarrow> 'q \<Rightarrow> addr option \<times> 'q"
    and rem :: "addr \<Rightarrow> 'm \<Rightarrow> 'q \<Rightarrow> ('m \<times> 'q) res"
    and len :: "'q \<Rightarrow> int"
    and bytes :: "'q \<Rightarrow> int"
  assumes rep_distinct: "rep m q xs \<Longrightarrow> distinct xs"
    and len_rep: "rep m q xs \<Longrightarrow> len q = int (length xs)"
    and bytes_rep: "rep m q xs \<Longrightarrow> bytes q = (\<Sum>x\<leftarrow>xs. pkt_size (hdr m x))"
    and enq_rep: "rep m q xs \<Longrightarrow> p \<notin> set xs \<Longrightarrow> enq p m q = (m', q') \<Longrightarrow>
                  rep m' q' (xs @ [p]) \<and> hdr m' = hdr m"
    and enq_frame: "rep m q xs \<Longrightarrow> p \<notin> set xs \<Longrightarrow> enq p m q = (m', q') \<Longrightarrow>
                  rep m r ys \<Longrightarrow> set ys \<inter> set xs = {} \<Longrightarrow> p \<notin> set ys \<Longrightarrow> rep m' r ys"
    and deq_nil: "rep m q [] \<Longrightarrow> deq m q = (None, q)"
    and deq_cons: "rep m q (x # xs) \<Longrightarrow> \<exists>q'. deq m q = (Some x, q') \<and> rep m q' xs"
    and rem_rep: "rep m q (xs @ a # ys) \<Longrightarrow>
                  \<exists>m' q'. rem a m q = Inr (m', q') \<and> rep m' q' (xs @ ys) \<and> hdr m' = hdr m"
    and rem_frame: "rep m q xs \<Longrightarrow> rem a m q = Inr (m', q') \<Longrightarrow> rep m r ys \<Longrightarrow>
                  set ys \<inter> set xs = {} \<Longrightarrow> rep m' r ys"
    and rem_missing: "rep m q xs \<Longrightarrow> a \<notin> set xs \<Longrightarrow> rem a m q = Inl RemoveTargetNotFound"
begin

text \<open>Adding a packet and taking it back out, as the disciplines do to drop an arrival.\<close>

lemma enq_rem:
  assumes "rep m q xs" and "p \<notin> set xs" and "enq p m q = (m1, q1)"
  shows "\<exists>m2 q2. rem p m1 q1 = Inr (m2, q2) \<and> rep m2 q2 xs \<and> hdr m2 = hdr m"
  using enq_rep [OF assms] rem_rep [of m1 q1 xs p "[]"] by auto

lemma enq_rem_frame:
  assumes "rep m q xs" and "p \<notin> set xs" and "enq p m q = (m1, q1)" and "rem p m1 q1 = Inr (m2, q2)"
    and "rep m r ys" and "set ys \<inter> set xs = {}" and "p \<notin> set ys"
  shows "rep m2 r ys"
proof (rule rem_frame)
  show "rep m1 q1 (xs @ [p])" using enq_rep [OF assms(1-3)] by simp
  show "rep m1 r ys" by (rule enq_frame [OF assms(1-3) assms(5-7)])
qed (use assms in auto)

lemma fill_rep:
  assumes "rep m q xs" and "distinct (xs @ ys)" and "fill enq ys (m, q) = (m', q')"
  shows "rep m' q' (xs @ ys)"
  using assms
proof (induction ys arbitrary: m q xs)
  case (Cons y ys)
  obtain m1 q1 where e: "enq y m q = (m1, q1)" by fastforce
  then have "rep m1 q1 (xs @ [y])" using enq_rep [of m q xs y] Cons.prems by auto
  then show ?case using Cons.IH [of m1 q1 "xs @ [y]"] Cons.prems e by simp
qed simp

lemma drain_rep: "rep m q xs \<Longrightarrow> length xs \<le> n \<Longrightarrow> drain (deq m) n q = xs"
proof (induction xs arbitrary: q n)
  case Nil
  then show ?case by (cases n) (simp_all add: deq_nil)
next
  case (Cons x xs)
  then obtain k q' where "n = Suc k" "length xs \<le> k" "deq m q = (Some x, q')" "rep m q' xs"
    using deq_cons [of m q x xs] by (cases n) auto
  then show ?case using Cons.IH [of q' k] by simp
qed

lemma drain_fill:
  assumes "rep m q []" and "distinct xs" and "fill enq xs (m, q) = (m', q')"
  shows "drain (deq m') (length xs) q' = xs"
  using drain_rep [of m' q' xs "length xs"] fill_rep [of m q "[]" xs] assms by simp

end

text \<open>The pointer operations provide the interface.\<close>

lemma pq_enque_frame:
  assumes "pq_rep m q xs" "p \<notin> set xs" "pq_enque p m q = (pt, m', q')"
    and "pq_rep m r ys" "set ys \<inter> set xs = {}" "p \<notin> set ys"
  shows "pq_rep m' r ys"
proof (rule pq_rep_frame [OF assms(4)])
  fix x assume "x \<in> set ys"
  then have "x \<noteq> p" "x \<notin> set xs" using assms(5,6) by auto
  then show "nxt m' x = nxt m x" by (rule pq_enque_rep(4) [OF assms(1-3)])
qed (simp add: pq_enque_rep(3) [OF assms(1-3)])

lemma pq_remove_frame:
  assumes "pq_rep m q xs" "pq_remove a m q = Some (Inr (m', q'))"
    and "pq_rep m r ys" "set ys \<inter> set xs = {}"
  shows "pq_rep m' r ys"
proof -
  have "a \<in> set xs" using pq_remove_missing [OF assms(1), of a] assms(2) by fastforce
  then obtain us vs where "xs = us @ a # vs" by (meson split_list)
  then show ?thesis
    using pq_remove_rep [of m q us a vs] assms by (intro pq_rep_frame [OF assms(3)]) auto
qed

interpretation pqf: packet_fifo pq_rep pkt_at "\<lambda>p m q. snd (pq_enque p m q)" pq_deque
  "\<lambda>p m q. of_loop (pq_remove p m q)" pq_len pq_bytes
proof (unfold_locales, goal_cases)
  case (4 m q xs p m' q')
  then show ?case using pq_enque_rep [of m q xs p "fst (pq_enque p m q)" m' q']
    by (cases "pq_enque p m q") auto
next
  case (5 m q xs p m' q' r ys)
  then show ?case using pq_enque_frame [of m q xs p "fst (pq_enque p m q)" m' q' r ys]
    by (cases "pq_enque p m q") auto
next
  case (7 m q x xs)
  then show ?case using pq_deque_rep [of m q x xs] by (cases "pq_deque m q") auto
next
  case (8 m q xs a ys)
  then show ?case using pq_remove_rep [of m q xs a ys] by auto
next
  case (9 m q xs a m' q' r ys)
  then show ?case
    using pq_remove_frame [of m q xs a m' q' r ys] by (cases "pq_remove a m q") auto
qed (auto simp: pq_rep_length pq_rep_bytes pq_rep_distinct pq_deque_empty pq_remove_missing)

text \<open>The iterator visits the packets from head to tail.\<close>

lemma pq_getNext_drain:
  "lseg m (pq_iter q) xs \<Longrightarrow> length xs \<le> n \<Longrightarrow> drain (pq_getNext m) n q = xs"
proof (induction xs arbitrary: q n)
  case Nil
  then show ?case by (cases n) (simp_all add: pq_getNext_def)
next
  case (Cons x xs)
  then obtain k where "n = Suc k" "length xs \<le> k" by (cases n) auto
  then show ?case using Cons.IH [of "q\<lparr>pq_iter := nxt m x\<rparr>" k] Cons.prems
    by (simp add: pq_getNext_def)
qed

lemma pq_iterate:
  "pq_rep m q xs \<Longrightarrow> drain (pq_getNext m) (length xs) (pq_resetIterator q) = xs"
  by (rule pq_getNext_drain) (simp_all add: pq_resetIterator_def pq_rep_def)

end
