(* ===== verification/Queue_Base.thy ===== *)
theory Queue_Base
  imports Packet_Queue
begin

section \<open>The queue base class (\<open>queue/queue.h\<close>, \<open>queue/queue.cc\<close>: \<open>Queue\<close>)\<close>

text \<open>
  The fields and methods every queue discipline inherits. The disciplines extend the record
  \<open>queue\<close>; the virtual methods \<open>enque\<close> and \<open>deque\<close> are arguments of the base class's methods.
  Handing a packet to the link (\<open>target_->recv(p, &qh_)\<close>) appends it to \<open>forwarded\<close> with the time;
  the link calls back \<open>qh_\<close>, whose \<open>handle\<close> is \<open>resume\<close>, when it has sent the packet.
  \<open>Connector::drop\<close> appends to \<open>dropped\<close>.
\<close>

record queue =
  mem :: pkt_mem
  qlim :: int
  blocked :: bool
  unblock_on_resume :: bool
  true_ave :: real
  total_time :: time
  last_change :: time
  old_util :: real
  util_weight :: real
  util_check_intv :: time
  period_begin :: time
  cur_util :: real
  buf_slot :: int
  util_buf :: "real list"
  util_records :: int
  forwarded :: "(time \<times> addr) list"
  dropped :: "addr list"

text \<open>The constructor, on an object whose bound variables are already set.\<close>

definition Queue_init :: "'a queue_scheme \<Rightarrow> 'a queue_scheme" where
  "Queue_init s = s\<lparr>last_change := 0, old_util := 0, period_begin := 0, cur_util := 0,
     buf_slot := 0,
     util_buf := (if 0 < util_records s then replicate (nat (util_records s)) 0 else [])\<rparr>"

subsection \<open>Utilisation\<close>

text \<open>The \<open>while\<close> loop of \<open>utilUpdate\<close>; \<open>guard\<close> bounds the number of its rounds.\<close>

function util_loop ::
  "int \<Rightarrow> real \<Rightarrow> time \<Rightarrow> real \<Rightarrow> real \<Rightarrow> 'a queue_scheme \<Rightarrow> 'a queue_scheme" where
  "util_loop guard link_state int_end tot_intv intv s =
     (if util_check_intv s < tot_intv + intv \<and> guard < util_records s then
        util_loop (guard + 1) link_state int_end tot_intv (intv - util_check_intv s)
          (s\<lparr>period_begin := int_end,
             util_buf := (util_buf s)[nat (buf_slot s) := cur_util s],
             buf_slot := (buf_slot s + 1) mod util_records s,
             cur_util := link_state\<rparr>)
      else s)"
  by pat_completeness auto

termination
  by (relation "measure (\<lambda>(g, _, _, _, _, s). nat (util_records s - g))") auto

declare util_loop.simps [simp del]

definition utilUpdate :: "time \<Rightarrow> time \<Rightarrow> bool \<Rightarrow> 'a queue_scheme \<Rightarrow> 'a queue_scheme" where
  "utilUpdate int_begin int_end link s =
     (let link_state = of_bool link;
          decay = exp (- util_weight s * (int_end - int_begin));
          s = s\<lparr>old_util := link_state + (old_util s - link_state) * decay\<rparr>
      in if util_records s = 0 then s
         else (let intv = int_end - int_begin;
                   tot_intv = int_begin - period_begin s
               in if intv \<noteq> 0 \<or> tot_intv \<noteq> 0 then
                    util_loop 0 link_state int_end tot_intv intv
                      (s\<lparr>cur_util := (link_state * intv + cur_util s * tot_intv) / (intv + tot_intv)\<rparr>)
                  else s))"

definition util_mark :: "time \<Rightarrow> 'a queue_scheme \<Rightarrow> 'a queue_scheme" where
  "util_mark now s = (utilUpdate (last_change s) now (blocked s) s)\<lparr>last_change := now\<rparr>"

definition utilization :: "time \<Rightarrow> 'a queue_scheme \<Rightarrow> real \<times> 'a queue_scheme" where
  "utilization now s = (let s = util_mark now s in (old_util s, s))"

fun peak_of :: "real \<Rightarrow> real list \<Rightarrow> real" where
  "peak_of peak [] = peak"
| "peak_of peak (x # xs) = peak_of (if peak < x then x else peak) xs"

definition peak_utilization :: "time \<Rightarrow> 'a queue_scheme \<Rightarrow> real \<times> 'a queue_scheme" where
  "peak_utilization now s =
     (if util_records s = 0 then utilization now s
      else (let s = util_mark now s in (peak_of 0 (take (nat (util_records s)) (util_buf s)), s)))"

definition updateStats :: "time \<Rightarrow> int \<Rightarrow> 'a queue_scheme \<Rightarrow> 'a queue_scheme" where
  "updateStats now queuesize s =
     (let newtime = now - total_time s
      in if 0 < newtime then
           s\<lparr>true_ave := (total_time s * true_ave s + newtime * of_int queuesize) / now,
             total_time := now\<rparr>
         else s)"

subsection \<open>Forwarding\<close>

definition queue_drop :: "addr \<Rightarrow> 'a queue_scheme \<Rightarrow> 'a queue_scheme" where
  "queue_drop p s = s\<lparr>dropped := dropped s @ [p]\<rparr>"

definition queue_send :: "time \<Rightarrow> addr \<Rightarrow> 'a queue_scheme \<Rightarrow> 'a queue_scheme" where
  "queue_send now p s = s\<lparr>forwarded := forwarded s @ [(now, p)]\<rparr>"

text \<open>Lines shared by \<open>Queue::recv\<close> and \<open>XPassDropTail::expire\<close>.\<close>

definition queue_serve ::
  "(time \<Rightarrow> 'a queue_scheme \<Rightarrow> (addr option \<times> 'a queue_scheme) res) \<Rightarrow>
   time \<Rightarrow> 'a queue_scheme \<Rightarrow> 'a queue_scheme res" where
  "queue_serve deq now s =
     (if blocked s then Inr s
      else res_bind (deq now s) (\<lambda>(r, s).
        case r of
          None \<Rightarrow> Inr s
        | Some p \<Rightarrow> Inr (queue_send now p ((util_mark now s)\<lparr>blocked := True\<rparr>))))"

definition Queue_recv ::
  "(time \<Rightarrow> addr \<Rightarrow> 'a queue_scheme \<Rightarrow> 'a queue_scheme res) \<Rightarrow>
   (time \<Rightarrow> 'a queue_scheme \<Rightarrow> (addr option \<times> 'a queue_scheme) res) \<Rightarrow>
   time \<Rightarrow> addr \<Rightarrow> 'a queue_scheme \<Rightarrow> 'a queue_scheme res" where
  "Queue_recv enq deq now p s = res_bind (enq now p s) (queue_serve deq now)"

definition Queue_resume ::
  "(time \<Rightarrow> 'a queue_scheme \<Rightarrow> (addr option \<times> 'a queue_scheme) res) \<Rightarrow>
   time \<Rightarrow> 'a queue_scheme \<Rightarrow> 'a queue_scheme res" where
  "Queue_resume deq now s =
     res_bind (deq now s) (\<lambda>(r, s).
       case r of
         Some p \<Rightarrow> Inr (queue_send now p s)
       | None \<Rightarrow> Inr (if unblock_on_resume s then (util_mark now s)\<lparr>blocked := False\<rparr>
                      else (util_mark now s)\<lparr>blocked := True\<rparr>))"

partial_function (option) reset_loop ::
  "(time \<Rightarrow> 'a queue_scheme \<Rightarrow> (addr option \<times> 'a queue_scheme) res) \<Rightarrow>
   time \<Rightarrow> 'a queue_scheme \<Rightarrow> 'a queue_scheme res option" where
  "reset_loop deq now s =
     (case deq now s of
        Inl e \<Rightarrow> Some (Inl e)
      | Inr (None, s) \<Rightarrow> Some (Inr s)
      | Inr (Some p, s) \<Rightarrow> reset_loop deq now (queue_drop p s))"

definition Queue_reset ::
  "(time \<Rightarrow> 'a queue_scheme \<Rightarrow> (addr option \<times> 'a queue_scheme) res) \<Rightarrow>
   time \<Rightarrow> 'a queue_scheme \<Rightarrow> 'a queue_scheme res" where
  "Queue_reset deq now s = of_loop (reset_loop deq now (s\<lparr>total_time := 0, true_ave := 0\<rparr>))"

lemmas queue_defs = queue_drop_def queue_send_def queue_serve_def Queue_recv_def Queue_resume_def

subsection \<open>What the statistics leave alone\<close>

text \<open>Two states that agree on everything but the utilisation and average-length statistics.\<close>

definition stats_only :: "'a queue_scheme \<Rightarrow> 'a queue_scheme \<Rightarrow> bool" where
  "stats_only s s' \<longleftrightarrow>
     mem s' = mem s \<and> qlim s' = qlim s \<and> blocked s' = blocked s \<and>
     unblock_on_resume s' = unblock_on_resume s \<and> forwarded s' = forwarded s \<and>
     dropped s' = dropped s \<and> queue.more s' = queue.more s"

lemma stats_only_refl [simp]: "stats_only s s"
  by (simp add: stats_only_def)

lemma stats_only_trans: "stats_only s s1 \<Longrightarrow> stats_only s1 s2 \<Longrightarrow> stats_only s s2"
  by (simp add: stats_only_def)

lemma util_loop_stats: "stats_only s (util_loop g l ie tot intv s)"
proof (induction g l ie tot intv s rule: util_loop.induct)
  case (1 g l ie tot intv s)
  then show ?case by (subst util_loop.simps) (auto simp: stats_only_def)
qed

lemma utilUpdate_stats: "stats_only s (utilUpdate ib ie l s)"
proof -
  have "stats_only s (util_loop g l ie t iv (s\<lparr>old_util := u, cur_util := c\<rparr>))" for g l t iv u c
    by (rule stats_only_trans [OF _ util_loop_stats]) (simp add: stats_only_def)
  moreover have "stats_only s (s\<lparr>old_util := u\<rparr>)" for u by (simp add: stats_only_def)
  ultimately show ?thesis by (simp only: utilUpdate_def Let_def split: if_split) simp
qed

lemma util_mark_stats: "stats_only s (util_mark now s)"
  by (rule stats_only_trans [OF utilUpdate_stats]) (simp add: util_mark_def stats_only_def)

lemma updateStats_stats: "stats_only s (updateStats now n s)"
  by (simp add: updateStats_def stats_only_def Let_def)

lemma util_mark_sel [simp]:
  "mem (util_mark now s) = mem s" "qlim (util_mark now s) = qlim s"
  "blocked (util_mark now s) = blocked s"
  "unblock_on_resume (util_mark now s) = unblock_on_resume s"
  "forwarded (util_mark now s) = forwarded s" "dropped (util_mark now s) = dropped s"
  "queue.more (util_mark now s) = queue.more s"
  using util_mark_stats [of s now] by (simp_all add: stats_only_def)

lemma updateStats_sel [simp]:
  "mem (updateStats now n s) = mem s" "qlim (updateStats now n s) = qlim s"
  "blocked (updateStats now n s) = blocked s"
  "unblock_on_resume (updateStats now n s) = unblock_on_resume s"
  "forwarded (updateStats now n s) = forwarded s" "dropped (updateStats now n s) = dropped s"
  "queue.more (updateStats now n s) = queue.more s"
  using updateStats_stats [of s now n] by (simp_all add: stats_only_def)

subsection \<open>Utilisation is a fraction\<close>

abbreviation fraction :: "real \<Rightarrow> bool" where
  "fraction x \<equiv> 0 \<le> x \<and> x \<le> 1"

definition util_ok :: "'a queue_scheme \<Rightarrow> bool" where
  "util_ok s \<longleftrightarrow>
     fraction (old_util s) \<and> fraction (cur_util s) \<and> (\<forall>x \<in> set (util_buf s). fraction x) \<and>
     period_begin s \<le> last_change s \<and> 0 \<le> util_weight s \<and> 0 \<le> util_records s \<and>
     length (util_buf s) = nat (util_records s) \<and> 0 \<le> buf_slot s \<and>
     (0 < util_records s \<longrightarrow> buf_slot s < util_records s)"

lemma fraction_mix:
  assumes "fraction x" "fraction y" "fraction d"
  shows "fraction (x + (y - x) * d)"
proof -
  have "x + (y - x) * d = (1 - d) * x + d * y" by (simp add: algebra_simps)
  moreover have "(1 - d) * x + d * y \<le> (1 - d) * 1 + d * 1"
    using assms by (intro add_mono mult_left_mono) auto
  ultimately show ?thesis using assms by simp
qed

lemma fraction_mean:
  assumes "fraction x" "fraction y" "0 \<le> a" "0 \<le> b" "a \<noteq> 0 \<or> b \<noteq> 0"
  shows "fraction ((x * a + y * b) / (a + b))"
proof -
  have "0 < a + b" using assms by linarith
  moreover have "x * a + y * b \<le> 1 * a + 1 * b"
    using assms by (intro add_mono mult_right_mono) auto
  ultimately show ?thesis using assms by (simp add: divide_le_eq)
qed

definition period_ok :: "time \<Rightarrow> 'a queue_scheme \<Rightarrow> bool" where
  "period_ok t s \<longleftrightarrow>
     fraction (cur_util s) \<and> (\<forall>x \<in> set (util_buf s). fraction x) \<and>
     length (util_buf s) = nat (util_records s) \<and> 0 < util_records s \<and>
     0 \<le> buf_slot s \<and> buf_slot s < util_records s \<and> period_begin s \<le> t"

lemma period_ok_store:
  assumes "period_ok t s" and "fraction l"
  shows "period_ok t (s\<lparr>period_begin := t, util_buf := (util_buf s)[i := cur_util s],
           buf_slot := (buf_slot s + 1) mod util_records s, cur_util := l\<rparr>)"
proof -
  have "\<forall>x \<in> set ((util_buf s)[i := cur_util s]). fraction x"
    using assms(1) set_update_subset_insert [of "util_buf s" i "cur_util s"]
    unfolding period_ok_def by fast
  then show ?thesis using assms by (simp add: period_ok_def)
qed

lemma util_loop_period:
  "period_ok ie s \<Longrightarrow> fraction l \<Longrightarrow> period_ok ie (util_loop g l ie tot intv s)"
proof (induction g l ie tot intv s rule: util_loop.induct)
  case (1 g l ie tot intv s)
  show ?case
    using "1.IH" [OF _ period_ok_store [OF "1.prems"] "1.prems"(2)] "1.prems"(1)
    by (subst util_loop.simps) (simp only: split: if_split, blast)
qed

lemma util_loop_keeps [simp]:
  "util_records (util_loop g l ie tot intv s) = util_records s"
  "old_util (util_loop g l ie tot intv s) = old_util s"
  "util_weight (util_loop g l ie tot intv s) = util_weight s"
  by (induction g l ie tot intv s rule: util_loop.induct; subst util_loop.simps; simp)+

lemma util_ok_period:
  assumes "period_ok t s" "last_change s = t" "fraction (old_util s)" "0 \<le> util_weight s"
  shows "util_ok s"
  using assms unfolding util_ok_def period_ok_def by linarith

lemma utilUpdate_ok:
  assumes ok: "util_ok s" and t: "last_change s \<le> now"
  shows "util_ok ((utilUpdate (last_change s) now b s)\<lparr>last_change := now\<rparr>)"
proof -
  let ?l = "of_bool b :: real"
  define d where "d = exp (- util_weight s * (now - last_change s))"
  define s1 where "s1 = s\<lparr>old_util := ?l + (old_util s - ?l) * d\<rparr>"
  have "0 \<le> util_weight s * (now - last_change s)" using ok t by (auto simp: util_ok_def)
  then have d: "fraction d" by (simp add: d_def)
  have l: "fraction ?l" by simp
  have s1: "util_ok s1"
    using ok fraction_mix [OF l _ d, of "old_util s"] by (simp add: s1_def util_ok_def)
  show ?thesis
  proof (cases "util_records s = 0 \<or> now - last_change s = 0 \<and> last_change s - period_begin s = 0")
    case True
    then have "utilUpdate (last_change s) now b s = s1"
      by (auto simp: utilUpdate_def Let_def s1_def d_def)
    then show ?thesis using s1 ok t by (simp add: util_ok_def s1_def)
  next
    case False
    let ?iv = "now - last_change s" and ?tv = "last_change s - period_begin s"
    define c where "c = (?l * ?iv + cur_util s * ?tv) / (?iv + ?tv)"
    define s2 where "s2 = util_loop 0 ?l now ?tv ?iv (s1\<lparr>cur_util := c\<rparr>)"
    have c: "fraction c" unfolding c_def
      using ok t False by (intro fraction_mean) (auto simp: util_ok_def)
    have "utilUpdate (last_change s) now b s = s2"
      using False by (simp add: utilUpdate_def Let_def s1_def d_def s2_def c_def)
    moreover have "period_ok now (s1\<lparr>cur_util := c\<rparr>)"
      using c s1 False t by (simp add: s1_def util_ok_def period_ok_def)
    then have "period_ok now s2" using l unfolding s2_def by (rule util_loop_period)
    moreover have "fraction (old_util s2)" "0 \<le> util_weight s2"
      using s1 by (simp_all add: s2_def util_ok_def)
    ultimately show ?thesis
      by (intro util_ok_period [where t = now]) (simp_all add: period_ok_def)
  qed
qed

lemma util_mark_ok: "util_ok s \<Longrightarrow> last_change s \<le> now \<Longrightarrow> util_ok (util_mark now s)"
  by (simp add: util_mark_def utilUpdate_ok)

lemma peak_of_bounds:
  "fraction p \<Longrightarrow> (\<forall>x \<in> set xs. fraction x) \<Longrightarrow> fraction (peak_of p xs)"
  by (induction xs arbitrary: p) auto

lemma peak_of_upper: "p \<le> peak_of p xs \<and> (\<forall>x \<in> set xs. x \<le> peak_of p xs)"
proof (induction xs arbitrary: p)
  case (Cons x xs)
  show ?case using Cons.IH [of x] Cons.IH [of p] by auto
qed simp

text \<open>\<open>updateStats\<close> keeps the time average of the values it is given.\<close>

lemma updateStats_average:
  assumes "0 \<le> total_time s"
  shows "true_ave (updateStats now n s) * total_time (updateStats now n s) =
         true_ave s * total_time s + max 0 (now - total_time s) * of_int n"
  using assms by (simp add: updateStats_def Let_def max_def field_simps)

subsection \<open>The contract of a discipline\<close>

text \<open>
  What the base class needs of the two virtual methods: from a state that holds the packets \<open>xs\<close>,
  \<open>enque\<close> of a packet that is not held returns a state that holds or has dropped what was there,
  and \<open>deque\<close> hands out a held packet or nothing; neither touches the link. From that contract,
  no packet is lost or duplicated and the link is given one packet at a time.
\<close>

definition accounted :: "'a queue_scheme \<Rightarrow> addr list \<Rightarrow> addr multiset" where
  "accounted s xs = mset xs + mset (dropped s) + mset (map snd (forwarded s))"

locale queue_accounting =
  fixes holds :: "'a queue_scheme \<Rightarrow> addr list \<Rightarrow> bool"
    and enq :: "time \<Rightarrow> addr \<Rightarrow> 'a queue_scheme \<Rightarrow> 'a queue_scheme res"
    and deq :: "time \<Rightarrow> 'a queue_scheme \<Rightarrow> (addr option \<times> 'a queue_scheme) res"
  assumes holds_cong: "mem s' = mem s \<Longrightarrow> queue.more s' = queue.more s \<Longrightarrow> holds s' xs = holds s xs"
    and enq_account: "holds s xs \<Longrightarrow> p \<notin> set xs \<Longrightarrow> enq now p s = Inr s' \<Longrightarrow>
           \<exists>ys. holds s' ys \<and> accounted s' ys = accounted s xs + {#p#}"
    and enq_link: "enq now p s = Inr s' \<Longrightarrow> blocked s' = blocked s \<and>
           unblock_on_resume s' = unblock_on_resume s \<and> forwarded s' = forwarded s"
    and deq_account: "holds s xs \<Longrightarrow> deq now s = Inr (r, s') \<Longrightarrow>
           \<exists>ys. holds s' ys \<and> accounted s xs = accounted s' ys + (case r of None \<Rightarrow> {#} | Some x \<Rightarrow> {#x#})"
    and deq_link: "deq now s = Inr (r, s') \<Longrightarrow> blocked s' = blocked s \<and>
           unblock_on_resume s' = unblock_on_resume s \<and> forwarded s' = forwarded s"
begin

lemma serve_account:
  assumes "holds s xs" and "queue_serve deq now s = Inr s'"
  shows "\<exists>ys. holds s' ys \<and> accounted s' ys = accounted s xs"
proof (cases "blocked s")
  case True
  then show ?thesis using assms by (auto simp: queue_serve_def)
next
  case False
  then obtain r s1 where d: "deq now s = Inr (r, s1)"
    using assms by (auto simp: queue_serve_def)
  then obtain ys where ys: "holds s1 ys"
    "accounted s xs = accounted s1 ys + (case r of None \<Rightarrow> {#} | Some x \<Rightarrow> {#x#})"
    using deq_account assms(1) by blast
  show ?thesis
  proof (cases r)
    case None
    then show ?thesis using ys d assms False by (auto simp: queue_serve_def)
  next
    case (Some p)
    then have s': "s' = queue_send now p ((util_mark now s1)\<lparr>blocked := True\<rparr>)"
      using d assms False by (simp add: queue_serve_def)
    have "holds s' ys = holds s1 ys" by (rule holds_cong) (simp_all add: s' queue_send_def)
    then show ?thesis using ys Some by (auto simp: s' queue_send_def accounted_def)
  qed
qed

lemma recv_account:
  assumes "holds s xs" and "p \<notin> set xs" and "Queue_recv enq deq now p s = Inr s'"
  shows "\<exists>ys. holds s' ys \<and> accounted s' ys = accounted s xs + {#p#}"
proof -
  obtain s1 where e: "enq now p s = Inr s1" "queue_serve deq now s1 = Inr s'"
    using assms(3) by (auto simp: Queue_recv_def)
  then obtain zs where "holds s1 zs" "accounted s1 zs = accounted s xs + {#p#}"
    using enq_account assms by blast
  then show ?thesis using serve_account [OF _ e(2)] by fastforce
qed

lemma resume_account:
  assumes "holds s xs" and "Queue_resume deq now s = Inr s'"
  shows "\<exists>ys. holds s' ys \<and> accounted s' ys = accounted s xs"
proof -
  obtain r s1 where d: "deq now s = Inr (r, s1)"
    using assms by (auto simp: Queue_resume_def)
  then obtain ys where ys: "holds s1 ys"
    "accounted s xs = accounted s1 ys + (case r of None \<Rightarrow> {#} | Some x \<Rightarrow> {#x#})"
    using deq_account assms(1) by blast
  have more: "mem s' = mem s1 \<and> queue.more s' = queue.more s1"
    using d assms(2) by (cases r) (auto simp: Queue_resume_def queue_send_def)
  have "holds s' ys = holds s1 ys" by (rule holds_cong) (use more in auto)
  moreover have "accounted s' ys = accounted s xs"
    using d assms(2) ys(2) by (cases r) (auto simp: Queue_resume_def queue_send_def accounted_def)
  ultimately show ?thesis using ys(1) by blast
qed

text \<open>\<open>reset\<close> drops what \<open>deque\<close> yields.\<close>

lemma reset_loop_account:
  assumes "reset_loop d now s = Some r"
  shows "\<forall>xs. d = deq \<longrightarrow> r = Inr s' \<longrightarrow> holds s xs \<longrightarrow> (\<exists>ys. holds s' ys \<and> accounted s' ys = accounted s xs)"
proof (rule reset_loop.raw_induct [OF _ assms], goal_cases)
  case (1 f d now s r)
  show ?case
  proof (intro allI impI)
    fix xs assume d: "d = deq" and r: "r = Inr s'" and h: "holds s xs"
    from 1(2) d r obtain p s1 where e: "deq now s = Inr (p, s1)"
      "case p of None \<Rightarrow> s1 = s' | Some x \<Rightarrow> f deq now (queue_drop x s1) = Some (Inr s')"
      by (auto split: sum.splits option.splits)
    obtain ys where ys: "holds s1 ys"
      "accounted s xs = accounted s1 ys + (case p of None \<Rightarrow> {#} | Some x \<Rightarrow> {#x#})"
      using deq_account [OF h e(1)] by blast
    show "\<exists>ys. holds s' ys \<and> accounted s' ys = accounted s xs"
    proof (cases p)
      case None
      then show ?thesis using e(2) ys by auto
    next
      case (Some x)
      have "holds (queue_drop x s1) ys" using ys(1) holds_cong [of "queue_drop x s1" s1] by (simp add: queue_drop_def)
      moreover have "accounted (queue_drop x s1) ys = accounted s xs"
        using ys(2) Some by (simp add: accounted_def queue_drop_def)
      moreover have "f deq now (queue_drop x s1) = Some (Inr s')" using e(2) Some by simp
      ultimately show ?thesis using 1(1) by metis
    qed
  qed
qed

lemma reset_account:
  assumes "holds s xs" and "Queue_reset deq now s = Inr s'"
  shows "\<exists>ys. holds s' ys \<and> accounted s' ys = accounted s xs"
proof -
  let ?s = "s\<lparr>total_time := 0, true_ave := 0\<rparr>"
  have "reset_loop deq now ?s = Some (Inr s')"
    using assms(2) by (cases "reset_loop deq now ?s") (simp_all add: Queue_reset_def)
  moreover have "holds ?s xs" using assms(1) holds_cong [of ?s s] by simp
  ultimately have "\<exists>ys. holds s' ys \<and> accounted s' ys = accounted ?s xs" using reset_loop_account by blast
  then show ?thesis by (simp add: accounted_def)
qed

text \<open>The link gets at most one packet per call, and from \<open>recv\<close> only when it is free.\<close>

lemma recv_link:
  assumes "Queue_recv enq deq now p s = Inr s'"
  shows "forwarded s' = forwarded s \<and> blocked s' = blocked s \<or>
         (\<not> blocked s \<and> blocked s' \<and> (\<exists>x. forwarded s' = forwarded s @ [(now, x)]))"
proof -
  obtain s1 where e: "enq now p s = Inr s1" "queue_serve deq now s1 = Inr s'"
    using assms by (auto simp: Queue_recv_def)
  note link = enq_link [OF e(1)]
  show ?thesis
  proof (cases "blocked s1")
    case True
    then show ?thesis using link e by (simp add: queue_serve_def)
  next
    case False
    then obtain r s2 where "deq now s1 = Inr (r, s2)" using e by (auto simp: queue_serve_def)
    then show ?thesis using link e False deq_link [of now s1 r s2]
      by (cases r) (auto simp: queue_serve_def queue_send_def)
  qed
qed

lemma resume_link:
  assumes "Queue_resume deq now s = Inr s'"
  shows "(\<exists>x. forwarded s' = forwarded s @ [(now, x)] \<and> blocked s' = blocked s) \<or>
         (forwarded s' = forwarded s \<and> blocked s' = (\<not> unblock_on_resume s))"
proof -
  obtain r s1 where "deq now s = Inr (r, s1)" using assms by (auto simp: Queue_resume_def)
  then show ?thesis using assms deq_link [of now s r s1]
    by (cases r) (auto simp: Queue_resume_def queue_send_def)
qed

end

text \<open>A discipline whose \<open>enque\<close> always returns.\<close>

locale queue_discipline = queue_accounting holds enq deq
  for holds :: "'a queue_scheme \<Rightarrow> addr list \<Rightarrow> bool"
    and enq :: "time \<Rightarrow> addr \<Rightarrow> 'a queue_scheme \<Rightarrow> 'a queue_scheme res"
    and deq :: "time \<Rightarrow> 'a queue_scheme \<Rightarrow> (addr option \<times> 'a queue_scheme) res" +
  assumes enq_total: "holds s xs \<Longrightarrow> p \<notin> set xs \<Longrightarrow> \<exists>s'. enq now p s = Inr s'"

text \<open>
  A discipline that sends whenever it holds a packet: then a link that is free has an empty queue.
\<close>

locale work_conserving = queue_accounting holds enq deq
  for holds :: "'a queue_scheme \<Rightarrow> addr list \<Rightarrow> bool"
    and enq :: "time \<Rightarrow> addr \<Rightarrow> 'a queue_scheme \<Rightarrow> 'a queue_scheme res"
    and deq :: "time \<Rightarrow> 'a queue_scheme \<Rightarrow> (addr option \<times> 'a queue_scheme) res" +
  assumes deq_none: "holds s xs \<Longrightarrow> deq now s = Inr (None, s') \<Longrightarrow> xs = [] \<and> holds s' []"
begin

lemma serve_busy:
  assumes "holds s xs" and "queue_serve deq now s = Inr s'"
  shows "blocked s' \<or> holds s' []"
proof (cases "blocked s")
  case True
  then show ?thesis using assms(2) by (auto simp: queue_serve_def)
next
  case False
  then obtain r s1 where d: "deq now s = Inr (r, s1)" using assms(2) by (auto simp: queue_serve_def)
  then show ?thesis using assms False deq_none [of s xs now s1]
    by (cases r) (auto simp: queue_serve_def queue_send_def)
qed

lemma recv_busy:
  assumes "holds s xs" "p \<notin> set xs" and "Queue_recv enq deq now p s = Inr s'"
  shows "blocked s' \<or> holds s' []"
proof -
  obtain s1 where e: "enq now p s = Inr s1" "queue_serve deq now s1 = Inr s'"
    using assms(3) by (auto simp: Queue_recv_def)
  then show ?thesis using enq_account [OF assms(1,2) e(1)] serve_busy by blast
qed

lemma resume_busy:
  assumes "holds s xs" "blocked s" and "Queue_resume deq now s = Inr s'"
  shows "blocked s' \<or> holds s' []"
proof -
  obtain r s1 where d: "deq now s = Inr (r, s1)" using assms(3) by (auto simp: Queue_resume_def)
  show ?thesis
  proof (cases r)
    case None
    then have h: "holds s1 []" using deq_none [OF assms(1)] d by blast
    have "holds s' [] = holds s1 []"
      using assms(3) d None by (intro holds_cong) (auto simp: Queue_resume_def)
    with h show ?thesis by simp
  next
    case (Some p)
    then show ?thesis using assms(2,3) d deq_link [OF d] by (auto simp: Queue_resume_def queue_send_def)
  qed
qed

end

end
