(* ===== verification/XPass_DropTail.thy ===== *)
theory XPass_DropTail
  imports Queue_Base Timer_Handler
begin

section \<open>The ExpressPass switch queue (\<open>queue/xpass-drop-tail.h\<close>, \<open>queue/xpass-drop-tail.cc\<close>)\<close>

text \<open>
  The queue of a switch port: one list for data, one for credits, a token bucket that limits the
  rate of credits and a timer for the moment the next credit can leave. The model has the two
  packet lists in one memory, the bucket as the code computes it, and the timer of
  \<open>Timer_Handler\<close>. The conversion of the new tokens to \<open>int\<close> and the sum are checked for the
  range of \<open>int\<close>.
\<close>

record xdroptail = queue +
  data_q :: packet_queue
  credit_q :: packet_queue
  credit_q_limit :: int
  data_q_limit :: int
  tokens :: int
  max_tokens :: int
  token_bucket_clock :: time
  token_refresh_rate :: real
  credit_timer :: timer

text \<open>The constructor, on an object whose bound variables are already set.\<close>

definition xdt_init :: "xdroptail \<Rightarrow> xdroptail" where
  "xdt_init s = (Queue_init s)\<lparr>data_q := new_packet_queue, credit_q := new_packet_queue,
     tokens := 0, token_bucket_clock := 0, credit_timer := new_timer\<rparr>"

definition updateTokenBucket :: "time \<Rightarrow> xdroptail \<Rightarrow> xdroptail res" where
  "updateTokenBucket now s =
     (let elapsed_time = now - token_bucket_clock s
      in if elapsed_time \<le> 0 then Inr s
         else (let new_tokens = int_of_double (elapsed_time * token_refresh_rate s)
               in if \<not> in_int32 new_tokens \<or> \<not> in_int32 (tokens s + new_tokens) then Inl IntOutOfRange
                  else Inr (s\<lparr>tokens := min (tokens s + new_tokens) (max_tokens s),
                     token_bucket_clock :=
                       token_bucket_clock s + of_int new_tokens / token_refresh_rate s\<rparr>)))"

definition xdt_is_credit :: "pkt_mem \<Rightarrow> addr \<Rightarrow> bool" where
  "xdt_is_credit m p \<longleftrightarrow> ptype (pkt_at m p) = PT_XPASS_CREDIT"

definition xdt_enque :: "time \<Rightarrow> addr option \<Rightarrow> xdroptail \<Rightarrow> xdroptail res" where
  "xdt_enque now pp s =
     (case pp of
        None \<Rightarrow> Inr s
      | Some p \<Rightarrow>
          if xdt_is_credit (mem s) p then
            (case pq_enque p (mem s) (credit_q s) of (pt, m, q) \<Rightarrow>
               if credit_q_limit s < pq_bytes q then
                 res_bind (of_loop (pq_remove p m q))
                   (\<lambda>(m, q). Inr (queue_drop p (s\<lparr>mem := m, credit_q := q\<rparr>)))
               else Inr (s\<lparr>mem := m, credit_q := q\<rparr>))
          else
            (case pq_enque p (mem s) (data_q s) of (pt, m, q) \<Rightarrow>
               if data_q_limit s < pq_bytes q then
                 res_bind (of_loop (pq_remove p m q))
                   (\<lambda>(m, q). Inr (queue_drop p (s\<lparr>mem := m, data_q := q\<rparr>)))
               else Inr (s\<lparr>mem := m, data_q := q\<rparr>)))"

definition xdt_deque :: "time \<Rightarrow> xdroptail \<Rightarrow> (addr option \<times> xdroptail) res" where
  "xdt_deque now s =
     (let s = s\<lparr>credit_timer := tm_force_cancel (credit_timer s)\<rparr>
      in res_bind (updateTokenBucket now s) (\<lambda>s.
        let packet = pq_head (credit_q s)
        in if (case packet of None \<Rightarrow> False | Some p \<Rightarrow> psize (mem s) p \<le> tokens s) then
             (case pq_deque (mem s) (credit_q s) of
                (None, q) \<Rightarrow> Inl NullPointer
              | (Some p, q) \<Rightarrow>
                  Inr (Some p, s\<lparr>credit_q := q, tokens := tokens s - psize (mem s) p\<rparr>))
           else if 0 < pq_len (data_q s) then
             (case pq_deque (mem s) (data_q s) of (r, q) \<Rightarrow> Inr (r, s\<lparr>data_q := q\<rparr>))
           else (case packet of
               Some p \<Rightarrow>
                 res_bind (tm_resched now
                     (xdiv (of_int (psize (mem s) p - tokens s)) (token_refresh_rate s)) (credit_timer s))
                   (\<lambda>t. Inr (None, s\<lparr>credit_timer := t\<rparr>))
             | None \<Rightarrow>
                 if 0 < pq_bytes (credit_q s) \<and> 0 < pq_bytes (data_q s) then Inl CreditTimerNotSet
                 else Inr (None, s))))"

definition xdt_expire :: "time \<Rightarrow> xdroptail \<Rightarrow> xdroptail res" where
  "xdt_expire now s = queue_serve xdt_deque now s"

definition CreditTimer_handle :: "time \<Rightarrow> xdroptail \<Rightarrow> xdroptail res" where
  "CreditTimer_handle now =
     tm_handle credit_timer (\<lambda>t s. s\<lparr>credit_timer := t\<rparr>) (xdt_expire now)"

definition xdt_recv :: "time \<Rightarrow> addr \<Rightarrow> xdroptail \<Rightarrow> xdroptail res" where
  "xdt_recv = Queue_recv (\<lambda>now p. xdt_enque now (Some p)) xdt_deque"

definition xdt_resume :: "time \<Rightarrow> xdroptail \<Rightarrow> xdroptail res" where
  "xdt_resume = Queue_resume xdt_deque"

definition xdt_reset :: "time \<Rightarrow> xdroptail \<Rightarrow> xdroptail res" where
  "xdt_reset = Queue_reset xdt_deque"

subsection \<open>The two lists\<close>

definition xdt_lists :: "xdroptail \<Rightarrow> addr list \<Rightarrow> addr list \<Rightarrow> bool" where
  "xdt_lists s cs ds \<longleftrightarrow>
     pq_rep (mem s) (credit_q s) cs \<and> pq_rep (mem s) (data_q s) ds \<and> set cs \<inter> set ds = {} \<and>
     (\<forall>x \<in> set cs. xdt_is_credit (mem s) x) \<and> (\<forall>x \<in> set ds. \<not> xdt_is_credit (mem s) x) \<and>
     timer_ok (credit_timer s)"

lemma xdt_listsD:
  assumes "xdt_lists s cs ds"
  shows "pq_rep (mem s) (credit_q s) cs" "pq_rep (mem s) (data_q s) ds" "set cs \<inter> set ds = {}"
    "timer_ok (credit_timer s)" "\<And>x. x \<in> set cs \<Longrightarrow> xdt_is_credit (mem s) x"
    "\<And>x. x \<in> set ds \<Longrightarrow> \<not> xdt_is_credit (mem s) x"
  using assms by (auto simp: xdt_lists_def)

lemma xdroptail_more:
  fixes s s' :: xdroptail
  assumes "queue.more s' = queue.more s"
  shows "data_q s' = data_q s" "credit_q s' = credit_q s" "credit_q_limit s' = credit_q_limit s"
    "data_q_limit s' = data_q_limit s" "tokens s' = tokens s" "max_tokens s' = max_tokens s"
    "token_bucket_clock s' = token_bucket_clock s" "token_refresh_rate s' = token_refresh_rate s"
    "credit_timer s' = credit_timer s"
  using assms by (cases s; cases s'; simp)+

lemmas xdt_util_mark_sel [simp] = xdroptail_more [OF util_mark_sel(7)]

lemma is_credit_cong: "pkt_at m = pkt_at m' \<Longrightarrow> xdt_is_credit m = xdt_is_credit m'"
  by (simp add: xdt_is_credit_def fun_eq_iff)

text \<open>Placing one arrival in one list, or dropping it when it does not fit.\<close>

lemma place_arrival:
  assumes q: "pq_rep m q xs" and r: "pq_rep m r ys" and disj: "set ys \<inter> set xs = {}"
    and p: "p \<notin> set xs" "p \<notin> set ys" and e: "pq_enque p m q = (pt, m1, q1)"
  shows "pq_bytes q1 = total_size m xs + psize m p" "pq_rep m1 q1 (xs @ [p])" "pq_rep m1 r ys"
    "pkt_at m1 = pkt_at m"
    "\<exists>m2 q2. of_loop (pq_remove p m1 q1) = Inr (m2, q2) \<and> pq_rep m2 q2 xs \<and> pq_rep m2 r ys \<and>
       pkt_at m2 = pkt_at m"
proof -
  have e': "snd (pq_enque p m q) = (m1, q1)" using e by simp
  show rep1: "pq_rep m1 q1 (xs @ [p])" and at: "pkt_at m1 = pkt_at m"
    using pqf.enq_rep [OF q p(1) e'] by auto
  show "pq_bytes q1 = total_size m xs + psize m p" using pqf.bytes_rep [OF rep1] at by simp
  show "pq_rep m1 r ys" by (rule pqf.enq_frame [OF q p(1) e' r disj p(2)])
  obtain m2 q2 where rem: "of_loop (pq_remove p m1 q1) = Inr (m2, q2)" "pq_rep m2 q2 xs"
    "pkt_at m2 = pkt_at m" using pqf.enq_rem [OF q p(1) e'] by blast
  then show "\<exists>m2 q2. of_loop (pq_remove p m1 q1) = Inr (m2, q2) \<and> pq_rep m2 q2 xs \<and>
      pq_rep m2 r ys \<and> pkt_at m2 = pkt_at m"
    using pqf.enq_rem_frame [OF q p(1) e' rem(1) r disj p(2)] by blast
qed

text \<open>\<open>enque\<close> as a function on the two lists, with what it drops.\<close>

definition abs_xdt_enque ::
  "xdroptail \<Rightarrow> addr \<Rightarrow> addr list \<Rightarrow> addr list \<Rightarrow> addr list \<times> addr list \<times> addr list" where
  "abs_xdt_enque s p cs ds =
     (if xdt_is_credit (mem s) p then
        (if credit_q_limit s < total_size (mem s) (cs @ [p]) then (cs, ds, [p]) else (cs @ [p], ds, []))
      else
        (if data_q_limit s < total_size (mem s) (ds @ [p]) then (cs, ds, [p]) else (cs, ds @ [p], [])))"

lemma xdt_same_mem [simp]:
  fixes s :: xdroptail
  shows "s\<lparr>mem := m, dropped := dropped s, data_q := d, credit_q := c\<rparr> =
         s\<lparr>mem := m, data_q := d, credit_q := c\<rparr>"
    "s\<lparr>mem := m, dropped := x, data_q := data_q s, credit_q := c\<rparr> =
     s\<lparr>mem := m, dropped := x, credit_q := c\<rparr>"
    "s\<lparr>mem := m, dropped := x, data_q := d, credit_q := credit_q s\<rparr> =
     s\<lparr>mem := m, dropped := x, data_q := d\<rparr>"
    "s\<lparr>mem := m, data_q := data_q s, credit_q := c\<rparr> = s\<lparr>mem := m, credit_q := c\<rparr>"
    "s\<lparr>mem := m, data_q := d, credit_q := credit_q s\<rparr> = s\<lparr>mem := m, data_q := d\<rparr>"
  by (cases s; simp)+

lemma xdt_enque_lists:
  assumes L: "xdt_lists s cs ds" and p: "p \<notin> set cs" "p \<notin> set ds"
    and abs: "abs_xdt_enque s p cs ds = (cs', ds', drops)"
  obtains m cq dq where
    "xdt_enque now (Some p) s =
       Inr (s\<lparr>mem := m, dropped := dropped s @ drops, data_q := dq, credit_q := cq\<rparr>)"
    "xdt_lists (s\<lparr>mem := m, dropped := dropped s @ drops, data_q := dq, credit_q := cq\<rparr>) cs' ds'"
    "pkt_at m = pkt_at (mem s)"
proof -
  note C = xdt_listsD(1) [OF L] and D = xdt_listsD(2) [OF L]
  have disj: "set ds \<inter> set cs = {}" "set cs \<inter> set ds = {}" using xdt_listsD(3) [OF L] by auto
  have "\<exists>m cq dq. xdt_enque now (Some p) s =
       Inr (s\<lparr>mem := m, dropped := dropped s @ drops, data_q := dq, credit_q := cq\<rparr>) \<and>
       pq_rep m cq cs' \<and> pq_rep m dq ds' \<and> pkt_at m = pkt_at (mem s)"
  proof (cases "xdt_is_credit (mem s) p")
    case True
    obtain pt m1 q1 where e: "pq_enque p (mem s) (credit_q s) = (pt, m1, q1)" by (metis prod_cases3)
    note P = place_arrival [OF C D disj(1) p e]
    obtain m2 q2 where R: "of_loop (pq_remove p m1 q1) = Inr (m2, q2)" "pq_rep m2 q2 cs"
      "pq_rep m2 (data_q s) ds" "pkt_at m2 = pkt_at (mem s)" using P(5) by blast
    show ?thesis
    proof (cases "credit_q_limit s < total_size (mem s) (cs @ [p])")
      case big: True
      then show ?thesis using True abs e P(1) R
        by (intro exI [of _ m2] exI [of _ q2] exI [of _ "data_q s"])
          (simp add: xdt_enque_def abs_xdt_enque_def queue_drop_def)
    next
      case False
      then show ?thesis using True abs e P
        by (intro exI [of _ m1] exI [of _ q1] exI [of _ "data_q s"])
          (simp add: xdt_enque_def abs_xdt_enque_def)
    qed
  next
    case False
    obtain pt m1 q1 where e: "pq_enque p (mem s) (data_q s) = (pt, m1, q1)" by (metis prod_cases3)
    note P = place_arrival [OF D C disj(2) p(2,1) e]
    obtain m2 q2 where R: "of_loop (pq_remove p m1 q1) = Inr (m2, q2)" "pq_rep m2 q2 ds"
      "pq_rep m2 (credit_q s) cs" "pkt_at m2 = pkt_at (mem s)" using P(5) by blast
    show ?thesis
    proof (cases "data_q_limit s < total_size (mem s) (ds @ [p])")
      case big: True
      then show ?thesis using False abs e P(1) R
        by (intro exI [of _ m2] exI [of _ "credit_q s"] exI [of _ q2])
          (simp add: xdt_enque_def abs_xdt_enque_def queue_drop_def)
    next
      case small: False
      then show ?thesis using False abs e P
        by (intro exI [of _ m1] exI [of _ "credit_q s"] exI [of _ q1])
          (simp add: xdt_enque_def abs_xdt_enque_def)
    qed
  qed
  then obtain m cq dq where run: "xdt_enque now (Some p) s =
       Inr (s\<lparr>mem := m, dropped := dropped s @ drops, data_q := dq, credit_q := cq\<rparr>)"
    and rep: "pq_rep m cq cs'" "pq_rep m dq ds'" and at: "pkt_at m = pkt_at (mem s)" by blast
  have "xdt_lists (s\<lparr>mem := m, dropped := dropped s @ drops, data_q := dq, credit_q := cq\<rparr>) cs' ds'"
    using L p abs rep is_credit_cong [OF at]
    by (auto simp: xdt_lists_def abs_xdt_enque_def split: if_splits)
  with that run at show thesis by blast
qed

subsection \<open>The token bucket\<close>

lemma updateTokenBucket_frame:
  assumes "updateTokenBucket now s = Inr s'"
  obtains k c where "s' = s\<lparr>tokens := k, token_bucket_clock := c\<rparr>"
proof -
  show thesis
  proof (cases "now - token_bucket_clock s \<le> 0")
    case True
    then have "s' = s" using assms by (simp add: updateTokenBucket_def)
    then show thesis by (intro that [where k = "tokens s" and c = "token_bucket_clock s"]) simp
  next
    case False
    then show thesis
      using assms by (intro that, simp add: updateTokenBucket_def Let_def split: if_splits) (erule sym)
  qed
qed

text \<open>
  The bucket is in order at time \<open>now\<close>: the tokens are within their bounds, the bucket's clock is
  not ahead, and the refresh rate is positive.
\<close>

definition bucket_ok :: "time \<Rightarrow> xdroptail \<Rightarrow> bool" where
  "bucket_ok now s \<longleftrightarrow>
     0 \<le> tokens s \<and> tokens s \<le> max_tokens s \<and> token_bucket_clock s \<le> now \<and>
     0 < token_refresh_rate s"

lemma bucket_ok_later: "bucket_ok t s \<Longrightarrow> t \<le> now \<Longrightarrow> bucket_ok now s"
  by (simp add: bucket_ok_def)

text \<open>Tokens less the amount the clock stands for: an update never raises it.\<close>

definition credit_potential :: "xdroptail \<Rightarrow> real" where
  "credit_potential s = of_int (tokens s) - token_refresh_rate s * token_bucket_clock s"

lemma updateTokenBucket_ok:
  assumes ok: "bucket_ok now s" and run: "updateTokenBucket now s = Inr s'"
  shows "bucket_ok now s'" "credit_potential s' \<le> credit_potential s" "tokens s \<le> tokens s'"
    "now - token_bucket_clock s' < 1 / token_refresh_rate s'"
proof -
  let ?r = "token_refresh_rate s" and ?c = "token_bucket_clock s"
  let ?n = "int_of_double ((now - ?c) * ?r)"
  have r: "0 < ?r" using ok by (simp add: bucket_ok_def)
  have "bucket_ok now s' \<and> credit_potential s' \<le> credit_potential s \<and> tokens s \<le> tokens s' \<and>
        now - token_bucket_clock s' < 1 / token_refresh_rate s'"
  proof (cases "now - ?c \<le> 0")
    case True
    then show ?thesis using run ok r by (auto simp: updateTokenBucket_def bucket_ok_def)
  next
    case False
    then have s': "s' = s\<lparr>tokens := min (tokens s + ?n) (max_tokens s),
        token_bucket_clock := ?c + of_int ?n / ?r\<rparr>"
      using run by (auto simp: updateTokenBucket_def Let_def split: if_splits)
    have n: "0 \<le> ?n" "of_int ?n \<le> (now - ?c) * ?r" "(now - ?c) * ?r - 1 < of_int ?n"
      using False r int_of_double_le int_of_double_gt by auto
    have "of_int ?n / ?r \<le> now - ?c" using n(2) r by (simp add: pos_divide_le_eq)
    moreover have "now - ?c < (of_int ?n + 1) / ?r"
      using n(3) r by (subst pos_less_divide_eq) (simp, linarith)
    then have "now - (?c + of_int ?n / ?r) < 1 / ?r" by (simp add: add_divide_distrib)
    moreover have "of_int (min (tokens s + ?n) (max_tokens s)) \<le> real_of_int (tokens s + ?n)" by simp
    ultimately show ?thesis
      using ok n(1) r by (simp add: s' bucket_ok_def credit_potential_def algebra_simps)
  qed
  then show "bucket_ok now s'" "credit_potential s' \<le> credit_potential s" "tokens s \<le> tokens s'"
    "now - token_bucket_clock s' < 1 / token_refresh_rate s'" by auto
qed

text \<open>Waiting for \<open>k\<close> tokens yields them, up to the size of the bucket.\<close>

lemma updateTokenBucket_enough:
  assumes ok: "bucket_ok now s" and run: "updateTokenBucket now s = Inr s'"
    and wait: "of_int (k - tokens s) \<le> (now - token_bucket_clock s) * token_refresh_rate s"
    and k: "tokens s < k" "k \<le> max_tokens s"
  shows "k \<le> tokens s'"
proof -
  have "0 < (now - token_bucket_clock s) * token_refresh_rate s" using wait k(1) by linarith
  then have "0 < now - token_bucket_clock s"
    using ok by (simp add: bucket_ok_def zero_less_mult_iff)
  moreover have "k - tokens s \<le> int_of_double ((now - token_bucket_clock s) * token_refresh_rate s)"
    using wait by (rule int_of_double_ge_int)
  ultimately show ?thesis
    using run k(2) by (auto simp: updateTokenBucket_def Let_def split: if_splits)
qed

text \<open>When the conversion overflows.\<close>

lemma updateTokenBucket_overflow:
  assumes "bucket_ok now s" and "2 ^ 31 \<le> (now - token_bucket_clock s) * token_refresh_rate s"
  shows "updateTokenBucket now s = Inl IntOutOfRange"
proof -
  let ?x = "(now - token_bucket_clock s) * token_refresh_rate s"
  have "real_of_int (2 ^ 31) \<le> ?x" using assms(2) by simp
  then have "2 ^ 31 \<le> int_of_double ?x" by (rule int_of_double_ge_int)
  moreover have "0 < now - token_bucket_clock s"
  proof (rule ccontr)
    assume "\<not> 0 < now - token_bucket_clock s"
    then have "?x \<le> 0" using assms(1) by (simp add: bucket_ok_def mult_nonpos_nonneg)
    then show False using assms(2) by simp
  qed
  ultimately show ?thesis by (simp add: updateTokenBucket_def in_int32_def)
qed

lemma updateTokenBucket_in_range:
  assumes ok: "bucket_ok now s"
    and r: "(now - token_bucket_clock s) * token_refresh_rate s + of_int (max_tokens s) < 2 ^ 31"
  shows "\<exists>s'. updateTokenBucket now s = Inr s'"
proof -
  let ?x = "(now - token_bucket_clock s) * token_refresh_rate s"
  let ?n = "int_of_double ?x"
  have x: "0 \<le> ?x" using ok by (simp add: bucket_ok_def)
  then have n: "0 \<le> ?n" "of_int ?n \<le> ?x" by (simp_all add: int_of_double_le)
  have t: "0 \<le> tokens s" "tokens s \<le> max_tokens s" using ok by (simp_all add: bucket_ok_def)
  have "real_of_int (tokens s) \<le> of_int (max_tokens s)" using t(2) by simp
  then have "real_of_int (tokens s + ?n) < of_int (2 ^ 31)" using r n(2) by simp
  then have "tokens s + ?n < 2 ^ 31" by linarith
  then show ?thesis using n(1) t by (simp add: updateTokenBucket_def in_int32_def Let_def)
qed

subsection \<open>\<open>deque\<close>, case by case\<close>

abbreviation no_timer :: "xdroptail \<Rightarrow> xdroptail" where
  "no_timer s \<equiv> s\<lparr>credit_timer := tm_force_cancel (credit_timer s)\<rparr>"

lemma xdt_lists_bucket:
  "xdt_lists s cs ds \<Longrightarrow> updateTokenBucket now (no_timer s) = Inr s1 \<Longrightarrow>
   xdt_lists s1 cs ds \<and> \<not> pending (credit_timer s1)"
  by (erule updateTokenBucket_frame) (simp add: xdt_lists_def)

lemma xdt_deque_error:
  "updateTokenBucket now (no_timer s) = Inl e \<Longrightarrow> xdt_deque now s = Inl e"
  by (simp add: xdt_deque_def)

lemma xdt_deque_credit:
  assumes L: "xdt_lists s (x # cs) ds" and u: "updateTokenBucket now (no_timer s) = Inr s1"
    and k: "psize (mem s1) x \<le> tokens s1"
  obtains q where
    "xdt_deque now s =
       Inr (Some x, s1\<lparr>credit_q := q, tokens := tokens s1 - psize (mem s1) x\<rparr>)"
    "xdt_lists (s1\<lparr>credit_q := q, tokens := tokens s1 - psize (mem s1) x\<rparr>) cs ds"
proof -
  have L1: "xdt_lists s1 (x # cs) ds" using xdt_lists_bucket [OF L u] by simp
  obtain q where q: "pq_deque (mem s1) (credit_q s1) = (Some x, q)" "pq_rep (mem s1) q cs"
    using pqf.deq_cons [OF xdt_listsD(1) [OF L1]] by blast
  have "pq_head (credit_q s1) = Some x" using pq_rep_head [OF xdt_listsD(1) [OF L1]] by simp
  then have "xdt_deque now s =
      Inr (Some x, s1\<lparr>credit_q := q, tokens := tokens s1 - psize (mem s1) x\<rparr>)"
    using u k q by (simp add: xdt_deque_def Let_def)
  moreover have "xdt_lists (s1\<lparr>credit_q := q, tokens := tokens s1 - psize (mem s1) x\<rparr>) cs ds"
    using L1 q(2) by (simp add: xdt_lists_def)
  ultimately show thesis by (rule that)
qed

definition credit_ready :: "xdroptail \<Rightarrow> addr list \<Rightarrow> bool" where
  "credit_ready s cs \<longleftrightarrow> (case cs of [] \<Rightarrow> False | x # _ \<Rightarrow> psize (mem s) x \<le> tokens s)"

lemma credit_ready_head:
  "pq_rep (mem s) (credit_q s) cs \<Longrightarrow>
   (case pq_head (credit_q s) of None \<Rightarrow> False | Some p \<Rightarrow> psize (mem s) p \<le> tokens s) =
   credit_ready s cs"
  by (simp add: pq_rep_head credit_ready_def split: list.split)

lemma xdt_deque_data:
  assumes L: "xdt_lists s cs (y # ds)" and u: "updateTokenBucket now (no_timer s) = Inr s1"
    and k: "\<not> credit_ready s1 cs"
  obtains q where "xdt_deque now s = Inr (Some y, s1\<lparr>data_q := q\<rparr>)"
    "xdt_lists (s1\<lparr>data_q := q\<rparr>) cs ds"
proof -
  have L1: "xdt_lists s1 cs (y # ds)" using xdt_lists_bucket [OF L u] by simp
  obtain q where q: "pq_deque (mem s1) (data_q s1) = (Some y, q)" "pq_rep (mem s1) q ds"
    using pqf.deq_cons [OF xdt_listsD(2) [OF L1]] by blast
  have "0 < pq_len (data_q s1)" using pq_rep_length [OF xdt_listsD(2) [OF L1]] by simp
  then have "xdt_deque now s = Inr (Some y, s1\<lparr>data_q := q\<rparr>)"
    using u k q credit_ready_head [OF xdt_listsD(1) [OF L1]] by (simp add: xdt_deque_def Let_def)
  moreover have "xdt_lists (s1\<lparr>data_q := q\<rparr>) cs ds" using L1 q(2) by (auto simp: xdt_lists_def)
  ultimately show thesis by (rule that)
qed

lemma xdt_deque_wait:
  assumes L: "xdt_lists s (x # cs) []" and u: "updateTokenBucket now (no_timer s) = Inr s1"
    and k: "tokens s1 < psize (mem s1) x"
  shows "xdt_deque now s =
      Inr (None, s1\<lparr>credit_timer := \<lparr>status = TIMER_PENDING, event_at = Some (xadd now
        (xdiv (of_int (psize (mem s1) x - tokens s1)) (token_refresh_rate s1)))\<rparr>\<rparr>)"
proof -
  have L1: "xdt_lists s1 (x # cs) []" using xdt_lists_bucket [OF L u] by simp
  have "pq_len (data_q s1) = 0" using pq_rep_length [OF xdt_listsD(2) [OF L1]] by simp
  moreover have "pq_head (credit_q s1) = Some x" using pq_rep_head [OF xdt_listsD(1) [OF L1]] by simp
  ultimately show ?thesis
    using u k xdt_listsD(4) [OF L1] by (simp add: xdt_deque_def Let_def tm_resched_ok)
qed

lemma xdt_deque_empty:
  assumes L: "xdt_lists s [] []" and u: "updateTokenBucket now (no_timer s) = Inr s1"
  shows "xdt_deque now s = Inr (None, s1)"
proof -
  have L1: "xdt_lists s1 [] []" using xdt_lists_bucket [OF L u] by simp
  show ?thesis
    using u pq_rep_length [OF xdt_listsD(2) [OF L1]] pq_rep_head [OF xdt_listsD(1) [OF L1]]
      pq_rep_bytes [OF xdt_listsD(1) [OF L1]]
    by (simp add: xdt_deque_def Let_def)
qed

text \<open>All four cases at once, for what every caller needs.\<close>

lemma xdt_deque_cases:
  assumes L: "xdt_lists s cs ds" and run: "xdt_deque now s = Inr (r, s')"
  obtains
    (credit) s1 x cs' q where "updateTokenBucket now (no_timer s) = Inr s1" "cs = x # cs'"
      "psize (mem s1) x \<le> tokens s1" "r = Some x" "xdt_lists s' cs' ds"
      "s' = s1\<lparr>credit_q := q, tokens := tokens s1 - psize (mem s1) x\<rparr>"
  | (data) s1 y ds' q where "updateTokenBucket now (no_timer s) = Inr s1" "ds = y # ds'"
      "\<not> credit_ready s1 cs" "r = Some y" "xdt_lists s' cs ds'" "s' = s1\<lparr>data_q := q\<rparr>"
  | (wait) s1 x cs' where "updateTokenBucket now (no_timer s) = Inr s1" "cs = x # cs'" "ds = []"
      "tokens s1 < psize (mem s1) x" "r = None" "xdt_lists s' cs ds"
      "s' = s1\<lparr>credit_timer := \<lparr>status = TIMER_PENDING, event_at = Some (xadd now
        (xdiv (of_int (psize (mem s1) x - tokens s1)) (token_refresh_rate s1)))\<rparr>\<rparr>"
  | (empty) "updateTokenBucket now (no_timer s) = Inr s'" "cs = []" "ds = []" "r = None"
      "xdt_lists s' cs ds"
proof -
  obtain s1 where u: "updateTokenBucket now (no_timer s) = Inr s1"
    using run xdt_deque_error by (cases "updateTokenBucket now (no_timer s)") fastforce+
  have L1: "xdt_lists s1 cs ds" using xdt_lists_bucket [OF L u] by simp
  show thesis
  proof (cases "credit_ready s1 cs")
    case True
    then obtain x cs' where x: "cs = x # cs'" "psize (mem s1) x \<le> tokens s1"
      by (auto simp: credit_ready_def split: list.splits)
    show thesis
      by (rule xdt_deque_credit [OF L [unfolded x(1)] u x(2)])
        (rule credit [OF u x], use run in auto)
  next
    case no: False
    show thesis
    proof (cases ds)
      case (Cons y ds')
      show thesis
        by (rule xdt_deque_data [OF L [unfolded Cons] u no]) (rule data [OF u Cons no], use run in auto)
    next
      case Nil
      show thesis
      proof (cases cs)
        case nil: Nil
        show thesis
          using xdt_deque_empty [OF _ u] L L1 nil Nil run u by (intro empty) auto
      next
        case (Cons x cs')
        then have k: "tokens s1 < psize (mem s1) x" using no by (simp add: credit_ready_def)
        show thesis
          using xdt_deque_wait [OF _ u k, of cs'] L L1 Cons Nil run k
          by (intro wait [OF u Cons Nil k]) (auto simp: xdt_lists_def)
      qed
    qed
  qed
qed

text \<open>The exit for a queue without timer is never taken.\<close>

lemma xdt_deque_total:
  assumes L: "xdt_lists s cs ds" and u: "updateTokenBucket now (no_timer s) = Inr s1"
  shows "\<exists>r s'. xdt_deque now s = Inr (r, s')"
proof (cases "credit_ready s1 cs")
  case True
  then obtain x cs' where x: "cs = x # cs'" "psize (mem s1) x \<le> tokens s1"
    by (auto simp: credit_ready_def split: list.splits)
  show ?thesis using xdt_deque_credit [OF L [unfolded x(1)] u x(2)] by blast
next
  case no: False
  show ?thesis
  proof (cases ds)
    case (Cons y ds')
    then show ?thesis using xdt_deque_data [OF L [unfolded Cons] u no] by blast
  next
    case Nil
    show ?thesis
    proof (cases cs)
      case nil: Nil
      show ?thesis using xdt_deque_empty [OF L [unfolded nil Nil] u] by blast
    next
      case (Cons x cs')
      then have k: "tokens s1 < psize (mem s1) x" using no by (simp add: credit_ready_def)
      show ?thesis using xdt_deque_wait [OF L [unfolded Cons Nil] u k] by blast
    qed
  qed
qed

end
