(* ===== verification/XPass_Switch.thy ===== *)
theory XPass_Switch
  imports XPass_DropTail
begin

section \<open>Runs of the switch queue\<close>

text \<open>
  The discipline contract of \<open>Queue_Base\<close> for \<open>XPassDropTail\<close>, the step relation of a port (a packet
  arrives, the link finishes, the credit timer expires, at times that do not go back), and the
  invariant of its runs: the two lists within their limits, the bucket in order, and a port that is
  not sending has no data and has its timer set for the first credit.
\<close>

subsection \<open>The contract\<close>

definition xdt_holds :: "xdroptail \<Rightarrow> addr list \<Rightarrow> bool" where
  "xdt_holds s xs \<longleftrightarrow> (\<exists>cs ds. xdt_lists s cs ds \<and> xs = cs @ ds)"

abbreviation xdt_enq :: "time \<Rightarrow> addr \<Rightarrow> xdroptail \<Rightarrow> xdroptail res" where
  "xdt_enq now p \<equiv> xdt_enque now (Some p)"

definition same_link :: "xdroptail \<Rightarrow> xdroptail \<Rightarrow> bool" where
  "same_link s s' \<longleftrightarrow> blocked s' = blocked s \<and> unblock_on_resume s' = unblock_on_resume s \<and>
     forwarded s' = forwarded s"

lemma xdt_enq_link: "xdt_enq now p s = Inr s' \<Longrightarrow> same_link s s'"
  by (auto simp: xdt_enque_def same_link_def queue_drop_def split: if_splits prod.splits)

lemma xdt_deque_link:
  assumes "xdt_deque now s = Inr (r, s')"
  shows "same_link s s' \<and> dropped s' = dropped s \<and> mem s' = mem s"
proof -
  obtain s1 where u: "updateTokenBucket now (no_timer s) = Inr s1"
    using assms xdt_deque_error by (cases "updateTokenBucket now (no_timer s)") fastforce+
  have s1: "same_link s s1 \<and> dropped s1 = dropped s \<and> mem s1 = mem s"
    by (rule updateTokenBucket_frame [OF u]) (simp add: same_link_def)
  show ?thesis
    using assms u s1 by (auto simp: xdt_deque_def Let_def same_link_def
        split: if_splits option.splits prod.splits)
qed

lemma xdt_enq_account:
  assumes L: "xdt_lists s cs ds" and p: "p \<notin> set cs" "p \<notin> set ds" and run: "xdt_enq now p s = Inr s'"
  shows "\<exists>cs' ds'. xdt_lists s' cs' ds' \<and>
           accounted s' (cs' @ ds') = accounted s (cs @ ds) + {#p#}"
proof -
  obtain cs' ds' drops where abs: "abs_xdt_enque s p cs ds = (cs', ds', drops)" by (metis prod_cases3)
  obtain m cq dq where e: "xdt_enq now p s =
       Inr (s\<lparr>mem := m, dropped := dropped s @ drops, data_q := dq, credit_q := cq\<rparr>)"
    "xdt_lists (s\<lparr>mem := m, dropped := dropped s @ drops, data_q := dq, credit_q := cq\<rparr>) cs' ds'"
    by (rule xdt_enque_lists [OF L p abs])
  have "mset (cs' @ ds') + mset drops = mset (cs @ ds) + {#p#}"
    using abs by (auto simp: abs_xdt_enque_def split: if_splits)
  then have "accounted s' (cs' @ ds') = accounted s (cs @ ds) + {#p#}"
    using e(1) run by (auto simp: accounted_def ac_simps)
  moreover have "xdt_lists s' cs' ds'" using e run by simp
  ultimately show ?thesis by blast
qed

lemma xdt_deque_account:
  assumes L: "xdt_lists s cs ds" and run: "xdt_deque now s = Inr (r, s')"
  shows "\<exists>cs' ds'. xdt_lists s' cs' ds' \<and>
           mset (cs @ ds) = mset (cs' @ ds') + (case r of None \<Rightarrow> {#} | Some x \<Rightarrow> {#x#})"
  using L run
proof (cases rule: xdt_deque_cases)
  case (credit s1 x cs' q)
  then show ?thesis by (intro exI [of _ cs'] exI [of _ ds]) auto
next
  case (data s1 y ds' q)
  then show ?thesis by (intro exI [of _ cs] exI [of _ ds']) auto
next
  case (wait s1 x cs')
  then show ?thesis by (intro exI [of _ cs] exI [of _ ds]) auto
next
  case empty
  then show ?thesis by (intro exI [of _ cs] exI [of _ ds]) auto
qed

interpretation xdd: queue_discipline xdt_holds xdt_enq xdt_deque
proof (unfold_locales, goal_cases)
  case (1 s' s xs)
  then show ?case using xdroptail_more [of s' s] by (simp add: xdt_holds_def xdt_lists_def)
next
  case (6 s xs p now)
  then obtain cs ds where L: "xdt_lists s cs ds" "p \<notin> set cs" "p \<notin> set ds"
    by (auto simp: xdt_holds_def)
  obtain cs' ds' drops where "abs_xdt_enque s p cs ds = (cs', ds', drops)" by (metis prod_cases3)
  from xdt_enque_lists [OF L this] show ?case by blast
next
  case (2 s xs p now s')
  then obtain cs ds where L: "xdt_lists s cs ds" "p \<notin> set cs" "p \<notin> set ds" "xs = cs @ ds"
    by (auto simp: xdt_holds_def)
  from xdt_enq_account [OF L(1-3) 2(3)] show ?case unfolding xdt_holds_def L(4) by blast
next
  case (3 now p s s')
  then show ?case using xdt_enq_link [of now p s s'] by (simp add: same_link_def)
next
  case (4 s xs now r s')
  then obtain cs ds where L: "xdt_lists s cs ds" "xs = cs @ ds" by (auto simp: xdt_holds_def)
  obtain cs' ds' where "xdt_lists s' cs' ds'"
    "mset (cs @ ds) = mset (cs' @ ds') + (case r of None \<Rightarrow> {#} | Some x \<Rightarrow> {#x#})"
    using xdt_deque_account [OF L(1) 4(2)] by blast
  then show ?case using xdt_deque_link [OF 4(2)] L(2)
    by (intro exI [of _ "cs' @ ds'"]) (auto simp: xdt_holds_def accounted_def same_link_def)
next
  case (5 now s r s')
  then show ?case using xdt_deque_link [of now s r s'] by (simp add: same_link_def)
qed

subsection \<open>Steps\<close>

inductive xdt_step :: "time \<times> xdroptail \<Rightarrow> time \<times> xdroptail \<Rightarrow> bool" where
  arrive: "t \<le> now \<Longrightarrow> xdt_lists s cs ds \<Longrightarrow> p \<notin> set cs \<Longrightarrow> p \<notin> set ds \<Longrightarrow> 0 \<le> psize (mem s) p \<Longrightarrow>
     xdt_recv now p s = Inr s' \<Longrightarrow> xdt_step (t, s) (now, s')"
| link_done: "t \<le> now \<Longrightarrow> blocked s \<Longrightarrow> xdt_resume now s = Inr s' \<Longrightarrow> xdt_step (t, s) (now, s')"
| timer: "t \<le> now \<Longrightarrow> event_at (credit_timer s) = Some (Fin now) \<Longrightarrow>
     CreditTimer_handle now s = Inr s' \<Longrightarrow> xdt_step (t, s) (now, s')"

text \<open>Bytes of credit handed to the link so far.\<close>

definition credit_size :: "pkt_mem \<Rightarrow> addr \<Rightarrow> int" where
  "credit_size m p = (if xdt_is_credit m p then psize m p else 0)"

definition credit_bytes :: "xdroptail \<Rightarrow> int" where
  "credit_bytes s = (\<Sum>(t, p)\<leftarrow>forwarded s. credit_size (mem s) p)"

text \<open>What no step changes, and the potential that no step raises.\<close>

definition xdt_keeps :: "xdroptail \<Rightarrow> xdroptail \<Rightarrow> bool" where
  "xdt_keeps s s' \<longleftrightarrow>
     token_refresh_rate s' = token_refresh_rate s \<and> max_tokens s' = max_tokens s \<and>
     credit_q_limit s' = credit_q_limit s \<and> data_q_limit s' = data_q_limit s \<and>
     unblock_on_resume s' = unblock_on_resume s \<and> pkt_at (mem s') = pkt_at (mem s) \<and>
     credit_potential s' + of_int (credit_bytes s') \<le> credit_potential s + of_int (credit_bytes s)"

lemma xdt_keeps_refl [simp]: "xdt_keeps s s"
  by (simp add: xdt_keeps_def)

lemma xdt_keeps_trans: "xdt_keeps s s1 \<Longrightarrow> xdt_keeps s1 s2 \<Longrightarrow> xdt_keeps s s2"
  by (simp add: xdt_keeps_def)

lemma credit_size_cong: "pkt_at m' = pkt_at m \<Longrightarrow> credit_size m' p = credit_size m p"
  by (simp add: credit_size_def xdt_is_credit_def)

lemma credit_bytes_send [simp]:
  "credit_bytes (queue_send now p s) = credit_bytes s + credit_size (mem s) p"
  by (simp add: credit_bytes_def queue_send_def)

subsection \<open>The invariant\<close>

definition in_limit :: "pkt_mem \<Rightarrow> int \<Rightarrow> addr list \<Rightarrow> bool" where
  "in_limit m limit xs \<longleftrightarrow> (\<forall>x \<in> set xs. 0 \<le> psize m x) \<and> (xs = [] \<or> total_size m xs \<le> limit)"

definition xdt_core :: "time \<Rightarrow> xdroptail \<Rightarrow> addr list \<Rightarrow> addr list \<Rightarrow> bool" where
  "xdt_core now s cs ds \<longleftrightarrow>
     xdt_lists s cs ds \<and> bucket_ok now s \<and>
     in_limit (mem s) (credit_q_limit s) cs \<and> in_limit (mem s) (data_q_limit s) ds"

text \<open>The timer is set for a moment at which the bucket covers packet \<open>x\<close>.\<close>

definition waiting :: "xdroptail \<Rightarrow> addr \<Rightarrow> bool" where
  "waiting s x \<longleftrightarrow>
     (case event_at (credit_timer s) of
        Some (Fin T) \<Rightarrow> tokens s < psize (mem s) x \<and>
          of_int (psize (mem s) x - tokens s) \<le> (T - token_bucket_clock s) * token_refresh_rate s
      | _ \<Rightarrow> False)"

definition idle_ok :: "xdroptail \<Rightarrow> addr list \<Rightarrow> addr list \<Rightarrow> bool" where
  "idle_ok s cs ds \<longleftrightarrow>
     ds = [] \<and> (case cs of [] \<Rightarrow> \<not> pending (credit_timer s) | x # _ \<Rightarrow> waiting s x)"

definition xdt_inv :: "time \<Rightarrow> xdroptail \<Rightarrow> bool" where
  "xdt_inv now s \<longleftrightarrow> unblock_on_resume s \<and>
     (\<exists>cs ds. xdt_core now s cs ds \<and>
        (if blocked s then \<not> pending (credit_timer s) else idle_ok s cs ds))"

lemma in_limit_tl: "in_limit m l (x # xs) \<Longrightarrow> in_limit m l xs"
  by (auto simp: in_limit_def)

lemma in_limit_cong: "pkt_at m' = pkt_at m \<Longrightarrow> in_limit m' l xs = in_limit m l xs"
  by (simp add: in_limit_def)

lemma xdt_core_later: "xdt_core t s cs ds \<Longrightarrow> t \<le> now \<Longrightarrow> xdt_core now s cs ds"
  by (auto simp: xdt_core_def bucket_ok_later)

text \<open>An arrival keeps the lists within their limits and does not touch bucket, timer or link.\<close>

lemma core_enque:
  assumes C: "xdt_core now s cs ds" and p: "p \<notin> set cs" "p \<notin> set ds" "0 \<le> psize (mem s) p"
    and run: "xdt_enq now p s = Inr s'"
  shows "(\<exists>cs' ds'. xdt_core now s' cs' ds') \<and> xdt_keeps s s' \<and> same_link s s' \<and>
    credit_timer s' = credit_timer s"
proof -
  have L: "xdt_lists s cs ds" using C by (simp add: xdt_core_def)
  obtain cs' ds' drops where abs: "abs_xdt_enque s p cs ds = (cs', ds', drops)" by (metis prod_cases3)
  obtain m cq dq where e: "xdt_enq now p s =
       Inr (s\<lparr>mem := m, dropped := dropped s @ drops, data_q := dq, credit_q := cq\<rparr>)"
    "xdt_lists (s\<lparr>mem := m, dropped := dropped s @ drops, data_q := dq, credit_q := cq\<rparr>) cs' ds'"
    and at: "pkt_at m = pkt_at (mem s)"
    by (rule xdt_enque_lists [OF L p(1,2) abs])
  have s': "s' = s\<lparr>mem := m, dropped := dropped s @ drops, data_q := dq, credit_q := cq\<rparr>"
    using e run by simp
  have w: "in_limit (mem s) (credit_q_limit s) cs'" "in_limit (mem s) (data_q_limit s) ds'"
    using C abs p(3) by (auto simp: xdt_core_def in_limit_def abs_xdt_enque_def split: if_splits)
  have "xdt_core now s' cs' ds'"
    using C e(2) w in_limit_cong [OF at] by (simp add: s' xdt_core_def bucket_ok_def)
  moreover have "xdt_keeps s s'"
    using at by (simp add: s' xdt_keeps_def credit_potential_def credit_bytes_def
        credit_size_cong [OF at])
  moreover have "same_link s s'" "credit_timer s' = credit_timer s"
    by (simp_all add: s' same_link_def)
  ultimately show ?thesis by blast
qed

lemma credit_size_rep:
  "xdt_lists s cs ds \<Longrightarrow> x \<in> set cs \<Longrightarrow> credit_size (mem s) x = psize (mem s) x"
  "xdt_lists s cs ds \<Longrightarrow> y \<in> set ds \<Longrightarrow> credit_size (mem s) y = 0"
  by (auto simp: xdt_lists_def credit_size_def)

lemma core_bucket:
  assumes C: "xdt_core now s cs ds" and u: "updateTokenBucket now (no_timer s) = Inr s1"
  shows "xdt_core now s1 cs ds \<and> xdt_keeps s s1 \<and> \<not> pending (credit_timer s1) \<and>
    forwarded s1 = forwarded s \<and> mem s1 = mem s"
proof -
  have ok: "bucket_ok now (no_timer s)" using C by (simp add: xdt_core_def bucket_ok_def)
  note U = updateTokenBucket_ok [OF ok u]
  have pot: "credit_potential (no_timer s) = credit_potential s" by (simp add: credit_potential_def)
  obtain k c where s1: "s1 = (no_timer s)\<lparr>tokens := k, token_bucket_clock := c\<rparr>"
    by (rule updateTokenBucket_frame [OF u])
  have "xdt_lists s1 cs ds" "\<not> pending (credit_timer s1)"
    using xdt_lists_bucket [OF _ u] C by (auto simp: xdt_core_def)
  moreover have "credit_bytes s1 = credit_bytes s" by (simp add: s1 credit_bytes_def)
  ultimately show ?thesis
    using U pot C by (simp add: xdt_core_def xdt_keeps_def) (simp add: s1)
qed

text \<open>
  \<open>deque\<close>: a credit is paid for from the bucket; when nothing can leave, the port is idle with its
  timer set.
\<close>

lemma core_deque:
  assumes C: "xdt_core now s cs ds" and run: "xdt_deque now s = Inr (r, s')"
  shows "\<exists>cs' ds'. xdt_core now s' cs' ds' \<and>
    xdt_keeps s (case r of None \<Rightarrow> s' | Some p \<Rightarrow> queue_send now p s') \<and>
    (case r of None \<Rightarrow> idle_ok s' cs' ds' | Some p \<Rightarrow> \<not> pending (credit_timer s'))"
proof -
  have L: "xdt_lists s cs ds" using C by (simp add: xdt_core_def)
  from L run show ?thesis
  proof (cases rule: xdt_deque_cases)
    case (credit s1 x cs' q)
    note B = core_bucket [OF C credit(1)]
    have sz: "credit_size (mem s1) x = psize (mem s1) x" "0 \<le> psize (mem s1) x"
      using B credit(2) credit_size_rep(1) [of s1 cs ds x] by (auto simp: xdt_core_def in_limit_def)
    have "xdt_core now s' cs' ds"
      using B credit(2,3,5) sz(2) in_limit_tl [of "mem s1" "credit_q_limit s1" x cs']
      by (auto simp: credit(6) xdt_core_def bucket_ok_def)
    moreover have "xdt_keeps s1 (queue_send now x s')"
      using sz(1) by (simp add: credit(6) xdt_keeps_def queue_send_def credit_potential_def credit_bytes_def)
    ultimately show ?thesis
      using B credit(4) xdt_keeps_trans [of s s1] by (auto simp: credit(6))
  next
    case (data s1 y ds' q)
    note B = core_bucket [OF C data(1)]
    have sz: "credit_size (mem s1) y = 0"
      using B data(2) credit_size_rep(2) [of s1 cs ds y] by (auto simp: xdt_core_def)
    have "xdt_core now s' cs ds'"
      using B data(2,5) in_limit_tl [of "mem s1" "data_q_limit s1" y ds']
      by (auto simp: data(6) xdt_core_def bucket_ok_def)
    moreover have "xdt_keeps s1 (queue_send now y s')"
      using sz(1) by (simp add: data(6) xdt_keeps_def queue_send_def credit_potential_def credit_bytes_def)
    ultimately show ?thesis
      using B data(4) xdt_keeps_trans [of s s1] by (auto simp: data(6))
  next
    case (wait s1 x cs')
    note B = core_bucket [OF C wait(1)]
    have r: "0 < token_refresh_rate s1" "token_bucket_clock s1 \<le> now"
      using B by (auto simp: xdt_core_def bucket_ok_def)
    let ?k = "real_of_int (psize (mem s1) x - tokens s1)"
    have "?k = ?k / token_refresh_rate s1 * token_refresh_rate s1" using r(1) by simp
    also have "\<dots> \<le> (now + ?k / token_refresh_rate s1 - token_bucket_clock s1) * token_refresh_rate s1"
      using r by (intro mult_right_mono) auto
    finally have "waiting s' x" using r(1) wait(4) by (simp add: wait(7) waiting_def xdiv_def)
    moreover have "xdt_core now s' cs ds" using B wait(6) by (auto simp: wait(7) xdt_core_def bucket_ok_def)
    moreover have "xdt_keeps s1 s'"
      by (simp add: wait(7) xdt_keeps_def credit_potential_def credit_bytes_def)
    ultimately show ?thesis
      using B wait(2,3,5) xdt_keeps_trans [of s s1] by (auto simp: idle_ok_def)
  next
    case empty
    then show ?thesis using core_bucket [OF C empty(1)] by (auto simp: idle_ok_def)
  qed
qed

text \<open>Serving the link, when it is free.\<close>

definition xdt_settled :: "time \<Rightarrow> xdroptail \<Rightarrow> bool" where
  "xdt_settled now s \<longleftrightarrow> (\<exists>cs ds. xdt_core now s cs ds \<and>
     (if blocked s then \<not> pending (credit_timer s) else idle_ok s cs ds))"

lemma idle_ok_cong:
  "mem s' = mem s \<Longrightarrow> queue.more s' = queue.more s \<Longrightarrow> idle_ok s' cs ds = idle_ok s cs ds"
  using xdroptail_more [of s' s]
  by (auto simp: idle_ok_def waiting_def split: list.split option.splits xreal.splits)

lemma xdt_core_cong:
  "mem s' = mem s \<Longrightarrow> queue.more s' = queue.more s \<Longrightarrow> xdt_core now s' cs ds = xdt_core now s cs ds"
  using xdroptail_more [of s' s] by (simp add: xdt_core_def xdt_lists_def bucket_ok_def)

lemma xdt_keeps_mark:
  "xdt_keeps s (queue_send now p s') \<Longrightarrow>
   xdt_keeps s (queue_send now p ((util_mark now s')\<lparr>blocked := b\<rparr>))"
  by (auto simp: xdt_keeps_def queue_send_def credit_potential_def credit_bytes_def)

lemma xdt_keeps_mark_idle:
  "xdt_keeps s s' \<Longrightarrow> xdt_keeps s ((util_mark now s')\<lparr>blocked := b\<rparr>)"
  by (auto simp: xdt_keeps_def credit_potential_def credit_bytes_def)

lemma core_serve:
  assumes C: "xdt_core now s cs ds" and free: "\<not> blocked s"
    and run: "queue_serve xdt_deque now s = Inr s'"
  shows "xdt_settled now s' \<and> xdt_keeps s s'"
proof -
  obtain r s1 where d: "xdt_deque now s = Inr (r, s1)" using run free by (auto simp: queue_serve_def)
  obtain cs' ds' where D: "xdt_core now s1 cs' ds'"
    "xdt_keeps s (case r of None \<Rightarrow> s1 | Some p \<Rightarrow> queue_send now p s1)"
    "case r of None \<Rightarrow> idle_ok s1 cs' ds' | Some p \<Rightarrow> \<not> pending (credit_timer s1)"
    using core_deque [OF C d] by blast
  have b: "\<not> blocked s1" using xdt_deque_link [OF d] free by (simp add: same_link_def)
  show ?thesis
  proof (cases r)
    case None
    then show ?thesis using D b d run free by (auto simp: queue_serve_def xdt_settled_def)
  next
    case (Some p)
    then have s': "s' = queue_send now p ((util_mark now s1)\<lparr>blocked := True\<rparr>)"
      using d run free by (simp add: queue_serve_def)
    have "xdt_core now s' cs' ds'"
      using D(1) by (subst xdt_core_cong [of _ s1]) (simp_all add: s' queue_send_def)
    then show ?thesis
      using D Some xdt_keeps_mark [of s now p s1] by (auto simp: xdt_settled_def s' queue_send_def)
  qed
qed

lemma core_resume:
  assumes C: "xdt_core now s cs ds" and b: "blocked s" "unblock_on_resume s"
    and run: "xdt_resume now s = Inr s'"
  shows "xdt_settled now s' \<and> xdt_keeps s s'"
proof -
  obtain r s1 where d: "xdt_deque now s = Inr (r, s1)"
    using run by (auto simp: xdt_resume_def Queue_resume_def)
  obtain cs' ds' where D: "xdt_core now s1 cs' ds'"
    "xdt_keeps s (case r of None \<Rightarrow> s1 | Some p \<Rightarrow> queue_send now p s1)"
    "case r of None \<Rightarrow> idle_ok s1 cs' ds' | Some p \<Rightarrow> \<not> pending (credit_timer s1)"
    using core_deque [OF C d] by blast
  have l: "blocked s1" "unblock_on_resume s1" using xdt_deque_link [OF d] b by (auto simp: same_link_def)
  show ?thesis
  proof (cases r)
    case None
    then have s': "s' = (util_mark now s1)\<lparr>blocked := False\<rparr>"
      using d run l by (simp add: xdt_resume_def Queue_resume_def)
    have "xdt_core now s' cs' ds'" "idle_ok s' cs' ds'"
      using D(1,3) None xdt_core_cong [of s' s1] idle_ok_cong [of s' s1] by (simp_all add: s')
    then show ?thesis
      using D(2) None xdt_keeps_mark_idle [of s s1 False now] by (auto simp: xdt_settled_def s')
  next
    case (Some p)
    then have s': "s' = queue_send now p s1" using d run by (simp add: xdt_resume_def Queue_resume_def)
    have "xdt_core now s' cs' ds'"
      using D(1) by (subst xdt_core_cong [of _ s1]) (simp_all add: s' queue_send_def)
    then show ?thesis using D Some l by (auto simp: xdt_settled_def s' queue_send_def)
  qed
qed

subsection \<open>Every step keeps the invariant\<close>

lemma xdt_inv_settled: "xdt_inv now s \<longleftrightarrow> unblock_on_resume s \<and> xdt_settled now s"
  by (simp add: xdt_inv_def xdt_settled_def)

lemma settled_recv:
  assumes inv: "xdt_inv now s" and p: "xdt_lists s cs ds" "p \<notin> set cs" "p \<notin> set ds" "0 \<le> psize (mem s) p"
    and run: "xdt_recv now p s = Inr s'"
  shows "xdt_settled now s' \<and> xdt_keeps s s'"
proof -
  obtain cs1 ds1 where C: "xdt_core now s cs1 ds1" and
    I: "if blocked s then \<not> pending (credit_timer s) else idle_ok s cs1 ds1"
    using inv by (auto simp: xdt_inv_def)
  have "cs1 = cs" "ds1 = ds"
    using C p(1) pq_rep_unique by (auto simp: xdt_core_def xdt_lists_def)
  then have C: "xdt_core now s cs ds" using C by simp
  obtain s1 where e: "xdt_enq now p s = Inr s1" and r: "queue_serve xdt_deque now s1 = Inr s'"
    using run by (auto simp: xdt_recv_def Queue_recv_def)
  obtain cs' ds' where C1: "xdt_core now s1 cs' ds'" and k: "xdt_keeps s s1" and l: "same_link s s1"
    and t: "credit_timer s1 = credit_timer s" using core_enque [OF C p(2-4) e] by blast
  show ?thesis
  proof (cases "blocked s")
    case True
    then have "s' = s1" using r l by (simp add: queue_serve_def same_link_def)
    then show ?thesis using True C1 k l t I by (auto simp: xdt_settled_def same_link_def)
  next
    case False
    then have "\<not> blocked s1" using l by (simp add: same_link_def)
    from core_serve [OF C1 this r] show ?thesis using k xdt_keeps_trans by blast
  qed
qed

abbreviation xdt_put :: "timer \<Rightarrow> xdroptail \<Rightarrow> xdroptail" where
  "xdt_put t s \<equiv> s\<lparr>credit_timer := t\<rparr>"

lemma settled_idle_timer:
  assumes "xdt_settled now s" and "status (credit_timer s) = TIMER_HANDLING"
  shows "xdt_settled now (xdt_put ((credit_timer s)\<lparr>status := TIMER_IDLE\<rparr>) s)"
proof -
  obtain cs ds where C: "xdt_core now s cs ds"
    and I: "if blocked s then \<not> pending (credit_timer s) else idle_ok s cs ds"
    using assms(1) by (auto simp: xdt_settled_def)
  have e: "event_at (credit_timer s) = None"
    using C assms(2) by (auto simp: xdt_core_def xdt_lists_def timer_ok_def)
  then have "xdt_core now (xdt_put ((credit_timer s)\<lparr>status := TIMER_IDLE\<rparr>) s) cs ds"
    using C by (simp add: xdt_core_def xdt_lists_def bucket_ok_def timer_ok_def)
  moreover have "idle_ok s cs ds \<Longrightarrow>
      idle_ok (xdt_put ((credit_timer s)\<lparr>status := TIMER_IDLE\<rparr>) s) cs ds"
    using e by (auto simp: idle_ok_def waiting_def split: list.splits)
  ultimately show ?thesis
    using I unfolding xdt_settled_def by (intro exI [of _ cs] exI [of _ ds]) auto
qed

lemma xdt_keeps_put [simp]: "xdt_keeps s (xdt_put t s') = xdt_keeps s s'"
  "xdt_keeps (xdt_put t s) s' = xdt_keeps s s'"
  by (simp_all add: xdt_keeps_def credit_potential_def credit_bytes_def)

text \<open>When the timer runs, the port is free and the head of the credits is what it waits for.\<close>

lemma timer_means_waiting:
  assumes inv: "xdt_inv now s" and ev: "event_at (credit_timer s) = Some T"
  shows "\<not> blocked s \<and> pending (credit_timer s) \<and>
    (\<exists>x cs. xdt_core now s (x # cs) [] \<and> waiting s x)"
proof -
  obtain cs ds where C: "xdt_core now s cs ds"
    and I: "if blocked s then \<not> pending (credit_timer s) else idle_ok s cs ds"
    using inv by (auto simp: xdt_inv_def)
  have p: "pending (credit_timer s)"
    using C ev by (simp add: xdt_core_def xdt_lists_def timer_ok_def)
  then show ?thesis
    using C I by (cases cs) (auto simp: idle_ok_def split: if_splits)
qed

lemma xdt_core_put: "xdt_core now s cs ds \<Longrightarrow> timer_ok t \<Longrightarrow> xdt_core now (xdt_put t s) cs ds"
  by (simp add: xdt_core_def xdt_lists_def bucket_ok_def)

lemma timer_run:
  assumes p: "pending (credit_timer s)" and b: "\<not> blocked s"
    and run: "CreditTimer_handle now s = Inr s'"
  obtains s1 where "queue_serve xdt_deque now (xdt_put handling s) = Inr s1"
    "s' = (if status (credit_timer s1) = TIMER_HANDLING
           then xdt_put ((credit_timer s1)\<lparr>status := TIMER_IDLE\<rparr>) s1 else s1)"
  using run p that
  by (auto simp: CreditTimer_handle_def xdt_expire_def tm_handle_pending [where get = credit_timer])

lemma settled_timer:
  assumes inv: "xdt_inv now s" and ev: "event_at (credit_timer s) = Some T"
    and run: "CreditTimer_handle now s = Inr s'"
  shows "xdt_settled now s' \<and> xdt_keeps s s'"
proof -
  obtain x cs where W: "\<not> blocked s" "pending (credit_timer s)" "xdt_core now s (x # cs) []"
    using timer_means_waiting [OF inv ev] by blast
  obtain s1 where r: "queue_serve xdt_deque now (xdt_put handling s) = Inr s1"
    and s': "s' = (if status (credit_timer s1) = TIMER_HANDLING
           then xdt_put ((credit_timer s1)\<lparr>status := TIMER_IDLE\<rparr>) s1 else s1)"
    by (rule timer_run [OF W(2,1) run])
  have "xdt_settled now s1 \<and> xdt_keeps (xdt_put handling s) s1"
    using core_serve [OF xdt_core_put [OF W(3) timer_ok_handling] _ r] W(1) by simp
  then show ?thesis using settled_idle_timer [of now s1] by (simp add: s')
qed

lemma xdt_inv_later: "xdt_inv t s \<Longrightarrow> t \<le> now \<Longrightarrow> xdt_inv now s"
  unfolding xdt_inv_def using xdt_core_later by blast

lemma xdt_step_keeps:
  assumes inv: "xdt_inv t s" and step: "xdt_step (t, s) (now, s')"
  shows "xdt_inv now s' \<and> xdt_keeps s s' \<and> t \<le> now"
  using step
proof cases
  case (arrive cs ds p)
  then show ?thesis
    using settled_recv [OF xdt_inv_later [OF inv arrive(1)] arrive(2-6)] inv
    by (simp add: xdt_inv_settled xdt_keeps_def)
next
  case link_done
  note I = xdt_inv_later [OF inv link_done(1)]
  obtain cs ds where "xdt_core now s cs ds" "unblock_on_resume s" using I by (auto simp: xdt_inv_def)
  then show ?thesis
    using core_resume [OF _ link_done(2) _ link_done(3)] link_done(1)
    by (simp add: xdt_inv_settled xdt_keeps_def)
next
  case timer
  then show ?thesis
    using settled_timer [OF xdt_inv_later [OF inv timer(1)] timer(2,3)] inv
    by (simp add: xdt_inv_settled xdt_keeps_def)
qed

lemma xdt_run_keeps:
  assumes "xdt_step\<^sup>*\<^sup>* (t, s) (now, s')" and "xdt_inv t s"
  shows "xdt_inv now s' \<and> xdt_keeps s s' \<and> t \<le> now"
  using assms
proof (induction "(now, s')" arbitrary: now s' rule: rtranclp_induct)
  case (step y)
  then show ?case using xdt_step_keeps xdt_keeps_trans by (cases y) (metis order_trans)
qed simp

text \<open>A port that is created free satisfies the invariant.\<close>

lemma xdt_inv_init:
  assumes "\<not> blocked s" "unblock_on_resume s" "0 \<le> max_tokens s" "0 < token_refresh_rate s" "0 \<le> now"
  shows "xdt_inv now (xdt_init s)"
proof -
  have "xdt_core now (xdt_init s) [] []"
    using assms by (simp add: xdt_core_def xdt_lists_def xdt_init_def Queue_init_def bucket_ok_def
        in_limit_def)
  moreover have "idle_ok (xdt_init s) [] []" by (simp add: idle_ok_def xdt_init_def new_timer_def)
  moreover have "blocked (xdt_init s) = blocked s"
    "unblock_on_resume (xdt_init s) = unblock_on_resume s"
    by (simp_all add: xdt_init_def Queue_init_def)
  ultimately show ?thesis using assms(1,2) unfolding xdt_inv_def by auto
qed

subsection \<open>Credits leave in time and in order\<close>

text \<open>When the timer expires the credit it waits for is sent.\<close>

lemma timer_sends_credit:
  assumes inv: "xdt_inv now s" and ev: "event_at (credit_timer s) = Some (Fin now)"
    and L: "xdt_lists s (x # cs) []" and k: "psize (mem s) x \<le> max_tokens s"
    and run: "CreditTimer_handle now s = Inr s'"
  shows "forwarded s' = forwarded s @ [(now, x)]"
proof -
  obtain y ys where W: "\<not> blocked s" "pending (credit_timer s)" "xdt_core now s (y # ys) []" "waiting s y"
    using timer_means_waiting [OF inv ev] by blast
  have "y # ys = x # cs"
    using W(3) L pq_rep_unique [of "mem s" "credit_q s"] unfolding xdt_core_def xdt_lists_def by blast
  then have w: "waiting s x" and C: "xdt_core now s (x # cs) []" using W by auto
  obtain s1 where r: "queue_serve xdt_deque now (xdt_put handling s) = Inr s1"
    and s': "s' = (if status (credit_timer s1) = TIMER_HANDLING
           then xdt_put ((credit_timer s1)\<lparr>status := TIMER_IDLE\<rparr>) s1 else s1)"
    by (rule timer_run [OF W(2,1) run])
  obtain q s2 where d: "xdt_deque now (xdt_put handling s) = Inr (q, s2)"
    using r W(1) by (auto simp: queue_serve_def)
  have L': "xdt_lists (xdt_put handling s) (x # cs) []" using L by (simp add: xdt_lists_def)
  have ok: "bucket_ok now (no_timer (xdt_put handling s))"
    using C by (simp add: xdt_core_def bucket_ok_def)
  have "q = Some x"
    using L' d
  proof (cases rule: xdt_deque_cases)
    case (wait s1 z zs)
    have "psize (mem s) x \<le> tokens s1"
      by (rule updateTokenBucket_enough [OF ok wait(1)])
        (use w ev k in \<open>simp_all add: waiting_def\<close>)
    moreover have "mem s1 = mem s" by (rule updateTokenBucket_frame [OF wait(1)]) simp
    ultimately show ?thesis using wait(2,4) by simp
  qed auto
  then have "s1 = queue_send now x ((util_mark now s2)\<lparr>blocked := True\<rparr>)"
    using r d W(1) by (simp add: queue_serve_def)
  then show ?thesis using xdt_deque_link [OF d] by (simp add: s' queue_send_def same_link_def)
qed

end
