(* ===== verification/Drop_Tail.thy ===== *)
theory Drop_Tail
  imports Queue_Base
begin

section \<open>The drop-tail queue (\<open>queue/drop-tail.h\<close>, \<open>queue/drop-tail.cc\<close>)\<close>

text \<open>
  A FIFO bounded in packets or in bytes. \<open>dt_enque\<close>, \<open>dt_deque\<close> and \<open>shrink_queue\<close> work on the
  packet list of \<open>Packet_Queue\<close>; their lemmas say what they do to the list of queued packets, and
  the discipline contract of \<open>Queue_Base\<close> is discharged for them.
\<close>

record droptail = queue +
  dt_q :: packet_queue
  drop_front :: bool
  summarystats :: bool
  qib :: bool
  mean_pktsize :: int

definition dt_queuesize :: "droptail \<Rightarrow> int" where
  "dt_queuesize s = (if qib s then pq_bytes (dt_q s) else pq_len (dt_q s))"

definition dt_full :: "addr \<Rightarrow> droptail \<Rightarrow> bool" where
  "dt_full p s \<longleftrightarrow>
     (let qlimBytes = qlim s * mean_pktsize s
      in (\<not> qib s \<and> qlim s \<le> pq_len (dt_q s) + 1) \<or>
         (qib s \<and> qlimBytes \<le> pq_bytes (dt_q s) + psize (mem s) p))"

definition dt_q_enque :: "addr \<Rightarrow> droptail \<Rightarrow> droptail" where
  "dt_q_enque p s =
     (case pq_enque p (mem s) (dt_q s) of (pt, m, q) \<Rightarrow> s\<lparr>mem := m, dt_q := q\<rparr>)"

definition dt_q_deque :: "droptail \<Rightarrow> addr option \<times> droptail" where
  "dt_q_deque s = (case pq_deque (mem s) (dt_q s) of (r, q) \<Rightarrow> (r, s\<lparr>dt_q := q\<rparr>))"

definition dt_stats :: "time \<Rightarrow> droptail \<Rightarrow> droptail" where
  "dt_stats now s = (if summarystats s then updateStats now (dt_queuesize s) s else s)"

definition dt_enque :: "time \<Rightarrow> addr \<Rightarrow> droptail \<Rightarrow> droptail res" where
  "dt_enque now p s =
     (let s = dt_stats now s
      in if dt_full p s then
           (if drop_front s then
              (case dt_q_deque (dt_q_enque p s) of
                 (None, s) \<Rightarrow> Inl NullPointer
               | (Some pp, s) \<Rightarrow> Inr (queue_drop pp s))
            else Inr (queue_drop p s))
         else Inr (dt_q_enque p s))"

definition dt_deque :: "time \<Rightarrow> droptail \<Rightarrow> (addr option \<times> droptail) res" where
  "dt_deque now s =
     (let s = dt_stats now s
      in Inr (dt_q_deque s))"

definition dt_over :: "droptail \<Rightarrow> bool" where
  "dt_over s \<longleftrightarrow>
     (\<not> qib s \<and> qlim s < pq_len (dt_q s)) \<or>
     (qib s \<and> qlim s * mean_pktsize s < pq_bytes (dt_q s))"

text \<open>One round of the loop of \<open>shrink_queue\<close>, and the loop.\<close>

definition dt_shrink_round :: "droptail \<Rightarrow> droptail res" where
  "dt_shrink_round s =
     (if drop_front s then
        (case dt_q_deque s of
           (None, s) \<Rightarrow> Inl NullPointer
         | (Some pp, s) \<Rightarrow> Inr (queue_drop pp s))
      else (case pq_tail (dt_q s) of
           None \<Rightarrow> Inl RemoveTargetNotFound
         | Some pp \<Rightarrow>
             res_bind (of_loop (pq_remove pp (mem s) (dt_q s)))
               (\<lambda>(m, q). Inr (queue_drop pp (s\<lparr>mem := m, dt_q := q\<rparr>)))))"

partial_function (option) dt_shrink_loop :: "droptail \<Rightarrow> droptail res option" where
  "dt_shrink_loop s =
     (if dt_over s then
        (case dt_shrink_round s of Inl e \<Rightarrow> Some (Inl e) | Inr s \<Rightarrow> dt_shrink_loop s)
      else Some (Inr s))"

definition shrink_queue :: "droptail \<Rightarrow> droptail res" where
  "shrink_queue s = of_loop (dt_shrink_loop s)"

definition dt_recv :: "time \<Rightarrow> addr \<Rightarrow> droptail \<Rightarrow> droptail res" where
  "dt_recv = Queue_recv dt_enque dt_deque"

definition dt_resume :: "time \<Rightarrow> droptail \<Rightarrow> droptail res" where
  "dt_resume = Queue_resume dt_deque"

definition dt_reset :: "time \<Rightarrow> droptail \<Rightarrow> droptail res" where
  "dt_reset = Queue_reset dt_deque"

subsection \<open>The queued packets\<close>

definition dt_holds :: "droptail \<Rightarrow> addr list \<Rightarrow> bool" where
  "dt_holds s xs \<longleftrightarrow> pq_rep (mem s) (dt_q s) xs"

abbreviation dt_sizes :: "droptail \<Rightarrow> addr list \<Rightarrow> int" where
  "dt_sizes s xs \<equiv> total_size (mem s) xs"

lemma droptail_more:
  fixes s s' :: droptail
  assumes "queue.more s' = queue.more s"
  shows "dt_q s' = dt_q s" "drop_front s' = drop_front s" "summarystats s' = summarystats s"
    "qib s' = qib s" "mean_pktsize s' = mean_pktsize s"
  using assms by (cases s; cases s'; simp)+

lemma dt_stats_only: "stats_only s (dt_stats now s)"
  by (simp add: dt_stats_def updateStats_stats)

lemma dt_stats_sel [simp]:
  "mem (dt_stats now s) = mem s" "qlim (dt_stats now s) = qlim s"
  "blocked (dt_stats now s) = blocked s"
  "unblock_on_resume (dt_stats now s) = unblock_on_resume s"
  "forwarded (dt_stats now s) = forwarded s" "dropped (dt_stats now s) = dropped s"
  "dt_q (dt_stats now s) = dt_q s" "drop_front (dt_stats now s) = drop_front s"
  "qib (dt_stats now s) = qib s" "mean_pktsize (dt_stats now s) = mean_pktsize s"
  using dt_stats_only [of s now] droptail_more [of "dt_stats now s" s]
  by (simp_all add: stats_only_def)

lemma dt_holds_stats [simp]: "dt_holds (dt_stats now s) xs = dt_holds s xs"
  by (simp add: dt_holds_def)

lemma dt_holds_len: "dt_holds s xs \<Longrightarrow> pq_len (dt_q s) = int (length xs)"
  by (simp add: dt_holds_def pq_rep_length)

lemma dt_holds_bytes: "dt_holds s xs \<Longrightarrow> pq_bytes (dt_q s) = dt_sizes s xs"
  by (simp add: dt_holds_def pq_rep_bytes)

text \<open>Adding to and taking from the list, with everything else unchanged.\<close>

lemma dt_q_enque_holds:
  assumes "dt_holds s xs" "p \<notin> set xs"
  obtains m q where "dt_q_enque p s = s\<lparr>mem := m, dt_q := q\<rparr>" "pq_rep m q (xs @ [p])"
    "psize m = psize (mem s)"
proof -
  obtain pt m q where e: "pq_enque p (mem s) (dt_q s) = (pt, m, q)" by (metis prod_cases3)
  have "pq_rep m q (xs @ [p])" "pkt_at m = pkt_at (mem s)"
    using pq_enque_rep [OF _ assms(2) e] assms(1) by (simp_all add: dt_holds_def)
  with that e show thesis by (simp add: dt_q_enque_def)
qed

lemma dt_q_deque_nil: "dt_holds s [] \<Longrightarrow> dt_q_deque s = (None, s)"
  by (simp add: dt_holds_def dt_q_deque_def pqf.deq_nil)

lemma dt_q_deque_cons:
  assumes "dt_holds s (x # xs)"
  obtains q where "dt_q_deque s = (Some x, s\<lparr>dt_q := q\<rparr>)" "pq_rep (mem s) q xs"
  using assms pqf.deq_cons [of "mem s" "dt_q s" x xs] that by (auto simp: dt_holds_def dt_q_deque_def)

subsection \<open>\<open>enque\<close> and \<open>deque\<close> on the list\<close>

text \<open>\<open>enque\<close> as a function on lists: what is queued afterwards, and what is dropped.\<close>

definition abs_dt_enque :: "bool \<Rightarrow> bool \<Rightarrow> addr \<Rightarrow> addr list \<Rightarrow> addr list \<times> addr list" where
  "abs_dt_enque is_full front p xs =
     (if is_full then (if front then (tl (xs @ [p]), [hd (xs @ [p])]) else (xs, [p]))
      else (xs @ [p], []))"

definition dt_overflow :: "droptail \<Rightarrow> addr \<Rightarrow> addr list \<Rightarrow> bool" where
  "dt_overflow s p xs \<longleftrightarrow>
     (if qib s then qlim s * mean_pktsize s \<le> dt_sizes s xs + psize (mem s) p
      else qlim s \<le> int (length xs) + 1)"

lemma dt_full_holds: "dt_holds s xs \<Longrightarrow> dt_full p s = dt_overflow s p xs"
  by (auto simp: dt_full_def dt_overflow_def dt_holds_len dt_holds_bytes)

lemma dt_overflow_stats [simp]: "dt_overflow (dt_stats now s) p xs = dt_overflow s p xs"
  by (simp add: dt_overflow_def)

lemma dt_enque_holds:
  assumes h: "dt_holds s xs" and p: "p \<notin> set xs"
    and ys: "abs_dt_enque (dt_overflow s p xs) (drop_front s) p xs = (ys, ds)"
  obtains m q where
    "dt_enque now p s =
       Inr ((dt_stats now s)\<lparr>mem := m, dropped := dropped s @ ds, dt_q := q\<rparr>)"
    "pq_rep m q ys" "psize m = psize (mem s)"
proof -
  let ?s = "dt_stats now s"
  have h': "dt_holds ?s xs" and rep: "pq_rep (mem s) (dt_q s) xs"
    using h by (simp_all add: dt_holds_def)
  have full: "dt_full p ?s = dt_overflow s p xs" using dt_full_holds [OF h'] by simp
  obtain m q where e: "dt_q_enque p ?s = ?s\<lparr>mem := m, dt_q := q\<rparr>" "pq_rep m q (xs @ [p])"
    "psize m = psize (mem s)" by (rule dt_q_enque_holds [OF h' p]) simp
  obtain z zs where z: "xs @ [p] = z # zs" by (cases xs) auto
  have "dt_holds (?s\<lparr>mem := m, dt_q := q\<rparr>) (z # zs)" using e(2) z by (simp add: dt_holds_def)
  then obtain q1 where d: "dt_q_deque (?s\<lparr>mem := m, dt_q := q\<rparr>) =
      (Some z, ?s\<lparr>mem := m, dt_q := q1\<rparr>)" "pq_rep m q1 zs"
    by (rule dt_q_deque_cons) simp
  consider "\<not> dt_overflow s p xs" "ys = xs @ [p]" "ds = []"
    | "dt_overflow s p xs" "drop_front s" "ys = zs" "ds = [z]"
    | "dt_overflow s p xs" "\<not> drop_front s" "ys = xs" "ds = [p]"
    using ys z by (auto simp: abs_dt_enque_def split: if_splits)
  then show thesis
  proof cases
    case 1
    then show thesis using full e that [where m = m and q = q] by (simp add: dt_enque_def)
  next
    case 2
    then show thesis using full e d that [where m = m and q = q1] by (simp add: dt_enque_def queue_drop_def)
  next
    case 3
    have "?s\<lparr>dropped := dropped s @ [p]\<rparr> =
          ?s\<lparr>mem := mem s, dropped := dropped s @ [p], dt_q := dt_q s\<rparr>"
      by (cases ?s) (use dt_stats_sel(1,7) [of now s] in simp)
    then show thesis using 3 full rep that [where m = "mem s" and q = "dt_q s"]
      by (simp add: dt_enque_def queue_drop_def)
  qed
qed

lemma dt_deque_nil: "dt_holds s [] \<Longrightarrow> dt_deque now s = Inr (None, dt_stats now s)"
  by (simp add: dt_deque_def dt_q_deque_nil)

lemma dt_deque_cons:
  assumes "dt_holds s (x # xs)"
  obtains q where "dt_deque now s = Inr (Some x, (dt_stats now s)\<lparr>dt_q := q\<rparr>)"
    "pq_rep (mem s) q xs"
proof -
  have "dt_holds (dt_stats now s) (x # xs)" using assms by simp
  then obtain q where "dt_q_deque (dt_stats now s) = (Some x, (dt_stats now s)\<lparr>dt_q := q\<rparr>)"
    "pq_rep (mem (dt_stats now s)) q xs" by (rule dt_q_deque_cons)
  with that show thesis by (simp add: dt_deque_def)
qed

lemma abs_dt_enque_mset: "abs_dt_enque b f p xs = (ys, ds) \<Longrightarrow> mset ys + mset ds = mset xs + {#p#}"
  by (cases xs) (auto simp: abs_dt_enque_def split: if_splits)

lemma dt_holds_cong:
  assumes "mem s' = mem s" "queue.more s' = queue.more s"
  shows "dt_holds s' xs = dt_holds s xs"
  using assms droptail_more [OF assms(2)] by (simp add: dt_holds_def)

text \<open>A drop-tail queue is a discipline.\<close>

interpretation dtd: queue_discipline dt_holds dt_enque dt_deque
proof (unfold_locales, goal_cases)
  case (1 s' s xs)
  then show ?case by (rule dt_holds_cong)
next
  case (6 s xs p now)
  obtain ys ds where "abs_dt_enque (dt_overflow s p xs) (drop_front s) p xs = (ys, ds)" by fastforce
  from dt_enque_holds [OF 6 this] show ?case by blast
next
  case (2 s xs p now s')
  obtain ys ds where a: "abs_dt_enque (dt_overflow s p xs) (drop_front s) p xs = (ys, ds)" by fastforce
  obtain m q where "dt_enque now p s =
      Inr ((dt_stats now s)\<lparr>mem := m, dropped := dropped s @ ds, dt_q := q\<rparr>)" "pq_rep m q ys"
    by (rule dt_enque_holds [OF 2(1,2) a])
  then show ?case using 2(3) abs_dt_enque_mset [OF a]
    by (intro exI [of _ ys]) (auto simp: dt_holds_def accounted_def)
next
  case (3 now p s s')
  then show ?case
    by (auto simp: dt_enque_def Let_def dt_q_enque_def dt_q_deque_def queue_drop_def
        split: if_splits prod.splits option.splits)
next
  case (4 s xs now r s')
  then show ?case
  proof (cases xs)
    case Nil
    then show ?thesis using 4 dt_deque_nil [of s now]
      by (intro exI [of _ "[]"]) (auto simp: accounted_def)
  next
    case (Cons x ys)
    then obtain q where "dt_deque now s = Inr (Some x, (dt_stats now s)\<lparr>dt_q := q\<rparr>)"
      "pq_rep (mem s) q ys" using dt_deque_cons 4(1) by blast
    then show ?thesis using 4(2) Cons
      by (intro exI [of _ ys]) (auto simp: accounted_def dt_holds_def)
  qed
next
  case (5 now s r s')
  then show ?case by (auto simp: dt_deque_def dt_q_deque_def split: prod.splits)
qed

lemma dt_deque_None:
  assumes "dt_holds s xs" "dt_deque now s = Inr (None, s')"
  shows "xs = [] \<and> dt_holds s' []"
proof (cases xs)
  case Nil
  then show ?thesis using assms dt_deque_nil [of s now] by auto
next
  case (Cons x ys)
  then show ?thesis using assms dt_deque_cons [of s x ys now] by auto
qed

interpretation dtw: work_conserving dt_holds dt_enque dt_deque
  by unfold_locales (rule dt_deque_None)

subsection \<open>Limits\<close>

text \<open>
  With the limit in packets the queue holds fewer packets than the limit; with the limit in bytes
  and arrivals dropped, fewer bytes. Dropping the head instead does not bound the bytes.
\<close>

definition dt_within :: "droptail \<Rightarrow> addr list \<Rightarrow> bool" where
  "dt_within s xs \<longleftrightarrow>
     xs = [] \<or> (if qib s then dt_sizes s xs < qlim s * mean_pktsize s else int (length xs) < qlim s)"

lemma abs_dt_enque_within:
  assumes "dt_within s xs" and "\<not> (qib s \<and> drop_front s)"
    and "abs_dt_enque (dt_overflow s p xs) (drop_front s) p xs = (ys, ds)"
  shows "dt_within s ys"
proof (cases "dt_overflow s p xs \<and> drop_front s")
  case True
  then show ?thesis using assms by (cases xs) (auto simp: dt_within_def abs_dt_enque_def)
next
  case False
  then show ?thesis
    using assms by (auto simp: dt_within_def abs_dt_enque_def dt_overflow_def split: if_splits)
qed

lemma abs_dt_enque_size:
  assumes "abs_dt_enque b f p xs = (ys, ds)" and "\<forall>x\<in>set (p # xs). 0 \<le> psize m x"
  shows "total_size m ys \<le> total_size m xs + psize m p"
  using assms by (cases xs) (auto simp: abs_dt_enque_def split: if_splits)

lemma dt_within_cong:
  "psize m' = psize (mem s) \<Longrightarrow> mem s' = m' \<Longrightarrow> qib s' = qib s \<Longrightarrow> qlim s' = qlim s \<Longrightarrow>
   mean_pktsize s' = mean_pktsize s \<Longrightarrow> dt_within s' ys = dt_within s ys"
  by (simp add: dt_within_def)

subsection \<open>Shrinking\<close>

lemma dt_shrink_loop_step:
  "dt_shrink_loop s =
     (if dt_over s then
        (case dt_shrink_round s of Inl e \<Rightarrow> Some (Inl e) | Inr s \<Rightarrow> dt_shrink_loop s)
      else Some (Inr s))"
  by (rule dt_shrink_loop.simps)

lemma dt_over_holds:
  "dt_holds s xs \<Longrightarrow>
   dt_over s = (if qib s then qlim s * mean_pktsize s < dt_sizes s xs else qlim s < int (length xs))"
  by (auto simp: dt_over_def dt_holds_len dt_holds_bytes)

lemma dt_shrink_round_front:
  assumes "dt_holds s (x # xs)" and "drop_front s"
  obtains q where "dt_shrink_round s = Inr (s\<lparr>dropped := dropped s @ [x], dt_q := q\<rparr>)"
    "pq_rep (mem s) q xs"
proof -
  obtain q where "dt_q_deque s = (Some x, s\<lparr>dt_q := q\<rparr>)" "pq_rep (mem s) q xs"
    by (rule dt_q_deque_cons [OF assms(1)])
  with that [of q] assms(2) show thesis by (simp add: dt_shrink_round_def queue_drop_def)
qed

lemma dt_shrink_round_tail:
  assumes "dt_holds s (xs @ [x])" and "\<not> drop_front s"
  obtains m q where "dt_shrink_round s = Inr (s\<lparr>mem := m, dropped := dropped s @ [x], dt_q := q\<rparr>)"
    "pq_rep m q xs" "psize m = psize (mem s)"
proof -
  obtain m q where "of_loop (pq_remove x (mem s) (dt_q s)) = Inr (m, q)" "pq_rep m q xs"
    "psize m = psize (mem s)"
    using pqf.rem_rep [of "mem s" "dt_q s" xs x "[]"] assms(1) by (auto simp: dt_holds_def)
  moreover have "pq_tail (dt_q s) = Some x"
    using assms(1) pq_rep_tail [of "mem s" "dt_q s" "xs @ [x]"] by (simp add: dt_holds_def)
  ultimately show thesis using that [where m = m and q = q] assms(2)
    by (simp add: dt_shrink_round_def queue_drop_def)
qed

text \<open>
  From a non-negative limit the loop ends within the limit: dropping from the head keeps a suffix
  of the queue and drops a prefix in order, dropping from the tail keeps a prefix.
\<close>

lemma shrink_loop_result:
  assumes "dt_holds s xs" and "0 \<le> qlim s" and "0 \<le> mean_pktsize s"
  shows "\<exists>s' ys ds. dt_shrink_loop s = Some (Inr s') \<and> dt_holds s' ys \<and> \<not> dt_over s' \<and>
           dropped s' = dropped s @ ds \<and>
           xs = (if drop_front s then ds @ ys else ys @ rev ds)"
  using assms
proof (induction "length xs" arbitrary: s xs)
  case 0
  then have "\<not> dt_over s" by (auto simp: dt_over_holds not_less)
  then show ?case using 0 by (subst dt_shrink_loop_step) auto
next
  case (Suc n)
  show ?case
  proof (cases "dt_over s")
    case False
    then show ?thesis using Suc.prems by (subst dt_shrink_loop_step) auto
  next
    case over: True
    show ?thesis
    proof (cases "drop_front s")
      case True
      obtain x zs where xs: "xs = x # zs" using Suc(2) by (cases xs) auto
      obtain q where r: "dt_shrink_round s = Inr (s\<lparr>dropped := dropped s @ [x], dt_q := q\<rparr>)"
        "pq_rep (mem s) q zs" using dt_shrink_round_front True Suc.prems(1) xs by blast
      have "dt_holds (s\<lparr>dropped := dropped s @ [x], dt_q := q\<rparr>) zs" using r(2) by (simp add: dt_holds_def)
      from Suc.hyps(1) [OF _ this] show ?thesis
        using Suc.hyps(2) Suc.prems over True xs r(1) by (subst dt_shrink_loop_step) fastforce
    next
      case False
      obtain x zs where xs: "xs = zs @ [x]" using Suc(2) by (cases xs rule: rev_cases) auto
      obtain m q where r: "dt_shrink_round s = Inr (s\<lparr>mem := m, dropped := dropped s @ [x], dt_q := q\<rparr>)"
        "pq_rep m q zs" using dt_shrink_round_tail False Suc.prems(1) xs by blast
      have "dt_holds (s\<lparr>mem := m, dropped := dropped s @ [x], dt_q := q\<rparr>) zs"
        using r(2) by (simp add: dt_holds_def)
      from Suc.hyps(1) [OF _ this] show ?thesis
        using Suc.hyps(2) Suc.prems over False xs r(1) by (subst dt_shrink_loop_step) fastforce
    qed
  qed
qed

text \<open>\<open>reset\<close> drops every queued packet, head first.\<close>

lemma dt_reset_loop:
  "dt_holds s xs \<Longrightarrow>
   \<exists>s'. reset_loop dt_deque now s = Some (Inr s') \<and> dt_holds s' [] \<and> dropped s' = dropped s @ xs"
proof (induction xs arbitrary: s)
  case Nil
  then show ?case by (subst reset_loop.simps) (auto simp: dt_deque_nil)
next
  case (Cons x xs)
  obtain q where d: "dt_deque now s = Inr (Some x, (dt_stats now s)\<lparr>dt_q := q\<rparr>)"
    "pq_rep (mem s) q xs" using dt_deque_cons [OF Cons.prems] by blast
  have "dt_holds (queue_drop x ((dt_stats now s)\<lparr>dt_q := q\<rparr>)) xs"
    using d(2) by (simp add: dt_holds_def queue_drop_def)
  from Cons.IH [OF this] show ?case
    using d(1) by (subst reset_loop.simps) (auto simp: queue_drop_def)
qed

end
