(* ===== verification/Queue_Properties.thy ===== *)
theory Queue_Properties
  imports XPass_Switch Drop_Tail
begin

section \<open>Properties of the queues\<close>

text \<open>
  The statements about the packet list, the drop-tail queue and the ExpressPass switch port, each
  with a witness on the configuration of \<open>tcl/lib/ns-default.tcl\<close>. Even addresses hold credits of
  84 bytes, odd addresses data packets of 1538 bytes.
\<close>

definition demo_mem :: pkt_mem where
  "demo_mem = \<lparr>nxt = (\<lambda>_. None), pkt_at = (\<lambda>p. if even p then allocpkt PT_XPASS_CREDIT 84
     else allocpkt PT_XPASS_DATA 1538)\<rparr>"

definition default_port :: xdroptail where
  "default_port =
     \<lparr>mem = demo_mem, qlim = 50, blocked = False, unblock_on_resume = True, true_ave = 0,
      total_time = 0, last_change = 0, old_util = 0, util_weight = 8 / 10, util_check_intv = 2 / 10,
      period_begin = 0, cur_util = 0, buf_slot = 0, util_buf = [0, 0, 0, 0, 0], util_records = 5,
      forwarded = [], dropped = [],
      data_q = new_packet_queue, credit_q = new_packet_queue, credit_q_limit = 840,
      data_q_limit = 153800, tokens = 0, max_tokens = 840, token_bucket_clock = 0,
      token_refresh_rate = 64734895, credit_timer = new_timer\<rparr>"

definition port_config :: "xdroptail \<Rightarrow> bool" where
  "port_config s \<longleftrightarrow>
     \<not> blocked s \<and> unblock_on_resume s \<and> 0 \<le> max_tokens s \<and> 0 < token_refresh_rate s"

text \<open>The states of a port that is created free at time 0.\<close>

definition xdt_reach :: "time \<Rightarrow> xdroptail \<Rightarrow> bool" where
  "xdt_reach now s \<longleftrightarrow> (\<exists>s0. port_config s0 \<and> xdt_step\<^sup>*\<^sup>* (0, xdt_init s0) (now, s))"

lemma xdt_reach_inv: "xdt_reach now s \<Longrightarrow> xdt_inv now s"
  using xdt_run_keeps xdt_inv_init by (fastforce simp: xdt_reach_def port_config_def)

lemma xdt_reach_step: "xdt_reach t s \<Longrightarrow> xdt_step (t, s) (now, s') \<Longrightarrow> xdt_reach now s'"
  unfolding xdt_reach_def by (blast intro: rtranclp.rtrancl_into_rtrancl)

lemma default_port_init: "xdt_init default_port = default_port"
  by (simp add: xdt_init_def Queue_init_def default_port_def numeral_eq_Suc)

lemma default_port_reach: "xdt_reach 0 default_port"
  unfolding xdt_reach_def
  by (rule exI [of _ default_port], subst default_port_init)
    (simp add: port_config_def default_port_def)

lemma demo_sizes [simp]:
  "psize demo_mem p = (if even p then 84 else 1538)" "xdt_is_credit demo_mem p = even p"
  by (auto simp: demo_mem_def xdt_is_credit_def)

lemma default_port_lists: "xdt_lists default_port [] []"
  by (simp add: xdt_lists_def default_port_def)

text \<open>The default port after a credit has arrived at time 0, when the bucket is empty.\<close>

abbreviation one_credit :: packet_queue where
  "one_credit \<equiv> \<lparr>pq_head = Some 0, pq_tail = Some 0, pq_len = 1, pq_bytes = 84, pq_iter = None\<rparr>"

definition waiting_port :: xdroptail where
  "waiting_port = default_port\<lparr>credit_q := one_credit,
     credit_timer := \<lparr>status = TIMER_PENDING, event_at = Some (Fin (84 / 64734895))\<rparr>\<rparr>"

lemma demo_mem_same [simp]: "set_nxt p None demo_mem = demo_mem"
  by (simp add: set_nxt_def demo_mem_def fun_upd_def)

lemma waiting_port_recv: "xdt_recv 0 0 default_port = Inr waiting_port"
  by (simp add: xdt_recv_def Queue_recv_def xdt_enque_def queue_serve_def xdt_deque_def
      updateTokenBucket_def pq_enque_def Let_def waiting_port_def default_port_def
      new_packet_queue_def timer_defs new_timer_def xdiv_def)

lemma waiting_port_step: "xdt_step (0, default_port) (0, waiting_port)"
  by (rule arrive [OF _ default_port_lists _ _ _ waiting_port_recv]) (simp_all add: default_port_def)

lemma waiting_port_reach: "xdt_reach 0 waiting_port"
  by (rule xdt_reach_step [OF default_port_reach waiting_port_step])

lemma waiting_port_lists: "xdt_lists waiting_port [0] []"
  by (simp add: xdt_lists_def waiting_port_def default_port_def pq_rep_def demo_mem_def
      new_packet_queue_def xdt_is_credit_def)

text \<open>The waiting port when its timer expires sends the credit.\<close>

lemma served_port_run:
  "\<exists>s'. CreditTimer_handle (84 / 64734895) waiting_port = Inr s' \<and> credit_bytes s' = 84"
  by (simp add: CreditTimer_handle_def tm_handle_def xdt_expire_def queue_serve_def xdt_deque_def
      updateTokenBucket_def pq_deque_def Let_def waiting_port_def default_port_def
      new_packet_queue_def timer_defs new_timer_def in_int32_def queue_send_def credit_bytes_def
      credit_size_def demo_mem_def xdt_is_credit_def int_of_double_def)

abbreviation credit_due :: time where
  "credit_due \<equiv> 84 / 64734895"

lemma served_port_step:
  "CreditTimer_handle credit_due waiting_port = Inr s' \<Longrightarrow> xdt_step (0, waiting_port) (credit_due, s')"
  by (rule timer) (simp_all add: waiting_port_def)

subsection \<open>The switch port\<close>

text \<open>
  (C4) Credit throttling: between any two moments of a run the port hands the link at most the
  tokens in the bucket at the first moment plus the refresh rate times the time since the bucket's
  clock, in bytes of credit.
\<close>

theorem xdt_credit_rate:
  assumes "xdt_reach t s" and "xdt_step\<^sup>*\<^sup>* (t, s) (now, s')"
  shows "of_int (credit_bytes s' - credit_bytes s) \<le>
         of_int (tokens s) + token_refresh_rate s * (now - token_bucket_clock s)"
proof -
  have inv: "xdt_inv now s'" and k: "xdt_keeps s s'"
    using xdt_run_keeps [OF assms(2) xdt_reach_inv [OF assms(1)]] by auto
  have b: "0 \<le> tokens s'" "token_bucket_clock s' \<le> now" "0 < token_refresh_rate s'"
    using inv by (auto simp: xdt_inv_def xdt_core_def bucket_ok_def)
  have "token_refresh_rate s' * token_bucket_clock s' \<le> token_refresh_rate s' * now"
    using b by (intro mult_left_mono) auto
  then show ?thesis using k b(1) by (auto simp: xdt_keeps_def credit_potential_def algebra_simps)
qed

theorem xdt_credit_rate_witness:
  "\<exists>s'. xdt_step\<^sup>*\<^sup>* (0, default_port) (credit_due, s') \<and> credit_bytes s' = 84 \<and>
     of_int (credit_bytes s' - credit_bytes default_port) \<le>
       of_int (tokens default_port) + token_refresh_rate default_port * (credit_due - 0)"
proof -
  obtain s' where s': "CreditTimer_handle credit_due waiting_port = Inr s'" "credit_bytes s' = 84"
    using served_port_run by blast
  have run: "xdt_step\<^sup>*\<^sup>* (0, default_port) (credit_due, s')"
    using waiting_port_step served_port_step [OF s'(1)] by (meson converse_rtranclp_into_rtranclp
        rtranclp.rtrancl_refl)
  show ?thesis
    using xdt_credit_rate [OF default_port_reach run] run s'(2)
    by (intro exI [of _ s']) (simp add: default_port_def)
qed

text \<open>
  (C13) A free port never sits on work: it holds no data packet, and if it holds credits its timer
  is pending. So a queued packet is always waiting for the link or for the timer.
\<close>

theorem xdt_never_stalls:
  assumes "xdt_reach now s" and "xdt_lists s cs ds" and "\<not> blocked s"
  shows "ds = [] \<and> (cs \<noteq> [] \<longrightarrow> pending (credit_timer s))"
proof -
  obtain cs' ds' where C: "xdt_core now s cs' ds'" and I: "idle_ok s cs' ds'"
    using xdt_reach_inv [OF assms(1)] assms(3) by (auto simp: xdt_inv_def)
  have eq: "cs' = cs" "ds' = ds"
    using C assms(2) pq_rep_unique unfolding xdt_core_def xdt_lists_def by blast+
  have "timer_ok (credit_timer s)" using assms(2) by (simp add: xdt_lists_def)
  then show ?thesis
    using I unfolding eq by (cases cs) (auto simp: idle_ok_def waiting_def timer_ok_def split: option.splits)
qed

theorem xdt_never_stalls_witness:
  "xdt_lists waiting_port [0] [] \<and> \<not> blocked waiting_port \<and> pending (credit_timer waiting_port)"
  using xdt_never_stalls [OF waiting_port_reach waiting_port_lists] waiting_port_lists
  by (simp add: waiting_port_def default_port_def)

text \<open>
  The credit timer is set neither too early nor for the wrong packet: when it expires, the
  bucket covers the credit at the head of the queue, provided it fits the bucket at all, and that
  credit is sent.
\<close>

lemma xdt_timer_sends:
  assumes "xdt_reach t s" and "t \<le> now" and "event_at (credit_timer s) = Some (Fin now)"
    and "xdt_lists s (x # cs) []" and "psize (mem s) x \<le> max_tokens s"
    and "CreditTimer_handle now s = Inr s'"
  shows "forwarded s' = forwarded s @ [(now, x)]"
  by (rule timer_sends_credit [OF xdt_inv_later [OF xdt_reach_inv [OF assms(1)] assms(2)] assms(3-6)])

text \<open>
  (C17) In every reachable state both queues are within their byte limits and the tokens are between
  zero and the size of the bucket.
\<close>

theorem xdt_bounds:
  assumes "xdt_reach now s"
  shows "0 \<le> tokens s \<and> tokens s \<le> max_tokens s \<and> token_bucket_clock s \<le> now \<and>
         pq_bytes (credit_q s) \<le> max 0 (credit_q_limit s) \<and>
         pq_bytes (data_q s) \<le> max 0 (data_q_limit s)"
proof -
  obtain cs ds where C: "xdt_core now s cs ds"
    using xdt_reach_inv [OF assms] by (auto simp: xdt_inv_def)
  then have "pq_bytes (credit_q s) = total_size (mem s) cs" "pq_bytes (data_q s) = total_size (mem s) ds"
    by (auto simp: xdt_core_def xdt_lists_def pq_rep_bytes)
  with C show ?thesis by (auto simp: xdt_core_def bucket_ok_def in_limit_def)
qed

theorem xdt_bounds_witness:
  "pq_bytes (credit_q waiting_port) \<le> 840 \<and> pq_bytes (credit_q waiting_port) = 84"
  using xdt_bounds [OF waiting_port_reach] by (simp add: waiting_port_def default_port_def)

text \<open>
  \<open>deque\<close> of a reachable port never takes the exit for a queue without timer and never
  dereferences a null pointer: it returns unless the refill of the bucket leaves the range of
  \<open>int\<close>, which it does not while the time since the bucket's clock is short enough.
\<close>

theorem xdt_deque_safe:
  assumes "xdt_reach t s" and "t \<le> now"
  shows "(\<forall>e. xdt_deque now s = Inl e \<longrightarrow> e = IntOutOfRange) \<and>
         ((now - token_bucket_clock s) * token_refresh_rate s + of_int (max_tokens s) < 2 ^ 31 \<longrightarrow>
          (\<exists>r s'. xdt_deque now s = Inr (r, s')))"
proof -
  have I: "xdt_inv now s" by (rule xdt_inv_later [OF xdt_reach_inv [OF assms(1)] assms(2)])
  then obtain cs ds where L: "xdt_lists s cs ds" and B: "bucket_ok now (no_timer s)"
    by (auto simp: xdt_inv_def xdt_core_def bucket_ok_def)
  have err: "updateTokenBucket now (no_timer s) = Inl e \<Longrightarrow> e = IntOutOfRange" for e
    by (auto simp: updateTokenBucket_def Let_def split: if_splits)
  show ?thesis
  proof (cases "updateTokenBucket now (no_timer s)")
    case (Inl e)
    then show ?thesis using err xdt_deque_error [OF Inl] updateTokenBucket_in_range [OF B] by auto
  next
    case (Inr s1)
    then show ?thesis using xdt_deque_total [OF L Inr] by auto
  qed
qed

theorem xdt_deque_safe_witness: "\<exists>r s'. xdt_deque 1 waiting_port = Inr (r, s')"
  using xdt_deque_safe [OF waiting_port_reach, of 1] by (simp add: waiting_port_def default_port_def)

text \<open>
  The refill does not fit in an \<open>int\<close> after a pause: whenever the time since the bucket's clock
  is worth at least \<open>2 ^ 31\<close> tokens, the conversion in \<open>updateTokenBucket\<close> is out of range, and so is
  the next packet's service.
\<close>

theorem xdt_refill_overflow:
  assumes "xdt_reach t s" and "t \<le> now" and "\<not> blocked s" and "xdt_lists s cs ds"
    and "p \<notin> set cs" and "p \<notin> set ds"
    and "2 ^ 31 \<le> (now - token_bucket_clock s) * token_refresh_rate s"
  shows "xdt_recv now p s = Inl IntOutOfRange"
proof -
  have I: "xdt_inv now s" by (rule xdt_inv_later [OF xdt_reach_inv [OF assms(1)] assms(2)])
  obtain cs' ds' drops where abs: "abs_xdt_enque s p cs ds = (cs', ds', drops)" by (metis prod_cases3)
  obtain m cq dq where e: "xdt_enq now p s =
      Inr (s\<lparr>mem := m, dropped := dropped s @ drops, data_q := dq, credit_q := cq\<rparr>)"
    by (rule xdt_enque_lists [OF assms(4-6) abs])
  have "updateTokenBucket now (no_timer (s\<lparr>mem := m, dropped := dropped s @ drops, data_q := dq,
      credit_q := cq\<rparr>)) = Inl IntOutOfRange"
    using I assms(7)
    by (intro updateTokenBucket_overflow) (auto simp: xdt_inv_def xdt_core_def bucket_ok_def)
  then show ?thesis
    using e xdt_deque_error assms(3) by (simp add: xdt_recv_def Queue_recv_def queue_serve_def)
qed

theorem xdt_refill_overflow_witness: "xdt_recv 34 1 default_port = Inl IntOutOfRange"
  by (rule xdt_refill_overflow [OF default_port_reach _ _ default_port_lists])
    (simp_all add: default_port_def)

text \<open>
  The port serves a credit that the bucket covers before any data: with such a credit at the
  head and data queued, \<open>deque\<close> returns the credit and leaves the data where they are.
\<close>

theorem xdt_credit_first:
  assumes "xdt_lists s (x # cs) ds" and "updateTokenBucket now (no_timer s) = Inr s1"
    and "psize (mem s) x \<le> tokens s1"
  shows "\<exists>s'. xdt_deque now s = Inr (Some x, s') \<and> xdt_lists s' cs ds \<and>
           tokens s' = tokens s1 - psize (mem s) x"
proof -
  have m: "mem s1 = mem s" by (rule updateTokenBucket_frame [OF assms(2)]) simp
  show ?thesis
    by (rule xdt_deque_credit [OF assms(1,2)]) (use assms(3) m in auto)
qed

text \<open>The waiting port with a data packet queued behind the credit, and a full bucket.\<close>

definition mixed_port :: xdroptail where
  "mixed_port = waiting_port\<lparr>data_q := \<lparr>pq_head = Some 1, pq_tail = Some 1, pq_len = 1,
     pq_bytes = 1538, pq_iter = None\<rparr>, tokens := 840\<rparr>"

lemma mixed_port_lists: "xdt_lists mixed_port [0] [1]"
  by (simp add: xdt_lists_def mixed_port_def waiting_port_def default_port_def pq_rep_def demo_mem_def
      new_packet_queue_def xdt_is_credit_def)

theorem xdt_credit_first_witness: "\<exists>s'. xdt_deque 0 mixed_port = Inr (Some 0, s') \<and> xdt_lists s' [] [1]"
proof -
  have "updateTokenBucket 0 (no_timer mixed_port) = Inr (no_timer mixed_port)"
    by (simp add: updateTokenBucket_def mixed_port_def waiting_port_def default_port_def)
  from xdt_credit_first [OF mixed_port_lists this] show ?thesis
    by (auto simp: mixed_port_def waiting_port_def default_port_def)
qed

text \<open>
  \<open>enque\<close> on the linked lists is \<open>enque\<close> on lists: the arrival goes to the end of the list of
  its kind, or is dropped when that list would exceed its byte limit; nothing else in the port
  changes and no packet's header is touched.
\<close>

theorem xdt_enque_refines:
  assumes "xdt_lists s cs ds" and "p \<notin> set cs" and "p \<notin> set ds"
    and "abs_xdt_enque s p cs ds = (cs', ds', drops)"
  shows "\<exists>s'. xdt_enque now (Some p) s = Inr s' \<and> xdt_lists s' cs' ds' \<and>
           dropped s' = dropped s @ drops \<and> pkt_at (mem s') = pkt_at (mem s) \<and>
           tokens s' = tokens s \<and> credit_timer s' = credit_timer s \<and> forwarded s' = forwarded s"
  by (rule xdt_enque_lists [OF assms, of now]) auto

theorem xdt_enque_refines_witness:
  "\<exists>s'. xdt_enque 0 (Some 1) waiting_port = Inr s' \<and> xdt_lists s' [0] [1]"
  using xdt_enque_refines [OF waiting_port_lists, of 1 "[0]" "[1]" "[]" 0]
  by (auto simp: abs_xdt_enque_def waiting_port_def default_port_def)

text \<open>The expiry of the credit timer serves the link like an arrival does.\<close>

lemma xdt_expire_account:
  assumes L: "xdt_lists s cs ds" and run: "CreditTimer_handle now s = Inr s'"
  shows "\<exists>cs' ds'. xdt_lists s' cs' ds' \<and> accounted s' (cs' @ ds') = accounted s (cs @ ds)"
proof -
  let ?s = "s\<lparr>credit_timer := handling\<rparr>"
  have "pending (credit_timer s)"
    using run tm_handle_not_pending [of credit_timer s xdt_put "xdt_expire now"]
    by (cases "pending (credit_timer s)") (simp_all add: CreditTimer_handle_def)
  then obtain s1 where s1: "queue_serve xdt_deque now ?s = Inr s1"
    "s' = s1 \<or> s' = s1\<lparr>credit_timer := (credit_timer s1)\<lparr>status := TIMER_IDLE\<rparr>\<rparr> \<and> \<not> pending (credit_timer s1)"
    using run by (auto simp: CreditTimer_handle_def tm_handle_pending xdt_expire_def split: if_splits)
  have "xdt_holds ?s (cs @ ds)" using L by (auto simp: xdt_holds_def xdt_lists_def timer_ok_def)
  from xdd.serve_account [OF this s1(1)] obtain cs' ds' where
    "xdt_lists s1 cs' ds'" "accounted s1 (cs' @ ds') = accounted s (cs @ ds)"
    by (auto simp: xdt_holds_def accounted_def)
  then have "xdt_lists s' cs' ds' \<and> accounted s' (cs' @ ds') = accounted s (cs @ ds)"
    using s1(2) by (auto simp: xdt_lists_def accounted_def timer_ok_def)
  then show ?thesis by blast
qed

text \<open>
  (C33) Packet conservation: every packet that arrives at a port is afterwards queued, dropped or
  handed to the link, exactly once, and nothing that was there is lost. A finished transmission and
  the expiry of the credit timer move packets from the queue to the link, a reset moves them to the
  dropped ones, and none of the three loses or duplicates a packet.
\<close>

theorem xdt_conserves_packets:
  assumes "xdt_lists s cs ds"
  shows "(p \<notin> set cs \<union> set ds \<longrightarrow> xdt_recv now p s = Inr s' \<longrightarrow>
            (\<exists>cs' ds'. xdt_lists s' cs' ds' \<and>
              accounted s' (cs' @ ds') = accounted s (cs @ ds) + {#p#})) \<and>
         (xdt_resume now s = Inr s' \<or> CreditTimer_handle now s = Inr s' \<or> xdt_reset now s = Inr s' \<longrightarrow>
            (\<exists>cs' ds'. xdt_lists s' cs' ds' \<and> accounted s' (cs' @ ds') = accounted s (cs @ ds)))"
proof -
  have h: "xdt_holds s (cs @ ds)" using assms by (auto simp: xdt_holds_def)
  show ?thesis
    using xdd.recv_account [OF h, of p now s'] xdd.resume_account [OF h, of now s']
      xdd.reset_account [OF h, of now s'] xdt_expire_account [OF assms, of now s']
    by (auto simp: xdt_holds_def xdt_recv_def xdt_resume_def xdt_reset_def)
qed

text \<open>The arrival of credit 0 at the default port, and the expiry of the timer that sends it.\<close>

theorem xdt_conserves_packets_witness:
  "\<exists>cs ds. xdt_lists waiting_port cs ds \<and> accounted waiting_port (cs @ ds) = {#0#} \<and>
     (\<exists>s' cs' ds'. CreditTimer_handle credit_due waiting_port = Inr s' \<and> xdt_lists s' cs' ds' \<and>
        accounted s' (cs' @ ds') = {#0#})"
proof -
  have a: "accounted waiting_port [0] = {#0#}" by (simp add: accounted_def waiting_port_def default_port_def)
  obtain cs ds where L: "xdt_lists waiting_port cs ds" "accounted waiting_port (cs @ ds) = {#0#}"
    using xdt_conserves_packets [OF default_port_lists, of 0 0 waiting_port] waiting_port_recv
    by (auto simp: accounted_def default_port_def)
  obtain s' where "CreditTimer_handle credit_due waiting_port = Inr s'" using served_port_run by blast
  then show ?thesis using xdt_conserves_packets [OF waiting_port_lists, of 0 credit_due s'] L a by auto
qed

subsection \<open>The packet list\<close>

text \<open>
  (C34) The linked list is a FIFO: putting distinct packets into a new queue and taking them out
  until the queue is empty returns them in the order of arrival.
\<close>

theorem pq_fifo:
  assumes "distinct xs" and "fill (\<lambda>p m q. snd (pq_enque p m q)) xs (m, new_packet_queue) = (m', q')"
  shows "drain (pq_deque m') (length xs) q' = xs \<and> pq_len q' = int (length xs) \<and>
         pq_bytes q' = total_size m' xs"
proof -
  have "pq_rep m' q' xs" using pqf.fill_rep [OF pq_rep_new _ assms(2)] assms(1) by simp
  then show ?thesis
    using pqf.drain_fill [OF pq_rep_new assms] by (simp add: pq_rep_length pq_rep_bytes)
qed

theorem pq_fifo_witness:
  "\<exists>m q. fill (\<lambda>p m q. snd (pq_enque p m q)) [4, 1, 7] (demo_mem, new_packet_queue) = (m, q) \<and>
     drain (pq_deque m) 3 q = [4, 1, 7]"
proof -
  obtain m q where e: "fill (\<lambda>p m q. snd (pq_enque p m q)) [4, 1, 7] (demo_mem, new_packet_queue) = (m, q)"
    by fastforce
  then show ?thesis using pq_fifo [of "[4, 1, 7]" demo_mem m q] by (simp add: numeral_3_eq_3)
qed

text \<open>
  \<open>remove\<close> takes exactly the given packet out of the list, keeps the order of the others and
  returns; it aborts exactly when the packet is not queued. A second queue in the same memory is
  not affected.
\<close>

theorem pq_remove_exact:
  assumes "pq_rep m q xs"
  shows "(p \<in> set xs \<longrightarrow>
           (\<exists>m' q'. pq_remove p m q = Some (Inr (m', q')) \<and> pq_rep m' q' (remove1 p xs) \<and>
             (\<forall>r ys. pq_rep m r ys \<longrightarrow> set ys \<inter> set xs = {} \<longrightarrow> pq_rep m' r ys))) \<and>
         (p \<notin> set xs \<longrightarrow> pq_remove p m q = Some (Inl RemoveTargetNotFound))"
proof -
  have "\<exists>m' q'. pq_remove p m q = Some (Inr (m', q')) \<and> pq_rep m' q' (remove1 p xs)"
    if p: "p \<in> set xs"
  proof -
    obtain us vs where xs: "xs = us @ p # vs" "p \<notin> set us" using split_list_first [OF p] by blast
    then show ?thesis using pq_remove_rep [of m q us p vs] assms by (auto simp: remove1_append)
  qed
  then show ?thesis
    using pq_remove_missing [OF assms] pq_remove_frame [OF assms] by blast
qed

theorem pq_remove_exact_witness:
  "pq_rep demo_mem one_credit [0] \<and> pq_remove 5 demo_mem one_credit = Some (Inl RemoveTargetNotFound) \<and>
   (\<exists>m q. pq_remove 0 demo_mem one_credit = Some (Inr (m, q)) \<and> pq_rep m q [])"
proof -
  have r: "pq_rep demo_mem one_credit [0]" by (simp add: pq_rep_def demo_mem_def)
  show ?thesis using r pq_remove_exact [OF r, of 5] pq_remove_exact [OF r, of 0] by auto
qed

subsection \<open>The drop-tail queue\<close>

definition demo_droptail :: droptail where
  "demo_droptail =
     \<lparr>mem = demo_mem, qlim = 2, blocked = True, unblock_on_resume = True, true_ave = 0,
      total_time = 0, last_change = 0, old_util = 0, util_weight = 8 / 10, util_check_intv = 2 / 10,
      period_begin = 0, cur_util = 0, buf_slot = 0, util_buf = [0, 0, 0, 0, 0], util_records = 5,
      forwarded = [], dropped = [], dt_q = one_credit, drop_front = False, summarystats = False,
      qib = False, mean_pktsize = 500\<rparr>"

lemma demo_droptail_holds: "dt_holds demo_droptail [0]"
  by (simp add: dt_holds_def demo_droptail_def pq_rep_def demo_mem_def)

text \<open>
  (C35) \<open>DropTail::enque\<close> does to the list of queued packets what its specification on lists says.
  With the limit in packets, or in bytes with drops at the tail, a queue strictly below its limit
  stays strictly below it. With the limit in bytes and drops at the front it need not: the queue then
  grows by at most the arriving packet less the one dropped from the front.
\<close>

theorem dt_enque_limit:
  assumes "dt_holds s xs" and "p \<notin> set xs"
    and "abs_dt_enque (dt_overflow s p xs) (drop_front s) p xs = (ys, ds)"
  shows "\<exists>s'. dt_enque now p s = Inr s' \<and> dt_holds s' ys \<and> dropped s' = dropped s @ ds \<and>
           (dt_within s xs \<longrightarrow> \<not> (qib s \<and> drop_front s) \<longrightarrow> dt_within s' ys) \<and>
           ((\<forall>x\<in>set (p # xs). 0 \<le> psize (mem s) x) \<longrightarrow> dt_sizes s' ys \<le> dt_sizes s xs + psize (mem s) p)"
proof -
  obtain m q where e: "dt_enque now p s =
      Inr ((dt_stats now s)\<lparr>mem := m, dropped := dropped s @ ds, dt_q := q\<rparr>)"
    "pq_rep m q ys" "psize m = psize (mem s)" by (rule dt_enque_holds [OF assms])
  let ?s = "(dt_stats now s)\<lparr>mem := m, dropped := dropped s @ ds, dt_q := q\<rparr>"
  have "dt_within ?s ys = dt_within s ys" by (rule dt_within_cong [OF e(3)]) simp_all
  moreover have "dt_sizes ?s ys \<le> dt_sizes s xs + psize (mem s) p" if "\<forall>x\<in>set (p # xs). 0 \<le> psize (mem s) x"
    using abs_dt_enque_size [OF assms(3) that] e(3) by simp
  ultimately show ?thesis using e abs_dt_enque_within [OF _ _ assms(3)]
    by (intro exI [of _ ?s]) (auto simp: dt_holds_def)
qed

theorem dt_enque_limit_witness:
  "\<exists>s'. dt_enque 0 1 demo_droptail = Inr s' \<and> dt_holds s' [0] \<and> dropped s' = [1]"
  using dt_enque_limit [OF demo_droptail_holds, of 1 "[0]" "[1]" 0]
  by (auto simp: abs_dt_enque_def dt_overflow_def demo_droptail_def)

text \<open>
  Dropping from the front with a limit in bytes does not bound the queue: the small packet at
  the head is dropped for a large arrival, and the queue is above its limit afterwards.
\<close>

theorem dt_front_exceeds:
  assumes "dt_holds s (x # xs)" and "p \<notin> set (x # xs)" and "qib s" and "drop_front s"
    and "qlim s * mean_pktsize s < dt_sizes s xs + psize (mem s) p"
    and "0 \<le> psize (mem s) x"
  shows "\<exists>s'. dt_enque now p s = Inr s' \<and> dt_holds s' (xs @ [p]) \<and>
           qlim s' * mean_pktsize s' < pq_bytes (dt_q s')"
proof -
  have "abs_dt_enque (dt_overflow s p (x # xs)) (drop_front s) p (x # xs) = (xs @ [p], [x])"
    using assms(3-6) by (simp add: abs_dt_enque_def dt_overflow_def)
  from dt_enque_holds [OF assms(1,2) this, of now] obtain m q where e: "dt_enque now p s =
      Inr ((dt_stats now s)\<lparr>mem := m, dropped := dropped s @ [x], dt_q := q\<rparr>)"
    "pq_rep m q (xs @ [p])" "psize m = psize (mem s)" by blast
  have "pq_bytes q = dt_sizes s xs + psize (mem s) p" using pq_rep_bytes [OF e(2)] e(3) by simp
  with e assms(5) show ?thesis by (auto simp: dt_holds_def)
qed

theorem dt_front_exceeds_witness:
  "\<exists>s'. dt_enque 0 1 (demo_droptail\<lparr>drop_front := True, qib := True\<rparr>) = Inr s' \<and>
     qlim s' * mean_pktsize s' < pq_bytes (dt_q s')"
proof -
  have "dt_holds (demo_droptail\<lparr>drop_front := True, qib := True\<rparr>) [0]"
    by (simp add: dt_holds_def demo_droptail_def pq_rep_def demo_mem_def)
  from dt_front_exceeds [OF this, of 1 0] show ?thesis by (auto simp: demo_droptail_def)
qed

text \<open>
  (C36) \<open>shrink_queue\<close> returns for a limit that is not negative, within the limit, and drops only from
  the end it is meant to drop from: a prefix of the queue with \<open>drop_front_\<close>, a suffix otherwise.
\<close>

theorem dt_shrink_result:
  assumes "dt_holds s xs" and "0 \<le> qlim s" and "0 \<le> mean_pktsize s"
  shows "\<exists>s' ys ds. shrink_queue s = Inr s' \<and> dt_holds s' ys \<and> \<not> dt_over s' \<and>
           dropped s' = dropped s @ ds \<and> xs = (if drop_front s then ds @ ys else ys @ rev ds)"
  using shrink_loop_result [OF assms] by (fastforce simp: shrink_queue_def)

theorem dt_shrink_result_witness:
  "\<exists>s'. shrink_queue (demo_droptail\<lparr>qlim := 0\<rparr>) = Inr s' \<and> dt_holds s' [] \<and> dropped s' = [0]"
proof -
  have h: "dt_holds (demo_droptail\<lparr>qlim := 0\<rparr>) [0]"
    by (simp add: dt_holds_def demo_droptail_def pq_rep_def demo_mem_def)
  have "\<exists>s' ys ds. shrink_queue (demo_droptail\<lparr>qlim := 0\<rparr>) = Inr s' \<and> dt_holds s' ys \<and> \<not> dt_over s' \<and>
      dropped s' = ds \<and> [0] = ys @ rev ds"
    using dt_shrink_result [OF h] by (simp add: demo_droptail_def)
  then obtain s' ys ds where r: "shrink_queue (demo_droptail\<lparr>qlim := 0\<rparr>) = Inr s'" "dt_holds s' ys"
    "\<not> dt_over s'" "dropped s' = ds" "[0] = ys @ rev ds" by blast
  show ?thesis
  proof (cases ys)
    case Nil
    then show ?thesis using r by (metis append_Nil rev_rev_ident rev_singleton_conv)
  next
    case (Cons y zs)
    then have "dropped s' = []" "ys = [0]" using r(4,5) by auto
    moreover have "dropped s' \<noteq> []"
      using r(1) by (auto simp: shrink_queue_def dt_shrink_loop.simps dt_over_def dt_shrink_round_def
          demo_droptail_def pq_remove_def pq_deque_def demo_mem_def queue_drop_def)
    ultimately show ?thesis by simp
  qed
qed

subsection \<open>Link utilisation\<close>

text \<open>
  The utilisation figures are fractions: from figures in order, and with time not going back,
  marking a change of the link's state keeps the average, the current period's figure and every
  stored record between 0 and 1, and what \<open>peak_utilization\<close> returns is between 0 and 1 and at least
  as large as every record.
\<close>

theorem util_is_fraction:
  assumes "util_ok s" and "last_change s \<le> now"
  shows "util_ok (util_mark now s) \<and> fraction (fst (utilization now s)) \<and>
         fraction (fst (peak_utilization now s)) \<and>
         (0 < util_records s \<longrightarrow>
           (\<forall>x \<in> set (take (nat (util_records (util_mark now s))) (util_buf (util_mark now s))).
              x \<le> fst (peak_utilization now s)))"
proof -
  have ok: "util_ok (util_mark now s)" using assms by (rule util_mark_ok)
  have "fraction (peak_of 0 (take n (util_buf (util_mark now s))))" for n
    using ok by (intro peak_of_bounds) (auto simp: util_ok_def dest: in_set_takeD)
  moreover have "fraction (old_util (util_mark now s))" using ok by (simp add: util_ok_def)
  ultimately show ?thesis using ok peak_of_upper [of 0]
    by (simp add: utilization_def peak_utilization_def Let_def)
qed

theorem util_is_fraction_witness: "util_ok default_port \<and> fraction (fst (peak_utilization 1 default_port))"
proof -
  have ok: "util_ok default_port" by (simp add: util_ok_def default_port_def)
  show ?thesis using ok util_is_fraction [OF ok, of 1] by (simp add: default_port_def)
qed

end
