(* ===== verification/Event_Queue.thy ===== *)
theory Event_Queue
  imports Prelude "HOL-Library.Product_Lexorder"
begin

section \<open>Events and the scheduler (\<open>common/scheduler.h\<close>, \<open>common/scheduler.cc\<close>)\<close>

text \<open>
  The scheduler base class over its virtual queue operations, and the interface \<open>event_queue\<close> that
  the list, heap, splay and calendar schedulers implement: a queue holds events in the order in which they
  are to be dispatched, by time and, for equal times, in the order in which they were scheduled.

  An event object is an address; its \<open>uid_\<close> and \<open>time_\<close> are fields of the scheduler's state. While an
  event is queued its fields do not change, so the queue keeps a copy of them with the address. A
  handler is code called through a virtual method: it is an argument that maps the event, the clock
  and the client's own state to the client's new state and the scheduler calls it makes.
\<close>

record event =
  ev_ptr :: addr
  ev_time :: time
  ev_uid :: int

definition ev_key :: "event \<Rightarrow> real \<times> int" where
  "ev_key e = (ev_time e, ev_uid e)"

record 'q scheduler =
  clock :: time
  halted :: bool
  uid_next :: int
  uid_of :: "addr \<Rightarrow> int"
  time_of :: "addr \<Rightarrow> time"
  equeue :: 'q

abbreviation ev_of :: "addr \<Rightarrow> 'q scheduler \<Rightarrow> event" where
  "ev_of p s \<equiv> \<lparr>ev_ptr = p, ev_time = time_of s p, ev_uid = uid_of s p\<rparr>"

text \<open>\<open>Scheduler::Scheduler\<close>, with the initial value of the static \<open>uid_\<close>.\<close>

definition new_scheduler :: "'q \<Rightarrow> 'q scheduler" where
  "new_scheduler q = \<lparr>clock = 0, halted = False, uid_next = 1, uid_of = (\<lambda>_. 0),
     time_of = (\<lambda>_. 0), equeue = q\<rparr>"

text \<open>
  \<open>schedule(h, e, delay)\<close>; \<open>h\<close> only matters for being null, and a negative delay only prints a
  warning.
\<close>

definition sched_schedule ::
  "(event \<Rightarrow> 'q \<Rightarrow> 'q res) \<Rightarrow> bool \<Rightarrow> addr \<Rightarrow> time \<Rightarrow> 'q scheduler \<Rightarrow> 'q scheduler res" where
  "sched_schedule ins h_null e delay s =
     (if h_null then Inl NullHandler
      else if 0 < uid_of s e then Inl EventUidNotValid
      else if uid_next s < 0 then Inl UidSpaceExhausted
      else
        (let s = s\<lparr>uid_next := uid_next s + 1, uid_of := (uid_of s)(e := uid_next s),
                   time_of := (time_of s)(e := clock s + delay)\<rparr>
         in res_bind (ins (ev_of e s) (equeue s)) (\<lambda>q. Inr (s\<lparr>equeue := q\<rparr>))))"

definition sched_cancel ::
  "(event \<Rightarrow> 'q \<Rightarrow> (event \<times> 'q) res) \<Rightarrow> addr \<Rightarrow> 'q scheduler \<Rightarrow> 'q scheduler res" where
  "sched_cancel can e s =
     res_bind (can (ev_of e s) (equeue s))
       (\<lambda>(e', q). Inr (s\<lparr>uid_of := (uid_of s)(e := ev_uid e'), equeue := q\<rparr>))"

definition sched_reset :: "'q scheduler \<Rightarrow> 'q scheduler" where
  "sched_reset s = s\<lparr>clock := 0\<rparr>"

text \<open>The calls a handler makes.\<close>

datatype sched_call = Schedule addr time | Cancel addr | Halt

fun do_call ::
  "(event \<Rightarrow> 'q \<Rightarrow> 'q res) \<Rightarrow> (event \<Rightarrow> 'q \<Rightarrow> (event \<times> 'q) res) \<Rightarrow> sched_call \<Rightarrow>
   'q scheduler \<Rightarrow> 'q scheduler res" where
  "do_call ins can (Schedule e delay) s = sched_schedule ins False e delay s"
| "do_call ins can (Cancel e) s = sched_cancel can e s"
| "do_call ins can Halt s = Inr (s\<lparr>halted := True\<rparr>)"

fun do_calls ::
  "(event \<Rightarrow> 'q \<Rightarrow> 'q res) \<Rightarrow> (event \<Rightarrow> 'q \<Rightarrow> (event \<times> 'q) res) \<Rightarrow> sched_call list \<Rightarrow>
   'q scheduler \<Rightarrow> 'q scheduler res" where
  "do_calls ins can [] s = Inr s"
| "do_calls ins can (c # cs) s = res_bind (do_call ins can c s) (do_calls ins can cs)"

definition dispatch ::
  "(event \<Rightarrow> 'q \<Rightarrow> 'q res) \<Rightarrow> (event \<Rightarrow> 'q \<Rightarrow> (event \<times> 'q) res) \<Rightarrow>
   (event \<Rightarrow> time \<Rightarrow> 'w \<Rightarrow> 'w \<times> sched_call list) \<Rightarrow> event \<Rightarrow> time \<Rightarrow>
   'w \<times> 'q scheduler \<Rightarrow> ('w \<times> 'q scheduler) res" where
  "dispatch ins can handle p t ws =
     (let (w, s) = ws
      in if t < clock s then Inl ClockBackwards
         else (let s = s\<lparr>clock := t, uid_of := (uid_of s)(ev_ptr p := - uid_of s (ev_ptr p))\<rparr>;
                   (w, calls) = handle p t w
               in res_bind (do_calls ins can calls s) (\<lambda>s. Inr (w, s))))"

text \<open>
  One round of the loop of \<open>run\<close>: \<open>None\<close> when the loop ends, else the event that was taken off and
  the state after dispatching it.
\<close>

definition run_round ::
  "(event \<Rightarrow> 'q \<Rightarrow> 'q res) \<Rightarrow> ('q \<Rightarrow> (event option \<times> 'q) res) \<Rightarrow> (event \<Rightarrow> 'q \<Rightarrow> (event \<times> 'q) res) \<Rightarrow>
   (event \<Rightarrow> time \<Rightarrow> 'w \<Rightarrow> 'w \<times> sched_call list) \<Rightarrow>
   'w \<times> 'q scheduler \<Rightarrow> (event \<times> 'w \<times> 'q scheduler) option res" where
  "run_round ins deq can handle ws =
     (let (w, s) = ws
      in if halted s then Inr None
         else res_bind (deq (equeue s)) (\<lambda>(p, q).
           (case p of
              None \<Rightarrow> Inr None
            | Some p \<Rightarrow> res_bind (dispatch ins can handle p (ev_time p) (w, s\<lparr>equeue := q\<rparr>))
                (\<lambda>ws. Inr (Some (p, ws))))))"

text \<open>\<open>Scheduler::run\<close>: it returns when the queue is empty or the simulator is halted.\<close>

partial_function (option) sched_run ::
  "(event \<Rightarrow> 'q \<Rightarrow> 'q res) \<Rightarrow> ('q \<Rightarrow> (event option \<times> 'q) res) \<Rightarrow> (event \<Rightarrow> 'q \<Rightarrow> (event \<times> 'q) res) \<Rightarrow>
   (event \<Rightarrow> time \<Rightarrow> 'w \<Rightarrow> 'w \<times> sched_call list) \<Rightarrow>
   'w \<times> 'q scheduler \<Rightarrow> ('w \<times> 'q scheduler) res option" where
  "sched_run ins deq can handle ws =
     (case run_round ins deq can handle ws of
        Inl e \<Rightarrow> Some (Inl e)
      | Inr None \<Rightarrow> Some (Inr ws)
      | Inr (Some (p, ws)) \<Rightarrow> sched_run ins deq can handle ws)"

text \<open>The events the first \<open>n\<close> rounds dispatch, in order, and where they lead.\<close>

fun dispatched ::
  "(event \<Rightarrow> 'q \<Rightarrow> 'q res) \<Rightarrow> ('q \<Rightarrow> (event option \<times> 'q) res) \<Rightarrow> (event \<Rightarrow> 'q \<Rightarrow> (event \<times> 'q) res) \<Rightarrow>
   (event \<Rightarrow> time \<Rightarrow> 'w \<Rightarrow> 'w \<times> sched_call list) \<Rightarrow> nat \<Rightarrow>
   'w \<times> 'q scheduler \<Rightarrow> (event list \<times> 'w \<times> 'q scheduler) res" where
  "dispatched ins deq can handle 0 ws = Inr ([], ws)"
| "dispatched ins deq can handle (Suc n) ws =
     res_bind (run_round ins deq can handle ws) (\<lambda>r.
       (case r of
          None \<Rightarrow> Inr ([], ws)
        | Some (p, ws) \<Rightarrow>
            res_bind (dispatched ins deq can handle n ws) (\<lambda>(ps, ws). Inr (p # ps, ws))))"

text \<open>\<open>Scheduler::dumpq\<close>: removes and prints what is left; the model returns what it prints.\<close>

partial_function (option) sched_dumpq ::
  "('q \<Rightarrow> (event option \<times> 'q) res) \<Rightarrow> 'q \<Rightarrow> event list \<Rightarrow> (event list \<times> 'q) res option"
where
  "sched_dumpq deq q out =
     (case deq q of
        Inl e \<Rightarrow> Some (Inl e)
      | Inr (None, q) \<Rightarrow> Some (Inr (out, q))
      | Inr (Some p, q) \<Rightarrow> sched_dumpq deq q (out @ [p]))"

text \<open>Queue operations that cannot fail, where the scheduler allows for ones that can.\<close>

abbreviation sure_ins :: "(event \<Rightarrow> 'q \<Rightarrow> 'q) \<Rightarrow> event \<Rightarrow> 'q \<Rightarrow> 'q res" where
  "sure_ins f \<equiv> (\<lambda>e q. Inr (f e q))"

abbreviation sure_deq :: "('q \<Rightarrow> event option \<times> 'q) \<Rightarrow> 'q \<Rightarrow> (event option \<times> 'q) res" where
  "sure_deq f \<equiv> (\<lambda>q. Inr (f q))"

subsection \<open>The order of events\<close>

abbreviation ev_sorted :: "event list \<Rightarrow> bool" where
  "ev_sorted xs \<equiv> sorted_wrt (\<lambda>a b. ev_key a < ev_key b) xs"

definition abs_insert :: "event \<Rightarrow> event list \<Rightarrow> event list" where
  "abs_insert e xs =
     takeWhile (\<lambda>x. ev_time x \<le> ev_time e) xs @ e # dropWhile (\<lambda>x. ev_time x \<le> ev_time e) xs"

lemma ev_key_less: "ev_key a < ev_key b \<longleftrightarrow>
    ev_time a < ev_time b \<or> (ev_time a = ev_time b \<and> ev_uid a < ev_uid b)"
  by (auto simp: ev_key_def less_prod_def)

lemma set_abs_insert [simp]: "set (abs_insert e xs) = insert e (set xs)"
proof -
  have "set xs = set (takeWhile (\<lambda>x. ev_time x \<le> ev_time e) xs) \<union>
      set (dropWhile (\<lambda>x. ev_time x \<le> ev_time e) xs)"
    by (metis set_append takeWhile_dropWhile_id)
  then show ?thesis by (auto simp: abs_insert_def)
qed

lemma abs_insert_split:
  assumes "\<forall>x \<in> set xs. ev_time x \<le> ev_time e" and "\<forall>y \<in> set ys. ev_time e < ev_time y"
  shows "abs_insert e (xs @ ys) = xs @ e # ys"
proof -
  have "takeWhile (\<lambda>x. ev_time x \<le> ev_time e) (xs @ ys) = xs"
    using assms by (cases ys) (auto simp: takeWhile_tail)
  moreover have "dropWhile (\<lambda>x. ev_time x \<le> ev_time e) (xs @ ys) = ys"
    using assms by (cases ys) (auto simp: dropWhile_append)
  ultimately show ?thesis by (simp add: abs_insert_def)
qed

lemma ev_sorted_drop_times:
  "ev_sorted xs \<Longrightarrow> \<forall>y \<in> set (dropWhile (\<lambda>x. ev_time x \<le> t) xs). t < ev_time y"
  by (induction xs) (auto simp: ev_key_less)

lemma ev_sorted_abs_insert:
  assumes "ev_sorted xs" and "\<forall>x \<in> set xs. ev_uid x < ev_uid e"
  shows "ev_sorted (abs_insert e xs)"
proof -
  let ?P = "\<lambda>x. ev_time x \<le> ev_time e"
  have "ev_sorted (takeWhile ?P xs @ dropWhile ?P xs)"
    using assms(1) by (simp only: takeWhile_dropWhile_id)
  then have "ev_sorted (takeWhile ?P xs)" "ev_sorted (dropWhile ?P xs)"
    "\<forall>x \<in> set (takeWhile ?P xs). \<forall>y \<in> set (dropWhile ?P xs). ev_key x < ev_key y"
    unfolding sorted_wrt_append by blast+
  moreover have "\<forall>x \<in> set (takeWhile ?P xs). ev_key x < ev_key e"
    using assms(2) by (fastforce simp: ev_key_less dest: set_takeWhileD)
  moreover have "\<forall>y \<in> set (dropWhile ?P xs). ev_key e < ev_key y"
    using ev_sorted_drop_times [OF assms(1)] by (auto simp: ev_key_less)
  ultimately show ?thesis by (auto simp: abs_insert_def sorted_wrt_append)
qed

lemma ev_sorted_distinct: "ev_sorted xs \<Longrightarrow> distinct xs"
  by (induction xs) auto

lemma ev_sorted_remove1: "ev_sorted xs \<Longrightarrow> ev_sorted (remove1 e xs)"
  by (induction xs) (auto dest: notin_set_remove1 [rotated] set_remove1_subset [THEN subsetD])

lemma ev_sorted_unique:
  assumes "ev_sorted xs" "ev_sorted ys" "set xs = set ys"
  shows "xs = ys"
proof -
  have "sorted_wrt (<) (map ev_key xs)" "sorted_wrt (<) (map ev_key ys)"
    using assms(1,2) by (simp_all add: sorted_wrt_map)
  then have "map ev_key xs = map ev_key ys"
    using assms(3) by (intro strict_sorted_equal) simp_all
  moreover have "inj_on ev_key (set xs \<union> set ys)"
  proof -
    have "distinct (map ev_key xs)" using \<open>sorted_wrt (<) (map ev_key xs)\<close> strict_sorted_iff by blast
    then show ?thesis using assms(3) by (simp add: distinct_map)
  qed
  ultimately show ?thesis using map_inj_on by blast
qed

text \<open>A handler that schedules nothing in the past.\<close>

definition forward_calls :: "sched_call list \<Rightarrow> bool" where
  "forward_calls cs \<longleftrightarrow> (\<forall>c \<in> set cs. case c of Schedule e d \<Rightarrow> 0 \<le> d | _ \<Rightarrow> True)"

subsection \<open>Identifiers only grow\<close>

lemma calls_mono: "do_calls ins can cs s = Inr s' \<Longrightarrow> uid_next s \<le> uid_next s'"
proof (induction cs arbitrary: s)
  case (Cons c cs)
  then obtain s1 where "do_call ins can c s = Inr s1" "do_calls ins can cs s1 = Inr s'" by auto
  moreover have "uid_next s \<le> uid_next s1"
    using calculation(1) by (cases c)
      (auto simp: sched_schedule_def sched_cancel_def Let_def split: if_splits)
  ultimately show ?case using Cons.IH by fastforce
qed simp

lemma round_mono:
  assumes "run_round ins deq can handle (w, s) = Inr (Some (p, w', s'))"
  shows "uid_next s \<le> uid_next s'"
proof -
  obtain q where "dispatch ins can handle p (ev_time p) (w, s\<lparr>equeue := q\<rparr>) = Inr (w', s')"
    using assms by (auto simp: run_round_def split: if_splits prod.splits option.splits)
  then show ?thesis
    by (auto simp: dispatch_def Let_def dest!: calls_mono split: if_splits prod.splits)
qed

lemma dispatched_mono:
  "dispatched ins deq can handle n (w, s) = Inr (ps, w', s') \<Longrightarrow> uid_next s \<le> uid_next s'"
proof (induction n arbitrary: w s ps)
  case (Suc n)
  then obtain r where r: "run_round ins deq can handle (w, s) = Inr r" by auto
  show ?case
  proof (cases r)
    case None
    then show ?thesis using Suc.prems r by auto
  next
    case (Some a)
    then obtain p w1 s1 qs where "run_round ins deq can handle (w, s) = Inr (Some (p, w1, s1))"
      "dispatched ins deq can handle n (w1, s1) = Inr (qs, w', s')"
      using Suc.prems r by (cases a) auto
    then show ?thesis using round_mono Suc.IH by (meson order_trans)
  qed
qed simp

subsection \<open>The interface of the event queues\<close>

text \<open>
  \<open>qinv u q\<close>: the queue is well formed and holds events with identifiers below \<open>u\<close>; \<open>qlist\<close> is its
  contents in dispatch order. \<open>fits u\<close> says that the queue can still take an event with identifier
  \<open>u\<close>: the heap's counter does not wrap, or the calendar's number of buckets stays an \<open>int\<close>. Events
  are at or after the start of the simulation, time zero.
\<close>

locale event_queue =
  fixes qinv :: "int \<Rightarrow> 'q \<Rightarrow> bool"
    and qlist :: "'q \<Rightarrow> event list"
    and fits :: "int \<Rightarrow> bool"
    and ins :: "event \<Rightarrow> 'q \<Rightarrow> 'q res"
    and deq :: "'q \<Rightarrow> (event option \<times> 'q) res"
    and can :: "event \<Rightarrow> 'q \<Rightarrow> (event \<times> 'q) res"
    and look :: "int \<Rightarrow> 'q \<Rightarrow> event option"
  assumes qinv_sorted: "qinv u q \<Longrightarrow> ev_sorted (qlist q)"
    and qinv_uid: "qinv u q \<Longrightarrow> x \<in> set (qlist q) \<Longrightarrow> ev_uid x < u"
    and ins_law: "qinv u q \<Longrightarrow> fits u \<Longrightarrow> 0 \<le> ev_time e \<Longrightarrow> ev_uid e = u \<Longrightarrow>
          ev_ptr e \<notin> ev_ptr ` set (qlist q) \<Longrightarrow>
          \<exists>q'. ins e q = Inr q' \<and> qinv (u + 1) q' \<and> qlist q' = abs_insert e (qlist q)"
    and deq_nil: "qinv u q \<Longrightarrow> qlist q = [] \<Longrightarrow> deq q = Inr (None, q)"
    and deq_cons: "qinv u q \<Longrightarrow> qlist q = x # xs \<Longrightarrow>
          \<exists>q'. deq q = Inr (Some x, q') \<and> qinv u q' \<and> qlist q' = xs"
    and can_idle: "ev_uid e \<le> 0 \<Longrightarrow> can e q = Inr (e, q)"
    and can_law: "qinv u q \<Longrightarrow> e \<in> set (qlist q) \<Longrightarrow> 0 < ev_uid e \<Longrightarrow>
          \<exists>q'. can e q = Inr (e\<lparr>ev_uid := - ev_uid e\<rparr>, q') \<and> qinv u q' \<and>
               qlist q' = remove1 e (qlist q)"
    and look_law: "qinv u q \<Longrightarrow>
          (case look i q of None \<Rightarrow> \<forall>x \<in> set (qlist q). ev_uid x \<noteq> i
           | Some x \<Rightarrow> x \<in> set (qlist q) \<and> ev_uid x = i)"
begin

text \<open>
  The scheduler's invariant: the queued events are exactly the objects with a positive \<open>uid_\<close>, with
  the fields they were queued with, and none of them is due before the clock.
\<close>

definition sched_ok :: "'q scheduler \<Rightarrow> bool" where
  "sched_ok s \<longleftrightarrow>
     qinv (uid_next s) (equeue s) \<and> 0 < uid_next s \<and> 0 \<le> clock s \<and>
     (\<forall>x \<in> set (qlist (equeue s)). clock s \<le> ev_time x \<and> 0 < ev_uid x \<and> x = ev_of (ev_ptr x) s) \<and>
     (\<forall>p. 0 < uid_of s p \<longrightarrow> ev_of p s \<in> set (qlist (equeue s)))"

text \<open>Every queued event comes after key \<open>k\<close>, and so will every event scheduled from now on.\<close>

definition past :: "real \<times> int \<Rightarrow> 'q scheduler \<Rightarrow> bool" where
  "past k s \<longleftrightarrow> (\<forall>x \<in> set (qlist (equeue s)). k < ev_key x) \<and> fst k \<le> clock s \<and> snd k < uid_next s"

lemma new_scheduler_ok:
  assumes "qinv 1 q" and "qlist q = []"
  shows "sched_ok (new_scheduler q)"
  using assms by (simp add: sched_ok_def new_scheduler_def)

lemma schedule_ok:
  assumes ok: "sched_ok s" and fit: "fits (uid_next s)" and d: "0 \<le> d" and free: "\<not> 0 < uid_of s e"
  shows "\<exists>s'. sched_schedule ins False e d s = Inr s' \<and> sched_ok s' \<and> uid_next s' = uid_next s + 1 \<and>
    clock s' = clock s \<and> halted s' = halted s \<and> uid_of s' = (uid_of s)(e := uid_next s) \<and>
    time_of s' = (time_of s)(e := clock s + d) \<and>
    qlist (equeue s') = abs_insert (ev_of e s') (qlist (equeue s)) \<and> (\<forall>k. past k s \<longrightarrow> past k s')"
proof -
  have q: "qinv (uid_next s) (equeue s)" using ok by (simp add: sched_ok_def)
  define s1 where "s1 = s\<lparr>uid_next := uid_next s + 1, uid_of := (uid_of s)(e := uid_next s),
      time_of := (time_of s)(e := clock s + d)\<rparr>"
  have other: "ev_ptr x \<noteq> e" if "x \<in> set (qlist (equeue s))" for x
    using ok free that unfolding sched_ok_def by (metis event.select_convs(3))
  have pos: "0 \<le> ev_time (ev_of e s1)" "ev_uid (ev_of e s1) = uid_next s"
    "ev_ptr (ev_of e s1) \<notin> ev_ptr ` set (qlist (equeue s))"
    using ok d other by (auto simp: s1_def sched_ok_def)
  obtain q' where I: "ins (ev_of e s1) (equeue s) = Inr q'" "qinv (uid_next s + 1) q'"
    "qlist q' = abs_insert (ev_of e s1) (qlist (equeue s))"
    using ins_law [OF q fit pos] by blast
  let ?s = "s1\<lparr>equeue := q'\<rparr>"
  have "sched_ok ?s"
    using ok I(2,3) other d by (fastforce simp: sched_ok_def s1_def)
  moreover have "past k s \<longrightarrow> past k ?s" for k
    using I(3) d by (auto simp: past_def s1_def ev_key_def less_prod_def)
  moreover have "sched_schedule ins False e d s = Inr ?s"
  proof -
    have n: "\<not> uid_next s < 0" using ok by (simp add: sched_ok_def)
    have q1: "equeue s = equeue s1" by (simp add: s1_def)
    show ?thesis
      unfolding sched_schedule_def Let_def s1_def [symmetric]
      using free n I(1) q1 by simp
  qed
  ultimately show ?thesis using I(3) by (intro exI [of _ ?s]) (simp add: s1_def)
qed

lemma cancel_ok:
  assumes ok: "sched_ok s"
  shows "\<exists>s'. sched_cancel can e s = Inr s' \<and> sched_ok s' \<and> uid_next s' = uid_next s \<and>
    clock s' = clock s \<and> halted s' = halted s \<and> \<not> 0 < uid_of s' e \<and> (\<forall>k. past k s \<longrightarrow> past k s')"
proof (cases "0 < uid_of s e")
  case False
  then have "sched_cancel can e s = Inr s"
    using can_idle [of "ev_of e s" "equeue s"] by (simp add: sched_cancel_def)
  then show ?thesis using ok False by auto
next
  case True
  have q: "qinv (uid_next s) (equeue s)" and m: "ev_of e s \<in> set (qlist (equeue s))"
    using ok True by (simp_all add: sched_ok_def)
  obtain q' where c: "can (ev_of e s) (equeue s) = Inr (ev_of e s\<lparr>ev_uid := - uid_of s e\<rparr>, q')"
    "qinv (uid_next s) q'" "qlist q' = remove1 (ev_of e s) (qlist (equeue s))"
    using can_law [OF q m] True by auto
  let ?s = "s\<lparr>uid_of := (uid_of s)(e := - uid_of s e), equeue := q'\<rparr>"
  have set: "set (qlist q') = set (qlist (equeue s)) - {ev_of e s}"
    unfolding c(3) using ev_sorted_distinct [OF qinv_sorted [OF q]] by (simp add: set_remove1_eq)
  have other: "ev_ptr x \<noteq> e" if "x \<in> set (qlist q')" for x
    using ok that set unfolding sched_ok_def by (metis Diff_iff singletonI)
  have "sched_ok ?s"
    using ok c(2) True other set by (fastforce simp: sched_ok_def)
  moreover have "sched_cancel can e s = Inr ?s" using c(1) by (simp add: sched_cancel_def)
  moreover have "past k s \<longrightarrow> past k ?s" for k using set by (auto simp: past_def)
  ultimately show ?thesis using True by (intro exI [of _ ?s]) auto
qed

lemma call_ok:
  assumes "sched_ok s" and "do_call ins can c s = Inr s'" and "\<forall>u < uid_next s'. fits u"
    and "case c of Schedule e d \<Rightarrow> 0 \<le> d | _ \<Rightarrow> True"
  shows "sched_ok s' \<and> uid_next s \<le> uid_next s' \<and> clock s' = clock s \<and> (past k s \<longrightarrow> past k s')"
proof (cases c)
  case (Schedule e d)
  then have n: "uid_next s' = uid_next s + 1" and free: "\<not> 0 < uid_of s e"
    using assms(2) by (auto simp: sched_schedule_def Let_def split: if_splits)
  have fit: "fits (uid_next s)" "0 \<le> d" using assms(3,4) n Schedule by auto
  obtain s1 where "sched_schedule ins False e d s = Inr s1" "sched_ok s1" "uid_next s1 = uid_next s + 1"
    "clock s1 = clock s" "\<forall>k. past k s \<longrightarrow> past k s1"
    using schedule_ok [OF assms(1) fit free] by blast
  then show ?thesis using assms(2) Schedule by (simp del: split_paired_All)
next
  case (Cancel e)
  obtain s1 where "sched_cancel can e s = Inr s1" "sched_ok s1" "uid_next s1 = uid_next s"
    "clock s1 = clock s" "\<forall>k. past k s \<longrightarrow> past k s1"
    using cancel_ok [OF assms(1)] by blast
  then show ?thesis using assms(2) Cancel by (simp del: split_paired_All)
next
  case Halt
  then show ?thesis using assms by (auto simp: sched_ok_def past_def)
qed

lemma calls_ok:
  assumes "sched_ok s" and "do_calls ins can cs s = Inr s'" and "\<forall>u < uid_next s'. fits u"
    and "forward_calls cs"
  shows "sched_ok s' \<and> clock s' = clock s \<and> (past k s \<longrightarrow> past k s')"
  using assms
proof (induction cs arbitrary: s)
  case (Cons c cs)
  then obtain s1 where r: "do_call ins can c s = Inr s1" "do_calls ins can cs s1 = Inr s'" by auto
  have fit: "\<forall>u < uid_next s1. fits u" using calls_mono [OF r(2)] Cons.prems(3) by auto
  have "sched_ok s1 \<and> uid_next s \<le> uid_next s1 \<and> clock s1 = clock s \<and> (past k s \<longrightarrow> past k s1)"
    using call_ok [OF Cons.prems(1) r(1) fit] Cons.prems(4) by (simp add: forward_calls_def)
  then show ?case using Cons.IH [OF _ r(2)] Cons.prems by (auto simp: forward_calls_def)
qed simp

text \<open>Scheduling an event that is still queued is the only way for a call to fail.\<close>

lemma call_error:
  assumes "sched_ok s" and "fits (uid_next s)" and "case c of Schedule e d \<Rightarrow> 0 \<le> d | _ \<Rightarrow> True"
    and "do_call ins can c s = Inl err"
  shows "err = EventUidNotValid"
proof (cases c)
  case (Schedule e d)
  then have "0 < uid_of s e" using schedule_ok [OF assms(1,2), of d e] assms(3,4) by fastforce
  then show ?thesis using Schedule assms(4) by (simp add: sched_schedule_def)
next
  case (Cancel e)
  then show ?thesis using cancel_ok [OF assms(1), of e] assms(4) by auto
next
  case Halt
  then show ?thesis using assms(4) by simp
qed

lemma calls_error:
  assumes "\<forall>u. fits u" and "sched_ok s" and "forward_calls cs" and "do_calls ins can cs s = Inl err"
  shows "err = EventUidNotValid"
  using assms(2-)
proof (induction cs arbitrary: s)
  case (Cons c cs)
  show ?case
  proof (cases "do_call ins can c s")
    case (Inl e)
    then show ?thesis
      using call_error [OF Cons.prems(1) _ _ Inl] assms(1) Cons.prems by (simp add: forward_calls_def)
  next
    case (Inr s1)
    have "sched_ok s1"
      using call_ok [OF Cons.prems(1) Inr] assms(1) Cons.prems(2) by (simp add: forward_calls_def)
    then show ?thesis using Cons.IH [of s1] Cons.prems Inr by (simp add: forward_calls_def)
  qed
qed simp

text \<open>One round dispatches the earliest event, at or after the clock.\<close>

lemma taken_ok:
  assumes ok: "sched_ok s" and d: "deq (equeue s) = Inr (Some p, q)"
  shows "p \<in> set (qlist (equeue s)) \<and> clock s \<le> ev_time p \<and>
    sched_ok (s\<lparr>clock := ev_time p, uid_of := (uid_of s)(ev_ptr p := - uid_of s (ev_ptr p)), equeue := q\<rparr>) \<and>
    past (ev_key p) (s\<lparr>clock := ev_time p, uid_of := (uid_of s)(ev_ptr p := - uid_of s (ev_ptr p)), equeue := q\<rparr>)"
proof -
  have qi: "qinv (uid_next s) (equeue s)" using ok by (simp add: sched_ok_def)
  obtain x xs where L: "qlist (equeue s) = x # xs"
    using deq_nil [OF qi] d by (cases "qlist (equeue s)") auto
  obtain q' where "deq (equeue s) = Inr (Some x, q')" "qinv (uid_next s) q'" "qlist q' = xs"
    using deq_cons [OF qi L] by blast
  then have P: "p = x" "qinv (uid_next s) q" "qlist q = xs" using d by auto
  have srt: "\<forall>y \<in> set xs. ev_key p < ev_key y" and "distinct (x # xs)"
    using qinv_sorted [OF qi] ev_sorted_distinct [OF qinv_sorted [OF qi]] L P by auto
  have fields: "\<forall>y \<in> set (x # xs). clock s \<le> ev_time y \<and> 0 < ev_uid y \<and> y = ev_of (ev_ptr y) s"
    using ok L by (simp add: sched_ok_def)
  have other: "ev_ptr y \<noteq> ev_ptr p" if "y \<in> set xs" for y
    using fields that P(1) \<open>distinct (x # xs)\<close> by (metis distinct.simps(2) list.set_intros)
  have later: "\<forall>y \<in> set xs. ev_time p \<le> ev_time y" using srt by (auto simp: ev_key_less)
  have u: "0 < uid_of s (ev_ptr p)" using fields P(1) by (metis event.select_convs(3) list.set_intros(1))
  have mem: "0 < uid_of s r \<longrightarrow> ev_of r s \<in> set (x # xs)" for r
    using ok L by (simp add: sched_ok_def)
  have px: "p = ev_of (ev_ptr p) s" using fields P(1) by simp
  have "ev_uid p < uid_next s" using qinv_uid [OF qi] L P(1) by simp
  then have "past (ev_key p) (s\<lparr>clock := ev_time p,
      uid_of := (uid_of s)(ev_ptr p := - uid_of s (ev_ptr p)), equeue := q\<rparr>)"
    using srt P(3) by (simp add: past_def ev_key_def)
  moreover have "sched_ok (s\<lparr>clock := ev_time p,
      uid_of := (uid_of s)(ev_ptr p := - uid_of s (ev_ptr p)), equeue := q\<rparr>)"
  proof -
    have "ev_of r s \<in> set xs" if "0 < uid_of s r" "r \<noteq> ev_ptr p" for r
      using mem [of r] that P(1) px by (metis event.select_convs(1) set_ConsD)
    moreover have "0 \<le> ev_time p" using ok fields P(1) by (auto simp: sched_ok_def)
    ultimately show ?thesis
      using ok P fields other later u by (fastforce simp: sched_ok_def)
  qed
  ultimately show ?thesis using L P(1) fields by simp
qed

text \<open>What a round that dispatches an event does: it makes the calls of the handler.\<close>

lemma round_Some:
  assumes ok: "sched_ok s" and h: "\<not> halted s" and L: "qlist (equeue s) = p # ps"
  obtains s1 where "sched_ok s1" "past (ev_key p) s1" "clock s1 = ev_time p" "clock s \<le> clock s1"
    "halted s1 = halted s" "uid_next s1 = uid_next s" "qlist (equeue s1) = ps"
    "uid_of s1 = (uid_of s)(ev_ptr p := - uid_of s (ev_ptr p))" "time_of s1 = time_of s"
    "\<And>handle w. run_round ins deq can handle (w, s) =
       res_bind (do_calls ins can (snd (handle p (ev_time p) w)) s1)
         (\<lambda>s. Inr (Some (p, fst (handle p (ev_time p) w), s)))"
proof -
  have qi: "qinv (uid_next s) (equeue s)" using ok by (simp add: sched_ok_def)
  obtain q where d: "deq (equeue s) = Inr (Some p, q)" "qlist q = ps"
    using deq_cons [OF qi L] by blast
  define s1 where "s1 = s\<lparr>clock := ev_time p,
      uid_of := (uid_of s)(ev_ptr p := - uid_of s (ev_ptr p)), equeue := q\<rparr>"
  have s1': "s1 = s\<lparr>equeue := q, clock := ev_time p,
      uid_of := (uid_of s)(ev_ptr p := - uid_of s (ev_ptr p))\<rparr>" by (cases s) (simp add: s1_def)
  have T: "clock s \<le> ev_time p" "sched_ok s1" "past (ev_key p) s1"
    using taken_ok [OF ok d(1)] by (simp_all add: s1_def)
  have R: "run_round ins deq can handle (w, s) =
       res_bind (do_calls ins can (snd (handle p (ev_time p) w)) s1)
         (\<lambda>s. Inr (Some (p, fst (handle p (ev_time p) w), s)))" for handle w
    using h d(1) T(1)
    by (cases "handle p (ev_time p) w") (simp add: run_round_def dispatch_def s1' Let_def res_bind_assoc)
  show thesis
    by (rule that [OF T(2,3)]) (use T(1) d(2) R in \<open>simp_all add: s1_def\<close>)
qed

lemma round_None:
  assumes "sched_ok s" and "halted s \<or> qlist (equeue s) = []"
  shows "run_round ins deq can handle (w, s) = Inr None"
  using assms deq_nil [of "uid_next s" "equeue s"] by (auto simp: run_round_def sched_ok_def)

lemma round_ok:
  assumes ok: "sched_ok s" and fwd: "\<And>p t w. forward_calls (snd (handle p t w))"
    and run: "run_round ins deq can handle (w, s) = Inr (Some (p, w', s'))"
    and fit: "\<forall>u < uid_next s'. fits u"
  shows "sched_ok s' \<and> past (ev_key p) s' \<and> clock s' = ev_time p \<and> clock s \<le> clock s' \<and>
    p \<in> set (qlist (equeue s))"
proof -
  have "run_round ins deq can handle (w, s) \<noteq> Inr None" using run by simp
  then obtain x xs where L: "qlist (equeue s) = x # xs" and h: "\<not> halted s"
    using round_None [OF ok, of handle w] by (meson neq_Nil_conv)
  obtain s1 where s1: "sched_ok s1" "past (ev_key x) s1" "clock s1 = ev_time x" "clock s \<le> clock s1"
    "run_round ins deq can handle (w, s) =
       res_bind (do_calls ins can (snd (handle x (ev_time x) w)) s1)
         (\<lambda>s. Inr (Some (x, fst (handle x (ev_time x) w), s)))"
    using round_Some [OF ok h L] by metis
  have "p = x" "do_calls ins can (snd (handle x (ev_time x) w)) s1 = Inr s'" using run s1(5) by auto
  then show ?thesis using calls_ok [OF s1(1) _ fit fwd] s1(2-4) L by auto
qed

lemma round_error:
  assumes fit: "\<forall>u. fits u" and ok: "sched_ok s" and fwd: "\<And>p t w. forward_calls (snd (handle p t w))"
    and run: "run_round ins deq can handle (w, s) = Inl err"
  shows "err = EventUidNotValid"
proof -
  have "run_round ins deq can handle (w, s) \<noteq> Inr None" using run by simp
  then obtain x xs where L: "qlist (equeue s) = x # xs" and h: "\<not> halted s"
    using round_None [OF ok, of handle w] by (meson neq_Nil_conv)
  obtain s1 where s1: "sched_ok s1"
    "run_round ins deq can handle (w, s) =
       res_bind (do_calls ins can (snd (handle x (ev_time x) w)) s1)
         (\<lambda>s. Inr (Some (x, fst (handle x (ev_time x) w), s)))"
    using round_Some [OF ok h L] by metis
  have "do_calls ins can (snd (handle x (ev_time x) w)) s1 = Inl err"
    using run unfolding s1(2) res_bind_Inl_iff by simp
  then show ?thesis by (rule calls_error [OF fit s1(1) fwd])
qed

text \<open>Dispatched events come in strictly increasing order of time and scheduling.\<close>

lemma dispatched_ok:
  assumes "sched_ok s" and "\<And>p t w. forward_calls (snd (handle p t w))"
    and "dispatched ins deq can handle n (w, s) = Inr (ps, w', s')" and "\<forall>u < uid_next s'. fits u"
  shows "sched_ok s' \<and> ev_sorted ps \<and> (\<forall>p \<in> set ps. clock s \<le> ev_time p) \<and> clock s \<le> clock s' \<and>
    (\<forall>k. past k s \<longrightarrow> (\<forall>p \<in> set ps. k < ev_key p))"
  using assms(1,3)
proof (induction n arbitrary: w s ps)
  case (Suc n)
  then obtain r where r: "run_round ins deq can handle (w, s) = Inr r" by auto
  show ?case
  proof (cases r)
    case None
    then show ?thesis using Suc.prems r by auto
  next
    case (Some a)
    then obtain p w1 s1 qs where R: "run_round ins deq can handle (w, s) = Inr (Some (p, w1, s1))"
      "ps = p # qs" "dispatched ins deq can handle n (w1, s1) = Inr (qs, w', s')"
      using Suc.prems(2) r by (cases a) auto
    have fit: "\<forall>u < uid_next s1. fits u" using dispatched_mono [OF R(3)] assms(4) by auto
    note K = round_ok [OF Suc.prems(1) assms(2) R(1) fit]
    have IH: "sched_ok s' \<and> ev_sorted qs \<and> (\<forall>p \<in> set qs. clock s1 \<le> ev_time p) \<and> clock s1 \<le> clock s' \<and>
      (\<forall>k. past k s1 \<longrightarrow> (\<forall>p \<in> set qs. k < ev_key p))"
      by (rule Suc.IH [OF _ R(3)]) (use K in blast)
    have kp: "past k s \<Longrightarrow> k < ev_key p" for k using K by (auto simp: past_def)
    have after: "\<forall>q \<in> set qs. ev_key p < ev_key q" using IH K by blast
    have "\<forall>k. past k s \<longrightarrow> (\<forall>q \<in> set ps. k < ev_key q)"
      using after kp less_trans unfolding R(2) by (metis set_ConsD)
    moreover have "ev_sorted ps" using after IH unfolding R(2) by simp
    moreover have "\<forall>q \<in> set ps. clock s \<le> ev_time q"
    proof
      fix q assume "q \<in> set ps"
      then show "clock s \<le> ev_time q" using IH K unfolding R(2) by (auto dest: bspec)
    qed
    moreover have "clock s \<le> clock s'" using IH K by linarith
    ultimately show ?thesis using IH by simp
  qed
qed simp

end

end
