(* ===== verification/List_Scheduler.thy ===== *)
theory List_Scheduler
  imports Event_Queue
begin

section \<open>The list scheduler (\<open>common/scheduler.cc\<close>: \<open>ListScheduler\<close>)\<close>

text \<open>
  The event list threaded through \<open>next_\<close>, as a list. The loops over a pointer to the link are
  recursions on the list; \<open>cancel\<close> compares addresses and aborts at the end of the list.
\<close>

fun ls_insert :: "event \<Rightarrow> event list \<Rightarrow> event list" where
  "ls_insert e [] = [e]"
| "ls_insert e (x # xs) = (if ev_time e < ev_time x then e # x # xs else x # ls_insert e xs)"

fun ls_unlink :: "addr \<Rightarrow> event list \<Rightarrow> event list option" where
  "ls_unlink p [] = None"
| "ls_unlink p (x # xs) =
     (if ev_ptr x = p then Some xs else map_option ((#) x) (ls_unlink p xs))"

definition ls_cancel :: "event \<Rightarrow> event list \<Rightarrow> (event \<times> event list) res" where
  "ls_cancel e q =
     (if ev_uid e \<le> 0 then Inr (e, q)
      else (case ls_unlink (ev_ptr e) q of
          None \<Rightarrow> Inl EventNotFound
        | Some q \<Rightarrow> Inr (e\<lparr>ev_uid := - ev_uid e\<rparr>, q)))"

fun ls_lookup :: "int \<Rightarrow> event list \<Rightarrow> event option" where
  "ls_lookup uid [] = None"
| "ls_lookup uid (x # xs) = (if ev_uid x = uid then Some x else ls_lookup uid xs)"

fun ls_deque :: "event list \<Rightarrow> event option \<times> event list" where
  "ls_deque [] = (None, [])"
| "ls_deque (x # xs) = (Some x, xs)"

subsection \<open>The list is an event queue\<close>

definition ls_ok :: "int \<Rightarrow> event list \<Rightarrow> bool" where
  "ls_ok u q \<longleftrightarrow> ev_sorted q \<and> (\<forall>x \<in> set q. ev_uid x < u) \<and> distinct (map ev_ptr q)"

lemma ls_insert_abs: "ls_insert e xs = abs_insert e xs"
  by (induction xs) (auto simp: abs_insert_def)

lemma ls_unlink_remove1:
  "distinct (map ev_ptr xs) \<Longrightarrow> e \<in> set xs \<Longrightarrow> ls_unlink (ev_ptr e) xs = Some (remove1 e xs)"
  by (induction xs) (auto simp: image_iff)

lemma ls_lookup_law:
  "case ls_lookup i q of None \<Rightarrow> \<forall>x \<in> set q. ev_uid x \<noteq> i | Some x \<Rightarrow> x \<in> set q \<and> ev_uid x = i"
  by (induction q) (auto split: option.splits)

lemma distinct_map_remove1: "distinct (map f xs) \<Longrightarrow> distinct (map f (remove1 x xs))"
  by (induction xs) (auto dest: set_remove1_subset [THEN subsetD])

lemma distinct_ptr_abs_insert:
  assumes "distinct (map ev_ptr xs)" and "ev_ptr e \<notin> ev_ptr ` set xs"
  shows "distinct (map ev_ptr (abs_insert e xs))"
proof -
  let ?P = "\<lambda>x. ev_time x \<le> ev_time e"
  have split: "map ev_ptr xs = map ev_ptr (takeWhile ?P xs) @ map ev_ptr (dropWhile ?P xs)"
    by (metis map_append takeWhile_dropWhile_id)
  have "ev_ptr e \<notin> set (map ev_ptr xs)" using assms(2) by simp
  then show ?thesis using assms(1) unfolding split by (auto simp: abs_insert_def)
qed

lemma ls_ok_insert:
  "ls_ok u q \<Longrightarrow> ev_uid e = u \<Longrightarrow> ev_ptr e \<notin> ev_ptr ` set q \<Longrightarrow> ls_ok (u + 1) (abs_insert e q)"
  by (auto simp: ls_ok_def ev_sorted_abs_insert distinct_ptr_abs_insert)

lemma ls_ok_remove1: "ls_ok u q \<Longrightarrow> ls_ok u (remove1 e q)"
  by (auto simp: ls_ok_def ev_sorted_remove1 distinct_map_remove1 dest: set_remove1_subset [THEN subsetD])

interpretation lsq: event_queue ls_ok "\<lambda>q. q" "\<lambda>_. True" "sure_ins ls_insert" "sure_deq ls_deque" ls_cancel
  ls_lookup
proof (unfold_locales, goal_cases)
  case (3 u q e)
  then show ?case using ls_ok_insert [of u q e] by (simp add: ls_insert_abs)
next
  case (7 u q e)
  then show ?case
    using ls_unlink_remove1 [of q e] ls_ok_remove1 [of u q e] by (simp add: ls_cancel_def ls_ok_def)
next
  case (8 u q i)
  show ?case by (rule ls_lookup_law)
qed (auto simp: ls_ok_def ls_cancel_def split: if_splits option.splits)

end
