(* ===== verification/Splay_Scheduler.thy ===== *)
theory Splay_Scheduler
  imports List_Scheduler
begin

section \<open>The splay tree scheduler (\<open>common/splay-scheduler.cc\<close>)\<close>

text \<open>
  \<open>prev_\<close> and \<open>next_\<close> of an event are its left and right subtree. \<open>insert\<close> splits the tree from the top:
  the nodes it passes are linked to the right end of a left tree and to the left end of a right
  tree, which the model keeps as lists of the linked nodes, last first, and puts together at the
  end. \<open>deque\<close> rotates pairs of nodes on its way down the left side; \<open>cancel\<close> finds the node by time
  and identifier and replaces it by its successor.
\<close>

datatype etree = ELeaf | ENode etree event etree

fun inorder :: "etree \<Rightarrow> event list" where
  "inorder ELeaf = []"
| "inorder (ENode a e b) = inorder a @ e # inorder b"

text \<open>\<open>LINK_LEFT\<close> and \<open>LINK_RIGHT\<close>: nodes linked so far, and the trees they make.\<close>

fun join_left :: "(etree \<times> event) list \<Rightarrow> etree \<Rightarrow> etree" where
  "join_left [] t = t"
| "join_left ((a, e) # ls) t = join_left ls (ENode a e t)"

fun join_right :: "(event \<times> etree) list \<Rightarrow> etree \<Rightarrow> etree" where
  "join_right [] t = t"
| "join_right ((e, b) # rs) t = join_right rs (ENode t e b)"

text \<open>The loop of \<open>insert\<close>: the trees of the earlier and of the later events.\<close>

function sp_split ::
  "time \<Rightarrow> etree \<Rightarrow> (etree \<times> event) list \<Rightarrow> (event \<times> etree) list \<Rightarrow> etree \<times> etree" where
  "sp_split tm ELeaf ls rs = (join_left ls ELeaf, join_right rs ELeaf)"
| "sp_split tm (ENode a e b) ls rs =
     (if tm < ev_time e then
        (case a of
           ELeaf \<Rightarrow> (join_left ls ELeaf, join_right rs (ENode a e b))
         | ENode xa x xb \<Rightarrow>
             if tm < ev_time x
             then sp_split tm xa ls ((x, ENode xb e b) # rs)
             else sp_split tm (ENode xa x xb) ls ((e, b) # rs))
      else
        (case b of
           ELeaf \<Rightarrow> (join_left ls (ENode a e b), join_right rs ELeaf)
         | ENode xa x xb \<Rightarrow>
             if ev_time x \<le> tm
             then sp_split tm xb ((ENode a e xa, x) # ls) rs
             else sp_split tm (ENode xa x xb) ((a, e) # ls) rs))"
  by pat_completeness auto

termination
  by (relation "measure (\<lambda>(tm, t, ls, rs). size t)") auto

record splay =
  sp_root :: etree
  sp_qsize :: int

definition sp_insert :: "event \<Rightarrow> splay \<Rightarrow> splay" where
  "sp_insert n s =
     (let s = s\<lparr>sp_qsize := sp_qsize s + 1\<rparr>
      in if sp_root s = ELeaf then s\<lparr>sp_root := ENode ELeaf n ELeaf\<rparr>
         else (case sp_split (ev_time n) (sp_root s) [] [] of
             (l, r) \<Rightarrow> s\<lparr>sp_root := ENode l n r\<rparr>))"

fun sp_leftmost :: "etree \<Rightarrow> event option" where
  "sp_leftmost ELeaf = None"
| "sp_leftmost (ENode ELeaf e b) = Some e"
| "sp_leftmost (ENode a e b) = sp_leftmost a"

definition sp_head :: "splay \<Rightarrow> event option" where
  "sp_head s = sp_leftmost (sp_root s)"

text \<open>
  The loop of \<open>deque\<close> on the left subtree \<open>l\<close> of \<open>t\<close>: the event that is taken off and the new left
  subtree of \<open>t\<close>.
\<close>

fun sp_deque_left :: "etree \<Rightarrow> event option \<times> etree" where
  "sp_deque_left ELeaf = (None, ELeaf)"
| "sp_deque_left (ENode ELeaf l b) = (Some l, b)"
| "sp_deque_left (ENode (ENode ELeaf ll b1) l b) = (Some ll, ENode b1 l b)"
| "sp_deque_left (ENode (ENode lll ll b1) l b) =
     (case sp_deque_left lll of (m, t) \<Rightarrow> (m, ENode t ll (ENode b1 l b)))"

definition sp_deque :: "splay \<Rightarrow> event option \<times> splay" where
  "sp_deque s =
     (case sp_root s of
        ELeaf \<Rightarrow> (None, s)
      | ENode a t b \<Rightarrow>
          (let s = s\<lparr>sp_qsize := sp_qsize s - 1\<rparr>
           in if a = ELeaf then (Some t, s\<lparr>sp_root := b\<rparr>)
              else (case sp_deque_left a of (m, a') \<Rightarrow> (m, s\<lparr>sp_root := ENode a' t b\<rparr>))))"

text \<open>The successor search of \<open>cancel\<close>: the leftmost node of a tree and the tree without it.\<close>

fun sp_take_min :: "etree \<Rightarrow> event \<Rightarrow> etree \<Rightarrow> event \<times> etree" where
  "sp_take_min ELeaf e b = (e, b)"
| "sp_take_min (ENode a x c) e b = (case sp_take_min a x c of (m, t) \<Rightarrow> (m, ENode t e b))"

fun sp_unlink_root :: "etree \<Rightarrow> etree \<Rightarrow> etree" where
  "sp_unlink_root a ELeaf = a"
| "sp_unlink_root ELeaf b = b"
| "sp_unlink_root a (ENode l p r) = (case sp_take_min l p r of (m, t) \<Rightarrow> ENode a m t)"

fun sp_unlink :: "event \<Rightarrow> etree \<Rightarrow> etree option" where
  "sp_unlink e ELeaf = None"
| "sp_unlink e (ENode a x b) =
     (if ev_ptr x = ev_ptr e then Some (sp_unlink_root a b)
      else if ev_time x < ev_time e \<or> (ev_time e = ev_time x \<and> ev_uid x < ev_uid e)
      then map_option (\<lambda>b. ENode a x b) (sp_unlink e b)
      else map_option (\<lambda>a. ENode a x b) (sp_unlink e a))"

definition sp_cancel :: "event \<Rightarrow> splay \<Rightarrow> (event \<times> splay) res" where
  "sp_cancel e s =
     (if ev_uid e \<le> 0 then Inr (e, s)
      else (case sp_unlink e (sp_root s) of
          None \<Rightarrow> Inl EventNotFound
        | Some t \<Rightarrow> Inr (e\<lparr>ev_uid := - ev_uid e\<rparr>, s\<lparr>sp_root := t, sp_qsize := sp_qsize s - 1\<rparr>)))"

fun uid_lookup :: "int \<Rightarrow> etree \<Rightarrow> event option" where
  "uid_lookup uid ELeaf = None"
| "uid_lookup uid (ENode a e b) =
     (if ev_uid e = uid then Some e
      else (case uid_lookup uid a of Some r \<Rightarrow> Some r | None \<Rightarrow> uid_lookup uid b))"

definition sp_lookup :: "int \<Rightarrow> splay \<Rightarrow> event option" where
  "sp_lookup uid s = uid_lookup uid (sp_root s)"

text \<open>\<open>validate\<close>: the size of a tree, or \<open>None\<close> where an assertion fails.\<close>

fun sp_validate :: "etree \<Rightarrow> nat option" where
  "sp_validate ELeaf = Some 0"
| "sp_validate (ENode a e b) =
     (if (case a of ELeaf \<Rightarrow> True | ENode _ x _ \<Rightarrow> ev_time x \<le> ev_time e) \<and>
         (case b of ELeaf \<Rightarrow> True | ENode _ x _ \<Rightarrow> ev_time e \<le> ev_time x)
      then (case (sp_validate a, sp_validate b) of
          (Some i, Some j) \<Rightarrow> Some (1 + i + j) | _ \<Rightarrow> None)
      else None)"

subsection \<open>In-order contents\<close>

fun left_list :: "(etree \<times> event) list \<Rightarrow> event list" where
  "left_list [] = []"
| "left_list ((a, e) # ls) = left_list ls @ inorder a @ [e]"

fun right_list :: "(event \<times> etree) list \<Rightarrow> event list" where
  "right_list [] = []"
| "right_list ((e, b) # rs) = e # inorder b @ right_list rs"

lemma inorder_join_left [simp]: "inorder (join_left ls t) = left_list ls @ inorder t"
  by (induction ls t rule: join_left.induct) auto

lemma inorder_join_right [simp]: "inorder (join_right rs t) = inorder t @ right_list rs"
  by (induction rs t rule: join_right.induct) auto

text \<open>The split keeps the contents in order and separates them at the time of the new event.\<close>

abbreviation by_time :: "event list \<Rightarrow> bool" where
  "by_time xs \<equiv> sorted (map ev_time xs)"

lemma sp_split_cases:
  "tm < ev_time e \<Longrightarrow>
   sp_split tm (ENode ELeaf e b) ls rs = (join_left ls ELeaf, join_right rs (ENode ELeaf e b))"
  "tm < ev_time e \<Longrightarrow> tm < ev_time x \<Longrightarrow>
   sp_split tm (ENode (ENode xa x xb) e b) ls rs = sp_split tm xa ls ((x, ENode xb e b) # rs)"
  "tm < ev_time e \<Longrightarrow> \<not> tm < ev_time x \<Longrightarrow>
   sp_split tm (ENode (ENode xa x xb) e b) ls rs = sp_split tm (ENode xa x xb) ls ((e, b) # rs)"
  "\<not> tm < ev_time e \<Longrightarrow>
   sp_split tm (ENode a e ELeaf) ls rs = (join_left ls (ENode a e ELeaf), join_right rs ELeaf)"
  "\<not> tm < ev_time e \<Longrightarrow> ev_time x \<le> tm \<Longrightarrow>
   sp_split tm (ENode a e (ENode xa x xb)) ls rs = sp_split tm xb ((ENode a e xa, x) # ls) rs"
  "\<not> tm < ev_time e \<Longrightarrow> \<not> ev_time x \<le> tm \<Longrightarrow>
   sp_split tm (ENode a e (ENode xa x xb)) ls rs = sp_split tm (ENode xa x xb) ((a, e) # ls) rs"
  by (subst sp_split.simps(2), simp)+

declare sp_split.simps(2) [simp del]

definition split_ok :: "time \<Rightarrow> etree \<Rightarrow> (etree \<times> event) list \<Rightarrow> (event \<times> etree) list \<Rightarrow> bool" where
  "split_ok tm t ls rs \<longleftrightarrow>
     by_time (inorder t) \<and> (\<forall>x \<in> set (left_list ls). ev_time x \<le> tm) \<and>
     (\<forall>x \<in> set (right_list rs). tm < ev_time x)"

lemma split_ok_node:
  assumes "split_ok tm (ENode a e b) ls rs"
  shows "by_time (inorder a)" "by_time (inorder b)"
    "tm < ev_time e \<Longrightarrow> \<forall>x \<in> set (inorder b). tm < ev_time x"
    "\<not> tm < ev_time e \<Longrightarrow> \<forall>x \<in> set (inorder a). ev_time x \<le> tm"
  using assms by (auto simp: split_ok_def sorted_append)

lemma sp_split_result:
  "sp_split tm t ls rs = (l, r) \<Longrightarrow> split_ok tm t ls rs \<Longrightarrow>
   inorder l @ inorder r = left_list ls @ inorder t @ right_list rs \<and>
   (\<forall>x \<in> set (inorder l). ev_time x \<le> tm) \<and> (\<forall>x \<in> set (inorder r). tm < ev_time x)"
proof (induction "size t" arbitrary: t ls rs rule: less_induct)
  case less
  show ?case
  proof (cases t)
    case ELeaf
    then show ?thesis using less.prems by (auto simp: split_ok_def)
  next
    case (ENode a e b)
    note ok = less.prems(2) [unfolded ENode] and run = less.prems(1) [unfolded ENode]
    note parts = split_ok_node [OF ok]
    show ?thesis
    proof (cases "tm < ev_time e")
      case True
      note late = parts(3) [OF True]
      show ?thesis
      proof (cases a)
        case la: ELeaf
        then show ?thesis
          using run ok late True by (auto simp: sp_split_cases ENode split_ok_def)
      next
        case na: (ENode xa x xb)
        show ?thesis
        proof (cases "tm < ev_time x")
          case x: True
          have "split_ok tm (ENode xa x xb) [] []" using parts(1) by (simp add: split_ok_def na)
          note inner = split_ok_node [OF this]
          have "split_ok tm xa ls ((x, ENode xb e b) # rs)"
            using ok inner(1) inner(3) [OF x] late True x by (auto simp: split_ok_def)
          from less.hyps [OF _ _ this] show ?thesis
            using run True x by (simp add: sp_split_cases ENode na)
        next
          case x: False
          have "split_ok tm a ls ((e, b) # rs)"
            using ok parts(1) late True by (auto simp: split_ok_def)
          from less.hyps [OF _ _ this] show ?thesis
            using run True x by (simp add: sp_split_cases ENode na)
        qed
      qed
    next
      case False
      note early = parts(4) [OF False]
      show ?thesis
      proof (cases b)
        case lb: ELeaf
        then show ?thesis
          using run ok early False by (auto simp: sp_split_cases ENode split_ok_def)
      next
        case nb: (ENode xa x xb)
        show ?thesis
        proof (cases "ev_time x \<le> tm")
          case x: True
          have "split_ok tm (ENode xa x xb) [] []" using parts(2) by (simp add: split_ok_def nb)
          note inner = split_ok_node [OF this]
          have "split_ok tm xb ((ENode a e xa, x) # ls) rs"
            using ok inner(2) inner(4) early False x by (auto simp: split_ok_def)
          from less.hyps [OF _ _ this] show ?thesis
            using run False x by (simp add: sp_split_cases ENode nb)
        next
          case x: False
          have "split_ok tm b ((a, e) # ls) rs"
            using ok parts(2) early False by (auto simp: split_ok_def)
          from less.hyps [OF _ _ this] show ?thesis
            using run False x by (simp add: sp_split_cases ENode nb)
        qed
      qed
    qed
  qed
qed

lemma ev_sorted_by_time: "ev_sorted xs \<Longrightarrow> by_time xs"
  by (induction xs) (auto simp: ev_key_less)

lemma sp_insert_inorder:
  assumes "ev_sorted (inorder (sp_root s))"
  shows "inorder (sp_root (sp_insert e s)) = abs_insert e (inorder (sp_root s))"
proof (cases "sp_root s = ELeaf")
  case True
  then show ?thesis by (simp add: sp_insert_def abs_insert_def)
next
  case False
  obtain l r where S: "sp_split (ev_time e) (sp_root s) [] [] = (l, r)" by fastforce
  have "split_ok (ev_time e) (sp_root s) [] []"
    using ev_sorted_by_time [OF assms] by (simp add: split_ok_def)
  from sp_split_result [OF S this] show ?thesis
    using abs_insert_split [of "inorder l" e "inorder r"] False S by (simp add: sp_insert_def)
qed

lemma sp_deque_left_inorder:
  "t \<noteq> ELeaf \<Longrightarrow> sp_deque_left t = (m, t') \<Longrightarrow> \<exists>x. m = Some x \<and> inorder t = x # inorder t'"
proof (induction t arbitrary: m t' rule: sp_deque_left.induct)
  case (4 a1 x a2 ll b1 l b)
  then show ?case by (auto split: prod.splits)
qed auto

lemma sp_take_min_inorder:
  "sp_take_min a e b = (m, t) \<Longrightarrow> inorder a @ e # inorder b = m # inorder t"
proof (induction a e b arbitrary: m t rule: sp_take_min.induct)
  case (2 a x c e b)
  then show ?case by (auto split: prod.splits)
qed simp

lemma sp_unlink_root_inorder: "inorder (sp_unlink_root a b) = inorder a @ inorder b"
proof (induction a b rule: sp_unlink_root.induct)
  case (3 v va vb l p r)
  then show ?case using sp_take_min_inorder [of l p r] by (auto split: prod.splits)
qed auto

text \<open>\<open>cancel\<close> finds every event of a tree that is in order by time and identifier.\<close>

lemma sp_unlink_inorder:
  "ev_sorted (inorder t) \<Longrightarrow> distinct (map ev_ptr (inorder t)) \<Longrightarrow> e \<in> set (inorder t) \<Longrightarrow>
   \<exists>t'. sp_unlink e t = Some t' \<and> inorder t' = remove1 e (inorder t)"
proof (induction t)
  case (ENode a x b)
  have S: "ev_sorted (inorder a)" "ev_sorted (inorder b)"
    "\<forall>y \<in> set (inorder a). ev_key y < ev_key x" "\<forall>y \<in> set (inorder b). ev_key x < ev_key y"
    using ENode.prems(1) by (auto simp: sorted_wrt_append)
  have D: "distinct (map ev_ptr (inorder a))" "distinct (map ev_ptr (inorder b))"
    using ENode.prems(2) by auto
  consider "e = x" | "e \<in> set (inorder b)" | "e \<in> set (inorder a)" using ENode.prems(3) by auto
  then show ?case
  proof cases
    case 1
    then have "x \<notin> set (inorder a)" using S(3) by auto
    then show ?thesis using 1 by (simp add: sp_unlink_root_inorder remove1_append)
  next
    case 2
    then have "ev_key x < ev_key e" "ev_ptr x \<noteq> ev_ptr e" using S(4) ENode.prems(2) by auto
    moreover have "e \<notin> set (inorder a)" "e \<noteq> x" using calculation S(3) by fastforce+
    ultimately show ?thesis
      using ENode.IH(2) [OF S(2) D(2) 2] by (auto simp: ev_key_less remove1_append)
  next
    case 3
    then have "ev_key e < ev_key x" "ev_ptr x \<noteq> ev_ptr e" using S(3) ENode.prems(2) by auto
    then show ?thesis
      using ENode.IH(1) [OF S(1) D(1) 3] 3 by (auto simp: ev_key_less remove1_append)
  qed
qed simp

lemma uid_lookup_law:
  "case uid_lookup i t of None \<Rightarrow> \<forall>x \<in> set (inorder t). ev_uid x \<noteq> i
   | Some x \<Rightarrow> x \<in> set (inorder t) \<and> ev_uid x = i"
  by (induction t) (auto split: option.splits)

subsection \<open>The tree is an event queue\<close>

definition sp_ok :: "int \<Rightarrow> splay \<Rightarrow> bool" where
  "sp_ok u s \<longleftrightarrow> ls_ok u (inorder (sp_root s)) \<and> sp_qsize s = int (length (inorder (sp_root s)))"

lemma length_abs_insert [simp]: "length (abs_insert e xs) = Suc (length xs)"
  unfolding abs_insert_def by (induction xs) auto

lemma sp_qsize_insert [simp]: "sp_qsize (sp_insert e s) = sp_qsize s + 1"
  by (simp add: sp_insert_def Let_def split: prod.split)

lemma ls_ok_tl: "ls_ok u (x # xs) \<Longrightarrow> ls_ok u xs"
  by (simp add: ls_ok_def)

lemma int_length_remove1: "e \<in> set xs \<Longrightarrow> int (length (remove1 e xs)) = int (length xs) - 1"
  using length_pos_if_in_set [of e xs] by (simp add: length_remove1 of_nat_diff Suc_le_eq del: length_greater_0_conv)

lemma sp_deque_law:
  assumes ok: "sp_ok u s" and L: "inorder (sp_root s) = x # xs"
  shows "\<exists>s'. sp_deque s = (Some x, s') \<and> sp_ok u s' \<and> inorder (sp_root s') = xs"
proof -
  obtain a t b where R: "sp_root s = ENode a t b" using L by (cases "sp_root s") auto
  have xs: "ls_ok u xs" "sp_qsize s - 1 = int (length xs)"
    using ok L ls_ok_tl by (auto simp: sp_ok_def)
  show ?thesis
  proof (cases "a = ELeaf")
    case True
    then show ?thesis using R L xs by (simp add: sp_deque_def sp_ok_def)
  next
    case False
    obtain m a' where d: "sp_deque_left a = (m, a')" by fastforce
    then have "m = Some x" "inorder a' @ t # inorder b = xs"
      using sp_deque_left_inorder [OF False d] L R by auto
    then show ?thesis using R False d xs by (auto simp: sp_deque_def sp_ok_def)
  qed
qed

interpretation spq: event_queue sp_ok "\<lambda>s. inorder (sp_root s)" "\<lambda>_. True" "sure_ins sp_insert"
  "sure_deq sp_deque"
  sp_cancel sp_lookup
proof (unfold_locales, goal_cases)
  case (3 u q e)
  then show ?case
    using sp_insert_inorder [of q e] ls_ok_insert [of u "inorder (sp_root q)" e]
    by (simp add: sp_ok_def ls_ok_def)
next
  case (4 u q)
  then show ?case by (cases "sp_root q") (auto simp: sp_deque_def)
next
  case (5 u q x xs)
  then show ?case using sp_deque_law [of u q x xs] by simp
next
  case (7 u q e)
  then obtain t where "sp_unlink e (sp_root q) = Some t" "inorder t = remove1 e (inorder (sp_root q))"
    using sp_unlink_inorder [of "sp_root q" e] by (auto simp: sp_ok_def ls_ok_def)
  moreover have "ls_ok u (remove1 e (inorder (sp_root q)))" using 7 ls_ok_remove1 by (auto simp: sp_ok_def)
  moreover have "int (length (remove1 e (inorder (sp_root q)))) = sp_qsize q - 1"
    using 7 by (simp add: sp_ok_def int_length_remove1)
  ultimately show ?case using 7 by (simp add: sp_cancel_def sp_ok_def)
next
  case (8 u q i)
  show ?case unfolding sp_lookup_def by (rule uid_lookup_law)
qed (auto simp: sp_ok_def ls_ok_def sp_cancel_def split: if_splits option.splits)

text \<open>\<open>head\<close> is the event that \<open>deque\<close> takes off.\<close>

lemma sp_leftmost_inorder: "sp_leftmost t = (case inorder t of [] \<Rightarrow> None | x # _ \<Rightarrow> Some x)"
proof (induction t rule: sp_leftmost.induct)
  case (3 a x c e b)
  then show ?case by (cases "inorder a") simp_all
qed simp_all

text \<open>On a tree in order by time the debugging check succeeds and counts the events.\<close>

lemma sp_validate_ok: "by_time (inorder t) \<Longrightarrow> sp_validate t = Some (length (inorder t))"
proof (induction t)
  case (ENode a e b)
  have "by_time (inorder a)" "by_time (inorder b)" "\<forall>x \<in> set (inorder a). ev_time x \<le> ev_time e"
    "\<forall>x \<in> set (inorder b). ev_time e \<le> ev_time x"
    using ENode.prems by (auto simp: sorted_append)
  moreover from this have "case a of ELeaf \<Rightarrow> True | ENode _ x _ \<Rightarrow> ev_time x \<le> ev_time e"
    "case b of ELeaf \<Rightarrow> True | ENode _ x _ \<Rightarrow> ev_time e \<le> ev_time x"
    by (auto split: etree.split)
  ultimately show ?case using ENode.IH by simp
qed simp

end
