(* ===== verification/Heap_Array.thy ===== *)
theory Heap_Array
  imports Prelude "HOL-Library.Product_Lexorder"
begin

section \<open>The array heap (\<open>common/heap.h\<close>, \<open>common/scheduler.cc\<close>: \<open>Heap\<close>)\<close>

text \<open>
  A binary heap in an array, with a secondary key that numbers the insertions. The array is a list
  of length \<open>h_maxsize\<close> of which the first \<open>h_size\<close> elements are in use. \<open>h_s_key\<close>, \<open>h_size\<close>,
  \<open>h_maxsize\<close> and the indices are 32-bit unsigned integers: every sum and product is reduced
  modulo \<open>2 ^ 32\<close>. Where that makes the code access memory outside the array (the doubled size
  wraps to zero, the left child of an index lies beyond the array) the operation is the error
  \<open>IndexOutOfRange\<close>. The loops of \<open>heap_insert\<close> and \<open>heap_delete\<close> are recursions on the array
  and an index; the loop of \<open>heap_extract_min\<close>, whose index could wrap, is a
  \<open>partial_function\<close>. With fewer than \<open>2 ^ 31\<close> elements in use no index wraps and the loops are
  shown to end and to keep the heap order and the elements in use.
\<close>

record 'a heap_elem =
  he_key :: real
  he_s_key :: nat
  he_elem :: 'a

definition KEY_LESS_THAN :: "'a heap_elem \<Rightarrow> 'a heap_elem \<Rightarrow> bool" where
  "KEY_LESS_THAN a b \<longleftrightarrow>
     he_key a < he_key b \<or> (he_key a = he_key b \<and> he_s_key a < he_s_key b)"

record 'a heap =
  h_elems :: "'a heap_elem list"
  h_s_key :: nat
  h_size :: nat
  h_maxsize :: nat
  h_iter :: nat

text \<open>Unsigned arithmetic, and the indices: \<open>i - 1\<close> is \<open>i + (2 ^ 32 - 1)\<close>.\<close>

definition uint32 :: "nat \<Rightarrow> nat" where "uint32 n = n mod 2 ^ 32"

definition h_parent :: "nat \<Rightarrow> nat" where "h_parent i = uint32 (i + (2 ^ 32 - 1)) div 2"
definition h_left :: "nat \<Rightarrow> nat" where "h_left i = uint32 (i * 2 + 1)"
definition h_right :: "nat \<Rightarrow> nat" where "h_right i = uint32 ((i + 1) * 2)"

lemma uint32_id: "n < 2 ^ 32 \<Longrightarrow> uint32 n = n"
  by (simp add: uint32_def)

lemma uint32_pred: "0 < i \<Longrightarrow> uint32 (i + (2 ^ 32 - 1)) = (i - 1) mod 2 ^ 32"
  using mod_add_self2 [of "i - 1" "2 ^ 32"] by (cases i) (simp_all add: uint32_def)

lemma parent_less: "0 < i \<Longrightarrow> h_parent i < i"
proof -
  assume i: "0 < i"
  have "(i - 1) mod 2 ^ 32 \<le> i - 1" by (rule mod_less_eq_dividend)
  then have "h_parent i \<le> i - 1"
    unfolding h_parent_def uint32_pred [OF i] by (rule order_trans [OF div_le_dividend])
  then show ?thesis using i by simp
qed

lemma parent_eq: "0 < i \<Longrightarrow> i < 2 ^ 32 \<Longrightarrow> h_parent i = (i - 1) div 2"
  using mod_less [of "i - 1" "2 ^ 32"] by (simp only: h_parent_def uint32_pred)

definition h_swap :: "nat \<Rightarrow> nat \<Rightarrow> 'b list \<Rightarrow> 'b list" where
  "h_swap i j es = es[i := es ! j, j := es ! i]"

text \<open>\<open>memset\<close> fills the new array with zeros.\<close>

definition new_heap :: "'a \<Rightarrow> nat \<Rightarrow> 'a heap" where
  "new_heap null n =
     \<lparr>h_elems = replicate n \<lparr>he_key = 0, he_s_key = 0, he_elem = null\<rparr>, h_s_key = 0,
      h_size = 0, h_maxsize = n, h_iter = 0\<rparr>"

fun member_loop :: "('a \<Rightarrow> bool) \<Rightarrow> 'a heap_elem list \<Rightarrow> nat \<Rightarrow> nat" where
  "member_loop eq [] i = 0"
| "member_loop eq (a # es) i = (if eq (he_elem a) then i + 1 else member_loop eq es (i + 1))"

definition heap_member :: "('a \<Rightarrow> bool) \<Rightarrow> 'a heap \<Rightarrow> nat" where
  "heap_member eq h = member_loop eq (take (h_size h) (h_elems h)) 0"

text \<open>The loop of \<open>heap_insert\<close>: elements greater than the new one move down.\<close>

function insert_loop ::
  "'a heap_elem \<Rightarrow> 'a heap_elem list \<Rightarrow> nat \<Rightarrow> 'a heap_elem list \<times> nat" where
  "insert_loop e es i =
     (if 0 < i \<and> KEY_LESS_THAN e (es ! h_parent i)
      then insert_loop e (es[i := es ! h_parent i]) (h_parent i)
      else (es, i))"
  by pat_completeness auto

termination
  by (relation "measure (\<lambda>(e, es, i). i)") (auto simp: parent_less)

declare insert_loop.simps [simp del]

text \<open>A full array is copied into one of twice the size.\<close>

definition heap_grow :: "'a \<Rightarrow> 'a heap \<Rightarrow> 'a heap res" where
  "heap_grow null h =
     (if h_maxsize h = h_size h
      then (let n = uint32 (h_maxsize h * 2)
            in if n < h_maxsize h then Inl IndexOutOfRange
               else Inr (h\<lparr>h_elems := h_elems h @ replicate (n - h_maxsize h)
                              \<lparr>he_key = 0, he_s_key = 0, he_elem = null\<rparr>,
                           h_maxsize := n\<rparr>))
      else Inr h)"

definition heap_insert :: "real \<Rightarrow> 'a \<Rightarrow> 'a heap \<Rightarrow> 'a heap res" where
  "heap_insert key x h =
     res_bind (heap_grow x h)
       (\<lambda>h. if length (h_elems h) \<le> h_size h then Inl IndexOutOfRange
            else (let e = \<lparr>he_key = key, he_s_key = h_s_key h, he_elem = x\<rparr>;
                      (es, i) = insert_loop e (h_elems h) (h_size h)
                  in Inr (h\<lparr>h_elems := es[i := e], h_s_key := uint32 (h_s_key h + 1),
                            h_size := uint32 (h_size h + 1)\<rparr>)))"

text \<open>The child the loop of \<open>heap_extract_min\<close> compares with, and the loop.\<close>

definition h_child :: "'a heap_elem list \<Rightarrow> nat \<Rightarrow> nat \<Rightarrow> nat res" where
  "h_child es n i =
     (if h_right i < n
      then (if length es \<le> h_left i then Inl IndexOutOfRange
            else Inr (if KEY_LESS_THAN (es ! h_left i) (es ! h_right i) then h_left i else h_right i))
      else Inr (if h_left i < n then h_left i else i))"

partial_function (option) heapify ::
  "'a heap_elem list \<Rightarrow> nat \<Rightarrow> nat \<Rightarrow> 'a heap_elem list res option" where
  "heapify es n i =
     (if i < n then
        (case h_child es n i of
           Inl e \<Rightarrow> Some (Inl e)
         | Inr x \<Rightarrow>
             if x \<noteq> i \<and> KEY_LESS_THAN (es ! x) (es ! i) then heapify (h_swap i x es) n x
             else Some (Inr es))
      else Some (Inr es))"

definition heap_min :: "'a heap \<Rightarrow> 'a option" where
  "heap_min h = (if 0 < h_size h then Some (he_elem (h_elems h ! 0)) else None)"

definition heap_extract_min :: "'a heap \<Rightarrow> ('a option \<times> 'a heap) res" where
  "heap_extract_min h =
     (if h_size h = 0 then Inr (None, h)
      else (let m = he_elem (h_elems h ! 0);
                n = h_size h - 1;
                es = (h_elems h)[0 := h_elems h ! n]
            in res_bind (of_loop (heapify es n 0))
                 (\<lambda>es. Inr (Some m, h\<lparr>h_elems := es, h_size := n\<rparr>))))"

text \<open>The loop of \<open>heap_delete\<close> brings an element to the root.\<close>

function to_root :: "'b list \<Rightarrow> nat \<Rightarrow> 'b list" where
  "to_root es i = (if i = 0 then es else to_root (h_swap i (h_parent i) es) (h_parent i))"
  by pat_completeness auto

termination
  by (relation "measure (\<lambda>(es, i). i)") (auto simp: parent_less)

declare to_root.simps [simp del]

definition heap_delete :: "('a \<Rightarrow> bool) \<Rightarrow> 'a heap \<Rightarrow> (bool \<times> 'a heap) res" where
  "heap_delete eq h =
     (let i = heap_member eq h
      in if i = 0 then Inr (False, h)
         else res_bind (heap_extract_min (h\<lparr>h_elems := to_root (h_elems h) (i - 1)\<rparr>))
                (\<lambda>(m, h). Inr (True, h)))"

definition heap_iter_init :: "'a heap \<Rightarrow> 'a option \<times> 'a heap" where
  "heap_iter_init h = (heap_min h, h\<lparr>h_iter := 1\<rparr>)"

definition heap_iter :: "'a heap \<Rightarrow> 'a option \<times> 'a heap" where
  "heap_iter h =
     (if h_size h \<le> h_iter h then (None, h\<lparr>h_iter := 0\<rparr>)
      else (Some (he_elem (h_elems h ! h_iter h)), h\<lparr>h_iter := h_iter h + 1\<rparr>))"

subsection \<open>Keys and indices\<close>

definition hkey :: "'a heap_elem \<Rightarrow> real \<times> nat" where
  "hkey a = (he_key a, he_s_key a)"

lemma KEY_LESS_hkey: "KEY_LESS_THAN a b \<longleftrightarrow> hkey a < hkey b"
  by (auto simp: KEY_LESS_THAN_def hkey_def less_prod_def)

text \<open>Below \<open>2 ^ 31\<close> elements no index wraps.\<close>

lemma child_index:
  "i + 1 < 2 ^ 31 \<Longrightarrow> h_left i = 2 * i + 1" "i + 1 < 2 ^ 31 \<Longrightarrow> h_right i = 2 * i + 2"
  by (simp_all add: h_left_def h_right_def uint32_id)

lemma parent_child:
  assumes "0 < k" and "k < 2 ^ 32" and "i + 1 < 2 ^ 31"
  shows "h_parent k = i \<longleftrightarrow> k = h_left i \<or> k = h_right i"
  unfolding parent_eq [OF assms(1,2)] child_index [OF assms(3)] using assms(1) by presburger

lemma length_swap [simp]: "length (h_swap i j es) = length es"
  by (simp add: h_swap_def)

lemma nth_swap:
  "i < length es \<Longrightarrow> j < length es \<Longrightarrow>
   h_swap i j es ! k = (if k = j then es ! i else if k = i then es ! j else es ! k)"
  by (simp add: h_swap_def nth_list_update)

lemma mset_take_swap:
  "i < n \<Longrightarrow> j < n \<Longrightarrow> n \<le> length es \<Longrightarrow> mset (take n (h_swap i j es)) = mset (take n es)"
  using mset_swap [of j "take n es" i] by (simp add: h_swap_def take_update_swap)

subsection \<open>The heap order\<close>

text \<open>Every element but those in \<open>D\<close>, and those whose parent is in \<open>U\<close>, is at least its parent.\<close>

definition ordered :: "nat set \<Rightarrow> nat set \<Rightarrow> nat \<Rightarrow> 'a heap_elem list \<Rightarrow> bool" where
  "ordered D U n es \<longleftrightarrow>
     (\<forall>k. 0 < k \<longrightarrow> k < n \<longrightarrow> k \<notin> D \<longrightarrow> h_parent k \<notin> U \<longrightarrow> hkey (es ! h_parent k) \<le> hkey (es ! k))"

text \<open>The children of \<open>i\<close> are at least the parent of \<open>i\<close>.\<close>

definition bridged :: "nat \<Rightarrow> nat \<Rightarrow> 'a heap_elem list \<Rightarrow> bool" where
  "bridged i n es \<longleftrightarrow>
     (0 < i \<longrightarrow> (\<forall>k. 0 < k \<longrightarrow> k < n \<longrightarrow> h_parent k = i \<longrightarrow> hkey (es ! h_parent i) \<le> hkey (es ! k)))"

abbreviation heap_order :: "nat \<Rightarrow> 'a heap_elem list \<Rightarrow> bool" where
  "heap_order \<equiv> ordered {} {}"

lemma orderedD:
  "ordered D U n es \<Longrightarrow> 0 < k \<Longrightarrow> k < n \<Longrightarrow> k \<notin> D \<Longrightarrow> h_parent k \<notin> U \<Longrightarrow>
   hkey (es ! h_parent k) \<le> hkey (es ! k)"
  by (simp add: ordered_def)

lemma bridgedD:
  "bridged i n es \<Longrightarrow> 0 < i \<Longrightarrow> 0 < k \<Longrightarrow> k < n \<Longrightarrow> h_parent k = i \<Longrightarrow>
   hkey (es ! h_parent i) \<le> hkey (es ! k)"
  by (simp add: bridged_def)

lemma root_least:
  assumes "heap_order n es" and "k < n"
  shows "hkey (es ! 0) \<le> hkey (es ! k)"
  using assms(2)
proof (induction k rule: less_induct)
  case (less k)
  show ?case
  proof (cases "k = 0")
    case False
    then have "hkey (es ! 0) \<le> hkey (es ! h_parent k)" using less parent_less [of k] by simp
    also have "\<dots> \<le> hkey (es ! k)" using orderedD [OF assms(1), of k] less.prems False by simp
    finally show ?thesis .
  qed simp
qed

subsection \<open>Insertion\<close>

text \<open>With the new element written at \<open>i\<close>, only \<open>i\<close> may be below its parent.\<close>

lemma up_step:
  assumes i: "0 < i" "i < n" "n \<le> length fs"
    and ord: "ordered {i} {} n fs" and br: "bridged i n fs"
    and less: "hkey (fs ! i) < hkey (fs ! h_parent i)"
  shows "ordered {h_parent i} {} n (h_swap i (h_parent i) fs)"
    "bridged (h_parent i) n (h_swap i (h_parent i) fs)"
proof -
  let ?p = "h_parent i" and ?gs = "h_swap i (h_parent i) fs"
  have p: "?p < i" using i by (simp add: parent_less)
  have at: "?gs ! k = (if k = ?p then fs ! i else if k = i then fs ! ?p else fs ! k)" for k
    using i p by (simp add: nth_swap)
  show "ordered {?p} {} n ?gs"
    unfolding ordered_def
  proof (intro allI impI)
    fix k assume k: "0 < k" "k < n" "k \<notin> {?p}"
    consider "k = i" | "k \<noteq> i" "h_parent k = i" | "k \<noteq> i" "h_parent k = ?p"
      | "k \<noteq> i" "h_parent k \<noteq> i" "h_parent k \<noteq> ?p" by blast
    then show "hkey (?gs ! h_parent k) \<le> hkey (?gs ! k)"
    proof cases
      case 1
      then show ?thesis using less p by (simp add: at)
    next
      case 2
      then show ?thesis using bridgedD [OF br i(1) k(1,2)] k p by (simp add: at)
    next
      case 3
      then have "hkey (fs ! ?p) \<le> hkey (fs ! k)" using orderedD [OF ord k(1,2)] by simp
      then show ?thesis using 3 k less by (simp add: at)
    next
      case 4
      then show ?thesis using orderedD [OF ord k(1,2)] k by (simp add: at)
    qed
  qed
  show "bridged ?p n ?gs"
    unfolding bridged_def
  proof (intro impI allI)
    fix k assume k: "0 < ?p" "0 < k" "k < n" "h_parent k = ?p"
    have up: "hkey (fs ! h_parent ?p) \<le> hkey (fs ! ?p)"
      using orderedD [OF ord, of ?p] k(1) p i by simp
    have pp: "h_parent ?p \<noteq> ?p" "h_parent ?p \<noteq> i" "k \<noteq> ?p" using k p parent_less [of ?p] by auto
    show "hkey (?gs ! h_parent ?p) \<le> hkey (?gs ! k)"
    proof (cases "k = i")
      case True
      then show ?thesis using up pp p by (simp add: at)
    next
      case False
      then have "hkey (fs ! ?p) \<le> hkey (fs ! k)" using orderedD [OF ord k(2,3)] k(4) by simp
      then show ?thesis using up pp False by (simp add: at)
    qed
  qed
qed

lemma insert_loop_swap:
  assumes "0 < i" "i < length es"
  shows "(es[i := es ! h_parent i])[h_parent i := e] = h_swap i (h_parent i) (es[i := e])"
proof -
  have "h_parent i < i" using assms by (simp add: parent_less)
  then show ?thesis using assms by (simp add: h_swap_def)
qed

lemma insert_loop_heap:
  assumes "insert_loop e es i = (es', j)" and "i < n" and "n \<le> length es"
    and "ordered {i} {} n (es[i := e])" and "bridged i n (es[i := e])"
  shows "heap_order n (es'[j := e]) \<and> mset (take n (es'[j := e])) = mset (take n (es[i := e])) \<and>
         length es' = length es"
  using assms
proof (induction e es i rule: insert_loop.induct)
  case (1 e es i)
  let ?p = "h_parent i"
  show ?case
  proof (cases "0 < i \<and> KEY_LESS_THAN e (es ! ?p)")
    case True
    then have i: "0 < i" "?p < i" by (simp_all add: parent_less)
    have less: "hkey (es[i := e] ! i) < hkey (es[i := e] ! ?p)"
      using True i "1.prems"(2,3) by (simp add: KEY_LESS_hkey)
    have sw: "(es[i := es ! ?p])[?p := e] = h_swap i ?p (es[i := e])"
      using insert_loop_swap [of i es e] i "1.prems"(2,3) by simp
    note step = up_step [OF i(1) "1.prems"(2) _ "1.prems"(4,5) less]
    have run: "insert_loop e (es[i := es ! ?p]) ?p = (es', j)"
      using "1.prems"(1) True by (simp add: insert_loop.simps [of e es i])
    have "mset (take n (h_swap i ?p (es[i := e]))) = mset (take n (es[i := e]))"
      using i "1.prems"(2,3) by (intro mset_take_swap) auto
    then show ?thesis
      using "1.IH" [OF True run] step "1.prems"(2,3) i by (simp add: sw)
  next
    case False
    then have e: "es' = es" "j = i" using "1.prems"(1) by (simp_all add: insert_loop.simps [of e es i] split: if_splits)
    have "ordered {} {} n (es[i := e])"
      unfolding ordered_def
    proof (intro allI impI)
      fix k assume k: "0 < k" "k < n"
      show "hkey (es[i := e] ! h_parent k) \<le> hkey (es[i := e] ! k)"
      proof (cases "k = i")
        case True
        moreover have "?p \<noteq> i" using k True parent_less [of i] by simp
        ultimately show ?thesis
          using False k "1.prems"(2,3) by (simp add: KEY_LESS_hkey not_less)
      next
        case False
        then show ?thesis using orderedD [OF "1.prems"(4) k] by simp
      qed
    qed
    then show ?thesis by (simp add: e)
  qed
qed

text \<open>A new last element.\<close>

lemma insert_start:
  assumes "heap_order n es" and "n < length es"
  shows "ordered {n} {} (Suc n) (es[n := e])" "bridged n (Suc n) (es[n := e])"
proof -
  show "ordered {n} {} (Suc n) (es[n := e])"
    unfolding ordered_def
  proof (intro allI impI)
    fix k assume "0 < k" "k < Suc n" "k \<notin> {n}"
    then have k: "0 < k" "k < n" "h_parent k < n" using parent_less [of k] by auto
    then show "hkey (es[n := e] ! h_parent k) \<le> hkey (es[n := e] ! k)"
      using orderedD [OF assms(1), of k] by simp
  qed
  show "bridged n (Suc n) (es[n := e])"
    unfolding bridged_def using parent_less not_less_eq by blast
qed

subsection \<open>Extraction\<close>

lemma child_least:
  assumes n: "n < 2 ^ 31" "n \<le> length es" and k: "0 < k" "k < n" "h_parent k = i"
  shows "\<exists>x. h_child es n i = Inr x \<and> x \<noteq> i \<and> hkey (es ! x) \<le> hkey (es ! k)"
proof -
  have i: "i + 1 < 2 ^ 31" using parent_less [OF k(1)] k n by simp
  have "k = h_left i \<or> k = h_right i" using parent_child [OF k(1) _ i] k n by simp
  then show ?thesis
    using k(2) n unfolding h_child_def child_index [OF i]
    by (auto simp: KEY_LESS_hkey not_less split: if_splits)
qed

lemma child_range:
  assumes n: "n < 2 ^ 31" "n \<le> length es" and i: "i < n"
  shows "\<exists>x. h_child es n i = Inr x \<and> (x \<noteq> i \<longrightarrow> i < x \<and> x < n \<and> h_parent x = i)"
proof -
  have i: "i + 1 < 2 ^ 31" using i n by simp
  have "h_parent (2 * i + 1) = i" if "2 * i + 1 < n"
    using parent_child [of "2 * i + 1" i] that n i by (simp add: child_index)
  moreover have "h_parent (2 * i + 2) = i" if "2 * i + 2 < n"
    using parent_child [of "2 * i + 2" i] that n i by (simp add: child_index)
  ultimately show ?thesis using n unfolding h_child_def child_index [OF i] by auto
qed

lemma down_step:
  assumes x: "h_child es n i = Inr x" "x \<noteq> i" and n: "n < 2 ^ 31" "n \<le> length es" "i < n"
    and ord: "ordered {} {i} n es" and br: "bridged i n es"
    and less: "hkey (es ! x) < hkey (es ! i)"
  shows "ordered {} {x} n (h_swap i x es)" "bridged x n (h_swap i x es)"
proof -
  have X: "x < n" "0 < x" "h_parent x = i" "i < x" using child_range [OF n] x by auto
  have at: "h_swap i x es ! k = (if k = x then es ! i else if k = i then es ! x else es ! k)" for k
    using X n by (simp add: nth_swap)
  show "ordered {} {x} n (h_swap i x es)"
    unfolding ordered_def
  proof (intro allI impI)
    fix k assume k: "0 < k" "k < n" "h_parent k \<notin> {x}"
    consider "h_parent k = i" | "k = i" | "h_parent k \<noteq> i" "k \<noteq> i" "k \<noteq> x" using X by blast
    then show "hkey (h_swap i x es ! h_parent k) \<le> hkey (h_swap i x es ! k)"
    proof cases
      case 1
      have "hkey (es ! x) \<le> hkey (es ! k)" using child_least [OF n(1,2) k(1,2) 1] x(1) by simp
      moreover have "k \<noteq> i" using 1 k parent_less [of k] by auto
      ultimately show ?thesis using 1 less X by (auto simp: at)
    next
      case 2
      have "h_parent i \<noteq> i" "h_parent i \<noteq> x" using 2 k X parent_less [of i] by auto
      moreover have "hkey (es ! h_parent i) \<le> hkey (es ! x)" using bridgedD [OF br _ X(2,1,3)] 2 k by simp
      ultimately show ?thesis using 2 X by (simp add: at)
    next
      case 3
      then show ?thesis using orderedD [OF ord k(1,2)] k by (simp add: at)
    qed
  qed
  show "bridged x n (h_swap i x es)"
    unfolding bridged_def
  proof (intro impI allI)
    fix k assume k: "0 < x" "0 < k" "k < n" "h_parent k = x"
    then have "hkey (es ! x) \<le> hkey (es ! k)" using orderedD [OF ord k(2,3)] X by simp
    moreover have "k \<noteq> x" "k \<noteq> i" using k X parent_less [of k] by auto
    ultimately show "hkey (h_swap i x es ! h_parent x) \<le> hkey (h_swap i x es ! k)"
      using X by (simp add: at)
  qed
qed

text \<open>The loop of \<open>heap_extract_min\<close> ends, and what it leaves is a heap of the same elements.\<close>

definition heapified :: "nat \<Rightarrow> 'a heap_elem list \<Rightarrow> 'a heap_elem list \<Rightarrow> bool" where
  "heapified n es es' \<longleftrightarrow>
     heap_order n es' \<and> mset (take n es') = mset (take n es) \<and> length es' = length es"

lemma heapify_done:
  assumes n: "n < 2 ^ 31" "n \<le> length es" and ord: "ordered {} {i} n es"
    and x: "h_child es n i = Inr x" "x \<noteq> i \<longrightarrow> hkey (es ! i) \<le> hkey (es ! x)"
  shows "heap_order n es"
  unfolding ordered_def
proof (intro allI impI)
  fix k assume k: "0 < k" "k < n"
  show "hkey (es ! h_parent k) \<le> hkey (es ! k)"
  proof (cases "h_parent k = i")
    case True
    then show ?thesis using child_least [OF n k True] x by auto
  next
    case False
    then show ?thesis using orderedD [OF ord k] by simp
  qed
qed

lemma heapify_heap:
  assumes "n < 2 ^ 31" and "n \<le> length es" and "ordered {} {i} n es" and "bridged i n es"
  shows "\<exists>es'. heapify es n i = Some (Inr es') \<and> heapified n es es'"
  using assms(2-)
proof (induction "n - i" arbitrary: es i rule: less_induct)
  case less
  show ?case
  proof (cases "i < n")
    case False
    then have "h_parent k \<noteq> i" if "0 < k" "k < n" for k using that parent_less [of k] by auto
    then have "heap_order n es" using less.prems(2) by (auto simp: ordered_def)
    then show ?thesis using False by (simp add: heapify.simps [of es n i] heapified_def)
  next
    case True
    obtain x where x: "h_child es n i = Inr x" "x \<noteq> i \<longrightarrow> i < x \<and> x < n \<and> h_parent x = i"
      using child_range [OF assms(1) less.prems(1) True] by blast
    show ?thesis
    proof (cases "x \<noteq> i \<and> KEY_LESS_THAN (es ! x) (es ! i)")
      case go: True
      then have c: "x \<noteq> i" "hkey (es ! x) < hkey (es ! i)" by (simp_all add: KEY_LESS_hkey)
      note step = down_step [OF x(1) c(1) assms(1) less.prems(1) True less.prems(2,3) c(2)]
      have "mset (take n (h_swap i x es)) = mset (take n es)"
        using True x(2) c(1) less.prems(1) by (intro mset_take_swap) auto
      moreover have "n - x < n - i" using x(2) c(1) True by auto
      ultimately show ?thesis
        using less.hyps [OF _ _ step] less.prems(1) go True x(1)
        by (simp add: heapify.simps [of es n i] heapified_def)
    next
      case False
      then have "heap_order n es"
        by (intro heapify_done [OF assms(1) less.prems(1,2) x(1)]) (auto simp: KEY_LESS_hkey not_less)
      then show ?thesis using False True x(1) by (auto simp: heapify.simps [of es n i] heapified_def)
    qed
  qed
qed

subsection \<open>Deletion\<close>

lemma root_step:
  assumes i: "0 < i" "i < n" "n \<le> length es"
    and ord: "ordered {i} {i} n es" and br: "bridged i n es"
  shows "ordered {h_parent i} {h_parent i} n (h_swap i (h_parent i) es)"
    "bridged (h_parent i) n (h_swap i (h_parent i) es)"
proof -
  let ?p = "h_parent i" and ?gs = "h_swap i (h_parent i) es"
  have p: "?p < i" using i by (simp add: parent_less)
  have at: "?gs ! k = (if k = ?p then es ! i else if k = i then es ! ?p else es ! k)" for k
    using i p by (simp add: nth_swap)
  show "ordered {?p} {?p} n ?gs"
    unfolding ordered_def
  proof (intro allI impI)
    fix k assume k: "0 < k" "k < n" "k \<notin> {?p}" "h_parent k \<notin> {?p}"
    then have "k \<noteq> i" by auto
    then show "hkey (?gs ! h_parent k) \<le> hkey (?gs ! k)"
      using orderedD [OF ord k(1,2)] bridgedD [OF br i(1) k(1,2)] k by (cases "h_parent k = i") (simp_all add: at)
  qed
  show "bridged ?p n ?gs"
    unfolding bridged_def
  proof (intro impI allI)
    fix k assume k: "0 < ?p" "0 < k" "k < n" "h_parent k = ?p"
    have pp: "h_parent ?p \<noteq> ?p" "h_parent ?p \<noteq> i" "k \<noteq> ?p" using k p parent_less [of ?p] by auto
    have up: "hkey (es ! h_parent ?p) \<le> hkey (es ! ?p)"
      using orderedD [OF ord, of ?p] k(1) p i pp by simp
    show "hkey (?gs ! h_parent ?p) \<le> hkey (?gs ! k)"
    proof (cases "k = i")
      case True
      then show ?thesis using up pp p by (simp add: at)
    next
      case False
      then have "hkey (es ! ?p) \<le> hkey (es ! k)" using orderedD [OF ord k(2,3)] k(4) p by simp
      then show ?thesis using up pp False by (simp add: at)
    qed
  qed
qed

lemma to_root_heap:
  assumes "i < n" and "n \<le> length es" and "ordered {i} {i} n es" and "bridged i n es"
  shows "ordered {} {0} n (to_root es i) \<and> mset (take n (to_root es i)) = mset (take n es) \<and>
         length (to_root es i) = length es \<and> to_root es i ! 0 = es ! i"
  using assms
proof (induction es i rule: to_root.induct)
  case (1 es i)
  show ?case
  proof (cases "i = 0")
    case True
    then have "to_root es i = es" by (subst to_root.simps) simp
    then show ?thesis using "1.prems"(3) True by (auto simp: ordered_def)
  next
    case False
    let ?p = "h_parent i"
    have p: "?p < i" "0 < i" using False by (simp_all add: parent_less)
    note step = root_step [OF p(2) "1.prems"]
    have m: "mset (take n (h_swap i ?p es)) = mset (take n es)"
      using p "1.prems"(1,2) by (intro mset_take_swap) auto
    have "h_swap i ?p es ! ?p = es ! i" using p "1.prems"(1,2) by (simp add: nth_swap)
    then show ?thesis
      using "1.IH" [OF False] step m p "1.prems"(1,2) False by (simp add: to_root.simps [of es i])
  qed
qed

text \<open>Removing the root of an array that is a heap below its root.\<close>

lemma remove_root:
  assumes n: "n < 2 ^ 31" "n < length es" and ord: "ordered {} {0} (Suc n) es"
  shows "\<exists>fs. heapify (es[0 := es ! n]) n 0 = Some (Inr fs) \<and> heap_order n fs \<and>
     mset (take n fs) + {#es ! 0#} = mset (take (Suc n) es) \<and> length fs = length es"
proof -
  let ?fs = "es[0 := es ! n]"
  have "ordered {} {0} n ?fs"
    unfolding ordered_def
  proof (intro allI impI)
    fix k assume k: "0 < k" "k < n" "h_parent k \<notin> {0}"
    then show "hkey (?fs ! h_parent k) \<le> hkey (?fs ! k)" using orderedD [OF ord, of k] by simp
  qed
  moreover have "bridged 0 n ?fs" by (simp add: bridged_def)
  ultimately obtain fs where fs: "heapify ?fs n 0 = Some (Inr fs)" "heapified n ?fs fs"
    using heapify_heap [of n ?fs 0] n by auto
  have "mset (take n ?fs) + {#es ! 0#} = mset (take (Suc n) es)"
  proof (cases n)
    case 0
    then show ?thesis using n by (simp add: take_Suc_conv_app_nth)
  next
    case (Suc m)
    obtain a xs where es: "es = a # xs" using n by (cases es) auto
    then show ?thesis using n Suc by (simp add: take_Suc_conv_app_nth)
  qed
  then show ?thesis using fs by (auto simp: heapified_def)
qed

lemma member_loop_spec:
  "(member_loop eq es i = 0 \<longleftrightarrow> (\<forall>a \<in> set es. \<not> eq (he_elem a))) \<and>
   (\<forall>j. member_loop eq es i = Suc j \<longrightarrow> i \<le> j \<and> j - i < length es \<and> eq (he_elem (es ! (j - i))))"
  by (induction eq es i rule: member_loop.induct) (auto simp: nth_Cons' Suc_diff_le)

end
