(* ===== verification/Heap_Scheduler.thy ===== *)
theory Heap_Scheduler
  imports Heap_Array List_Scheduler
begin

section \<open>The heap scheduler (\<open>common/scheduler.h\<close>, \<open>common/scheduler.cc\<close>: \<open>HeapScheduler\<close>)\<close>

text \<open>
  \<open>HeapScheduler\<close> is the heap of \<open>Heap_Array\<close> with the event's time as key. The secondary key is what
  keeps events of the same time in the order of scheduling; it is a 32-bit counter, so this holds
  for the first \<open>2 ^ 32 - 1\<close> events at most. The indices are 32-bit too, and the array cannot grow
  to \<open>2 ^ 32\<close> elements: the laws are proved for the first \<open>2 ^ 31 - 1\<close> events, which need neither.
\<close>

definition hs_insert :: "event \<Rightarrow> event heap \<Rightarrow> event heap res" where
  "hs_insert e h = heap_insert (ev_time e) e h"

definition hs_deque :: "event heap \<Rightarrow> (event option \<times> event heap) res" where
  "hs_deque h = heap_extract_min h"

definition hs_head :: "event heap \<Rightarrow> event option" where
  "hs_head h = heap_min h"

definition hs_cancel :: "event \<Rightarrow> event heap \<Rightarrow> (event \<times> event heap) res" where
  "hs_cancel e h =
     (if ev_uid e \<le> 0 then Inr (e, h)
      else res_bind (heap_delete (\<lambda>x. ev_ptr x = ev_ptr e) h)
             (\<lambda>(b, h). Inr (e\<lparr>ev_uid := - ev_uid e\<rparr>, h)))"

function lookup_loop :: "int \<Rightarrow> event option \<Rightarrow> event heap \<Rightarrow> event option \<times> event heap" where
  "lookup_loop uid None h = (None, h)"
| "lookup_loop uid (Some e) h =
     (if ev_uid e = uid then (Some e, h)
      else (case heap_iter h of (r, h') \<Rightarrow> lookup_loop uid r h'))"
  by pat_completeness auto

termination
  by (relation "measures [\<lambda>(uid, r, h). if r = None then 0 else 1, \<lambda>(uid, r, h). h_size h - h_iter h]")
    (auto simp: heap_iter_def split: if_splits)

definition hs_lookup :: "int \<Rightarrow> event heap \<Rightarrow> event option \<times> event heap" where
  "hs_lookup uid h = (case heap_iter_init h of (r, h') \<Rightarrow> lookup_loop uid r h')"

subsection \<open>The elements in use\<close>

abbreviation live :: "event heap \<Rightarrow> event heap_elem list" where
  "live h \<equiv> take (h_size h) (h_elems h)"

text \<open>
  Keys agree with the events, and the secondary keys are in the order of the identifiers, below
  the counter \<open>k\<close> and the next identifier \<open>u\<close>.
\<close>

definition elems_ok :: "int \<Rightarrow> nat \<Rightarrow> event heap_elem list \<Rightarrow> bool" where
  "elems_ok u k es \<longleftrightarrow>
     (\<forall>a \<in> set es. he_key a = ev_time (he_elem a) \<and> he_s_key a < k \<and> ev_uid (he_elem a) < u) \<and>
     (\<forall>a \<in> set es. \<forall>b \<in> set es. he_s_key a < he_s_key b \<longleftrightarrow> ev_uid (he_elem a) < ev_uid (he_elem b)) \<and>
     distinct (map he_s_key es) \<and> distinct (map (\<lambda>a. ev_ptr (he_elem a)) es)"

lemma elems_ok_cong:
  assumes "mset es' = mset es"
  shows "elems_ok u k es' = elems_ok u k es"
proof -
  have "set es' = set es" using assms by (rule mset_eq_setD)
  moreover have "distinct (map he_s_key es') = distinct (map he_s_key es)"
    "distinct (map (\<lambda>a. ev_ptr (he_elem a)) es') = distinct (map (\<lambda>a. ev_ptr (he_elem a)) es)"
    using assms by (metis mset_eq_imp_distinct_iff mset_map)+
  ultimately show ?thesis by (simp add: elems_ok_def)
qed

lemma elems_ok_sub:
  assumes "elems_ok u k es" and "mset es' \<subseteq># mset es"
  shows "elems_ok u k es'"
proof -
  obtain zs where "mset es = mset (es' @ zs)"
    using assms(2) by (metis mset_append mset_subset_eq_exists_conv ex_mset)
  then have "elems_ok u k (es' @ zs)" using assms(1) elems_ok_cong by metis
  then show ?thesis by (simp add: elems_ok_def)
qed

lemma hkey_ev_key:
  "elems_ok u k es \<Longrightarrow> a \<in> set es \<Longrightarrow> b \<in> set es \<Longrightarrow>
   hkey a < hkey b \<longleftrightarrow> ev_key (he_elem a) < ev_key (he_elem b)"
  by (auto simp: elems_ok_def hkey_def ev_key_def less_prod_def)

lemma hkey_inj: "elems_ok u k es \<Longrightarrow> inj_on hkey (set es)"
  by (auto simp: elems_ok_def distinct_map inj_on_def hkey_def)

text \<open>The contents in dispatch order.\<close>

definition hp_list :: "event heap \<Rightarrow> event list" where
  "hp_list h = map he_elem (sort_key hkey (live h))"

lemma set_hp_list: "set (hp_list h) = he_elem ` set (live h)"
  by (simp add: hp_list_def)

lemma ev_sorted_hp_list:
  assumes "elems_ok u k (live h)"
  shows "ev_sorted (hp_list h)"
proof -
  let ?s = "sort_key hkey (live h)"
  have ok: "elems_ok u k ?s" using assms elems_ok_cong [of ?s "live h"] by simp
  have "distinct ?s" using ok by (simp add: elems_ok_def distinct_map)
  then have "distinct (map hkey ?s)" using hkey_inj [OF ok] by (simp only: distinct_map)
  then have "sorted_wrt (<) (map hkey ?s)" by (simp add: strict_sorted_iff)
  then have "sorted_wrt (\<lambda>a b. hkey a < hkey b) ?s" by (simp add: sorted_wrt_map)
  then have "sorted_wrt (\<lambda>a b. ev_key (he_elem a) < ev_key (he_elem b)) ?s"
    by (rule sorted_wrt_mono_rel [rotated]) (use hkey_ev_key [OF ok] in blast)
  then show ?thesis by (simp add: hp_list_def sorted_wrt_map)
qed

definition hp_ok :: "int \<Rightarrow> event heap \<Rightarrow> bool" where
  "hp_ok u h \<longleftrightarrow>
     heap_order (h_size h) (h_elems h) \<and> h_size h \<le> h_maxsize h \<and> length (h_elems h) = h_maxsize h \<and>
     0 < h_maxsize h \<and> elems_ok u (h_s_key h) (live h) \<and> int (h_s_key h) < u \<and>
     int (h_size h) < u \<and> h_size h < 2 ^ 31"

lemma hp_ok_new: "0 < n \<Longrightarrow> hp_ok 1 (new_heap e n)"
  by (simp add: hp_ok_def new_heap_def ordered_def elems_ok_def)

lemma heap_order_cong:
  "heap_order n es \<Longrightarrow> n \<le> length es \<Longrightarrow> heap_order n (es @ zs)"
  unfolding ordered_def by (auto simp: nth_append dest: parent_less)

text \<open>Room for one more element.\<close>

lemma heap_grow_ok:
  assumes ok: "hp_ok u h"
  shows "\<exists>g. heap_grow x h = Inr g \<and> h_size g = h_size h \<and> h_s_key g = h_s_key h \<and>
     h_size h < length (h_elems g) \<and> length (h_elems g) = h_maxsize g \<and>
     take (h_size h) (h_elems g) = live h \<and> heap_order (h_size h) (h_elems g)"
proof (cases "h_maxsize h = h_size h")
  case True
  then have "uint32 (h_maxsize h * 2) = h_maxsize h * 2" using ok by (simp add: hp_ok_def uint32_id)
  then show ?thesis using ok True by (simp add: heap_grow_def hp_ok_def heap_order_cong)
next
  case False
  then show ?thesis using ok by (simp add: heap_grow_def hp_ok_def)
qed

lemma heap_insert_live:
  assumes ok: "hp_ok u h" and fit: "int (h_s_key h) < 2 ^ 32 - 1"
  shows "\<exists>h'. heap_insert key x h = Inr h' \<and> heap_order (h_size h') (h_elems h') \<and>
    mset (live h') = add_mset \<lparr>he_key = key, he_s_key = h_s_key h, he_elem = x\<rparr> (mset (live h)) \<and>
    h_size h' \<le> h_maxsize h' \<and> length (h_elems h') = h_maxsize h' \<and>
    h_s_key h' = h_s_key h + 1 \<and> h_size h' = h_size h + 1"
proof -
  let ?e = "\<lparr>he_key = key, he_s_key = h_s_key h, he_elem = x\<rparr>" and ?n = "h_size h"
  obtain g where g: "heap_grow x h = Inr g" "h_size g = ?n" "h_s_key g = h_s_key h"
    "?n < length (h_elems g)" "length (h_elems g) = h_maxsize g" "take ?n (h_elems g) = live h"
    "heap_order ?n (h_elems g)" using heap_grow_ok [OF ok] by blast
  obtain es i where L: "insert_loop ?e (h_elems g) ?n = (es, i)" by fastforce
  have u: "uint32 (?n + 1) = ?n + 1" "uint32 (h_s_key h + 1) = h_s_key h + 1"
    using ok fit by (simp_all add: hp_ok_def uint32_id)
  have run: "heap_insert key x h =
      Inr (g\<lparr>h_elems := es[i := ?e], h_s_key := h_s_key h + 1, h_size := ?n + 1\<rparr>)"
    using L g(1-4) u by (simp add: heap_insert_def)
  have H: "heap_order (Suc ?n) (es[i := ?e])"
    "mset (take (Suc ?n) (es[i := ?e])) = mset (take (Suc ?n) ((h_elems g)[?n := ?e]))"
    "length es = length (h_elems g)"
    using insert_loop_heap [OF L, of "Suc ?n"] insert_start [OF g(7,4)] g(4) by auto
  have "mset (take (Suc ?n) ((h_elems g)[?n := ?e])) = add_mset ?e (mset (live h))"
    using g(4,6) by (simp add: take_Suc_conv_app_nth)
  then show ?thesis using run H g(4,5) by simp
qed

lemma hs_insert_law:
  assumes ok: "hp_ok u h" and fit: "u < 2 ^ 31" and e: "ev_uid e = u" "ev_ptr e \<notin> ev_ptr ` set (hp_list h)"
  shows "\<exists>h'. hs_insert e h = Inr h' \<and> hp_ok (u + 1) h' \<and> hp_list h' = abs_insert e (hp_list h)"
proof -
  let ?a = "\<lparr>he_key = ev_time e, he_s_key = h_s_key h, he_elem = e\<rparr>"
  have "int (h_s_key h) < 2 ^ 32 - 1" using ok fit by (simp add: hp_ok_def)
  then obtain h' where I: "hs_insert e h = Inr h'" "heap_order (h_size h') (h_elems h')"
    "mset (live h') = add_mset ?a (mset (live h))" "h_size h' \<le> h_maxsize h'"
    "length (h_elems h') = h_maxsize h'" "h_s_key h' = h_s_key h + 1" "h_size h' = h_size h + 1"
    using heap_insert_live [OF ok] unfolding hs_insert_def by blast
  have old: "elems_ok u (h_s_key h) (live h)" using ok by (simp add: hp_ok_def)
  have "elems_ok (u + 1) (h_s_key h + 1) (?a # live h)"
    using old e by (fastforce simp: elems_ok_def set_hp_list image_image)
  then have new: "elems_ok (u + 1) (h_s_key h') (live h')"
    using elems_ok_cong [of "live h'" "?a # live h"] I(3,6) by simp
  have "hp_ok (u + 1) h'" using I new ok fit by (simp add: hp_ok_def)
  moreover have "hp_list h' = abs_insert e (hp_list h)"
  proof (rule ev_sorted_unique)
    show "ev_sorted (hp_list h')" by (rule ev_sorted_hp_list [OF new])
    show "ev_sorted (abs_insert e (hp_list h))"
      using old e by (intro ev_sorted_abs_insert ev_sorted_hp_list [OF old])
        (auto simp: set_hp_list elems_ok_def)
    have "set (live h') = insert ?a (set (live h))" using I(3) by (metis set_mset_add_mset_insert set_mset_mset)
    then show "set (hp_list h') = set (abs_insert e (hp_list h))" by (simp add: set_hp_list)
  qed
  ultimately show ?thesis using I(1) by blast
qed

text \<open>Taking the root off an array that is a heap below its root.\<close>

lemma remove_root_law:
  assumes size: "h_size h = Suc n" "Suc n \<le> length (h_elems h)" and len: "length (h_elems h) = h_maxsize h"
    and ord: "ordered {} {0} (Suc n) (h_elems h)" and el: "elems_ok u (h_s_key h) (live h)"
    and u: "int (h_s_key h) < u" "int (h_size h) < u" "h_size h < 2 ^ 31"
    and x: "x = he_elem (h_elems h ! 0)"
  shows "\<exists>h'. heap_extract_min h = Inr (Some x, h') \<and> hp_ok u h' \<and> set (hp_list h') = set (hp_list h) - {x}"
proof -
  obtain es where R: "heapify ((h_elems h)[0 := h_elems h ! n]) n 0 = Some (Inr es)" "heap_order n es"
    "mset (take n es) + {#h_elems h ! 0#} = mset (live h)" "length es = length (h_elems h)"
    using remove_root [of n "h_elems h"] size ord u(3) by auto
  let ?h = "h\<lparr>h_elems := es, h_size := n\<rparr>"
  have sub: "mset (take n es) \<subseteq># mset (live h)" using R(3) by (metis mset_subset_eq_add_left)
  have "hp_ok u ?h"
    using R size len u elems_ok_sub [OF el sub] by (simp add: hp_ok_def)
  moreover have "set (hp_list ?h) = set (hp_list h) - {x}"
  proof -
    let ?ys = "map he_elem (take n es)" and ?zs = "map he_elem (live h)"
    have "image_mset he_elem (mset (take n es) + {#h_elems h ! 0#}) = image_mset he_elem (mset (live h))"
      using R(3) by simp
    then have m: "mset (x # ?ys) = mset ?zs" by (simp add: x)
    have "distinct ?zs" using el by (auto simp: elems_ok_def distinct_map inj_on_def)
    then have "distinct (x # ?ys)" using mset_eq_imp_distinct_iff [OF m] by simp
    moreover have "set ?zs = insert x (set ?ys)" using mset_eq_setD [OF m] by simp
    ultimately show ?thesis by (auto simp: set_hp_list)
  qed
  moreover have "heap_extract_min h = Inr (Some x, ?h)"
    using size x R(1) by (simp add: heap_extract_min_def Let_def)
  ultimately show ?thesis by blast
qed

lemma hp_list_nil: "hp_ok u h \<Longrightarrow> hp_list h = [] \<longleftrightarrow> h_size h = 0"
  using length_sort [of hkey "live h"] by (auto simp: hp_list_def hp_ok_def simp flip: length_0_conv)

lemma hs_deque_law:
  assumes ok: "hp_ok u h" and L: "hp_list h = x # xs"
  shows "\<exists>h'. hs_deque h = Inr (Some x, h') \<and> hp_ok u h' \<and> hp_list h' = xs"
proof -
  have el: "elems_ok u (h_s_key h) (live h)" and ord: "heap_order (h_size h) (h_elems h)"
    and len: "h_size h \<le> length (h_elems h)" "length (h_elems h) = h_maxsize h"
    using ok by (simp_all add: hp_ok_def)
  obtain n where n: "h_size h = Suc n" using hp_list_nil [OF ok] L by (cases "h_size h") auto
  let ?r = "h_elems h ! 0"
  have r: "?r \<in> set (live h)" using n len by (auto simp: in_set_conv_nth)
  have least: "hkey ?r \<le> hkey a" if "a \<in> set (live h)" for a
    using that root_least [OF ord] by (auto simp: in_set_conv_nth)
  have srt: "ev_sorted (x # xs)" using ev_sorted_hp_list [OF el] L by simp
  have "x \<in> he_elem ` set (live h)" using set_hp_list [of h] L by auto
  then obtain a where a: "a \<in> set (live h)" "x = he_elem a" by blast
  have root: "he_elem ?r = x"
  proof (rule ccontr)
    assume "he_elem ?r \<noteq> x"
    then have "he_elem ?r \<in> set xs" using r set_hp_list [of h] L by auto
    then have "ev_key x < ev_key (he_elem ?r)" using srt by auto
    then have "hkey a < hkey ?r" using hkey_ev_key [OF el a(1) r] a(2) by simp
    then show False using least [OF a(1)] by simp
  qed
  have "ordered {} {0} (Suc n) (h_elems h)" using ord n by (simp add: ordered_def)
  then obtain h' where h': "heap_extract_min h = Inr (Some x, h')" "hp_ok u h'"
    "set (hp_list h') = set (hp_list h) - {x}"
    using remove_root_law [OF n _ len(2) _ el _ _ _ root [symmetric]] len n ok
    by (auto simp: hp_ok_def)
  have "hp_list h' = xs"
  proof (rule ev_sorted_unique)
    show "ev_sorted (hp_list h')" using h'(2) ev_sorted_hp_list by (auto simp: hp_ok_def)
    show "ev_sorted xs" using srt by simp
    show "set (hp_list h') = set xs" using h'(3) L ev_sorted_distinct [OF srt] by auto
  qed
  then show ?thesis using h' by (simp add: hs_deque_def)
qed

lemma hs_cancel_law:
  assumes ok: "hp_ok u h" and e: "e \<in> set (hp_list h)" "0 < ev_uid e"
  shows "\<exists>h'. hs_cancel e h = Inr (e\<lparr>ev_uid := - ev_uid e\<rparr>, h') \<and> hp_ok u h' \<and>
     hp_list h' = remove1 e (hp_list h)"
proof -
  have el: "elems_ok u (h_s_key h) (live h)" and ord: "heap_order (h_size h) (h_elems h)"
    and len: "h_size h \<le> length (h_elems h)" "length (h_elems h) = h_maxsize h"
    using ok by (simp_all add: hp_ok_def)
  let ?eq = "\<lambda>x. ev_ptr x = ev_ptr e"
  obtain a where a: "a \<in> set (live h)" "he_elem a = e" using e(1) set_hp_list by auto
  obtain i where i: "heap_member ?eq h = Suc i" "i < h_size h" "?eq (he_elem (live h ! i))"
    using member_loop_spec [of ?eq "live h" 0] a len
    by (cases "heap_member ?eq h") (auto simp: heap_member_def)
  have "live h ! i \<in> set (live h)" using i(2) len by (intro nth_mem) simp
  then have "he_elem (live h ! i) = e"
    using a i(3) el by (auto simp: elems_ok_def distinct_map inj_on_def)
  then have at: "he_elem (h_elems h ! i) = e" using i(2) len by simp
  let ?g = "h\<lparr>h_elems := to_root (h_elems h) i\<rparr>"
  obtain n where n: "h_size h = Suc n" using i(2) by (cases "h_size h") auto
  have "ordered {i} {i} (h_size h) (h_elems h)" using ord by (simp add: ordered_def)
  moreover have "bridged i (h_size h) (h_elems h)"
    unfolding bridged_def
  proof (intro impI allI)
    fix k assume k: "0 < i" "0 < k" "k < h_size h" "h_parent k = i"
    have "hkey (h_elems h ! h_parent i) \<le> hkey (h_elems h ! i)" using orderedD [OF ord k(1) i(2)] by simp
    also have "\<dots> \<le> hkey (h_elems h ! k)" using orderedD [OF ord k(2,3)] k(4) by simp
    finally show "hkey (h_elems h ! h_parent i) \<le> hkey (h_elems h ! k)" .
  qed
  ultimately have T: "ordered {} {0} (h_size h) (to_root (h_elems h) i)"
    "mset (take (h_size h) (to_root (h_elems h) i)) = mset (live h)"
    "length (to_root (h_elems h) i) = length (h_elems h)" "to_root (h_elems h) i ! 0 = h_elems h ! i"
    using to_root_heap [OF i(2) len(1)] by auto
  have g: "elems_ok u (h_s_key ?g) (live ?g)" using el elems_ok_cong [OF T(2)] by simp
  obtain h' where h': "heap_extract_min ?g = Inr (Some e, h')" "hp_ok u h'"
    "set (hp_list h') = set (hp_list ?g) - {e}"
    using remove_root_law [of ?g n u e] n T len g at ok by (auto simp: hp_ok_def)
  have same: "set (hp_list ?g) = set (hp_list h)" using mset_eq_setD [OF T(2)] by (simp add: set_hp_list)
  have srt: "ev_sorted (hp_list h)" by (rule ev_sorted_hp_list [OF el])
  have "hp_list h' = remove1 e (hp_list h)"
  proof (rule ev_sorted_unique)
    show "ev_sorted (hp_list h')" using h'(2) ev_sorted_hp_list by (auto simp: hp_ok_def)
    show "ev_sorted (remove1 e (hp_list h))" by (rule ev_sorted_remove1 [OF srt])
    show "set (hp_list h') = set (remove1 e (hp_list h))"
      using h'(3) same ev_sorted_distinct [OF srt] by (simp add: set_remove1_eq)
  qed
  then show ?thesis
    using h' i(1) e(2) by (simp add: hs_cancel_def heap_delete_def)
qed

text \<open>The iterator passes every element in use.\<close>

lemma lookup_loop_law:
  assumes "h_size h \<le> length (h_elems h)" and "1 \<le> h_iter h"
    and "r = (if h_iter h - 1 < h_size h then Some (he_elem (h_elems h ! (h_iter h - 1))) else None)"
  shows "case fst (lookup_loop uid r h) of
       None \<Rightarrow> \<forall>j. h_iter h - 1 \<le> j \<longrightarrow> j < h_size h \<longrightarrow> ev_uid (he_elem (h_elems h ! j)) \<noteq> uid
     | Some x \<Rightarrow> (\<exists>j < h_size h. x = he_elem (h_elems h ! j)) \<and> ev_uid x = uid"
  using assms
proof (induction "h_size h - h_iter h" arbitrary: h r rule: less_induct)
  case less
  show ?case
  proof (cases "h_iter h - 1 < h_size h")
    case False
    then show ?thesis using less.prems(3) by simp
  next
    case True
    let ?e = "he_elem (h_elems h ! (h_iter h - 1))"
    have r: "r = Some ?e" using less.prems(3) True by simp
    show ?thesis
    proof (cases "ev_uid ?e = uid")
      case True
      then show ?thesis using r \<open>h_iter h - 1 < h_size h\<close> by auto
    next
      case other: False
      have step: "j = h_iter h - 1 \<or> h_iter h \<le> j" if "h_iter h - 1 \<le> j" for j using that by linarith
      show ?thesis
      proof (cases "h_size h \<le> h_iter h")
        case True
        then show ?thesis using r other step by (fastforce simp: heap_iter_def)
      next
        case False
        let ?h = "h\<lparr>h_iter := h_iter h + 1\<rparr>"
        have "case fst (lookup_loop uid (Some (he_elem (h_elems h ! h_iter h))) ?h) of
            None \<Rightarrow> \<forall>j. h_iter ?h - 1 \<le> j \<longrightarrow> j < h_size ?h \<longrightarrow> ev_uid (he_elem (h_elems ?h ! j)) \<noteq> uid
          | Some x \<Rightarrow> (\<exists>j < h_size ?h. x = he_elem (h_elems ?h ! j)) \<and> ev_uid x = uid"
          by (rule less.hyps) (use False less.prems in auto)
        moreover have "fst (lookup_loop uid r h) =
            fst (lookup_loop uid (Some (he_elem (h_elems h ! h_iter h))) ?h)"
          using r other False by (simp add: heap_iter_def)
        ultimately show ?thesis
          using other step
          by (cases "fst (lookup_loop uid (Some (he_elem (h_elems h ! h_iter h))) ?h)") auto
      qed
    qed
  qed
qed

lemma hs_lookup_law:
  assumes ok: "hp_ok u h"
  shows "case fst (hs_lookup i h) of None \<Rightarrow> \<forall>x \<in> set (hp_list h). ev_uid x \<noteq> i
     | Some x \<Rightarrow> x \<in> set (hp_list h) \<and> ev_uid x = i"
proof -
  have len: "h_size h \<le> length (h_elems h)" using ok by (simp add: hp_ok_def)
  have mem: "x \<in> set (hp_list h) \<longleftrightarrow> (\<exists>j < h_size h. x = he_elem (h_elems h ! j))" for x
    unfolding set_hp_list nth_image [OF len, symmetric] by auto
  have "case fst (lookup_loop i (heap_min h) (h\<lparr>h_iter := 1\<rparr>)) of
      None \<Rightarrow> \<forall>j. h_iter (h\<lparr>h_iter := 1\<rparr>) - 1 \<le> j \<longrightarrow> j < h_size (h\<lparr>h_iter := 1\<rparr>) \<longrightarrow>
        ev_uid (he_elem (h_elems (h\<lparr>h_iter := 1\<rparr>) ! j)) \<noteq> i
    | Some x \<Rightarrow> (\<exists>j < h_size (h\<lparr>h_iter := 1\<rparr>). x = he_elem (h_elems (h\<lparr>h_iter := 1\<rparr>) ! j)) \<and> ev_uid x = i"
    by (rule lookup_loop_law) (use len in \<open>simp_all add: heap_min_def\<close>)
  then show ?thesis
    by (auto simp: hs_lookup_def heap_iter_init_def mem split: option.splits)
qed

subsection \<open>The heap is an event queue\<close>

interpretation hpq: event_queue hp_ok hp_list "\<lambda>u. u < 2 ^ 31" hs_insert hs_deque hs_cancel
  "\<lambda>i h. fst (hs_lookup i h)"
proof (unfold_locales, goal_cases)
  case (1 u q)
  then show ?case using ev_sorted_hp_list by (auto simp: hp_ok_def)
next
  case (2 u q x)
  then show ?case by (auto simp: hp_ok_def set_hp_list elems_ok_def)
next
  case (3 u q e)
  then show ?case using hs_insert_law [of u q e] by simp
next
  case (4 u q)
  then show ?case using hp_list_nil [of u q] by (simp add: hs_deque_def heap_extract_min_def)
next
  case (5 u q x xs)
  then show ?case using hs_deque_law [of u q x xs] by simp
next
  case (7 u q e)
  then show ?case by (rule hs_cancel_law)
next
  case (8 u q i)
  then show ?case by (rule hs_lookup_law)
qed (auto simp: hs_cancel_def split: if_splits)

end
