(* ===== verification/Calendar_Queue.thy ===== *)
theory Calendar_Queue
  imports List_Scheduler "HOL-Library.Word"
begin

section \<open>The calendar queue (\<open>common/scheduler.cc\<close>: \<open>CalendarScheduler\<close>)\<close>

text \<open>
  The default scheduler of the simulator: events are hashed by time into the days of a year, one
  bucket per day, and each bucket is a circular doubly linked list in time order. A circle is the
  list of its events from \<open>list_\<close> along \<open>next_\<close>, so \<open>list_->prev_\<close> is its last element, and a walk
  that goes past the end of the list has gone round and is taken as one that does not end, which it
  is: the loops have tested every event of the circle by then. The statistics that
  \<open>adjust_new_width_interval_\<close> = 0 leaves uninitialised are whatever the object held before.
\<close>

record bucket =
  b_list :: "event list"
  b_count :: int

record calendar =
  min_bin_width :: real
  adjust_new_width_interval :: "32 word"
  time_to_newwidth :: "32 word"
  head_search :: "64 word"
  insert_search :: "64 word"
  round_num :: int
  gap_num :: int
  last_time :: real
  avg_gap :: real
  width :: real
  diff0 :: real
  diff1 :: real
  diff2 :: real
  stat_qsize :: int
  nbuckets :: int
  lastbucket :: int
  top_threshold :: int
  bot_threshold :: int
  buckets :: "bucket list"
  qsize :: int
  cal_clock :: time

text \<open>The hash of a time.\<close>

definition CALENDAR_HASH :: "time \<Rightarrow> calendar \<Rightarrow> int" where
  "CALENDAR_HASH t c = int_of_double (fmod (t / width c) (of_int (nbuckets c)))"

definition bucket_at :: "int \<Rightarrow> calendar \<Rightarrow> bucket res" where
  "bucket_at i c =
     (if 0 \<le> i \<and> i < int (length (buckets c)) then Inr (buckets c ! nat i) else Inl IndexOutOfRange)"

definition set_bucket :: "int \<Rightarrow> bucket \<Rightarrow> calendar \<Rightarrow> calendar" where
  "set_bucket i b c = c\<lparr>buckets := (buckets c)[nat i := b]\<rparr>"

definition shift_left_1 :: "int \<Rightarrow> int res" where
  "shift_left_1 n = (if in_int32 (2 * n) then Inr (2 * n) else Inl IntOutOfRange)"

subsection \<open>Setting up\<close>

definition cal_reinit :: "int \<Rightarrow> real \<Rightarrow> time \<Rightarrow> calendar \<Rightarrow> calendar res" where
  "cal_reinit nbuck bwidth start c =
     (let c = c\<lparr>buckets := replicate (nat nbuck) \<lparr>b_list = [], b_count = 0\<rparr>, width := bwidth,
                nbuckets := nbuck, qsize := 0, stat_qsize := 0\<rparr>;
          c = c\<lparr>lastbucket := CALENDAR_HASH start c, diff0 := bwidth * of_int nbuck / 2\<rparr>;
          c = c\<lparr>diff1 := diff0 c + bwidth, diff2 := bwidth * of_int nbuck,
                bot_threshold := nbuck div 2 - 2\<rparr>
      in res_bind (shift_left_1 nbuck) (\<lambda>top. Inr (c\<lparr>top_threshold := top\<rparr>)))"

text \<open>The constructor, on an object whose bound variables are set.\<close>

definition new_calendar :: "time \<Rightarrow> calendar \<Rightarrow> calendar res" where
  "new_calendar clk c =
     (let c = c\<lparr>cal_clock := clk\<rparr>;
          c = (if adjust_new_width_interval c \<noteq> 0
               then c\<lparr>avg_gap := - 2, last_time := - 2, gap_num := 0, head_search := 0,
                      insert_search := 0, round_num := 0,
                      time_to_newwidth := adjust_new_width_interval c\<rparr>
               else c)
      in cal_reinit 4 1 (cal_clock c) c)"

subsection \<open>Linking an event into a circle\<close>

text \<open>
  The walk of \<open>insert\<close> from the tail back to the last event that is not later: the events up to it
  in reverse, those after it, and the counter of steps.
\<close>

fun cal_after :: "time \<Rightarrow> event list \<Rightarrow> event list \<Rightarrow> 64 word \<Rightarrow> (event list \<times> event list \<times> 64 word) option"
where
  "cal_after t [] later k = None"
| "cal_after t (x # xs) later k =
     (if t < ev_time x then cal_after t xs (x # later) (k + 1) else Some (x # xs, later, k))"

text \<open>The circle with the event, whether its time is new there, and the counter.\<close>

definition cal_link :: "event \<Rightarrow> event list \<Rightarrow> 64 word \<Rightarrow> (event list \<times> bool \<times> 64 word) res" where
  "cal_link e xs k =
     (case xs of
        [] \<Rightarrow> Inr ([e], True, k)
      | h # _ \<Rightarrow>
          (let k = k + 1
           in if ev_time e < ev_time h then Inr (e # xs, True, k)
              else (case cal_after (ev_time e) (rev xs) [] k of
                  None \<Rightarrow> Inl LoopDoesNotEnd
                | Some (befores, later, k) \<Rightarrow>
                    Inr (rev befores @ e # later, ev_time (hd befores) < ev_time e, k))))"

text \<open>The walk of \<open>insert2\<close> from the head to the first event that is not earlier.\<close>

fun cal_before :: "time \<Rightarrow> event list \<Rightarrow> event list \<Rightarrow> (event list \<times> event list) option" where
  "cal_before t [] passed = None"
| "cal_before t (x # xs) passed =
     (if ev_time x < t then cal_before t xs (passed @ [x]) else Some (passed, x # xs))"

definition cal_link2 :: "event \<Rightarrow> event list \<Rightarrow> (event list \<times> bool) res" where
  "cal_link2 e xs =
     (case xs of
        [] \<Rightarrow> Inr ([e], True)
      | h # _ \<Rightarrow>
          (if ev_time (last xs) < ev_time e then Inr (xs @ [e], ev_time h \<noteq> ev_time e)
           else (case cal_before (ev_time e) xs [] of
               None \<Rightarrow> Inl LoopDoesNotEnd
             | Some (passed, rest) \<Rightarrow> Inr (passed @ e # rest, ev_time (hd rest) \<noteq> ev_time e))))"

definition cal_insert2 :: "event \<Rightarrow> calendar \<Rightarrow> calendar res" where
  "cal_insert2 e c =
     (let i = CALENDAR_HASH (ev_time e) c
      in res_bind (bucket_at i c) (\<lambda>b.
         res_bind (cal_link2 e (b_list b)) (\<lambda>(xs, uniq).
           Inr ((set_bucket i \<lparr>b_list = xs, b_count = b_count b + of_bool uniq\<rparr> c)
                  \<lparr>stat_qsize := stat_qsize c + of_bool uniq, qsize := qsize c + 1\<rparr>))))"

subsection \<open>Resizing\<close>

fun cal_fullest :: "bucket \<Rightarrow> bucket list \<Rightarrow> bucket" where
  "cal_fullest b [] = b"
| "cal_fullest b (x # xs) = cal_fullest (if b_count b < b_count x then x else b) xs"

text \<open>\<open>newwidth\<close>; the fullest bucket is the first of those with the largest count.\<close>

definition cal_newwidth :: "int \<Rightarrow> calendar \<Rightarrow> (real \<times> calendar) res" where
  "cal_newwidth newsize c =
     (let adjust = (adjust_new_width_interval c \<noteq> 0);
          c = (if adjust then c\<lparr>time_to_newwidth := adjust_new_width_interval c\<rparr> else c)
      in if adjust \<and> 0 < avg_gap c then Inr (avg_gap c * 4, c)
         else (case buckets c of
             [] \<Rightarrow> Inl IndexOutOfRange
           | b # bs \<Rightarrow>
               (let fullest = cal_fullest b bs; nsamples = b_count fullest
                in if nsamples \<le> 4 then Inr (width c, c)
                   else (case b_list fullest of
                       [] \<Rightarrow> Inl NullPointer
                     | h # xs \<Rightarrow>
                         (let nw = ev_time (last (h # xs)) - ev_time h
                          in if 0 < nw
                             then Inr (nw / of_int (if newsize < nsamples then newsize else nsamples) * 4, c)
                             else Inl CalendarAssert)))))"

fun cal_insert2_all :: "event list \<Rightarrow> calendar \<Rightarrow> calendar res" where
  "cal_insert2_all [] c = Inr c"
| "cal_insert2_all (e # es) c = res_bind (cal_insert2 e c) (cal_insert2_all es)"

text \<open>Setting up the new buckets and moving the events, each old bucket from its end.\<close>

definition cal_rebuild :: "int \<Rightarrow> real \<Rightarrow> time \<Rightarrow> calendar \<Rightarrow> calendar res" where
  "cal_rebuild newsize bwidth start c =
     (let oldb = buckets c
      in res_bind (cal_reinit newsize bwidth start c) (\<lambda>c.
         res_bind (cal_insert2_all (concat (map (\<lambda>b. rev (b_list b)) oldb)) c) (\<lambda>c.
           Inr (c\<lparr>head_search := 0, insert_search := 0, round_num := 0\<rparr>))))"

definition cal_snoopy_width :: "calendar \<Rightarrow> real" where
  "cal_snoopy_width c =
     (let bwidth = (if head_search c \<noteq> 0 then real (unat (head_search c)) else 1);
          bwidth = (if insert_search c \<noteq> 0 then bwidth / real (unat (insert_search c)) else bwidth)
      in sqrt bwidth * width c)"

definition cal_resize :: "int \<Rightarrow> time \<Rightarrow> calendar \<Rightarrow> calendar res" where
  "cal_resize newsize start c =
     (if newsize = nbuckets c
      then (let bwidth = cal_snoopy_width c
            in if bwidth < min_bin_width c
               then (if 0 < time_to_newwidth c
                     then Inr (c\<lparr>time_to_newwidth := time_to_newwidth c - 1, head_search := 0,
                                 insert_search := 0, round_num := 0\<rparr>)
                     else res_bind (cal_newwidth newsize c) (\<lambda>(bwidth, c).
                            cal_rebuild newsize bwidth start c))
               else cal_rebuild newsize bwidth start c)
      else res_bind (cal_newwidth newsize c) (\<lambda>(bwidth, c).
             cal_rebuild (if newsize < 4 then 4 else newsize) bwidth start c))"

subsection \<open>Insertion\<close>

definition cal_insert :: "event \<Rightarrow> calendar \<Rightarrow> calendar res" where
  "cal_insert e c =
     (let newtime = ev_time e;
          c = (if newtime < cal_clock c
               then (let c = c\<lparr>cal_clock := newtime\<rparr> in c\<lparr>lastbucket := CALENDAR_HASH (cal_clock c) c\<rparr>)
               else c);
          i = CALENDAR_HASH newtime c
      in res_bind (bucket_at i c) (\<lambda>b.
         res_bind (cal_link e (b_list b) (insert_search c)) (\<lambda>(xs, uniq, k).
           (let c = (set_bucket i \<lparr>b_list = xs, b_count = b_count b + of_bool uniq\<rparr> c)
                      \<lparr>insert_search := k, stat_qsize := stat_qsize c + of_bool uniq, qsize := qsize c + 1\<rparr>
            in if top_threshold c < stat_qsize c
               then res_bind (shift_left_1 (nbuckets c)) (\<lambda>n. cal_resize n (cal_clock c) c)
               else Inr c))))"

subsection \<open>Finding the first event\<close>

text \<open>
  The state of the search: the bucket to look at, the bucket of the earliest event so far, that
  event, and the calendar, whose counter moves. A bucket whose first event is within the limit ends
  the search.
\<close>

type_synonym cal_search = "int \<times> int \<times> event option \<times> calendar"
type_synonym cal_found = "int \<times> event \<times> calendar"

definition CAL_DEQUEUE :: "(calendar \<Rightarrow> real) \<Rightarrow> cal_search \<Rightarrow> (cal_found + cal_search) res" where
  "CAL_DEQUEUE diffx st =
     (let (i, l, min_e, c) = st;
          c = c\<lparr>head_search := head_search c + 1\<rparr>;
          i' = (if i + 1 = nbuckets c then 0 else i + 1)
      in res_bind (bucket_at i c) (\<lambda>b.
        (case b_list b of
           [] \<Rightarrow> Inr (Inr (i', l, min_e, c))
         | e # _ \<Rightarrow>
             if ev_time e - cal_clock c < diffx c then Inr (Inl (i, e, c))
             else if (case min_e of None \<Rightarrow> True | Some m \<Rightarrow> ev_time e < ev_time m)
             then Inr (Inr (i', i, Some e, c))
             else Inr (Inr (i', l, min_e, c)))))"

definition unless_found ::
  "(cal_found + cal_search) res \<Rightarrow> (cal_search \<Rightarrow> cal_found res) \<Rightarrow> cal_found res" where
  "unless_found r f = res_bind r (\<lambda>x. case x of Inl found \<Rightarrow> Inr found | Inr st \<Rightarrow> f st)"

partial_function (option) cal_scan :: "int \<Rightarrow> cal_search \<Rightarrow> (cal_found + cal_search) res option" where
  "cal_scan dec st =
     (if fst st = dec then Some (Inr (Inr st))
      else (case CAL_DEQUEUE diff2 st of
          Inl err \<Rightarrow> Some (Inl err)
        | Inr (Inl found) \<Rightarrow> Some (Inr (Inl found))
        | Inr (Inr st) \<Rightarrow> cal_scan dec st))"

definition cal_find :: "calendar \<Rightarrow> cal_found res" where
  "cal_find c =
     (let dec = (if lastbucket c \<noteq> 0 then lastbucket c - 1 else nbuckets c - 1)
      in unless_found (CAL_DEQUEUE diff0 (lastbucket c, - 1, None, c)) (\<lambda>st.
         unless_found (CAL_DEQUEUE diff1 st) (\<lambda>st.
         unless_found (of_loop (cal_scan dec st)) (\<lambda>(i, l, min_e, c).
           res_bind (bucket_at i c) (\<lambda>b.
             (case (min_e, b_list b) of
                (Some m, []) \<Rightarrow> Inr (l, m, c)
              | (Some m, e # _) \<Rightarrow> if ev_time m < ev_time e then Inr (l, m, c) else Inr (i, e, c)
              | (None, e # _) \<Rightarrow> Inr (i, e, c)
              | (None, []) \<Rightarrow> Inl NullPointer))))))"

definition cal_head :: "calendar \<Rightarrow> (event option \<times> calendar) res" where
  "cal_head c =
     (if qsize c = 0 then Inr (None, c)
      else res_bind (cal_find c) (\<lambda>(l, e, c).
        if l = - 1 then Inl CalendarAssert
        else Inr (Some e, c\<lparr>lastbucket := l, cal_clock := ev_time e\<rparr>)))"

subsection \<open>Taking events off\<close>

text \<open>The statistics of \<open>deque\<close> for the width of the buckets.\<close>

definition cal_adjust :: "event \<Rightarrow> calendar \<Rightarrow> calendar res" where
  "cal_adjust e c =
     (if adjust_new_width_interval c = 0 then Inr c
      else if last_time c < 0 then Inr (c\<lparr>last_time := ev_time e\<rparr>)
      else
        (let c = c\<lparr>gap_num := gap_num c + 1\<rparr>
         in if gap_num c < qsize c then Inr c
            else
              (let c = c\<lparr>avg_gap := (ev_time e - last_time c) / of_int (gap_num c), gap_num := 0,
                         last_time := ev_time e, round_num := round_num c + 1\<rparr>
               in if 20 < round_num c \<and> (push_bit 1 (insert_search c) < head_search c \<or>
                                          push_bit 1 (head_search c) < insert_search c)
                  then res_bind (cal_resize (nbuckets c) (cal_clock c) c) (\<lambda>c. Inr (c\<lparr>round_num := 0\<rparr>))
                  else if 100 < round_num c
                  then Inr (c\<lparr>round_num := 0, head_search := 0, insert_search := 0\<rparr>)
                  else Inr c)))"

text \<open>
  A circle from the event \<open>e\<close> on: then \<open>e->next_\<close> is the second element and \<open>e->prev_\<close> the last. An
  event that is not in the circle has no links there.
\<close>

definition cal_circle :: "event \<Rightarrow> event list \<Rightarrow> event list" where
  "cal_circle e xs =
     (if ev_ptr e \<in> ev_ptr ` set xs
      then dropWhile (\<lambda>x. ev_ptr x \<noteq> ev_ptr e) xs @ takeWhile (\<lambda>x. ev_ptr x \<noteq> ev_ptr e) xs
      else [])"

definition cal_unlink_head :: "event \<Rightarrow> calendar \<Rightarrow> calendar res" where
  "cal_unlink_head e c =
     (let l = lastbucket c
      in res_bind (bucket_at l c) (\<lambda>b.
        (case cal_circle e (b_list b) of
           [] \<Rightarrow> Inl NullPointer
         | _ # rest \<Rightarrow>
             (let uniq = (rest = [] \<or> ev_time (hd rest) \<noteq> ev_time e)
              in Inr ((set_bucket l \<lparr>b_list = rest, b_count = b_count b - of_bool uniq\<rparr> c)
                        \<lparr>stat_qsize := stat_qsize c - of_bool uniq, qsize := qsize c - 1\<rparr>)))))"

definition cal_deque :: "calendar \<Rightarrow> (event option \<times> calendar) res" where
  "cal_deque c =
     res_bind (cal_head c) (\<lambda>(p, c).
       (case p of
          None \<Rightarrow> Inr (None, c)
        | Some e \<Rightarrow>
            res_bind (cal_adjust e c) (\<lambda>c.
            res_bind (cal_unlink_head e c) (\<lambda>c.
              if stat_qsize c < bot_threshold c
              then res_bind (cal_resize (nbuckets c div 2) (cal_clock c) c) (\<lambda>c. Inr (Some e, c))
              else Inr (Some e, c)))))"

definition cal_cancel :: "event \<Rightarrow> calendar \<Rightarrow> (event \<times> calendar) res" where
  "cal_cancel e c =
     (if ev_uid e \<le> 0 then Inr (e, c)
      else
        (let i = CALENDAR_HASH (ev_time e) c
         in res_bind (bucket_at i c) (\<lambda>b.
           (case cal_circle e (b_list b) of
              [] \<Rightarrow> Inl NullPointer
            | _ # rest \<Rightarrow>
                (let uniq = (rest = [] \<or>
                       ev_time (hd rest) \<noteq> ev_time e \<and> ev_time (last rest) \<noteq> ev_time e);
                     stat = stat_qsize c - of_bool uniq;
                     count = b_count b - of_bool uniq;
                     xs = (if ev_ptr (hd (b_list b)) = ev_ptr e then rest else remove1 e (b_list b))
                 in if uniq \<and> (stat < 0 \<or> count < 0) then Inl CalendarAssert
                    else if count = 0 \<and> xs \<noteq> [] then Inl CalendarAssert
                    else Inr (e\<lparr>ev_uid := - ev_uid e\<rparr>,
                              (set_bucket i \<lparr>b_list = xs, b_count = count\<rparr> c)
                                \<lparr>stat_qsize := stat, qsize := qsize c - 1\<rparr>))))))"

fun cal_lookup_in :: "int \<Rightarrow> bucket list \<Rightarrow> event option" where
  "cal_lookup_in uid [] = None"
| "cal_lookup_in uid (b # bs) =
     (case ls_lookup uid (b_list b) of Some p \<Rightarrow> Some p | None \<Rightarrow> cal_lookup_in uid bs)"

definition cal_lookup :: "int \<Rightarrow> calendar \<Rightarrow> event option" where
  "cal_lookup uid c = cal_lookup_in uid (buckets c)"

end
