(* ===== verification/Calendar_Buckets.thy ===== *)
theory Calendar_Buckets
  imports Calendar_Queue
begin

section \<open>The buckets of a calendar hold a set of events\<close>

text \<open>
  The invariant of the bucket array: each bucket is the sorted list of the events that hash into it,
  and the counters count events and distinct times. Linking an event in keeps it, and so does moving
  all events to buckets of another number and width, whatever these are.
\<close>

subsection \<open>Circles\<close>

lemma cal_after_abs:
  assumes "\<exists>x \<in> set xs. ev_time x \<le> t"
  shows "\<exists>k'. cal_after t xs later k =
      Some (dropWhile (\<lambda>x. t < ev_time x) xs, rev (takeWhile (\<lambda>x. t < ev_time x) xs) @ later, k')"
  using assms by (induction xs arbitrary: later k) auto

lemma ev_sorted_last:
  assumes "ev_sorted xs" and "x \<in> set xs"
  shows "ev_time x \<le> ev_time (last xs)"
proof -
  have ne: "xs \<noteq> []" using assms(2) by auto
  then have "ev_sorted (butlast xs @ [last xs])" using assms(1) by simp
  moreover have "x \<in> set (butlast xs @ [last xs])" using ne assms(2) by simp
  ultimately show ?thesis by (auto simp: sorted_wrt_append ev_key_less)
qed

lemma new_value:
  fixes f :: "'a \<Rightarrow> real"
  assumes "y \<in> S" and "f y \<le> t" and "\<And>x. x \<in> S \<Longrightarrow> f y < t \<Longrightarrow> f x \<noteq> t"
  shows "f y < t \<longleftrightarrow> t \<notin> f ` S"
  using assms by (force simp: image_iff le_less)

text \<open>\<open>insert\<close> links an event after all events that are not later.\<close>

lemma cal_link_law:
  assumes srt: "ev_sorted xs"
  shows "\<exists>k'. cal_link e xs k = Inr (abs_insert e xs, ev_time e \<notin> ev_time ` set xs, k')"
proof (cases xs)
  case Nil
  then show ?thesis by (simp add: cal_link_def abs_insert_def)
next
  case (Cons h ys)
  have hd: "ev_time h \<le> ev_time x" if "x \<in> set xs" for x
    using srt that Cons by (auto simp: ev_key_less)
  show ?thesis
  proof (cases "ev_time e < ev_time h")
    case True
    then have "ev_time e \<notin> ev_time ` set xs" using hd by force
    then show ?thesis using True Cons by (auto simp: cal_link_def abs_insert_def)
  next
    case False
    let ?L = "takeWhile (\<lambda>x. ev_time e < ev_time x) (rev xs)"
      and ?B = "dropWhile (\<lambda>x. ev_time e < ev_time x) (rev xs)"
    have ex: "\<exists>x \<in> set (rev xs). ev_time x \<le> ev_time e" using False Cons by auto
    obtain k' where a: "cal_after (ev_time e) (rev xs) [] (k + 1) = Some (?B, rev ?L, k')"
      using cal_after_abs [OF ex, of "[]" "k + 1"] by auto
    have B: "?B \<noteq> []" using ex by (auto simp: not_less)
    have split: "rev ?B @ rev ?L = xs" by (metis rev_append rev_rev_ident takeWhile_dropWhile_id)
    have late: "\<forall>x \<in> set (rev ?L). ev_time e < ev_time x" by (auto dest: set_takeWhileD)
    have "ev_sorted (rev ?B)" using srt split sorted_wrt_append by metis
    then have early: "\<forall>x \<in> set (rev ?B). ev_time x \<le> ev_time (hd ?B)"
      using ev_sorted_last [of "rev ?B"] B by (simp add: last_rev)
    have top: "ev_time (hd ?B) \<le> ev_time e" using hd_dropWhile [OF B] by simp
    have "rev ?B @ e # rev ?L = abs_insert e xs"
      using abs_insert_split [of "rev ?B" e "rev ?L"] early top late unfolding split by force
    moreover have "ev_time (hd ?B) < ev_time e \<longleftrightarrow> ev_time e \<notin> ev_time ` set xs"
    proof -
      have "hd ?B \<in> set xs" using B by (metis hd_in_set set_dropWhileD set_rev)
      moreover have "ev_time x \<noteq> ev_time e" if "x \<in> set xs" "ev_time (hd ?B) < ev_time e" for x
      proof -
        have "x \<in> set (rev ?B) \<or> x \<in> set (rev ?L)" using that(1) split by (metis Un_iff set_append)
        then show ?thesis using early late that(2) by fastforce
      qed
      ultimately show ?thesis using new_value [of "hd ?B" "set xs" ev_time "ev_time e"] top by simp
    qed
    ultimately show ?thesis using a False Cons by (simp add: cal_link_def list.case_eq_if)
  qed
qed

lemma cal_before_abs:
  "\<exists>x \<in> set xs. t \<le> ev_time x \<Longrightarrow>
   cal_before t xs passed = Some (passed @ takeWhile (\<lambda>x. ev_time x < t) xs, dropWhile (\<lambda>x. ev_time x < t) xs)"
proof (induction xs arbitrary: passed)
  case (Cons x xs)
  then show ?case by (cases "ev_time x < t") auto
qed simp

text \<open>\<open>insert2\<close> links an event before all events that are not earlier.\<close>

lemma cal_link2_law:
  assumes srt: "ev_sorted xs" and uid: "\<forall>x \<in> set xs. ev_time x = ev_time e \<longrightarrow> ev_uid e < ev_uid x"
  shows "\<exists>ys. cal_link2 e xs = Inr (ys, ev_time e \<notin> ev_time ` set xs) \<and> ev_sorted ys \<and>
    set ys = insert e (set xs)"
proof (cases "xs = [] \<or> ev_time (last xs) < ev_time e")
  case True
  have "\<forall>x \<in> set xs. ev_time x < ev_time e" using True ev_sorted_last [OF srt] by fastforce
  then show ?thesis
    using True srt by (cases xs) (auto simp: cal_link2_def sorted_wrt_append ev_key_less)
next
  case False
  let ?P = "\<lambda>x. ev_time x < ev_time e"
  let ?A = "takeWhile ?P xs" and ?Z = "dropWhile ?P xs"
  have ex: "last xs \<in> set xs" "ev_time e \<le> ev_time (last xs)" using False by auto
  then have b: "cal_before (ev_time e) xs [] = Some (?A, ?Z)" using cal_before_abs by fastforce
  have Z: "?Z \<noteq> []" using ex by (auto simp: not_less)
  have split: "?A @ ?Z = xs" by simp
  have S: "ev_sorted ?A" "ev_sorted ?Z" "\<forall>x \<in> set ?A. \<forall>z \<in> set ?Z. ev_key x < ev_key z"
    using srt split sorted_wrt_append by metis+
  have early: "\<forall>x \<in> set ?A. ev_time x < ev_time e" by (auto dest: set_takeWhileD)
  have first: "ev_time e \<le> ev_time (hd ?Z)" using hd_dropWhile [OF Z] by simp
  have "ev_time (hd ?Z) \<le> ev_time z" if "z \<in> set ?Z" for z
    using S(2) that by (cases ?Z) (auto simp: ev_key_less)
  then have late: "\<forall>z \<in> set ?Z. ev_time (hd ?Z) \<le> ev_time z" by blast
  have ez: "ev_key e < ev_key z" if "z \<in> set ?Z" for z
    using late first uid that set_dropWhileD [OF that] by (force simp: ev_key_less)
  have "ev_sorted (?A @ e # ?Z)"
    using S early ez by (auto simp: sorted_wrt_append ev_key_less)
  moreover have sets: "set xs = set ?A \<union> set ?Z" using split by (metis set_append)
  moreover have "ev_time (hd ?Z) \<noteq> ev_time e \<longleftrightarrow> ev_time e \<notin> ev_time ` set xs"
  proof -
    have "hd ?Z \<in> set ?Z" using Z by simp
    moreover have "ev_time x \<noteq> ev_time e" if "x \<in> set xs" "ev_time (hd ?Z) \<noteq> ev_time e" for x
      using that sets early late first by (metis UnE less_irrefl order_antisym)
    ultimately show ?thesis using sets by (metis UnI2 image_iff)
  qed
  moreover have "cal_link2 e xs = Inr (?A @ e # ?Z, ev_time (hd ?Z) \<noteq> ev_time e)"
    using b False by (simp add: cal_link2_def list.case_eq_if)
  ultimately show ?thesis by (intro exI [of _ "?A @ e # ?Z"]) auto
qed

text \<open>Taking an event out of a circle.\<close>

lemma cal_circle_head: "cal_circle x (x # xs) = x # xs"
  by (simp add: cal_circle_def)

lemma cal_circle_split:
  fixes e :: event
  assumes "distinct (map ev_ptr (as @ e # bs))"
  shows "cal_circle e (as @ e # bs) = e # bs @ as"
proof -
  let ?P = "\<lambda>x. ev_ptr x \<noteq> ev_ptr e"
  have "ev_ptr e \<notin> ev_ptr ` set as" using assms by simp
  then have "\<And>x. x \<in> set as \<Longrightarrow> ?P x" by (metis imageI)
  then have "dropWhile ?P (as @ e # bs) = dropWhile ?P (e # bs)"
    "takeWhile ?P (as @ e # bs) = as @ takeWhile ?P (e # bs)"
    using dropWhile_append2 [of as ?P] takeWhile_append2 [of as ?P] by blast+
  then show ?thesis by (simp add: cal_circle_def)
qed

subsection \<open>Hashing\<close>

text \<open>The day of a time, and the bucket of a day.\<close>

definition cal_day :: "calendar \<Rightarrow> time \<Rightarrow> int" where
  "cal_day c t = \<lfloor>t / width c\<rfloor>"

lemma CALENDAR_HASH_day:
  assumes "0 \<le> t" "0 < width c" "0 < nbuckets c"
  shows "CALENDAR_HASH t c = cal_day c t mod nbuckets c"
proof -
  let ?x = "t / width c" and ?n = "nbuckets c"
  have x: "0 \<le> ?x" "0 \<le> ?x / of_int ?n" using assms by simp_all
  have d: "\<lfloor>?x / of_int ?n\<rfloor> = \<lfloor>?x\<rfloor> div ?n" 
    by (rule floor_divide_real_eq_div) (use assms(3) in simp)
  have f: "fmod ?x (of_int ?n) = ?x - of_int (\<lfloor>?x\<rfloor> div ?n * ?n)"
    unfolding fmod_def int_of_double_def using x(2) d by simp
  have fl: "\<lfloor>?x - of_int (\<lfloor>?x\<rfloor> div ?n * ?n)\<rfloor> = \<lfloor>?x\<rfloor> mod ?n"
    unfolding floor_diff_of_int by (simp add: minus_div_mult_eq_mod)
  then have "0 \<le> \<lfloor>?x - of_int (\<lfloor>?x\<rfloor> div ?n * ?n)\<rfloor>" using assms(3) by simp
  then have "0 \<le> fmod ?x (of_int ?n)" unfolding f by simp
  then show ?thesis
    unfolding CALENDAR_HASH_def int_of_double_def cal_day_def f using fl by presburger
qed

lemma CALENDAR_HASH_range:
  assumes "0 \<le> t" "0 < width c" "0 < nbuckets c"
  shows "0 \<le> CALENDAR_HASH t c" "CALENDAR_HASH t c < nbuckets c"
  using CALENDAR_HASH_day [OF assms] assms(3) by simp_all

lemma CALENDAR_HASH_cong:
  "width c' = width c \<Longrightarrow> nbuckets c' = nbuckets c \<Longrightarrow> CALENDAR_HASH t c' = CALENDAR_HASH t c"
  by (simp add: CALENDAR_HASH_def)

subsection \<open>The invariant of the buckets\<close>

definition cal_frame :: "calendar \<Rightarrow> bool" where
  "cal_frame c \<longleftrightarrow>
     4 \<le> nbuckets c \<and> nbuckets c = int (length (buckets c)) \<and> 0 < width c \<and>
     diff0 c = width c * of_int (nbuckets c) / 2 \<and> diff1 c = diff0 c + width c \<and>
     diff2 c = width c * of_int (nbuckets c) \<and>
     top_threshold c = 2 * nbuckets c \<and> bot_threshold c = nbuckets c div 2 - 2"

definition cal_day_list :: "event set \<Rightarrow> calendar \<Rightarrow> nat \<Rightarrow> bool" where
  "cal_day_list S c i \<longleftrightarrow>
     ev_sorted (b_list (buckets c ! i)) \<and>
     set (b_list (buckets c ! i)) = {x \<in> S. CALENDAR_HASH (ev_time x) c = int i} \<and>
     b_count (buckets c ! i) = int (card (ev_time ` set (b_list (buckets c ! i))))"

definition cal_holds :: "event set \<Rightarrow> calendar \<Rightarrow> bool" where
  "cal_holds S c \<longleftrightarrow>
     cal_frame c \<and> finite S \<and> (\<forall>x \<in> S. 0 \<le> ev_time x) \<and>
     (\<forall>i < length (buckets c). cal_day_list S c i) \<and>
     qsize c = int (card S) \<and> stat_qsize c = int (card (ev_time ` S))"

text \<open>The fields that the buckets do not depend on.\<close>

lemma CALENDAR_HASH_upd [simp]:
  "CALENDAR_HASH t (c\<lparr>insert_search := k\<rparr>) = CALENDAR_HASH t c"
  "CALENDAR_HASH t (c\<lparr>head_search := k\<rparr>) = CALENDAR_HASH t c"
  "CALENDAR_HASH t (c\<lparr>round_num := r\<rparr>) = CALENDAR_HASH t c"
  "CALENDAR_HASH t (c\<lparr>gap_num := r\<rparr>) = CALENDAR_HASH t c"
  "CALENDAR_HASH t (c\<lparr>last_time := a\<rparr>) = CALENDAR_HASH t c"
  "CALENDAR_HASH t (c\<lparr>avg_gap := a\<rparr>) = CALENDAR_HASH t c"
  "CALENDAR_HASH t (c\<lparr>time_to_newwidth := w\<rparr>) = CALENDAR_HASH t c"
  "CALENDAR_HASH t (c\<lparr>lastbucket := r\<rparr>) = CALENDAR_HASH t c"
  "CALENDAR_HASH t (c\<lparr>cal_clock := a\<rparr>) = CALENDAR_HASH t c"
  "CALENDAR_HASH t (c\<lparr>stat_qsize := r\<rparr>) = CALENDAR_HASH t c"
  "CALENDAR_HASH t (c\<lparr>qsize := r\<rparr>) = CALENDAR_HASH t c"
  "CALENDAR_HASH t (c\<lparr>buckets := bs\<rparr>) = CALENDAR_HASH t c"
  by (simp_all add: CALENDAR_HASH_def)

lemma cal_holds_upd [simp]:
  "cal_holds S (c\<lparr>insert_search := k\<rparr>) = cal_holds S c"
  "cal_holds S (c\<lparr>head_search := k\<rparr>) = cal_holds S c"
  "cal_holds S (c\<lparr>round_num := r\<rparr>) = cal_holds S c"
  "cal_holds S (c\<lparr>gap_num := r\<rparr>) = cal_holds S c"
  "cal_holds S (c\<lparr>last_time := a\<rparr>) = cal_holds S c"
  "cal_holds S (c\<lparr>avg_gap := a\<rparr>) = cal_holds S c"
  "cal_holds S (c\<lparr>time_to_newwidth := w\<rparr>) = cal_holds S c"
  "cal_holds S (c\<lparr>lastbucket := r\<rparr>) = cal_holds S c"
  "cal_holds S (c\<lparr>cal_clock := a\<rparr>) = cal_holds S c"
  by (simp_all add: cal_holds_def cal_frame_def cal_day_list_def)

lemma cal_holdsD:
  assumes "cal_holds S c"
  shows "cal_frame c" "finite S" "\<And>x. x \<in> S \<Longrightarrow> 0 \<le> ev_time x"
    "qsize c = int (card S)" "stat_qsize c = int (card (ev_time ` S))"
    "0 < width c" "0 < nbuckets c" "4 \<le> nbuckets c" "nbuckets c = int (length (buckets c))"
  using assms by (auto simp: cal_holds_def cal_frame_def)

text \<open>The bucket of a time.\<close>

abbreviation bucket_of :: "calendar \<Rightarrow> time \<Rightarrow> bucket" where
  "bucket_of c t \<equiv> buckets c ! nat (CALENDAR_HASH t c)"

lemma bucket_of_law:
  assumes h: "cal_holds S c" and t: "0 \<le> t"
  shows "bucket_at (CALENDAR_HASH t c) c = Inr (bucket_of c t)"
    "nat (CALENDAR_HASH t c) < length (buckets c)" "0 \<le> CALENDAR_HASH t c"
    "ev_sorted (b_list (bucket_of c t))"
    "set (b_list (bucket_of c t)) = {x \<in> S. CALENDAR_HASH (ev_time x) c = CALENDAR_HASH t c}"
    "b_count (bucket_of c t) = int (card (ev_time ` set (b_list (bucket_of c t))))"
proof -
  note D = cal_holdsD [OF h]
  note R = CALENDAR_HASH_range [OF t D(6,7)]
  show i: "nat (CALENDAR_HASH t c) < length (buckets c)" using R D(9) by simp
  show "0 \<le> CALENDAR_HASH t c" by (rule R(1))
  show "bucket_at (CALENDAR_HASH t c) c = Inr (bucket_of c t)"
    using R D(9) by (simp add: bucket_at_def)
  have "cal_day_list S c (nat (CALENDAR_HASH t c))" using h i by (simp add: cal_holds_def)
  then show "ev_sorted (b_list (bucket_of c t))"
    "set (b_list (bucket_of c t)) = {x \<in> S. CALENDAR_HASH (ev_time x) c = CALENDAR_HASH t c}"
    "b_count (bucket_of c t) = int (card (ev_time ` set (b_list (bucket_of c t))))"
    using R(1) by (auto simp: cal_day_list_def)
qed

text \<open>A time is new in its bucket exactly when it is new in the calendar.\<close>

lemma new_time_iff:
  assumes "cal_holds S c" and "0 \<le> t"
  shows "t \<notin> ev_time ` set (b_list (bucket_of c t)) \<longleftrightarrow> t \<notin> ev_time ` S"
  unfolding bucket_of_law(5) [OF assms] by auto

lemma card_insert_new: "finite A \<Longrightarrow> int (card (insert a A)) = int (card A) + of_bool (a \<notin> A)"
  by (simp add: card_insert_if)

lemma cal_put:
  assumes h: "cal_holds S c" and e: "0 \<le> ev_time e" "e \<notin> S"
    and ys: "ev_sorted ys" "set ys = insert e (set (b_list (bucket_of c (ev_time e))))"
    and uniq: "uniq \<longleftrightarrow> ev_time e \<notin> ev_time ` set (b_list (bucket_of c (ev_time e)))"
  shows "cal_holds (insert e S)
    ((set_bucket (CALENDAR_HASH (ev_time e) c)
        \<lparr>b_list = ys, b_count = b_count (bucket_of c (ev_time e)) + of_bool uniq\<rparr> c)
     \<lparr>stat_qsize := stat_qsize c + of_bool uniq, qsize := qsize c + 1\<rparr>)" (is "cal_holds _ ?c")
proof -
  note B = bucket_of_law [OF h e(1)] and D = cal_holdsD [OF h]
  let ?i = "nat (CALENDAR_HASH (ev_time e) c)"
  have hash: "CALENDAR_HASH t ?c = CALENDAR_HASH t c" for t by (simp add: set_bucket_def)
  have "cal_day_list (insert e S) ?c j" if j: "j < length (buckets c)" for j
  proof (cases "j = ?i")
    case True
    have "int (card (ev_time ` set ys)) = b_count (bucket_of c (ev_time e)) + of_bool uniq"
      unfolding ys(2) image_insert uniq B(6) by (rule card_insert_new) simp
    moreover have "set ys = {x \<in> insert e S. CALENDAR_HASH (ev_time x) c = int j}"
      unfolding ys(2) B(5) using True B(3) by auto
    ultimately show ?thesis
      using True ys(1) B(2) unfolding cal_day_list_def hash by (simp add: set_bucket_def)
  next
    case False
    have "cal_day_list S c j" using h j by (simp add: cal_holds_def)
    moreover have "CALENDAR_HASH (ev_time e) c \<noteq> int j" using False by auto
    ultimately show ?thesis
      using False unfolding cal_day_list_def hash by (auto simp: set_bucket_def)
  qed
  moreover have "int (card (ev_time ` insert e S)) = stat_qsize c + of_bool uniq"
    unfolding image_insert D(5) uniq new_time_iff [OF h e(1)] by (rule card_insert_new) (simp add: D(2))
  moreover have "cal_frame ?c" using D(1) by (simp add: cal_frame_def set_bucket_def)
  ultimately show ?thesis
    using D e unfolding cal_holds_def by (simp add: set_bucket_def)
qed

lemma cal_take:
  assumes h: "cal_holds S c" and e: "e \<in> S"
    and ys: "ev_sorted ys" "set ys = set (b_list (bucket_of c (ev_time e))) - {e}"
    and uniq: "uniq \<longleftrightarrow> ev_time e \<notin> ev_time ` set ys"
  shows "cal_holds (S - {e})
    ((set_bucket (CALENDAR_HASH (ev_time e) c)
        \<lparr>b_list = ys, b_count = b_count (bucket_of c (ev_time e)) - of_bool uniq\<rparr> c)
     \<lparr>stat_qsize := stat_qsize c - of_bool uniq, qsize := qsize c - 1\<rparr>)" (is "cal_holds _ ?c")
    and "of_bool uniq \<le> b_count (bucket_of c (ev_time e))" "of_bool uniq \<le> stat_qsize c"
    "b_count (bucket_of c (ev_time e)) - of_bool uniq = int (card (ev_time ` set ys))"
proof -
  note D = cal_holdsD [OF h]
  note B = bucket_of_law [OF h D(3) [OF e]]
  let ?i = "nat (CALENDAR_HASH (ev_time e) c)"
  have hash: "CALENDAR_HASH t ?c = CALENDAR_HASH t c" for t by (simp add: set_bucket_def)
  have mem: "e \<in> set (b_list (bucket_of c (ev_time e)))" using e B(5) by simp
  have "insert (ev_time e) (ev_time ` set ys) = ev_time ` set (b_list (bucket_of c (ev_time e)))"
    unfolding ys(2) using mem by blast
  then have cnt: "int (card (ev_time ` set ys)) + of_bool uniq = b_count (bucket_of c (ev_time e))"
    unfolding B(6) uniq using card_insert_new [of "ev_time ` set ys" "ev_time e"] by simp
  have new: "ev_time e \<notin> ev_time ` set ys \<longleftrightarrow> ev_time e \<notin> ev_time ` (S - {e})"
    unfolding ys(2) B(5) by auto
  have "insert (ev_time e) (ev_time ` (S - {e})) = ev_time ` S" using e by blast
  then have stat: "int (card (ev_time ` (S - {e}))) + of_bool uniq = stat_qsize c"
    unfolding D(5) uniq new using card_insert_new [of "ev_time ` (S - {e})" "ev_time e"] D(2) by simp
  show "of_bool uniq \<le> b_count (bucket_of c (ev_time e))" "of_bool uniq \<le> stat_qsize c"
    "b_count (bucket_of c (ev_time e)) - of_bool uniq = int (card (ev_time ` set ys))"
    using cnt stat by simp_all
  have "cal_day_list (S - {e}) ?c j" if j: "j < length (buckets c)" for j
  proof (cases "j = ?i")
    case True
    have "set ys = {x \<in> S - {e}. CALENDAR_HASH (ev_time x) c = int j}"
      unfolding ys(2) B(5) using True B(3) by auto
    then show ?thesis
      using True ys(1) B(2) cnt unfolding cal_day_list_def hash by (simp add: set_bucket_def)
  next
    case False
    have "cal_day_list S c j" using h j by (simp add: cal_holds_def)
    moreover have "CALENDAR_HASH (ev_time e) c \<noteq> int j" using False by auto
    ultimately show ?thesis
      using False unfolding cal_day_list_def hash by (auto simp: set_bucket_def)
  qed
  moreover have "cal_frame ?c" using D(1) by (simp add: cal_frame_def set_bucket_def)
  moreover have "int (card (S - {e})) = int (card S) - 1"
    using e D(2) card_Suc_Diff1 [of S e] by simp
  ultimately show "cal_holds (S - {e}) ?c"
    using D stat unfolding cal_holds_def by (simp add: set_bucket_def)
qed

end
