(* ===== verification/Calendar_Resize.thy ===== *)
theory Calendar_Resize
  imports Calendar_Buckets
begin

section \<open>Moving a calendar to other buckets\<close>

text \<open>
  Resizing keeps the events of the calendar. \<open>insert2\<close> puts an event before the others of the same
  time, and the old buckets are emptied from their ends, so simultaneous events stay in the order in
  which they were scheduled. \<open>newwidth\<close> never fails and gives a positive width.
\<close>

text \<open>What the bucket operations do not touch.\<close>

definition cal_same :: "calendar \<Rightarrow> calendar \<Rightarrow> bool" where
  "cal_same c c' \<longleftrightarrow> nbuckets c' = nbuckets c \<and> width c' = width c \<and> lastbucket c' = lastbucket c \<and>
     cal_clock c' = cal_clock c"

lemma cal_same_trans: "cal_same a b \<Longrightarrow> cal_same b c \<Longrightarrow> cal_same a c"
  by (simp add: cal_same_def)

lemma cal_insert2_law:
  assumes h: "cal_holds S c" and e: "0 \<le> ev_time e" "e \<notin> S"
    and first: "\<forall>x \<in> S. ev_time x = ev_time e \<longrightarrow> ev_uid e < ev_uid x"
  shows "\<exists>c'. cal_insert2 e c = Inr c' \<and> cal_holds (insert e S) c' \<and> cal_same c c'"
proof -
  note B = bucket_of_law [OF h e(1)]
  have "\<forall>x \<in> set (b_list (bucket_of c (ev_time e))). ev_time x = ev_time e \<longrightarrow> ev_uid e < ev_uid x"
    unfolding B(5) using first by simp
  then obtain ys uniq where ys: "cal_link2 e (b_list (bucket_of c (ev_time e))) = Inr (ys, uniq)"
      "ev_sorted ys" "set ys = insert e (set (b_list (bucket_of c (ev_time e))))"
      "uniq \<longleftrightarrow> ev_time e \<notin> ev_time ` set (b_list (bucket_of c (ev_time e)))"
    using cal_link2_law [OF B(4)] by blast
  have "cal_insert2 e c =
      Inr ((set_bucket (CALENDAR_HASH (ev_time e) c)
        \<lparr>b_list = ys, b_count = b_count (bucket_of c (ev_time e)) + of_bool uniq\<rparr> c)
        \<lparr>stat_qsize := stat_qsize c + of_bool uniq, qsize := qsize c + 1\<rparr>)"
    unfolding cal_insert2_def Let_def B(1) res_bind.simps ys(1) by simp
  then show ?thesis
    using cal_put [OF h e ys(2-4)] by (simp add: cal_same_def set_bucket_def)
qed

lemma cal_insert2_all_law:
  assumes "cal_holds T c" and "\<forall>e \<in> set es. 0 \<le> ev_time e \<and> e \<notin> T" and "distinct es"
    and "sorted_wrt (\<lambda>x e. ev_time x = ev_time e \<longrightarrow> ev_uid e < ev_uid x) es"
    and "\<forall>x \<in> T. \<forall>e \<in> set es. ev_time x = ev_time e \<longrightarrow> ev_uid e < ev_uid x"
  shows "\<exists>c'. cal_insert2_all es c = Inr c' \<and> cal_holds (T \<union> set es) c' \<and> cal_same c c'"
  using assms
proof (induction es arbitrary: T c)
  case Nil
  then show ?case by (simp add: cal_same_def)
next
  case (Cons e es)
  obtain c1 where c1: "cal_insert2 e c = Inr c1" "cal_holds (insert e T) c1" "cal_same c c1"
    using cal_insert2_law [OF Cons.prems(1), of e] Cons.prems by auto
  obtain c' where "cal_insert2_all es c1 = Inr c'" "cal_holds (insert e T \<union> set es) c'" "cal_same c1 c'"
    using Cons.IH [OF c1(2)] Cons.prems by auto
  then show ?case using c1 cal_same_trans by auto
qed

text \<open>The order in which \<open>resize\<close> moves the events.\<close>

lemma moved_order:
  assumes "\<forall>i < length bs. ev_sorted (b_list (bs ! i)) \<and> (\<forall>x \<in> set (b_list (bs ! i)). f (ev_time x) = k + int i)"
  shows "sorted_wrt (\<lambda>x e. ev_time x = ev_time e \<longrightarrow> ev_uid e < ev_uid x)
           (concat (map (\<lambda>b. rev (b_list b)) bs)) \<and>
         distinct (concat (map (\<lambda>b. rev (b_list b)) bs)) \<and>
         (\<forall>x \<in> set (concat (map (\<lambda>b. rev (b_list b)) bs)). k \<le> f (ev_time x))"
  using assms
proof (induction bs arbitrary: k)
  case (Cons b bs)
  let ?tl = "concat (map (\<lambda>b. rev (b_list b)) bs)"
  have "ev_sorted (b_list (bs ! i)) \<and> (\<forall>x \<in> set (b_list (bs ! i)). f (ev_time x) = k + 1 + int i)"
    if "i < length bs" for i
    using Cons.prems [rule_format, of "Suc i"] that by simp
  then have IH: "sorted_wrt (\<lambda>x e. ev_time x = ev_time e \<longrightarrow> ev_uid e < ev_uid x) ?tl"
    "distinct ?tl" "\<forall>x \<in> set ?tl. k + 1 \<le> f (ev_time x)"
    using Cons.IH [of "k + 1"] by blast+
  have one: "ev_sorted (b_list b)" "\<forall>x \<in> set (b_list b). f (ev_time x) = k"
    using Cons.prems [rule_format, of 0] by simp_all
  have cross: "ev_time x \<noteq> ev_time y" if "x \<in> set (b_list b)" "y \<in> set ?tl" for x y
    using that one(2) IH(3) by fastforce
  have "sorted_wrt (\<lambda>x e. ev_time x = ev_time e \<longrightarrow> ev_uid e < ev_uid x) (rev (b_list b))"
    unfolding sorted_wrt_rev by (rule sorted_wrt_mono_rel [OF _ one(1)]) (auto simp: ev_key_less)
  then have "sorted_wrt (\<lambda>x e. ev_time x = ev_time e \<longrightarrow> ev_uid e < ev_uid x) (rev (b_list b) @ ?tl)"
    unfolding sorted_wrt_append using IH(1) cross by simp
  moreover have "distinct (rev (b_list b) @ ?tl)"
    unfolding distinct_append using ev_sorted_distinct [OF one(1)] IH(2) cross by fastforce
  moreover have "\<forall>x \<in> set (rev (b_list b) @ ?tl). k \<le> f (ev_time x)"
    unfolding set_append using one(2) IH(3) by fastforce
  ultimately show ?case by simp
qed simp

text \<open>The events of a calendar, in the order of its buckets.\<close>

lemma moved_set:
  assumes "cal_holds S c"
  shows "set (concat (map (\<lambda>b. rev (b_list b)) (buckets c))) = S"
    "(\<Union>b \<in> set (buckets c). set (b_list b)) = S"
proof -
  have "x \<in> S \<longleftrightarrow> (\<exists>b \<in> set (buckets c). x \<in> set (b_list b))" for x
  proof
    assume x: "x \<in> S"
    note B = bucket_of_law [OF assms cal_holdsD(3) [OF assms x]]
    show "\<exists>b \<in> set (buckets c). x \<in> set (b_list b)"
      using B(2,5) x by (intro bexI [of _ "bucket_of c (ev_time x)"]) auto
  next
    assume "\<exists>b \<in> set (buckets c). x \<in> set (b_list b)"
    then obtain i where "i < length (buckets c)" "x \<in> set (b_list (buckets c ! i))"
      by (metis in_set_conv_nth)
    then show "x \<in> S" using assms by (auto simp: cal_holds_def cal_day_list_def)
  qed
  then show "set (concat (map (\<lambda>b. rev (b_list b)) (buckets c))) = S"
    "(\<Union>b \<in> set (buckets c). set (b_list b)) = S" by auto
qed

subsection \<open>New buckets\<close>

lemma cal_reinit_law:
  assumes "4 \<le> n" "n < 2 ^ 30" "0 < w"
  shows "\<exists>c'. cal_reinit n w start c = Inr c' \<and> cal_holds {} c' \<and> nbuckets c' = n \<and> width c' = w \<and>
    cal_clock c' = cal_clock c \<and> lastbucket c' = CALENDAR_HASH start c'"
proof -
  have "in_int32 (2 * n)" using assms by (simp add: in_int32_def)
  then show ?thesis
    using assms unfolding cal_reinit_def
    by (simp add: shift_left_1_def Let_def cal_holds_def cal_frame_def cal_day_list_def CALENDAR_HASH_def)
qed

lemma cal_rebuild_law:
  assumes h: "cal_holds S c" and n: "4 \<le> n" "n < 2 ^ 30" "0 < w"
  shows "\<exists>c'. cal_rebuild n w start c = Inr c' \<and> cal_holds S c' \<and> nbuckets c' = n \<and>
    cal_clock c' = cal_clock c \<and> lastbucket c' = CALENDAR_HASH start c'"
proof -
  let ?es = "concat (map (\<lambda>b. rev (b_list b)) (buckets c))"
  obtain c1 where c1: "cal_reinit n w start c = Inr c1" "cal_holds {} c1" "nbuckets c1 = n"
    "cal_clock c1 = cal_clock c" "lastbucket c1 = CALENDAR_HASH start c1"
    using cal_reinit_law [OF n] by blast
  have "\<forall>i < length (buckets c). ev_sorted (b_list (buckets c ! i)) \<and>
      (\<forall>x \<in> set (b_list (buckets c ! i)). CALENDAR_HASH (ev_time x) c = 0 + int i)"
    using h by (simp add: cal_holds_def cal_day_list_def)
  note M = moved_order [where f = "\<lambda>t. CALENDAR_HASH t c", OF this]
  obtain c2 where c2: "cal_insert2_all ?es c1 = Inr c2" "cal_holds S c2" "cal_same c1 c2"
    using cal_insert2_all_law [OF c1(2), of ?es] M moved_set(1) [OF h] cal_holdsD(3) [OF h] by auto
  have "CALENDAR_HASH start c2 = CALENDAR_HASH start c1"
    using c2(3) by (intro CALENDAR_HASH_cong) (simp_all add: cal_same_def)
  then show ?thesis
    using c1 c2 by (simp add: cal_rebuild_def cal_same_def)
qed

subsection \<open>The new width\<close>

lemma cal_fullest_mem: "cal_fullest b bs \<in> set (b # bs)"
  by (induction bs arbitrary: b) (auto split: if_splits)

lemma cal_newwidth_law:
  assumes h: "cal_holds S c" and n: "0 < n"
  shows "\<exists>w k. cal_newwidth n c = Inr (w, c\<lparr>time_to_newwidth := k\<rparr>) \<and> 0 < w"
proof -
  note D = cal_holdsD [OF h]
  obtain b bs where bs: "buckets c = b # bs" using D(8,9) by (cases "buckets c") auto
  obtain i where i: "i < length (buckets c)" "cal_fullest b bs = buckets c ! i"
    using cal_fullest_mem [of b bs] bs by (metis in_set_conv_nth)
  let ?f = "cal_fullest b bs"
  have f: "ev_sorted (b_list ?f)" "b_count ?f = int (card (ev_time ` set (b_list ?f)))"
    using h i by (simp_all add: cal_holds_def cal_day_list_def)
  show ?thesis
  proof (cases "b_count ?f \<le> 4")
    case True
    then show ?thesis
      using bs D(6) by (auto simp: cal_newwidth_def Let_def intro: exI [of _ "time_to_newwidth c"])
  next
    case False
    then obtain x xs where x: "b_list ?f = x # xs" using f(2) by (cases "b_list ?f") auto
    let ?l = "last (x # xs)"
    have lt: "ev_time x < ev_time ?l"
    proof (rule ccontr)
      assume le: "\<not> ?thesis"
      have eq: "ev_time y = ev_time x" if "y \<in> set (x # xs)" for y
      proof -
        have "ev_time y \<le> ev_time ?l" using ev_sorted_last [OF f(1), of y] that unfolding x .
        moreover have "ev_time x \<le> ev_time y" using f(1) that unfolding x by (auto simp: ev_key_less)
        ultimately show ?thesis using le by simp
      qed
      have "ev_time ` set (b_list ?f) \<subseteq> {ev_time x}"
        by (rule image_subsetI) (unfold x, drule eq, simp only: singleton_iff)
      then have "card (ev_time ` set (b_list ?f)) \<le> card {ev_time x}" by (rule card_mono [rotated]) simp
      then show False using False f(2) by simp
    qed
    have "0 < (if n < b_count ?f then n else b_count ?f)" using n False by simp
    then show ?thesis
      using bs False x lt by (auto simp: cal_newwidth_def Let_def intro: exI [of _ "time_to_newwidth c"])
  qed
qed

lemma cal_snoopy_width_pos:
  assumes "0 < width c"
  shows "0 < cal_snoopy_width c"
proof -
  have "0 < real (unat w)" if "w \<noteq> 0" for w :: "64 word"
    using that by (simp add: unat_gt_0 del: of_nat_unat)
  then show ?thesis using assms by (simp add: cal_snoopy_width_def Let_def del: of_nat_unat)
qed

lemma cal_resize_law:
  assumes h: "cal_holds S c" and last: "lastbucket c = CALENDAR_HASH (cal_clock c) c"
    and n: "0 < n" "n < 2 ^ 30"
  shows "\<exists>c'. cal_resize n (cal_clock c) c = Inr c' \<and> cal_holds S c' \<and>
    nbuckets c' = max 4 n \<and> cal_clock c' = cal_clock c \<and>
    lastbucket c' = CALENDAR_HASH (cal_clock c') c'"
proof -
  note D = cal_holdsD [OF h]
  obtain w k where w: "cal_newwidth n c = Inr (w, c\<lparr>time_to_newwidth := k\<rparr>)" "0 < w"
    using cal_newwidth_law [OF h n(1)] by blast
  have R: "\<exists>c'. cal_rebuild m v (cal_clock c) d = Inr c' \<and> cal_holds S c' \<and> nbuckets c' = m \<and>
    cal_clock c' = cal_clock c \<and> lastbucket c' = CALENDAR_HASH (cal_clock c') c'"
    if "cal_holds S d" "cal_clock d = cal_clock c" "4 \<le> m" "m < 2 ^ 30" "0 < v" for m v d
    using cal_rebuild_law [OF that(1,3-5), of "cal_clock c"] that(2) by auto
  show ?thesis
  proof (cases "n = nbuckets c")
    case True
    have m: "max 4 n = n" "4 \<le> n" using True D(8) by simp_all
    have s: "0 < cal_snoopy_width c" using cal_snoopy_width_pos [OF D(6)] .
    show ?thesis
      unfolding m(1) using True w(1) h last
        R [OF h refl m(2) n(2) s] R [of "c\<lparr>time_to_newwidth := k\<rparr>", OF _ _ m(2) n(2) w(2)]
      by (auto simp: cal_resize_def Let_def)
  next
    case False
    have m: "(if n < 4 then 4 else n) = max 4 n" by simp
    show ?thesis
      using False w(1) h R [of "c\<lparr>time_to_newwidth := k\<rparr>" "max 4 n" w] n(2) w(2)
      by (simp add: cal_resize_def m)
  qed
qed

end
