(* ===== verification/Calendar_Search.thy ===== *)
theory Calendar_Search
  imports Calendar_Resize
begin

section \<open>The search for the first event\<close>

text \<open>
  \<open>head\<close> goes through the buckets once round, from the day of the last event taken off. An event
  within the limit of its bucket is of this year, and then no other is earlier; when the search
  passes all limits every event is of a later year and the earliest seen is taken. The limits
  separate this year from the next in every bucket because there are at least four buckets.
\<close>

text \<open>Days are counted from the day of the clock; the offset of an event is the number of buckets
  from there to its own.\<close>

definition cal_days :: "calendar \<Rightarrow> event \<Rightarrow> int" where
  "cal_days c x = cal_day c (ev_time x) - cal_day c (cal_clock c)"

definition cal_offset :: "calendar \<Rightarrow> event \<Rightarrow> int" where
  "cal_offset c x = cal_days c x mod nbuckets c"

definition cal_ready :: "event set \<Rightarrow> calendar \<Rightarrow> bool" where
  "cal_ready S c \<longleftrightarrow> cal_holds S c \<and> 0 \<le> cal_clock c \<and> (\<forall>x \<in> S. cal_clock c \<le> ev_time x) \<and>
     lastbucket c = CALENDAR_HASH (cal_clock c) c"

definition first_event :: "event set \<Rightarrow> event \<Rightarrow> bool" where
  "first_event S x \<longleftrightarrow> x \<in> S \<and> (\<forall>y \<in> S. ev_key x \<le> ev_key y)"

lemma cal_ready_upd [simp]: "cal_ready S (c\<lparr>head_search := k\<rparr>) = cal_ready S c"
  by (simp add: cal_ready_def)

lemma cal_day_less: "0 < width c \<Longrightarrow> cal_day c a < cal_day c b \<Longrightarrow> a < b"
  unfolding cal_day_def by (metis divide_right_mono floor_mono less_eq_real_def linorder_not_less)

lemma key_le: "ev_key a \<le> ev_key b \<longleftrightarrow>
    ev_time a < ev_time b \<or> ev_time a = ev_time b \<and> ev_uid a \<le> ev_uid b"
  by (auto simp: ev_key_def less_eq_prod_def)

lemma cal_days_facts:
  assumes r: "cal_ready S c" and x: "x \<in> S"
  shows "0 \<le> cal_days c x" "0 \<le> cal_offset c x" "cal_offset c x < nbuckets c"
    "cal_days c x < nbuckets c \<Longrightarrow> cal_days c x = cal_offset c x"
    "nbuckets c \<le> cal_days c x \<Longrightarrow> cal_offset c x + nbuckets c \<le> cal_days c x"
    "ev_time x - cal_clock c < (of_int (cal_days c x) + 1) * width c"
    "(of_int (cal_days c x) - 1) * width c < ev_time x - cal_clock c"
proof -
  have w: "0 < width c" and n: "0 < nbuckets c" using r cal_holdsD(6,7) by (auto simp: cal_ready_def)
  let ?q = "cal_days c x" and ?a = "ev_time x / width c" and ?b = "cal_clock c / width c"
  have "cal_clock c \<le> ev_time x" using r x by (simp add: cal_ready_def)
  then show q: "0 \<le> ?q" using w by (simp add: cal_days_def cal_day_def floor_mono divide_right_mono)
  show "0 \<le> cal_offset c x" "cal_offset c x < nbuckets c" using n by (simp_all add: cal_offset_def)
  show "?q < nbuckets c \<Longrightarrow> ?q = cal_offset c x" using q by (simp add: cal_offset_def)
  show "nbuckets c \<le> ?q \<Longrightarrow> cal_offset c x + nbuckets c \<le> ?q"
  proof -
    assume "nbuckets c \<le> ?q"
    then have "1 \<le> ?q div nbuckets c" using n by (simp add: pos_imp_zdiv_pos_iff int_one_le_iff_zero_less)
    then have "nbuckets c * 1 \<le> nbuckets c * (?q div nbuckets c)" using n by (intro mult_left_mono) simp_all
    then show ?thesis using mult_div_mod_eq [of "nbuckets c" ?q] unfolding cal_offset_def by linarith
  qed
  have "?a - ?b < of_int ?q + 1" "of_int ?q - 1 < ?a - ?b"
    unfolding cal_days_def cal_day_def by linarith+
  moreover have d: "?a - ?b = (ev_time x - cal_clock c) / width c" by (simp add: diff_divide_distrib)
  ultimately show "ev_time x - cal_clock c < (of_int ?q + 1) * width c"
    "(of_int ?q - 1) * width c < ev_time x - cal_clock c"
    using w by (simp_all add: pos_divide_less_eq pos_less_divide_eq)
qed

text \<open>The bucket at an offset holds the events with that offset.\<close>

abbreviation cal_index :: "calendar \<Rightarrow> int \<Rightarrow> int" where
  "cal_index c j \<equiv> (cal_day c (cal_clock c) + j) mod nbuckets c"

lemma bucket_at_offset:
  assumes r: "cal_ready S c" and j: "0 \<le> j" "j < nbuckets c"
  shows "\<exists>b. bucket_at (cal_index c j) (c\<lparr>head_search := k\<rparr>) = Inr b \<and>
    ev_sorted (b_list b) \<and> set (b_list b) = {x \<in> S. cal_offset c x = j}"
proof -
  have h: "cal_holds S c" using r by (simp add: cal_ready_def)
  note D = cal_holdsD [OF h]
  have i: "0 \<le> cal_index c j" "cal_index c j < nbuckets c" using D(7) by simp_all
  let ?b = "buckets c ! nat (cal_index c j)"
  have L: "cal_day_list S c (nat (cal_index c j))" using h i D(9) by (simp add: cal_holds_def)
  have "CALENDAR_HASH (ev_time x) c = cal_index c j \<longleftrightarrow> cal_offset c x = j" if "x \<in> S" for x
  proof -
    have "cal_day c (ev_time x) mod nbuckets c = cal_index c j \<longleftrightarrow>
        nbuckets c dvd cal_day c (ev_time x) - (cal_day c (cal_clock c) + j)"
      by (rule mod_eq_dvd_iff)
    also have "\<dots> \<longleftrightarrow> cal_days c x mod nbuckets c = j mod nbuckets c"
      unfolding mod_eq_dvd_iff by (simp add: cal_days_def algebra_simps)
    finally show ?thesis
      using CALENDAR_HASH_day [OF D(3) [OF that] D(6,7)] j by (simp add: cal_offset_def)
  qed
  then have "set (b_list ?b) = {x \<in> S. cal_offset c x = j}" using L i(1) by (auto simp: cal_day_list_def)
  then show ?thesis using L i D(9) by (simp add: bucket_at_def cal_day_list_def)
qed

lemma hash_offset:
  assumes r: "cal_ready S c" and x: "x \<in> S"
  shows "CALENDAR_HASH (ev_time x) c = cal_index c (cal_offset c x)"
proof -
  have h: "cal_holds S c" using r by (simp add: cal_ready_def)
  note D = cal_holdsD [OF h]
  show ?thesis
    using CALENDAR_HASH_day [OF D(3) [OF x] D(6,7)]
    by (simp add: cal_offset_def cal_days_def mod_add_right_eq)
qed

text \<open>Events with different offsets have different times; earlier days are earlier.\<close>

lemma offset_time: "cal_offset c x \<noteq> cal_offset c y \<Longrightarrow> ev_time x \<noteq> ev_time y"
  by (auto simp: cal_offset_def cal_days_def)

lemma days_time: "0 < width c \<Longrightarrow> cal_days c x < cal_days c y \<Longrightarrow> ev_time x < ev_time y"
  using cal_day_less by (simp add: cal_days_def)

subsection \<open>One bucket\<close>

definition search_ok :: "event set \<Rightarrow> calendar \<Rightarrow> int \<Rightarrow> cal_search \<Rightarrow> bool" where
  "search_ok S c j st \<longleftrightarrow>
     (\<exists>i l m k. st = (i, l, m, c\<lparr>head_search := k\<rparr>) \<and> i = cal_index c j \<and>
        (\<forall>x \<in> S. cal_offset c x < j \<longrightarrow> nbuckets c \<le> cal_days c x) \<and>
        (case m of
           None \<Rightarrow> \<forall>x \<in> S. j \<le> cal_offset c x
         | Some y \<Rightarrow> y \<in> S \<and> cal_offset c y < j \<and> l = CALENDAR_HASH (ev_time y) c \<and>
             (\<forall>x \<in> S. cal_offset c x < j \<longrightarrow> ev_key y \<le> ev_key x)))"

definition search_found :: "event set \<Rightarrow> calendar \<Rightarrow> cal_found \<Rightarrow> bool" where
  "search_found S c f \<longleftrightarrow>
     (\<exists>x k. f = (CALENDAR_HASH (ev_time x) c, x, c\<lparr>head_search := k\<rparr>) \<and> first_event S x)"

lemma search_okI:
  assumes "\<And>x. x \<in> S \<Longrightarrow> cal_offset c x < j \<Longrightarrow> nbuckets c \<le> cal_days c x"
    and "case m of None \<Rightarrow> \<forall>x \<in> S. j \<le> cal_offset c x
         | Some y \<Rightarrow> y \<in> S \<and> cal_offset c y < j \<and> l = CALENDAR_HASH (ev_time y) c \<and>
             (\<forall>x \<in> S. cal_offset c x < j \<longrightarrow> ev_key y \<le> ev_key x)"
  shows "search_ok S c j (cal_index c j, l, m, c\<lparr>head_search := k\<rparr>)"
  using assms unfolding search_ok_def by blast

lemma next_index:
  assumes "0 < nbuckets c"
  shows "(if cal_index c j + 1 = nbuckets c then 0 else cal_index c j + 1) = cal_index c (j + 1)"
proof -
  have "cal_index c (j + 1) = (cal_index c j + 1) mod nbuckets c"
    by (simp add: mod_add_left_eq add.assoc)
  moreover have "0 \<le> cal_index c j" "cal_index c j < nbuckets c" using assms by simp_all
  ultimately show ?thesis by (smt (verit) mod_pos_pos_trivial mod_self)
qed

lemma bucket_first:
  assumes "ev_sorted (e # es)" and "set (e # es) = {x \<in> S. P x}"
  shows "e \<in> S" "P e" "\<And>x. x \<in> S \<Longrightarrow> P x \<Longrightarrow> ev_key e \<le> ev_key x"
  using assms by (auto dest: less_imp_le)

lemma CAL_DEQUEUE_law:
  assumes r: "cal_ready S c" and st: "search_ok S c j st" and j: "0 \<le> j" "j < nbuckets c"
    and dx: "\<And>k. diffx (c\<lparr>head_search := k\<rparr>) = d"
    and d: "(of_int j + 1) * width c \<le> d" "d \<le> (of_int j + of_int (nbuckets c) - 1) * width c"
  shows "(\<exists>f. CAL_DEQUEUE diffx st = Inr (Inl f) \<and> search_found S c f) \<or>
         (\<exists>st'. CAL_DEQUEUE diffx st = Inr (Inr st') \<and> search_ok S c (j + 1) st')"
proof -
  have w: "0 < width c" and n: "0 < nbuckets c" using r cal_holdsD(6,7) by (auto simp: cal_ready_def)
  obtain l m k where s: "st = (cal_index c j, l, m, c\<lparr>head_search := k\<rparr>)"
    and late: "\<And>x. x \<in> S \<Longrightarrow> cal_offset c x < j \<Longrightarrow> nbuckets c \<le> cal_days c x"
    and m: "case m of None \<Rightarrow> \<forall>x \<in> S. j \<le> cal_offset c x
         | Some y \<Rightarrow> y \<in> S \<and> cal_offset c y < j \<and> l = CALENDAR_HASH (ev_time y) c \<and>
             (\<forall>x \<in> S. cal_offset c x < j \<longrightarrow> ev_key y \<le> ev_key x)"
    using st unfolding search_ok_def by blast
  obtain b where b: "bucket_at (cal_index c j) (c\<lparr>head_search := k + 1\<rparr>) = Inr b"
    "ev_sorted (b_list b)" "set (b_list b) = {x \<in> S. cal_offset c x = j}"
    using bucket_at_offset [OF r j, of "k + 1"] by blast
  note nx = next_index [OF n, of j]
  note F = cal_days_facts [OF r]
  show ?thesis
  proof (cases "b_list b")
    case Nil
    then have none: "cal_offset c x \<noteq> j" if "x \<in> S" for x using b(3) that by auto
    then have less: "cal_offset c x < j + 1 \<longleftrightarrow> cal_offset c x < j"
      and geq: "j + 1 \<le> cal_offset c x \<longleftrightarrow> j \<le> cal_offset c x" if "x \<in> S" for x using that by force+
    have "search_ok S c (j + 1) (cal_index c (j + 1), l, m, c\<lparr>head_search := k + 1\<rparr>)"
    proof (rule search_okI)
      show "case m of None \<Rightarrow> \<forall>x \<in> S. j + 1 \<le> cal_offset c x
         | Some y \<Rightarrow> y \<in> S \<and> cal_offset c y < j + 1 \<and> l = CALENDAR_HASH (ev_time y) c \<and>
             (\<forall>x \<in> S. cal_offset c x < j + 1 \<longrightarrow> ev_key y \<le> ev_key x)"
        using m less geq by (cases m) simp_all
    qed (use late less in simp)
    moreover have "CAL_DEQUEUE diffx st = Inr (Inr (cal_index c (j + 1), l, m, c\<lparr>head_search := k + 1\<rparr>))"
      using Nil b(1) nx by (simp add: CAL_DEQUEUE_def s)
    ultimately show ?thesis by blast
  next
    case (Cons e es)
    have e: "e \<in> S" "cal_offset c e = j" "\<And>x. x \<in> S \<Longrightarrow> cal_offset c x = j \<Longrightarrow> ev_key e \<le> ev_key x"
      using bucket_first [of e es S "\<lambda>x. cal_offset c x = j"] b(2,3) Cons by simp_all
    have hash: "cal_index c j = CALENDAR_HASH (ev_time e) c" using hash_offset [OF r e(1)] e(2) by simp
    show ?thesis
    proof (cases "ev_time e - cal_clock c < d")
      case True
      have "(of_int (cal_days c e) - 1) * width c < (of_int j + of_int (nbuckets c) - 1) * width c"
        using F(7) [OF e(1)] True d(2) by linarith
      then have "cal_days c e < j + nbuckets c" using w by (simp add: mult_less_cancel_right)
      then have q: "cal_days c e = j" using F(4,5) [OF e(1)] e(2) by linarith
      have "ev_key e \<le> ev_key x" if "x \<in> S" for x
      proof (cases "cal_offset c x = j")
        case False
        have "cal_offset c x \<le> cal_days c x" using F(3,4,5) [OF that] F(2) [OF that] n by linarith
        then have "cal_days c e < cal_days c x" using False late [OF that] q j(2) by linarith
        then show ?thesis using days_time [OF w] by (simp add: key_le)
      qed (use e(3) that in simp)
      then have "search_found S c (cal_index c j, e, c\<lparr>head_search := k + 1\<rparr>)"
        using e(1) hash by (auto simp: search_found_def first_event_def)
      moreover have "CAL_DEQUEUE diffx st = Inr (Inl (cal_index c j, e, c\<lparr>head_search := k + 1\<rparr>))"
        using Cons b(1) True dx by (simp add: CAL_DEQUEUE_def s)
      ultimately show ?thesis by blast
    next
      case False
      have "(of_int j + 1) * width c < (of_int (cal_days c e) + 1) * width c"
        using F(6) [OF e(1)] False d(1) by linarith
      then have "j < cal_days c e" using w by (simp add: mult_less_cancel_right)
      then have q: "nbuckets c \<le> cal_days c e" using F(4) [OF e(1)] e(2) by linarith
      have late': "nbuckets c \<le> cal_days c x" if "x \<in> S" "cal_offset c x < j + 1" for x
      proof (cases "cal_offset c x = j")
        case True
        then have "ev_time e \<le> ev_time x" using e(3) [OF that(1)] by (auto simp: key_le)
        then have "\<not> cal_days c x < cal_days c e" using days_time [OF w, of x e] by linarith
        then show ?thesis using q by linarith
      qed (use late that in simp)
      let ?new = "case m of None \<Rightarrow> True | Some y \<Rightarrow> ev_time e < ev_time y"
      let ?st = "(cal_index c (j + 1), if ?new then cal_index c j else l, if ?new then Some e else m,
        c\<lparr>head_search := k + 1\<rparr>)"
      have "CAL_DEQUEUE diffx st = Inr (Inr ?st)"
        using Cons b(1) False dx nx by (simp add: CAL_DEQUEUE_def s)
      moreover have "search_ok S c (j + 1) ?st"
      proof (cases ?new)
        case True
        have "ev_key e \<le> ev_key x" if "x \<in> S" "cal_offset c x < j + 1" for x
        proof (cases "cal_offset c x = j")
          case False
          then have lt: "cal_offset c x < j" "x \<in> S" using that by simp_all
          then obtain y where y: "m = Some y" "ev_key y \<le> ev_key x" "ev_time e < ev_time y"
            using m True lt by (cases m) fastforce+
          then show ?thesis by (auto simp: key_le)
        qed (use e(3) that in simp)
        then show ?thesis
          using True e(1,2) hash by (intro search_okI late') simp_all
      next
        case False
        then obtain y where y: "m = Some y" "ev_time y \<le> ev_time e" by (cases m) auto
        have my: "y \<in> S" "cal_offset c y < j" "l = CALENDAR_HASH (ev_time y) c"
          "\<And>x. x \<in> S \<Longrightarrow> cal_offset c x < j \<Longrightarrow> ev_key y \<le> ev_key x" using m y(1) by auto
        have "ev_key y \<le> ev_key x" if "x \<in> S" "cal_offset c x < j + 1" for x
        proof (cases "cal_offset c x = j")
          case True
          then have "ev_time e \<le> ev_time x" using e(3) [OF that(1)] by (auto simp: key_le)
          moreover have "ev_time y \<noteq> ev_time x" using offset_time [of c y x] my(2) True by simp
          ultimately show ?thesis using y(2) by (simp add: key_le)
        qed (use my(4) that in simp)
        then show ?thesis
          using False y(1) my(1-3) by (intro search_okI late') simp_all
      qed
      ultimately show ?thesis by blast
    qed
  qed
qed

subsection \<open>The whole search\<close>

lemma cal_scan_law:
  assumes r: "cal_ready S c" and j: "1 \<le> j" "j \<le> nbuckets c - 1" and st: "search_ok S c j st"
    and dec: "dec = cal_index c (nbuckets c - 1)"
  shows "(\<exists>f. cal_scan dec st = Some (Inr (Inl f)) \<and> search_found S c f) \<or>
         (\<exists>st'. cal_scan dec st = Some (Inr (Inr st')) \<and> search_ok S c (nbuckets c - 1) st')"
  using j st
proof (induction "nat (nbuckets c - 1 - j)" arbitrary: j st)
  case 0
  then have jn: "j = nbuckets c - 1" by simp
  have "fst st = dec" using 0 unfolding search_ok_def dec jn by auto
  then show ?case using 0 jn by (subst (1 2) cal_scan.simps) simp
next
  case (Suc a)
  have w: "0 < width c" and n: "0 < nbuckets c" using r cal_holdsD(6,7) by (auto simp: cal_ready_def)
  have lt: "j < nbuckets c - 1" using Suc.hyps(2) by simp
  have i: "fst st \<noteq> dec"
  proof
    assume "fst st = dec"
    then have "cal_index c j = cal_index c (nbuckets c - 1)"
      using Suc.prems(3) unfolding search_ok_def dec by auto
    then have "nbuckets c dvd nbuckets c - 1 - j"
      unfolding mod_eq_dvd_iff by (metis add_diff_cancel_left dvd_minus_iff minus_diff_eq)
    then show False using zdvd_imp_le [of "nbuckets c" "nbuckets c - 1 - j"] lt Suc.prems(1) by simp
  qed
  have dd: "diff2 (c\<lparr>head_search := k\<rparr>) = width c * of_int (nbuckets c)" for k
    using r by (simp add: cal_ready_def cal_holds_def cal_frame_def)
  have lo: "(of_int j + 1) * width c \<le> width c * of_int (nbuckets c)"
  proof -
    have "of_int (j + 1) * width c \<le> of_int (nbuckets c) * width c"
      using lt w by (intro mult_right_mono) (simp_all del: of_int_add)
    then show ?thesis by (simp add: mult.commute)
  qed
  have hi: "width c * of_int (nbuckets c) \<le> (of_int j + of_int (nbuckets c) - 1) * width c"
  proof -
    have "of_int (nbuckets c) * width c \<le> of_int (j + nbuckets c - 1) * width c"
      using Suc.prems(1) w by (intro mult_right_mono) (simp_all del: of_int_add of_int_diff)
    then show ?thesis by (simp add: mult.commute)
  qed
  have "(\<exists>f. CAL_DEQUEUE diff2 st = Inr (Inl f) \<and> search_found S c f) \<or>
        (\<exists>st'. CAL_DEQUEUE diff2 st = Inr (Inr st') \<and> search_ok S c (j + 1) st')"
    by (rule CAL_DEQUEUE_law [where diffx = diff2, OF r Suc.prems(3) _ _ dd lo hi]) (use Suc.prems(1) lt in simp_all)
  then show ?case
  proof
    assume "\<exists>f. CAL_DEQUEUE diff2 st = Inr (Inl f) \<and> search_found S c f"
    then show ?thesis using i by (subst (1 2) cal_scan.simps) auto
  next
    assume "\<exists>st'. CAL_DEQUEUE diff2 st = Inr (Inr st') \<and> search_ok S c (j + 1) st'"
    then obtain st' where st': "CAL_DEQUEUE diff2 st = Inr (Inr st')" "search_ok S c (j + 1) st'" by blast
    have "cal_scan dec st = cal_scan dec st'" using i st'(1) by (subst cal_scan.simps) simp
    then show ?thesis using Suc.hyps(1) [of "j + 1" st'] st'(2) Suc.hyps(2) Suc.prems(1) lt by simp
  qed
qed

text \<open>The last bucket is not tested against a limit; the earliest event of all is taken.\<close>

lemma last_bucket_law:
  assumes r: "cal_ready S c" and ne: "S \<noteq> {}" and st: "search_ok S c (nbuckets c - 1) (i, l, m, c')"
  shows "\<exists>f. res_bind (bucket_at i c') (\<lambda>b.
             (case (m, b_list b) of
                (Some m, []) \<Rightarrow> Inr (l, m, c')
              | (Some m, e # _) \<Rightarrow> if ev_time m < ev_time e then Inr (l, m, c') else Inr (i, e, c')
              | (None, e # _) \<Rightarrow> Inr (i, e, c')
              | (None, []) \<Rightarrow> Inl NullPointer)) = Inr f \<and> search_found S c f"
proof -
  let ?j = "nbuckets c - 1"
  have n: "0 < nbuckets c" using r cal_holdsD(7) by (auto simp: cal_ready_def)
  obtain k where s: "i = cal_index c ?j" "c' = c\<lparr>head_search := k\<rparr>"
    and m: "case m of None \<Rightarrow> \<forall>x \<in> S. ?j \<le> cal_offset c x
         | Some y \<Rightarrow> y \<in> S \<and> cal_offset c y < ?j \<and> l = CALENDAR_HASH (ev_time y) c \<and>
             (\<forall>x \<in> S. cal_offset c x < ?j \<longrightarrow> ev_key y \<le> ev_key x)"
    using st unfolding search_ok_def by auto
  obtain b where b: "bucket_at i c' = Inr b" "ev_sorted (b_list b)"
    "set (b_list b) = {x \<in> S. cal_offset c x = ?j}"
    using bucket_at_offset [OF r, of ?j k] n s by auto
  have off: "cal_offset c x < ?j \<or> cal_offset c x = ?j" if "x \<in> S" for x
    using cal_days_facts(3) [OF r that] by linarith
  have found: "search_found S c (CALENDAR_HASH (ev_time x) c, x, c')"
    if "x \<in> S" "\<And>y. y \<in> S \<Longrightarrow> cal_offset c y < ?j \<Longrightarrow> ev_key x \<le> ev_key y"
      "\<And>y. y \<in> S \<Longrightarrow> cal_offset c y = ?j \<Longrightarrow> ev_key x \<le> ev_key y" for x
    using that off unfolding search_found_def first_event_def s(2) by blast
  show ?thesis
  proof (cases "b_list b")
    case Nil
    then have no: "cal_offset c x \<noteq> ?j" if "x \<in> S" for x using b(3) that by auto
    then obtain y where y: "m = Some y" using m ne off by (cases m) fastforce+
    then have "search_found S c (l, y, c')" using found [of y] m no by simp
    then show ?thesis using b(1) Nil y by simp
  next
    case (Cons e es)
    have e: "e \<in> S" "cal_offset c e = ?j" "\<And>x. x \<in> S \<Longrightarrow> cal_offset c x = ?j \<Longrightarrow> ev_key e \<le> ev_key x"
      using bucket_first [of e es S "\<lambda>x. cal_offset c x = ?j"] b(2,3) Cons by simp_all
    have hash: "i = CALENDAR_HASH (ev_time e) c" using hash_offset [OF r e(1)] e(2) s(1) by simp
    show ?thesis
    proof (cases m)
      case None
      have "\<not> cal_offset c x < ?j" if "x \<in> S" for x using m None that by fastforce
      then have "search_found S c (i, e, c')" using found [of e] e hash by blast
      then show ?thesis using b(1) Cons None by simp
    next
      case (Some y)
      have y: "y \<in> S" "cal_offset c y < ?j" "l = CALENDAR_HASH (ev_time y) c"
        "\<And>x. x \<in> S \<Longrightarrow> cal_offset c x < ?j \<Longrightarrow> ev_key y \<le> ev_key x" using m Some by auto
      show ?thesis
      proof (cases "ev_time y < ev_time e")
        case True
        have "ev_key y \<le> ev_key x" if "x \<in> S" "cal_offset c x = ?j" for x
          using e(3) [OF that] True by (auto simp: key_le)
        then have "search_found S c (l, y, c')" using found [of y] y by blast
        then show ?thesis using b(1) Cons Some True by simp
      next
        case False
        have "ev_key e \<le> ev_key x" if "x \<in> S" "cal_offset c x < ?j" for x
          using y(4) [OF that] False offset_time [of c e x] e(2) that(2) by (auto simp: key_le)
        then have "search_found S c (i, e, c')" using found [of e] e hash by blast
        then show ?thesis using b(1) Cons Some False by simp
      qed
    qed
  qed
qed

lemma bucket_limits:
  fixes w n :: real
  assumes "0 < w" "4 \<le> n"
  shows "w \<le> w * n / 2" "w * n / 2 \<le> (n - 1) * w" "2 * w \<le> w * n / 2 + w" "w * n / 2 + w \<le> n * w"
proof -
  have half: "w \<le> P / 2" "P / 2 \<le> P - w" "2 * w \<le> P / 2 + w" "P / 2 + w \<le> P" if "4 * w \<le> P" for P
    using that assms(1) by linarith+
  have "4 * w \<le> n * w" using assms by (intro mult_right_mono) simp_all
  then have "4 * w \<le> w * n" by (simp only: mult.commute [of w n])
  note H = half [OF this]
  have e: "(n - 1) * w = w * n - w" "n * w = w * n" by (simp_all add: algebra_simps)
  show "w \<le> w * n / 2" by (rule H(1))
  show "w * n / 2 \<le> (n - 1) * w" unfolding e(1) by (rule H(2))
  show "2 * w \<le> w * n / 2 + w" by (rule H(3))
  show "w * n / 2 + w \<le> n * w" unfolding e(2) by (rule H(4))
qed

lemma cal_find_law:
  assumes r: "cal_ready S c" and ne: "S \<noteq> {}"
  shows "\<exists>f. cal_find c = Inr f \<and> search_found S c f"
proof -
  have h: "cal_holds S c" using r by (simp add: cal_ready_def)
  note D = cal_holdsD [OF h]
  let ?n = "nbuckets c"
  have fr: "diff0 (c\<lparr>head_search := k\<rparr>) = width c * of_int ?n / 2"
    "diff1 (c\<lparr>head_search := k\<rparr>) = width c * of_int ?n / 2 + width c" for k
    using D(1) by (simp_all add: cal_frame_def)
  note lim = bucket_limits [of "width c" "of_int ?n", OF D(6)]
  have last: "lastbucket c = cal_index c 0"
    using r CALENDAR_HASH_day [OF _ D(6,7)] by (simp add: cal_ready_def)
  have dec: "(if lastbucket c \<noteq> 0 then lastbucket c - 1 else ?n - 1) = cal_index c (?n - 1)"
  proof -
    have "cal_index c (?n - 1) = (lastbucket c - 1) mod ?n"
    proof -
      have "cal_day c (cal_clock c) + (?n - 1) = (cal_day c (cal_clock c) - 1) + ?n" by simp
      then have "cal_index c (?n - 1) = (cal_day c (cal_clock c) - 1) mod ?n" by (simp only: mod_add_self2)
      then show ?thesis by (simp add: last mod_diff_left_eq)
    qed
    moreover have "0 \<le> lastbucket c" "lastbucket c < ?n" using D(7) by (simp_all add: last)
    moreover have "(- 1) mod ?n = ?n - 1" using D(8) by (simp add: zmod_minus1)
    ultimately show ?thesis by (cases "lastbucket c = 0") simp_all
  qed
  have s0: "search_ok S c 0 (lastbucket c, - 1, None, c)"
    using search_okI [where S = S and c = c and j = 0 and m = None and l = "- 1" and k = "head_search c"]
      cal_days_facts(2) [OF r] last by fastforce
  have st0: "(\<exists>f. CAL_DEQUEUE diff0 (lastbucket c, - 1, None, c) = Inr (Inl f) \<and> search_found S c f) \<or>
      (\<exists>st. CAL_DEQUEUE diff0 (lastbucket c, - 1, None, c) = Inr (Inr st) \<and> search_ok S c (0 + 1) st)"
    by (rule CAL_DEQUEUE_law [where diffx = diff0, OF r s0 _ _ fr(1)]) (use D(8) lim in simp_all)
  have st1: "(\<exists>f. CAL_DEQUEUE diff1 st = Inr (Inl f) \<and> search_found S c f) \<or>
      (\<exists>st'. CAL_DEQUEUE diff1 st = Inr (Inr st') \<and> search_ok S c (1 + 1) st')"
    if "search_ok S c (0 + 1) st" for st
    by (rule CAL_DEQUEUE_law [where diffx = diff1, OF r _ _ _ fr(2)]) (use D(8) lim that in simp_all)
  have st2: "(\<exists>f. of_loop (cal_scan (cal_index c (?n - 1)) st) = Inr (Inl f) \<and> search_found S c f) \<or>
      (\<exists>st'. of_loop (cal_scan (cal_index c (?n - 1)) st) = Inr (Inr st') \<and> search_ok S c (?n - 1) st')"
    if "search_ok S c (1 + 1) st" for st
    using cal_scan_law [OF r _ _ that refl] D(8) by auto
  have U: "\<exists>f. unless_found x g = Inr f \<and> search_found S c f"
    if "(\<exists>f. x = Inr (Inl f) \<and> search_found S c f) \<or> (\<exists>st. x = Inr (Inr st) \<and> Q st)"
      "\<And>st. Q st \<Longrightarrow> \<exists>f. g st = Inr f \<and> search_found S c f" for x g Q
    using that by (auto simp: unless_found_def)
  show ?thesis
    unfolding cal_find_def Let_def dec
    by (rule U [OF st0], rule U [OF st1], assumption, rule U [OF st2], assumption)
      (use last_bucket_law [OF r ne] in \<open>auto simp: split_paired_all\<close>)
qed

text \<open>\<open>head\<close> returns the first event and makes it the place to go on from.\<close>

lemma cal_head_law:
  assumes r: "cal_ready S c" and ne: "S \<noteq> {}"
  shows "\<exists>x c'. cal_head c = Inr (Some x, c') \<and> first_event S x \<and> cal_ready S c' \<and>
    cal_clock c' = ev_time x \<and> nbuckets c' = nbuckets c"
proof -
  have h: "cal_holds S c" using r by (simp add: cal_ready_def)
  note D = cal_holdsD [OF h]
  have q: "qsize c \<noteq> 0" using D(2,4) ne by simp
  obtain x k where x: "cal_find c = Inr (CALENDAR_HASH (ev_time x) c, x, c\<lparr>head_search := k\<rparr>)"
    "first_event S x" using cal_find_law [OF assms] by (auto simp: search_found_def)
  have xS: "x \<in> S" "\<forall>y \<in> S. ev_time x \<le> ev_time y" using x(2) by (auto simp: first_event_def key_le)
  have "CALENDAR_HASH (ev_time x) c \<noteq> - 1"
    using CALENDAR_HASH_range(1) [OF D(3) [OF xS(1)] D(6,7)] by simp
  then show ?thesis
    using q x xS D(3) [OF xS(1)] h by (simp add: cal_head_def cal_ready_def)
qed

end
