(* ===== verification/Calendar_Scheduler.thy ===== *)
theory Calendar_Scheduler
  imports Calendar_Search
begin

section \<open>The calendar is an event queue\<close>

text \<open>
  The operations of \<open>CalendarScheduler\<close> on a whole calendar: the invariant they keep, and the event
  queue interface. None of the code's assertions fails, and no number of buckets leaves the range of
  \<open>int\<close> while fewer than \<open>2 ^ 30\<close> events have been scheduled.
\<close>

definition cal_set :: "calendar \<Rightarrow> event set" where
  "cal_set c = (\<Union>b \<in> set (buckets c). set (b_list b))"

definition cal_list :: "calendar \<Rightarrow> event list" where
  "cal_list c = sort_key ev_key (concat (map b_list (buckets c)))"

definition events_ok :: "int \<Rightarrow> event set \<Rightarrow> bool" where
  "events_ok u S \<longleftrightarrow> inj_on ev_ptr S \<and> inj_on ev_uid S \<and> (\<forall>x \<in> S. 0 < ev_uid x \<and> ev_uid x < u)"

definition cal_ok :: "int \<Rightarrow> calendar \<Rightarrow> bool" where
  "cal_ok u c \<longleftrightarrow> 0 < u \<and> cal_ready (cal_set c) c \<and> events_ok u (cal_set c) \<and> nbuckets c < 2 ^ 30"

lemma set_cal_list [simp]: "set (cal_list c) = cal_set c"
  by (simp add: cal_list_def cal_set_def)

lemma cal_okI:
  assumes "0 < u" "cal_ready S c" "events_ok u S" "nbuckets c < 2 ^ 30"
  shows "cal_ok u c" "cal_set c = S"
proof -
  show "cal_set c = S" using assms(2) moved_set(2) by (simp add: cal_set_def cal_ready_def)
  then show "cal_ok u c" using assms by (simp add: cal_ok_def)
qed

lemma ev_sorted_cal_list:
  assumes "cal_ok u c"
  shows "ev_sorted (cal_list c)"
proof -
  have h: "cal_holds (cal_set c) c" using assms by (simp add: cal_ok_def cal_ready_def)
  have "\<forall>i < length (buckets c). ev_sorted (b_list (buckets c ! i)) \<and>
      (\<forall>x \<in> set (b_list (buckets c ! i)). CALENDAR_HASH (ev_time x) c = 0 + int i)"
    using h by (simp add: cal_holds_def cal_day_list_def)
  then have "distinct (concat (map (\<lambda>b. rev (b_list b)) (buckets c)))"
    using moved_order [where f = "\<lambda>t. CALENDAR_HASH t c"] by blast
  moreover have "mset (concat (map (\<lambda>b. rev (b_list b)) bs)) = mset (concat (map b_list bs))" for bs
    by (induction bs) simp_all
  ultimately have "distinct (concat (map b_list (buckets c)))" by (metis mset_eq_imp_distinct_iff)
  then have "distinct (cal_list c)" by (simp add: cal_list_def)
  moreover have "inj_on ev_key (cal_set c)"
    using assms by (auto simp: cal_ok_def events_ok_def inj_on_def ev_key_def)
  ultimately have "distinct (map ev_key (cal_list c))" by (simp add: distinct_map)
  moreover have "sorted (map ev_key (cal_list c))" by (simp add: cal_list_def)
  ultimately have "sorted_wrt (<) (map ev_key (cal_list c))" by (simp add: strict_sorted_iff)
  then show ?thesis by (simp add: sorted_wrt_map)
qed

lemma events_ok_card:
  assumes "events_ok u S" "0 < u" "finite S"
  shows "int (card S) < u"
proof -
  have "card S = card (ev_uid ` S)" using assms(1) by (simp add: events_ok_def card_image)
  also have "\<dots> \<le> card {1..<u}" by (rule card_mono) (use assms(1) in \<open>auto simp: events_ok_def\<close>)
  finally show ?thesis using assms(2) by simp
qed

subsection \<open>Insertion\<close>

lemma cal_insert_law:
  assumes ok: "cal_ok u c" and fit: "u < 2 ^ 30" and e: "0 \<le> ev_time e" "ev_uid e = u"
    and fresh: "ev_ptr e \<notin> ev_ptr ` cal_set c"
  shows "\<exists>c'. cal_insert e c = Inr c' \<and> cal_ok (u + 1) c' \<and> cal_list c' = abs_insert e (cal_list c)"
proof -
  let ?S = "cal_set c"
  have u: "0 < u" and r: "cal_ready ?S c" and ev: "events_ok u ?S" and nb: "nbuckets c < 2 ^ 30"
    using ok by (simp_all add: cal_ok_def)
  have new: "e \<notin> ?S" using ev e(2) by (auto simp: events_ok_def)
  have "ev_uid e \<notin> ev_uid ` ?S" using ev e(2) unfolding events_ok_def by force
  then have ev': "events_ok (u + 1) (insert e ?S)"
    unfolding events_ok_def inj_on_insert using ev fresh new e(2) u
    by (simp add: events_ok_def) force
  define c1 where "c1 = (if ev_time e < cal_clock c
     then (let c = c\<lparr>cal_clock := ev_time e\<rparr> in c\<lparr>lastbucket := CALENDAR_HASH (cal_clock c) c\<rparr>) else c)"
  have c1: "cal_ready ?S c1" "cal_clock c1 \<le> ev_time e" "nbuckets c1 = nbuckets c"
    using r e(1) by (auto simp: c1_def cal_ready_def)
  have h1: "cal_holds ?S c1" using c1(1) by (simp add: cal_ready_def)
  note B = bucket_of_law [OF h1 e(1)]
  let ?i = "CALENDAR_HASH (ev_time e) c1" and ?b = "bucket_of c1 (ev_time e)"
  let ?ys = "abs_insert e (b_list ?b)"
  obtain k uniq where k: "cal_link e (b_list ?b) (insert_search c1) = Inr (?ys, uniq, k)"
    "uniq \<longleftrightarrow> ev_time e \<notin> ev_time ` set (b_list ?b)"
    using cal_link_law [OF B(4)] by blast
  have "\<forall>x \<in> set (b_list ?b). ev_uid x < ev_uid e" unfolding B(5) using ev e(2) by (simp add: events_ok_def)
  then have srt: "ev_sorted ?ys" by (rule ev_sorted_abs_insert [OF B(4)])
  define c2 where "c2 = (set_bucket ?i \<lparr>b_list = ?ys, b_count = b_count ?b + of_bool uniq\<rparr> c1)
     \<lparr>insert_search := k, stat_qsize := stat_qsize c1 + of_bool uniq, qsize := qsize c1 + 1\<rparr>"
  have "c2 = ((set_bucket ?i \<lparr>b_list = ?ys, b_count = b_count ?b + of_bool uniq\<rparr> c1)
     \<lparr>stat_qsize := stat_qsize c1 + of_bool uniq, qsize := qsize c1 + 1\<rparr>)\<lparr>insert_search := k\<rparr>"
    by (simp add: c2_def)
  then have h2: "cal_holds (insert e ?S) c2"
    using cal_put [OF h1 e(1) new srt set_abs_insert k(2)] by (simp del: set_abs_insert)
  have same: "cal_clock c2 = cal_clock c1" "lastbucket c2 = lastbucket c1" "nbuckets c2 = nbuckets c"
    "CALENDAR_HASH t c2 = CALENDAR_HASH t c1" for t
    using c1(3) by (simp_all add: c2_def set_bucket_def)
  have r2: "cal_ready (insert e ?S) c2"
    using c1(1,2) h2 by (simp add: cal_ready_def same)
  have step: "cal_insert e c =
      (if top_threshold c2 < stat_qsize c2
       then res_bind (shift_left_1 (nbuckets c2)) (\<lambda>n. cal_resize n (cal_clock c2) c2) else Inr c2)"
    unfolding cal_insert_def Let_def [of "ev_time e"] c1_def [symmetric] Let_def [of c1] Let_def [of ?i] B(1)
      res_bind.simps k(1) by (simp add: c2_def Let_def)
  have "\<exists>c'. cal_insert e c = Inr c' \<and> cal_ready (insert e ?S) c' \<and> nbuckets c' < 2 ^ 30"
  proof (cases "top_threshold c2 < stat_qsize c2")
    case False
    then show ?thesis using step r2 nb same(3) by simp
  next
    case True
    note D = cal_holdsD [OF h2]
    have "card (ev_time ` insert e ?S) \<le> card (insert e ?S)" using D(2) by (rule card_image_le)
    moreover have "int (card (insert e ?S)) < u + 1" using events_ok_card [OF ev' _ D(2)] u by simp
    moreover have "2 * nbuckets c2 < stat_qsize c2" using True D(1) by (simp add: cal_frame_def)
    ultimately have n: "2 * nbuckets c2 < 2 ^ 30" using D(5) fit by linarith
    then have "shift_left_1 (nbuckets c2) = Inr (2 * nbuckets c2)"
      using D(7) by (simp add: shift_left_1_def in_int32_def)
    moreover obtain c' where "cal_resize (2 * nbuckets c2) (cal_clock c2) c2 = Inr c'"
      "cal_holds (insert e ?S) c'" "nbuckets c' = max 4 (2 * nbuckets c2)" "cal_clock c' = cal_clock c2"
      "lastbucket c' = CALENDAR_HASH (cal_clock c') c'"
      using cal_resize_law [OF h2 _ _ n] D(7) r2 by (auto simp: cal_ready_def)
    ultimately show ?thesis using step True r2 n by (simp add: cal_ready_def)
  qed
  then obtain c' where c': "cal_insert e c = Inr c'" "cal_ready (insert e ?S) c'" "nbuckets c' < 2 ^ 30"
    by blast
  have ok': "cal_ok (u + 1) c'" "cal_set c' = insert e ?S" using cal_okI [OF _ c'(2) ev' c'(3)] u by simp_all
  have "cal_list c' = abs_insert e (cal_list c)"
  proof (rule ev_sorted_unique)
    show "ev_sorted (cal_list c')" by (rule ev_sorted_cal_list [OF ok'(1)])
    show "ev_sorted (abs_insert e (cal_list c))"
      using ev_sorted_abs_insert [OF ev_sorted_cal_list [OF ok]] ev e(2) by (simp add: events_ok_def)
  qed (simp add: ok'(2))
  then show ?thesis using c'(1) ok'(1) by blast
qed

subsection \<open>Taking the first event off\<close>

lemma cal_adjust_law:
  assumes r: "cal_ready S c" and nb: "nbuckets c < 2 ^ 30"
  shows "\<exists>c'. cal_adjust e c = Inr c' \<and> cal_ready S c' \<and> cal_clock c' = cal_clock c \<and> nbuckets c' < 2 ^ 30"
proof -
  define c1 where "c1 = c\<lparr>gap_num := 0, avg_gap := (ev_time e - last_time c) / of_int (gap_num c + 1),
     last_time := ev_time e, round_num := round_num c + 1\<rparr>"
  have h1: "cal_holds S c1" and l1: "lastbucket c1 = CALENDAR_HASH (cal_clock c1) c1"
    and n1: "nbuckets c1 = nbuckets c" "cal_clock c1 = cal_clock c"
    using r by (simp_all add: c1_def cal_ready_def)
  have n4: "4 \<le> nbuckets c1" by (rule cal_holdsD(8) [OF h1])
  obtain c2 where c2: "cal_resize (nbuckets c1) (cal_clock c1) c1 = Inr c2" "cal_holds S c2"
    "nbuckets c2 = max 4 (nbuckets c1)" "cal_clock c2 = cal_clock c1"
    "lastbucket c2 = CALENDAR_HASH (cal_clock c2) c2"
    using cal_resize_law [OF h1 l1, of "nbuckets c1"] n4 nb n1 by auto
  have r2: "cal_ready S (c2\<lparr>round_num := 0\<rparr>)" "nbuckets c2 < 2 ^ 30"
    using r c2 n1 nb n4 by (simp_all add: cal_ready_def)
  have c1': "c\<lparr>gap_num := gap_num c + 1, avg_gap := (ev_time e - last_time c) / of_int (gap_num c + 1),
      gap_num := 0, last_time := ev_time e, round_num := round_num c + 1\<rparr> = c1"
    by (simp add: c1_def)
  show ?thesis
    using r nb h1 l1 n1 c2 r2
    by (simp add: cal_adjust_def Let_def c1' [simplified] cal_ready_def)
qed

lemma first_in_bucket:
  assumes "cal_holds S c" and x: "first_event S x"
  obtains rest where "b_list (bucket_of c (ev_time x)) = x # rest" "ev_sorted (x # rest)"
proof -
  have xS: "x \<in> S" using x by (simp add: first_event_def)
  note B = bucket_of_law [OF assms(1) cal_holdsD(3) [OF assms(1) xS]]
  have mem: "x \<in> set (b_list (bucket_of c (ev_time x)))" using B(5) xS by simp
  then obtain y ys where y: "b_list (bucket_of c (ev_time x)) = y # ys"
    by (cases "b_list (bucket_of c (ev_time x))") auto
  have "y \<in> S" using B(5) y by (metis (mono_tags, lifting) list.set_intros(1) mem_Collect_eq)
  then have "ev_key x \<le> ev_key y" using x by (simp add: first_event_def)
  moreover have "x = y \<or> ev_key y < ev_key x" using B(4) mem y by auto
  ultimately have "x = y" by auto
  then show thesis using that y B(4) by simp
qed

lemma sorted_uniq:
  assumes "ev_sorted (x # rest)"
  shows "rest = [] \<or> ev_time (hd rest) \<noteq> ev_time x \<longleftrightarrow> ev_time x \<notin> ev_time ` set rest"
proof (cases rest)
  case (Cons y ys)
  have "ev_time x \<le> ev_time y" "\<forall>z \<in> set ys. ev_time y \<le> ev_time z"
    using assms Cons by (auto simp: ev_key_less)
  then show ?thesis using Cons by force
qed simp

lemma cal_deque_law:
  assumes ok: "cal_ok u c" and L: "cal_list c = x # xs"
  shows "\<exists>c'. cal_deque c = Inr (Some x, c') \<and> cal_ok u c' \<and> cal_list c' = xs"
proof -
  let ?S = "cal_set c"
  have u: "0 < u" and r: "cal_ready ?S c" and ev: "events_ok u ?S" and nb: "nbuckets c < 2 ^ 30"
    using ok by (simp_all add: cal_ok_def)
  have srt: "ev_sorted (x # xs)" using ev_sorted_cal_list [OF ok] L by simp
  have S: "?S = set (x # xs)" using set_cal_list [of c] L by simp
  then obtain y c1 where y: "cal_head c = Inr (Some y, c1)" "first_event ?S y" "cal_ready ?S c1"
    "cal_clock c1 = ev_time y" "nbuckets c1 = nbuckets c"
    using cal_head_law [OF r] by auto
  have yx: "y = x"
  proof -
    have "ev_key y \<le> ev_key x" "y \<in> set (x # xs)" using y(2) S by (simp_all add: first_event_def)
    then show ?thesis using srt by auto
  qed
  obtain c2 where c2: "cal_adjust x c1 = Inr c2" "cal_ready ?S c2" "cal_clock c2 = ev_time x"
    "nbuckets c2 < 2 ^ 30"
    using cal_adjust_law [OF y(3), of x] y(4,5) nb yx by auto
  have h2: "cal_holds ?S c2" using c2(2) by (simp add: cal_ready_def)
  have l2: "lastbucket c2 = CALENDAR_HASH (ev_time x) c2" using c2(2,3) by (simp add: cal_ready_def)
  have xS: "x \<in> ?S" using S by simp
  note B = bucket_of_law [OF h2 cal_holdsD(3) [OF h2 xS]]
  obtain rest where rest: "b_list (bucket_of c2 (ev_time x)) = x # rest" "ev_sorted (x # rest)"
    using first_in_bucket [OF h2] y(2) yx by blast
  have set_rest: "set rest = set (b_list (bucket_of c2 (ev_time x))) - {x}"
    unfolding rest(1) using ev_sorted_distinct [OF rest(2)] by auto
  define c3 where "c3 = (set_bucket (CALENDAR_HASH (ev_time x) c2)
      \<lparr>b_list = rest, b_count = b_count (bucket_of c2 (ev_time x)) -
         of_bool (rest = [] \<or> ev_time (hd rest) \<noteq> ev_time x)\<rparr> c2)
      \<lparr>stat_qsize := stat_qsize c2 - of_bool (rest = [] \<or> ev_time (hd rest) \<noteq> ev_time x),
       qsize := qsize c2 - 1\<rparr>"
  have un: "cal_unlink_head x c2 = Inr c3"
    unfolding cal_unlink_head_def Let_def l2 B(1) res_bind.simps rest(1) cal_circle_head c3_def by simp
  have h3: "cal_holds (?S - {x}) c3"
    unfolding c3_def using rest(2) by (intro cal_take(1) [OF h2 xS _ set_rest sorted_uniq]) simp_all
  have same: "cal_clock c3 = cal_clock c2" "lastbucket c3 = lastbucket c2" "nbuckets c3 = nbuckets c2"
    "CALENDAR_HASH t c3 = CALENDAR_HASH t c2" for t by (simp_all add: c3_def set_bucket_def)
  have r3: "cal_ready (?S - {x}) c3" using c2(2) h3 by (simp add: cal_ready_def same)
  have "\<exists>c'. cal_deque c = Inr (Some x, c') \<and> cal_ready (?S - {x}) c' \<and> nbuckets c' < 2 ^ 30"
  proof (cases "stat_qsize c3 < bot_threshold c3")
    case False
    then show ?thesis using y(1) yx c2(1,4) un r3 same(3) by (simp add: cal_deque_def)
  next
    case True
    have n: "0 < nbuckets c3 div 2" "nbuckets c3 div 2 < 2 ^ 30"
      using cal_holdsD(8) [OF h3] c2(4) same(3) by linarith+
    obtain c' where "cal_resize (nbuckets c3 div 2) (cal_clock c3) c3 = Inr c'"
      "cal_holds (?S - {x}) c'" "nbuckets c' = max 4 (nbuckets c3 div 2)" "cal_clock c' = cal_clock c3"
      "lastbucket c' = CALENDAR_HASH (cal_clock c') c'"
      using cal_resize_law [OF h3 _ n] r3 by (auto simp: cal_ready_def)
    then show ?thesis
      using True y(1) yx c2(1) un r3 n by (simp add: cal_deque_def cal_ready_def)
  qed
  then obtain c' where c': "cal_deque c = Inr (Some x, c')" "cal_ready (?S - {x}) c'" "nbuckets c' < 2 ^ 30"
    by blast
  have "events_ok u (?S - {x})" using ev by (auto simp: events_ok_def inj_on_diff)
  note ok' = cal_okI [OF u c'(2) this c'(3)]
  have "cal_list c' = xs"
  proof (rule ev_sorted_unique [OF ev_sorted_cal_list [OF ok'(1)]])
    show "ev_sorted xs" using srt by simp
    show "set (cal_list c') = set xs" using ok'(2) S ev_sorted_distinct [OF srt] by auto
  qed
  then show ?thesis using c'(1) ok'(1) by blast
qed

subsection \<open>Cancelling and looking up\<close>

lemma circle_uniq:
  assumes "ev_sorted (as @ e # bs)"
  shows "(bs @ as = [] \<or> ev_time (hd (bs @ as)) \<noteq> ev_time e \<and> ev_time (last (bs @ as)) \<noteq> ev_time e) \<longleftrightarrow>
         ev_time e \<notin> ev_time ` set (bs @ as)"
proof
  assume U: "bs @ as = [] \<or> ev_time (hd (bs @ as)) \<noteq> ev_time e \<and> ev_time (last (bs @ as)) \<noteq> ev_time e"
  have S: "\<forall>x \<in> set as. ev_time x \<le> ev_time e" "\<forall>x \<in> set bs. ev_time e \<le> ev_time x"
    "ev_sorted as" "ev_sorted bs"
    using assms by (auto simp: sorted_wrt_append ev_key_less)
  have "ev_time y \<noteq> ev_time e" if y: "y \<in> set as" for y
  proof -
    have "as \<noteq> []" using y by auto
    then have "ev_time (last as) \<noteq> ev_time e" "last as \<in> set as" using U by auto
    then show ?thesis using ev_sorted_last [OF S(3) y] S(1) by fastforce
  qed
  moreover have "ev_time y \<noteq> ev_time e" if y: "y \<in> set bs" for y
  proof -
    obtain z zs where z: "bs = z # zs" using y by (cases bs) auto
    have "ev_time z \<noteq> ev_time e" using U z by simp
    moreover have "ev_time z \<le> ev_time y" using S(4) y z by (auto simp: ev_key_less)
    ultimately show ?thesis using S(2) z by fastforce
  qed
  ultimately have "\<forall>y \<in> set (bs @ as). ev_time y \<noteq> ev_time e" by (simp add: ball_Un)
  then show "ev_time e \<notin> ev_time ` set (bs @ as)" by (metis imageE)
next
  assume n: "ev_time e \<notin> ev_time ` set (bs @ as)"
  have "ev_time y \<noteq> ev_time e" if "y \<in> set (bs @ as)" for y using n that by (metis imageI)
  then show "bs @ as = [] \<or> ev_time (hd (bs @ as)) \<noteq> ev_time e \<and> ev_time (last (bs @ as)) \<noteq> ev_time e"
    using hd_in_set last_in_set by blast
qed

lemma cal_cancel_law:
  assumes ok: "cal_ok u c" and e: "e \<in> cal_set c" "0 < ev_uid e"
  shows "\<exists>c'. cal_cancel e c = Inr (e\<lparr>ev_uid := - ev_uid e\<rparr>, c') \<and> cal_ok u c' \<and>
    cal_list c' = remove1 e (cal_list c)"
proof -
  let ?S = "cal_set c"
  have u: "0 < u" and r: "cal_ready ?S c" and ev: "events_ok u ?S" and nb: "nbuckets c < 2 ^ 30"
    using ok by (simp_all add: cal_ok_def)
  have h: "cal_holds ?S c" using r by (simp add: cal_ready_def)
  note B = bucket_of_law [OF h cal_holdsD(3) [OF h e(1)]]
  let ?b = "bucket_of c (ev_time e)"
  have mem: "e \<in> set (b_list ?b)" using B(5) e(1) by simp
  obtain as bs where ab: "b_list ?b = as @ e # bs" using split_list [OF mem] by blast
  have "set (b_list ?b) \<subseteq> ?S" unfolding B(5) by blast
  then have "inj_on ev_ptr (set (b_list ?b))" using ev inj_on_subset by (auto simp: events_ok_def)
  then have dp: "distinct (map ev_ptr (as @ e # bs))"
    using ev_sorted_distinct [OF B(4)] by (simp add: distinct_map flip: ab)
  have de: "distinct (as @ e # bs)" using ev_sorted_distinct [OF B(4)] ab by simp
  have circ: "cal_circle e (b_list ?b) = e # bs @ as" unfolding ab by (rule cal_circle_split [OF dp])
  define uniq where "uniq \<longleftrightarrow> bs @ as = [] \<or>
      ev_time (hd (bs @ as)) \<noteq> ev_time e \<and> ev_time (last (bs @ as)) \<noteq> ev_time e"
  let ?ys = "as @ bs"
  have left: "(if ev_ptr (hd (b_list ?b)) = ev_ptr e then bs @ as else remove1 e (b_list ?b)) = ?ys"
  proof (cases as)
    case (Cons a as')
    then have "ev_ptr a \<noteq> ev_ptr e" using dp by auto
    then show ?thesis unfolding ab using Cons de by (auto simp: remove1_append)
  qed (simp add: ab)
  have ys: "ev_sorted ?ys" "set ?ys = set (b_list ?b) - {e}"
    using B(4) de unfolding ab by (auto simp: sorted_wrt_append)
  have us: "uniq \<longleftrightarrow> ev_time e \<notin> ev_time ` set ?ys"
    unfolding uniq_def using circle_uniq [of as e bs] B(4) ab by (simp add: Un_commute)
  note T = cal_take [OF h e(1) ys us]
  let ?c = "(set_bucket (CALENDAR_HASH (ev_time e) c)
        \<lparr>b_list = ?ys, b_count = b_count ?b - of_bool uniq\<rparr> c)
     \<lparr>stat_qsize := stat_qsize c - of_bool uniq, qsize := qsize c - 1\<rparr>"
  have empty: "\<not> (b_count ?b - of_bool uniq = 0 \<and> ?ys \<noteq> [])" unfolding T(4) by (simp add: card_eq_0_iff)
  have counts: "\<not> (uniq \<and> (stat_qsize c - of_bool uniq < 0 \<or> b_count ?b - of_bool uniq < 0))"
    using T(2,3) by simp
  have queued: "\<not> ev_uid e \<le> 0" using e(2) by simp
  have run: "cal_cancel e c = Inr (e\<lparr>ev_uid := - ev_uid e\<rparr>, ?c)"
    unfolding cal_cancel_def if_not_P [OF queued] Let_def B(1) res_bind.simps circ list.case left
      uniq_def [symmetric] if_not_P [OF empty] if_not_P [OF counts] by (rule refl)
  have r': "cal_ready (?S - {e}) ?c"
    using r T(1) by (simp add: cal_ready_def set_bucket_def)
  have "events_ok u (?S - {e})" using ev by (auto simp: events_ok_def inj_on_diff)
  note ok' = cal_okI [OF u r' this]
  have nb': "nbuckets ?c < 2 ^ 30" using nb by (simp add: set_bucket_def)
  have "cal_list ?c = remove1 e (cal_list c)"
  proof (rule ev_sorted_unique [OF ev_sorted_cal_list [OF ok'(1) [OF nb']]])
    show "ev_sorted (remove1 e (cal_list c))" by (rule ev_sorted_remove1 [OF ev_sorted_cal_list [OF ok]])
    show "set (cal_list ?c) = set (remove1 e (cal_list c))"
      using ok'(2) [OF nb'] ev_sorted_distinct [OF ev_sorted_cal_list [OF ok]]
      by (simp add: set_remove1_eq)
  qed
  then show ?thesis using run ok'(1) [OF nb'] by blast
qed

lemma cal_lookup_in_law:
  "case cal_lookup_in i bs of
     None \<Rightarrow> \<forall>x \<in> (\<Union>b \<in> set bs. set (b_list b)). ev_uid x \<noteq> i
   | Some x \<Rightarrow> x \<in> (\<Union>b \<in> set bs. set (b_list b)) \<and> ev_uid x = i"
proof (induction bs)
  case (Cons b bs)
  then show ?case
    using ls_lookup_law [where i = i and q = "b_list b"] by (auto split: option.splits)
qed simp

interpretation calq: event_queue cal_ok cal_list "\<lambda>u. u < 2 ^ 30" cal_insert cal_deque cal_cancel cal_lookup
proof (unfold_locales, goal_cases)
  case (1 u q)
  then show ?case by (rule ev_sorted_cal_list)
next
  case (2 u q x)
  then show ?case by (simp add: cal_ok_def events_ok_def)
next
  case (3 u q e)
  then show ?case using cal_insert_law by simp
next
  case (4 u q)
  then have "cal_set q = {}" by (simp flip: set_cal_list)
  then have "qsize q = 0" using 4(1) cal_holdsD(4) [of "cal_set q" q] by (simp add: cal_ok_def cal_ready_def)
  then show ?case by (simp add: cal_deque_def cal_head_def)
next
  case (5 u q x xs)
  then show ?case by (rule cal_deque_law)
next
  case (7 u q e)
  then show ?case using cal_cancel_law by simp
next
  case (8 u q i)
  show ?case
    using cal_lookup_in_law [where i = i and bs = "buckets q"] by (simp add: cal_lookup_def cal_set_def split: option.splits)
qed (simp add: cal_cancel_def)

text \<open>A new calendar is an empty queue, whatever its bound and its uninitialised variables are.\<close>

lemma new_calendar_ok: "\<exists>c'. new_calendar 0 c = Inr c' \<and> cal_ok 1 c' \<and> cal_list c' = []"
proof -
  define c1 where "c1 = (let c = c\<lparr>cal_clock := 0\<rparr> in if adjust_new_width_interval c \<noteq> 0
     then c\<lparr>avg_gap := - 2, last_time := - 2, gap_num := 0, head_search := 0, insert_search := 0,
            round_num := 0, time_to_newwidth := adjust_new_width_interval c\<rparr> else c)"
  have clk: "cal_clock c1 = 0" by (simp add: c1_def Let_def)
  have run: "new_calendar 0 c = cal_reinit 4 1 0 c1" by (simp add: new_calendar_def c1_def Let_def)
  obtain c' where c': "cal_reinit 4 1 0 c1 = Inr c'" "cal_holds {} c'" "nbuckets c' = 4"
    "cal_clock c' = 0" "lastbucket c' = CALENDAR_HASH 0 c'"
    using cal_reinit_law [of 4 1 0 c1] clk by auto
  have "cal_ready {} c'" using c' by (simp add: cal_ready_def)
  then have "cal_ok 1 c'" "cal_set c' = {}"
    using cal_okI [of 1 "{}" c'] c'(3) by (simp_all add: events_ok_def)
  then show ?thesis using run c'(1) set_cal_list [of c'] by (metis set_empty)
qed

end
