(* ===== verification/Scheduler_Equivalence.thy ===== *)
theory Scheduler_Equivalence
  imports Splay_Scheduler Heap_Scheduler Calendar_Scheduler
begin

section \<open>The schedulers agree\<close>

text \<open>
  From the interface alone: every event queue dispatches the same events as the list scheduler, in
  the same rounds, and dumping a queue yields a stable sort by time of what was put in.
\<close>

subsection \<open>Stable insertion is sorting\<close>

lemma mset_abs_insert [simp]: "mset (abs_insert e xs) = add_mset e (mset xs)"
proof -
  have "mset (takeWhile P xs) + mset (dropWhile P xs) = mset xs" for P
    by (metis mset_append takeWhile_dropWhile_id)
  then show ?thesis by (simp add: abs_insert_def)
qed

lemma filter_abs_insert:
  assumes "ev_sorted xs"
  shows "filter (\<lambda>x. ev_time x = t) (abs_insert e xs) =
         filter (\<lambda>x. ev_time x = t) xs @ (if ev_time e = t then [e] else [])"
proof -
  let ?P = "\<lambda>x. ev_time x \<le> ev_time e" and ?F = "filter (\<lambda>x. ev_time x = t)"
  have split: "?F xs = ?F (takeWhile ?P xs) @ ?F (dropWhile ?P xs)"
    by (metis filter_append takeWhile_dropWhile_id)
  have "?F (dropWhile ?P xs) = []" if "ev_time e = t"
    using ev_sorted_drop_times [OF assms, of "ev_time e"] that by (auto simp: filter_empty_conv)
  then show ?thesis unfolding split by (auto simp: abs_insert_def)
qed

text \<open>Events as the scheduler numbers them: identifiers from \<open>u\<close> upwards, distinct objects.\<close>

fun numbered :: "int \<Rightarrow> event list \<Rightarrow> bool" where
  "numbered u [] \<longleftrightarrow> True"
| "numbered u (e # es) \<longleftrightarrow> ev_uid e = u \<and> ev_ptr e \<notin> ev_ptr ` set es \<and> numbered (u + 1) es"

text \<open>Putting events into a queue, one after the other.\<close>

fun insert_all :: "(event \<Rightarrow> 'q \<Rightarrow> 'q res) \<Rightarrow> event list \<Rightarrow> 'q \<Rightarrow> 'q res" where
  "insert_all ins [] q = Inr q"
| "insert_all ins (e # es) q = res_bind (ins e q) (insert_all ins es)"

context event_queue
begin

lemma insert_all_law:
  assumes "qinv u q" and "numbered u es" and "\<forall>v < u + int (length es). fits v"
    and "\<forall>e \<in> set es. 0 \<le> ev_time e" and "ev_ptr ` set (qlist q) \<inter> ev_ptr ` set es = {}"
  shows "\<exists>q'. insert_all ins es q = Inr q' \<and> qinv (u + int (length es)) q' \<and>
    mset (qlist q') = mset (qlist q) + mset es \<and>
    (\<forall>t. filter (\<lambda>x. ev_time x = t) (qlist q') =
          filter (\<lambda>x. ev_time x = t) (qlist q) @ filter (\<lambda>x. ev_time x = t) es)"
  using assms
proof (induction es arbitrary: u q)
  case (Cons e es)
  obtain q1 where I: "ins e q = Inr q1" "qinv (u + 1) q1" "qlist q1 = abs_insert e (qlist q)"
    using ins_law [OF Cons.prems(1), of e] Cons.prems by auto
  have f: "filter (\<lambda>x. ev_time x = t) (qlist q1) =
      filter (\<lambda>x. ev_time x = t) (qlist q) @ (if ev_time e = t then [e] else [])" for t
    using filter_abs_insert [OF qinv_sorted [OF Cons.prems(1)]] by (simp add: I(3))
  have "ev_ptr ` set (qlist q1) \<inter> ev_ptr ` set es = {}" using Cons.prems(2,5) I(3) by auto
  then obtain q' where "insert_all ins es q1 = Inr q'" "qinv (u + 1 + int (length es)) q'"
    "mset (qlist q') = mset (qlist q1) + mset es"
    "\<forall>t. filter (\<lambda>x. ev_time x = t) (qlist q') =
          filter (\<lambda>x. ev_time x = t) (qlist q1) @ filter (\<lambda>x. ev_time x = t) es"
    using Cons.IH [OF I(2)] Cons.prems by auto
  then show ?case using I f by (auto simp: add.assoc)
qed simp

lemma dumpq_all:
  "qinv u q \<Longrightarrow> \<exists>q'. sched_dumpq deq q out = Some (Inr (out @ qlist q, q')) \<and> qlist q' = []"
proof (induction "qlist q" arbitrary: q out)
  case Nil
  then show ?case using deq_nil [OF Nil.prems] by (subst sched_dumpq.simps) auto
next
  case (Cons x xs)
  obtain q' where "deq q = Inr (Some x, q')" "qinv u q'" "qlist q' = xs"
    using deq_cons [OF Cons.prems Cons.hyps(2) [symmetric]] by blast
  then show ?case
    using Cons.hyps(1) [of q' "out @ [x]"] Cons.hyps(2) by (subst sched_dumpq.simps) auto
qed

lemma dumpq_sorts:
  assumes "qinv u q" and "qlist q = []" and "numbered u es" and "\<forall>v < u + int (length es). fits v"
    and "\<forall>e \<in> set es. 0 \<le> ev_time e"
  shows "\<exists>q1 q2. insert_all ins es q = Inr q1 \<and> sched_dumpq deq q1 [] = Some (Inr (sort_key ev_time es, q2))"
proof -
  obtain q1 where F: "insert_all ins es q = Inr q1" "qinv (u + int (length es)) q1"
    "mset (qlist q1) = mset es"
    "\<forall>t. filter (\<lambda>x. ev_time x = t) (qlist q1) = filter (\<lambda>x. ev_time x = t) es"
    using insert_all_law [OF assms(1,3,4,5)] assms(2) by auto
  have "qlist q1 = sort_key ev_time es"
  proof (rule properties_for_sort_key [symmetric])
    show "mset (qlist q1) = mset es" by (rule F(3))
    show "filter (\<lambda>x. ev_time k = ev_time x) (qlist q1) = filter (\<lambda>x. ev_time k = ev_time x) es" for k
      using F(4) by (simp add: eq_commute)
    show "sorted (map ev_time (qlist q1))"
      using ev_sorted_by_time [OF qinv_sorted [OF F(2)]] by simp
  qed
  then show ?thesis using dumpq_all [OF F(2), of "[]"] F(1) by auto
qed

subsection \<open>Simulation of the list scheduler\<close>

definition simulates :: "'q scheduler \<Rightarrow> event list scheduler \<Rightarrow> bool" where
  "simulates s t \<longleftrightarrow> sched_ok s \<and> clock t = clock s \<and> halted t = halted s \<and> uid_next t = uid_next s \<and>
     uid_of t = uid_of s \<and> time_of t = time_of s \<and> equeue t = qlist (equeue s)"

lemma sim_schedule:
  assumes sim: "simulates s t" and fit: "fits (uid_next s)" and d: "0 \<le> d"
    and run: "sched_schedule (sure_ins ls_insert) False e d t = Inr t'"
  shows "\<exists>s'. sched_schedule ins False e d s = Inr s' \<and> simulates s' t'"
proof -
  have ok: "sched_ok s" using sim by (simp add: simulates_def)
  have free: "\<not> 0 < uid_of s e"
    using run sim by (auto simp: sched_schedule_def Let_def simulates_def split: if_splits)
  obtain s' where S: "sched_schedule ins False e d s = Inr s'" "sched_ok s'" "uid_next s' = uid_next s + 1"
    "clock s' = clock s" "halted s' = halted s" "uid_of s' = (uid_of s)(e := uid_next s)"
    "time_of s' = (time_of s)(e := clock s + d)"
    "qlist (equeue s') = abs_insert (ev_of e s') (qlist (equeue s))"
    using schedule_ok [OF ok fit d free] by blast
  have "simulates s' t'"
    using run sim S(2-) unfolding sched_schedule_def Let_def
    by (auto simp: simulates_def ls_insert_abs split: if_splits)
  then show ?thesis using S(1) by blast
qed

lemma sim_cancel:
  assumes sim: "simulates s t"
  shows "\<exists>s' t'. sched_cancel can e s = Inr s' \<and> sched_cancel ls_cancel e t = Inr t' \<and> simulates s' t'"
proof -
  have ok: "sched_ok s" using sim by (simp add: simulates_def)
  obtain s' where C: "sched_cancel can e s = Inr s'" "sched_ok s'" "uid_next s' = uid_next s"
    "clock s' = clock s" "halted s' = halted s" using cancel_ok [OF ok, of e] by blast
  have ev: "ev_of e t = ev_of e s" using sim by (simp add: simulates_def)
  show ?thesis
  proof (cases "0 < uid_of s e")
    case False
    then have "s' = s" using C(1) can_idle [of "ev_of e s" "equeue s"] by (simp add: sched_cancel_def)
    moreover have "sched_cancel ls_cancel e t = Inr t"
      using False sim by (simp add: sched_cancel_def ls_cancel_def simulates_def)
    ultimately show ?thesis using C sim by auto
  next
    case True
    have q: "qinv (uid_next s) (equeue s)" and m: "ev_of e s \<in> set (qlist (equeue s))"
      using ok True by (simp_all add: sched_ok_def)
    obtain q' where c: "can (ev_of e s) (equeue s) = Inr (ev_of e s\<lparr>ev_uid := - uid_of s e\<rparr>, q')"
      "qlist q' = remove1 (ev_of e s) (qlist (equeue s))"
      using can_law [OF q m] True by auto
    have "\<forall>x \<in> set (qlist (equeue s)). x = ev_of (ev_ptr x) s" using ok by (simp add: sched_ok_def)
    then have "inj_on ev_ptr (set (qlist (equeue s)))" by (metis inj_onI)
    then have "distinct (map ev_ptr (qlist (equeue s)))"
      using ev_sorted_distinct [OF qinv_sorted [OF q]] by (simp add: distinct_map)
    then have "ls_unlink e (equeue t) = Some (qlist q')"
      using ls_unlink_remove1 [OF _ m] c(2) sim by (simp add: simulates_def)
    then have "sched_cancel ls_cancel e t =
        Inr (t\<lparr>uid_of := (uid_of t)(e := - uid_of s e), equeue := qlist q'\<rparr>)"
      using True sim by (simp add: sched_cancel_def ls_cancel_def simulates_def)
    moreover have "s' = s\<lparr>uid_of := (uid_of s)(e := - uid_of s e), equeue := q'\<rparr>"
      using C(1) c(1) by (simp add: sched_cancel_def)
    ultimately show ?thesis using C sim by (simp add: simulates_def)
  qed
qed

lemma sim_call:
  assumes sim: "simulates s t" and run: "do_call (sure_ins ls_insert) ls_cancel c t = Inr t'"
    and fit: "\<forall>u < uid_next t'. fits u" and fwd: "case c of Schedule e d \<Rightarrow> 0 \<le> d | _ \<Rightarrow> True"
  shows "\<exists>s'. do_call ins can c s = Inr s' \<and> simulates s' t'"
proof (cases c)
  case (Schedule e d)
  then have "uid_next t' = uid_next t + 1"
    using run by (auto simp: sched_schedule_def Let_def split: if_splits)
  then have "fits (uid_next s)" using fit sim by (simp add: simulates_def)
  then show ?thesis using sim_schedule [OF sim, of d e t'] run fwd Schedule by simp
next
  case (Cancel e)
  then show ?thesis using sim_cancel [OF sim, of e] run by auto
next
  case Halt
  then show ?thesis using sim run by (auto simp: simulates_def sched_ok_def)
qed

lemma sim_calls:
  assumes "simulates s t" and "do_calls (sure_ins ls_insert) ls_cancel cs t = Inr t'"
    and "\<forall>u < uid_next t'. fits u" and "forward_calls cs"
  shows "\<exists>s'. do_calls ins can cs s = Inr s' \<and> simulates s' t'"
  using assms
proof (induction cs arbitrary: s t)
  case (Cons c cs)
  then obtain t1 where r: "do_call (sure_ins ls_insert) ls_cancel c t = Inr t1"
    "do_calls (sure_ins ls_insert) ls_cancel cs t1 = Inr t'" by auto
  have fit: "\<forall>u < uid_next t1. fits u" using calls_mono [OF r(2)] Cons.prems(3) by auto
  obtain s1 where "do_call ins can c s = Inr s1" "simulates s1 t1"
    using sim_call [OF Cons.prems(1) r(1) fit] Cons.prems(4) by (auto simp: forward_calls_def)
  then show ?case using Cons.IH [OF _ r(2) Cons.prems(3), of s1] Cons.prems(4)
    by (auto simp: forward_calls_def)
qed simp

lemma sim_round_none:
  assumes sim: "simulates s t"
    and none: "run_round (sure_ins ls_insert) (sure_deq ls_deque) ls_cancel handle (w, t) = Inr None"
  shows "run_round ins deq can handle (w, s) = Inr None"
proof -
  have "halted t \<or> equeue t = []"
    using none by (cases "equeue t") (auto simp: run_round_def split: if_splits)
  then show ?thesis using sim round_None [of s handle w] by (simp add: simulates_def)
qed

lemma sim_round:
  assumes sim: "simulates s t"
    and run: "run_round (sure_ins ls_insert) (sure_deq ls_deque) ls_cancel handle (w, t) = Inr (Some (p, w', t'))"
    and fit: "\<forall>u < uid_next t'. fits u" and fwd: "forward_calls (snd (handle p (ev_time p) w))"
  shows "\<exists>s'. run_round ins deq can handle (w, s) = Inr (Some (p, w', s')) \<and> simulates s' t'"
proof -
  have ok: "sched_ok s" using sim by (simp add: simulates_def)
  obtain x xs where L: "equeue t = x # xs" and h: "\<not> halted t"
    using run by (cases "equeue t") (auto simp: run_round_def split: if_splits)
  define t1 where "t1 = t\<lparr>equeue := xs, clock := ev_time x,
      uid_of := (uid_of t)(ev_ptr x := - uid_of t (ev_ptr x))\<rparr>"
  have "dispatch (sure_ins ls_insert) ls_cancel handle x (ev_time x) (w, t\<lparr>equeue := xs\<rparr>) = Inr (w', t')"
    and p: "p = x" using run L h by (auto simp: run_round_def)
  then have c: "w' = fst (handle x (ev_time x) w)"
    "do_calls (sure_ins ls_insert) ls_cancel (snd (handle x (ev_time x) w)) t1 = Inr t'"
    by (auto simp: dispatch_def t1_def Let_def split: if_splits prod.splits)
  obtain s1 where s1: "sched_ok s1" "clock s1 = ev_time x" "halted s1 = halted s"
    "uid_next s1 = uid_next s" "qlist (equeue s1) = xs"
    "uid_of s1 = (uid_of s)(ev_ptr x := - uid_of s (ev_ptr x))" "time_of s1 = time_of s"
    "run_round ins deq can handle (w, s) =
       res_bind (do_calls ins can (snd (handle x (ev_time x) w)) s1)
         (\<lambda>s. Inr (Some (x, fst (handle x (ev_time x) w), s)))"
    using round_Some [OF ok, of x xs] sim h L unfolding simulates_def by metis
  have "simulates s1 t1" using sim s1(1-7) by (simp add: simulates_def t1_def)
  then obtain s' where "do_calls ins can (snd (handle x (ev_time x) w)) s1 = Inr s'" "simulates s' t'"
    using sim_calls [OF _ c(2) fit] fwd p by auto
  then show ?thesis using s1(8) c(1) p by simp
qed

lemma sim_dispatched:
  assumes "simulates s t" and "\<And>p t w. forward_calls (snd (handle p t w))"
    and "dispatched (sure_ins ls_insert) (sure_deq ls_deque) ls_cancel handle n (w, t) = Inr (ps, w', t')"
    and "\<forall>u < uid_next t'. fits u"
  shows "\<exists>s'. dispatched ins deq can handle n (w, s) = Inr (ps, w', s') \<and> simulates s' t'"
  using assms(1,3)
proof (induction n arbitrary: w s t ps)
  case (Suc n)
  then obtain r where r: "run_round (sure_ins ls_insert) (sure_deq ls_deque) ls_cancel handle (w, t) = Inr r"
    by auto
  show ?case
  proof (cases r)
    case None
    have "run_round ins deq can handle (w, s) = Inr None"
      by (rule sim_round_none [OF Suc.prems(1)]) (use r None in simp)
    then show ?thesis using Suc.prems r None by (intro exI [of _ s]) simp
  next
    case (Some a)
    then obtain p w1 t1 qs where R:
      "run_round (sure_ins ls_insert) (sure_deq ls_deque) ls_cancel handle (w, t) = Inr (Some (p, w1, t1))"
      "ps = p # qs"
      "dispatched (sure_ins ls_insert) (sure_deq ls_deque) ls_cancel handle n (w1, t1) = Inr (qs, w', t')"
      using Suc.prems(2) r by (cases a) auto
    have fit: "\<forall>u < uid_next t1. fits u" using dispatched_mono [OF R(3)] assms(4) by auto
    obtain s1 where "run_round ins deq can handle (w, s) = Inr (Some (p, w1, s1))" "simulates s1 t1"
      using sim_round [OF Suc.prems(1) R(1) fit assms(2)] by blast
    then show ?thesis using Suc.IH [OF _ R(3), of s1] R(2) by auto
  qed
qed auto

lemma simulates_new:
  assumes "qinv 1 q" and "qlist q = []"
  shows "simulates (new_scheduler q) (new_scheduler [])"
  using new_scheduler_ok [OF assms] assms(2) by (simp add: simulates_def new_scheduler_def)

text \<open>
  The whole of it: a simulation on the list scheduler, and the same calls, clients and rounds on
  another queue.
\<close>

lemma matches_list:
  assumes new: "qinv 1 q" "qlist q = []"
    and "forward_calls calls" and "\<And>p t w. forward_calls (snd (handle p t w))"
    and run: "do_calls (sure_ins ls_insert) ls_cancel calls (new_scheduler []) = Inr t"
      "dispatched (sure_ins ls_insert) (sure_deq ls_deque) ls_cancel handle n (w, t) = Inr (ps, w', t')"
    and fit: "\<forall>u < uid_next t'. fits u"
  shows "\<exists>s s'. do_calls ins can calls (new_scheduler q) = Inr s \<and>
    dispatched ins deq can handle n (w, s) = Inr (ps, w', s') \<and>
    clock s' = clock t' \<and> qlist (equeue s') = equeue t'"
proof -
  have "\<forall>u < uid_next t. fits u" using dispatched_mono [OF run(2)] fit by auto
  then obtain s where s: "do_calls ins can calls (new_scheduler q) = Inr s" "simulates s t"
    using sim_calls [OF simulates_new [OF new] run(1) _ assms(3)] by blast
  then show ?thesis
    using sim_dispatched [OF s(2) assms(4) run(2) fit] by (auto simp: simulates_def)
qed

end

end
