(* ===== verification/Scheduler_Properties.thy ===== *)
theory Scheduler_Properties
  imports Scheduler_Equivalence
begin

section \<open>Properties of the schedulers\<close>

text \<open>
  The statements about the event queues and the scheduler's loop, for the list, splay, heap
  and calendar schedulers. A run starts from a new scheduler, makes the scheduling calls of the simulation
  script and then dispatches.
\<close>

definition empty_splay :: splay where
  "empty_splay = \<lparr>sp_root = ELeaf, sp_qsize = 0\<rparr>"

text \<open>The heap of a new \<open>HeapScheduler\<close> has room for \<open>HEAP_DEFAULT_SIZE\<close> = 32 elements.\<close>

definition empty_heap :: "event heap" where
  "empty_heap = new_heap \<lparr>ev_ptr = 0, ev_time = 0, ev_uid = 0\<rparr> 32"

lemma empty_queues:
  "ls_ok 1 []" "sp_ok 1 empty_splay" "inorder (sp_root empty_splay) = []" "hp_ok 1 empty_heap"
  "hp_list empty_heap = []"
proof -
  show "ls_ok 1 []" "sp_ok 1 empty_splay" "inorder (sp_root empty_splay) = []"
    by (simp_all add: ls_ok_def sp_ok_def empty_splay_def)
  show "hp_ok 1 empty_heap" unfolding empty_heap_def by (rule hp_ok_new) simp
  then show "hp_list empty_heap = []" using hp_list_nil by (simp add: empty_heap_def new_heap_def)
qed

text \<open>A client for the witnesses: its handler schedules event object 9 one second after event 1.\<close>

definition demo_calls :: "sched_call list" where
  "demo_calls = [Schedule 1 2, Schedule 2 5, Schedule 3 2, Cancel 3, Schedule 4 2]"

definition demo_handle :: "event \<Rightarrow> time \<Rightarrow> nat \<Rightarrow> nat \<times> sched_call list" where
  "demo_handle e t w = (w + 1, if ev_ptr e = 1 then [Schedule 9 1] else [])"

lemma demo_forward: "forward_calls demo_calls" "forward_calls (snd (demo_handle e t w))"
  by (simp_all add: forward_calls_def demo_calls_def demo_handle_def)

lemmas demo_eval = demo_calls_def demo_handle_def new_scheduler_def sched_schedule_def Let_def
  sched_cancel_def ls_cancel_def run_round_def dispatch_def numeral_2_eq_2 numeral_3_eq_3

abbreviation list_calls :: "sched_call list \<Rightarrow> event list scheduler \<Rightarrow> event list scheduler res" where
  "list_calls \<equiv> do_calls (sure_ins ls_insert) ls_cancel"

abbreviation list_rounds ::
  "(event \<Rightarrow> time \<Rightarrow> 'w \<Rightarrow> 'w \<times> sched_call list) \<Rightarrow> nat \<Rightarrow> 'w \<times> event list scheduler \<Rightarrow>
   (event list \<times> 'w \<times> event list scheduler) res" where
  "list_rounds \<equiv> dispatched (sure_ins ls_insert) (sure_deq ls_deque) ls_cancel"

lemma demo_list_run:
  "\<exists>s w' s' ps. list_calls demo_calls (new_scheduler []) = Inr s \<and>
     list_rounds demo_handle 3 (0, s) = Inr (ps, w', s') \<and> map ev_ptr ps = [1, 4, 9] \<and> uid_next s' = 6"
  by (simp add: demo_eval)

subsection \<open>Order of dispatch\<close>

text \<open>
  (C10) The scheduler dispatches events in the order of their times and, for equal times, in the
  order in which they were scheduled, whatever the handlers schedule or cancel on the way as long as
  they schedule nothing in the past. The clock never goes backwards, and the only way for a round to
  fail is that a handler schedules an event which is still queued.
\<close>

theorem list_dispatch_order:
  assumes "forward_calls calls" and "\<And>p t w. forward_calls (snd (handle p t w))"
    and "list_calls calls (new_scheduler []) = Inr s" and "list_rounds handle n (w, s) = Inr (ps, w', s')"
  shows "sorted_wrt (\<lambda>a b. ev_key a < ev_key b) ps \<and> clock s \<le> clock s' \<and>
    (run_round (sure_ins ls_insert) (sure_deq ls_deque) ls_cancel handle (w', s') = Inl err \<longrightarrow>
       err = EventUidNotValid)"
proof -
  have s: "lsq.sched_ok s"
    using lsq.calls_ok [OF lsq.new_scheduler_ok assms(3) _ assms(1)] empty_queues(1) by simp
  have D: "lsq.sched_ok s' \<and> ev_sorted ps \<and> clock s \<le> clock s'"
    using lsq.dispatched_ok [OF s assms(2,4)] by simp
  moreover have "err = EventUidNotValid"
    if "run_round (sure_ins ls_insert) (sure_deq ls_deque) ls_cancel handle (w', s') = Inl err"
    using lsq.round_error [OF _ _ assms(2) that] D by blast
  ultimately show ?thesis by blast
qed

theorem list_dispatch_order_witness:
  "\<exists>s w' s' ps. list_calls demo_calls (new_scheduler []) = Inr s \<and>
     list_rounds demo_handle 3 (0, s) = Inr (ps, w', s') \<and>
     map ev_ptr ps = [1, 4, 9] \<and> sorted_wrt (\<lambda>a b. ev_key a < ev_key b) ps"
proof -
  obtain s w' s' ps where r: "list_calls demo_calls (new_scheduler []) = Inr s"
    "list_rounds demo_handle 3 (0, s) = Inr (ps, w', s')"
    "map ev_ptr ps = [1, 4, 9]" using demo_list_run by (elim exE conjE) (rule that)
  have "ev_sorted ps" using list_dispatch_order [OF demo_forward r(1,2), THEN conjunct1] .
  with r show ?thesis by metis
qed

subsection \<open>The other queues behave as the list\<close>

text \<open>
  (C16) The splay tree scheduler dispatches the same events in the same rounds as the list scheduler,
  for every sequence of calls and every client that schedules nothing in the past.
\<close>

theorem splay_matches_list:
  assumes "forward_calls calls" and "\<And>p t w. forward_calls (snd (handle p t w))"
    and "list_calls calls (new_scheduler []) = Inr t" and "list_rounds handle n (w, t) = Inr (ps, w', t')"
  shows "\<exists>s s'. do_calls (sure_ins sp_insert) sp_cancel calls (new_scheduler empty_splay) = Inr s \<and>
           dispatched (sure_ins sp_insert) (sure_deq sp_deque) sp_cancel handle n (w, s) = Inr (ps, w', s') \<and>
           clock s' = clock t' \<and> inorder (sp_root (equeue s')) = equeue t'"
  using spq.matches_list [OF empty_queues(2,3) assms] by simp

theorem splay_matches_list_witness:
  "\<exists>s w' s' ps. dispatched (sure_ins sp_insert) (sure_deq sp_deque) sp_cancel demo_handle 3 (0, s) =
       Inr (ps, w', s') \<and> map ev_ptr ps = [1, 4, 9]"
proof -
  obtain t w' t' ps where r: "list_calls demo_calls (new_scheduler []) = Inr t"
    "list_rounds demo_handle 3 (0, t) = Inr (ps, w', t')"
    "map ev_ptr ps = [1, 4, 9]" using demo_list_run by (elim exE conjE) (rule that)
  show ?thesis using splay_matches_list [OF demo_forward r(1,2)] r(3) by (elim exE conjE) metis
qed

text \<open>
  (C15) The heap scheduler dispatches the same events in the same rounds as the list scheduler, as
  long as fewer than \<open>2 ^ 31\<close> events have been scheduled: then neither the array nor an index of the
  heap wraps around, no access is outside the array and its loops end.
\<close>

theorem heap_matches_list:
  assumes "forward_calls calls" and "\<And>p t w. forward_calls (snd (handle p t w))"
    and "list_calls calls (new_scheduler []) = Inr t" and "list_rounds handle n (w, t) = Inr (ps, w', t')"
    and "uid_next t' \<le> 2 ^ 31"
  shows "\<exists>s s'. do_calls hs_insert hs_cancel calls (new_scheduler empty_heap) = Inr s \<and>
           dispatched hs_insert hs_deque hs_cancel handle n (w, s) = Inr (ps, w', s') \<and>
           clock s' = clock t' \<and> hp_list (equeue s') = equeue t'"
  by (rule hpq.matches_list [OF empty_queues(4,5) assms(1-4)]) (use assms(5) in auto)

theorem heap_matches_list_witness:
  "\<exists>s w' s' ps. dispatched hs_insert hs_deque hs_cancel demo_handle 3 (0, s) =
       Inr (ps, w', s') \<and> map ev_ptr ps = [1, 4, 9]"
proof -
  obtain t w' t' ps where r: "list_calls demo_calls (new_scheduler []) = Inr t"
    "list_rounds demo_handle 3 (0, t) = Inr (ps, w', t')"
    "map ev_ptr ps = [1, 4, 9]" "uid_next t' = 6" using demo_list_run by (elim exE conjE) (rule that)
  have u: "uid_next t' \<le> 2 ^ 31" by (simp add: r(4))
  show ?thesis using heap_matches_list [OF demo_forward r(1,2) u] r(3) by (elim exE conjE) metis
qed

text \<open>
  (C7) The calendar scheduler, which simulations use unless they ask for another, dispatches the same
  events in the same rounds as the list scheduler while fewer than \<open>2 ^ 30\<close> events have been
  scheduled, whatever its tuning variables and however its buckets are resized on the way. In
  particular its searches end and none of its assertions fails.
\<close>

theorem calendar_matches_list:
  assumes "forward_calls calls" and "\<And>p t w. forward_calls (snd (handle p t w))"
    and "list_calls calls (new_scheduler []) = Inr t" and "list_rounds handle n (w, t) = Inr (ps, w', t')"
    and "uid_next t' \<le> 2 ^ 30"
  shows "\<exists>c s s'. new_calendar 0 conf = Inr c \<and>
           do_calls cal_insert cal_cancel calls (new_scheduler c) = Inr s \<and>
           dispatched cal_insert cal_deque cal_cancel handle n (w, s) = Inr (ps, w', s') \<and>
           clock s' = clock t' \<and> cal_list (equeue s') = equeue t'"
proof -
  obtain c where c: "new_calendar 0 conf = Inr c" "cal_ok 1 c" "cal_list c = []"
    using new_calendar_ok by blast
  have "\<exists>s s'. do_calls cal_insert cal_cancel calls (new_scheduler c) = Inr s \<and>
      dispatched cal_insert cal_deque cal_cancel handle n (w, s) = Inr (ps, w', s') \<and>
      clock s' = clock t' \<and> cal_list (equeue s') = equeue t'"
    by (rule calq.matches_list [OF c(2,3) assms(1-4)]) (use assms(5) in auto)
  then show ?thesis using c(1) by blast
qed

text \<open>The variables that \<open>tcl/lib/ns-default.tcl\<close> binds; the others are set by the constructor.\<close>

definition demo_calendar :: calendar where
  "demo_calendar = \<lparr>min_bin_width = 1 / 10 ^ 18, adjust_new_width_interval = 10, time_to_newwidth = 0,
     head_search = 0, insert_search = 0, round_num = 0, gap_num = 0, last_time = 0, avg_gap = 0,
     width = 0, diff0 = 0, diff1 = 0, diff2 = 0, stat_qsize = 0, nbuckets = 0, lastbucket = 0,
     top_threshold = 0, bot_threshold = 0, buckets = [], qsize = 0, cal_clock = 0\<rparr>"

theorem calendar_matches_list_witness:
  "\<exists>c s w' s' ps. new_calendar 0 demo_calendar = Inr c \<and>
     do_calls cal_insert cal_cancel demo_calls (new_scheduler c) = Inr s \<and>
     dispatched cal_insert cal_deque cal_cancel demo_handle 3 (0, s) = Inr (ps, w', s') \<and>
     map ev_ptr ps = [1, 4, 9]"
proof -
  obtain t w' t' ps where r: "list_calls demo_calls (new_scheduler []) = Inr t"
    "list_rounds demo_handle 3 (0, t) = Inr (ps, w', t')"
    "map ev_ptr ps = [1, 4, 9]" "uid_next t' = 6" using demo_list_run by (elim exE conjE) (rule that)
  have u: "uid_next t' \<le> 2 ^ 30" by (simp add: r(4))
  show ?thesis
    using calendar_matches_list [OF demo_forward r(1,2) u, of demo_calendar] r(3) by (elim exE conjE) metis
qed

subsection \<open>Sorting, cancelling, wrapping\<close>

text \<open>
  Dumping a heap, a splay tree or a calendar into which events were put, numbered in the order
  of arrival, returns them stably sorted by time.
\<close>

theorem queues_sort:
  assumes "numbered 1 es" and "length es < 2 ^ 30" and "\<forall>e \<in> set es. 0 \<le> ev_time e"
  shows "(\<exists>q q'. insert_all hs_insert es empty_heap = Inr q \<and>
            sched_dumpq hs_deque q [] = Some (Inr (sort_key ev_time es, q'))) \<and>
         (\<exists>q q'. insert_all (sure_ins sp_insert) es empty_splay = Inr q \<and>
            sched_dumpq (sure_deq sp_deque) q [] = Some (Inr (sort_key ev_time es, q'))) \<and>
         (\<exists>c q q'. new_calendar 0 conf = Inr c \<and> insert_all cal_insert es c = Inr q \<and>
            sched_dumpq cal_deque q [] = Some (Inr (sort_key ev_time es, q')))"
proof (intro conjI)
  have "\<forall>v < 1 + int (length es). v < 2 ^ 31" using assms(2) by simp
  then show "\<exists>q q'. insert_all hs_insert es empty_heap = Inr q \<and>
      sched_dumpq hs_deque q [] = Some (Inr (sort_key ev_time es, q'))"
    using hpq.dumpq_sorts [OF empty_queues(4,5) assms(1) _ assms(3)] by blast
  show "\<exists>q q'. insert_all (sure_ins sp_insert) es empty_splay = Inr q \<and>
      sched_dumpq (sure_deq sp_deque) q [] = Some (Inr (sort_key ev_time es, q'))"
    using spq.dumpq_sorts [OF empty_queues(2,3) assms(1) _ assms(3)] by blast
  obtain c where c: "new_calendar 0 conf = Inr c" "cal_ok 1 c" "cal_list c = []"
    using new_calendar_ok by blast
  have "\<forall>v < 1 + int (length es). v < 2 ^ 30" using assms(2) by simp
  then show "\<exists>c q q'. new_calendar 0 conf = Inr c \<and> insert_all cal_insert es c = Inr q \<and>
      sched_dumpq cal_deque q [] = Some (Inr (sort_key ev_time es, q'))"
    using calq.dumpq_sorts [OF c(2,3) assms(1) _ assms(3)] c(1) by blast
qed

definition demo_events :: "event list" where
  "demo_events = [\<lparr>ev_ptr = 1, ev_time = 5, ev_uid = 1\<rparr>, \<lparr>ev_ptr = 2, ev_time = 2, ev_uid = 2\<rparr>,
     \<lparr>ev_ptr = 3, ev_time = 5, ev_uid = 3\<rparr>]"

theorem queues_sort_witness:
  "\<exists>c q q' xs. new_calendar 0 demo_calendar = Inr c \<and> insert_all cal_insert demo_events c = Inr q \<and>
     sched_dumpq cal_deque q [] = Some (Inr (xs, q')) \<and> map ev_ptr xs = [2, 1, 3]"
proof -
  have "numbered 1 demo_events" "length demo_events < 2 ^ 30" "\<forall>e \<in> set demo_events. 0 \<le> ev_time e"
    by (simp_all add: demo_events_def)
  note Q = queues_sort [OF this, of demo_calendar, THEN conjunct2, THEN conjunct2]
  have "map ev_ptr (sort_key ev_time demo_events) = [2, 1, 3]" by (simp add: demo_events_def)
  then show ?thesis using Q by (elim exE conjE) metis
qed

text \<open>
  Cancelling never aborts: from a new splay tree scheduler, calls that schedule nothing in the
  past fail only where an event object is scheduled that is still queued, so the search of \<open>cancel\<close>
  always finds its event.
\<close>

lemma splay_cancel_finds:
  assumes "forward_calls calls"
    and "do_calls (sure_ins sp_insert) sp_cancel calls (new_scheduler empty_splay) = Inl err"
  shows "err = EventUidNotValid"
  using spq.calls_error [OF _ spq.new_scheduler_ok [OF empty_queues(2,3)] assms] by simp

text \<open>
  The heap's 32-bit secondary key wraps: of two events with the same time, put into an empty
  heap around the wrap of the counter, the later one is dispatched first.
\<close>

theorem heap_fifo_wraps:
  assumes "ev_time e = ev_time e'"
  shows "\<exists>h h' h''. hs_insert e (empty_heap\<lparr>h_s_key := 2 ^ 32 - 1\<rparr>) = Inr h \<and> hs_insert e' h = Inr h' \<and>
           hs_deque h' = Inr (Some e', h'')"
  using assms
  by (simp add: empty_heap_def new_heap_def hs_insert_def heap_insert_def heap_grow_def uint32_def
      insert_loop.simps [of _ _ 0] insert_loop.simps [of _ _ "Suc 0"] hs_deque_def heap_extract_min_def
      KEY_LESS_THAN_def h_parent_def h_child_def h_left_def h_right_def heapify.simps [of _ "Suc 0" 0])

theorem heap_fifo_wraps_witness:
  "\<exists>h h' h''. hs_insert \<lparr>ev_ptr = 1, ev_time = 5, ev_uid = 7\<rparr> (empty_heap\<lparr>h_s_key := 2 ^ 32 - 1\<rparr>) = Inr h \<and>
     hs_insert \<lparr>ev_ptr = 2, ev_time = 5, ev_uid = 8\<rparr> h = Inr h' \<and>
     hs_deque h' = Inr (Some \<lparr>ev_ptr = 2, ev_time = 5, ev_uid = 8\<rparr>, h'')"
  by (rule heap_fifo_wraps) simp

text \<open>
  The array of \<open>2 ^ 31\<close> elements cannot grow: its doubled size wraps to zero and the copy writes
  outside it.
\<close>

lemma heap_growth_wraps:
  "h_size h = 2 ^ 31 \<Longrightarrow> h_maxsize h = 2 ^ 31 \<Longrightarrow> hs_insert e h = Inl IndexOutOfRange"
  by (simp add: hs_insert_def heap_insert_def heap_grow_def uint32_def)

end
