(* ===== verification/Ring_Window.thy ===== *)
theory Ring_Window
  imports Prelude
begin

section \<open>Ring arrays indexed by sequence number\<close>

text \<open>
  TCP's receiver (\<open>tcp-sink.cc\<close>) and its SACK scoreboard (\<open>scoreboard.cc\<close>) both keep an array
  with one element for every packet of a window of sequence numbers: packet \<open>i\<close> is at index
  \<open>i & wndmask_\<close> in the first and at \<open>i % sbsize_\<close> in the second. The locale states what both rely
  on, that the index is in the array and that packets less than one array length apart do not
  share an element, and proves once what writing an element and a loop of writes do.
\<close>

unbundle bit_operations_syntax

locale ring =
  fixes idx :: "int \<Rightarrow> nat" and n :: int
  assumes idx_less: "idx i < nat n"
    and idx_inj: "\<bar>i - j\<bar> < n \<Longrightarrow> idx i = idx j \<Longrightarrow> i = j"
begin

lemma ring_pos: "0 < n"
  using idx_less [of 0] by (cases "0 < n") auto

lemma get_put:
  assumes "nat n \<le> length xs" "\<bar>i - j\<bar> < n"
  shows "xs[idx i := v] ! idx j = (if i = j then v else xs ! idx j)"
  using assms idx_inj [of i j] less_le_trans [OF idx_less assms(1), of i]
  by (auto simp: nth_list_update)

lemma get_put_same:
  "nat n \<le> length xs \<Longrightarrow> xs[idx i := v] ! idx i = v"
  using ring_pos by (subst get_put) auto

lemma length_fold_put:
  "length (fold (\<lambda>i xs. xs[idx i := f i]) is xs) = length xs"
  by (induction "is" arbitrary: xs) auto

lemma get_fold_put:
  assumes "nat n \<le> length xs" "\<forall>i\<in>set is. \<bar>i - j\<bar> < n"
  shows "fold (\<lambda>i xs. xs[idx i := f i]) is xs ! idx j =
         (if j \<in> set is then f j else xs ! idx j)"
  using assms
proof (induction "is" arbitrary: xs)
  case (Cons i "is")
  then show ?case by (simp add: get_put get_put_same)
qed simp

end

lemma and_mask_mod: "i AND (2 ^ k - 1) = i mod (2 ^ k :: int)"
  by (metis mask_eq_exp_minus_1 take_bit_eq_mask take_bit_eq_mod)

lemma mod_inj_near:
  fixes i j n :: int
  assumes "\<bar>i - j\<bar> < n" "i mod n = j mod n"
  shows "i = j"
proof -
  have "n dvd i - j" using assms(2) by (simp add: mod_eq_dvd_iff)
  then have "i - j = 0" using assms(1) zdvd_imp_le [of n "\<bar>i - j\<bar>"] by (cases "i = j") auto
  then show ?thesis by simp
qed

text \<open>\<open>i & wndmask_\<close>, \<open>wndmask_\<close> one less than a power of two.\<close>

definition slot :: "int \<Rightarrow> int \<Rightarrow> nat" where
  "slot m i = nat (i AND m)"

interpretation mask_ring: ring "slot (2 ^ k - 1)" "2 ^ k" for k :: nat
proof
  show "slot (2 ^ k - 1) i < nat (2 ^ k)" for i
    by (simp add: slot_def and_mask_mod)
  show "i = j" if "\<bar>i - j\<bar> < 2 ^ k" "slot (2 ^ k - 1) i = slot (2 ^ k - 1) j" for i j
    using that by (intro mod_inj_near [of i j "2 ^ k"])
      (simp_all add: slot_def and_mask_mod eq_nat_nat_iff)
qed

text \<open>\<open>i % n\<close> for the array length \<open>n\<close>; C++'s remainder is \<open>mod\<close> for the packets \<open>i \<ge> 0\<close> of a window.\<close>

definition mod_slot :: "int \<Rightarrow> int \<Rightarrow> nat" where
  "mod_slot n i = nat (i mod n)"

lemma mod_ring: "0 < n \<Longrightarrow> ring (mod_slot n) n"
  by unfold_locales (auto simp: mod_slot_def eq_nat_nat_iff intro: mod_inj_near)

end
