(* ===== verification/Tcp_Acker.thy ===== *)
theory Tcp_Acker
  imports Ring_Window
begin

section \<open>The receive window of a TCP sink (\<open>tcp/tcp-sink.h\<close>, \<open>tcp/tcp-sink.cc\<close>: \<open>Acker\<close>)\<close>

text \<open>
  An \<open>Acker\<close> remembers, in the ring array \<open>seen_\<close>, how many bytes arrived in each packet of the
  window from \<open>next_\<close> (the next packet expected) to \<open>maxseen_\<close> (the highest packet seen). The
  array has \<open>wndmask_ + 1\<close> elements, a power of two that \<open>update\<close> doubles when a packet does not
  fit. \<open>Sacker\<close> inherits from \<open>Acker\<close>, so the operations here work on every extension of the
  record. Members keep their names without the trailing underscore, except \<open>next_\<close>, which is
  \<open>next_seq\<close>.

  \<^item> The two loops of \<open>update\<close> whose end depends on the contents of the array are partial
    functions; not returning is \<^const>\<open>None\<close>, which \<^const>\<open>of_loop\<close> makes an error value.
  \<^item> Doubling the array beyond the range of \<open>int\<close> is the error \<open>IntOutOfRange\<close>.
\<close>

definition MWS :: int where "MWS = 64"
definition MWM :: int where "MWM = MWS - 1"

record acker =
  next_seq :: int
  maxseen :: int
  wndmask :: int
  ecn_unacked :: int
  seen :: "int list"
  ts_to_echo :: time
  is_dup :: bool
  last_ack_sent :: int

text \<open>The constructor leaves \<open>is_dup_\<close> as it finds it.\<close>

definition new_Acker :: "'z acker_scheme \<Rightarrow> 'z acker_scheme" where
  "new_Acker a =
     a\<lparr>next_seq := 0, maxseen := 0, wndmask := MWM, ecn_unacked := 0,
       seen := replicate (nat MWS) 0, ts_to_echo := 0, last_ack_sent := 0\<rparr>"

definition acker_reset :: "'z acker_scheme \<Rightarrow> 'z acker_scheme" where
  "acker_reset a =
     a\<lparr>next_seq := 0, maxseen := 0, seen := replicate (nat (wndmask a + 1)) 0\<rparr>"

definition Seqno :: "'z acker_scheme \<Rightarrow> int" where
  "Seqno a = next_seq a - 1"

definition seen_at :: "'z acker_scheme \<Rightarrow> int \<Rightarrow> int" where
  "seen_at a i = seen a ! slot (wndmask a) i"

definition seen_put :: "int \<Rightarrow> int \<Rightarrow> 'z acker_scheme \<Rightarrow> 'z acker_scheme" where
  "seen_put i v a = a\<lparr>seen := (seen a)[slot (wndmask a) i := v]\<rparr>"

definition resize_buffers :: "int \<Rightarrow> 'z acker_scheme \<Rightarrow> 'z acker_scheme" where
  "resize_buffers sz a =
     (let new_wndmask = sz - 1;
          new_seen = fold (\<lambda>i ns. ns[slot new_wndmask i := seen_at a i])
                       [next_seq a .. maxseen a + 1] (replicate (nat sz) 0)
      in a\<lparr>wndmask := new_wndmask, seen := new_seen\<rparr>)"

definition update_ts :: "int \<Rightarrow> time \<Rightarrow> bool \<Rightarrow> 'z acker_scheme \<Rightarrow> 'z acker_scheme" where
  "update_ts seqno ts rfc1323 a =
     (if rfc1323 \<and> seqno = last_ack_sent a + 1 then a\<lparr>ts_to_echo := ts\<rparr>
      else if ts_to_echo a \<le> ts \<and> seqno \<le> last_ack_sent a + 1 then a\<lparr>ts_to_echo := ts\<rparr>
      else a)"

definition update_ecn_unacked :: "int \<Rightarrow> 'z acker_scheme \<Rightarrow> 'z acker_scheme" where
  "update_ecn_unacked v a = a\<lparr>ecn_unacked := v\<rparr>"

subsection \<open>\<open>Acker::update\<close>\<close>

partial_function (option) grow_loop ::
  "int \<Rightarrow> 'z acker_scheme \<Rightarrow> 'z acker_scheme res option" where
  "grow_loop seq a =
     (if wndmask a \<le> seq + 1 - next_seq a
      then if in_int32 ((wndmask a + 1) * 2)
           then grow_loop seq (resize_buffers ((wndmask a + 1) * 2) a)
           else Some (Inl IntOutOfRange)
      else Some (Inr a))"

definition mark_highest :: "int \<Rightarrow> int \<Rightarrow> 'z acker_scheme \<Rightarrow> 'z acker_scheme" where
  "mark_highest seq numBytes a =
     (let a = fold (\<lambda>i. seen_put i 0) [maxseen a + 1 .. seq - 1] a;
          a = a\<lparr>maxseen := seq\<rparr>;
          a = seen_put (maxseen a) numBytes a
      in seen_put (maxseen a + 1) 0 a)"

partial_function (option) deliver_loop ::
  "'z acker_scheme \<Rightarrow> int \<Rightarrow> int \<Rightarrow> (int \<times> int) res option" where
  "deliver_loop a nxt numToDeliver =
     (if seen_at a nxt \<noteq> 0
      then deliver_loop a (nxt + 1) (int32_of (numToDeliver + seen_at a nxt))
      else Some (Inr (nxt, numToDeliver)))"

definition acker_record ::
  "int \<Rightarrow> int \<Rightarrow> 'z acker_scheme \<Rightarrow> (int \<times> 'z acker_scheme) res" where
  "acker_record seq numBytes a =
     (let just_marked_as_seen = (maxseen a < seq);
          a = (if maxseen a < seq then mark_highest seq numBytes a else a);
          nxt = next_seq a;
          a = (if seq < nxt then a\<lparr>is_dup := True\<rparr> else a)
      in if nxt \<le> seq \<and> seq \<le> maxseen a
         then let a = (if seen_at a seq \<noteq> 0 \<and> \<not> just_marked_as_seen
                       then a\<lparr>is_dup := True\<rparr> else a);
                  a = seen_put seq numBytes a
              in res_bind (of_loop (deliver_loop a nxt 0))
                   (\<lambda>(nxt, numToDeliver). Inr (numToDeliver, a\<lparr>next_seq := nxt\<rparr>))
         else Inr (0, a))"

definition acker_update ::
  "int \<Rightarrow> int \<Rightarrow> 'z acker_scheme \<Rightarrow> (int \<times> 'z acker_scheme) res" where
  "acker_update seq numBytes a =
     res_bind (of_loop (grow_loop seq (a\<lparr>is_dup := False\<rparr>))) (acker_record seq numBytes)"

declare grow_loop.simps [code] deliver_loop.simps [code]

subsection \<open>What the window represents\<close>

text \<open>
  \<open>h i\<close> is the number of bytes of packet \<open>i\<close> as it was last received, zero if it was not. The
  window invariant says that the array is a power of two long, no shorter than at the start, and that the window with one spare
  element fits in it, \<open>acker_rep a h\<close> that the array holds \<open>h\<close> there, that everything before
  \<open>next_\<close> has been received, and that \<open>next_\<close> has not.
\<close>

definition acker_win :: "'z acker_scheme \<Rightarrow> bool" where
  "acker_win a \<longleftrightarrow>
     (\<exists>k. wndmask a = 2 ^ k - 1) \<and> MWM \<le> wndmask a \<and>
     length (seen a) = nat (wndmask a + 1) \<and> 0 \<le> next_seq a \<and> next_seq a \<le> maxseen a + 1 \<and> 0 \<le> maxseen a \<and>
     maxseen a + 1 - next_seq a < wndmask a"

definition acker_mid :: "'z acker_scheme \<Rightarrow> (int \<Rightarrow> int) \<Rightarrow> bool" where
  "acker_mid a h \<longleftrightarrow>
     acker_win a \<and>
     (\<forall>i. next_seq a \<le> i \<and> i \<le> maxseen a + 1 \<longrightarrow> seen_at a i = h i) \<and>
     (\<forall>i. maxseen a < i \<longrightarrow> h i = 0) \<and>
     (\<forall>i. 0 \<le> i \<and> i < next_seq a \<longrightarrow> h i \<noteq> 0)"

definition acker_rep :: "'z acker_scheme \<Rightarrow> (int \<Rightarrow> int) \<Rightarrow> bool" where
  "acker_rep a h \<longleftrightarrow> acker_mid a h \<and> h (next_seq a) = 0"

declare acker_win_def [inv_simps] acker_mid_def [inv_simps] acker_rep_def [inv_simps]

lemma seen_put_sel [simp]:
  "next_seq (seen_put i v a) = next_seq a" "maxseen (seen_put i v a) = maxseen a"
  "wndmask (seen_put i v a) = wndmask a" "is_dup (seen_put i v a) = is_dup a"
  "ecn_unacked (seen_put i v a) = ecn_unacked a" "ts_to_echo (seen_put i v a) = ts_to_echo a"
  "last_ack_sent (seen_put i v a) = last_ack_sent a" "acker.more (seen_put i v a) = acker.more a"
  "length (seen (seen_put i v a)) = length (seen a)"
  by (simp_all add: seen_put_def)

lemma seen_at_upd [simp]:
  "seen_at (a\<lparr>next_seq := x\<rparr>) i = seen_at a i" "seen_at (a\<lparr>maxseen := x\<rparr>) i = seen_at a i"
  "seen_at (a\<lparr>is_dup := b\<rparr>) i = seen_at a i" "seen_at (a\<lparr>ts_to_echo := t\<rparr>) i = seen_at a i"
  "seen_at (a\<lparr>ecn_unacked := x\<rparr>) i = seen_at a i"
  "seen_at (a\<lparr>last_ack_sent := x\<rparr>) i = seen_at a i"
  by (simp_all add: seen_at_def)

lemma seen_at_put:
  assumes "\<exists>k. wndmask a = 2 ^ k - 1" "length (seen a) = nat (wndmask a + 1)"
    and "\<bar>i - j\<bar> \<le> wndmask a"
  shows "seen_at (seen_put i v a) j = (if i = j then v else seen_at a j)"
proof -
  obtain k where k: "wndmask a = 2 ^ k - 1" using assms(1) ..
  have len: "nat (2 ^ k) \<le> length (seen a)" using assms(2) k by simp
  have near: "\<bar>i - j\<bar> < 2 ^ k" using assms(3) unfolding k by linarith
  show ?thesis
    unfolding seen_at_def seen_put_def
    using mask_ring.get_put [OF len near, of v] by (simp add: k)
qed

subsection \<open>Growing the array\<close>

lemma resize_sel [simp]:
  "next_seq (resize_buffers sz a) = next_seq a" "maxseen (resize_buffers sz a) = maxseen a"
  "wndmask (resize_buffers sz a) = sz - 1" "is_dup (resize_buffers sz a) = is_dup a"
  "ecn_unacked (resize_buffers sz a) = ecn_unacked a"
  "ts_to_echo (resize_buffers sz a) = ts_to_echo a"
  "last_ack_sent (resize_buffers sz a) = last_ack_sent a"
  "acker.more (resize_buffers sz a) = acker.more a"
  by (simp_all add: resize_buffers_def Let_def)

lemma seen_at_resize:
  assumes "sz = 2 ^ k" "next_seq a \<le> j" "j \<le> maxseen a + 1" "maxseen a + 1 - next_seq a < sz"
  shows "seen_at (resize_buffers sz a) j = seen_at a j"
    and "length (seen (resize_buffers sz a)) = nat sz"
proof -
  let ?is = "[next_seq a .. maxseen a + 1]" and ?xs = "replicate (nat (2 ^ k)) (0 :: int)"
  have "\<forall>i\<in>set ?is. \<bar>i - j\<bar> < 2 ^ k" using assms by auto
  from mask_ring.get_fold_put [where xs = ?xs, OF _ this, of "seen_at a"]
  show "seen_at (resize_buffers sz a) j = seen_at a j"
    using assms unfolding seen_at_def [of "resize_buffers sz a"]
    by (simp add: resize_buffers_def Let_def)
  show "length (seen (resize_buffers sz a)) = nat sz"
    using mask_ring.length_fold_put [of k "seen_at a" ?is ?xs] assms(1)
    by (simp add: resize_buffers_def Let_def)
qed

lemma acker_mid_resize:
  assumes mid: "acker_mid a h"
  shows "acker_mid (resize_buffers ((wndmask a + 1) * 2) a) h"
proof -
  let ?sz = "(wndmask a + 1) * 2"
  obtain k where k: "wndmask a = 2 ^ k - 1"
    using mid by (auto simp: acker_mid_def acker_win_def)
  have sz: "?sz = 2 ^ Suc k" by (simp add: k)
  have pos: "0 \<le> wndmask a" by (simp add: k)
  have fits: "maxseen a + 1 - next_seq a < ?sz"
    using mid pos by (auto simp: acker_mid_def acker_win_def)
  show ?thesis
    using mid seen_at_resize [OF sz _ _ fits] fits pos
    unfolding acker_mid_def acker_win_def
    by (auto simp: k intro!: exI [of _ "Suc k"])
qed

definition same_but_array :: "'z acker_scheme \<Rightarrow> 'z acker_scheme \<Rightarrow> bool" where
  "same_but_array a b \<longleftrightarrow> (\<exists>w s. b = a\<lparr>wndmask := w, seen := s\<rparr>)"

lemma same_but_array_refl [simp]: "same_but_array a a"
  unfolding same_but_array_def by (rule exI [of _ "wndmask a"], rule exI [of _ "seen a"]) simp

lemma same_but_array_trans:
  "same_but_array a b \<Longrightarrow> same_but_array b c \<Longrightarrow> same_but_array a c"
  unfolding same_but_array_def by fastforce

lemma same_but_array_sel:
  assumes "same_but_array a b"
  shows "next_seq b = next_seq a" "maxseen b = maxseen a" "is_dup b = is_dup a"
    "ecn_unacked b = ecn_unacked a" "ts_to_echo b = ts_to_echo a"
    "last_ack_sent b = last_ack_sent a" "acker.more b = acker.more a"
  using assms by (auto simp: same_but_array_def)

lemma same_but_array_resize: "same_but_array a (resize_buffers sz a)"
  unfolding same_but_array_def resize_buffers_def Let_def by blast

text \<open>The loop ends, with an array in which the packet fits.\<close>

lemma grow_loop_ok:
  assumes "acker_mid a h" "seq + 1 - next_seq a < 2 ^ 30 - 1"
  shows "\<exists>b. grow_loop seq a = Some (Inr b) \<and> acker_mid b h \<and> same_but_array a b \<and>
           seq + 1 - next_seq b < wndmask b"
  using assms
proof (induction "nat (2 ^ 31 - wndmask a)" arbitrary: a rule: less_induct)
  case less
  obtain k where k: "wndmask a = 2 ^ k - 1"
    using less.prems by (auto simp: acker_mid_def acker_win_def)
  then have pos: "0 \<le> wndmask a" by simp
  show ?case
  proof (cases "wndmask a \<le> seq + 1 - next_seq a")
    case True
    let ?b = "resize_buffers ((wndmask a + 1) * 2) a"
    have bound: "wndmask a < 2 ^ 30 - 1" using True less.prems(2) by linarith
    then have range: "in_int32 ((wndmask a + 1) * 2)" using pos by (simp add: in_int32_def)
    have dec: "nat (2 ^ 31 - wndmask ?b) < nat (2 ^ 31 - wndmask a)"
      using bound pos by simp
    have nxt: "seq + 1 - next_seq ?b < 2 ^ 30 - 1" using less.prems(2) by simp
    obtain c where c: "grow_loop seq ?b = Some (Inr c)" "acker_mid c h" "same_but_array ?b c"
      "seq + 1 - next_seq c < wndmask c"
      using less.hyps [OF dec acker_mid_resize [OF less.prems(1)] nxt] by blast
    have "grow_loop seq a = Some (Inr c)"
      using True range c(1) by (subst grow_loop.simps) simp
    with c same_but_array_trans [OF same_but_array_resize c(3)] show ?thesis by blast
  next
    case False
    then have "grow_loop seq a = Some (Inr a)" by (subst grow_loop.simps) simp
    with False less.prems(1) show ?thesis by (auto intro!: exI [of _ a])
  qed
qed

subsection \<open>Recording a packet\<close>

lemma fold_seen_put_sel [simp]:
  "next_seq (fold (\<lambda>i. seen_put i v) is a) = next_seq a"
  "maxseen (fold (\<lambda>i. seen_put i v) is a) = maxseen a"
  "wndmask (fold (\<lambda>i. seen_put i v) is a) = wndmask a"
  "is_dup (fold (\<lambda>i. seen_put i v) is a) = is_dup a"
  "ecn_unacked (fold (\<lambda>i. seen_put i v) is a) = ecn_unacked a"
  "ts_to_echo (fold (\<lambda>i. seen_put i v) is a) = ts_to_echo a"
  "last_ack_sent (fold (\<lambda>i. seen_put i v) is a) = last_ack_sent a"
  "acker.more (fold (\<lambda>i. seen_put i v) is a) = acker.more a"
  "length (seen (fold (\<lambda>i. seen_put i v) is a)) = length (seen a)"
  by (induction "is" arbitrary: a) simp_all

lemma seen_at_fold_put:
  assumes "\<exists>k. wndmask a = 2 ^ k - 1" "length (seen a) = nat (wndmask a + 1)"
    and "\<forall>i\<in>set is. \<bar>i - j\<bar> \<le> wndmask a"
  shows "seen_at (fold (\<lambda>i. seen_put i v) is a) j = (if j \<in> set is then v else seen_at a j)"
  using assms
proof (induction "is" arbitrary: a)
  case (Cons i "is")
  then show ?case by (auto simp: seen_at_put)
qed simp

lemma mark_highest_sel [simp]:
  "next_seq (mark_highest q n a) = next_seq a" "maxseen (mark_highest q n a) = q"
  "wndmask (mark_highest q n a) = wndmask a" "is_dup (mark_highest q n a) = is_dup a"
  "ecn_unacked (mark_highest q n a) = ecn_unacked a"
  "ts_to_echo (mark_highest q n a) = ts_to_echo a"
  "last_ack_sent (mark_highest q n a) = last_ack_sent a"
  "acker.more (mark_highest q n a) = acker.more a"
  "length (seen (mark_highest q n a)) = length (seen a)"
  by (simp_all add: mark_highest_def Let_def)

lemma seen_at_mark_highest:
  assumes win: "acker_win a" and new: "maxseen a < q" and fits: "q + 1 - next_seq a < wndmask a"
    and j: "next_seq a \<le> j" "j \<le> q + 1"
  shows "seen_at (mark_highest q n a) j =
         (if j = q then n else if maxseen a < j then 0 else seen_at a j)"
proof -
  let ?b = "(fold (\<lambda>i. seen_put i 0) [maxseen a + 1 .. q - 1] a)\<lparr>maxseen := q\<rparr>"
  let ?c = "seen_put q n ?b"
  have pow: "\<exists>k. wndmask a = 2 ^ k - 1" and len: "length (seen a) = nat (wndmask a + 1)"
    and nxt: "next_seq a \<le> maxseen a + 1"
    using win by (simp_all add: acker_win_def)
  have "mark_highest q n a = seen_put (q + 1) 0 ?c"
    by (simp add: mark_highest_def Let_def)
  then have "seen_at (mark_highest q n a) j = (if q + 1 = j then 0 else seen_at ?c j)"
    using pow len j fits by (simp add: seen_at_put)
  also have "seen_at ?c j = (if q = j then n else seen_at ?b j)"
    using pow len j fits by (subst seen_at_put) auto
  also have "seen_at ?b j = (if maxseen a < j \<and> j < q then 0 else seen_at a j)"
  proof -
    have "\<forall>i\<in>set [maxseen a + 1 .. q - 1]. \<bar>i - j\<bar> \<le> wndmask a"
      using j fits nxt by auto
    from seen_at_fold_put [OF pow len this, of 0] show ?thesis by auto
  qed
  finally show ?thesis using new j by auto
qed

lemma acker_mid_mark_highest:
  assumes mid: "acker_mid a h" and new: "maxseen a < q" and fits: "q + 1 - next_seq a < wndmask a"
  shows "acker_mid (mark_highest q n a) (h(q := n))"
proof -
  have win: "acker_win a" using mid by (simp add: acker_mid_def)
  note at = seen_at_mark_highest [OF win new fits]
  show ?thesis
    using mid new fits at unfolding acker_mid_def acker_win_def by auto
qed

lemma acker_mid_put:
  assumes mid: "acker_mid a h" and "next_seq a \<le> q" "q \<le> maxseen a"
  shows "acker_mid (seen_put q n a) (h(q := n))"
proof -
  have "seen_at (seen_put q n a) j = (if q = j then n else seen_at a j)"
    if "next_seq a \<le> j" "j \<le> maxseen a + 1" for j
    using mid assms(2,3) that by (intro seen_at_put) (auto simp: acker_mid_def acker_win_def)
  then show ?thesis
    using mid assms(2,3) unfolding acker_mid_def acker_win_def by auto
qed

lemma acker_mid_put_same:
  assumes "acker_mid a h" "next_seq a \<le> q" "q \<le> maxseen a" "h q = n"
  shows "acker_mid (seen_put q n a) h"
  using acker_mid_put [OF assms(1-3), of n] assms(4) by (simp add: fun_upd_idem)

subsection \<open>Delivering in order\<close>

lemma deliver_loop_ok:
  assumes "acker_mid a h" "next_seq a \<le> nxt" "nxt \<le> maxseen a + 1"
  shows "\<exists>m. deliver_loop a nxt (int32_of acc) =
               Some (Inr (m, int32_of (acc + (\<Sum>i\<in>{nxt..<m}. h i)))) \<and>
           nxt \<le> m \<and> m \<le> maxseen a + 1 \<and> (\<forall>i\<in>{nxt..<m}. h i \<noteq> 0) \<and> h m = 0"
  using assms(2,3)
proof (induction "nat (maxseen a + 1 - nxt)" arbitrary: nxt acc rule: less_induct)
  case less
  have at: "seen_at a nxt = h nxt" using assms(1) less.prems by (simp add: acker_mid_def)
  show ?case
  proof (cases "h nxt = 0")
    case True
    then have "deliver_loop a nxt (int32_of acc) = Some (Inr (nxt, int32_of acc))"
      using at by (subst deliver_loop.simps) simp
    with True less.prems show ?thesis by (intro exI [of _ nxt]) simp
  next
    case False
    have "nxt \<noteq> maxseen a + 1" using False assms(1) by (auto simp: acker_mid_def)
    then have le: "nxt + 1 \<le> maxseen a + 1" using less.prems(2) by simp
    then have dec: "nat (maxseen a + 1 - (nxt + 1)) < nat (maxseen a + 1 - nxt)" by simp
    have ge: "next_seq a \<le> nxt + 1" using less.prems(1) by simp
    obtain m where m: "deliver_loop a (nxt + 1) (int32_of (acc + h nxt)) =
        Some (Inr (m, int32_of (acc + h nxt + (\<Sum>i\<in>{nxt + 1..<m}. h i))))"
      "nxt + 1 \<le> m" "m \<le> maxseen a + 1" "\<forall>i\<in>{nxt + 1..<m}. h i \<noteq> 0" "h m = 0"
      using less.hyps [OF dec ge le, of "acc + h nxt"] by blast
    have split: "{nxt..<m} = insert nxt {nxt + 1..<m}" using m(2) by auto
    have "deliver_loop a nxt (int32_of acc) = Some (Inr (m, int32_of (acc + (\<Sum>i\<in>{nxt..<m}. h i))))"
      using m(1) False at by (subst deliver_loop.simps) (simp add: split add.assoc)
    moreover have "\<forall>i\<in>{nxt..<m}. h i \<noteq> 0" using m(4) False unfolding split by simp
    ultimately show ?thesis using m by (intro exI [of _ m]) simp
  qed
qed

subsection \<open>The whole of \<open>update\<close>\<close>

lemma acker_mid_frame [simp]:
  "acker_mid (a\<lparr>is_dup := b\<rparr>) h = acker_mid a h"
  "acker_mid (a\<lparr>ts_to_echo := t\<rparr>) h = acker_mid a h"
  "acker_mid (a\<lparr>ecn_unacked := x\<rparr>) h = acker_mid a h"
  "acker_mid (a\<lparr>last_ack_sent := x\<rparr>) h = acker_mid a h"
  by (simp_all add: acker_mid_def acker_win_def)

lemma acker_rep_frame [simp]:
  "acker_rep (a\<lparr>is_dup := b\<rparr>) h = acker_rep a h"
  "acker_rep (a\<lparr>ts_to_echo := t\<rparr>) h = acker_rep a h"
  "acker_rep (a\<lparr>ecn_unacked := x\<rparr>) h = acker_rep a h"
  "acker_rep (a\<lparr>last_ack_sent := x\<rparr>) h = acker_rep a h"
  by (simp_all add: acker_rep_def)

text \<open>Moving the left edge over packets that have been received.\<close>

lemma acker_rep_advance:
  assumes "acker_mid a h" "next_seq a \<le> m" "m \<le> maxseen a + 1"
    and "\<forall>i\<in>{next_seq a..<m}. h i \<noteq> 0" "h m = 0"
  shows "acker_rep (a\<lparr>next_seq := m\<rparr>) h"
proof -
  have "h i \<noteq> 0" if "0 \<le> i" "i < m" for i
    using assms(1,4) that unfolding acker_mid_def by (cases "i < next_seq a") auto
  then show ?thesis
    using assms unfolding acker_rep_def acker_mid_def acker_win_def by auto
qed

definition same_rest :: "'z acker_scheme \<Rightarrow> 'z acker_scheme \<Rightarrow> bool" where
  "same_rest a b \<longleftrightarrow>
     ecn_unacked b = ecn_unacked a \<and> ts_to_echo b = ts_to_echo a \<and>
     last_ack_sent b = last_ack_sent a \<and> acker.more b = acker.more a"

text \<open>\<open>h\<close> after a packet: one to the left of the window changes nothing.\<close>

definition receive :: "int \<Rightarrow> int \<Rightarrow> 'z acker_scheme \<Rightarrow> (int \<Rightarrow> int) \<Rightarrow> int \<Rightarrow> int" where
  "receive q n a h = (if next_seq a \<le> q then h(q := n) else h)"

definition update_spec ::
  "int \<Rightarrow> int \<Rightarrow> 'z acker_scheme \<Rightarrow> (int \<Rightarrow> int) \<Rightarrow> 'z acker_scheme \<Rightarrow> bool" where
  "update_spec q n a h b \<longleftrightarrow>
     acker_rep b (receive q n a h) \<and> next_seq a \<le> next_seq b \<and>
     maxseen b = max (maxseen a) q \<and> is_dup b = (q < next_seq a \<or> h q \<noteq> 0) \<and> same_rest a b"

lemma deliver_after_put:
  assumes mid: "acker_mid (seen_put q n c) g" and win: "next_seq c \<le> maxseen c + 1"
  shows "\<exists>m. of_loop (deliver_loop (seen_put q n c) (next_seq c) 0) =
               Inr (m, int32_of (\<Sum>i\<in>{next_seq c..<m}. g i)) \<and> next_seq c \<le> m \<and>
             acker_rep ((seen_put q n c)\<lparr>next_seq := m\<rparr>) g"
proof -
  have "next_seq (seen_put q n c) \<le> next_seq c" "next_seq c \<le> maxseen (seen_put q n c) + 1"
    using win by simp_all
  from deliver_loop_ok [OF mid this, of 0] obtain m where
    m: "deliver_loop (seen_put q n c) (next_seq c) (int32_of 0) =
          Some (Inr (m, int32_of (0 + (\<Sum>i\<in>{next_seq c..<m}. g i))))"
      "next_seq c \<le> m" "m \<le> maxseen (seen_put q n c) + 1"
      "\<forall>i\<in>{next_seq c..<m}. g i \<noteq> 0" "g m = 0" by blast
  have "acker_rep ((seen_put q n c)\<lparr>next_seq := m\<rparr>) g"
    using m by (intro acker_rep_advance [OF mid]) simp_all
  then show ?thesis using m(1,2) by (intro exI [of _ m]) simp
qed

lemma acker_update_ok:
  assumes rep: "acker_rep a h" and range: "q + 1 - next_seq a < 2 ^ 30 - 1"
  shows "\<exists>b. acker_update q n a =
               Inr (int32_of (\<Sum>i\<in>{next_seq a..<next_seq b}. receive q n a h i), b) \<and> update_spec q n a h b"
proof -
  have "acker_mid (a\<lparr>is_dup := False\<rparr>) h" "q + 1 - next_seq (a\<lparr>is_dup := False\<rparr>) < 2 ^ 30 - 1"
    using rep range by (simp_all add: acker_rep_def)
  from grow_loop_ok [OF this] obtain c where
    c: "grow_loop q (a\<lparr>is_dup := False\<rparr>) = Some (Inr c)" "acker_mid c h"
      "same_but_array (a\<lparr>is_dup := False\<rparr>) c" "q + 1 - next_seq c < wndmask c" by blast
  have sel: "next_seq c = next_seq a" "maxseen c = maxseen a" "\<not> is_dup c"
    "ecn_unacked c = ecn_unacked a" "ts_to_echo c = ts_to_echo a"
    "last_ack_sent c = last_ack_sent a" "acker.more c = acker.more a"
    using same_but_array_sel [OF c(3)] by simp_all
  have nx: "next_seq a \<le> maxseen a + 1" "0 \<le> next_seq a"
    using rep by (simp_all add: acker_rep_def acker_mid_def acker_win_def)
  have upd: "acker_update q n a = acker_record q n c"
    using c(1) by (simp add: acker_update_def)
  consider (new) "maxseen a < q" | (old) "q < next_seq a" | (gap) "next_seq a \<le> q" "q \<le> maxseen a"
    by linarith
  then show ?thesis
  proof cases
    case new
    let ?d = "mark_highest q n c"
    have mid: "acker_mid (seen_put q n ?d) (h(q := n))"
      using acker_mid_mark_highest [OF c(2), of q n] c(4) new nx sel
      by (intro acker_mid_put_same) simp_all
    obtain m where m: "of_loop (deliver_loop (seen_put q n ?d) (next_seq ?d) 0) =
        Inr (m, int32_of (\<Sum>i\<in>{next_seq ?d..<m}. (h(q := n)) i))" "next_seq ?d \<le> m"
      "acker_rep ((seen_put q n ?d)\<lparr>next_seq := m\<rparr>) (h(q := n))"
      using deliver_after_put [OF mid] new nx sel by fastforce
    have hq: "h q = 0" using new rep by (simp add: acker_rep_def acker_mid_def)
    show ?thesis
      using m new nx sel hq
      by (intro exI [of _ "(seen_put q n ?d)\<lparr>next_seq := m\<rparr>"])
        (simp add: upd acker_record_def Let_def update_spec_def receive_def same_rest_def)
  next
    case old
    show ?thesis
      using old nx sel c(2) rep
      by (intro exI [of _ "c\<lparr>is_dup := True\<rparr>"])
        (simp add: upd acker_record_def Let_def update_spec_def receive_def same_rest_def
          acker_rep_def)
  next
    case gap
    let ?d = "c\<lparr>is_dup := (h q \<noteq> 0)\<rparr>"
    have hq: "seen_at c q = h q" using gap c(2) sel by (simp add: acker_mid_def)
    have mid: "acker_mid (seen_put q n ?d) (h(q := n))"
      using c(2) gap sel by (intro acker_mid_put) simp_all
    obtain m where m: "of_loop (deliver_loop (seen_put q n ?d) (next_seq ?d) 0) =
        Inr (m, int32_of (\<Sum>i\<in>{next_seq ?d..<m}. (h(q := n)) i))" "next_seq ?d \<le> m"
      "acker_rep ((seen_put q n ?d)\<lparr>next_seq := m\<rparr>) (h(q := n))"
      using deliver_after_put [OF mid] gap nx sel by fastforce
    have clr: "c\<lparr>is_dup := False\<rparr> = c" using sel(3) by (cases c) simp
    have "acker_record q n c =
        res_bind (of_loop (deliver_loop (seen_put q n ?d) (next_seq ?d) 0))
          (\<lambda>(m, k). Inr (k, (seen_put q n ?d)\<lparr>next_seq := m\<rparr>))"
      using gap sel hq by (cases "h q = 0") (simp_all add: acker_record_def Let_def clr)
    with m gap nx sel hq show ?thesis
      by (intro exI [of _ "(seen_put q n ?d)\<lparr>next_seq := m\<rparr>"])
        (simp add: upd update_spec_def receive_def same_rest_def)
  qed
qed

end
