(* ===== verification/Tcp_Sink.thy ===== *)
theory Tcp_Sink
  imports Tcp_Acker Timer_Handler
begin

section \<open>TCP sinks (\<open>tcp/tcp-sink.h\<close>, \<open>tcp/tcp-sink.cc\<close>: \<open>TcpSink\<close>, \<open>DelAckSink\<close>)\<close>

text \<open>
  A \<open>TcpSink\<close> records each packet in its \<open>Acker\<close>, hands the bytes that are now in order to the
  application and sends an acknowledgement; a \<open>DelAckSink\<close> may hold the acknowledgement of one
  in-order packet back until the next packet or until a timer expires.

  The one virtual method of \<open>Acker\<close> that the sinks call, \<open>append_ack\<close>, is an argument
  \<open>append_ack\<close> of their operations. \<open>Sacker\<close> reads the sink's \<open>generate_dsacks_\<close> through a pointer
  (\<open>dsacks_\<close>), so the value is passed along, and it writes the header of the new acknowledgement.
  \<open>acks_sent\<close> is every packet given to \<open>Agent::send\<close>, \<open>delivered\<close> the argument of every
  \<open>recvBytes\<close>. Members keep their names without the trailing underscore. Header flags
  are \<^typ>\<open>bool\<close>; the code only ever stores 0 or 1 in them.
\<close>

subsection \<open>Packets\<close>

datatype QS_STATE = QS_DISABLE | QS_REQUEST | QS_RESPONSE

definition NSA :: nat where "NSA = 3"

record tpkt =
  tp_size :: int
  tp_seqno :: seq_t
  tp_ts :: time
  tp_ts_echo :: time
  sack_area :: "(seq_t \<times> seq_t) list"
  sa_length :: int
  tp_flowid :: int
  tp_ttl :: int
  ect :: bool
  ce :: bool
  cong_action :: bool
  ecnecho :: bool
  eln_flag :: bool
  no_ts :: bool
  qs_pkt :: bool
  tp_reason :: int
  tp_last_rtt :: int
  qs_flag :: QS_STATE
  qs_ttl :: int
  qs_rate :: int

text \<open>C++'s remainder has the sign of the dividend.\<close>

definition crem :: "int \<Rightarrow> int \<Rightarrow> int" where
  "crem a b = sgn a * (\<bar>a\<bar> mod \<bar>b\<bar>)"

subsection \<open>The sinks\<close>

record 'a tcpsink =
  acker_obj :: 'a
  agent_fid :: int
  agent_ttl :: int
  packetSize :: int
  ts_echo_bugfix :: bool
  ts_echo_rfc1323 :: bool
  max_sack_blocks :: int
  save :: "tpkt option"
  generate_dsacks :: bool
  qs_enabled :: bool
  RFC2581_immediate_ack :: bool
  SYN_immediate_ack :: bool
  sink_bytes :: int
  lastreset :: time
  ecn_syn :: bool
  acks_sent :: "tpkt list"
  delivered :: "int list"

record 'a delacksink = "'a tcpsink" +
  interval :: time
  delay_timer :: timer

type_synonym ('z, 'b) sink = "('z acker_scheme, 'b) tcpsink_scheme"
type_synonym 'z appender =
  "bool \<Rightarrow> 'z acker_scheme \<Rightarrow> tpkt \<Rightarrow> int \<Rightarrow> ('z acker_scheme \<times> tpkt) res"

definition new_TcpSink :: "'a \<Rightarrow> ('a, 'b) tcpsink_scheme \<Rightarrow> ('a, 'b) tcpsink_scheme" where
  "new_TcpSink a s =
     s\<lparr>acker_obj := a, save := None, sink_bytes := 0, lastreset := 0\<rparr>"

definition new_DelAckSink :: "'a \<Rightarrow> ('a, 'b) delacksink_scheme \<Rightarrow> ('a, 'b) delacksink_scheme" where
  "new_DelAckSink a s = (new_TcpSink a s)\<lparr>delay_timer := new_timer\<rparr>"

text \<open>\<open>Agent::allocpkt\<close>: the headers zeroed, then \<open>Agent::initpkt\<close>.\<close>

definition sink_allocpkt :: "('a, 'b) tcpsink_scheme \<Rightarrow> tpkt" where
  "sink_allocpkt s =
     \<lparr>tp_size = packetSize s, tp_seqno = 0, tp_ts = 0, tp_ts_echo = 0,
      sack_area = replicate (Suc NSA) (0, 0), sa_length = 0, tp_flowid = agent_fid s,
      tp_ttl = agent_ttl s, ect = False, ce = False, cong_action = False, ecnecho = False,
      eln_flag = False, no_ts = False, qs_pkt = False, tp_reason = 0, tp_last_rtt = 0,
      qs_flag = QS_DISABLE, qs_ttl = 0, qs_rate = 0\<rparr>"

definition acker_append_ack :: "'z appender" where
  "acker_append_ack dsacks a p old_seqno = Inr (a, p)"

definition sink_reset :: "time \<Rightarrow> ('z, 'b) sink \<Rightarrow> ('z, 'b) sink" where
  "sink_reset now s =
     s\<lparr>acker_obj := acker_reset (acker_obj s), save := None, lastreset := now\<rparr>"

subsection \<open>\<open>TcpSink::ack\<close>\<close>

definition ack_quickstart :: "('a, 'b) tcpsink_scheme \<Rightarrow> tpkt \<Rightarrow> tpkt \<Rightarrow> tpkt" where
  "ack_quickstart s opkt npkt =
     (if qs_enabled s
      then if tp_seqno opkt = 0 \<and> qs_flag opkt = QS_REQUEST
           then npkt\<lparr>qs_flag := QS_RESPONSE, qs_ttl := crem (tp_ttl opkt - qs_ttl opkt) 256,
                     qs_rate := qs_rate opkt\<rparr>
           else npkt\<lparr>qs_flag := QS_DISABLE\<rparr>
      else npkt)"

definition of_saved :: "(tpkt \<Rightarrow> bool) \<Rightarrow> ('a, 'b) tcpsink_scheme \<Rightarrow> bool" where
  "of_saved P s = (case save s of None \<Rightarrow> False | Some sf \<Rightarrow> P sf)"

definition ack_ecn_acker :: "('z, 'b) sink \<Rightarrow> tpkt \<Rightarrow> 'z acker_scheme" where
  "ack_ecn_acker s opkt =
     (let a = acker_obj s;
          a = (if of_saved cong_action s \<or> cong_action opkt then update_ecn_unacked 0 a else a)
      in if of_saved (\<lambda>sf. ect sf \<and> ce sf) s \<or> (ect opkt \<and> ce opkt)
         then update_ecn_unacked 1 a else a)"

definition ack_ecn_pkt :: "('z, 'b) sink \<Rightarrow> 'z acker_scheme \<Rightarrow> tpkt \<Rightarrow> tpkt \<Rightarrow> tpkt" where
  "ack_ecn_pkt s a opkt npkt =
     (let npkt = (if of_saved ect s \<or> ect opkt
                  then npkt\<lparr>ecnecho := (ecn_unacked a \<noteq> 0)\<rparr> else npkt)
      in if (\<not> ect opkt \<and> ecnecho opkt) \<or> of_saved (\<lambda>sf. \<not> ect sf \<and> ecnecho sf) s
         then npkt\<lparr>ect := (if ecn_syn s then True else ect npkt), ecnecho := True\<rparr>
         else npkt)"

definition ack_header :: "time \<Rightarrow> ('z, 'b) sink \<Rightarrow> tpkt \<Rightarrow> tpkt \<Rightarrow> tpkt" where
  "ack_header now s opkt npkt =
     npkt\<lparr>tp_seqno := Seqno (acker_obj s), tp_ts := now,
          tp_ts_echo := (if ts_echo_bugfix s then ts_to_echo (acker_obj s) else tp_ts opkt),
          tp_flowid := tp_flowid opkt\<rparr>"

definition sink_ack ::
  "'z appender \<Rightarrow> time \<Rightarrow> tpkt \<Rightarrow> ('z, 'b) sink \<Rightarrow> ('z, 'b) sink res" where
  "sink_ack append_ack now opkt s =
     (let npkt = ack_header now s opkt (ack_quickstart s opkt (sink_allocpkt s));
          a = ack_ecn_acker s opkt;
          npkt = ack_ecn_pkt s a opkt npkt
      in res_bind (append_ack (generate_dsacks s) a npkt (int32_of (tp_seqno opkt)))
           (\<lambda>(a, npkt).
             Inr (s\<lparr>acker_obj := a\<lparr>last_ack_sent := int32_of (tp_seqno npkt)\<rparr>,
                    acks_sent := acks_sent s @ [npkt]\<rparr>)))"

subsection \<open>\<open>recv\<close>\<close>

definition sink_deliver :: "int \<Rightarrow> ('a, 'b) tcpsink_scheme \<Rightarrow> ('a, 'b) tcpsink_scheme" where
  "sink_deliver n s =
     (if n \<noteq> 0 then s\<lparr>sink_bytes := int32_of (sink_bytes s + n), delivered := delivered s @ [n]\<rparr> else s)"

definition sink_accept :: "tpkt \<Rightarrow> ('z, 'b) sink \<Rightarrow> ('z, 'b) sink res" where
  "sink_accept p s =
     (let a = update_ts (int32_of (tp_seqno p)) (tp_ts p) (ts_echo_rfc1323 s) (acker_obj s)
      in res_bind (acker_update (int32_of (tp_seqno p)) (tp_size p) a)
           (\<lambda>(numToDeliver, a). Inr (sink_deliver numToDeliver (s\<lparr>acker_obj := a\<rparr>))))"

definition sink_recv ::
  "'z appender \<Rightarrow> time \<Rightarrow> tpkt \<Rightarrow> ('z, 'b) sink \<Rightarrow> ('z, 'b) sink res" where
  "sink_recv append_ack now p s =
     (if tp_ts p < lastreset s then Inr s
      else res_bind (sink_accept p s) (sink_ack append_ack now p))"

subsection \<open>Delayed acknowledgements\<close>

type_synonym ('z, 'b) delsink = "('z acker_scheme, 'b) delacksink_scheme"

definition may_delay :: "tpkt \<Rightarrow> ('z, 'b) delsink \<Rightarrow> bool" where
  "may_delay p s \<longleftrightarrow>
     \<not> pending (delay_timer s) \<and> tp_seqno p = Seqno (acker_obj s) \<and>
     \<not> (RFC2581_immediate_ack s \<and> tp_seqno p < maxseen (acker_obj s)) \<and>
     \<not> (SYN_immediate_ack s \<and> tp_seqno p = 0)"

definition del_cancel :: "('a, 'b) delacksink_scheme \<Rightarrow> ('a, 'b) delacksink_scheme res" where
  "del_cancel s =
     (if pending (delay_timer s)
      then res_bind (tm_cancel (delay_timer s)) (\<lambda>t. Inr (s\<lparr>delay_timer := t\<rparr>))
      else Inr s)"

definition del_recv ::
  "'z appender \<Rightarrow> time \<Rightarrow> tpkt \<Rightarrow> ('z, 'b) delsink \<Rightarrow> ('z, 'b) delsink res" where
  "del_recv append_ack now p s =
     (if tp_ts p < lastreset s then Inr s
      else res_bind (sink_accept p s) (\<lambda>s.
        if may_delay p s
        then res_bind (tm_resched now (Fin (interval s)) (delay_timer s))
               (\<lambda>t. Inr (s\<lparr>save := Some p, delay_timer := t\<rparr>))
        else res_bind (del_cancel s) (\<lambda>s.
             res_bind (sink_ack append_ack now p s) (\<lambda>s. Inr (s\<lparr>save := None\<rparr>)))))"

definition del_timeout ::
  "'z appender \<Rightarrow> time \<Rightarrow> ('z, 'b) delsink \<Rightarrow> ('z, 'b) delsink res" where
  "del_timeout append_ack now s =
     (case save s of
        None \<Rightarrow> Inr s
      | Some p \<Rightarrow> res_bind (sink_ack append_ack now p s) (\<lambda>s. Inr (s\<lparr>save := None\<rparr>)))"

definition del_timer_handle ::
  "'z appender \<Rightarrow> time \<Rightarrow> ('z, 'b) delsink \<Rightarrow> ('z, 'b) delsink res" where
  "del_timer_handle append_ack now =
     tm_handle delay_timer (\<lambda>t. delay_timer_update (\<lambda>_. t)) (del_timeout append_ack now)"

definition del_reset :: "time \<Rightarrow> ('z, 'b) delsink \<Rightarrow> ('z, 'b) delsink res" where
  "del_reset now s = res_bind (del_cancel s) (\<lambda>s. Inr (sink_reset now s))"

subsection \<open>What a sink asks of its \<open>Acker\<close>\<close>

text \<open>A block of packets that have all been received.\<close>

definition block_got :: "(int \<Rightarrow> int) \<Rightarrow> int \<Rightarrow> int \<times> int \<Rightarrow> bool" where
  "block_got h mx b \<longleftrightarrow>
     0 \<le> fst b \<and> fst b < snd b \<and> snd b \<le> mx + 1 \<and> (\<forall>j\<in>{fst b..<snd b}. h j \<noteq> 0)"

definition sacks_ok :: "(int \<Rightarrow> int) \<Rightarrow> int \<Rightarrow> tpkt \<Rightarrow> bool" where
  "sacks_ok h mx p \<longleftrightarrow>
     0 \<le> sa_length p \<and> sa_length p \<le> int NSA \<and> length (sack_area p) = Suc NSA \<and>
     (\<forall>j < nat (sa_length p). block_got h mx (sack_area p ! j))"

lemma block_got_mono:
  "block_got h mx b \<Longrightarrow> mx \<le> mx' \<Longrightarrow> (\<And>j. h j \<noteq> 0 \<Longrightarrow> h' j \<noteq> 0) \<Longrightarrow> block_got h' mx' b"
  by (auto simp: block_got_def)

lemma sacks_ok_mono:
  assumes "sacks_ok h mx p" "mx \<le> mx'" "\<And>j. h j \<noteq> 0 \<Longrightarrow> h' j \<noteq> 0"
  shows "sacks_ok h' mx' p"
proof -
  have "block_got h' mx' (sack_area p ! j)" if "j < nat (sa_length p)" for j
    using assms(1) that unfolding sacks_ok_def by (intro block_got_mono [OF _ assms(2,3)]) blast
  with assms(1) show ?thesis unfolding sacks_ok_def by blast
qed

definition hdr_frame :: "tpkt \<Rightarrow> tpkt \<Rightarrow> bool" where
  "hdr_frame p p' \<longleftrightarrow> (\<exists>z x n. p' = p\<lparr>tp_size := z, sack_area := x, sa_length := n\<rparr>)"

definition same_core :: "'z acker_scheme \<Rightarrow> 'z acker_scheme \<Rightarrow> bool" where
  "same_core a b \<longleftrightarrow>
     next_seq b = next_seq a \<and> maxseen b = maxseen a \<and> wndmask b = wndmask a \<and>
     ecn_unacked b = ecn_unacked a \<and> seen b = seen a \<and> ts_to_echo b = ts_to_echo a \<and>
     is_dup b = is_dup a \<and> last_ack_sent b = last_ack_sent a"

lemma same_core_rep: "same_core a b \<Longrightarrow> acker_rep b h = acker_rep a h"
  by (simp add: same_core_def acker_rep_def acker_mid_def acker_win_def seen_at_def)

lemma hdr_frame_refl [simp]: "hdr_frame p p"
  unfolding hdr_frame_def
  by (rule exI [of _ "tp_size p"], rule exI [of _ "sack_area p"], rule exI [of _ "sa_length p"])
    simp

lemma hdr_frame_trans: "hdr_frame p q \<Longrightarrow> hdr_frame q r \<Longrightarrow> hdr_frame p r"
  unfolding hdr_frame_def by fastforce

lemma hdr_frame_sel:
  assumes "hdr_frame p p'"
  shows "tp_seqno p' = tp_seqno p" "tp_ts p' = tp_ts p" "tp_ts_echo p' = tp_ts_echo p"
    "tp_flowid p' = tp_flowid p" "ect p' = ect p" "ecnecho p' = ecnecho p"
  using assms by (auto simp: hdr_frame_def)

lemma receive_keeps: "h j \<noteq> 0 \<Longrightarrow> n \<noteq> 0 \<Longrightarrow> receive q n a h j \<noteq> 0"
  by (simp add: receive_def)

text \<open>
  The contract of \<open>append_ack\<close>: called for a packet that has been received, it returns, changes
  nothing of the receive window, writes only the SACK fields of the header and reports only
  packets that have been received. \<open>ext_ok\<close> is the invariant of what the class adds to \<open>Acker\<close>;
  \<open>Acker::update\<close> keeps it.
\<close>

locale sink_acker =
  fixes append_ack :: "'z appender"
    and ext_ok :: "'z acker_scheme \<Rightarrow> (int \<Rightarrow> int) \<Rightarrow> bool"
  assumes append_ok:
      "acker_rep a h \<Longrightarrow> ext_ok a h \<Longrightarrow> 0 \<le> old \<Longrightarrow> h old \<noteq> 0 \<Longrightarrow>
       sa_length p = 0 \<Longrightarrow> length (sack_area p) = Suc NSA \<Longrightarrow>
       \<exists>b p'. append_ack d a p old = Inr (b, p') \<and> same_core a b \<and> ext_ok b h \<and>
              hdr_frame p p' \<and> sacks_ok h (maxseen a) p'"
    and ext_update:
      "ext_ok a h \<Longrightarrow> update_spec q n a h b \<Longrightarrow> n \<noteq> 0 \<Longrightarrow> ext_ok b (receive q n a h)"
    and ext_frame:
      "ext_ok (a\<lparr>ts_to_echo := t\<rparr>) h = ext_ok a h"
      "ext_ok (a\<lparr>ecn_unacked := x\<rparr>) h = ext_ok a h"
      "ext_ok (a\<lparr>last_ack_sent := y\<rparr>) h = ext_ok a h"

interpretation plain_acker: sink_acker acker_append_ack "\<lambda>a h. True"
proof
  show "\<exists>b p'. acker_append_ack d a p old = Inr (b, p') \<and> same_core a b \<and> True \<and>
          hdr_frame p p' \<and> sacks_ok h (maxseen a) p'"
    if "sa_length p = 0" "length (sack_area p) = Suc NSA"
    for a :: "'z acker_scheme" and h old p d
    using that unfolding acker_append_ack_def
    by (intro exI [of _ a] exI [of _ p]) (simp add: same_core_def sacks_ok_def)
qed simp_all

end
