(* ===== verification/Score_Board.thy ===== *)
theory Score_Board
  imports Tcp_Sink
begin

section \<open>The SACK scoreboard of a sender (\<open>tcp/scoreboard.h\<close>, \<open>tcp/scoreboard.cc\<close>)\<close>

text \<open>
  A \<open>ScoreBoard\<close> keeps one node for each packet from \<open>first_\<close> on, \<open>length_\<close> of them, in the ring
  array \<open>SBN\<close>: packet \<open>i\<close> is at \<open>SBN[i % sbsize_]\<close> (the macro \<open>SBNI\<close>). Members keep their names
  without the trailing underscore, with \<open>sb_\<close> before those that are too common. The elements of a
  new array are not initialised by the code; their contents are the field \<open>fresh\<close>, about which
  nothing is assumed. A failed \<open>ASSERT\<close> and the two \<open>exit(1)\<close> of \<open>UpdateScoreBoard\<close> are error values,
  as is doubling \<open>sbsize_\<close> beyond the range of \<open>int\<close>.
\<close>

record sbnode =
  sb_seq_no :: seq_t
  ack_flag :: bool
  sack_flag :: bool
  retran :: bool
  sb_snd_nxt :: seq_t

record scoreboard =
  sb_first :: int
  sb_length :: int
  sbsize :: int
  sb_changed :: int
  SBN :: "sbnode list"
  fresh :: sbnode

definition new_ScoreBoard :: "sbnode list \<Rightarrow> int \<Rightarrow> scoreboard \<Rightarrow> scoreboard" where
  "new_ScoreBoard sbn sz sb =
     sb\<lparr>sb_first := 0, sb_length := 0, sbsize := sz, sb_changed := 0, SBN := sbn\<rparr>"

definition node_at :: "scoreboard \<Rightarrow> int \<Rightarrow> sbnode" where
  "node_at sb i = SBN sb ! mod_slot (sbsize sb) i"

definition set_node :: "int \<Rightarrow> sbnode \<Rightarrow> scoreboard \<Rightarrow> scoreboard" where
  "set_node i n sb = sb\<lparr>SBN := (SBN sb)[mod_slot (sbsize sb) i := n]\<rparr>"

definition blank_node :: "int \<Rightarrow> sbnode" where
  "blank_node i =
     \<lparr>sb_seq_no = i, ack_flag = False, sack_flag = False, retran = False, sb_snd_nxt = 0\<rparr>"

definition bump :: "scoreboard \<Rightarrow> scoreboard" where
  "bump sb = sb\<lparr>sb_changed := sb_changed sb + 1\<rparr>"

definition resizeSB :: "int \<Rightarrow> scoreboard \<Rightarrow> scoreboard" where
  "resizeSB sz sb =
     (let lo = sb_seq_no (node_at sb (sb_first sb));
          newSBN = fold (\<lambda>i ns. ns[mod_slot sz i := node_at sb i]) [lo .. lo + sb_length sb]
                     (replicate (nat (sz + 1)) (fresh sb))
      in sb\<lparr>sbsize := sz, SBN := newSBN\<rparr>)"

subsection \<open>\<open>UpdateScoreBoard\<close>\<close>

text \<open>One round of the loop over the acknowledged packets, and the loop; the counter \<open>d\<close> is
  \<open>retran_decr\<close>.\<close>

definition ack_node :: "sbnode \<Rightarrow> sbnode" where
  "ack_node n =
     (let n = n\<lparr>ack_flag := True, sack_flag := True\<rparr>
      in if retran n then n\<lparr>retran := False, sb_snd_nxt := 0\<rparr> else n)"

definition advance_round :: "int \<Rightarrow> int \<Rightarrow> scoreboard \<Rightarrow> (int \<times> scoreboard) res" where
  "advance_round i d sb =
     (if sb_first sb \<noteq> i then Inl ScoreBoardAssert
      else let sb = sb\<lparr>sb_first := sb_first sb + 1, sb_length := sb_length sb - 1\<rparr>
           in if sb_length sb < 0 then Inl ScoreBoardAssert
              else let n = node_at sb i
                   in Inr (if retran n then d + 1 else d, bump (set_node i (ack_node n) sb)))"

function advance_loop :: "int \<Rightarrow> int \<Rightarrow> int \<Rightarrow> scoreboard \<Rightarrow> (int \<times> scoreboard) res" where
  "advance_loop last_ack i d sb =
     (if i \<le> last_ack
      then if sb_seq_no (node_at sb i) \<le> last_ack
           then res_bind (advance_round i d sb)
                  (\<lambda>(d, sb). if sb_length sb = 0 then Inr (d, sb)
                             else advance_loop last_ack (i + 1) d sb)
           else advance_loop last_ack (i + 1) d sb
      else Inr (d, sb))"
  by pat_completeness auto
termination
  by (relation "measure (\<lambda>(last_ack, i, d, sb). nat (last_ack + 1 - i))") auto

definition sb_advance :: "int \<Rightarrow> scoreboard \<Rightarrow> (int \<times> scoreboard) res" where
  "sb_advance last_ack sb =
     (if sb_length sb \<noteq> 0 \<and> sb_seq_no (node_at sb (sb_first sb)) \<le> last_ack
      then advance_loop last_ack (sb_seq_no (node_at sb (sb_first sb))) 0 sb
      else Inr (0, sb))"

definition sb_create :: "int \<Rightarrow> scoreboard \<Rightarrow> scoreboard res" where
  "sb_create last_ack sb =
     (let i = last_ack + 1;
          sb = (set_node i (blank_node i) sb)\<lparr>sb_first := int32_of i, sb_length := sb_length sb + 1\<rparr>
      in if sbsize sb \<le> sb_length sb then Inl ScoreBoardTooLarge else Inr (bump sb))"

partial_function (option) sb_grow_loop ::
  "int \<Rightarrow> scoreboard \<Rightarrow> scoreboard res option" where
  "sb_grow_loop need sb =
     (if sbsize sb - 1 \<le> need
      then if in_int32 (sbsize sb * 2) then sb_grow_loop need (resizeSB (sbsize sb * 2) sb)
           else Some (Inl IntOutOfRange)
      else Some (Inr sb))"

declare sb_grow_loop.simps [code] advance_loop.simps [simp del]

fun sb_extend :: "int list \<Rightarrow> scoreboard \<Rightarrow> scoreboard res" where
  "sb_extend [] sb = Inr sb"
| "sb_extend (i # is) sb =
     (let sb = (set_node i (blank_node i) sb)\<lparr>sb_length := sb_length sb + 1\<rparr>
      in if sbsize sb \<le> sb_length sb then Inl ScoreBoardTooLarge else sb_extend is (bump sb))"

definition sb_last :: "scoreboard \<Rightarrow> int" where
  "sb_last sb = sb_seq_no (node_at sb (sb_first sb + sb_length sb + sbsize sb - 1))"

definition sb_right_side :: "int \<Rightarrow> int \<Rightarrow> scoreboard \<Rightarrow> scoreboard res" where
  "sb_right_side last_ack sack_right sb =
     (if sb_last sb < sack_right
      then res_bind (of_loop (sb_grow_loop (sack_right - last_ack) sb))
             (\<lambda>sb. sb_extend [sb_last sb + 1 .. sack_right - 1] sb)
      else Inr sb)"

definition mark_round :: "int \<Rightarrow> int \<Rightarrow> int \<Rightarrow> int \<times> scoreboard \<Rightarrow> int \<times> scoreboard" where
  "mark_round sack_left sack_right i = (\<lambda>(d, sb).
     let n = node_at sb i
     in if sack_left \<le> sb_seq_no n \<and> sb_seq_no n < sack_right
        then let sb = (if sack_flag n then sb else bump (set_node i (n\<lparr>sack_flag := True\<rparr>) sb));
                 n = node_at sb i
             in if retran n then (d + 1, set_node i (n\<lparr>retran := False\<rparr>) sb) else (d, sb)
        else (d, sb))"

definition sb_mark :: "int \<Rightarrow> int \<Rightarrow> int \<times> scoreboard \<Rightarrow> int \<times> scoreboard" where
  "sb_mark sack_left sack_right = (\<lambda>(d, sb).
     fold (mark_round sack_left sack_right)
       [sb_seq_no (node_at sb (sb_first sb)) .. sack_right - 1] (d, sb))"

definition hdr_blocks :: "tpkt \<Rightarrow> (int \<times> int) list" where
  "hdr_blocks p = map (\<lambda>j. sack_area p ! j) [0..<nat (sa_length p)]"

fun sb_blocks ::
  "int \<Rightarrow> (int \<times> int) list \<Rightarrow> int \<times> scoreboard \<Rightarrow> (int \<times> scoreboard) res" where
  "sb_blocks last_ack [] (d, sb) = Inr (d, sb)"
| "sb_blocks last_ack ((sack_left, sack_right) # bs) (d, sb) =
     res_bind (sb_right_side last_ack sack_right sb)
       (\<lambda>sb. sb_blocks last_ack bs (sb_mark sack_left sack_right (d, sb)))"

definition UpdateScoreBoard :: "int \<Rightarrow> tpkt \<Rightarrow> scoreboard \<Rightarrow> (int \<times> scoreboard) res" where
  "UpdateScoreBoard last_ack tcph sb =
     res_bind (sb_advance last_ack (sb\<lparr>sb_changed := 0\<rparr>)) (\<lambda>(d, sb).
     res_bind (if sb_length sb = 0 \<and> sa_length tcph \<noteq> 0 then sb_create last_ack sb else Inr sb)
       (\<lambda>sb. sb_blocks last_ack (hdr_blocks tcph) (d, sb)))"

subsection \<open>The other operations\<close>

definition snd_nxt_round :: "int \<Rightarrow> int \<Rightarrow> bool \<times> scoreboard \<Rightarrow> bool \<times> scoreboard" where
  "snd_nxt_round sack_right i = (\<lambda>(force, sb).
     let n = node_at sb i
     in if retran n \<and> sb_snd_nxt n < sack_right
        then (True, set_node i (n\<lparr>retran := False, sb_snd_nxt := 0\<rparr>) sb)
        else (force, sb))"

definition CheckSndNxt :: "tpkt \<Rightarrow> scoreboard \<Rightarrow> bool \<times> scoreboard" where
  "CheckSndNxt tcph sb =
     fold (\<lambda>(sack_left, sack_right) (force, sb).
             fold (snd_nxt_round sack_right)
               [sb_seq_no (node_at sb (sb_first sb)) .. sack_right - 1] (force, sb))
       (hdr_blocks tcph) (False, sb)"

definition ClearScoreBoard :: "scoreboard \<Rightarrow> scoreboard" where
  "ClearScoreBoard sb = sb\<lparr>sb_length := 0\<rparr>"

definition sb_IsEmpty :: "scoreboard \<Rightarrow> bool" where
  "sb_IsEmpty sb \<longleftrightarrow> sb_length sb = 0"

definition GetNextRetran :: "scoreboard \<Rightarrow> int" where
  "GetNextRetran sb =
     (if sb_length sb \<noteq> 0
      then let lo = sb_seq_no (node_at sb (sb_first sb))
           in case find (\<lambda>i. \<not> ack_flag (node_at sb i) \<and> \<not> sack_flag (node_at sb i) \<and>
                             \<not> retran (node_at sb i)) [lo .. lo + sb_length sb - 1] of
                Some i \<Rightarrow> i | None \<Rightarrow> - 1
      else - 1)"

definition GetNextUnacked :: "int \<Rightarrow> scoreboard \<Rightarrow> int" where
  "GetNextUnacked seqno sb =
     (let lo = sb_seq_no (node_at sb (sb_first sb))
      in if sb_length sb = 0 then - 1
         else if seqno < lo \<or> lo + sb_length sb \<le> seqno then - 1
         else case find (\<lambda>i. \<not> ack_flag (node_at sb i) \<and> \<not> sack_flag (node_at sb i))
                     [seqno .. lo + sb_length sb - 1] of
                Some i \<Rightarrow> i | None \<Rightarrow> - 1)"

definition MarkRetran :: "int \<Rightarrow> scoreboard \<Rightarrow> scoreboard" where
  "MarkRetran retran_seqno sb =
     set_node retran_seqno ((node_at sb retran_seqno)\<lparr>retran := True\<rparr>) sb"

definition MarkRetran_snd_nxt :: "int \<Rightarrow> int \<Rightarrow> scoreboard \<Rightarrow> scoreboard" where
  "MarkRetran_snd_nxt retran_seqno snd_nxt sb =
     set_node retran_seqno
       ((node_at sb retran_seqno)\<lparr>retran := True, sb_snd_nxt := snd_nxt\<rparr>) sb"

subsection \<open>What the board represents\<close>

text \<open>
  \<open>sb_rep sb f e N\<close>: the board holds the packets from \<open>f\<close> to before \<open>e\<close>, with node \<open>N i\<close> for
  packet \<open>i\<close>.
\<close>

definition sb_rep :: "scoreboard \<Rightarrow> int \<Rightarrow> int \<Rightarrow> (int \<Rightarrow> sbnode) \<Rightarrow> bool" where
  "sb_rep sb f e N \<longleftrightarrow>
     1 < sbsize sb \<and> nat (sbsize sb) \<le> length (SBN sb) \<and> 0 \<le> f \<and> f \<le> e \<and>
     sb_first sb = f \<and> sb_length sb = e - f \<and> e - f < sbsize sb \<and>
     (\<forall>i. f \<le> i \<and> i < e \<longrightarrow>
          node_at sb i = N i \<and> sb_seq_no (N i) = i \<and> \<not> ack_flag (N i))"

lemma sb_rep_node:
  assumes "sb_rep sb f e N" "f \<le> i" "i < e"
  shows "node_at sb i = N i" "sb_seq_no (N i) = i" "\<not> ack_flag (N i)"
  using assms by (simp_all add: sb_rep_def)

lemma set_node_sel [simp]:
  "sb_first (set_node i n sb) = sb_first sb" "sb_length (set_node i n sb) = sb_length sb"
  "sbsize (set_node i n sb) = sbsize sb" "length (SBN (set_node i n sb)) = length (SBN sb)"
  "fresh (set_node i n sb) = fresh sb"
  by (simp_all add: set_node_def)

lemma bump_sel [simp]:
  "sb_first (bump sb) = sb_first sb" "sb_length (bump sb) = sb_length sb"
  "sbsize (bump sb) = sbsize sb" "SBN (bump sb) = SBN sb" "node_at (bump sb) = node_at sb"
  "fresh (bump sb) = fresh sb"
  by (simp_all add: bump_def node_at_def fun_eq_iff)

lemma node_at_upd [simp]:
  "node_at (sb\<lparr>sb_first := x\<rparr>) = node_at sb" "node_at (sb\<lparr>sb_length := x\<rparr>) = node_at sb"
  "node_at (sb\<lparr>sb_changed := x\<rparr>) = node_at sb"
  by (simp_all add: node_at_def fun_eq_iff)

lemma node_at_set:
  assumes "0 < sbsize sb" "nat (sbsize sb) \<le> length (SBN sb)" "\<bar>i - j\<bar> < sbsize sb"
  shows "node_at (set_node i n sb) j = (if i = j then n else node_at sb j)"
  using ring.get_put [OF mod_ring assms(2,3), OF assms(1)]
  by (simp add: node_at_def set_node_def)

lemma blank_node_sel [simp]:
  "sb_seq_no (blank_node i) = i" "\<not> ack_flag (blank_node i)" "\<not> sack_flag (blank_node i)"
  "\<not> retran (blank_node i)"
  by (simp_all add: blank_node_def)

lemma sb_rep_bump [simp]: "sb_rep (bump sb) f e N = sb_rep sb f e N"
  by (simp add: sb_rep_def)

lemma sb_rep_changed [simp]: "sb_rep (sb\<lparr>sb_changed := x\<rparr>) f e N = sb_rep sb f e N"
  by (simp add: sb_rep_def)

lemma sb_rep_cong:
  assumes "sb_rep sb f e N" "\<And>i. f \<le> i \<Longrightarrow> i < e \<Longrightarrow> N' i = N i"
  shows "sb_rep sb f e N'"
  using assms by (simp add: sb_rep_def)

text \<open>The node of one packet on the board is replaced.\<close>

lemma sb_rep_set:
  assumes "sb_rep sb f e N" "f \<le> i" "i < e" "sb_seq_no n = i" "\<not> ack_flag n"
  shows "sb_rep (set_node i n sb) f e (N(i := n))"
proof -
  have "node_at (set_node i n sb) j = (N(i := n)) j" if "f \<le> j" "j < e" for j
    using assms(1-3) that by (subst node_at_set) (auto simp: sb_rep_def)
  then show ?thesis using assms by (auto simp: sb_rep_def)
qed

text \<open>The number of retransmitted packets whose retransmission is still outstanding.\<close>

definition retrans_of :: "int \<Rightarrow> int \<Rightarrow> (int \<Rightarrow> sbnode) \<Rightarrow> int" where
  "retrans_of f e N = (\<Sum>i\<in>{f..<e}. of_bool (retran (N i)))"

lemma retrans_of_first: "f < e \<Longrightarrow> retrans_of f e N = of_bool (retran (N f)) + retrans_of (f + 1) e N"
proof -
  assume "f < e"
  then have "{f..<e} = insert f {f + 1..<e}" by auto
  then show ?thesis by (simp add: retrans_of_def)
qed

lemma retrans_of_upd:
  assumes "f \<le> i" "i < e"
  shows "retrans_of f e (N(i := n)) + of_bool (retran (N i)) = retrans_of f e N + of_bool (retran n)"
proof -
  have i: "i \<in> {f..<e}" using assms by simp
  have "(\<Sum>j\<in>{f..<e} - {i}. of_bool (retran ((N(i := n)) j))) =
        (\<Sum>j\<in>{f..<e} - {i}. of_bool (retran (N j)) :: int)"
    by (rule sum.cong) auto
  then show ?thesis
    using sum.remove [OF _ i, of "\<lambda>j. of_bool (retran (N j)) :: int"]
      sum.remove [OF _ i, of "\<lambda>j. of_bool (retran ((N(i := n)) j)) :: int"]
    by (simp add: retrans_of_def)
qed

subsection \<open>Advancing the left edge\<close>

lemma advance_round_ok:
  assumes rep: "sb_rep sb i e N" and i: "i < e"
  shows "\<exists>sb'. advance_round i d sb = Inr (d + of_bool (retran (N i)), sb') \<and>
           sb_rep sb' (i + 1) e N"
proof -
  let ?s = "sb\<lparr>sb_first := sb_first sb + 1, sb_length := sb_length sb - 1\<rparr>"
  let ?n = "ack_node (N i)"
  have at: "node_at sb i = N i" using sb_rep_node(1) [OF rep _ i] by simp
  have keep: "node_at (set_node i ?n ?s) j = N j" if "i < j" "j < e" for j
    using rep that by (subst node_at_set) (auto simp: sb_rep_def)
  have "advance_round i d sb = Inr (d + of_bool (retran (N i)), bump (set_node i ?n ?s))"
    using rep i at by (simp add: advance_round_def Let_def sb_rep_def)
  moreover have "sb_rep (bump (set_node i ?n ?s)) (i + 1) e N"
    using rep i keep by (auto simp: sb_rep_def)
  ultimately show ?thesis by blast
qed

lemma advance_loop_ok:
  assumes "sb_rep sb i e N" "i < e" "i \<le> last_ack"
  shows "\<exists>d' sb'. advance_loop last_ack i d sb = Inr (d', sb') \<and>
           sb_rep sb' (min (last_ack + 1) e) e N \<and>
           d' + retrans_of (min (last_ack + 1) e) e N = d + retrans_of i e N"
  using assms
proof (induction "nat (e - i)" arbitrary: i d sb)
  case 0
  then show ?case by simp
next
  case (Suc k)
  let ?d = "d + of_bool (retran (N i))"
  obtain t where t: "advance_round i d sb = Inr (?d, t)" "sb_rep t (i + 1) e N"
    using advance_round_ok [OF Suc.prems(1,2)] by blast
  have len: "sb_length t = e - (i + 1)" using t(2) by (simp add: sb_rep_def)
  have step: "advance_loop last_ack i d sb =
      (if sb_length t = 0 then Inr (?d, t) else advance_loop last_ack (i + 1) ?d t)"
    using Suc.prems sb_rep_node [OF Suc.prems(1) _ Suc.prems(2)] t(1)
    by (subst advance_loop.simps) simp
  have count: "?d + retrans_of (i + 1) e N = d + retrans_of i e N"
    using retrans_of_first [OF Suc.prems(2)] by simp
  show ?case
  proof (cases "i + 1 < e \<and> i + 1 \<le> last_ack")
    case True
    have "k = nat (e - (i + 1))" using Suc.hyps(2) True by simp
    from Suc.hyps(1) [OF this t(2), of ?d] True obtain d' u where
      "advance_loop last_ack (i + 1) ?d t = Inr (d', u)" "sb_rep u (min (last_ack + 1) e) e N"
      "d' + retrans_of (min (last_ack + 1) e) e N = ?d + retrans_of (i + 1) e N" by blast
    with step len True count show ?thesis by (intro exI [of _ d'] exI [of _ u]) simp
  next
    case False
    then have m: "min (last_ack + 1) e = i + 1" using Suc.prems by auto
    have "advance_loop last_ack i d sb = Inr (?d, t)"
    proof (cases "i + 1 < e")
      case True
      with False len step show ?thesis by (simp add: advance_loop.simps [of _ "i + 1"])
    qed (use Suc.prems len step in auto)
    then show ?thesis using t(2) count by (simp add: m)
  qed
qed

lemma sb_advance_ok:
  fixes last_ack :: int
  assumes rep: "sb_rep sb f e N"
  defines "f' \<equiv> (if f < e then max f (min (last_ack + 1) e) else f)"
  shows "\<exists>d sb'. sb_advance last_ack sb = Inr (d, sb') \<and> sb_rep sb' f' e N \<and>
           d + retrans_of f' e N = retrans_of f e N"
proof (cases "f < e \<and> f \<le> last_ack")
  case True
  have "f' = min (last_ack + 1) e" using True by (auto simp: f'_def)
  moreover have "sb_advance last_ack sb = advance_loop last_ack f 0 sb"
    using True rep sb_rep_node [OF rep, of f] by (simp add: sb_advance_def sb_rep_def)
  ultimately show ?thesis using advance_loop_ok [OF rep, of last_ack 0] True by simp
next
  case False
  then have "f' = f" by (auto simp: f'_def)
  moreover have "sb_advance last_ack sb = Inr (0, sb)"
  proof (cases "f < e")
    case True
    then show ?thesis
      using False rep sb_rep_node [OF rep, of f] by (simp add: sb_advance_def sb_rep_def)
  next
    case False
    then show ?thesis using rep by (simp add: sb_advance_def sb_rep_def)
  qed
  ultimately show ?thesis using rep by simp
qed

subsection \<open>Creating nodes\<close>

lemma sb_create_ok:
  assumes rep: "sb_rep sb f f N" and la: "- 1 \<le> last_ack" "last_ack < 2 ^ 31 - 1"
  shows "\<exists>sb'. sb_create last_ack sb = Inr sb' \<and>
           sb_rep sb' (last_ack + 1) (last_ack + 2) blank_node"
proof -
  let ?i = "last_ack + 1"
  let ?s = "(set_node ?i (blank_node ?i) sb)\<lparr>sb_first := int32_of ?i, sb_length := sb_length sb + 1\<rparr>"
  have id: "int32_of ?i = ?i" using la by (intro int32_of_id) auto
  have at: "node_at (set_node ?i (blank_node ?i) sb) ?i = blank_node ?i"
    using rep by (subst node_at_set) (auto simp: sb_rep_def)
  have "sb_create last_ack sb = Inr (bump ?s)"
    using rep by (simp add: sb_create_def Let_def sb_rep_def)
  moreover have "node_at ?s j = blank_node j" if "?i \<le> j" "j < ?i + 1" for j
  proof -
    have "j = ?i" using that by simp
    then show ?thesis using at by simp
  qed
  then have "sb_rep ?s ?i (?i + 1) blank_node"
    using rep la id by (simp add: sb_rep_def)
  ultimately show ?thesis by (intro exI [of _ "bump ?s"]) (simp add: add.commute)
qed

lemma sb_rep_extend:
  assumes rep: "sb_rep sb f e N" and room: "e + 1 - f < sbsize sb"
  shows "sb_rep ((set_node e (blank_node e) sb)\<lparr>sb_length := sb_length sb + 1\<rparr>) f (e + 1)
           (N(e := blank_node e))"
proof -
  have "node_at (set_node e (blank_node e) sb) j = (N(e := blank_node e)) j"
    if "f \<le> j" "j < e + 1" for j
    using rep room that by (subst node_at_set) (auto simp: sb_rep_def)
  then show ?thesis using rep room by (auto simp: sb_rep_def blank_node_def)
qed

definition extended :: "int \<Rightarrow> (int \<Rightarrow> sbnode) \<Rightarrow> int \<Rightarrow> sbnode" where
  "extended e N = (\<lambda>i. if i < e then N i else blank_node i)"

lemma sb_extend_ok:
  assumes "sb_rep sb f e N" "r - f < sbsize sb"
  shows "\<exists>sb'. sb_extend [e..r - 1] sb = Inr sb' \<and> sb_rep sb' f (max e r) (extended e N) \<and>
           sbsize sb' = sbsize sb"
  using assms
proof (induction "nat (r - e)" arbitrary: e N sb)
  case 0
  then have "[e..r - 1] = []" "max e r = e" by simp_all
  moreover have "sb_rep sb f e (extended e N)"
    using 0 by (elim sb_rep_cong) (simp add: extended_def)
  ultimately show ?case by simp
next
  case (Suc k)
  let ?t = "(set_node e (blank_node e) sb)\<lparr>sb_length := sb_length sb + 1\<rparr>"
  have lt: "e < r" using Suc.hyps(2) by simp
  have rep: "sb_rep ?t f (e + 1) (N(e := blank_node e))"
    using sb_rep_extend [OF Suc.prems(1)] Suc.prems(2) lt by simp
  have len: "sb_length ?t < sbsize ?t" using rep by (simp add: sb_rep_def)
  have "sb_extend [e..r - 1] sb = sb_extend [e + 1..r - 1] (bump ?t)"
    using lt len by (simp add: upto_rec1 Let_def)
  moreover have "k = nat (r - (e + 1))" using Suc.hyps(2) by simp
  moreover have "sb_rep (bump ?t) f (e + 1) (N(e := blank_node e))" using rep by simp
  moreover have "r - f < sbsize (bump ?t)" using Suc.prems(2) by simp
  ultimately obtain u where u: "sb_extend [e..r - 1] sb = Inr u"
    "sb_rep u f (max (e + 1) r) (extended (e + 1) (N(e := blank_node e)))" "sbsize u = sbsize sb"
    using Suc.hyps(1) [of "e + 1" "bump ?t" "N(e := blank_node e)"] by auto
  have "max (e + 1) r = max e r" using lt by simp
  moreover have "extended (e + 1) (N(e := blank_node e)) = extended e N"
    by (auto simp: extended_def fun_eq_iff)
  ultimately show ?case using u by auto
qed

subsection \<open>Growing the array\<close>

lemma sb_rep_resize:
  assumes rep: "sb_rep sb f e N" and ne: "f < e"
  shows "sb_rep (resizeSB (sbsize sb * 2) sb) f e N"
proof -
  let ?n = "sbsize sb * 2"
  let ?is = "[f..e]" and ?xs = "replicate (nat (?n + 1)) (fresh sb)"
  have lo: "sb_seq_no (node_at sb (sb_first sb)) = f"
    using rep sb_rep_node [OF rep, of f] ne by (simp add: sb_rep_def)
  have size: "1 < sbsize sb" "e - f < sbsize sb" "sb_first sb = f" "sb_length sb = e - f"
    using rep by (simp_all add: sb_rep_def)
  have r: "ring (mod_slot ?n) ?n" using size by (intro mod_ring) simp
  have new: "resizeSB ?n sb =
      sb\<lparr>sbsize := ?n, SBN := fold (\<lambda>i ns. ns[mod_slot ?n i := node_at sb i]) ?is ?xs\<rparr>"
    using lo size by (simp add: resizeSB_def)
  have at: "node_at (resizeSB ?n sb) j = N j" if "f \<le> j" "j < e" for j
  proof -
    have "\<forall>i\<in>set ?is. \<bar>i - j\<bar> < ?n" using that size by auto
    with ring.get_fold_put [OF r, of ?xs ?is j "node_at sb"] that sb_rep_node(1) [OF rep that]
    show ?thesis by (simp add: new node_at_def [of "sb\<lparr>sbsize := ?n, SBN := _\<rparr>"])
  qed
  moreover have "length (SBN (resizeSB ?n sb)) = nat (?n + 1)"
    using ring.length_fold_put [OF r, of "node_at sb" ?is ?xs] by (simp add: new)
  moreover have "sbsize (resizeSB ?n sb) = ?n" "sb_first (resizeSB ?n sb) = f"
    "sb_length (resizeSB ?n sb) = e - f" using size by (simp_all add: new)
  ultimately show ?thesis using rep size sb_rep_node [OF rep] by (simp add: sb_rep_def)
qed

lemma sb_grow_loop_ok:
  assumes "sb_rep sb f e N" "f < e" "need < 2 ^ 30 - 1"
  shows "\<exists>sb'. sb_grow_loop need sb = Some (Inr sb') \<and> sb_rep sb' f e N \<and> need < sbsize sb' - 1"
  using assms
proof (induction "nat (2 ^ 31 - sbsize sb)" arbitrary: sb rule: less_induct)
  case less
  show ?case
  proof (cases "sbsize sb - 1 \<le> need")
    case True
    let ?t = "resizeSB (sbsize sb * 2) sb"
    have size: "1 < sbsize sb" "sbsize sb < 2 ^ 30"
      using less.prems True by (simp_all add: sb_rep_def)
    then have range: "in_int32 (sbsize sb * 2)" by (simp add: in_int32_def)
    have "nat (2 ^ 31 - sbsize ?t) < nat (2 ^ 31 - sbsize sb)"
      using size by (simp add: resizeSB_def Let_def)
    from less.hyps [OF this sb_rep_resize [OF less.prems(1,2)] less.prems(2,3)] obtain u where
      "sb_grow_loop need ?t = Some (Inr u)" "sb_rep u f e N" "need < sbsize u - 1" by blast
    then show ?thesis using True range by (subst sb_grow_loop.simps) simp
  next
    case False
    then show ?thesis using less.prems(1) by (subst sb_grow_loop.simps) simp
  qed
qed

end
