(* ===== verification/Score_Update.thy ===== *)
theory Score_Update
  imports Score_Board
begin

section \<open>Updating the scoreboard\<close>

text \<open>
  The effect of \<open>UpdateScoreBoard\<close> on the packets of the board: for one SACK block, for all blocks
  of an acknowledgement, and for the whole operation, each as an equation between what the board
  represents before and after.
\<close>

subsection \<open>One SACK block\<close>

lemma mod_slot_period: "mod_slot n (i + n - 1) = mod_slot n (i - 1)"
  by (simp add: mod_slot_def) (metis add_diff_eq add.commute mod_add_self2 diff_add_eq)

lemma sb_last_ok:
  assumes rep: "sb_rep sb f e N" and ne: "f < e"
  shows "sb_last sb = e - 1"
proof -
  have "node_at sb (e + sbsize sb - 1) = node_at sb (e - 1)"
    by (simp add: node_at_def mod_slot_period)
  moreover have "sb_first sb + sb_length sb = e" using rep by (simp add: sb_rep_def)
  ultimately show ?thesis
    using sb_rep_node [OF rep, of "e - 1"] ne by (simp add: sb_last_def)
qed

lemma sb_right_side_ok:
  assumes rep: "sb_rep sb f e N" and ne: "f < e" and la: "last_ack < f" "r - last_ack < 2 ^ 30 - 1"
  shows "\<exists>sb'. sb_right_side last_ack r sb = Inr sb' \<and> sb_rep sb' f (max e r) (extended e N)"
proof (cases "e - 1 < r")
  case True
  obtain t where t: "sb_grow_loop (r - last_ack) sb = Some (Inr t)" "sb_rep t f e N"
    "r - last_ack < sbsize t - 1" using sb_grow_loop_ok [OF rep ne la(2)] by blast
  have "r - f < sbsize t" using t(3) la(1) by simp
  from sb_extend_ok [OF t(2) this] show ?thesis
    using True t(1) sb_last_ok [OF rep ne] sb_last_ok [OF t(2) ne]
    by (auto simp: sb_right_side_def)
next
  case False
  then have "sb_right_side last_ack r sb = Inr sb" "max e r = e"
    using sb_last_ok [OF rep ne] by (simp_all add: sb_right_side_def)
  moreover have "sb_rep sb f e (extended e N)"
    using rep by (rule sb_rep_cong) (simp add: extended_def)
  ultimately show ?thesis by simp
qed

definition marked :: "sbnode \<Rightarrow> sbnode" where
  "marked n = n\<lparr>sack_flag := True, retran := False\<rparr>"

lemma marked_sel [simp]:
  "sb_seq_no (marked n) = sb_seq_no n" "ack_flag (marked n) = ack_flag n" "sack_flag (marked n)"
  "\<not> retran (marked n)" "marked (marked n) = marked n"
  by (simp_all add: marked_def)

lemma mark_round_ok:
  assumes rep: "sb_rep sb f e N" and i: "f \<le> i" "i < e" "l \<le> i" "i < r"
  shows "\<exists>d' sb'. mark_round l r i (d, sb) = (d', sb') \<and> sb_rep sb' f e (N(i := marked (N i))) \<and>
           d' + retrans_of f e (N(i := marked (N i))) = d + retrans_of f e N"
proof -
  note n = sb_rep_node [OF rep i(1,2)]
  let ?t = "if sack_flag (N i) then sb else bump (set_node i ((N i)\<lparr>sack_flag := True\<rparr>) sb)"
  let ?n = "(N i)\<lparr>sack_flag := True\<rparr>"
  have t: "sb_rep ?t f e (N(i := ?n))"
  proof (cases "sack_flag (N i)")
    case True
    then have "N(i := ?n) = N" by auto
    then show ?thesis using rep True by simp
  next
    case False
    have "sb_rep (set_node i ?n sb) f e (N(i := ?n))"
      using n by (intro sb_rep_set [OF rep i(1,2)]) simp_all
    with False show ?thesis by simp
  qed
  have at: "node_at ?t i = ?n" using sb_rep_node(1) [OF t i(1,2)] by simp
  have step: "mark_round l r i (d, sb) =
      (if retran (N i) then (d + 1, set_node i (?n\<lparr>retran := False\<rparr>) ?t) else (d, ?t))"
  proof (cases "sack_flag (N i)")
    case True
    then have same: "?n = N i" by (cases "N i") simp
    show ?thesis using True n i at unfolding same by (simp add: mark_round_def Let_def)
  qed (use n i at in \<open>simp add: mark_round_def Let_def\<close>)
  have rt: "sb_rep (set_node i (?n\<lparr>retran := False\<rparr>) ?t) f e (N(i := marked (N i)))"
    using sb_rep_set [OF t i(1,2), of "?n\<lparr>retran := False\<rparr>"] n by (simp add: marked_def)
  have nt: "N(i := ?n) = N(i := marked (N i))" if "\<not> retran (N i)"
    using that by (cases "N i") (simp add: marked_def)
  show ?thesis
    using step rt t nt retrans_of_upd [OF i(1,2), of N "marked (N i)"]
    by (cases "retran (N i)") simp_all
qed

lemma mark_round_skip:
  assumes "sb_rep sb f e N" "f \<le> i" "i < e" "\<not> (l \<le> i \<and> i < r)"
  shows "mark_round l r i (d, sb) = (d, sb)"
  using sb_rep_node [OF assms(1-3)] assms(4) by (auto simp: mark_round_def Let_def)

definition mark_in :: "int set \<Rightarrow> (int \<Rightarrow> sbnode) \<Rightarrow> int \<Rightarrow> sbnode" where
  "mark_in A N = (\<lambda>i. if i \<in> A then marked (N i) else N i)"

lemma mark_fold_ok:
  assumes "sb_rep sb f e N" "set is \<subseteq> {f..<e}"
  shows "\<exists>d' sb'. fold (mark_round l r) is (d, sb) = (d', sb') \<and>
           sb_rep sb' f e (mark_in (set is \<inter> {l..<r}) N) \<and>
           d' + retrans_of f e (mark_in (set is \<inter> {l..<r}) N) = d + retrans_of f e N"
  using assms
proof (induction "is" arbitrary: sb N d)
  case Nil
  then show ?case by (simp add: mark_in_def)
next
  case (Cons i "is")
  have i: "f \<le> i" "i < e" and rest: "set is \<subseteq> {f..<e}" using Cons.prems(2) by simp_all
  show ?case
  proof (cases "l \<le> i \<and> i < r")
    case True
    obtain d1 t where t: "mark_round l r i (d, sb) = (d1, t)" "sb_rep t f e (N(i := marked (N i)))"
      "d1 + retrans_of f e (N(i := marked (N i))) = d + retrans_of f e N"
      using mark_round_ok [OF Cons.prems(1) i, of l r d] True by blast
    have eq: "mark_in (set is \<inter> {l..<r}) (N(i := marked (N i))) = mark_in (set (i # is) \<inter> {l..<r}) N"
      using True by (auto simp: mark_in_def fun_eq_iff)
    have "fold (mark_round l r) (i # is) (d, sb) = fold (mark_round l r) is (d1, t)"
      using t(1) by simp
    then show ?thesis using Cons.IH [OF t(2) rest, of d1] t(3) unfolding eq by metis
  next
    case False
    then have "mark_in (set (i # is) \<inter> {l..<r}) N = mark_in (set is \<inter> {l..<r}) N"
      by (auto simp: mark_in_def fun_eq_iff)
    with Cons.IH [OF Cons.prems(1) rest, of d] mark_round_skip [OF Cons.prems(1) i False, of d]
    show ?thesis by simp
  qed
qed

lemma sb_mark_ok:
  assumes rep: "sb_rep sb f e N" and ne: "f < e" and r: "r \<le> e"
  shows "\<exists>d' sb'. sb_mark l r (d, sb) = (d', sb') \<and> sb_rep sb' f e (mark_in {l..<r} N) \<and>
           d' + retrans_of f e (mark_in {l..<r} N) = d + retrans_of f e N"
proof -
  have lo: "sb_seq_no (node_at sb (sb_first sb)) = f"
    using rep sb_rep_node [OF rep, of f] ne by (simp add: sb_rep_def)
  have sub: "set [f..r - 1] \<subseteq> {f..<e}" using r by auto
  obtain d' t where t: "fold (mark_round l r) [f..r - 1] (d, sb) = (d', t)"
    "sb_rep t f e (mark_in (set [f..r - 1] \<inter> {l..<r}) N)"
    "d' + retrans_of f e (mark_in (set [f..r - 1] \<inter> {l..<r}) N) = d + retrans_of f e N"
    using mark_fold_ok [OF rep sub] by blast
  have same: "mark_in (set [f..r - 1] \<inter> {l..<r}) N i = mark_in {l..<r} N i" if "f \<le> i" for i
    using that by (auto simp: mark_in_def)
  have "sb_rep t f e (mark_in {l..<r} N)" using t(2) same by (rule sb_rep_cong [OF _ sym]) simp
  moreover have "retrans_of f e (mark_in (set [f..r - 1] \<inter> {l..<r}) N) =
      retrans_of f e (mark_in {l..<r} N)"
    unfolding retrans_of_def by (rule sum.cong [OF refl], subst same) auto
  ultimately show ?thesis using t lo by (simp add: sb_mark_def)
qed

subsection \<open>All blocks of an acknowledgement\<close>

definition covered :: "(int \<times> int) list \<Rightarrow> int set" where
  "covered bs = (\<Union>(l, r)\<in>set bs. {l..<r})"

definition sb_end :: "int \<Rightarrow> (int \<times> int) list \<Rightarrow> int" where
  "sb_end e bs = fold (\<lambda>(l, r) e. max e r) bs e"

lemma sb_end_ge: "e \<le> sb_end e bs"
proof (induction bs arbitrary: e)
  case (Cons b bs)
  obtain l r where b: "b = (l, r)" by fastforce
  have "max e r \<le> sb_end (max e r) bs" by (rule Cons.IH)
  then show ?case by (simp add: b sb_end_def)
qed (simp add: sb_end_def)

lemma covered_below_end: "i \<in> covered bs \<Longrightarrow> i < sb_end e bs"
proof (induction bs arbitrary: e)
  case (Cons b bs)
  obtain l r where b: "b = (l, r)" by fastforce
  have end_eq: "sb_end e (b # bs) = sb_end (max e r) bs" by (simp add: b sb_end_def)
  show ?case
  proof (cases "i \<in> covered bs")
    case True
    then show ?thesis using Cons.IH end_eq by simp
  next
    case False
    then have "i < r" using Cons.prems by (auto simp: b covered_def)
    also have "r \<le> sb_end (max e r) bs" using sb_end_ge [of "max e r" bs] by simp
    finally show ?thesis using end_eq by simp
  qed
qed (simp add: covered_def)

lemma retrans_of_extended: "f \<le> e \<Longrightarrow> e \<le> e' \<Longrightarrow> retrans_of f e' (extended e N) = retrans_of f e N"
proof -
  assume le: "f \<le> e" "e \<le> e'"
  then have "{f..<e'} = {f..<e} \<union> {e..<e'}" by auto
  moreover have "(\<Sum>i\<in>{f..<e}. of_bool (retran (extended e N i))) =
      (\<Sum>i\<in>{f..<e}. of_bool (retran (N i)) :: int)" by (rule sum.cong) (auto simp: extended_def)
  moreover have "(\<Sum>i\<in>{e..<e'}. of_bool (retran (extended e N i)) :: int) = 0"
    by (rule sum.neutral) (simp add: extended_def)
  ultimately show ?thesis by (simp add: retrans_of_def Int_Un_distrib2)
qed

lemma extended_mark:
  "extended (max e r) (mark_in {l..<r} (extended e N)) = mark_in {l..<r} (extended e N)"
  by (auto simp: extended_def mark_in_def fun_eq_iff)

lemma mark_in_mark_in: "mark_in A (mark_in B N) = mark_in (A \<union> B) N"
  by (auto simp: mark_in_def fun_eq_iff)

lemma sb_blocks_ok:
  assumes "sb_rep sb f e N" "f < e" "last_ack < f" "\<forall>(l, r)\<in>set bs. r - last_ack < 2 ^ 30 - 1"
  shows "\<exists>d' sb'. sb_blocks last_ack bs (d, sb) = Inr (d', sb') \<and>
           sb_rep sb' f (sb_end e bs) (mark_in (covered bs) (extended e N)) \<and>
           d' + retrans_of f (sb_end e bs) (mark_in (covered bs) (extended e N)) =
           d + retrans_of f e N"
  using assms
proof (induction bs arbitrary: e N d sb)
  case Nil
  have "mark_in (covered []) (extended e N) i = N i" if "i < e" for i
    using that by (simp add: mark_in_def covered_def extended_def)
  moreover from this have "retrans_of f e (mark_in (covered []) (extended e N)) = retrans_of f e N"
    unfolding retrans_of_def by (intro sum.cong) auto
  ultimately show ?case
    using sb_rep_cong [OF Nil.prems(1), of "mark_in (covered []) (extended e N)"]
    by (simp add: sb_end_def)
next
  case (Cons b bs)
  obtain l r where b: "b = (l, r)" by fastforce
  let ?e = "max e r" and ?N = "mark_in {l..<r} (extended e N)"
  have r: "r - last_ack < 2 ^ 30 - 1" using Cons.prems(4) b by simp
  obtain t where t: "sb_right_side last_ack r sb = Inr t" "sb_rep t f ?e (extended e N)"
    using sb_right_side_ok [OF Cons.prems(1-3) r] by blast
  have ne: "f < ?e" using Cons.prems(2) by simp
  obtain d1 u where u: "sb_mark l r (d, t) = (d1, u)" "sb_rep u f ?e ?N"
    "d1 + retrans_of f ?e ?N = d + retrans_of f ?e (extended e N)"
    using sb_mark_ok [OF t(2) ne, of r l d] by auto
  have ext: "retrans_of f ?e (extended e N) = retrans_of f e N"
    using retrans_of_extended Cons.prems(2) by simp
  have "\<forall>(l, r)\<in>set bs. r - last_ack < 2 ^ 30 - 1" using Cons.prems(4) by simp
  from Cons.IH [OF u(2) ne Cons.prems(3) this, of d1] obtain d' v where
    v: "sb_blocks last_ack bs (d1, u) = Inr (d', v)"
      "sb_rep v f (sb_end ?e bs) (mark_in (covered bs) (extended ?e ?N))"
      "d' + retrans_of f (sb_end ?e bs) (mark_in (covered bs) (extended ?e ?N)) =
       d1 + retrans_of f ?e ?N" by blast
  have N: "mark_in (covered bs) (extended ?e ?N) = mark_in (covered (b # bs)) (extended e N)"
    by (simp add: extended_mark mark_in_mark_in b covered_def Un_commute)
  have e: "sb_end ?e bs = sb_end e (b # bs)" by (simp add: b sb_end_def)
  have "sb_blocks last_ack (b # bs) (d, sb) = Inr (d', v)" using t(1) u(1) v(1) by (simp add: b)
  then show ?case using v(2,3) u(3) ext unfolding N e by auto
qed

subsection \<open>The whole operation\<close>

definition sb_update_first :: "int \<Rightarrow> int \<Rightarrow> int \<Rightarrow> bool \<Rightarrow> int" where
  "sb_update_first last_ack f e any =
     (if f < e \<and> last_ack + 1 < e then max f (last_ack + 1)
      else if any then last_ack + 1 else max f e)"

definition boarded :: "int \<Rightarrow> int \<Rightarrow> (int \<Rightarrow> sbnode) \<Rightarrow> int \<Rightarrow> sbnode" where
  "boarded f e N = (\<lambda>i. if f \<le> i \<and> i < e then N i else blank_node i)"

lemma UpdateScoreBoard_ok:
  assumes rep: "sb_rep sb f e N" and la: "- 1 \<le> last_ack" "last_ack < 2 ^ 31 - 1"
    and bs: "\<forall>(l, r)\<in>set (hdr_blocks p). r - last_ack < 2 ^ 30 - 1" and sa: "0 \<le> sa_length p"
  defines "any \<equiv> sa_length p \<noteq> 0"
  defines "f' \<equiv> sb_update_first last_ack f e any"
  shows "\<exists>d sb' e' N'. UpdateScoreBoard last_ack p sb = Inr (d, sb') \<and> sb_rep sb' f' e' N' \<and>
           d + retrans_of f' e' N' = retrans_of f e N \<and> (f' < e' \<longrightarrow> last_ack < f') \<and>
           (\<forall>i. f' \<le> i \<longrightarrow> i \<in> covered (hdr_blocks p) \<longrightarrow> i < e') \<and>
           (\<forall>i. f' \<le> i \<and> i < e' \<longrightarrow>
              N' i = mark_in (covered (hdr_blocks p)) (boarded f e N) i)"
proof -
  let ?bs = "hdr_blocks p" and ?f = "if f < e then max f (min (last_ack + 1) e) else f"
  have "sb_rep (sb\<lparr>sb_changed := 0\<rparr>) f e N" using rep by simp
  from sb_advance_ok [OF this, of last_ack] obtain d t where
    t: "sb_advance last_ack (sb\<lparr>sb_changed := 0\<rparr>) = Inr (d, t)" "sb_rep t ?f e N"
      "d + retrans_of ?f e N = retrans_of f e N" by blast
  have fe: "f \<le> e" and len: "sb_length t = e - ?f"
    using rep t(2) by (simp_all add: sb_rep_def)
  let ?rest = "\<lambda>sb. sb_blocks last_ack ?bs (d, sb)"
  have upd: "UpdateScoreBoard last_ack p sb =
      res_bind (if sb_length t = 0 \<and> any then sb_create last_ack t else Inr t) ?rest"
    using t(1) by (simp add: UpdateScoreBoard_def any_def)
  show ?thesis
  proof (cases "f < e \<and> last_ack + 1 < e")
    case True
    then have f': "?f = f'" "f' < e" "last_ack < f'" "f \<le> f'"
      by (auto simp: f'_def sb_update_first_def)
    from sb_blocks_ok [OF _ f'(2,3) bs, of t N d] t(2) obtain d' u where
      u: "sb_blocks last_ack ?bs (d, t) = Inr (d', u)"
        "sb_rep u f' (sb_end e ?bs) (mark_in (covered ?bs) (extended e N))"
        "d' + retrans_of f' (sb_end e ?bs) (mark_in (covered ?bs) (extended e N)) =
         d + retrans_of f' e N" unfolding f'(1) by blast
    have "mark_in (covered ?bs) (extended e N) i = mark_in (covered ?bs) (boarded f e N) i"
      if "f' \<le> i" for i using that f' by (simp add: mark_in_def extended_def boarded_def)
    moreover have "UpdateScoreBoard last_ack p sb = Inr (d', u)"
      using u(1) upd len f' by simp
    ultimately show ?thesis
      using u(2,3) t(3) f' covered_below_end [of _ ?bs e]
      by (intro exI [of _ d'] exI [of _ u] exI [of _ "sb_end e ?bs"] exI) auto
  next
    case False
    then have empty: "?f = e" using fe by auto
    then have l0: "sb_length t = 0" "sb_rep t e e N" "d = retrans_of f e N"
      using len t(2,3) by (simp_all add: retrans_of_def)
    show ?thesis
    proof (cases any)
      case True
      then have f': "f' = last_ack + 1" using False by (auto simp: f'_def sb_update_first_def)
      obtain u where u: "sb_create last_ack t = Inr u"
        "sb_rep u (last_ack + 1) (last_ack + 2) blank_node"
        using sb_create_ok [OF l0(2) la] by blast
      let ?e = "sb_end (last_ack + 2) ?bs"
      let ?N = "mark_in (covered ?bs) (extended (last_ack + 2) blank_node)"
      have "retrans_of (last_ack + 1) (last_ack + 2) blank_node = 0" by (simp add: retrans_of_def)
      with sb_blocks_ok [OF u(2) _ _ bs, of d] obtain d' v where
        v: "sb_blocks last_ack ?bs (d, u) = Inr (d', v)" "sb_rep v (last_ack + 1) ?e ?N"
          "d' + retrans_of (last_ack + 1) ?e ?N = d" by auto
      have "?N i = mark_in (covered ?bs) (boarded f e N) i" if "last_ack < i" for i
        using that False by (auto simp: mark_in_def extended_def boarded_def)
      moreover have "UpdateScoreBoard last_ack p sb = Inr (d', v)"
        using upd True l0(1) u(1) v(1) by simp
      ultimately show ?thesis
        using v(2,3) l0(3) covered_below_end [of _ ?bs "last_ack + 2"] unfolding f'
        by (intro exI [of _ d'] exI [of _ v] exI [of _ ?e] exI) auto
    next
      case none: False
      then have f': "f' = e" "?bs = []"
        using False fe by (auto simp: f'_def sb_update_first_def any_def hdr_blocks_def)
      have "UpdateScoreBoard last_ack p sb = Inr (d, t)" using upd none f'(2) by simp
      then show ?thesis
        using l0 f' by (intro exI [of _ d] exI [of _ t] exI [of _ e] exI [of _ N])
          (auto simp: retrans_of_def covered_def)
    qed
  qed
qed

end
