(* ===== verification/Tcp_Sack.thy ===== *)
theory Tcp_Sack
  imports Tcp_Sink
begin

section \<open>Selective acknowledgements (\<open>tcp/tcp-sink.cc\<close>: \<open>SackStack\<close>, \<open>Sacker\<close>)\<close>

text \<open>
  A \<open>Sacker\<close> is an \<open>Acker\<close> with a stack of the SACK blocks it reported most recently. Its
  \<open>append_ack\<close> puts into an acknowledgement, in this order, a D-SACK block for a duplicate (when the
  sink asks for them), the block that contains the packet being acknowledged, and the blocks of
  the stack that the new block does not cover. A block is the pair of its first packet and the
  packet after its last.
\<close>

subsection \<open>\<open>SackStack\<close>\<close>

record sackstack =
  ss_size :: int
  ss_cnt :: int
  sfe :: "(int \<times> int) list"

abbreviation no_block :: "int \<times> int" where
  "no_block \<equiv> (- 1, - 1)"

definition new_SackStack :: "int \<Rightarrow> sackstack" where
  "new_SackStack sz = \<lparr>ss_size = sz, ss_cnt = 0, sfe = replicate (nat sz) no_block\<rparr>"

definition ss_reset :: "sackstack \<Rightarrow> sackstack" where
  "ss_reset st =
     st\<lparr>ss_cnt := 0, sfe := fold (\<lambda>i e. e[i := no_block]) [0..<nat (ss_cnt st)] (sfe st)\<rparr>"

definition ss_push :: "nat \<Rightarrow> sackstack \<Rightarrow> sackstack" where
  "ss_push n st =
     (let cnt = (if ss_size st \<le> ss_cnt st then ss_size st - 1 else ss_cnt st)
      in st\<lparr>ss_cnt := cnt + 1,
            sfe := fold (\<lambda>i e. e[Suc i := e ! i]) (rev [n..<nat cnt]) (sfe st)\<rparr>)"

definition ss_pop :: "nat \<Rightarrow> sackstack \<Rightarrow> sackstack" where
  "ss_pop n st =
     (let last = nat (ss_cnt st - 1);
          e = fold (\<lambda>i e. e[i := e ! Suc i]) [n..<last] (sfe st)
      in st\<lparr>ss_cnt := ss_cnt st - 1, sfe := e[max n last := no_block]\<rparr>)"

definition ss_set_head :: "int \<Rightarrow> int \<Rightarrow> sackstack \<Rightarrow> sackstack" where
  "ss_set_head l r st = st\<lparr>sfe := (sfe st)[0 := (l, r)]\<rparr>"

subsection \<open>\<open>Sacker\<close>\<close>

record sacker = acker +
  base_nblocks :: int
  sf :: "sackstack option"

definition new_Sacker :: "sacker \<Rightarrow> sacker" where
  "new_Sacker a = (new_Acker a)\<lparr>base_nblocks := - 1, sf := None\<rparr>"

text \<open>\<open>configure\<close> limits the sink's \<open>maxSackBlocks_\<close> to \<open>NSA\<close>, as \<open>trace\<close> does when it changes.\<close>

definition sacker_set_nblocks :: "int \<Rightarrow> sacker \<Rightarrow> int \<times> sacker" where
  "sacker_set_nblocks nblocks a =
     (let nblocks = (if int NSA < nblocks then int NSA else nblocks)
      in (nblocks, a\<lparr>base_nblocks := nblocks, sf := Some (new_SackStack nblocks)\<rparr>))"

definition sacker_configure ::
  "(sacker, 'b) tcpsink_scheme \<Rightarrow> (sacker, 'b) tcpsink_scheme" where
  "sacker_configure s =
     (let (n, a) = sacker_set_nblocks (max_sack_blocks s) (acker_obj s)
      in s\<lparr>acker_obj := a, max_sack_blocks := n\<rparr>)"

definition sacker_trace ::
  "int \<Rightarrow> (sacker, 'b) tcpsink_scheme \<Rightarrow> (sacker, 'b) tcpsink_scheme" where
  "sacker_trace v s =
     (let (n, a) = sacker_set_nblocks v (acker_obj s)
      in s\<lparr>acker_obj := a, max_sack_blocks := n\<rparr>)"

text \<open>
  \<open>Sacker::reset\<close> hides \<open>Acker::reset\<close>, which is not virtual: \<open>TcpSink::reset\<close> calls
  \<open>acker_->reset()\<close> on an \<open>Acker*\<close> and reaches \<^const>\<open>acker_reset\<close>.
\<close>

definition sacker_reset :: "sacker \<Rightarrow> sacker res" where
  "sacker_reset a =
     (case sf a of
        None \<Rightarrow> Inl NullPointer
      | Some st \<Rightarrow> Inr (acker_reset (a\<lparr>sf := Some (ss_reset st)\<rparr>)))"

subsection \<open>\<open>Sacker::append_ack\<close>\<close>

text \<open>The search to the right for the first hole, and back to the left.\<close>

definition sack_right_of :: "'z acker_scheme \<Rightarrow> int \<Rightarrow> int" where
  "sack_right_of a old_seqno =
     (case find (\<lambda>i. seen_at a i = 0) [old_seqno .. maxseen a] of
        Some i \<Rightarrow> i | None \<Rightarrow> maxseen a + 1)"

definition sack_left_of :: "'z acker_scheme \<Rightarrow> int \<Rightarrow> int" where
  "sack_left_of a sack_right =
     (case find (\<lambda>i. seen_at a i = 0) (rev [Seqno a + 1 .. sack_right - 1]) of
        Some i \<Rightarrow> i + 1 | None \<Rightarrow> - 1)"

definition put_block :: "int \<Rightarrow> int \<times> int \<Rightarrow> tpkt \<Rightarrow> tpkt" where
  "put_block i b p = p\<lparr>sack_area := (sack_area p)[nat i := b]\<rparr>"

partial_function (option) history_loop ::
  "int \<Rightarrow> int \<Rightarrow> int \<Rightarrow> int \<Rightarrow> nat \<Rightarrow> int \<Rightarrow> sackstack \<Rightarrow> tpkt \<Rightarrow>
   (sackstack \<times> tpkt \<times> int) res option" where
  "history_loop nblocks mseen left right k sack_index st p =
     (if sack_index < nblocks
      then if fst (sfe st ! k) < 0 \<or> snd (sfe st ! k) < 0 \<or> mseen + 1 < snd (sfe st ! k)
           then Some (Inr (st, p, sack_index))
           else if left \<le> fst (sfe st ! k) \<and> snd (sfe st ! k) \<le> right
           then history_loop nblocks mseen left right k sack_index (ss_pop k st) p
           else history_loop nblocks mseen left right (Suc k) (sack_index + 1) st
                  (put_block sack_index (sfe st ! k) p)
      else Some (Inr (st, p, sack_index)))"

declare history_loop.simps [code]

definition sack_finish :: "sacker \<Rightarrow> tpkt \<Rightarrow> int \<Rightarrow> sacker \<times> tpkt" where
  "sack_finish a p sack_index =
     (a, p\<lparr>tp_size := tp_size p + sack_index * 8, sa_length := sack_index\<rparr>)"

definition sack_blocks ::
  "sacker \<Rightarrow> sackstack \<Rightarrow> int \<Rightarrow> tpkt \<Rightarrow> int \<Rightarrow> (sacker \<times> tpkt) res" where
  "sack_blocks a st old_seqno p sack_index =
     (let right = sack_right_of a old_seqno;
          left = (if old_seqno \<le> Seqno a then 0 else sack_left_of a right);
          (p, sack_index) = (if old_seqno \<le> Seqno a then (p, sack_index)
                             else (put_block sack_index (left, right) p, sack_index + 1))
      in res_bind
           (of_loop (history_loop (base_nblocks a) (maxseen a) left right 0 sack_index st p))
           (\<lambda>(st, p, sack_index).
              let st = (if Seqno a < old_seqno then ss_set_head left right (ss_push 0 st) else st)
              in Inr (sack_finish (a\<lparr>sf := Some st\<rparr>) p sack_index)))"

text \<open>\<open>sf_\<close> is null only before \<open>configure\<close>, while \<open>base_nblocks_\<close> is \<open>-1\<close>.\<close>

definition sacker_append_ack ::
  "bool \<Rightarrow> sacker \<Rightarrow> tpkt \<Rightarrow> int \<Rightarrow> (sacker \<times> tpkt) res" where
  "sacker_append_ack dsacks a p old_seqno =
     (if old_seqno < 0 then Inr (sack_finish a p 0)
      else case sf a of
        None \<Rightarrow> (if maxseen a \<le> Seqno a \<or> 0 < base_nblocks a then Inl NullPointer
                 else Inr (sack_finish a p 0))
      | Some st \<Rightarrow>
          if maxseen a \<le> Seqno a \<and> ss_cnt st \<noteq> 0
          then Inr (sack_finish (a\<lparr>sf := Some (ss_reset st)\<rparr>) p 0)
          else if (Seqno a < maxseen a \<or> is_dup a) \<and> 0 < base_nblocks a
          then let (p, sack_index) = (if dsacks \<and> is_dup a
                                      then (put_block 0 (old_seqno, old_seqno + 1) p, 1)
                                      else (p, 0))
               in if base_nblocks a \<le> sack_index then Inr (sack_finish a p sack_index)
                  else sack_blocks a st old_seqno p sack_index
          else Inr (sack_finish a p 0))"

subsection \<open>The stack as a list\<close>

lemma length_shift [simp]:
  "length (fold (\<lambda>i e. e[i := e ! Suc i]) is xs) = length xs"
  "length (fold (\<lambda>i e. e[Suc i := e ! i]) is xs) = length xs"
  "length (fold (\<lambda>i e. e[i := c]) is xs) = length xs"
  by (induction "is" arbitrary: xs) auto

lemma nth_shift_down:
  assumes "m \<le> n" "n < length xs"
  shows "fold (\<lambda>i e. e[i := e ! Suc i]) [m..<n] xs ! j =
         (if m \<le> j \<and> j < n then xs ! Suc j else xs ! j)"
  using assms
proof (induction n arbitrary: j)
  case (Suc n)
  show ?case
  proof (cases "m \<le> n")
    case True
    with Suc show ?thesis by (auto simp: nth_list_update less_Suc_eq)
  qed (use Suc.prems in auto)
qed simp

lemma nth_shift_up:
  assumes "n < length xs"
  shows "fold (\<lambda>i e. e[Suc i := e ! i]) (rev [0..<n]) xs ! j =
         (if 0 < j \<and> j \<le> n then xs ! (j - 1) else xs ! j)"
  using assms
proof (induction n arbitrary: xs)
  case (Suc n)
  then have "n < length (xs[Suc n := xs ! n])" by simp
  from Suc.IH [OF this] Suc.prems show ?case by (auto simp: nth_list_update le_Suc_eq)
qed auto

lemma nth_clear:
  assumes "n \<le> length xs" "j < length xs"
  shows "fold (\<lambda>i e. e[i := c]) [0..<n] xs ! j = (if j < n then c else xs ! j)"
  using assms by (induction n) (auto simp: nth_list_update less_Suc_eq)

text \<open>
  The elements from \<open>cnt_\<close> on hold no block; \<open>stack_all P\<close> says that the others satisfy \<open>P\<close>.
\<close>

definition stack_ok :: "sackstack \<Rightarrow> bool" where
  "stack_ok st \<longleftrightarrow>
     length (sfe st) = nat (ss_size st) \<and> 0 \<le> ss_cnt st \<and> ss_cnt st \<le> ss_size st \<and>
     (\<forall>j. nat (ss_cnt st) \<le> j \<and> j < length (sfe st) \<longrightarrow> sfe st ! j = no_block)"

definition stack_all :: "(int \<times> int \<Rightarrow> bool) \<Rightarrow> sackstack \<Rightarrow> bool" where
  "stack_all P st \<longleftrightarrow> (\<forall>j < nat (ss_cnt st). P (sfe st ! j))"

lemma stack_all_mono: "stack_all P st \<Longrightarrow> (\<And>b. P b \<Longrightarrow> Q b) \<Longrightarrow> stack_all Q st"
  by (simp add: stack_all_def)

lemma stack_new [simp]:
  "0 \<le> n \<Longrightarrow> stack_ok (new_SackStack n)" "stack_all P (new_SackStack n)"
  "ss_size (new_SackStack n) = n"
  by (auto simp: stack_ok_def stack_all_def new_SackStack_def)

lemma stack_reset:
  assumes "stack_ok st"
  shows "stack_ok (ss_reset st)" "stack_all P (ss_reset st)" "ss_size (ss_reset st) = ss_size st"
proof -
  have "nat (ss_cnt st) \<le> length (sfe st)" using assms by (auto simp: stack_ok_def)
  from nth_clear [OF this] show "stack_ok (ss_reset st)"
    using assms by (auto simp: stack_ok_def ss_reset_def)
qed (simp_all add: stack_all_def ss_reset_def)

lemma stack_pop:
  assumes ok: "stack_ok st" and k: "k < nat (ss_cnt st)"
  shows "stack_ok (ss_pop k st)" "stack_all P st \<Longrightarrow> stack_all P (ss_pop k st)"
    and "ss_size (ss_pop k st) = ss_size st" "ss_cnt (ss_pop k st) = ss_cnt st - 1"
proof -
  define m where "m = nat (ss_cnt st - 1)"
  have m: "k \<le> m" "m < length (sfe st)" "nat (ss_cnt st) = Suc m"
    using ok k by (auto simp: stack_ok_def m_def)
  have pop: "ss_pop k st = st\<lparr>ss_cnt := ss_cnt st - 1,
      sfe := (fold (\<lambda>i e. e[i := e ! Suc i]) [k..<m] (sfe st))[m := no_block]\<rparr>"
    using m(1) by (simp add: ss_pop_def Let_def m_def max_def)
  have at: "j < length (sfe st) \<Longrightarrow> sfe (ss_pop k st) ! j =
      (if j = m then no_block else if k \<le> j \<and> j < m then sfe st ! Suc j else sfe st ! j)" for j
    using nth_shift_down [OF m(1,2), of j] m(2) by (simp add: pop nth_list_update)
  show cnt: "ss_size (ss_pop k st) = ss_size st" "ss_cnt (ss_pop k st) = ss_cnt st - 1"
    by (simp_all add: pop)
  have len: "length (sfe (ss_pop k st)) = length (sfe st)" by (simp add: pop)
  show "stack_ok (ss_pop k st)"
    using ok m at unfolding stack_ok_def len cnt by (auto simp: m_def)
  show "stack_all P st \<Longrightarrow> stack_all P (ss_pop k st)"
    using m at unfolding stack_all_def cnt by (auto simp: m_def)
qed

text \<open>\<open>push\<close> followed by the two assignments through \<open>head_left()\<close> and \<open>head_right()\<close>.\<close>

lemma stack_push_head:
  fixes l r :: int
  assumes ok: "stack_ok st" and pos: "0 < ss_size st"
  defines "st' \<equiv> ss_set_head l r (ss_push 0 st)"
  shows "stack_ok st'" "stack_all P st \<Longrightarrow> P (l, r) \<Longrightarrow> stack_all P st'"
    and "ss_size st' = ss_size st"
proof -
  define c where "c = (if ss_size st \<le> ss_cnt st then ss_size st - 1 else ss_cnt st)"
  have c: "0 \<le> c" "c < ss_size st" "c \<le> ss_cnt st" "nat c < length (sfe st)"
    using ok pos by (auto simp: stack_ok_def c_def)
  have cnt: "ss_cnt st' = c + 1" and size: "ss_size st' = ss_size st"
    and len: "length (sfe st') = length (sfe st)"
    by (simp_all add: st'_def ss_set_head_def ss_push_def c_def Let_def)
  have at: "sfe st' ! j = (if j = 0 then (l, r) else if j \<le> nat c then sfe st ! (j - 1) else sfe st ! j)"
    for j
  proof -
    have "0 < length (sfe st)" using c(4) by (rule le_less_trans [OF le0])
    with nth_shift_up [OF c(4), of j] show ?thesis
      by (cases j) (simp_all add: st'_def ss_set_head_def ss_push_def c_def [symmetric] Let_def)
  qed
  show "ss_size st' = ss_size st" by (fact size)
  show "stack_ok st'"
    using ok c at unfolding stack_ok_def cnt size len
    by (auto simp: c_def split: if_splits)
  show "stack_all P st'" if "stack_all P st" "P (l, r)"
    using that c at unfolding stack_all_def cnt by auto
qed

subsection \<open>The blocks of an acknowledgement\<close>

text \<open>
  The state of the loop over the stack: the stack is well formed and the blocks in it, and the
  first \<open>sack_index\<close> blocks of the header, satisfy \<open>P\<close>.
\<close>

definition hist_ok ::
  "(int \<times> int \<Rightarrow> bool) \<Rightarrow> int \<Rightarrow> sackstack \<Rightarrow> tpkt \<Rightarrow> int \<Rightarrow> bool" where
  "hist_ok P nb st p i \<longleftrightarrow>
     stack_ok st \<and> ss_size st = nb \<and> stack_all P st \<and> length (sack_area p) = Suc NSA \<and>
     0 \<le> i \<and> i \<le> nb \<and> (\<forall>j < nat i. P (sack_area p ! j))"

lemma put_block_sel [simp]:
  "hdr_frame p (put_block i b p)" "length (sack_area (put_block i b p)) = length (sack_area p)"
  "sa_length (put_block i b p) = sa_length p" "tp_size (put_block i b p) = tp_size p"
proof -
  show "hdr_frame p (put_block i b p)"
    unfolding hdr_frame_def put_block_def
    by (rule exI [of _ "tp_size p"], rule exI [of _ "(sack_area p)[nat i := b]"],
        rule exI [of _ "sa_length p"]) simp
qed (simp_all add: put_block_def)

lemma hist_ok_put:
  assumes "hist_ok P nb st p i" "i < nb" "nb \<le> int NSA" "P b"
  shows "hist_ok P nb st (put_block i b p) (i + 1)"
proof -
  have i: "0 \<le> i" "nat i < length (sack_area p)" "nat (i + 1) = Suc (nat i)"
    using assms by (auto simp: hist_ok_def)
  then show ?thesis
    using assms by (auto simp: hist_ok_def put_block_def less_Suc_eq nth_list_update)
qed

lemma history_loop_ok:
  assumes "hist_ok P nb st p i" "nb \<le> int NSA" "int k \<le> i"
  shows "\<exists>st' p' i'. history_loop nb mx l r k i st p = Some (Inr (st', p', i')) \<and>
           hist_ok P nb st' p' i' \<and> i \<le> i' \<and> hdr_frame p p' \<and>
           (\<forall>j < nat i. sack_area p' ! j = sack_area p ! j)"
  using assms
proof (induction "nat (nb - i) + nat (ss_cnt st)" arbitrary: st p i k rule: less_induct)
  case less
  let ?b = "sfe st ! k"
  show ?case
  proof (cases "i < nb \<and> \<not> (fst ?b < 0 \<or> snd ?b < 0 \<or> mx + 1 < snd ?b)")
    case False
    then have "history_loop nb mx l r k i st p = Some (Inr (st, p, i))"
      by (subst history_loop.simps) auto
    with less.prems(1) show ?thesis
      by (intro exI [of _ st] exI [of _ p] exI [of _ i]) simp
  next
    case True
    have st: "stack_ok st" "ss_size st = nb" "stack_all P st" "0 \<le> i"
      using less.prems(1) by (simp_all add: hist_ok_def)
    have k: "k < nat (ss_cnt st)"
    proof (rule ccontr)
      assume "\<not> k < nat (ss_cnt st)"
      moreover have "k < length (sfe st)" using st less.prems(3) True by (auto simp: stack_ok_def)
      ultimately have "?b = no_block" using st(1) by (simp add: stack_ok_def)
      with True show False by simp
    qed
    show ?thesis
    proof (cases "l \<le> fst ?b \<and> snd ?b \<le> r")
      case cover: True
      have ok: "hist_ok P nb (ss_pop k st) p i"
        using less.prems(1) stack_pop [OF st(1) k] by (simp add: hist_ok_def)
      have dec: "nat (nb - i) + nat (ss_cnt (ss_pop k st)) < nat (nb - i) + nat (ss_cnt st)"
        using k by (simp add: stack_pop [OF st(1) k])
      have "history_loop nb mx l r k i st p = history_loop nb mx l r k i (ss_pop k st) p"
        using True cover by (subst history_loop.simps) simp
      then show ?thesis using less.hyps [OF dec ok less.prems(2,3)] by simp
    next
      case keep: False
      have "P ?b" using st(3) k by (simp add: stack_all_def)
      then have ok: "hist_ok P nb st (put_block i ?b p) (i + 1)"
        using hist_ok_put [OF less.prems(1)] True less.prems(2) by blast
      have dec: "nat (nb - (i + 1)) + nat (ss_cnt st) < nat (nb - i) + nat (ss_cnt st)"
        using True by simp
      have k': "int (Suc k) \<le> i + 1" using less.prems(3) by simp
      have "history_loop nb mx l r k i st p =
          history_loop nb mx l r (Suc k) (i + 1) st (put_block i ?b p)"
        using True keep by (subst history_loop.simps) auto
      moreover obtain st' p' i' where
        h: "history_loop nb mx l r (Suc k) (i + 1) st (put_block i ?b p) = Some (Inr (st', p', i'))"
          "hist_ok P nb st' p' i'" "i + 1 \<le> i'" "hdr_frame (put_block i ?b p) p'"
          "\<forall>j < nat (i + 1). sack_area p' ! j = sack_area (put_block i ?b p) ! j"
        using less.hyps [OF dec ok less.prems(2) k'] by blast
      moreover have "\<forall>j < nat i. sack_area p' ! j = sack_area p ! j"
        using h(5) by (simp add: put_block_def)
      moreover have "hdr_frame p p'" using hdr_frame_trans [OF _ h(4)] by simp
      ultimately show ?thesis by (intro exI [of _ st'] exI [of _ p'] exI [of _ i']) simp
    qed
  qed
qed

subsection \<open>Looking for the edges of a block\<close>

lemma find_upto_Some:
  "find P [m..n] = Some i \<Longrightarrow> m \<le> i \<and> i \<le> n \<and> P i \<and> (\<forall>j\<in>{m..<i}. \<not> P j)"
proof (induction m n rule: upto.induct)
  case (1 m n)
  show ?case
  proof (cases "m \<le> n \<and> \<not> P m")
    case True
    then have "find P [m + 1..n] = Some i" using "1.prems" by (subst (asm) upto.simps) simp
    with "1.IH" True have "m + 1 \<le> i \<and> i \<le> n \<and> P i \<and> (\<forall>j\<in>{m + 1..<i}. \<not> P j)" by blast
    moreover have "{m..<i} \<subseteq> insert m {m + 1..<i}" by auto
    ultimately show ?thesis using True by auto
  next
    case False
    with "1.prems" show ?thesis by (subst (asm) upto.simps) (auto split: if_splits)
  qed
qed

lemma find_rev_upto_Some:
  "find P (rev [m..n]) = Some i \<Longrightarrow> m \<le> i \<and> i \<le> n \<and> P i \<and> (\<forall>j\<in>{i<..n}. \<not> P j)"
proof (induction "nat (n - m + 1)" arbitrary: n)
  case (Suc k)
  then have le: "m \<le> n" by simp
  show ?case
  proof (cases "P n")
    case True
    with Suc.prems le show ?thesis by (auto simp: upto_rec2)
  next
    case False
    then have "find P (rev [m..n - 1]) = Some i" using Suc.prems le by (simp add: upto_rec2)
    moreover have "k = nat (n - 1 - m + 1)" using Suc.hyps(2) le by simp
    ultimately have "m \<le> i \<and> i \<le> n - 1 \<and> P i \<and> (\<forall>j\<in>{i<..n - 1}. \<not> P j)"
      using Suc.hyps(1) by blast
    moreover have "{i<..n} \<subseteq> insert n {i<..n - 1}" by auto
    ultimately show ?thesis using False by auto
  qed
qed simp

lemma sack_right_of_ok:
  assumes rep: "acker_rep a h" and old: "next_seq a \<le> old" "h old \<noteq> 0"
  defines "r \<equiv> sack_right_of a old"
  shows "old < r" "r \<le> maxseen a + 1" "\<forall>j\<in>{old..<r}. h j \<noteq> 0" "h r = 0"
proof -
  have at: "seen_at a j = h j" if "old \<le> j" "j \<le> maxseen a + 1" for j
    using rep old(1) that by (simp add: acker_rep_def acker_mid_def)
  have out: "h j = 0" if "maxseen a < j" for j
    using rep that by (simp add: acker_rep_def acker_mid_def)
  have le: "old \<le> maxseen a" using out [of old] old(2) by linarith
  have "old < r \<and> r \<le> maxseen a + 1 \<and> (\<forall>j\<in>{old..<r}. h j \<noteq> 0) \<and> h r = 0"
  proof (cases "find (\<lambda>i. seen_at a i = 0) [old .. maxseen a]")
    case None
    then have r: "r = maxseen a + 1" by (simp add: r_def sack_right_of_def)
    from None show ?thesis unfolding r using at out le by (auto simp: find_None_iff)
  next
    case (Some i)
    then have r: "r = i" by (simp add: r_def sack_right_of_def)
    from find_upto_Some [OF Some] at old show ?thesis
      unfolding r by (auto simp: order_le_less)
  qed
  then show "old < r" "r \<le> maxseen a + 1" "\<forall>j\<in>{old..<r}. h j \<noteq> 0" "h r = 0" by blast+
qed

lemma sack_left_of_ok:
  assumes rep: "acker_rep a h" and r: "next_seq a < r" "r \<le> maxseen a + 1"
  defines "l \<equiv> sack_left_of a r"
  shows "next_seq a < l" "l \<le> r" "\<forall>j\<in>{l..<r}. h j \<noteq> 0" "h (l - 1) = 0"
proof -
  have at: "seen_at a j = h j" if "next_seq a \<le> j" "j < r" for j
    using rep r that by (simp add: acker_rep_def acker_mid_def)
  have hole: "seen_at a (next_seq a) = 0"
    using at r(1) rep by (simp add: acker_rep_def)
  have "find (\<lambda>i. seen_at a i = 0) (rev [next_seq a .. r - 1]) \<noteq> None"
    using hole r(1) by (auto simp: find_None_iff)
  then obtain i where i: "find (\<lambda>i. seen_at a i = 0) (rev [next_seq a .. r - 1]) = Some i" by auto
  have l: "l = i + 1" using i by (simp add: l_def sack_left_of_def Seqno_def)
  from find_rev_upto_Some [OF i] at
  show "next_seq a < l" "l \<le> r" "\<forall>j\<in>{l..<r}. h j \<noteq> 0" "h (l - 1) = 0"
    unfolding l by auto
qed

text \<open>The new block is the longest run of received packets around the acknowledged one.\<close>

lemma sack_first_block:
  assumes rep: "acker_rep a h" and old: "next_seq a \<le> old" "h old \<noteq> 0"
  defines "r \<equiv> sack_right_of a old"
  defines "l \<equiv> sack_left_of a r"
  shows "block_got h (maxseen a) (l, r)" "l \<le> old" "old < r" "h (l - 1) = 0" "h r = 0"
    "next_seq a < l"
proof -
  note R = sack_right_of_ok [OF rep old, folded r_def]
  have nr: "next_seq a < r" using R(1) old(1) by simp
  note L = sack_left_of_ok [OF rep nr R(2), folded l_def]
  have pos: "0 \<le> next_seq a" using rep by (simp add: acker_rep_def acker_mid_def acker_win_def)
  show lo: "l \<le> old"
  proof (rule ccontr)
    assume "\<not> l \<le> old"
    then have "l - 1 \<in> {old..<r}" using L(2) by auto
    with R(3) L(4) show False by blast
  qed
  show "block_got h (maxseen a) (l, r)"
    using L R pos lo by (simp add: block_got_def)
  show "old < r" "h (l - 1) = 0" "h r = 0" "next_seq a < l" using R L by simp_all
qed

subsection \<open>\<open>append_ack\<close> keeps the contract\<close>

definition sack_ext_ok :: "int \<Rightarrow> sacker \<Rightarrow> (int \<Rightarrow> int) \<Rightarrow> bool" where
  "sack_ext_ok nb a h \<longleftrightarrow>
     base_nblocks a = nb \<and> 0 \<le> base_nblocks a \<and> base_nblocks a \<le> int NSA \<and>
     (\<exists>st. sf a = Some st \<and> stack_ok st \<and> ss_size st = base_nblocks a \<and>
           stack_all (block_got h (maxseen a)) st)"

lemma sack_finish_ok:
  assumes "hist_ok (block_got h mx) nb st p i" "nb \<le> int NSA" "hdr_frame q p"
  shows "\<exists>p'. sack_finish a p i = (a, p') \<and> hdr_frame q p' \<and> sacks_ok h mx p' \<and>
           sack_area p' = sack_area p \<and> sa_length p' = i"
proof -
  let ?p = "p\<lparr>tp_size := tp_size p + i * 8, sa_length := i\<rparr>"
  have "hdr_frame p ?p"
    unfolding hdr_frame_def
    by (rule exI [of _ "tp_size p + i * 8"], rule exI [of _ "sack_area p"], rule exI [of _ i]) simp
  moreover have "sacks_ok h mx ?p"
    using assms(1,2) unfolding hist_ok_def sacks_ok_def by auto
  ultimately show ?thesis
    using hdr_frame_trans [OF assms(3)] by (auto simp: sack_finish_def)
qed

lemma hist_ok_start:
  "stack_ok st \<Longrightarrow> ss_size st = nb \<Longrightarrow> stack_all P st \<Longrightarrow> length (sack_area p) = Suc NSA \<Longrightarrow>
   0 \<le> nb \<Longrightarrow> hist_ok P nb st p 0"
  by (simp add: hist_ok_def)

lemma sack_blocks_ok:
  assumes rep: "acker_rep a h" and hist: "hist_ok (block_got h (maxseen a)) (base_nblocks a) st p i"
    and i: "i < base_nblocks a" "base_nblocks a \<le> int NSA"
    and old: "h old \<noteq> 0" and fr: "hdr_frame q p"
  shows "\<exists>b p'. sack_blocks a st old p i = Inr (b, p') \<and> same_core a b \<and> sack_ext_ok (base_nblocks a) b h \<and>
           hdr_frame q p' \<and> sacks_ok h (maxseen a) p' \<and>
           (Seqno a < old \<longrightarrow> i < sa_length p' \<and>
              sack_area p' ! nat i = (sack_left_of a (sack_right_of a old), sack_right_of a old))"
proof -
  let ?P = "block_got h (maxseen a)"
  let ?r = "sack_right_of a old"
  let ?l = "if old \<le> Seqno a then 0 else sack_left_of a ?r"
  let ?p = "if old \<le> Seqno a then p else put_block i (?l, ?r) p"
  let ?i = "if old \<le> Seqno a then i else i + 1"
  have blk: "?P (?l, ?r)" if "Seqno a < old"
    using sack_first_block(1) [OF rep _ old] that by (simp add: Seqno_def)
  have h1: "hist_ok ?P (base_nblocks a) st ?p ?i"
    using hist hist_ok_put [OF hist i] blk by auto
  have i0: "int 0 \<le> ?i" using h1 by (simp add: hist_ok_def)
  obtain st' p' i' where
    L: "history_loop (base_nblocks a) (maxseen a) ?l ?r 0 ?i st ?p = Some (Inr (st', p', i'))"
      "hist_ok ?P (base_nblocks a) st' p' i'" "hdr_frame ?p p'" "?i \<le> i'"
      "\<forall>j < nat ?i. sack_area p' ! j = sack_area ?p ! j"
    using history_loop_ok [OF h1 i(2) i0] by blast
  define st2 where "st2 = (if Seqno a < old then ss_set_head ?l ?r (ss_push 0 st') else st')"
  have st': "stack_ok st'" "ss_size st' = base_nblocks a" "stack_all ?P st'"
    using L(2) by (simp_all add: hist_ok_def)
  have pos: "0 < ss_size st'" using st'(2) i(1) hist by (simp add: hist_ok_def)
  have st2: "stack_ok st2" "ss_size st2 = base_nblocks a" "stack_all ?P st2"
  proof -
    have "stack_ok st2 \<and> ss_size st2 = base_nblocks a \<and> stack_all ?P st2"
    proof (cases "Seqno a < old")
      case True
      note push = stack_push_head [OF st'(1) pos, where l = ?l and r = ?r]
      from push(1,3) push(2) [OF st'(3) blk [OF True]] True st'(2) show ?thesis
        unfolding st2_def by (simp only: if_True)
    qed (use st' in \<open>simp add: st2_def\<close>)
    then show "stack_ok st2" "ss_size st2 = base_nblocks a" "stack_all ?P st2" by blast+
  qed
  have "hdr_frame p ?p" by simp
  then have "hdr_frame q p'" using fr L(3) hdr_frame_trans by metis
  from sack_finish_ok [OF L(2) i(2) this]
  obtain p2 where p2: "sack_finish (a\<lparr>sf := Some st2\<rparr>) p' i' = (a\<lparr>sf := Some st2\<rparr>, p2)"
    "hdr_frame q p2" "sacks_ok h (maxseen a) p2" "sack_area p2 = sack_area p'" "sa_length p2 = i'"
    by blast
  have first: "i < i' \<and> sack_area p' ! nat i = (?l, ?r)" if "Seqno a < old"
  proof -
    have "nat i < nat ?i" "nat i < length (sack_area p)"
      using that hist i by (auto simp: hist_ok_def)
    with L(4,5) that show ?thesis by (auto simp: put_block_def)
  qed
  have "sack_blocks a st old p i = Inr (sack_finish (a\<lparr>sf := Some st2\<rparr>) p' i')"
    using L(1) by (auto simp: sack_blocks_def Let_def st2_def)
  moreover have "sack_ext_ok (base_nblocks a) (a\<lparr>sf := Some st2\<rparr>) h"
    using st2 i pos st'(2) by (simp add: sack_ext_ok_def)
  ultimately show ?thesis
    using p2 first
    by (intro exI [of _ "a\<lparr>sf := Some st2\<rparr>"] exI [of _ p2]) (simp add: same_core_def)
qed

lemma sacker_append_ack_ok:
  assumes rep: "acker_rep a h" and ext: "sack_ext_ok (base_nblocks a) a h" and old: "0 \<le> old" "h old \<noteq> 0"
    and p: "sa_length p = 0" "length (sack_area p) = Suc NSA"
  shows "\<exists>b p'. sacker_append_ack d a p old = Inr (b, p') \<and> same_core a b \<and> sack_ext_ok (base_nblocks a) b h \<and>
           hdr_frame p p' \<and> sacks_ok h (maxseen a) p'"
proof -
  let ?P = "block_got h (maxseen a)" and ?nb = "base_nblocks a"
  obtain st where st: "sf a = Some st" "stack_ok st" "ss_size st = ?nb" "stack_all ?P st"
    and nb: "0 \<le> ?nb" "?nb \<le> int NSA" using ext by (auto simp: sack_ext_ok_def)
  have le: "old \<le> maxseen a"
    using rep old(2) by (force simp: acker_rep_def acker_mid_def)
  have start: "hist_ok ?P ?nb st p 0" using hist_ok_start st p nb by blast
  have stop: ?thesis if "sacker_append_ack d a p old = Inr (sack_finish b p 0)"
    "same_core a b" "sack_ext_ok (base_nblocks a) b h" for b
    using sack_finish_ok [OF start nb(2) hdr_frame_refl, of b] that by auto
  consider (reset) "maxseen a \<le> Seqno a" "ss_cnt st \<noteq> 0"
    | (blocks) "\<not> (maxseen a \<le> Seqno a \<and> ss_cnt st \<noteq> 0)"
        "(Seqno a < maxseen a \<or> is_dup a) \<and> 0 < ?nb"
    | (none) "\<not> (maxseen a \<le> Seqno a \<and> ss_cnt st \<noteq> 0)"
        "\<not> ((Seqno a < maxseen a \<or> is_dup a) \<and> 0 < ?nb)" by blast
  then show ?thesis
  proof cases
    case reset
    have "sack_ext_ok (base_nblocks a) (a\<lparr>sf := Some (ss_reset st)\<rparr>) h"
      using stack_reset [OF st(2)] st nb by (simp add: sack_ext_ok_def)
    then show ?thesis
      using reset st(1) old by (intro stop [of "a\<lparr>sf := Some (ss_reset st)\<rparr>"])
        (simp_all add: sacker_append_ack_def same_core_def)
  next
    case none
    then show ?thesis
      using st(1) old ext by (intro stop [of a])
        (auto simp: sacker_append_ack_def same_core_def)
  next
    case blocks
    define q where "q = (if d \<and> is_dup a then put_block 0 (old, old + 1) p else p)"
    define i :: int where "i = (if d \<and> is_dup a then 1 else 0)"
    have "?P (old, old + 1)" using old le by (auto simp: block_got_def order_le_less)
    then have "hist_ok ?P ?nb st (put_block 0 (old, old + 1) p) (0 + 1)"
      using hist_ok_put [OF start] blocks nb by blast
    then have hist: "hist_ok ?P ?nb st q i"
      using start by (simp add: q_def i_def)
    have fr: "hdr_frame p q" by (simp add: q_def)
    have app: "sacker_append_ack d a p old =
        (if ?nb \<le> i then Inr (sack_finish a q i) else sack_blocks a st old q i)"
      using blocks st(1) old by (auto simp: sacker_append_ack_def q_def i_def)
    show ?thesis
    proof (cases "?nb \<le> i")
      case True
      then show ?thesis
        using app sack_finish_ok [OF hist nb(2) fr, of a] ext by (auto simp: same_core_def)
    next
      case False
      then show ?thesis using app sack_blocks_ok [OF rep hist _ nb(2) old(2) fr] by auto
    qed
  qed
qed

text \<open>The first block reported for a packet that is new and not in order.\<close>

lemma sacker_append_ack_first:
  assumes rep: "acker_rep a h" and ext: "sack_ext_ok nb a h" and pos: "0 < base_nblocks a"
    and old: "next_seq a \<le> old" "h old \<noteq> 0" "\<not> is_dup a" and p: "length (sack_area p) = Suc NSA"
    and app: "sacker_append_ack d a p old = Inr (b, p')"
  shows "0 < sa_length p' \<and>
         sack_area p' ! 0 = (sack_left_of a (sack_right_of a old), sack_right_of a old)"
proof -
  obtain st where st: "sf a = Some st" "stack_ok st" "ss_size st = base_nblocks a"
    "stack_all (block_got h (maxseen a)) st" and nb: "base_nblocks a \<le> int NSA"
    using ext by (auto simp: sack_ext_ok_def)
  have le: "old \<le> maxseen a" "0 \<le> old"
    using rep old by (force simp: acker_rep_def acker_mid_def acker_win_def)+
  then have below: "Seqno a < maxseen a" "Seqno a < old" using old(1) by (simp_all add: Seqno_def)
  have "sacker_append_ack d a p old = sack_blocks a st old p 0"
    using below le st(1) old(3) pos by (simp add: sacker_append_ack_def)
  moreover have "hist_ok (block_got h (maxseen a)) (base_nblocks a) st p 0"
    using hist_ok_start st p pos by simp
  ultimately show ?thesis
    using sack_blocks_ok [OF rep _ pos nb old(2) hdr_frame_refl] app below(2) by fastforce
qed

lemma sacker_more_eq:
  fixes a b :: sacker
  assumes "acker.more b = acker.more a"
  shows "sf b = sf a \<and> base_nblocks b = base_nblocks a"
  by (insert assms, rule sacker.cases [of a], rule sacker.cases [of b], hypsubst)
    (simp only: acker.select_convs sacker.select_convs sacker.ext_inject)

interpretation sack_acker: sink_acker sacker_append_ack "sack_ext_ok nb" for nb
proof
  fix a b :: sacker and h q n
  assume ext: "sack_ext_ok nb a h" and upd: "update_spec q n a h b" and n: "n \<noteq> 0"
  have "acker.more b = acker.more a" using upd by (simp add: update_spec_def same_rest_def)
  then have same: "sf b = sf a" "base_nblocks b = base_nblocks a"
    using sacker_more_eq by blast+
  have mx: "maxseen a \<le> maxseen b" using upd by (simp add: update_spec_def)
  obtain st where "sf a = Some st" "stack_ok st" "ss_size st = base_nblocks a"
    and all: "stack_all (block_got h (maxseen a)) st" using ext by (auto simp: sack_ext_ok_def)
  moreover have "stack_all (block_got (receive q n a h) (maxseen b)) st"
    using all by (rule stack_all_mono) (rule block_got_mono [OF _ mx receive_keeps [OF _ n]])
  ultimately show "sack_ext_ok nb b (receive q n a h)"
    using ext same by (simp add: sack_ext_ok_def)
next
  fix a :: sacker and h :: "int \<Rightarrow> int" and old :: int and p :: tpkt and d
  assume rep: "acker_rep a h" and ext: "sack_ext_ok nb a h"
    and rest: "0 \<le> old" "h old \<noteq> 0" "sa_length p = 0" "length (sack_area p) = Suc NSA"
  have nb: "base_nblocks a = nb" using ext by (simp add: sack_ext_ok_def)
  from sacker_append_ack_ok [OF rep _ rest, of d, unfolded nb] ext
  show "\<exists>b p'. sacker_append_ack d a p old = Inr (b, p') \<and> same_core a b \<and>
          sack_ext_ok nb b h \<and> hdr_frame p p' \<and> sacks_ok h (maxseen a) p'" by blast
qed (simp_all add: sack_ext_ok_def)

end
