(* ===== verification/Tcp_Receiver.thy ===== *)
theory Tcp_Receiver
  imports Tcp_Sack
begin

section \<open>A sink receiving packets\<close>

text \<open>
  What \<open>TcpSink\<close> and \<open>DelAckSink\<close> do with a packet, proved in the locale of the \<open>Acker\<close> contract
  and so for both kinds of \<open>Acker\<close>. \<open>sink_rep\<close> relates the state of a sink to the bytes received
  of each packet: the application has been given every byte of the packets below \<open>next_\<close>, once,
  and no acknowledgement names a packet that has not arrived. Both are counted from the last
  \<open>reset\<close>, at which \<open>bytes_\<close> was \<open>c\<close> and \<open>k\<close> acknowledgements had been sent.
\<close>

definition tpkt_ok :: "tpkt \<Rightarrow> bool" where
  "tpkt_ok p \<longleftrightarrow> 0 \<le> tp_seqno p \<and> tp_seqno p < 2 ^ 30 - 2 \<and> 0 < tp_size p"

definition ack_got :: "(int \<Rightarrow> int) \<Rightarrow> int \<Rightarrow> tpkt \<Rightarrow> bool" where
  "ack_got h mx p \<longleftrightarrow> (\<forall>i. 0 \<le> i \<and> i \<le> tp_seqno p \<longrightarrow> h i \<noteq> 0) \<and> sacks_ok h mx p"

definition sink_got :: "int \<Rightarrow> nat \<Rightarrow> (int \<Rightarrow> int) \<Rightarrow> ('z, 'b) sink \<Rightarrow> bool" where
  "sink_got c k h s \<longleftrightarrow>
     sink_bytes s = int32_of (c + (\<Sum>i\<in>{0..<next_seq (acker_obj s)}. h i)) \<and> k \<le> length (acks_sent s) \<and>
     (\<forall>p\<in>set (drop k (acks_sent s)). ack_got h (maxseen (acker_obj s)) p)"

abbreviation sink_receive ::
  "tpkt \<Rightarrow> ('z, 'b) sink \<Rightarrow> (int \<Rightarrow> int) \<Rightarrow> int \<Rightarrow> int" where
  "sink_receive p s \<equiv> receive (tp_seqno p) (tp_size p) (acker_obj s)"

lemma int32_of_tpkt [simp]: "tpkt_ok p \<Longrightarrow> int32_of (tp_seqno p) = tp_seqno p"
  by (rule int32_of_id) (auto simp: tpkt_ok_def)

lemma receive_here:
  assumes "acker_rep a h" "tpkt_ok p"
  shows "receive (tp_seqno p) (tp_size p) a h (tp_seqno p) \<noteq> 0"
  using assms by (auto simp: receive_def tpkt_ok_def acker_rep_def acker_mid_def)

lemma ack_got_mono:
  assumes "ack_got h mx p" "mx \<le> mx'" "\<And>j. h j \<noteq> 0 \<Longrightarrow> h' j \<noteq> 0"
  shows "ack_got h' mx' p"
  using assms sacks_ok_mono [of h mx p mx' h'] by (auto simp: ack_got_def)

lemma update_ts_sel [simp]:
  "next_seq (update_ts q t f a) = next_seq a" "maxseen (update_ts q t f a) = maxseen a"
  "acker_rep (update_ts q t f a) h = acker_rep a h"
  by (simp_all add: update_ts_def)

lemma receive_update_ts [simp]: "receive q n (update_ts r t f a) h = receive q n a h"
  by (simp add: receive_def)

lemma update_spec_new_top:
  "update_spec q n (update_ts r t f a) h b \<Longrightarrow> maxseen a \<le> maxseen b \<and> next_seq a \<le> next_seq b"
  by (simp add: update_spec_def)

lemma sink_deliver_sel [simp]:
  "acker_obj (sink_deliver n s) = acker_obj s" "acks_sent (sink_deliver n s) = acks_sent s"
  "save (sink_deliver n s) = save s" "lastreset (sink_deliver n s) = lastreset s"
  "tcpsink.more (sink_deliver n s) = tcpsink.more s"
  by (simp_all add: sink_deliver_def)

lemma sink_deliver_bytes:
  "sink_bytes s = int32_of x \<Longrightarrow> sink_bytes (sink_deliver (int32_of y) s) = int32_of (x + y)"
  using int32_of_add(2) [of x y] by (cases "int32_of y = 0") (simp_all add: sink_deliver_def)

text \<open>The bytes delivered so far and the ones a packet releases.\<close>

lemma sum_deliver:
  assumes rep: "acker_rep a h" and le: "next_seq a \<le> m"
  shows "(\<Sum>i\<in>{0..<next_seq a}. h i) + (\<Sum>i\<in>{next_seq a..<m}. receive q n a h i) =
         (\<Sum>i\<in>{0..<m}. receive q n a h i)"
proof -
  have nn: "0 \<le> next_seq a" using rep by (simp add: acker_rep_def acker_mid_def acker_win_def)
  have "(\<Sum>i\<in>{0..<next_seq a}. h i) = (\<Sum>i\<in>{0..<next_seq a}. receive q n a h i)"
    by (rule sum.cong) (auto simp: receive_def)
  moreover have "{0..<m} = {0..<next_seq a} \<union> {next_seq a..<m}" using nn le by auto
  ultimately show ?thesis by (simp add: sum.union_disjoint)
qed

lemma receive_iff:
  assumes "acker_rep a h" "tpkt_ok p"
  shows "receive (tp_seqno p) (tp_size p) a h i \<noteq> 0 \<longleftrightarrow> h i \<noteq> 0 \<or> i = tp_seqno p"
  using receive_here [OF assms] assms(2)
  by (cases "i = tp_seqno p") (auto simp: receive_def tpkt_ok_def)

lemma receive_size:
  assumes "\<forall>i. h i \<noteq> 0 \<longrightarrow> h i = f i" "receive q (f q) a h i \<noteq> 0"
  shows "receive q (f q) a h i = f i"
  using assms by (auto simp: receive_def split: if_splits)

text \<open>A sink that is given packets one after the other.\<close>

fun sink_run ::
  "'z appender \<Rightarrow> (time \<times> tpkt) list \<Rightarrow> ('z, 'b) sink \<Rightarrow> ('z, 'b) sink res" where
  "sink_run append_ack [] s = Inr s"
| "sink_run append_ack ((now, p) # ps) s =
     res_bind (sink_recv append_ack now p s) (sink_run append_ack ps)"

definition arrived :: "(time \<times> tpkt) list \<Rightarrow> int set" where
  "arrived ps = (tp_seqno \<circ> snd) ` set ps"

definition arrivals_ok :: "time \<Rightarrow> (time \<times> tpkt) list \<Rightarrow> bool" where
  "arrivals_ok t ps \<longleftrightarrow> (\<forall>(now, p)\<in>set ps. tpkt_ok p \<and> t \<le> tp_ts p)"

definition sink_frame :: "('a, 'b) tcpsink_scheme \<Rightarrow> ('a, 'b) tcpsink_scheme \<Rightarrow> bool" where
  "sink_frame s s' \<longleftrightarrow>
     save s' = save s \<and> lastreset s' = lastreset s \<and> generate_dsacks s' = generate_dsacks s \<and>
     tcpsink.more s' = tcpsink.more s"

definition sink_rep ::
  "('z acker_scheme \<Rightarrow> (int \<Rightarrow> int) \<Rightarrow> bool) \<Rightarrow> int \<Rightarrow> nat \<Rightarrow> (int \<Rightarrow> int) \<Rightarrow>
   ('z, 'b) sink \<Rightarrow> bool" where
  "sink_rep ext_ok c k h s \<longleftrightarrow>
     acker_rep (acker_obj s) h \<and> ext_ok (acker_obj s) h \<and> sink_got c k h s"

context sink_acker
begin

lemma ext_update_ts: "ext_ok (update_ts q t f a) h = ext_ok a h"
  by (simp add: update_ts_def ext_frame)

lemma sink_accept_ok:
  assumes rep: "sink_rep ext_ok c k h s" and p: "tpkt_ok p"
  shows "\<exists>s'. sink_accept p s = Inr s' \<and> sink_rep ext_ok c k (sink_receive p s h) s' \<and> sink_frame s s' \<and>
           acks_sent s' = acks_sent s \<and> maxseen (acker_obj s') = max (maxseen (acker_obj s)) (tp_seqno p) \<and>
           is_dup (acker_obj s') = (tp_seqno p < next_seq (acker_obj s) \<or> h (tp_seqno p) \<noteq> 0)"
proof -
  let ?q = "tp_seqno p" and ?n = "tp_size p" and ?a = "acker_obj s"
  let ?b = "update_ts ?q (tp_ts p) (ts_echo_rfc1323 s) ?a"
  have a: "acker_rep ?a h" "ext_ok ?a h" and got: "sink_got c k h s"
    using rep by (simp_all add: sink_rep_def)
  have nn: "0 \<le> next_seq ?a" using a(1) by (simp add: acker_rep_def acker_mid_def acker_win_def)
  have n: "?n \<noteq> 0" using p by (simp add: tpkt_ok_def)
  have b: "acker_rep ?b h" "?q + 1 - next_seq ?b < 2 ^ 30 - 1"
    using a p nn by (simp_all add: tpkt_ok_def)
  obtain d where d: "acker_update ?q ?n ?b =
      Inr (int32_of (\<Sum>i\<in>{next_seq ?a..<next_seq d}. receive ?q ?n ?a h i), d)" "update_spec ?q ?n ?b h d"
    using acker_update_ok [OF b, of ?n] by auto
  let ?m = "\<Sum>i\<in>{next_seq ?a..<next_seq d}. receive ?q ?n ?a h i"
  let ?s = "sink_deliver (int32_of ?m) (s\<lparr>acker_obj := d\<rparr>)"
  have top: "maxseen ?a \<le> maxseen d" "next_seq ?a \<le> next_seq d"
    using update_spec_new_top [OF d(2)] by simp_all
  have "acker_rep d (receive ?q ?n ?a h)" using d(2) by (simp add: update_spec_def)
  moreover have "ext_ok d (receive ?q ?n ?a h)"
    using ext_update [OF _ d(2) n] a(2) by (simp add: ext_update_ts)
  moreover have "\<forall>p\<in>set (drop k (acks_sent s)). ack_got (receive ?q ?n ?a h) (maxseen d) p"
    using got by (auto simp: sink_got_def intro: ack_got_mono [OF _ top(1) receive_keeps [OF _ n]])
  moreover have "sink_bytes ?s = int32_of (c + (\<Sum>i\<in>{0..<next_seq d}. receive ?q ?n ?a h i))"
  proof -
    have "sink_bytes ?s = int32_of (c + (\<Sum>i\<in>{0..<next_seq ?a}. h i) + ?m)"
      using got by (intro sink_deliver_bytes) (simp add: sink_got_def)
    then show ?thesis using sum_deliver [OF a(1) top(2), of ?q ?n] by (simp add: add.assoc)
  qed
  ultimately have "sink_rep ext_ok c k (receive ?q ?n ?a h) ?s"
    using got by (simp add: sink_rep_def sink_got_def)
  moreover have "sink_accept p s = Inr ?s"
    using d(1) p by (simp add: sink_accept_def Let_def)
  moreover have "sink_frame s ?s" by (simp add: sink_frame_def sink_deliver_def)
  ultimately show ?thesis using d(2) by (auto simp: update_spec_def)
qed

text \<open>Sending an acknowledgement for a packet that has been received.\<close>

lemma ack_ecn_acker_ok:
  "acker_rep (ack_ecn_acker s p) h = acker_rep (acker_obj s) h"
  "ext_ok (ack_ecn_acker s p) h = ext_ok (acker_obj s) h"
  "next_seq (ack_ecn_acker s p) = next_seq (acker_obj s)"
  "maxseen (ack_ecn_acker s p) = maxseen (acker_obj s)"
  by (simp_all add: ack_ecn_acker_def Let_def update_ecn_unacked_def ext_frame)

lemma sink_ack_ok:
  assumes rep: "sink_rep ext_ok c k h s" and p: "tpkt_ok p" "h (tp_seqno p) \<noteq> 0"
  shows "\<exists>s' q. sink_ack append_ack now p s = Inr s' \<and> sink_rep ext_ok c k h s' \<and> sink_frame s s' \<and>
           acks_sent s' = acks_sent s @ [q] \<and> tp_seqno q = Seqno (acker_obj s) \<and>
           next_seq (acker_obj s') = next_seq (acker_obj s) \<and>
           maxseen (acker_obj s') = maxseen (acker_obj s) \<and> sink_bytes s' = sink_bytes s \<and> tp_ts q = now"
proof -
  let ?a = "ack_ecn_acker s p"
  let ?n = "ack_ecn_pkt s ?a p (ack_header now s p (ack_quickstart s p (sink_allocpkt s)))"
  have a: "acker_rep ?a h" "ext_ok ?a h"
    using rep by (simp_all add: sink_rep_def ack_ecn_acker_ok)
  have n: "sa_length ?n = 0" "length (sack_area ?n) = Suc NSA" "tp_seqno ?n = Seqno (acker_obj s)"
    "tp_ts ?n = now"
    by (simp_all add: ack_ecn_pkt_def ack_header_def ack_quickstart_def sink_allocpkt_def Let_def)
  have pos: "0 \<le> tp_seqno p" using p by (simp add: tpkt_ok_def)
  obtain b q where b: "append_ack (generate_dsacks s) ?a ?n (tp_seqno p) = Inr (b, q)"
    "same_core ?a b" "ext_ok b h" "hdr_frame ?n q" "sacks_ok h (maxseen ?a) q"
    using append_ok [OF a pos p(2) n(1,2)] by blast
  let ?b = "b\<lparr>last_ack_sent := int32_of (tp_seqno q)\<rparr>"
  let ?s = "s\<lparr>acker_obj := ?b, acks_sent := acks_sent s @ [q]\<rparr>"
  have core: "next_seq b = next_seq (acker_obj s)" "maxseen b = maxseen (acker_obj s)"
    using b(2) by (simp_all add: same_core_def ack_ecn_acker_ok)
  have q: "tp_seqno q = Seqno (acker_obj s)" "tp_ts q = now" using hdr_frame_sel(1,2) [OF b(4)] n(3,4) by simp_all
  have "ack_got h (maxseen b) q"
    using b(5) a(1) q core
    by (auto simp: ack_got_def Seqno_def ack_ecn_acker_ok acker_rep_def acker_mid_def)
  then have "sink_got c k h ?s"
    using rep core by (auto simp: sink_rep_def sink_got_def)
  moreover have "acker_rep ?b h" "ext_ok ?b h"
    using same_core_rep [OF b(2)] a(1) b(3) by (simp_all add: ext_frame)
  ultimately have "sink_rep ext_ok c k h ?s" by (simp add: sink_rep_def)
  moreover have "sink_ack append_ack now p s = Inr ?s"
    using b(1) p by (simp add: sink_ack_def Let_def)
  ultimately show ?thesis
    using q core by (intro exI [of _ ?s] exI [of _ q]) (simp add: sink_frame_def)
qed

lemma sink_recv_ok:
  assumes rep: "sink_rep ext_ok c k h s" and p: "tpkt_ok p" "lastreset s \<le> tp_ts p"
  shows "\<exists>s' q. sink_recv append_ack now p s = Inr s' \<and>
           sink_rep ext_ok c k (sink_receive p s h) s' \<and> sink_frame s s' \<and>
           acks_sent s' = acks_sent s @ [q] \<and> tp_seqno q = Seqno (acker_obj s') \<and> tp_ts q = now"
proof -
  obtain t where t: "sink_accept p s = Inr t" "sink_rep ext_ok c k (sink_receive p s h) t"
    "sink_frame s t" "acks_sent t = acks_sent s"
    using sink_accept_ok [OF rep p(1)] by blast
  have "sink_receive p s h (tp_seqno p) \<noteq> 0"
    using rep p(1) by (intro receive_here) (simp_all add: sink_rep_def)
  from sink_ack_ok [OF t(2) p(1) this, of now] obtain u q where
    u: "sink_ack append_ack now p t = Inr u" "sink_rep ext_ok c k (sink_receive p s h) u"
      "sink_frame t u" "acks_sent u = acks_sent t @ [q]" "tp_seqno q = Seqno (acker_obj t)"
      "next_seq (acker_obj u) = next_seq (acker_obj t)" "tp_ts q = now" by blast
  have "sink_recv append_ack now p s = Inr u"
    using t(1) u(1) p(2) by (simp add: sink_recv_def)
  moreover have "sink_frame s u" using t(3) u(3) by (simp add: sink_frame_def)
  ultimately show ?thesis using u t(4) by (intro exI [of _ u] exI [of _ q]) (simp add: Seqno_def)
qed

lemma sink_run_ok:
  assumes "sink_rep ext_ok c k h s" "arrivals_ok (lastreset s) ps"
  shows "\<exists>s' h'. sink_run append_ack ps s = Inr s' \<and> sink_rep ext_ok c k h' s' \<and>
           (\<forall>i. h' i \<noteq> 0 \<longleftrightarrow> h i \<noteq> 0 \<or> i \<in> arrived ps) \<and>
           (\<forall>f. (\<forall>i. h i \<noteq> 0 \<longrightarrow> h i = f i) \<longrightarrow> (\<forall>(now, p)\<in>set ps. tp_size p = f (tp_seqno p)) \<longrightarrow>
                (\<forall>i. h' i \<noteq> 0 \<longrightarrow> h' i = f i)) \<and>
           length (acks_sent s') = length (acks_sent s) + length ps \<and> lastreset s' = lastreset s \<and>
           (ps \<noteq> [] \<longrightarrow> tp_seqno (last (acks_sent s')) = Seqno (acker_obj s'))"
  using assms
proof (induction ps arbitrary: s h)
  case Nil
  then show ?case by (intro exI [of _ s] exI [of _ h]) (simp add: arrived_def)
next
  case (Cons np ps)
  obtain now p where np: "np = (now, p)" by fastforce
  have p: "tpkt_ok p" "lastreset s \<le> tp_ts p" using Cons.prems(2) np by (simp_all add: arrivals_ok_def)
  let ?h = "sink_receive p s h"
  obtain t q where t: "sink_recv append_ack now p s = Inr t" "sink_rep ext_ok c k ?h t" "sink_frame s t"
    "acks_sent t = acks_sent s @ [q]" "tp_seqno q = Seqno (acker_obj t)"
    using sink_recv_ok [OF Cons.prems(1) p, of now] by blast
  have "arrivals_ok (lastreset t) ps"
    using Cons.prems(2) t(3) by (simp add: arrivals_ok_def sink_frame_def)
  from Cons.IH [OF t(2) this] obtain s' h' where
    r: "sink_run append_ack ps t = Inr s'" "sink_rep ext_ok c k h' s'"
      "\<forall>i. h' i \<noteq> 0 \<longleftrightarrow> ?h i \<noteq> 0 \<or> i \<in> arrived ps"
      "\<forall>f. (\<forall>i. ?h i \<noteq> 0 \<longrightarrow> ?h i = f i) \<longrightarrow> (\<forall>(now, p)\<in>set ps. tp_size p = f (tp_seqno p)) \<longrightarrow>
           (\<forall>i. h' i \<noteq> 0 \<longrightarrow> h' i = f i)"
      "length (acks_sent s') = length (acks_sent t) + length ps" "lastreset s' = lastreset t"
      "ps \<noteq> [] \<longrightarrow> tp_seqno (last (acks_sent s')) = Seqno (acker_obj s')" by blast
  have rep: "acker_rep (acker_obj s) h" using Cons.prems(1) by (simp add: sink_rep_def)
  have "\<forall>i. h' i \<noteq> 0 \<longleftrightarrow> h i \<noteq> 0 \<or> i \<in> arrived (np # ps)"
    using r(3) receive_iff [OF rep p(1)] by (auto simp: np arrived_def)
  moreover have "\<forall>i. h' i \<noteq> 0 \<longrightarrow> h' i = f i"
    if f: "\<forall>i. h i \<noteq> 0 \<longrightarrow> h i = f i" "\<forall>(now, p)\<in>set (np # ps). tp_size p = f (tp_seqno p)" for f
  proof -
    have "tp_size p = f (tp_seqno p)" using f(2) np by simp
    then have "\<forall>i. ?h i \<noteq> 0 \<longrightarrow> ?h i = f i" using receive_size [OF f(1), of "tp_seqno p" "acker_obj s"] by simp
    with r(4) f(2) show ?thesis by (metis (no_types, lifting) list.set_intros(2))
  qed
  moreover have "tp_seqno (last (acks_sent s')) = Seqno (acker_obj s')"
    using r(1,7) t(4,5) by (cases "ps = []") simp_all
  ultimately show ?case
    using r(1,2,5,6) t(1,3,4)
    by (intro exI [of _ s'] exI [of _ h']) (simp add: np sink_frame_def)
qed

end

subsection \<open>From the start\<close>

lemma acker_rep_new [simp]: "acker_rep (new_Acker a) (\<lambda>_. 0)"
proof -
  have "seen_at (new_Acker a) i = 0" for i
  proof -
    have "slot (2 ^ 6 - 1) i < nat (2 ^ 6)" by (rule mask_ring.idx_less)
    then have "slot 63 i < 64" by simp
    then show ?thesis by (simp add: seen_at_def new_Acker_def MWM_def MWS_def)
  qed
  moreover have "\<exists>k. (63 :: int) = 2 ^ k - 1" by (rule exI [of _ 6]) simp
  ultimately show ?thesis
    by (simp add: acker_rep_def acker_mid_def acker_win_def)
      (simp add: new_Acker_def MWM_def MWS_def)
qed

lemma sink_got_new: "acks_sent s = [] \<Longrightarrow> sink_got 0 0 (\<lambda>_. 0) (new_TcpSink (new_Acker a) s)"
  by (simp add: sink_got_def new_TcpSink_def new_Acker_def)

subsection \<open>Splitting a run\<close>

lemma sink_run_append:
  "sink_run f (ps @ qs) s = res_bind (sink_run f ps s) (sink_run f qs)"
proof (induction ps arbitrary: s)
  case (Cons np ps)
  obtain now p where "np = (now, p)" by fastforce
  with Cons.IH show ?case by (cases "sink_recv f now p s") simp_all
qed simp

lemma arrived_append: "arrived (ps @ qs) = arrived ps \<union> arrived qs"
  by (auto simp: arrived_def)

text \<open>The acknowledgement is what \<open>append_ack\<close> makes of a header without blocks.\<close>

lemma sink_ack_appends:
  assumes "sink_ack f now p s = Inr s'"
  shows "\<exists>n b q. f (generate_dsacks s) (ack_ecn_acker s p) n (int32_of (tp_seqno p)) = Inr (b, q) \<and>
           acks_sent s' = acks_sent s @ [q] \<and> length (sack_area n) = Suc NSA"
proof -
  let ?n = "ack_ecn_pkt s (ack_ecn_acker s p) p
              (ack_header now s p (ack_quickstart s p (sink_allocpkt s)))"
  have "length (sack_area ?n) = Suc NSA"
    by (simp add: ack_ecn_pkt_def ack_header_def ack_quickstart_def sink_allocpkt_def Let_def)
  then show ?thesis using assms unfolding sink_ack_def Let_def by force
qed

end
