(* ===== verification/Tcp_Delack.thy ===== *)
theory Tcp_Delack
  imports Tcp_Receiver
begin

section \<open>Delayed acknowledgements\<close>

text \<open>
  The invariant of a \<open>DelAckSink\<close>: a packet is saved exactly while the delay timer is pending,
  and it is one that has been received. \<open>del_reach\<close> are the states a sink gets to by receiving
  packets, by its timer expiring and by \<open>reset\<close>.
\<close>

definition del_saved :: "(int \<Rightarrow> int) \<Rightarrow> ('z, 'b) delsink \<Rightarrow> bool" where
  "del_saved h s \<longleftrightarrow>
     timer_ok (delay_timer s) \<and> (save s = None \<longleftrightarrow> \<not> pending (delay_timer s)) \<and>
     (\<forall>p. save s = Some p \<longrightarrow> tpkt_ok p \<and> h (tp_seqno p) \<noteq> 0)"

text \<open>The two ways to answer a packet: with an acknowledgement, or by saving it for the timer.\<close>

definition answered :: "('z, 'b) delsink \<Rightarrow> ('z, 'b) delsink \<Rightarrow> bool" where
  "answered s s' \<longleftrightarrow>
     (\<exists>q. acks_sent s' = acks_sent s @ [q] \<and> tp_seqno q = Seqno (acker_obj s')) \<and> save s' = None"

definition delayed :: "time \<Rightarrow> tpkt \<Rightarrow> ('z, 'b) delsink \<Rightarrow> ('z, 'b) delsink \<Rightarrow> bool" where
  "delayed now p s s' \<longleftrightarrow>
     save s = None \<and> save s' = Some p \<and> acks_sent s' = acks_sent s \<and>
     tp_seqno p = Seqno (acker_obj s') \<and>
     event_at (delay_timer s') = Some (Fin (now + interval s))"

lemma delsink_more_eq:
  fixes s t :: "('a, 'b) delacksink_scheme"
  assumes "tcpsink.more t = tcpsink.more s"
  shows "delay_timer t = delay_timer s \<and> interval t = interval s"
  by (insert assms, rule delacksink.cases_scheme [of s], rule delacksink.cases_scheme [of t],
      hypsubst)
    (simp only: tcpsink.select_convs delacksink.select_convs delacksink.ext_inject)

lemma sink_frame_timer:
  fixes s t :: "('a, 'b) delacksink_scheme"
  assumes "sink_frame s t"
  shows "delay_timer t = delay_timer s" "interval t = interval s" "save t = save s"
    "lastreset t = lastreset s"
  using assms delsink_more_eq [of t s] by (simp_all add: sink_frame_def)

lemma del_cancel_ok:
  assumes "timer_ok (delay_timer s)"
  shows "\<exists>t. del_cancel s = Inr (s\<lparr>delay_timer := t\<rparr>) \<and> timer_ok t \<and> \<not> pending t"
proof (cases "pending (delay_timer s)")
  case True
  let ?t = "(tm_cancel_event (delay_timer s))\<lparr>status := TIMER_IDLE\<rparr>"
  have "del_cancel s = Inr (s\<lparr>delay_timer := ?t\<rparr>)"
    using True by (simp add: del_cancel_def tm_cancel_def)
  then show ?thesis by (auto simp: timer_ok_def tm_cancel_event_def)
next
  case False
  then show ?thesis
    using assms by (intro exI [of _ "delay_timer s"]) (simp add: del_cancel_def)
qed

lemma sink_rep_delay [simp]:
  "sink_rep e c k h (s\<lparr>delay_timer := t\<rparr>) = sink_rep e c k h s"
  "sink_rep e c k h (s\<lparr>save := v\<rparr>) = sink_rep e c k h s"
  by (simp_all add: sink_rep_def sink_got_def)

context sink_acker
begin

lemma del_answer:
  assumes rep: "sink_rep ext_ok c k h s" and t: "timer_ok (delay_timer s)"
    and p: "tpkt_ok p" "h (tp_seqno p) \<noteq> 0"
  shows "\<exists>s'. res_bind (del_cancel s) (\<lambda>s. res_bind (sink_ack append_ack now p s)
               (\<lambda>s. Inr (s\<lparr>save := None\<rparr>))) = Inr s' \<and>
           sink_rep ext_ok c k h s' \<and> del_saved h s' \<and> answered s s' \<and> lastreset s' = lastreset s"
proof -
  obtain u where u: "del_cancel s = Inr (s\<lparr>delay_timer := u\<rparr>)" "timer_ok u" "\<not> pending u"
    using del_cancel_ok [OF t] by blast
  let ?s = "s\<lparr>delay_timer := u\<rparr>"
  have "sink_rep ext_ok c k h ?s" using rep by simp
  from sink_ack_ok [OF this p, of now] obtain v q where
    v: "sink_ack append_ack now p ?s = Inr v" "sink_rep ext_ok c k h v" "sink_frame ?s v"
      "acks_sent v = acks_sent ?s @ [q]" "tp_seqno q = Seqno (acker_obj ?s)"
      "next_seq (acker_obj v) = next_seq (acker_obj ?s)" by blast
  have fr: "delay_timer v = u" "lastreset v = lastreset s"
    using sink_frame_timer [OF v(3)] by simp_all
  show ?thesis
    using u v fr by (intro exI [of _ "v\<lparr>save := None\<rparr>"])
      (simp add: del_saved_def answered_def Seqno_def)
qed

lemma del_recv_ok:
  assumes rep: "sink_rep ext_ok c k h s" and inv: "del_saved h s"
    and p: "tpkt_ok p" "lastreset s \<le> tp_ts p"
  shows "\<exists>s'. del_recv append_ack now p s = Inr s' \<and>
           sink_rep ext_ok c k (sink_receive p s h) s' \<and> del_saved (sink_receive p s h) s' \<and>
           lastreset s' = lastreset s \<and> (answered s s' \<or> delayed now p s s')"
proof -
  let ?h = "sink_receive p s h"
  obtain t where t: "sink_accept p s = Inr t" "sink_rep ext_ok c k ?h t"
    "sink_frame s t" "acks_sent t = acks_sent s"
    using sink_accept_ok [OF rep p(1)] by blast
  have here: "?h (tp_seqno p) \<noteq> 0"
    using rep p(1) by (intro receive_here) (simp_all add: sink_rep_def)
  note fr = sink_frame_timer [OF t(3)]
  have tok: "timer_ok (delay_timer t)" using inv fr by (simp add: del_saved_def)
  show ?thesis
  proof (cases "may_delay p t")
    case True
    let ?u = "t\<lparr>save := Some p,
                delay_timer := \<lparr>status = TIMER_PENDING, event_at = Some (Fin (now + interval s))\<rparr>\<rparr>"
    have "del_recv append_ack now p s = Inr ?u"
      using t(1) p(2) True tm_resched_ok [OF tok, of now "Fin (interval t)"] fr(2)
      by (simp add: del_recv_def)
    moreover have "delayed now p s ?u"
      using True inv t(4) fr by (simp add: delayed_def may_delay_def del_saved_def)
    moreover have "del_saved ?h ?u" using here p(1) by (simp add: del_saved_def)
    ultimately show ?thesis using t(2) fr by (intro exI [of _ ?u]) simp
  next
    case False
    obtain u where u: "res_bind (del_cancel t) (\<lambda>s. res_bind (sink_ack append_ack now p s)
               (\<lambda>s. Inr (s\<lparr>save := None\<rparr>))) = Inr u"
      "sink_rep ext_ok c k ?h u" "del_saved ?h u" "answered t u" "lastreset u = lastreset t"
      using del_answer [OF t(2) tok p(1) here, of now] by blast
    have "del_recv append_ack now p s = Inr u"
      using t(1) p(2) False u(1) by (simp add: del_recv_def)
    moreover have "answered s u" using u(4) t(4) by (simp add: answered_def)
    ultimately show ?thesis using u fr by (intro exI [of _ u]) simp
  qed
qed

text \<open>The timer expires: the saved packet is acknowledged.\<close>

lemma del_timer_ok:
  assumes rep: "sink_rep ext_ok c k h s" and inv: "del_saved h s" and pend: "pending (delay_timer s)"
  shows "\<exists>s'. del_timer_handle append_ack now s = Inr s' \<and> sink_rep ext_ok c k h s' \<and>
           del_saved h s' \<and> lastreset s' = lastreset s \<and> answered s s'"
proof -
  obtain p where p: "save s = Some p" "tpkt_ok p" "h (tp_seqno p) \<noteq> 0"
    using inv pend by (auto simp: del_saved_def)
  let ?s = "s\<lparr>delay_timer := handling\<rparr>"
  have "sink_rep ext_ok c k h ?s" using rep by simp
  from sink_ack_ok [OF this p(2,3), of now] obtain v q where
    v: "sink_ack append_ack now p ?s = Inr v" "sink_rep ext_ok c k h v" "sink_frame ?s v"
      "acks_sent v = acks_sent ?s @ [q]" "tp_seqno q = Seqno (acker_obj ?s)"
      "next_seq (acker_obj v) = next_seq (acker_obj ?s)" by blast
  have fr: "delay_timer v = handling" "lastreset v = lastreset s"
    using sink_frame_timer [OF v(3)] by simp_all
  let ?v = "v\<lparr>save := None, delay_timer := \<lparr>status = TIMER_IDLE, event_at = None\<rparr>\<rparr>"
  have "del_timer_handle append_ack now s = Inr ?v"
    using pend p(1) v(1) fr
    by (simp add: del_timer_handle_def tm_handle_pending del_timeout_def)
  then show ?thesis
    using v fr by (intro exI [of _ ?v])
      (simp add: del_saved_def answered_def Seqno_def timer_ok_def)
qed

end

subsection \<open>Reachable states\<close>

inductive del_reach ::
  "'z appender \<Rightarrow> ('z, 'b) delsink \<Rightarrow> ('z, 'b) delsink \<Rightarrow> bool"
  for append_ack s0 where
  start: "del_reach append_ack s0 s0"
| arrive: "del_reach append_ack s0 s \<Longrightarrow> tpkt_ok p \<Longrightarrow>
    del_recv append_ack now p s = Inr s' \<Longrightarrow> del_reach append_ack s0 s'"
| expire: "del_reach append_ack s0 s \<Longrightarrow> event_at (delay_timer s) = Some (Fin now) \<Longrightarrow>
    del_timer_handle append_ack now s = Inr s' \<Longrightarrow> del_reach append_ack s0 s'"
| reset: "del_reach append_ack s0 s \<Longrightarrow> del_reset now s = Inr s' \<Longrightarrow> del_reach append_ack s0 s'"

lemma acker_rep_reset:
  assumes "acker_rep a h"
  shows "acker_rep (acker_reset a) (\<lambda>_. 0)"
proof -
  obtain j where j: "wndmask a = 2 ^ j - 1" and pos: "MWM \<le> wndmask a"
    using assms by (auto simp: acker_rep_def acker_mid_def acker_win_def)
  have "seen_at (acker_reset a) i = 0" for i
    using mask_ring.idx_less [of j i] by (simp add: seen_at_def acker_reset_def j)
  moreover have "\<exists>k. wndmask a = 2 ^ k - 1" using j by blast
  ultimately show ?thesis
    using pos by (simp add: acker_rep_def acker_mid_def acker_win_def)
      (simp add: acker_reset_def MWM_def MWS_def)
qed

text \<open>For the sinks with a plain \<open>Acker\<close>, resets included.\<close>

definition del_inv :: "('z, 'b) delsink \<Rightarrow> bool" where
  "del_inv s \<longleftrightarrow> (\<exists>c k h. sink_rep (\<lambda>_ _. True) c k h s \<and> del_saved h s)"

lemma del_inv_new:
  assumes "acks_sent s = []"
  shows "del_inv (new_DelAckSink (new_Acker a) s)"
proof -
  have "sink_rep (\<lambda>_ _. True) 0 0 (\<lambda>_. 0) (new_DelAckSink (new_Acker a) s)"
    using assms sink_got_new [of s a]
    by (simp add: sink_rep_def sink_got_def new_DelAckSink_def new_TcpSink_def)
  moreover have "del_saved (\<lambda>_. 0) (new_DelAckSink (new_Acker a) s)"
    by (simp add: del_saved_def new_DelAckSink_def new_TcpSink_def)
      (simp add: new_timer_def)
  ultimately show ?thesis unfolding del_inv_def by blast
qed

lemma del_inv_reset:
  assumes inv: "del_inv s" and r: "del_reset now s = Inr s'"
  shows "del_inv s'"
proof -
  obtain c k h where h: "sink_rep (\<lambda>_ _. True) c k h s" "del_saved h s"
    using inv by (auto simp: del_inv_def)
  obtain u where u: "del_cancel s = Inr (s\<lparr>delay_timer := u\<rparr>)" "timer_ok u" "\<not> pending u"
    using del_cancel_ok h(2) by (auto simp: del_saved_def)
  have s': "s' = sink_reset now (s\<lparr>delay_timer := u\<rparr>)" using r u(1) by (simp add: del_reset_def)
  have "acker_rep (acker_reset (acker_obj s)) (\<lambda>_. 0)"
    using acker_rep_reset h(1) by (auto simp: sink_rep_def)
  moreover have "next_seq (acker_reset (acker_obj s)) = 0" by (simp add: acker_reset_def)
  moreover have "int32_of (sink_bytes s) = sink_bytes s"
    using h(1) by (simp add: sink_rep_def sink_got_def)
  ultimately have "sink_rep (\<lambda>_ _. True) (sink_bytes s) (length (acks_sent s)) (\<lambda>_. 0) s'"
    by (simp add: s' sink_rep_def sink_got_def sink_reset_def)
  moreover have "del_saved (\<lambda>_. 0) s'"
    using u by (simp add: s' del_saved_def sink_reset_def)
  ultimately show ?thesis unfolding del_inv_def by blast
qed

lemma del_inv_recv:
  assumes inv: "del_inv s" and p: "tpkt_ok p" "lastreset s \<le> tp_ts p"
  shows "\<exists>s'. del_recv acker_append_ack now p s = Inr s' \<and> del_inv s' \<and>
           (answered s s' \<or> delayed now p s s')"
proof -
  obtain c k h where h: "sink_rep (\<lambda>_ _. True) c k h s" "del_saved h s"
    using inv by (auto simp: del_inv_def)
  from plain_acker.del_recv_ok [OF h p, of now] show ?thesis unfolding del_inv_def by blast
qed

lemma del_inv_timer:
  assumes inv: "del_inv s" and pend: "pending (delay_timer s)"
  shows "\<exists>s'. del_timer_handle acker_append_ack now s = Inr s' \<and> del_inv s' \<and> answered s s'"
proof -
  obtain c k h where h: "sink_rep (\<lambda>_ _. True) c k h s" "del_saved h s"
    using inv by (auto simp: del_inv_def)
  from plain_acker.del_timer_ok [OF h pend, of now] show ?thesis unfolding del_inv_def by blast
qed

lemma del_inv_pending: "del_inv s \<Longrightarrow> event_at (delay_timer s) \<noteq> None \<Longrightarrow> pending (delay_timer s)"
  by (auto simp: del_inv_def del_saved_def timer_ok_def)

lemma del_reach_inv:
  assumes "del_reach acker_append_ack s0 s" "del_inv s0"
  shows "del_inv s"
  using assms
proof induction
  case (arrive s p now s')
  then have inv: "del_inv s" by simp
  show ?case
  proof (cases "lastreset s \<le> tp_ts p")
    case True
    with del_inv_recv [OF inv arrive.hyps(2) True, of now] arrive.hyps(3) show ?thesis by auto
  next
    case False
    with arrive.hyps(3) inv show ?thesis by (simp add: del_recv_def)
  qed
next
  case (expire s now s')
  then have inv: "del_inv s" by simp
  have "pending (delay_timer s)" using del_inv_pending [OF inv] expire.hyps(2) by simp
  from del_inv_timer [OF inv this, of now] expire.hyps(3) show ?case by auto
next
  case (reset s now s')
  then show ?case using del_inv_reset by blast
qed

end
