(* ===== verification/Tcp_Properties.thy ===== *)
theory Tcp_Properties
  imports Tcp_Delack
begin

section \<open>Properties of the TCP sinks\<close>

text \<open>
  The claims about \<open>tcp-sink.cc\<close>: in-order delivery, the truth of cumulative and selective
  acknowledgements, and the bounded delay of delayed acknowledgements, each from the constructors
  on and each with a concrete run as its witness.
\<close>

subsection \<open>Sinks as the code creates them\<close>

definition plain_sink :: "acker \<Rightarrow> acker tcpsink \<Rightarrow> acker tcpsink" where
  "plain_sink a s = new_TcpSink (new_Acker a) s"

definition sack_sink :: "sacker \<Rightarrow> sacker tcpsink \<Rightarrow> sacker tcpsink" where
  "sack_sink a s = sacker_configure (new_TcpSink (new_Sacker a) s)"

lemma sink_rep_plain:
  "acks_sent s = [] \<Longrightarrow> sink_rep (\<lambda>_ _. True) 0 0 (\<lambda>_. 0) (plain_sink a s)"
  using sink_got_new [of s a]
  by (simp add: sink_rep_def plain_sink_def) (simp add: new_TcpSink_def)

lemma acker_rep_new_Sacker: "acker_rep (new_Sacker a) (\<lambda>_. 0)"
proof -
  have "same_core (new_Acker a) (new_Sacker a)" by (simp add: same_core_def new_Sacker_def)
  from same_core_rep [OF this] show ?thesis by simp
qed

lemma sink_rep_sack:
  assumes "acks_sent s = []" "0 \<le> max_sack_blocks s"
  shows "sink_rep (sack_ext_ok (min (int NSA) (max_sack_blocks s))) 0 0 (\<lambda>_. 0) (sack_sink a s)"
proof -
  define n where "n = (if int NSA < max_sack_blocks s then int NSA else max_sack_blocks s)"
  let ?b = "(new_Sacker a)\<lparr>base_nblocks := n, sf := Some (new_SackStack n)\<rparr>"
  have n: "0 \<le> n" "n \<le> int NSA" using assms(2) by (simp_all add: n_def)
  have s: "sack_sink a s = (new_TcpSink ?b s)\<lparr>max_sack_blocks := n\<rparr>"
    by (simp add: sack_sink_def sacker_configure_def sacker_set_nblocks_def Let_def n_def
        new_TcpSink_def)
  have "same_core (new_Sacker a) ?b" by (simp add: same_core_def)
  from same_core_rep [OF this] have "acker_rep ?b (\<lambda>_. 0)"
    using acker_rep_new_Sacker by simp
  moreover have "sack_ext_ok (min (int NSA) (max_sack_blocks s)) ?b (\<lambda>_. 0)"
    using n by (auto simp: sack_ext_ok_def n_def)
  moreover have "next_seq ?b = 0" by (simp add: new_Sacker_def new_Acker_def)
  ultimately show ?thesis
    using assms(1) unfolding s by (simp add: sink_rep_def sink_got_def new_TcpSink_def)
qed

lemma sink_lastreset [simp]:
  "lastreset (plain_sink a s) = 0" "lastreset (sack_sink b t) = 0"
  "acks_sent (plain_sink a s) = acks_sent s" "acks_sent (sack_sink b t) = acks_sent t"
  by (simp_all add: plain_sink_def sack_sink_def new_TcpSink_def sacker_configure_def
      sacker_set_nblocks_def Let_def)

subsection \<open>In-order delivery\<close>

text \<open>
  (C5) \<open>TcpSink::recv\<close> delivers in order and exactly once. Whatever packets arrive, in whatever
  order and however often (sequence numbers below \<open>2^30 - 2\<close>, every copy of packet \<open>i\<close> of \<open>f i > 0\<close>
  bytes), the sink processes them all; \<open>next_\<close> is then the first packet that has not arrived, and
  there is one acknowledgement per packet, the last of which carries \<open>next_ - 1\<close>. The 32-bit
  counter \<open>bytes_\<close> of the bytes given to the application holds the bytes of the packets before
  \<open>next_\<close> modulo \<open>2 ^ 32\<close>, and exactly these bytes as long as they are fewer than \<open>2 ^ 31\<close>.
\<close>
theorem tcp_sink_in_order_once:
  assumes "arrivals_ok 0 ps" "\<forall>(now, p)\<in>set ps. tp_size p = f (tp_seqno p)"
    and "acks_sent s = []"
  shows "\<exists>s'. sink_run acker_append_ack ps (plain_sink a s) = Inr s' \<and>
           0 \<le> next_seq (acker_obj s') \<and>
           {0..<next_seq (acker_obj s')} \<subseteq> arrived ps \<and> next_seq (acker_obj s') \<notin> arrived ps \<and>
           sink_bytes s' = int32_of (\<Sum>i\<in>{0..<next_seq (acker_obj s')}. f i) \<and>
           ((\<Sum>i\<in>{0..<next_seq (acker_obj s')}. f i) < 2 ^ 31 \<longrightarrow>
             sink_bytes s' = (\<Sum>i\<in>{0..<next_seq (acker_obj s')}. f i)) \<and>
           length (acks_sent s') = length ps \<and>
           (ps \<noteq> [] \<longrightarrow> tp_seqno (last (acks_sent s')) = next_seq (acker_obj s') - 1)"
proof -
  have "arrivals_ok (lastreset (plain_sink a s)) ps" using assms(1) by simp
  from plain_acker.sink_run_ok [OF sink_rep_plain [OF assms(3)] this] obtain s' h' where
    r: "sink_run acker_append_ack ps (plain_sink a s) = Inr s'"
      "sink_rep (\<lambda>_ _. True) 0 0 h' s'" "\<forall>i. h' i \<noteq> 0 \<longleftrightarrow> 0 \<noteq> (0 :: int) \<or> i \<in> arrived ps"
      "\<forall>f. (\<forall>i. 0 \<noteq> (0 :: int) \<longrightarrow> 0 = f i) \<longrightarrow> (\<forall>(now, p)\<in>set ps. tp_size p = f (tp_seqno p)) \<longrightarrow>
           (\<forall>i. h' i \<noteq> 0 \<longrightarrow> h' i = f i)"
      "length (acks_sent s') = length (acks_sent (plain_sink a s)) + length ps"
      "ps \<noteq> [] \<longrightarrow> tp_seqno (last (acks_sent s')) = Seqno (acker_obj s')" by blast
  have size: "h' i = f i" if "h' i \<noteq> 0" for i using r(4) assms(2) that by blast
  let ?n = "next_seq (acker_obj s')"
  have rep: "acker_rep (acker_obj s') h'" "sink_bytes s' = int32_of (\<Sum>i\<in>{0..<?n}. h' i)"
    using r(2) by (simp_all add: sink_rep_def sink_got_def)
  then have below: "\<forall>i\<in>{0..<?n}. h' i \<noteq> 0" and "h' ?n = 0" "0 \<le> ?n"
    by (simp_all add: acker_rep_def acker_mid_def acker_win_def)
  moreover have "(\<Sum>i\<in>{0..<?n}. h' i) = (\<Sum>i\<in>{0..<?n}. f i)"
    using below size by (intro sum.cong) auto
  moreover have pos: "0 \<le> (\<Sum>i\<in>{0..<?n}. f i)"
  proof (rule sum_nonneg)
    fix i assume "i \<in> {0..<?n}"
    then have "i \<in> arrived ps" using below r(3) by simp
    then obtain now p where "(now, p) \<in> set ps" "tp_seqno p = i" by (auto simp: arrived_def)
    then show "0 \<le> f i" using assms(1,2) by (fastforce simp: arrivals_ok_def tpkt_ok_def)
  qed
  moreover have "int32_of (\<Sum>i\<in>{0..<?n}. f i) = (\<Sum>i\<in>{0..<?n}. f i)" if "(\<Sum>i\<in>{0..<?n}. f i) < 2 ^ 31"
    using pos that by (intro int32_of_id) simp_all
  ultimately show ?thesis
    using r(1,3,5,6) rep(2) assms(3) by (intro exI [of _ s']) (auto simp: Seqno_def)
qed

definition sample_pkt :: "int \<Rightarrow> time \<Rightarrow> tpkt" where
  "sample_pkt q t =
     \<lparr>tp_size = 1000, tp_seqno = q, tp_ts = t, tp_ts_echo = 0,
      sack_area = replicate 4 (0, 0), sa_length = 0, tp_flowid = 1, tp_ttl = 32,
      ect = False, ce = False, cong_action = False, ecnecho = False,
      eln_flag = False, no_ts = False, qs_pkt = False, tp_reason = 0, tp_last_rtt = 0,
      qs_flag = QS_DISABLE, qs_ttl = 0, qs_rate = 0\<rparr>"

definition sample_acker :: acker where
  "sample_acker =
     \<lparr>next_seq = 0, maxseen = 0, wndmask = 0, ecn_unacked = 0, seen = [], ts_to_echo = 0,
      is_dup = False, last_ack_sent = 0\<rparr>"

definition sample_sink :: "'a \<Rightarrow> 'a tcpsink" where
  "sample_sink a =
     \<lparr>acker_obj = a, agent_fid = 0, agent_ttl = 32, packetSize = 40, ts_echo_bugfix = True,
      ts_echo_rfc1323 = False, max_sack_blocks = 3, save = None, generate_dsacks = False,
      qs_enabled = False, RFC2581_immediate_ack = True, SYN_immediate_ack = True,
      sink_bytes = 0, lastreset = 0, ecn_syn = False, acks_sent = [], delivered = []\<rparr>"

text \<open>Packets 0, 2 and 1 in this order, of 1000 bytes each.\<close>
theorem tcp_sink_in_order_once_witness:
  "\<exists>s'. sink_run acker_append_ack [(1, sample_pkt 0 0), (2, sample_pkt 2 1), (3, sample_pkt 1 1)]
           (plain_sink sample_acker (sample_sink sample_acker)) = Inr s' \<and>
        next_seq (acker_obj s') = 3 \<and> sink_bytes s' = 3000 \<and> length (acks_sent s') = 3"
proof -
  let ?ps = "[(1, sample_pkt 0 0), (2, sample_pkt 2 1), (3, sample_pkt 1 1)] :: (time \<times> tpkt) list"
  have "arrivals_ok 0 ?ps" by (simp add: arrivals_ok_def tpkt_ok_def sample_pkt_def)
  moreover have "\<forall>(now, p)\<in>set ?ps. tp_size p = 1000" by (simp add: sample_pkt_def)
  moreover have "acks_sent (sample_sink sample_acker) = []" by (simp add: sample_sink_def)
  ultimately obtain s' where
    s': "sink_run acker_append_ack ?ps (plain_sink sample_acker (sample_sink sample_acker)) = Inr s'"
      "0 \<le> next_seq (acker_obj s')" "{0..<next_seq (acker_obj s')} \<subseteq> arrived ?ps"
      "next_seq (acker_obj s') \<notin> arrived ?ps"
      "sink_bytes s' = int32_of (\<Sum>i\<in>{0..<next_seq (acker_obj s')}. 1000)"
      "length (acks_sent s') = length ?ps"
    using tcp_sink_in_order_once [of ?ps "\<lambda>_. 1000" "sample_sink sample_acker" sample_acker] by blast
  have arr: "arrived ?ps = {0, 2, 1}" by (simp add: arrived_def sample_pkt_def)
  let ?n = "next_seq (acker_obj s')"
  have "3 \<le> ?n" using s'(2,4) unfolding arr by auto
  moreover have "\<not> 3 < ?n" using s'(3) unfolding arr by (auto simp: subset_iff dest: spec [of _ 3])
  ultimately have "?n = 3" by simp
  with s' show ?thesis by (intro exI [of _ s']) (simp add: int32_of_def)
qed

subsection \<open>Selective acknowledgements\<close>

lemma missing_above: "acker_rep a h \<Longrightarrow> h m = 0 \<Longrightarrow> 0 \<le> m \<Longrightarrow> next_seq a \<le> m"
  by (force simp: acker_rep_def acker_mid_def)

lemma sack_sink_run:
  assumes "arrivals_ok 0 ps" "acks_sent s = []" "0 \<le> max_sack_blocks s"
  shows "\<exists>s' h'. sink_run sacker_append_ack ps (sack_sink a s) = Inr s' \<and>
           sink_rep (sack_ext_ok (min (int NSA) (max_sack_blocks s))) 0 0 h' s' \<and>
           (\<forall>i. h' i \<noteq> 0 \<longleftrightarrow> i \<in> arrived ps) \<and> length (acks_sent s') = length ps \<and>
           lastreset s' = 0"
proof -
  have "arrivals_ok (lastreset (sack_sink a s)) ps" using assms(1) by simp
  from sack_acker.sink_run_ok [OF sink_rep_sack [OF assms(2,3)] this] obtain s' h' where
    r: "sink_run sacker_append_ack ps (sack_sink a s) = Inr s'"
      "sink_rep (sack_ext_ok (min (int NSA) (max_sack_blocks s))) 0 0 h' s'"
      "\<forall>i. h' i \<noteq> 0 \<longleftrightarrow> 0 \<noteq> (0 :: int) \<or> i \<in> arrived ps" "lastreset s' = lastreset (sack_sink a s)"
      "length (acks_sent s') = length (acks_sent (sack_sink a s)) + length ps" by blast
  then show ?thesis using assms(2) by (intro exI [of _ s'] exI [of _ h']) simp
qed

text \<open>
  (C12) A SACK sink acknowledges only what it has. In every acknowledgement sent for any arrivals,
  all packets up to the cumulative sequence number and all packets of every SACK and D-SACK block
  are among the packets that arrived; and no acknowledgement has more than three blocks, the room
  in the header.
\<close>
theorem sack_reports_only_received:
  assumes "arrivals_ok 0 ps" "acks_sent s = []" "0 \<le> max_sack_blocks s"
  shows "\<exists>s'. sink_run sacker_append_ack ps (sack_sink a s) = Inr s' \<and>
           length (acks_sent s') = length ps \<and>
           (\<forall>q\<in>set (acks_sent s').
              {0..tp_seqno q} \<subseteq> arrived ps \<and> 0 \<le> sa_length q \<and> sa_length q \<le> int NSA \<and>
              (\<forall>j < nat (sa_length q).
                 {fst (sack_area q ! j)..<snd (sack_area q ! j)} \<subseteq> arrived ps))"
proof -
  obtain s' h' where r: "sink_run sacker_append_ack ps (sack_sink a s) = Inr s'"
    "sink_rep (sack_ext_ok (min (int NSA) (max_sack_blocks s))) 0 0 h' s'"
    "\<forall>i. h' i \<noteq> 0 \<longleftrightarrow> i \<in> arrived ps" "length (acks_sent s') = length ps"
    using sack_sink_run [OF assms, of a] by blast
  have "ack_got h' (maxseen (acker_obj s')) q" if "q \<in> set (acks_sent s')" for q
    using r(2) that by (simp add: sink_rep_def sink_got_def)
  then show ?thesis
    using r(1,3,4) by (intro exI [of _ s'])
      (auto simp: ack_got_def sacks_ok_def block_got_def subset_iff)
qed

definition sample_sacker :: sacker where
  "sample_sacker = acker.extend sample_acker \<lparr>base_nblocks = 0, sf = None\<rparr>"

text \<open>Packets 0, 2 and 4: three acknowledgements, none of which claims packet 1 or 3.\<close>
theorem sack_reports_only_received_witness:
  "\<exists>s'. sink_run sacker_append_ack [(1, sample_pkt 0 0), (2, sample_pkt 2 1), (3, sample_pkt 4 1)]
           (sack_sink sample_sacker (sample_sink sample_sacker)) = Inr s' \<and>
        length (acks_sent s') = 3 \<and>
        (\<forall>q\<in>set (acks_sent s'). {0..tp_seqno q} \<subseteq> {0, 2, 4} \<and>
           (\<forall>j < nat (sa_length q).
              {fst (sack_area q ! j)..<snd (sack_area q ! j)} \<subseteq> {0, 2, 4}))"
proof -
  let ?ps = "[(1, sample_pkt 0 0), (2, sample_pkt 2 1), (3, sample_pkt 4 1)] :: (time \<times> tpkt) list"
  have ok: "arrivals_ok 0 ?ps" by (simp add: arrivals_ok_def tpkt_ok_def sample_pkt_def)
  have s: "acks_sent (sample_sink sample_sacker) = []" "0 \<le> max_sack_blocks (sample_sink sample_sacker)"
    by (simp_all add: sample_sink_def)
  have arr: "arrived ?ps = {0, 2, 4}" by (simp add: arrived_def sample_pkt_def)
  show ?thesis
    using sack_reports_only_received [OF ok s, of sample_sacker] unfolding arr
    by (elim exE conjE) (rule exI, (rule conjI, assumption)+, simp)
qed

text \<open>
  (C37) A SACK sink reports new out-of-order data at once and completely. When a packet arrives for
  the first time and some packet before it is missing, the first block of its acknowledgement is
  the longest run of arrived packets that contains it: the packets on both sides of the block have
  not arrived.
\<close>
theorem sack_reports_new_block:
  assumes ps: "arrivals_ok 0 ps" and s: "acks_sent s = []" "0 < max_sack_blocks s"
    and p: "tpkt_ok p" "0 \<le> tp_ts p" "tp_seqno p \<notin> arrived ps"
    and gap: "0 \<le> m" "m < tp_seqno p" "m \<notin> arrived ps"
  shows "\<exists>s' l r. sink_run sacker_append_ack (ps @ [(now, p)]) (sack_sink a s) = Inr s' \<and>
           0 < sa_length (last (acks_sent s')) \<and> sack_area (last (acks_sent s')) ! 0 = (l, r) \<and>
           l \<le> tp_seqno p \<and> tp_seqno p < r \<and> {l..<r} \<subseteq> arrived (ps @ [(now, p)]) \<and>
           l - 1 \<notin> arrived (ps @ [(now, p)]) \<and> r \<notin> arrived (ps @ [(now, p)])"
proof -
  let ?q = "tp_seqno p" and ?nb = "min (int NSA) (max_sack_blocks s)"
  let ?qs = "ps @ [(now, p)]"
  have nn: "0 \<le> max_sack_blocks s" using s(2) by simp
  obtain s1 h1 where r1: "sink_run sacker_append_ack ps (sack_sink a s) = Inr s1"
    "sink_rep (sack_ext_ok ?nb) 0 0 h1 s1" "\<forall>i. h1 i \<noteq> 0 \<longleftrightarrow> i \<in> arrived ps" "lastreset s1 = 0"
    using sack_sink_run [OF ps s(1) nn, of a] by blast
  let ?h = "sink_receive p s1 h1"
  have rep1: "acker_rep (acker_obj s1) h1" using r1(2) by (simp add: sink_rep_def)
  have got: "?h i \<noteq> 0 \<longleftrightarrow> i \<in> arrived ?qs" for i
    using receive_iff [OF rep1 p(1)] r1(3) by (auto simp: arrived_append arrived_def)
  obtain t where t: "sink_accept p s1 = Inr t" "sink_rep (sack_ext_ok ?nb) 0 0 ?h t"
    "is_dup (acker_obj t) = (?q < next_seq (acker_obj s1) \<or> h1 ?q \<noteq> 0)"
    using sack_acker.sink_accept_ok [OF r1(2) p(1)] by blast
  have here: "?h ?q \<noteq> 0" using receive_here [OF rep1 p(1)] .
  obtain u where u: "sink_ack sacker_append_ack now p t = Inr u"
    using sack_acker.sink_ack_ok [OF t(2) p(1) here, of now] by blast
  let ?a = "ack_ecn_acker t p"
  obtain n b k where k: "sacker_append_ack (generate_dsacks t) ?a n ?q = Inr (b, k)"
    "acks_sent u = acks_sent t @ [k]" "length (sack_area n) = Suc NSA"
    using sink_ack_appends [OF u] p(1) by auto
  have A: "acker_rep ?a ?h" "sack_ext_ok ?nb ?a ?h"
    using t(2) by (simp_all add: sink_rep_def sack_acker.ack_ecn_acker_ok)
  have m: "next_seq (acker_obj t) \<le> m" "next_seq (acker_obj s1) \<le> m"
    using missing_above [of "acker_obj t" ?h m] missing_above [OF rep1, of m] t(2) got [of m]
      r1(3) gap by (auto simp: sink_rep_def arrived_append arrived_def)
  have dup: "\<not> is_dup ?a" "0 < base_nblocks ?a" "next_seq ?a \<le> ?q"
    using t(3) m gap p(3) r1(3) A(2) s(2)
    by (auto simp: ack_ecn_acker_def Let_def update_ecn_unacked_def sack_ext_ok_def NSA_def)
  let ?r = "sack_right_of ?a ?q"
  let ?l = "sack_left_of ?a ?r"
  have "0 < sa_length k" "sack_area k ! 0 = (?l, ?r)"
    using sacker_append_ack_first [OF A dup(2,3) here dup(1) k(3,1)] by simp_all
  moreover have "sink_run sacker_append_ack ?qs (sack_sink a s) = Inr u"
    using r1(1,4) t(1) u p(2) by (simp add: sink_run_append sink_recv_def)
  ultimately show ?thesis
    using sack_first_block [OF A(1) dup(3) here] got k(2)
    by (intro exI [of _ u] exI [of _ ?l] exI [of _ ?r]) (auto simp: block_got_def)
qed

text \<open>Packets 0, 2 and 3: the last acknowledgement starts with the block of packets 2 and 3.\<close>
theorem sack_reports_new_block_witness:
  "\<exists>s'. sink_run sacker_append_ack ([(1, sample_pkt 0 0), (2, sample_pkt 2 1)] @ [(3, sample_pkt 3 1)])
           (sack_sink sample_sacker (sample_sink sample_sacker)) = Inr s' \<and>
        sack_area (last (acks_sent s')) ! 0 = (2, 4)"
proof -
  let ?ps = "[(1, sample_pkt 0 0), (2, sample_pkt 2 1)] :: (time \<times> tpkt) list"
  let ?p = "sample_pkt 3 1"
  have ok: "arrivals_ok 0 ?ps" by (simp add: arrivals_ok_def tpkt_ok_def sample_pkt_def)
  have s: "acks_sent (sample_sink sample_sacker) = []" "0 < max_sack_blocks (sample_sink sample_sacker)"
    by (simp_all add: sample_sink_def)
  have arr: "arrived ?ps = {0, 2}" "arrived (?ps @ [(3, ?p)]) = {0, 2, 3}"
    by (auto simp: arrived_def sample_pkt_def)
  have p: "tpkt_ok ?p" "0 \<le> tp_ts ?p" "tp_seqno ?p = 3"
    by (simp_all add: tpkt_ok_def sample_pkt_def)
  have m: "tp_seqno ?p \<notin> arrived ?ps" "0 \<le> (1 :: int)" "1 < tp_seqno ?p" "1 \<notin> arrived ?ps"
    by (simp_all add: arr p)
  obtain s' l r where
    "sink_run sacker_append_ack (?ps @ [(3, ?p)]) (sack_sink sample_sacker (sample_sink sample_sacker))
       = Inr s'" "sack_area (last (acks_sent s')) ! 0 = (l, r)"
    and b: "l \<le> 3" "3 < r" "{l..<r} \<subseteq> {0, 2, 3}" "l - 1 \<notin> {0, 2, 3}"
    using sack_reports_new_block [OF ok s p(1,2) m, of 3 sample_sacker] unfolding arr p by blast
  moreover have "l \<in> {0, 2, 3}" using subsetD [OF b(3), of l] b(1,2) by simp
  moreover have "l \<noteq> 0" using subsetD [OF b(3), of 1] b(2) by auto
  moreover have "l \<noteq> 3" using b(4) by auto
  moreover have "\<not> 4 < r" using subsetD [OF b(3), of 4] b(1) by auto
  ultimately show ?thesis by (intro exI [of _ s']) auto
qed

text \<open>
  After \<open>TcpSink::reset\<close> a SACK sink can acknowledge packets it does not have. \<open>reset\<close>
  reaches \<open>Acker::reset\<close> only, so the blocks of the previous connection stay on the stack: packets
  0 and 2 arrive, the sink is reset, packet 4 arrives, and the acknowledgement reports packet 2.
\<close>
theorem sack_stale_after_reset:
  "case res_bind
      (sink_run sacker_append_ack [(1, sample_pkt 0 0), (2, sample_pkt 2 1)]
         (sack_sink sample_sacker (sample_sink sample_sacker)))
      (\<lambda>s. sink_run sacker_append_ack [(4, sample_pkt 4 3)] (sink_reset 3 s)) of
    Inl e \<Rightarrow> False
  | Inr s \<Rightarrow> sa_length (last (acks_sent s)) = 2 \<and>
             take 2 (sack_area (last (acks_sent s))) = [(4, 5), (2, 3)]"
  by code_simp

subsection \<open>Delayed acknowledgements\<close>

text \<open>
  (C28) A delayed-acknowledgement sink leaves at most one packet unanswered, and not for longer than
  \<open>interval_\<close>. In every state reachable by arrivals, timer expiries and resets, a new packet is
  either acknowledged at once, or no other packet was waiting and the timer is set to expire after
  \<open>interval_\<close>, at which time the acknowledgement is sent.
\<close>
theorem delack_bounded_delay:
  assumes "del_reach acker_append_ack (new_DelAckSink (new_Acker a) s0) s" "acks_sent s0 = []"
    and "tpkt_ok p" "lastreset s \<le> tp_ts p"
  shows "\<exists>s'. del_recv acker_append_ack now p s = Inr s' \<and>
           (answered s s' \<or>
            delayed now p s s' \<and>
            (\<exists>s''. del_timer_handle acker_append_ack (now + interval s) s' = Inr s'' \<and>
                   answered s' s''))"
proof -
  have "del_inv s" using del_reach_inv [OF assms(1)] del_inv_new assms(2) by blast
  from del_inv_recv [OF this assms(3,4), of now] obtain s' where
    s': "del_recv acker_append_ack now p s = Inr s'" "del_inv s'"
      "answered s s' \<or> delayed now p s s'" by blast
  have "\<exists>s''. del_timer_handle acker_append_ack (now + interval s) s' = Inr s'' \<and> answered s' s''"
    if "delayed now p s s'"
    using del_inv_timer [OF s'(2) del_inv_pending [OF s'(2)], of "now + interval s"] that
    by (auto simp: delayed_def)
  with s' show ?thesis by blast
qed

definition sample_delsink :: "acker delacksink" where
  "sample_delsink =
     tcpsink.extend (sample_sink sample_acker) \<lparr>interval = 1 / 10, delay_timer = new_timer\<rparr>"

text \<open>Packet 1 with nothing waiting, at a sink that has received nothing before.\<close>
theorem delack_bounded_delay_witness:
  "\<exists>s'. del_recv acker_append_ack 5 (sample_pkt 1 1)
          (new_DelAckSink (new_Acker sample_acker) sample_delsink) = Inr s' \<and>
        (answered (new_DelAckSink (new_Acker sample_acker) sample_delsink) s' \<or>
         delayed 5 (sample_pkt 1 1) (new_DelAckSink (new_Acker sample_acker) sample_delsink) s')"
proof -
  let ?s = "new_DelAckSink (new_Acker sample_acker) sample_delsink"
  have "acks_sent sample_delsink = []"
    by (simp add: sample_delsink_def sample_sink_def tcpsink.defs)
  moreover have "tpkt_ok (sample_pkt 1 1)" by (simp add: tpkt_ok_def sample_pkt_def)
  moreover have "lastreset ?s \<le> tp_ts (sample_pkt 1 1)"
    by (simp add: sample_pkt_def new_DelAckSink_def new_TcpSink_def)
  ultimately show ?thesis
    using delack_bounded_delay [OF del_reach.start, of sample_delsink "sample_pkt 1 1" sample_acker 5]
    by blast
qed

end
