(* ===== verification/Score_Properties.thy ===== *)
theory Score_Properties
  imports Score_Update Tcp_Properties
begin

section \<open>Properties of the scoreboard\<close>

text \<open>
  The claims about \<open>scoreboard.cc\<close>, stated on the boards themselves: what an acknowledgement
  changes, which packet is retransmitted next, and, together with the SACK sink, that a sender
  never takes a packet for received that has not arrived.
\<close>

definition on_board :: "scoreboard \<Rightarrow> int \<Rightarrow> bool" where
  "on_board sb i \<longleftrightarrow> sb_first sb \<le> i \<and> i < sb_first sb + sb_length sb"

definition sacked :: "scoreboard \<Rightarrow> int \<Rightarrow> bool" where
  "sacked sb i \<longleftrightarrow> on_board sb i \<and> sack_flag (node_at sb i)"

definition retransmitted :: "scoreboard \<Rightarrow> int \<Rightarrow> bool" where
  "retransmitted sb i \<longleftrightarrow> on_board sb i \<and> retran (node_at sb i)"

definition outstanding :: "scoreboard \<Rightarrow> int" where
  "outstanding sb = int (card {i. retransmitted sb i})"

definition sb_ok :: "scoreboard \<Rightarrow> bool" where
  "sb_ok sb \<longleftrightarrow> sb_rep sb (sb_first sb) (sb_first sb + sb_length sb) (node_at sb)"

lemma sb_rep_board:
  assumes rep: "sb_rep sb f e N"
  shows "on_board sb i \<longleftrightarrow> f \<le> i \<and> i < e" "f \<le> i \<Longrightarrow> i < e \<Longrightarrow> node_at sb i = N i" "sb_ok sb"
    "sb_first sb = f"
proof -
  have fe: "sb_first sb = f" "sb_first sb + sb_length sb = e" using rep by (simp_all add: sb_rep_def)
  then show "on_board sb i \<longleftrightarrow> f \<le> i \<and> i < e" by (simp add: on_board_def)
  show "f \<le> i \<Longrightarrow> i < e \<Longrightarrow> node_at sb i = N i" using sb_rep_node(1) [OF rep] .
  have "sb_rep sb f e (node_at sb)"
    using rep by (rule sb_rep_cong) (rule sb_rep_node(1) [OF rep])
  then show "sb_ok sb" using fe by (simp add: sb_ok_def)
  show "sb_first sb = f" by (fact fe)
qed

lemma sb_rep_outstanding:
  assumes rep: "sb_rep sb f e N"
  shows "outstanding sb = retrans_of f e N"
proof -
  have "{i. retransmitted sb i} = {f..<e} \<inter> {i. retran (N i)}"
    using sb_rep_board(1,2) [OF rep] by (auto simp: retransmitted_def)
  then show ?thesis by (simp add: outstanding_def retrans_of_def)
qed

lemma sb_ok_node:
  assumes "sb_ok sb" "on_board sb i"
  shows "sb_seq_no (node_at sb i) = i" "\<not> ack_flag (node_at sb i)"
  using assms by (simp_all add: sb_ok_def sb_rep_def on_board_def)

lemma Update_board:
  assumes "sb_ok sb" "- 1 \<le> last_ack" "last_ack < 2 ^ 31 - 1"
    and "\<forall>(l, r)\<in>set (hdr_blocks p). r - last_ack < 2 ^ 30 - 1" "0 \<le> sa_length p"
  shows "\<exists>d sb'. UpdateScoreBoard last_ack p sb = Inr (d, sb') \<and> sb_ok sb' \<and>
           (\<forall>i. on_board sb' i \<longrightarrow> last_ack < i \<and>
                (sacked sb' i \<longleftrightarrow> sacked sb i \<or> i \<in> covered (hdr_blocks p))) \<and>
           (\<forall>i\<in>covered (hdr_blocks p). sb_first sb' \<le> i \<longrightarrow> sacked sb' i) \<and>
           d + outstanding sb' = outstanding sb"
proof -
  let ?f = "sb_first sb" and ?e = "sb_first sb + sb_length sb" and ?C = "covered (hdr_blocks p)"
  have rep: "sb_rep sb ?f ?e (node_at sb)" using assms(1) by (simp add: sb_ok_def)
  from UpdateScoreBoard_ok [OF rep assms(2-5)] obtain d sb' f' e' N' where
    u: "UpdateScoreBoard last_ack p sb = Inr (d, sb')" "sb_rep sb' f' e' N'"
      "d + retrans_of f' e' N' = retrans_of ?f ?e (node_at sb)" "f' < e' \<longrightarrow> last_ack < f'"
      "\<forall>i. f' \<le> i \<longrightarrow> i \<in> ?C \<longrightarrow> i < e'"
      "\<forall>i. f' \<le> i \<and> i < e' \<longrightarrow> N' i = mark_in ?C (boarded ?f ?e (node_at sb)) i" by blast
  note b = sb_rep_board [OF u(2)]
  have sack: "sacked sb' i \<longleftrightarrow> sacked sb i \<or> i \<in> ?C" if "on_board sb' i" for i
    using that u(6) b by (auto simp: sacked_def mark_in_def boarded_def on_board_def)
  have cov: "sacked sb' i" if "i \<in> ?C" "sb_first sb' \<le> i" for i
    using that sack u(5) b(1,4) by auto
  have la: "last_ack < i" if "on_board sb' i" for i using that b(1) u(4) by auto
  have "d + outstanding sb' = outstanding sb"
    using u(3) sb_rep_outstanding [OF u(2)] sb_rep_outstanding [OF rep] by simp
  then show ?thesis using u(1) b(3) sack cov la by blast
qed

text \<open>
  (C11) \<open>UpdateScoreBoard\<close> records exactly what an acknowledgement says. On a well-formed board and
  for blocks that end less than \<open>2^30 - 1\<close> packets above the cumulative acknowledgement it passes
  its assertions and size checks; every packet then on the board is above the cumulative
  acknowledgement and is marked if and only if it was marked before or lies in one of the blocks;
  every packet of a block that is not left of the board is on it and marked; and the value
  returned is the number of outstanding retransmissions that the acknowledgement accounts for.
\<close>
theorem scoreboard_tracks_sacks:
  assumes "sb_ok sb" "- 1 \<le> last_ack" "last_ack < 2 ^ 31 - 1"
    and "\<forall>(l, r)\<in>set (hdr_blocks p). r - last_ack < 2 ^ 30 - 1" "0 \<le> sa_length p"
  shows "\<exists>d sb'. UpdateScoreBoard last_ack p sb = Inr (d, sb') \<and> sb_ok sb' \<and>
           (\<forall>i. on_board sb' i \<longrightarrow> last_ack < i \<and>
                (sacked sb' i \<longleftrightarrow> sacked sb i \<or> i \<in> covered (hdr_blocks p))) \<and>
           (\<forall>i\<in>covered (hdr_blocks p). sb_first sb' \<le> i \<longrightarrow> sacked sb' i) \<and>
           d + outstanding sb' = outstanding sb"
  using Update_board [OF assms] .

definition sample_board :: scoreboard where
  "sample_board =
     new_ScoreBoard (replicate 8 (blank_node 0)) 8
       \<lparr>sb_first = 5, sb_length = 5, sbsize = 5, sb_changed = 5, SBN = [], fresh = blank_node 7\<rparr>"

definition sample_ack :: "int \<Rightarrow> int \<times> int \<Rightarrow> tpkt" where
  "sample_ack q b =
     (sample_pkt q 1)\<lparr>sack_area := [b, (0, 0), (0, 0), (0, 0)], sa_length := 1\<rparr>"

lemma sample_board_ok: "sb_ok sample_board"
  by (auto simp: sb_ok_def sb_rep_def sample_board_def new_ScoreBoard_def)

text \<open>An empty board of eight nodes and a SACK of packets 20 to 22: the board has to grow twice.\<close>
theorem scoreboard_tracks_sacks_witness:
  "\<exists>d sb'. UpdateScoreBoard 4 (sample_ack 4 (20, 23)) sample_board = Inr (d, sb') \<and> sb_ok sb' \<and>
           (\<forall>i. on_board sb' i \<longrightarrow> 4 < i \<and> (sacked sb' i \<longleftrightarrow> sacked sample_board i \<or> i \<in> {20..<23}))"
proof -
  have bs: "hdr_blocks (sample_ack 4 (20, 23)) = [(20, 23)]"
    by (simp add: hdr_blocks_def sample_ack_def)
  have hyps: "\<forall>(l, r)\<in>set (hdr_blocks (sample_ack 4 (20, 23))). r - 4 < (2 :: int) ^ 30 - 1"
    "0 \<le> sa_length (sample_ack 4 (20, 23))" "- 1 \<le> (4 :: int)" "(4 :: int) < 2 ^ 31 - 1"
    unfolding bs by (simp_all add: sample_ack_def)
  have cov: "covered (hdr_blocks (sample_ack 4 (20, 23))) = {20..<23}"
    by (simp add: bs covered_def)
  show ?thesis
    using scoreboard_tracks_sacks [OF sample_board_ok hyps(3,4,1,2)] unfolding cov by blast
qed

subsection \<open>Choosing what to retransmit\<close>

definition hole :: "scoreboard \<Rightarrow> int \<Rightarrow> bool" where
  "hole sb i \<longleftrightarrow> on_board sb i \<and> \<not> sacked sb i \<and> \<not> retransmitted sb i"

lemma GetNextRetran_cases:
  assumes ok: "sb_ok sb"
  shows "GetNextRetran sb = - 1 \<and> (\<forall>i. \<not> hole sb i) \<or>
         hole sb (GetNextRetran sb) \<and> (\<forall>i. hole sb i \<longrightarrow> GetNextRetran sb \<le> i)"
proof (cases "sb_length sb = 0")
  case True
  then show ?thesis by (simp add: GetNextRetran_def hole_def on_board_def)
next
  case False
  let ?f = "sb_first sb" and ?e = "sb_first sb + sb_length sb"
  let ?P = "\<lambda>i. \<not> ack_flag (node_at sb i) \<and> \<not> sack_flag (node_at sb i) \<and> \<not> retran (node_at sb i)"
  have pos: "0 < sb_length sb" using False ok by (simp add: sb_ok_def sb_rep_def)
  then have lo: "sb_seq_no (node_at sb ?f) = ?f"
    using sb_ok_node(1) [OF ok, of ?f] by (simp add: on_board_def)
  have hole: "hole sb i \<longleftrightarrow> ?f \<le> i \<and> i < ?e \<and> ?P i" for i
    using sb_ok_node(2) [OF ok, of i] by (auto simp: hole_def sacked_def retransmitted_def on_board_def)
  show ?thesis
  proof (cases "find ?P [?f .. ?e - 1]")
    case None
    then have "GetNextRetran sb = - 1" using False lo by (simp add: GetNextRetran_def)
    moreover have "\<not> hole sb i" for i using None hole [of i] by (auto simp: find_None_iff)
    ultimately show ?thesis by blast
  next
    case (Some r)
    then have r: "GetNextRetran sb = r" using False lo by (simp add: GetNextRetran_def)
    note F = find_upto_Some [OF Some]
    have "r \<le> i" if "hole sb i" for i
      using F that hole [of i] by (metis atLeastLessThan_iff not_le)
    moreover have "hole sb r" using F hole [of r] by auto
    ultimately show ?thesis unfolding r by blast
  qed
qed

lemma MarkRetran_board:
  assumes ok: "sb_ok sb" and r: "on_board sb r"
  shows "sb_ok (MarkRetran r sb)" "on_board (MarkRetran r sb) i = on_board sb i"
    "sacked (MarkRetran r sb) i = sacked sb i"
    "retransmitted (MarkRetran r sb) i \<longleftrightarrow> retransmitted sb i \<or> i = r"
proof -
  let ?f = "sb_first sb" and ?e = "sb_first sb + sb_length sb"
  let ?n = "(node_at sb r)\<lparr>retran := True\<rparr>"
  have "sb_rep (MarkRetran r sb) ?f ?e ((node_at sb)(r := ?n))"
    unfolding MarkRetran_def using ok r sb_ok_node [OF ok r]
    by (intro sb_rep_set) (simp_all add: sb_ok_def on_board_def)
  note b = sb_rep_board [OF this]
  show "sb_ok (MarkRetran r sb)" by (fact b(3))
  show "on_board (MarkRetran r sb) i = on_board sb i" using b(1) by (simp add: on_board_def)
  have at: "node_at (MarkRetran r sb) i = (if i = r then ?n else node_at sb i)" if "on_board sb i"
    using b(2) [of i] that by (simp add: on_board_def)
  have on: "on_board (MarkRetran r sb) i = on_board sb i" using b(1) by (simp add: on_board_def)
  show "sacked (MarkRetran r sb) i = sacked sb i"
    "retransmitted (MarkRetran r sb) i \<longleftrightarrow> retransmitted sb i \<or> i = r"
    using at on r by (cases "i = r"; auto simp: sacked_def retransmitted_def)+
qed

text \<open>
  The sender retransmits the holes in order, each once. On a well-formed board \<open>GetNextRetran\<close>
  returns the first packet that is neither marked as received nor retransmitted, and \<open>-1\<close> exactly
  if there is none; after \<open>MarkRetran\<close> of that packet the board is well formed, its holes are the
  others, and the next call returns a later packet or \<open>-1\<close>.
\<close>
theorem scoreboard_next_retran:
  assumes "sb_ok sb"
  shows "(GetNextRetran sb = - 1 \<longleftrightarrow> (\<forall>i. \<not> hole sb i)) \<and>
         (GetNextRetran sb \<noteq> - 1 \<longrightarrow>
            hole sb (GetNextRetran sb) \<and> (\<forall>i. hole sb i \<longrightarrow> GetNextRetran sb \<le> i) \<and>
            sb_ok (MarkRetran (GetNextRetran sb) sb) \<and>
            (\<forall>i. hole (MarkRetran (GetNextRetran sb) sb) i \<longleftrightarrow> hole sb i \<and> i \<noteq> GetNextRetran sb) \<and>
            (GetNextRetran (MarkRetran (GetNextRetran sb) sb) = - 1 \<or>
             GetNextRetran sb < GetNextRetran (MarkRetran (GetNextRetran sb) sb)))"
proof -
  let ?r = "GetNextRetran sb"
  let ?t = "MarkRetran ?r sb"
  have nonneg: "0 \<le> i" if "hole sb i" for i
    using assms that by (simp add: hole_def on_board_def sb_ok_def sb_rep_def)
  consider (none) "?r = - 1" "\<forall>i. \<not> hole sb i"
    | (some) "hole sb ?r" "\<forall>i. hole sb i \<longrightarrow> ?r \<le> i" using GetNextRetran_cases [OF assms] by blast
  then show ?thesis
  proof cases
    case some
    have on: "on_board sb ?r" using some(1) by (simp add: hole_def)
    note m = MarkRetran_board [OF assms on]
    have holes: "hole ?t i \<longleftrightarrow> hole sb i \<and> i \<noteq> ?r" for i using m(2-4) by (auto simp: hole_def)
    have "GetNextRetran ?t = - 1 \<or> ?r < GetNextRetran ?t"
      using GetNextRetran_cases [OF m(1)] holes some(2) by (metis order_le_less)
    then show ?thesis using some m(1) holes nonneg [OF some(1)] by auto
  qed simp
qed

definition sample_holes :: scoreboard where
  "sample_holes =
     \<lparr>sb_first = 5, sb_length = 3, sbsize = 4, sb_changed = 0,
      SBN = [blank_node 0, blank_node 5, (blank_node 6)\<lparr>retran := True\<rparr>,
             (blank_node 7)\<lparr>sack_flag := True\<rparr>],
      fresh = blank_node 0\<rparr>"

lemma sample_holes_ok: "sb_ok sample_holes"
proof -
  have "node_at sample_holes 5 = blank_node 5" "node_at sample_holes 6 = (blank_node 6)\<lparr>retran := True\<rparr>"
    "node_at sample_holes 7 = (blank_node 7)\<lparr>sack_flag := True\<rparr>"
    by (simp_all add: node_at_def sample_holes_def mod_slot_def)
  then have "sb_seq_no (node_at sample_holes i) = i \<and> \<not> ack_flag (node_at sample_holes i)"
    if "5 \<le> i" "i < 8" for i
  proof -
    have "i = 5 \<or> i = 6 \<or> i = 7" using that by auto
    with \<open>node_at sample_holes 5 = _\<close> \<open>node_at sample_holes 6 = _\<close> \<open>node_at sample_holes 7 = _\<close>
    show ?thesis by auto
  qed
  then show ?thesis
    by (simp add: sb_ok_def sb_rep_def) (simp add: sample_holes_def)
qed

text \<open>A board with a hole at 5, packet 6 retransmitted and packet 7 marked.\<close>
theorem scoreboard_next_retran_witness:
  "sb_ok sample_holes \<and> GetNextRetran sample_holes = 5 \<and> hole sample_holes 5 \<and>
   GetNextRetran (MarkRetran 5 sample_holes) = - 1"
proof -
  have "GetNextRetran sample_holes = 5" "GetNextRetran (MarkRetran 5 sample_holes) = - 1"
    by code_simp+
  then show ?thesis using scoreboard_next_retran [OF sample_holes_ok] sample_holes_ok by simp
qed

subsection \<open>Sink and board together\<close>

fun board_run :: "(int \<times> tpkt) list \<Rightarrow> scoreboard \<Rightarrow> scoreboard res" where
  "board_run [] sb = Inr sb"
| "board_run ((last_ack, q) # us) sb =
     res_bind (UpdateScoreBoard last_ack q sb) (\<lambda>(d, sb). board_run us sb)"

lemma board_run_ok:
  assumes "sb_ok sb" "\<forall>i. sacked sb i \<longrightarrow> i \<in> A"
    and "\<forall>(last_ack, q)\<in>set us. - 1 \<le> last_ack \<and> last_ack < 2 ^ 31 - 1 \<and> 0 \<le> sa_length q \<and>
           (\<forall>(l, r)\<in>set (hdr_blocks q). r - last_ack < 2 ^ 30 - 1) \<and> covered (hdr_blocks q) \<subseteq> A"
  shows "\<exists>sb'. board_run us sb = Inr sb' \<and> sb_ok sb' \<and> (\<forall>i. sacked sb' i \<longrightarrow> i \<in> A)"
  using assms
proof (induction us arbitrary: sb)
  case (Cons u us)
  obtain la q where u: "u = (la, q)" by fastforce
  have q: "- 1 \<le> la" "la < 2 ^ 31 - 1" "\<forall>(l, r)\<in>set (hdr_blocks q). r - la < 2 ^ 30 - 1"
    "0 \<le> sa_length q" "covered (hdr_blocks q) \<subseteq> A" using Cons.prems(3) u by auto
  obtain d t where t: "UpdateScoreBoard la q sb = Inr (d, t)" "sb_ok t"
    "\<forall>i. on_board t i \<longrightarrow> (sacked t i \<longleftrightarrow> sacked sb i \<or> i \<in> covered (hdr_blocks q))"
    using Update_board [OF Cons.prems(1) q(1-4)] by blast
  have "\<forall>i. sacked t i \<longrightarrow> i \<in> A" using t(3) q(5) Cons.prems(2) by (auto simp: sacked_def)
  from Cons.IH [OF t(2) this] Cons.prems(3) t(1) show ?case by (simp add: u)
qed simp

text \<open>The blocks of an acknowledgement that reports only received packets.\<close>

lemma sacks_ok_blocks:
  assumes "sacks_ok h mx q" "\<forall>i. h i \<noteq> 0 \<longleftrightarrow> i \<in> A" "\<forall>i\<in>A. i < 2 ^ 29" "- 1 \<le> last_ack"
  shows "0 \<le> sa_length q" "\<forall>(l, r)\<in>set (hdr_blocks q). r - last_ack < 2 ^ 30 - 1"
    "covered (hdr_blocks q) \<subseteq> A"
proof -
  have blk: "b \<in> set (hdr_blocks q) \<Longrightarrow> block_got h mx b" for b
    using assms(1) by (auto simp: sacks_ok_def hdr_blocks_def)
  show "0 \<le> sa_length q" using assms(1) by (simp add: sacks_ok_def)
  show "covered (hdr_blocks q) \<subseteq> A"
    using blk assms(2) by (fastforce simp: covered_def block_got_def)
  show "\<forall>(l, r)\<in>set (hdr_blocks q). r - last_ack < 2 ^ 30 - 1"
  proof clarify
    fix l r assume "(l, r) \<in> set (hdr_blocks q)"
    then have "l < r" "h (r - 1) \<noteq> 0" using blk by (force simp: block_got_def)+
    then have "r - 1 < 2 ^ 29" using assms(2,3) by blast
    then show "r - last_ack < 2 ^ 30 - 1" using assms(4) by simp
  qed
qed

end
