(* ===== verification/Tcp_Rtt.thy ===== *)
theory Tcp_Rtt
  imports Prelude
begin

section \<open>Round-trip time and retransmission timeout (\<open>tcp/tcp.cc\<close>: \<open>rtt_*\<close>)\<close>

text \<open>
  The part of \<open>TcpAgent\<close> that estimates the round-trip time and computes the retransmission
  timeout. \<open>t_srtt_\<close> and \<open>t_rttvar_\<close> are fixed-point numbers of clock ticks with \<open>T_SRTT_BITS\<close>
  and \<open>T_RTTVAR_BITS\<close> fractional bits; the difference of a sample and the estimate is kept in a
  \<open>short\<close>. \<open>rtt_conf\<close> has the bound parameters, which the code never writes, and \<open>rtt\<close> the state.
\<close>

subsection \<open>State and operations\<close>

record rtt_conf =
  T_SRTT_BITS :: int
  T_RTTVAR_BITS :: int
  rttvar_exp :: int
  srtt_init :: int
  rttvar_init :: int
  rtxcur_init :: real
  tcp_tick :: real
  minrto :: real
  maxrto :: real
  rfc2988 :: bool
  ts_option :: bool

record rtt =
  t_rtt :: int
  t_srtt :: int
  t_rttvar :: int
  t_rtxcur :: real
  t_backoff :: int
  use_rtt :: bool
  boot_time :: real

definition rtt_init :: "rtt_conf \<Rightarrow> rtt \<Rightarrow> rtt res" where
  "rtt_init c r =
     (if tcp_tick c = 0 then Inl NotFinite
      else res_bind (shl (int_of_double (of_int (srtt_init c) / tcp_tick c)) (T_SRTT_BITS c)) (\<lambda>srtt.
           res_bind (shl (int_of_double (of_int (rttvar_init c) / tcp_tick c)) (T_RTTVAR_BITS c)) (\<lambda>rttvar.
             Inr (r\<lparr>t_rtt := 0, t_srtt := srtt, t_rttvar := rttvar, t_rtxcur := rtxcur_init c,
                    t_backoff := 1\<rparr>))))"

definition rto_scaled :: "rtt_conf \<Rightarrow> rtt \<Rightarrow> real" where
  "rto_scaled c r =
     (let timeout =
            (if rfc2988 c
             then if t_rtxcur r < minrto c \<and> \<not> use_rtt r
                  then minrto c * of_int (t_backoff r) else t_rtxcur r * of_int (t_backoff r)
             else let timeout = t_rtxcur r * of_int (t_backoff r)
                  in if timeout < minrto c then minrto c else timeout)
      in if maxrto c < timeout then maxrto c else timeout)"

definition rtt_timeout :: "rtt_conf \<Rightarrow> rtt \<Rightarrow> (real \<times> rtt) res" where
  "rtt_timeout c r =
     (let timeout = rto_scaled c r
      in if timeout < 2 * tcp_tick c
         then if timeout < 0 then Inl NegativeRTO
              else if use_rtt r \<and> timeout < tcp_tick c
                   then Inr (tcp_tick c, r\<lparr>use_rtt := False\<rparr>)
                   else Inr (2 * tcp_tick c, r\<lparr>use_rtt := False\<rparr>)
         else Inr (timeout, r\<lparr>use_rtt := False\<rparr>))"

text \<open>The sample of \<open>rtt_update\<close> in ticks, and the exponentially weighted averages.\<close>

definition rtt_sample :: "rtt_conf \<Rightarrow> time \<Rightarrow> real \<Rightarrow> rtt \<Rightarrow> int" where
  "rtt_sample c now tao r =
     (let m = (if ts_option c then int_of_double (tao / tcp_tick c + 1 / 2)
               else let sendtime = now - tao + boot_time r;
                        tickoff = fmod sendtime (tcp_tick c)
                    in int_of_double ((tao + tickoff) / tcp_tick c))
      in if m < 1 then 1 else m)"

definition rtt_smooth :: "rtt_conf \<Rightarrow> rtt \<Rightarrow> rtt res" where
  "rtt_smooth c r =
     (if t_srtt r \<noteq> 0
      then res_bind (shr (t_srtt r) (T_SRTT_BITS c)) (\<lambda>srtt.
           res_bind (shr (t_rttvar r) (T_RTTVAR_BITS c)) (\<lambda>rttvar.
             let delta = int16_of (t_rtt r - srtt);
                 srtt' = t_srtt r + delta;
                 delta = (if delta < 0 then int16_of (- delta) else delta);
                 delta = int16_of (delta - rttvar);
                 rttvar' = t_rttvar r + delta
             in Inr (r\<lparr>t_srtt := (if srtt' \<le> 0 then 1 else srtt'),
                       t_rttvar := (if rttvar' \<le> 0 then 1 else rttvar')\<rparr>)))
      else res_bind (shl (t_rtt r) (T_SRTT_BITS c)) (\<lambda>srtt.
           res_bind (shl (t_rtt r) (T_RTTVAR_BITS c - 1)) (\<lambda>rttvar.
             Inr (r\<lparr>t_srtt := srtt, t_rttvar := rttvar\<rparr>))))"

definition rtt_rtxcur :: "rtt_conf \<Rightarrow> rtt \<Rightarrow> rtt res" where
  "rtt_rtxcur c r =
     res_bind (shl (t_rttvar r) (rttvar_exp c + (T_SRTT_BITS c - T_RTTVAR_BITS c))) (\<lambda>v.
     res_bind (shr (v + t_srtt r) (T_SRTT_BITS c)) (\<lambda>x.
       Inr (r\<lparr>t_rtxcur := of_int x * tcp_tick c\<rparr>)))"

definition rtt_update :: "rtt_conf \<Rightarrow> time \<Rightarrow> real \<Rightarrow> rtt \<Rightarrow> rtt res" where
  "rtt_update c now tao r =
     (if tcp_tick c = 0 then Inl NotFinite
      else res_bind (rtt_smooth c (r\<lparr>t_rtt := rtt_sample c now tao r\<rparr>)) (rtt_rtxcur c))"

text \<open>
  The call of \<open>rtt_timeout\<close> in the test also clears \<open>use_rtt_\<close>. The doubling is the mathematical one: with
  \<open>rfc2988_\<close> only \<open>maxrto_\<close> ends it, which with a tick of \<open>t\<close> and no smaller estimate it does at
  \<open>t_backoff_\<close> of about \<open>maxrto_ / t\<close>; an estimate of zero would let the code double beyond 31 bits.
\<close>

definition rtt_backoff :: "rtt_conf \<Rightarrow> rtt \<Rightarrow> rtt res" where
  "rtt_backoff c r =
     res_bind (if t_backoff r < 64 then Inr (True, r)
               else if rfc2988 c
               then res_bind (rtt_timeout c r) (\<lambda>(timeout, r). Inr (timeout < maxrto c, r))
               else Inr (False, r))
       (\<lambda>(double, r).
         let r = (if double then r\<lparr>t_backoff := t_backoff r * 2\<rparr> else r)
         in if 8 < t_backoff r
            then res_bind (shr (t_srtt r) (T_SRTT_BITS c)) (\<lambda>srtt.
                   Inr (r\<lparr>t_rttvar := t_rttvar r + srtt, t_srtt := 0\<rparr>))
            else Inr r)"

subsection \<open>The estimator is well-formed and its timeout bounded\<close>

definition rtt_conf_ok :: "rtt_conf \<Rightarrow> bool" where
  "rtt_conf_ok c \<longleftrightarrow>
     0 < tcp_tick c \<and> 0 \<le> T_SRTT_BITS c \<and> T_SRTT_BITS c < 32 \<and>
     1 \<le> T_RTTVAR_BITS c \<and> T_RTTVAR_BITS c < 32 \<and> T_RTTVAR_BITS c \<le> rttvar_exp c \<and>
     rttvar_exp c + (T_SRTT_BITS c - T_RTTVAR_BITS c) < 32 \<and>
     0 \<le> srtt_init c \<and> 0 \<le> rttvar_init c \<and> tcp_tick c \<le> rtxcur_init c \<and> 0 \<le> minrto c \<and> 0 \<le> maxrto c"

definition rtt_ok :: "rtt_conf \<Rightarrow> rtt \<Rightarrow> bool" where
  "rtt_ok c r \<longleftrightarrow> 0 \<le> t_srtt r \<and> 0 \<le> t_rttvar r \<and> tcp_tick c \<le> t_rtxcur r \<and> (\<exists>k. t_backoff r = 2 ^ k)"

declare rtt_ok_def [inv_simps]

lemma shl_ok: "0 \<le> n \<Longrightarrow> n < 32 \<Longrightarrow> shl x n = Inr (x * 2 ^ nat n)"
  by (simp add: shl_def)

lemma shr_ok: "0 \<le> n \<Longrightarrow> n < 32 \<Longrightarrow> shr x n = Inr (x div 2 ^ nat n)"
  by (simp add: shr_def)

lemmas rtt_conf_shifts = shl_ok shr_ok rtt_conf_ok_def

lemma rtt_ok_frame [simp]:
  "rtt_ok c (r\<lparr>use_rtt := b\<rparr>) = rtt_ok c r" "rtt_ok c (r\<lparr>t_rtt := n\<rparr>) = rtt_ok c r"
  "rtt_ok c (r\<lparr>boot_time := t\<rparr>) = rtt_ok c r"
  by (simp_all add: rtt_ok_def)

lemma rtt_ok_reset_backoff [simp]: "rtt_ok c r \<Longrightarrow> rtt_ok c (r\<lparr>t_backoff := 1\<rparr>)"
  unfolding rtt_ok_def by (auto intro: exI [of _ 0])

lemma rtt_ok_backoff: "rtt_ok c r \<Longrightarrow> 1 \<le> t_backoff r"
  by (auto simp: rtt_ok_def)

lemma rtt_init_ok:
  assumes "rtt_conf_ok c"
  shows "\<exists>r'. rtt_init c r = Inr r' \<and> rtt_ok c r' \<and> t_backoff r' = 1 \<and> t_rtxcur r' = rtxcur_init c \<and>
           boot_time r' = boot_time r \<and> use_rtt r' = use_rtt r"
  using assms by (auto simp: rtt_init_def rtt_conf_shifts rtt_ok_def intro: exI [of _ 0])

text \<open>The value of the timeout before it is raised to two ticks.\<close>

lemma rto_scaled_bounds:
  assumes c: "rtt_conf_ok c" and r: "rtt_ok c r"
  shows "0 \<le> rto_scaled c r" "rto_scaled c r \<le> maxrto c"
    and "\<not> use_rtt r \<Longrightarrow> min (minrto c) (maxrto c) \<le> rto_scaled c r"
    and "\<not> use_rtt r \<Longrightarrow> min (t_rtxcur r * of_int (t_backoff r)) (maxrto c) \<le> rto_scaled c r"
proof -
  have b: "1 \<le> real_of_int (t_backoff r)" using rtt_ok_backoff [OF r] by simp
  have nn: "0 \<le> minrto c" "0 \<le> maxrto c" "0 \<le> t_rtxcur r"
    using c r by (auto simp: rtt_conf_ok_def rtt_ok_def)
  have m: "minrto c \<le> minrto c * of_int (t_backoff r)" "t_rtxcur r \<le> t_rtxcur r * of_int (t_backoff r)"
    using mult_left_mono [OF b nn(1)] mult_left_mono [OF b nn(3)] by simp_all
  have lt: "t_rtxcur r * of_int (t_backoff r) \<le> minrto c * of_int (t_backoff r)"
    if "t_rtxcur r < minrto c" using that b by (intro mult_right_mono) simp_all
  show "0 \<le> rto_scaled c r" using m nn by (auto simp: rto_scaled_def Let_def)
  show "rto_scaled c r \<le> maxrto c" by (simp add: rto_scaled_def Let_def)
  show "min (minrto c) (maxrto c) \<le> rto_scaled c r" if "\<not> use_rtt r"
    using m nn that by (auto simp: rto_scaled_def Let_def min_def)
  show "min (t_rtxcur r * of_int (t_backoff r)) (maxrto c) \<le> rto_scaled c r" if "\<not> use_rtt r"
    using lt that by (auto simp: rto_scaled_def Let_def min_def)
qed

definition rto_ok :: "rtt_conf \<Rightarrow> real \<Rightarrow> bool" where
  "rto_ok c t \<longleftrightarrow> tcp_tick c \<le> t \<and> t \<le> max (maxrto c) (2 * tcp_tick c)"

lemma rto_ok_pos: "rtt_conf_ok c \<Longrightarrow> rto_ok c t \<Longrightarrow> 0 < t"
  by (simp add: rto_ok_def rtt_conf_ok_def)

lemma rtt_timeout_ok:
  assumes c: "rtt_conf_ok c" and r: "rtt_ok c r"
  shows "\<exists>t. rtt_timeout c r = Inr (t, r\<lparr>use_rtt := False\<rparr>) \<and> rto_ok c t \<and>
           (\<not> use_rtt r \<longrightarrow> t = max (rto_scaled c r) (2 * tcp_tick c))"
  using rto_scaled_bounds(1,2) [OF c r] c
  by (auto simp: rtt_timeout_def Let_def rto_ok_def rtt_conf_ok_def)

lemma rtt_sample_pos: "1 \<le> rtt_sample c now tao r"
  by (simp add: rtt_sample_def Let_def)

lemma rtt_smooth_ok:
  assumes c: "rtt_conf_ok c" and r: "rtt_ok c r" "1 \<le> t_rtt r"
  shows "\<exists>r'. rtt_smooth c r = Inr r' \<and> rtt_ok c r' \<and> 1 \<le> t_srtt r' \<and> 1 \<le> t_rttvar r' \<and>
           t_rtxcur r' = t_rtxcur r \<and> t_rtt r' = t_rtt r \<and> t_backoff r' = t_backoff r \<and>
           use_rtt r' = use_rtt r \<and> boot_time r' = boot_time r"
proof -
  have "1 \<le> t_rtt r * 2 ^ n" for n
    using mult_mono [OF r(2), of 1 "2 ^ n"] r(2) by simp
  then show ?thesis
    using c r by (auto simp: rtt_smooth_def Let_def rtt_conf_shifts rtt_ok_def)
qed

lemma rtt_update_ok:
  assumes c: "rtt_conf_ok c" and r: "rtt_ok c r"
  shows "\<exists>r'. rtt_update c now tao r = Inr r' \<and> rtt_ok c r' \<and> t_rtt r' = rtt_sample c now tao r \<and>
           1 \<le> t_srtt r' \<and> t_backoff r' = t_backoff r \<and> use_rtt r' = use_rtt r"
proof -
  have s: "1 \<le> t_rtt (r\<lparr>t_rtt := rtt_sample c now tao r\<rparr>)" using rtt_sample_pos by simp
  obtain r' where r': "rtt_smooth c (r\<lparr>t_rtt := rtt_sample c now tao r\<rparr>) = Inr r'" "rtt_ok c r'"
    "1 \<le> t_srtt r'" "1 \<le> t_rttvar r'" "t_rtt r' = rtt_sample c now tao r"
    "t_backoff r' = t_backoff r" "use_rtt r' = use_rtt r"
    using rtt_smooth_ok [OF c _ s] r by auto
  let ?n = "nat (rttvar_exp c + (T_SRTT_BITS c - T_RTTVAR_BITS c))" and ?b = "nat (T_SRTT_BITS c)"
  let ?x = "t_rttvar r' * 2 ^ ?n + t_srtt r'"
  have "1 * 2 ^ ?b \<le> t_rttvar r' * 2 ^ ?n"
    using r'(4) c by (intro mult_mono power_increasing) (simp_all add: rtt_conf_ok_def nat_mono)
  then have "2 ^ ?b \<le> ?x" using r'(3) by linarith
  then have "2 ^ ?b div 2 ^ ?b \<le> ?x div 2 ^ ?b" by (rule zdiv_mono1) simp
  then have "1 * tcp_tick c \<le> of_int (?x div 2 ^ ?b) * tcp_tick c"
    using c by (intro mult_right_mono) (simp_all add: rtt_conf_ok_def)
  then show ?thesis
    using c r' by (auto simp: rtt_update_def rtt_rtxcur_def rtt_conf_shifts rtt_ok_def)
qed

lemma rtt_backoff_ok:
  assumes c: "rtt_conf_ok c" and r: "rtt_ok c r"
  shows "\<exists>r'. rtt_backoff c r = Inr r' \<and> rtt_ok c r' \<and> t_rtxcur r' = t_rtxcur r \<and>
           (t_backoff r' = t_backoff r \<or> t_backoff r' = 2 * t_backoff r) \<and>
           (t_backoff r < 64 \<longrightarrow> t_backoff r' = 2 * t_backoff r)"
proof -
  obtain t where t: "rtt_timeout c r = Inr (t, r\<lparr>use_rtt := False\<rparr>)"
    using rtt_timeout_ok [OF c r] by blast
  let ?test = "if t_backoff r < 64 then Inr (True, r)
      else if rfc2988 c then res_bind (rtt_timeout c r) (\<lambda>(timeout, r). Inr (timeout < maxrto c, r))
      else Inr (False, r)"
  obtain b q where q: "?test = Inr (b, q)" "q = r \<or> q = r\<lparr>use_rtt := False\<rparr>" "t_backoff r < 64 \<longrightarrow> b"
    using t by (cases "t_backoff r < 64"; cases "rfc2988 c") auto
  let ?r = "if b then q\<lparr>t_backoff := t_backoff q * 2\<rparr> else q"
  let ?clobbered = "?r\<lparr>t_rttvar := t_rttvar ?r + t_srtt ?r div 2 ^ nat (T_SRTT_BITS c), t_srtt := 0\<rparr>"
  have sel: "t_rtxcur q = t_rtxcur r" "t_backoff q = t_backoff r" "rtt_ok c q"
    using q(2) r by auto
  have ok: "rtt_ok c ?r"
    using sel(3) unfolding rtt_ok_def by (auto simp: mult.commute intro: exI [where x = "Suc k" for k])
  then have "rtt_ok c ?clobbered"
    by (simp add: rtt_ok_def pos_imp_zdiv_nonneg_iff)
  moreover have "rtt_backoff c r = Inr (if 8 < t_backoff ?r then ?clobbered else ?r)"
    unfolding rtt_backoff_def q(1) using c by (simp add: Let_def shr_ok rtt_conf_ok_def)
  ultimately show ?thesis using ok q(3) sel(1,2) by auto
qed

subsection \<open>The estimate lies between the smallest and the largest sample\<close>

lemma int16_of_id: "- (2 ^ 15) \<le> n \<Longrightarrow> n < 2 ^ 15 \<Longrightarrow> int16_of n = n"
  by (simp add: int16_of_def)

text \<open>One step of a fixed-point average with \<open>b\<close> fractional bits.\<close>

lemma average_le:
  fixes s m u :: int
  assumes "s < 2 ^ b * (u + 1)" "m \<le> u"
  shows "s + (m - s div 2 ^ b) < 2 ^ b * (u + 1)"
proof -
  let ?q = "s div 2 ^ b"
  have "s = 2 ^ b * ?q + s mod 2 ^ b" "0 \<le> s mod 2 ^ b" "s mod 2 ^ b < 2 ^ b" by simp_all
  have "?q \<le> u"
  proof (rule ccontr)
    assume "\<not> ?q \<le> u"
    then have "2 ^ b * (u + 1) \<le> 2 ^ b * ?q" by (intro mult_left_mono) simp_all
    also have "\<dots> \<le> s" using \<open>s = _\<close> \<open>0 \<le> s mod 2 ^ b\<close> by linarith
    finally show False using assms(1) by simp
  qed
  then have "(2 ^ b - 1) * ?q \<le> (2 ^ b - 1) * u" by (intro mult_left_mono) simp_all
  then have "2 ^ b * ?q - ?q \<le> 2 ^ b * u - u" by (simp add: algebra_simps)
  moreover have "2 ^ b * (u + 1) = 2 ^ b * u + 2 ^ b" by (simp add: algebra_simps)
  ultimately show ?thesis using \<open>s = _\<close> \<open>s mod 2 ^ b < 2 ^ b\<close> assms(2) by linarith
qed

lemma average_ge:
  fixes s m l :: int
  assumes "2 ^ b * l \<le> s" "l \<le> m"
  shows "2 ^ b * l \<le> s + (m - s div 2 ^ b)"
proof -
  let ?q = "s div 2 ^ b"
  have "s = 2 ^ b * ?q + s mod 2 ^ b" "0 \<le> s mod 2 ^ b" by simp_all
  have "l = (2 ^ b * l) div 2 ^ b" by simp
  also have "\<dots> \<le> ?q" using assms(1) by (rule zdiv_mono1) simp
  finally have "(2 ^ b - 1) * l \<le> (2 ^ b - 1) * ?q" by (intro mult_left_mono) simp_all
  then have "2 ^ b * l - l \<le> 2 ^ b * ?q - ?q" by (simp add: algebra_simps)
  with \<open>s = _\<close> \<open>0 \<le> s mod 2 ^ b\<close> assms(2) show ?thesis by linarith
qed

definition rtt_within :: "rtt_conf \<Rightarrow> int \<Rightarrow> int \<Rightarrow> rtt \<Rightarrow> bool" where
  "rtt_within c l u r \<longleftrightarrow>
     2 ^ nat (T_SRTT_BITS c) * l \<le> t_srtt r \<and> t_srtt r < 2 ^ nat (T_SRTT_BITS c) * (u + 1) \<and>
     1 \<le> t_rttvar r \<and> t_rttvar r < 2 ^ nat (T_RTTVAR_BITS c) * (u + 1)"

lemma div_pow2_within:
  fixes s l u :: int
  assumes "2 ^ b * l \<le> s" "s < 2 ^ b * (u + 1)"
  shows "l \<le> s div 2 ^ b" "s div 2 ^ b \<le> u"
proof -
  have "(2 ^ b * l) div 2 ^ b \<le> s div 2 ^ b" using assms(1) by (rule zdiv_mono1) simp
  then show "l \<le> s div 2 ^ b" by simp
  have "s div 2 ^ b \<le> (2 ^ b * (u + 1) - 1) div 2 ^ b" using assms(2) by (intro zdiv_mono1) simp_all
  also have "\<dots> = u" by (simp add: int_div_pos_eq [of _ "2 ^ b" u "2 ^ b - 1"] algebra_simps)
  finally show "s div 2 ^ b \<le> u" .
qed

lemma rtt_smooth_within:
  assumes c: "rtt_conf_ok c" and m: "1 \<le> l" "l \<le> t_rtt r" "t_rtt r \<le> u" "u < 2 ^ 15"
    and r: "t_srtt r = 0 \<or> rtt_within c l u r"
  shows "\<exists>r'. rtt_smooth c r = Inr r' \<and> rtt_within c l u r'"
proof (cases "t_srtt r = 0")
  case True
  let ?b = "nat (T_SRTT_BITS c)" and ?v = "nat (T_RTTVAR_BITS c)"
  have v: "nat (T_RTTVAR_BITS c - 1) = ?v - 1" "1 \<le> ?v" using c by (auto simp: rtt_conf_ok_def)
  have "(1 :: int) * 1 \<le> t_rtt r * 2 ^ (?v - 1)" using m by (intro mult_mono) simp_all
  moreover have "t_rtt r * 2 ^ (?v - 1) \<le> u * 2 ^ ?v" using m by (intro mult_mono) (auto intro: power_increasing)
  moreover have "u * 2 ^ ?v < 2 ^ ?v * (u + 1)" by (simp add: algebra_simps)
  moreover have "2 ^ ?b * l \<le> t_rtt r * 2 ^ ?b" "t_rtt r * 2 ^ ?b < 2 ^ ?b * (u + 1)"
    using m by (simp_all add: mult.commute)
  ultimately have "rtt_within c l u
      (r\<lparr>t_srtt := t_rtt r * 2 ^ ?b, t_rttvar := t_rtt r * 2 ^ (?v - 1)\<rparr>)"
    unfolding rtt_within_def by (auto intro: order.strict_trans1)
  with True c v show ?thesis by (simp add: rtt_smooth_def rtt_conf_shifts)
next
  case False
  let ?b = "nat (T_SRTT_BITS c)" and ?v = "nat (T_RTTVAR_BITS c)"
  let ?q = "t_srtt r div 2 ^ ?b" and ?w = "t_rttvar r div 2 ^ ?v"
  have w: "rtt_within c l u r" using r False by simp
  have q: "l \<le> ?q" "?q \<le> u" and wv: "0 \<le> ?w" "?w \<le> u"
    using w div_pow2_within [of ?b l "t_srtt r" u] div_pow2_within [of ?v 0 "t_rttvar r" u]
    by (simp_all add: rtt_within_def)
  let ?d = "t_rtt r - ?q"
  let ?srtt = "t_srtt r + ?d" and ?rttvar = "t_rttvar r + (\<bar>?d\<bar> - ?w)"
  have d: "int16_of ?d = ?d" "?d < 0 \<Longrightarrow> int16_of (- ?d) = - ?d" "int16_of (\<bar>?d\<bar> - ?w) = \<bar>?d\<bar> - ?w"
    using m q wv by (auto intro!: int16_of_id)
  have s: "2 ^ ?b * l \<le> ?srtt" "?srtt < 2 ^ ?b * (u + 1)"
    using average_ge [of ?b l "t_srtt r" "t_rtt r"] average_le [of "t_srtt r" ?b u "t_rtt r"] w m
    by (simp_all add: rtt_within_def)
  have "\<bar>?d\<bar> \<le> u" using m q by linarith
  then have v: "?rttvar < 2 ^ ?v * (u + 1)"
    using average_le [of "t_rttvar r" ?v u "\<bar>?d\<bar>"] w by (simp add: rtt_within_def)
  have "1 \<le> 2 ^ ?b * l" using mult_mono [of 1 "2 ^ ?b" 1 l] m(1) by simp
  then have "\<not> ?srtt \<le> 0" using s(1) by linarith
  moreover have "(1 :: int) < 2 ^ ?v * (u + 1)" using mult_mono [of 1 "2 ^ ?v" 2 "u + 1"] m by simp
  ultimately have "rtt_within c l u
      (r\<lparr>t_srtt := (if ?srtt \<le> 0 then 1 else ?srtt), t_rttvar := (if ?rttvar \<le> 0 then 1 else ?rttvar)\<rparr>)"
    using s v by (simp add: rtt_within_def)
  moreover have "(if t_rtt r < ?q then int16_of (?q - t_rtt r) else ?d) = \<bar>?d\<bar>"
    using d(2) by (auto simp: abs_if)
  ultimately show ?thesis
    using False c by (simp add: rtt_smooth_def Let_def rtt_conf_shifts d(1,3) cong: if_cong split del: if_split)
qed

text \<open>The timeout that follows from such an estimate.\<close>

definition rto_within :: "rtt_conf \<Rightarrow> int \<Rightarrow> int \<Rightarrow> rtt \<Rightarrow> bool" where
  "rto_within c l u r \<longleftrightarrow>
     of_int l * tcp_tick c \<le> t_rtxcur r \<and>
     t_rtxcur r \<le> of_int ((2 ^ nat (rttvar_exp c) + 1) * (u + 1)) * tcp_tick c"

lemma rtt_rtxcur_within:
  assumes c: "rtt_conf_ok c" and w: "rtt_within c l u r"
  shows "\<exists>r'. rtt_rtxcur c r = Inr r' \<and> rtt_within c l u r' \<and> rto_within c l u r'"
proof -
  let ?b = "nat (T_SRTT_BITS c)" and ?v = "nat (T_RTTVAR_BITS c)" and ?e = "nat (rttvar_exp c)"
  let ?n = "nat (rttvar_exp c + (T_SRTT_BITS c - T_RTTVAR_BITS c))"
  let ?x = "t_rttvar r * 2 ^ ?n + t_srtt r"
  have "?n + ?v = ?e + ?b" using c by (simp add: rtt_conf_ok_def nat_add_distrib [symmetric])
  then have e: "(2 :: int) ^ ?n * 2 ^ ?v = 2 ^ ?e * 2 ^ ?b" by (simp add: power_add [symmetric])
  have "t_rttvar r * 2 ^ ?n \<le> 2 ^ ?v * (u + 1) * 2 ^ ?n"
    using w by (intro mult_right_mono) (simp_all add: rtt_within_def)
  also have "\<dots> = 2 ^ ?b * (2 ^ ?e * (u + 1))" using e by (simp add: algebra_simps)
  finally have "?x < 2 ^ ?b * ((2 ^ ?e + 1) * (u + 1) - 1 + 1)"
    using w by (simp add: rtt_within_def algebra_simps)
  moreover have "0 \<le> t_rttvar r * 2 ^ ?n" using w by (simp add: rtt_within_def)
  then have "2 ^ ?b * l \<le> ?x" using w unfolding rtt_within_def by linarith
  ultimately have "l \<le> ?x div 2 ^ ?b" "?x div 2 ^ ?b \<le> (2 ^ ?e + 1) * (u + 1)"
    using div_pow2_within [of ?b l ?x "(2 ^ ?e + 1) * (u + 1) - 1"] by simp_all
  then have "rto_within c l u (r\<lparr>t_rtxcur := of_int (?x div 2 ^ ?b) * tcp_tick c\<rparr>)"
    using c unfolding rto_within_def rtt_conf_ok_def
    by (simp add: mult_right_mono del: of_int_add of_int_mult)
  moreover have "rtt_within c l u (r\<lparr>t_rtxcur := y\<rparr>)" for y using w by (simp add: rtt_within_def)
  ultimately show ?thesis using c by (simp add: rtt_rtxcur_def rtt_conf_shifts)
qed

text \<open>A sequence of measurements, each with the time it is made.\<close>

fun rtt_updates :: "rtt_conf \<Rightarrow> (time \<times> real) list \<Rightarrow> rtt \<Rightarrow> rtt res" where
  "rtt_updates c [] r = Inr r"
| "rtt_updates c ((now, tao) # xs) r = res_bind (rtt_update c now tao r) (rtt_updates c xs)"

lemma rtt_update_within:
  assumes c: "rtt_conf_ok c" and m: "1 \<le> l" "l \<le> rtt_sample c now tao r" "rtt_sample c now tao r \<le> u" "u < 2 ^ 15"
    and r: "t_srtt r = 0 \<or> rtt_within c l u r"
  shows "\<exists>r'. rtt_update c now tao r = Inr r' \<and> rtt_within c l u r' \<and> rto_within c l u r'"
proof -
  let ?r = "r\<lparr>t_rtt := rtt_sample c now tao r\<rparr>"
  have "t_srtt ?r = 0 \<or> rtt_within c l u ?r" using r by (simp add: rtt_within_def)
  then obtain q where q: "rtt_smooth c ?r = Inr q" "rtt_within c l u q"
    using rtt_smooth_within [OF c m(1) _ _ m(4), of ?r] m by auto
  then show ?thesis using rtt_rtxcur_within [OF c q(2)] c by (auto simp: rtt_update_def rtt_conf_ok_def)
qed

text \<open>A measurement depends only on the clock offset, which no measurement changes.\<close>

lemma rtt_update_boot_time:
  "rtt_update c now tao r = Inr r' \<Longrightarrow> boot_time r' = boot_time r"
  by (auto simp: rtt_update_def rtt_smooth_def rtt_rtxcur_def Let_def split: if_splits)

lemma rtt_sample_boot_time: "boot_time r' = boot_time r \<Longrightarrow> rtt_sample c now tao r' = rtt_sample c now tao r"
  by (simp add: rtt_sample_def)

lemma rtt_updates_within:
  assumes c: "rtt_conf_ok c" and m: "1 \<le> l" "u < 2 ^ 15"
    and xs: "\<forall>(now, tao)\<in>set xs. l \<le> rtt_sample c now tao r \<and> rtt_sample c now tao r \<le> u"
    and r: "t_srtt r = 0 \<or> rtt_within c l u r"
  shows "\<exists>r'. rtt_updates c xs r = Inr r' \<and>
           (xs \<noteq> [] \<longrightarrow> rtt_within c l u r' \<and> rto_within c l u r')"
  using xs r
proof (induction xs arbitrary: r)
  case (Cons x xs)
  obtain now tao where x: "x = (now, tao)" by fastforce
  obtain q where q: "rtt_update c now tao r = Inr q" "rtt_within c l u q" "rto_within c l u q"
    using rtt_update_within [OF c m(1) _ _ m(2) Cons.prems(2), of now tao] Cons.prems(1) x by auto
  have "\<forall>(now, tao)\<in>set xs. l \<le> rtt_sample c now tao q \<and> rtt_sample c now tao q \<le> u"
    using Cons.prems(1) rtt_sample_boot_time [OF rtt_update_boot_time [OF q(1)]] by simp
  from Cons.IH [OF this] q show ?case by (cases "xs = []") (auto simp: x)
qed simp

lemma rtt_updates_backoff: "rtt_updates c xs r = Inr r' \<Longrightarrow> t_backoff r' = t_backoff r"
proof (induction c xs r rule: rtt_updates.induct)
  case (2 c now tao xs r)
  then obtain q where q: "rtt_update c now tao r = Inr q" "rtt_updates c xs q = Inr r'" by auto
  have "t_backoff q = t_backoff r"
    using q(1) by (auto simp: rtt_update_def rtt_smooth_def rtt_rtxcur_def Let_def split: if_splits)
  with 2 q show ?case by simp
qed simp

end
