(* ===== verification/Tcp_Window.thy ===== *)
theory Tcp_Window
  imports Tcp_Rtt
begin

section \<open>Congestion window of TCP (\<open>tcp/tcp.cc\<close>)\<close>

text \<open>
  The state of \<open>TcpAgent\<close> that the congestion control reads and writes, and its operations: growth
  on an acknowledgement (\<open>opencwnd\<close>, with the window options 0 to 6 and 8), reduction (\<open>slowdown\<close>,
  the older \<open>closecwnd\<close>), limited slow start and the parameters of HighSpeed TCP.

  \<open>slowdown\<close> and \<open>closecwnd\<close> call the virtual \<open>window()\<close> and \<open>windowd()\<close>; neither writes anything
  these read before the last call, so the two values are arguments. The bits of \<open>how\<close> are a set.
  A division or a logarithm that would leave the finite numbers is the error \<open>NotFinite\<close>.
\<close>

subsection \<open>State\<close>

datatype cwnd_action =
  NO_ACTION | CWND_ACTION_DUPACK | CWND_ACTION_TIMEOUT | CWND_ACTION_ECN | CWND_ACTION_EXITED

datatype slow_flag =
    CLOSE_SSTHRESH_HALF | CLOSE_CWND_HALF | CLOSE_CWND_RESTART | CLOSE_CWND_INIT | CLOSE_CWND_ONE
  | CLOSE_SSTHRESH_HALVE | CLOSE_CWND_HALVE | THREE_QUARTER_SSTHRESH | CLOSE_CWND_HALF_WAY
  | CWND_HALF_WITH_MIN | TCP_IDLE | NO_OUTSTANDING_DATA

record hstcp =
  low_p :: real
  dec1 :: real
  dec2 :: real
  p1 :: real
  p2 :: real
  cwnd_last :: real
  increase_last :: real

record win_conf =
  wnd :: real
  wnd_const :: real
  wnd_th :: real
  wnd_option :: int
  increase_num :: real
  maxcwnd :: int
  precision_reduce :: bool
  k_parameter :: real
  l_parameter :: real
  low_window :: int
  high_window :: int
  high_p :: real
  high_decrease :: real
  max_ssthresh :: int
  cwnd_range :: int

record cw =
  cwnd :: real
  ssthresh :: int
  count :: int
  fcnt :: real
  awnd :: real
  wnd_init :: real
  wnd_init_option :: int
  wnd_restart :: real
  decrease_num :: real
  first_decrease :: bool
  last_cwnd_action :: cwnd_action
  congaction :: bool
  ncwndcuts :: int
  ncwndcuts1 :: int
  hs :: hstcp

subsection \<open>HighSpeed TCP and limited slow start\<close>

definition linear :: "real \<Rightarrow> real \<Rightarrow> real \<Rightarrow> real \<Rightarrow> real \<Rightarrow> real" where
  "linear x x1 y1 x2 y2 = y1 + (y2 - y1) * ((x - x1) / (x2 - x1))"

definition limited_slow_start :: "real \<Rightarrow> int \<Rightarrow> real \<Rightarrow> real" where
  "limited_slow_start win mx increment =
     (if mx \<le> 0 then increment
      else let round = int_of_double (win / (of_int mx / 2));
               increment1 = (if 0 < round then 1 / of_int round else 0)
           in if increment < increment1 then increment1 else increment)"

definition hstcp_reset :: "win_conf \<Rightarrow> hstcp \<Rightarrow> hstcp res" where
  "hstcp_reset c h =
     (if low_window c \<le> 0 \<or> high_window c \<le> 0 \<or> high_p c \<le> 0 \<or> low_window c = high_window c
      then Inl NotFinite
      else if \<not> in_int32 (low_window c * low_window c) then Inl IntOutOfRange
      else let low = of_int (low_window c); high = of_int (high_window c);
               lowp = 3 / 2 / (low * low);
               highLowWin = ln high - ln low;
               highLowP = ln (high_p c) - ln lowp
           in Inr (h\<lparr>low_p := lowp,
                     dec1 := 1 / 2 - ln low * (high_decrease c - 1 / 2) / highLowWin,
                     dec2 := (high_decrease c - 1 / 2) / highLowWin,
                     p1 := ln lowp - ln low * highLowP / highLowWin,
                     p2 := highLowP / highLowWin\<rparr>))"

definition decrease_param :: "cw \<Rightarrow> real res" where
  "decrease_param w =
     (if cwnd w \<le> 0 then Inl NotFinite else Inr (dec1 (hs w) + ln (cwnd w) * dec2 (hs w)))"

definition increase_param :: "win_conf \<Rightarrow> cw \<Rightarrow> (real \<times> cw) res" where
  "increase_param c w =
     (if cwnd w = 0 then Inl NotFinite
      else if cwnd w \<le> of_int (low_window c) then Inr (1 / cwnd w, w)
      else if cwnd_last (hs w) \<le> cwnd w \<and> cwnd w < cwnd_last (hs w) + of_int (cwnd_range c)
      then Inr (increase_last (hs w) / cwnd w, w)
      else res_bind (decrease_param w) (\<lambda>decrease.
             let p = exp (p1 (hs w) + ln (cwnd w) * p2 (hs w)) in
             if decrease = 0 \<or> 1 / decrease = 1 / 2 then Inl NotFinite
             else let increase = cwnd w * cwnd w * p / (1 / decrease - 1 / 2)
                  in Inr (increase / cwnd w,
                          w\<lparr>hs := (hs w)\<lparr>cwnd_last := cwnd w, increase_last := increase\<rparr>\<rparr>)))"

subsection \<open>Opening the window\<close>

text \<open>Options 2 to 5 collect fractions of a packet in \<open>fcnt_\<close>.\<close>

definition open_frac :: "real \<Rightarrow> cw \<Rightarrow> cw" where
  "open_frac f w =
     (let f = f + fcnt w
      in if cwnd w < f then w\<lparr>fcnt := 0, cwnd := cwnd w + 1\<rparr> else w\<lparr>fcnt := f\<rparr>)"

definition open_by :: "win_conf \<Rightarrow> real \<Rightarrow> cw \<Rightarrow> cw" where
  "open_by c increment w =
     (let increment = (if (last_cwnd_action w = NO_ACTION \<or> last_cwnd_action w = CWND_ACTION_TIMEOUT) \<and>
                          0 < max_ssthresh c
                       then limited_slow_start (cwnd w) (max_ssthresh c) increment else increment)
      in w\<lparr>cwnd := cwnd w + increment\<rparr>)"

definition open_linear :: "rtt_conf \<Rightarrow> rtt \<Rightarrow> win_conf \<Rightarrow> cw \<Rightarrow> cw res" where
  "open_linear rc r c w =
     (if wnd_option c = 0
      then Inr (let w = w\<lparr>count := count w + 1\<rparr>
                in if cwnd w \<le> of_int (count w) then w\<lparr>count := 0, cwnd := cwnd w + 1\<rparr> else w)
      else if wnd_option c = 1
      then if cwnd w = 0 then Inl NotFinite else Inr (open_by c (increase_num c / cwnd w) w)
      else if wnd_option c = 2
      then res_bind (shr (t_srtt r) (T_SRTT_BITS rc)) (\<lambda>n.
             let f = of_int n * tcp_tick rc in Inr (open_frac (f * f * wnd_const c) w))
      else if wnd_option c = 3 then Inr (open_frac (awnd w * awnd w * wnd_const c) w)
      else if wnd_option c = 4 then Inr (open_frac (awnd w * wnd_const c) w)
      else if wnd_option c = 5
      then res_bind (shr (t_srtt r) (T_SRTT_BITS rc)) (\<lambda>n.
             let f = of_int n * tcp_tick rc in Inr (open_frac (f * wnd_const c) w))
      else if wnd_option c = 6
      then res_bind (cpow (cwnd w) (k_parameter c)) (\<lambda>p.
             if cwnd w * p = 0 then Inl NotFinite
             else Inr (w\<lparr>cwnd := cwnd w + increase_num c / (cwnd w * p)\<rparr>))
      else if wnd_option c = 8
      then res_bind (increase_param c w) (\<lambda>(increment, w). Inr (open_by c increment w))
      else Inl WindowOption)"

definition opencwnd :: "rtt_conf \<Rightarrow> rtt \<Rightarrow> win_conf \<Rightarrow> cw \<Rightarrow> cw res" where
  "opencwnd rc r c w =
     res_bind (if cwnd w < of_int (ssthresh w) then Inr (w\<lparr>cwnd := cwnd w + 1\<rparr>)
               else open_linear rc r c w)
       (\<lambda>w. Inr (if maxcwnd c \<noteq> 0 \<and> maxcwnd c < int_of_double (cwnd w)
                 then w\<lparr>cwnd := of_int (maxcwnd c)\<rparr> else w))"

subsection \<open>Closing the window\<close>

text \<open>The values \<open>halfwin\<close>, \<open>decreasewin\<close> and \<open>win\<close> of \<open>slowdown\<close>, and \<open>decrease_num_\<close>.\<close>

definition slow_values :: "win_conf \<Rightarrow> int \<Rightarrow> real \<Rightarrow> cw \<Rightarrow> (real \<times> real \<times> real \<times> real) res" where
  "slow_values c window windowd w =
     (let fast = (wnd_option c = 8 \<and> of_int (low_window c) < cwnd w)
      in if precision_reduce c
         then res_bind
                (if wnd_option c = 6
                 then res_bind (cpow windowd (l_parameter c)) (\<lambda>p.
                        Inr (windowd - (1 - decrease_num w) * p, decrease_num w))
                 else if fast
                 then res_bind (decrease_param w) (\<lambda>decrease.
                        Inr (windowd - decrease * windowd, decrease))
                 else Inr (decrease_num w * windowd, decrease_num w))
                (\<lambda>(decreasewin, num). Inr (windowd / 2, decreasewin, windowd, num))
         else res_bind
                (if wnd_option c = 6
                 then res_bind (cpow (of_int window) (l_parameter c)) (\<lambda>p.
                        Inr (int_of_double (of_int window - (1 - decrease_num w) * p), decrease_num w))
                 else if fast
                 then res_bind (decrease_param w) (\<lambda>decrease.
                        Inr (int_of_double (windowd - decrease * windowd), decrease))
                 else Inr (int_of_double (decrease_num w * of_int window), decrease_num w))
                (\<lambda>(temp, num). res_bind (cdiv window 2) (\<lambda>half.
                  Inr (of_int half, of_int temp, of_int window, num))))"

definition slow_count :: "slow_flag set \<Rightarrow> cw \<Rightarrow> cw" where
  "slow_count how w =
     (let w = w\<lparr>ncwndcuts := ncwndcuts w + 1\<rparr>
      in if TCP_IDLE \<notin> how \<and> NO_OUTSTANDING_DATA \<notin> how
         then w\<lparr>ncwndcuts1 := ncwndcuts1 w + 1\<rparr> else w)"

definition slow_ssthresh :: "slow_flag set \<Rightarrow> bool \<Rightarrow> real \<Rightarrow> real \<Rightarrow> cw \<Rightarrow> int" where
  "slow_ssthresh how slowstart halfwin decreasewin w =
     (if CLOSE_SSTHRESH_HALF \<in> how
      then if first_decrease w \<or> slowstart \<or> last_cwnd_action w = CWND_ACTION_TIMEOUT
           then int_of_double halfwin else int_of_double decreasewin
      else if THREE_QUARTER_SSTHRESH \<in> how \<and> of_int (ssthresh w) < 3 * cwnd w / 4
      then int_of_double (3 * cwnd w / 4)
      else ssthresh w)"

definition at_least_one :: "real \<Rightarrow> real" where
  "at_least_one x = (if x < 1 then 1 else x)"

definition slow_cwnd ::
  "slow_flag set \<Rightarrow> bool \<Rightarrow> real \<Rightarrow> real \<Rightarrow> real \<Rightarrow> int \<Rightarrow> cw \<Rightarrow> real" where
  "slow_cwnd how slowstart halfwin decreasewin win W_used w =
     (if CLOSE_CWND_HALF \<in> how
      then if first_decrease w \<or> slowstart \<or> decrease_num w = 1 / 2 then halfwin else decreasewin
      else if CWND_HALF_WITH_MIN \<in> how then at_least_one decreasewin
      else if CLOSE_CWND_RESTART \<in> how then of_int (int_of_double (wnd_restart w))
      else if CLOSE_CWND_INIT \<in> how then of_int (int_of_double (wnd_init w))
      else if CLOSE_CWND_ONE \<in> how then 1
      else if CLOSE_CWND_HALF_WAY \<in> how
      then at_least_one (of_int W_used + decrease_num w * (win - of_int W_used))
      else cwnd w)"

definition slowdown :: "win_conf \<Rightarrow> int \<Rightarrow> real \<Rightarrow> int \<Rightarrow> slow_flag set \<Rightarrow> cw \<Rightarrow> cw res" where
  "slowdown c window windowd W_used how w =
     (let w = slow_count how w;
          slowstart = (cwnd w < of_int (ssthresh w))
      in res_bind (slow_values c window windowd w) (\<lambda>(halfwin, decreasewin, win, num).
           let w = w\<lparr>decrease_num := num\<rparr>;
               w = w\<lparr>ssthresh := slow_ssthresh how slowstart halfwin decreasewin w\<rparr>;
               w = w\<lparr>cwnd := slow_cwnd how slowstart halfwin decreasewin win W_used w\<rparr>;
               w = (if ssthresh w < 2 then w\<lparr>ssthresh := 2\<rparr> else w);
               w = (if how \<inter> {CLOSE_CWND_HALF, CLOSE_CWND_RESTART, CLOSE_CWND_INIT, CLOSE_CWND_ONE} \<noteq> {}
                    then w\<lparr>congaction := True\<rparr> else w)
           in Inr (w\<lparr>fcnt := 0, count := 0, first_decrease := False\<rparr>)))"

text \<open>The obsolete \<open>closecwnd\<close>, kept for other agents.\<close>

definition closecwnd :: "int \<Rightarrow> int \<Rightarrow> cw \<Rightarrow> cw res" where
  "closecwnd window how w =
     res_bind
       (if how = 0
        then res_bind (cdiv window 2) (\<lambda>half.
               Inr (w\<lparr>ssthresh := max half 2, cwnd := of_int (int_of_double (wnd_restart w))\<rparr>))
        else if how = 1
        then let cwnd' = decrease_num w * of_int window
             in Inr (w\<lparr>cwnd := cwnd', ssthresh := max (int_of_double cwnd') 2\<rparr>)
        else if how = 2 then Inr (w\<lparr>cwnd := wnd_init w\<rparr>)
        else if how = 3 then Inr (w\<lparr>cwnd := of_int (int_of_double (wnd_init w))\<rparr>)
        else if how = 4
        then res_bind (cdiv window 2) (\<lambda>half. Inr (w\<lparr>ssthresh := max half 2, cwnd := 1\<rparr>))
        else Inl CloseOption)
       (\<lambda>w. Inr (w\<lparr>fcnt := 0, count := 0\<rparr>))"

text \<open>\<open>qs_cwnd\<close> is the window of an approved Quick-Start request, \<open>psize\<close> the size of a packet.\<close>

definition initial_window :: "int \<Rightarrow> int \<Rightarrow> cw \<Rightarrow> real res" where
  "initial_window qs_cwnd psize w =
     (if qs_cwnd \<noteq> 0 then Inr (of_int qs_cwnd)
      else if wnd_init_option w = 1 then Inr (wnd_init w)
      else if wnd_init_option w = 2
      then Inr (if psize \<le> 1095 then 4 else if psize < 2190 then 3 else 2)
      else Inl WindowInitOption)"

subsection \<open>The window stays well-formed\<close>

text \<open>
  The standard algorithms: window options 0 to 5. Options 6 and 8 may choose parameters for which a
  reduction gives a negative window.
\<close>

definition win_conf_ok :: "win_conf \<Rightarrow> bool" where
  "win_conf_ok c \<longleftrightarrow>
     2 \<le> wnd c \<and> wnd_option c \<in> {0..5} \<and> 0 \<le> increase_num c \<and> 0 \<le> maxcwnd c \<and> max_ssthresh c \<noteq> 1"

definition cw_ok :: "cw \<Rightarrow> bool" where
  "cw_ok w \<longleftrightarrow> 2 \<le> ssthresh w \<and> 1 \<le> wnd_init w \<and> wnd_restart w = 1 \<and> wnd_init_option w \<in> {1, 2}"

lemma cw_ok_frame [simp]:
  "cw_ok (w\<lparr>last_cwnd_action := a\<rparr>) = cw_ok w" "cw_ok (w\<lparr>congaction := b\<rparr>) = cw_ok w"
  "cw_ok (w\<lparr>awnd := x\<rparr>) = cw_ok w" "cw_ok (w\<lparr>cwnd := x\<rparr>) = cw_ok w"
  by (simp_all add: cw_ok_def)

lemma slow_count_sel [simp]:
  "cwnd (slow_count how w) = cwnd w" "ssthresh (slow_count how w) = ssthresh w"
  "decrease_num (slow_count how w) = decrease_num w" "wnd_init (slow_count how w) = wnd_init w"
  "wnd_restart (slow_count how w) = wnd_restart w"
  "wnd_init_option (slow_count how w) = wnd_init_option w"
  "first_decrease (slow_count how w) = first_decrease w"
  "last_cwnd_action (slow_count how w) = last_cwnd_action w"
  by (simp_all add: slow_count_def Let_def)

lemma int_of_double_half:
  assumes "0 \<le> x" "0 \<le> d" "d \<le> 1"
  shows "0 \<le> int_of_double (d * of_int x)" "int_of_double (d * of_int x) \<le> x"
  using assms mult_left_le_one_le [of "of_int x" d] by (auto intro!: int_of_double_le_int)

lemma cdiv_2: "0 \<le> x \<Longrightarrow> cdiv x 2 = Inr (x div 2)"
  by (cases "x = 0") (simp_all add: cdiv_def)

lemma slow_values_ok:
  assumes "win_conf_ok c"
  shows "\<exists>h d v. slow_values c window windowd w = Inr (h, d, v, decrease_num w)"
  using assms
  by (cases "precision_reduce c")
    (simp_all add: slow_values_def Let_def cdiv_def win_conf_ok_def exI [of _ "windowd / 2"])

lemma slow_cwnd_frame [simp]:
  "slow_cwnd how ss h d v u (w\<lparr>ssthresh := n\<rparr>) = slow_cwnd how ss h d v u w"
  "slow_cwnd how ss h d v u ((slow_count how w)\<lparr>decrease_num := x\<rparr>) =
   slow_cwnd how ss h d v u (w\<lparr>decrease_num := x\<rparr>)"
  by (simp_all add: slow_cwnd_def)

lemma slow_ssthresh_frame [simp]:
  "slow_ssthresh how ss h d ((slow_count how w)\<lparr>decrease_num := x\<rparr>) = slow_ssthresh how ss h d w"
  by (simp add: slow_ssthresh_def)

lemma slow_count_hs [simp]: "awnd (slow_count how w) = awnd w" "hs (slow_count how w) = hs w"
  by (simp_all add: slow_count_def Let_def)

text \<open>The result of \<open>slowdown\<close> field by field.\<close>

lemma slowdown_eq:
  assumes "slow_values c window windowd (slow_count how w) = Inr (h, d, v, num)"
  shows "\<exists>w'. slowdown c window windowd W_used how w = Inr w' \<and>
           cwnd w' = slow_cwnd how (cwnd w < of_int (ssthresh w)) h d v W_used (w\<lparr>decrease_num := num\<rparr>) \<and>
           ssthresh w' = max 2 (slow_ssthresh how (cwnd w < of_int (ssthresh w)) h d w) \<and>
           decrease_num w' = num \<and> wnd_init w' = wnd_init w \<and> wnd_restart w' = wnd_restart w \<and>
           wnd_init_option w' = wnd_init_option w \<and> last_cwnd_action w' = last_cwnd_action w \<and>
           first_decrease w' = False \<and> awnd w' = awnd w \<and> hs w' = hs w"
  using assms by (simp add: slowdown_def Let_def max_def)

lemma at_least_one_ge: "1 \<le> at_least_one x"
  by (simp add: at_least_one_def)

lemma at_least_one_nonneg [simp]: "0 \<le> at_least_one x"
  using at_least_one_ge [of x] by linarith

text \<open>Every reduction but the halving of the window leaves at least one packet.\<close>

definition slow_to :: "slow_flag set \<Rightarrow> cw \<Rightarrow> cw \<Rightarrow> bool" where
  "slow_to how w w' \<longleftrightarrow>
     cw_ok w' \<and> last_cwnd_action w' = last_cwnd_action w \<and>
     (CLOSE_CWND_HALF \<notin> how \<and> 1 \<le> cwnd w \<longrightarrow> 1 \<le> cwnd w') \<and>
     (how \<inter> {CLOSE_CWND_HALF, CWND_HALF_WITH_MIN, CLOSE_CWND_INIT} = {} \<and>
      how \<inter> {CLOSE_CWND_RESTART, CLOSE_CWND_ONE} \<noteq> {} \<longrightarrow> cwnd w' = 1)"

lemma slow_cwnd_one:
  assumes "cw_ok w"
  shows "CLOSE_CWND_HALF \<notin> how \<Longrightarrow> 1 \<le> cwnd w \<Longrightarrow> 1 \<le> slow_cwnd how ss h d v u w"
    and "how \<inter> {CLOSE_CWND_HALF, CWND_HALF_WITH_MIN, CLOSE_CWND_INIT} = {} \<Longrightarrow>
         how \<inter> {CLOSE_CWND_RESTART, CLOSE_CWND_ONE} \<noteq> {} \<Longrightarrow> slow_cwnd how ss h d v u w = 1"
proof -
  have "1 \<le> int_of_double (wnd_init w)" "int_of_double (wnd_restart w) = 1"
    using assms int_of_double_ge_int [of 1 "wnd_init w"] by (simp_all add: cw_ok_def int_of_double_def)
  then have r: "1 \<le> real_of_int (int_of_double (wnd_init w))" "int_of_double (wnd_restart w) = 1"
    by simp_all
  show "1 \<le> slow_cwnd how ss h d v u w" if "CLOSE_CWND_HALF \<notin> how" "1 \<le> cwnd w"
    using r that by (simp add: slow_cwnd_def at_least_one_ge)
  show "slow_cwnd how ss h d v u w = 1"
    if "how \<inter> {CLOSE_CWND_HALF, CWND_HALF_WITH_MIN, CLOSE_CWND_INIT} = {}"
      "how \<inter> {CLOSE_CWND_RESTART, CLOSE_CWND_ONE} \<noteq> {}"
  proof -
    have "CLOSE_CWND_HALF \<notin> how" "CWND_HALF_WITH_MIN \<notin> how" "CLOSE_CWND_INIT \<notin> how"
      "CLOSE_CWND_RESTART \<in> how \<or> CLOSE_CWND_ONE \<in> how" using that by blast+
    then show ?thesis using r by (auto simp: slow_cwnd_def)
  qed
qed

lemma slowdown_ok:
  assumes c: "win_conf_ok c" and w: "cw_ok w"
  shows "returns (slowdown c window windowd W_used how w) (slow_to how w)"
proof -
  obtain h d v where hd: "slow_values c window windowd (slow_count how w) = Inr (h, d, v, decrease_num w)"
    using slow_values_ok [OF c, of window windowd "slow_count how w"] by auto
  let ?ss = "cwnd w < of_int (ssthresh w)"
  obtain w' where e: "slowdown c window windowd W_used how w = Inr w'"
    "cwnd w' = slow_cwnd how ?ss h d v W_used (w\<lparr>decrease_num := decrease_num w\<rparr>)"
    "ssthresh w' = max 2 (slow_ssthresh how ?ss h d w)" "wnd_init w' = wnd_init w"
    "wnd_restart w' = wnd_restart w" "wnd_init_option w' = wnd_init_option w"
    "last_cwnd_action w' = last_cwnd_action w"
    using slowdown_eq [OF hd, of W_used] by blast
  have "cw_ok w'" using e w by (simp add: cw_ok_def)
  moreover have "1 \<le> cwnd w'" if "CLOSE_CWND_HALF \<notin> how" "1 \<le> cwnd w"
    using slow_cwnd_one(1) [OF w that] e(2) by simp
  moreover have "cwnd w' = 1" if "how \<inter> {CLOSE_CWND_HALF, CWND_HALF_WITH_MIN, CLOSE_CWND_INIT} = {}"
    "how \<inter> {CLOSE_CWND_RESTART, CLOSE_CWND_ONE} \<noteq> {}"
    using slow_cwnd_one(2) [OF w that] e(2) by simp
  ultimately have "slow_to how w w'" unfolding slow_to_def using e(7) by blast
  then show ?thesis using e(1) by (rule returnsI [rotated])
qed

text \<open>Growth.\<close>

lemma limited_slow_start_bounds:
  assumes "0 \<le> x" "0 \<le> i"
  shows "0 \<le> limited_slow_start x m i" "i \<le> limited_slow_start x m i" "limited_slow_start x m i \<le> max 1 i"
proof -
  have le: "1 / real_of_int n \<le> 1" if "0 < n" for n using that by simp
  show "0 \<le> limited_slow_start x m i" "i \<le> limited_slow_start x m i"
    using assms by (auto simp: limited_slow_start_def Let_def)
  show "limited_slow_start x m i \<le> max 1 i"
    using assms le by (auto simp: limited_slow_start_def Let_def intro: max.coboundedI1)
qed

definition opened :: "win_conf \<Rightarrow> cw \<Rightarrow> cw \<Rightarrow> bool" where
  "opened c w w' \<longleftrightarrow> cw_ok w' \<and> cwnd w \<le> cwnd w' \<and> cwnd w' \<le> cwnd w + max 1 (increase_num c / 2) \<and>
     ssthresh w' = ssthresh w \<and> last_cwnd_action w' = last_cwnd_action w"

lemma opened_by:
  assumes "cw_ok w" "0 \<le> cwnd w" "0 \<le> i" "i \<le> increase_num c / 2"
  shows "opened c w (open_by c i w)"
proof -
  have "0 \<le> limited_slow_start (cwnd w) (max_ssthresh c) i"
    "limited_slow_start (cwnd w) (max_ssthresh c) i \<le> max 1 i"
    using limited_slow_start_bounds [OF assms(2,3)] by blast+
  moreover have le: "max 1 i \<le> max 1 (increase_num c / 2)" "i \<le> max 1 (increase_num c / 2)"
    using assms(4) by (auto simp: max_def)
  ultimately have "limited_slow_start (cwnd w) (max_ssthresh c) i \<le> max 1 (increase_num c / 2)"
    by (metis order_trans)
  then show ?thesis
    using assms(1,3) le \<open>0 \<le> limited_slow_start _ _ _\<close> by (simp add: opened_def open_by_def Let_def)
qed

lemma opened_frac: "cw_ok w \<Longrightarrow> opened c w (open_frac f w)"
  by (auto simp: opened_def open_frac_def Let_def cw_ok_def intro: max.coboundedI1)

lemma open_linear_ok:
  assumes c: "win_conf_ok c" "rtt_conf_ok rc" and w: "cw_ok w" "of_int (ssthresh w) \<le> cwnd w"
  shows "returns (open_linear rc r c w) (opened c w)"
proof -
  have two: "2 \<le> cwnd w" using w by (auto simp: cw_ok_def)
  have o: "wnd_option c \<in> {0, 1, 2, 3, 4, 5}" using c(1) by (auto simp: win_conf_ok_def)
  have i: "0 \<le> increase_num c / cwnd w" "increase_num c / cwnd w \<le> increase_num c / 2"
    using c(1) two divide_left_mono [of 2 "cwnd w" "increase_num c"] by (simp_all add: win_conf_ok_def)
  have "opened c w (open_by c (increase_num c / cwnd w) w)"
    using two by (intro opened_by [OF w(1) _ i]) simp
  moreover have "\<And>f. opened c w (open_frac f w)" using w(1) by (rule opened_frac)
  ultimately show ?thesis
    using o two w(1) c(2)
    by (elim insertE emptyE) (auto simp: open_linear_def Let_def shr_ok rtt_conf_ok_def opened_def cw_ok_def)
qed

lemma opencwnd_ok:
  assumes c: "win_conf_ok c" "rtt_conf_ok rc" and w: "cw_ok w"
  shows "returns (opencwnd rc r c w) (\<lambda>w'. cw_ok w' \<and> cwnd w' \<le> cwnd w + max 1 (increase_num c / 2) \<and>
           last_cwnd_action w' = last_cwnd_action w \<and> (0 \<le> cwnd w \<longrightarrow> 1 \<le> cwnd w'))"
  unfolding opencwnd_def
proof (rule returns_bind)
  show "returns (if cwnd w < of_int (ssthresh w) then Inr (w\<lparr>cwnd := cwnd w + 1\<rparr>) else open_linear rc r c w)
      (\<lambda>w'. opened c w w' \<and> (0 \<le> cwnd w \<longrightarrow> 1 \<le> cwnd w'))"
  proof (cases "cwnd w < of_int (ssthresh w)")
    case False
    then have "2 \<le> cwnd w" using w by (auto simp: cw_ok_def)
    then show ?thesis
      using False returns_mono [OF open_linear_ok [OF c w]] by (auto simp: opened_def)
  qed (use w in \<open>auto simp: opened_def\<close>)
  show "returns (Inr (if maxcwnd c \<noteq> 0 \<and> maxcwnd c < int_of_double (cwnd w') then w'\<lparr>cwnd := of_int (maxcwnd c)\<rparr> else w'))
      (\<lambda>w'. cw_ok w' \<and> cwnd w' \<le> cwnd w + max 1 (increase_num c / 2) \<and>
         last_cwnd_action w' = last_cwnd_action w \<and> (0 \<le> cwnd w \<longrightarrow> 1 \<le> cwnd w'))"
    if "opened c w w' \<and> (0 \<le> cwnd w \<longrightarrow> 1 \<le> cwnd w')" for w'
  proof -
    have m: "0 \<le> maxcwnd c" using c(1) by (simp add: win_conf_ok_def)
    have "real_of_int (maxcwnd c) \<le> cwnd w'" if "maxcwnd c < int_of_double (cwnd w')"
    proof -
      have "0 \<le> cwnd w'"
      proof (rule ccontr)
        assume "\<not> 0 \<le> cwnd w'"
        then have "int_of_double (cwnd w') \<le> 0" using int_of_double_le_int [of "cwnd w'" 0] by simp
        with that m show False by simp
      qed
      from int_of_double_le [OF this] that show ?thesis by linarith
    qed
    then show ?thesis using that m by (auto simp: opened_def)
  qed
qed

subsection \<open>Additive increase\<close>

text \<open>One acknowledgement in congestion avoidance, and the acknowledgements of a window.\<close>

fun opencwnds :: "rtt_conf \<Rightarrow> rtt \<Rightarrow> win_conf \<Rightarrow> nat \<Rightarrow> cw \<Rightarrow> cw res" where
  "opencwnds rc r c 0 w = Inr w"
| "opencwnds rc r c (Suc n) w = res_bind (opencwnd rc r c w) (opencwnds rc r c n)"

lemma opencwnd_standard:
  assumes "wnd_option c = 1" "maxcwnd c = 0" "max_ssthresh c \<le> 0"
    and "of_int (ssthresh w) \<le> cwnd w" "0 < cwnd w"
  shows "opencwnd rc r c w = Inr (w\<lparr>cwnd := cwnd w + increase_num c / cwnd w\<rparr>)"
  using assms by (simp add: opencwnd_def open_linear_def open_by_def)

lemma opencwnds_additive:
  assumes c: "wnd_option c = 1" "maxcwnd c = 0" "max_ssthresh c \<le> 0" "0 \<le> increase_num c" "increase_num c \<le> 1"
    and w: "of_int (ssthresh w) \<le> x" "0 < x" "x \<le> cwnd w"
    and n: "cwnd w + increase_num c * of_nat n / x \<le> x + 1"
  shows "\<exists>w'. opencwnds rc r c n w = Inr w' \<and> ssthresh w' = ssthresh w \<and>
           cwnd w + increase_num c * of_nat n / (x + 1) \<le> cwnd w' \<and>
           cwnd w' \<le> cwnd w + increase_num c * of_nat n / x"
  using w(1,3) n
proof (induction n arbitrary: w)
  case (Suc n)
  let ?d = "increase_num c / cwnd w" and ?a = "increase_num c"
  let ?w = "w\<lparr>cwnd := cwnd w + ?d\<rparr>"
  have x: "0 < cwnd w" using w(2) Suc.prems(2) by linarith
  have an: "?a * of_nat (Suc n) / y = ?a / y + ?a * of_nat n / y" for y :: real
    by (simp add: distrib_left add_divide_distrib)
  have nn: "0 \<le> ?a * of_nat (Suc n) / x" using c(4) w(2) by simp
  then have top: "cwnd w \<le> x + 1" using Suc.prems(3) by linarith
  have d: "?a / (x + 1) \<le> ?d" "?d \<le> ?a / x" "0 \<le> ?d"
    using divide_left_mono [OF top c(4)] divide_left_mono [OF Suc.prems(2) c(4)] c(4) x w(2) by simp_all
  have "opencwnd rc r c w = Inr ?w"
    using c Suc.prems x by (intro opencwnd_standard) simp_all
  moreover have "\<exists>w'. opencwnds rc r c n ?w = Inr w' \<and> ssthresh w' = ssthresh ?w \<and>
      cwnd ?w + ?a * of_nat n / (x + 1) \<le> cwnd w' \<and> cwnd w' \<le> cwnd ?w + ?a * of_nat n / x"
    using Suc.prems d an [of x] by (intro Suc.IH) (simp_all del: of_nat_Suc)
  ultimately show ?case using d an [of x] an [of "x + 1"] by (auto simp del: of_nat_Suc)
qed (simp add: w)

subsection \<open>HighSpeed TCP\<close>

lemma linear_alt:
  "linear x x1 y1 x2 y2 = (y1 - x1 * (y2 - y1) / (x2 - x1)) + x * ((y2 - y1) / (x2 - x1))"
proof -
  define s where "s = (y2 - y1) / (x2 - x1)"
  have "linear x x1 y1 x2 y2 = y1 + (x - x1) * s" "x1 * (y2 - y1) / (x2 - x1) = x1 * s"
    by (simp_all add: linear_def s_def)
  then show ?thesis unfolding s_def [symmetric] by (simp add: left_diff_distrib)
qed

lemma increase_alt: "b \<noteq> 0 \<Longrightarrow> b \<noteq> 2 \<Longrightarrow> a / (1 / b - 1 / 2) = a * (2 * b) / (2 - b)" for a b :: real
  by (simp add: field_simps)

subsection \<open>Multiplicative decrease\<close>

text \<open>A reduction after a loss: \<open>decrease_num_\<close> is one half.\<close>

lemma slowdown_halves:
  assumes "wnd_option c \<in> {0..5}" "precision_reduce c" "decrease_num w = 1 / 2"
    and "CLOSE_SSTHRESH_HALF \<in> how" "CLOSE_CWND_HALF \<in> how"
  shows "returns (slowdown c window windowd u how w)
    (\<lambda>w'. cwnd w' = windowd / 2 \<and> ssthresh w' = max 2 (int_of_double (windowd / 2)))"
proof -
  have v: "slow_values c window windowd (slow_count how w) = Inr (windowd / 2, windowd / 2, windowd, 1 / 2)"
    using assms by (simp add: slow_values_def)
  show ?thesis
    using slowdown_eq [OF v, of u] assms(3-5)
    by (auto simp: returns_def slow_cwnd_def slow_ssthresh_def)
qed

end
