(* ===== verification/Tcp_Agent.thy ===== *)
theory Tcp_Agent
  imports Tcp_Window Tcp_Sink
begin

section \<open>The TCP sender (\<open>tcp/tcp.h\<close>, \<open>tcp/tcp.cc\<close>: \<open>TcpAgent\<close>)\<close>

text \<open>
  \<open>TcpAgent\<close> is Tahoe TCP and the base class of the other one-way senders. Sequence numbers count
  packets. The record \<open>tcp\<close> has its members, without the trailing underscore and grouped: \<open>conf\<close>
  are the bound parameters, \<open>rt\<close> the round-trip estimate, \<open>wn\<close> the congestion window, \<open>qs\<close> the
  Quick-Start state, \<open>qo\<close> the state of the quiescence option and \<open>st\<close> the counters. \<open>out\<close> is every
  packet given to \<open>send\<close>, \<open>notices\<close> every call of the application (\<open>idle\<close>) and of the Tcl procedure
  \<open>done\<close> (\<open>finish\<close>).

  The virtual \<open>window()\<close> and \<open>windowd()\<close> are the argument \<open>v\<close>, a pair, of every operation that calls
  them. The \<open>n\<close>-th random number is \<open>rng_unif n\<close> or \<open>rng_int n\<close>, and \<open>drawn\<close> counts the draws.
  The hooks \<open>output_helper\<close>, \<open>send_helper\<close>, \<open>send_idle_helper\<close> and \<open>recv_helper\<close> are empty in this
  class. Conversions of a \<open>seq_t\<close> to an \<open>int\<close> are \<open>int32_of\<close>.
\<close>

subsection \<open>State\<close>

record tcp_conf =
  rc :: rtt_conf
  wc :: win_conf
  psize :: int
  afid :: int
  attl :: int
  overhead :: real
  numdupacks :: int
  tcpip_base_hdr_size :: int
  ts_option_size :: int
  ts_resetRTO :: bool
  timerfix :: bool
  syn :: bool
  delay_growth :: bool
  max_connects :: int
  frto_enabled :: bool
  sfrto_enabled :: bool
  spurious_response :: int
  bug_fix :: bool
  exitFastRetrans :: bool
  bugfix_ts :: bool
  old_ecn :: bool
  bugfix_ss :: bool
  maxburst :: int
  aggressive_maxburst :: bool
  slow_start_restart :: bool
  restart_bugfix :: bool
  singledup :: bool
  noFastRetrans :: bool
  useHeaders :: bool
  ecn_on :: bool
  SetCWRonRetransmit :: bool
  eln_on :: bool
  eln_rxmit_thresh :: int
  control_increase :: bool
  QOption :: bool
  EnblRTTCtr :: bool
  qs_on :: bool
  rate_request :: int
  tcp_qs_recovery :: bool
  qs_request_mode :: int
  qs_thresh :: int
  qs_rtt :: int
  rate_function :: int

record quickstart =
  qs_requested :: bool
  qs_approved :: bool
  qs_window :: int
  qs_cwnd :: int
  ttl_diff :: int

record qoption =
  T_last :: int
  T_prev :: int
  T_start :: int
  RTT_count :: int
  RTT_prev :: int
  RTT_goodcount :: int
  F_counting :: bool
  W_used :: int
  W_timed :: int
  F_full :: bool
  Backoffs :: int

record tcpstats =
  ndatapack :: int
  ndatabytes :: int
  nackpack :: int
  nrexmit :: int
  nrexmitpack :: int
  nrexmitbytes :: int
  necnresponses :: int

datatype notice = Idle | Done

record tcp =
  conf :: tcp_conf
  rt :: rtt
  wn :: cw
  qs :: quickstart
  qo :: qoption
  st :: tcpstats
  t_seqno :: seq_t
  curseq :: seq_t
  highest_ack :: seq_t
  last_ack :: seq_t
  maxseq :: seq_t
  recover :: seq_t
  prev_highest_ack :: int
  dupacks :: int
  frto :: int
  pipe_prev :: int
  rtt_active :: bool
  rtt_seq :: seq_t
  rtt_ts :: time
  firstsent :: time
  tlastreset :: time
  closed :: bool
  ts_peer :: time
  ts_echoed :: time
  tss :: "real list option"
  tss_size :: int
  syn_connects :: int
  ecn_burst :: bool
  ecn_backoff :: bool
  ect_on :: bool
  eln_last_rxmit :: int
  rtx_timer :: timer
  delsnd_timer :: timer
  burstsnd_timer :: timer
  rng_unif :: "nat \<Rightarrow> real"
  rng_int :: "nat \<Rightarrow> int"
  drawn :: nat
  out :: "tpkt list"
  notices :: "notice list"

type_synonym 'b vwindow = "('b tcp_scheme \<Rightarrow> int) \<times> ('b tcp_scheme \<Rightarrow> real)"

abbreviation vwin :: "'b vwindow \<Rightarrow> 'b tcp_scheme \<Rightarrow> int" where "vwin v \<equiv> fst v"
abbreviation vwind :: "'b vwindow \<Rightarrow> 'b tcp_scheme \<Rightarrow> real" where "vwind v \<equiv> snd v"

definition headersize :: "tcp_conf \<Rightarrow> int" where
  "headersize c = tcpip_base_hdr_size c + (if ts_option (rc c) then ts_option_size c else 0)"

definition tcp_allocpkt :: "'b tcp_scheme \<Rightarrow> tpkt" where
  "tcp_allocpkt s =
     \<lparr>tp_size = psize (conf s), tp_seqno = 0, tp_ts = 0, tp_ts_echo = 0,
      sack_area = replicate (Suc NSA) (0, 0), sa_length = 0, tp_flowid = afid (conf s),
      tp_ttl = attl (conf s), ect = False, ce = False, cong_action = False, ecnecho = False,
      eln_flag = False, no_ts = False, qs_pkt = False, tp_reason = 0, tp_last_rtt = 0,
      qs_flag = QS_DISABLE, qs_ttl = 0, qs_rate = 0\<rparr>"

definition TCP_REASON_TIMEOUT :: int where "TCP_REASON_TIMEOUT = 1"
definition TCP_REASON_DUPACK :: int where "TCP_REASON_DUPACK = 2"
definition TCP_MAXSEQ :: int where "TCP_MAXSEQ = 1073741824"

subsection \<open>Timers\<close>

definition rtx_resched :: "time \<Rightarrow> xreal \<Rightarrow> 'b tcp_scheme \<Rightarrow> 'b tcp_scheme res" where
  "rtx_resched now d s = res_bind (tm_resched now d (rtx_timer s)) (\<lambda>t. Inr (s\<lparr>rtx_timer := t\<rparr>))"

definition delsnd_resched :: "time \<Rightarrow> xreal \<Rightarrow> 'b tcp_scheme \<Rightarrow> 'b tcp_scheme res" where
  "delsnd_resched now d s = res_bind (tm_resched now d (delsnd_timer s)) (\<lambda>t. Inr (s\<lparr>delsnd_timer := t\<rparr>))"

definition set_rtx_timer :: "time \<Rightarrow> 'b tcp_scheme \<Rightarrow> 'b tcp_scheme res" where
  "set_rtx_timer now s =
     res_bind (rtt_timeout (rc (conf s)) (rt s)) (\<lambda>(t, r). rtx_resched now (Fin t) (s\<lparr>rt := r\<rparr>))"

definition cancel_rtx_timer :: "'b tcp_scheme \<Rightarrow> 'b tcp_scheme" where
  "cancel_rtx_timer s = s\<lparr>rtx_timer := tm_force_cancel (rtx_timer s)\<rparr>"

definition cancel_timers :: "'b tcp_scheme \<Rightarrow> 'b tcp_scheme" where
  "cancel_timers s =
     s\<lparr>rtx_timer := tm_force_cancel (rtx_timer s), burstsnd_timer := tm_force_cancel (burstsnd_timer s),
       delsnd_timer := tm_force_cancel (delsnd_timer s)\<rparr>"

definition tcp_backoff :: "'b tcp_scheme \<Rightarrow> 'b tcp_scheme res" where
  "tcp_backoff s = res_bind (rtt_backoff (rc (conf s)) (rt s)) (\<lambda>r. Inr (s\<lparr>rt := r\<rparr>))"

definition reset_rtx_timer :: "time \<Rightarrow> bool \<Rightarrow> bool \<Rightarrow> 'b tcp_scheme \<Rightarrow> 'b tcp_scheme res" where
  "reset_rtx_timer now mild backoff s =
     res_bind (if backoff then tcp_backoff s else Inr s) (\<lambda>s.
     res_bind (set_rtx_timer now s) (\<lambda>s.
       Inr (s\<lparr>t_seqno := (if mild then t_seqno s else highest_ack s + 1), rtt_active := False\<rparr>)))"

subsection \<open>Quick-Start rates (\<open>qs/hdr_qs.cc\<close>)\<close>

definition fuzzy_cast :: "real \<Rightarrow> int" where
  "fuzzy_cast f =
     (let temp = int_of_double f
      in if 1 - 1 / 1000000 \<le> f - of_int temp then int_of_double (f + 1 / 2) else temp)"

definition rate_to_Bps :: "int \<Rightarrow> int \<Rightarrow> real" where
  "rate_to_Bps fn rate =
     (if rate = 0 then 0 else if fn = 2 then 2 powr of_int rate * 5000 else of_int (rate * 10240))"

definition Bps_to_rate :: "int \<Rightarrow> real \<Rightarrow> int res" where
  "Bps_to_rate fn Bps =
     (if Bps = 0 then Inr 0
      else if fn = 2
      then if Bps < 0 then Inl NotFinite
           else let r = fuzzy_cast (ln (Bps / 5000) / ln 2) in Inr (if 1 \<le> r then r else 0)
      else cdiv (int_of_double Bps) 10240)"

subsection \<open>\<open>output\<close>\<close>

text \<open>The array \<open>tss\<close> of the times at which packets were sent, with \<open>bugfix_ts_\<close>.\<close>

definition tss_index :: "int \<Rightarrow> int \<Rightarrow> nat res" where
  "tss_index i n =
     (if n = 0 then Inl DivisionByZero
      else if crem i n < 0 then Inl IndexOutOfRange else Inr (nat (crem i n)))"

fun tss_copy :: "int \<Rightarrow> int \<Rightarrow> real list \<Rightarrow> int list \<Rightarrow> real list \<Rightarrow> real list res" where
  "tss_copy base n xs [] ys = Inr ys"
| "tss_copy base n xs (i # is) ys =
     res_bind (tss_index (base + i) (n * 2)) (\<lambda>k.
     res_bind (tss_index (base + i) n) (\<lambda>j. tss_copy base n xs is (ys[k := xs ! j])))"

definition tss_grow :: "seq_t \<Rightarrow> 'b tcp_scheme \<Rightarrow> 'b tcp_scheme res" where
  "tss_grow seqno s =
     (let s = (if bugfix_ts (conf s) \<and> tss s = None
               then s\<lparr>tss := Some (replicate (nat (tss_size s)) 0)\<rparr> else s)
      in case tss s of
           None \<Rightarrow> Inr s
         | Some xs \<Rightarrow>
             if bugfix_ts (conf s) \<and> of_int (tss_size s) * (9 / 10 :: real) < of_int (seqno - highest_ack s)
             then res_bind (tss_copy (highest_ack s) (tss_size s) xs [0..tss_size s - 1]
                              (replicate (nat (tss_size s * 2)) 0))
                    (\<lambda>ys. Inr (s\<lparr>tss := Some ys, tss_size := tss_size s * 2\<rparr>))
             else Inr s)"

definition tss_store :: "seq_t \<Rightarrow> time \<Rightarrow> 'b tcp_scheme \<Rightarrow> 'b tcp_scheme res" where
  "tss_store seqno t s =
     (case tss s of
        None \<Rightarrow> Inr s
      | Some xs \<Rightarrow> res_bind (tss_index seqno (tss_size s)) (\<lambda>k. Inr (s\<lparr>tss := Some (xs[k := t])\<rparr>)))"

text \<open>The header of a packet, without the fields of the first one.\<close>

definition output_header :: "time \<Rightarrow> seq_t \<Rightarrow> int \<Rightarrow> 'b tcp_scheme \<Rightarrow> tpkt" where
  "output_header now seqno reason s =
     (tcp_allocpkt s)
       \<lparr>tp_seqno := seqno, tp_ts := now, qs_pkt := qs_approved (qs s), tp_ts_echo := ts_peer s,
        tp_reason := reason,
        tp_last_rtt := int_of_double (of_int (t_rtt (rt s)) * tcp_tick (rc (conf s)) * 1000),
        ect := ecn_on (conf s)\<rparr>"

text \<open>The flag that tells the receiver of a window reduction.\<close>

definition output_cwr :: "seq_t \<Rightarrow> tpkt \<Rightarrow> 'b tcp_scheme \<Rightarrow> tpkt \<times> 'b tcp_scheme" where
  "output_cwr seqno p s =
     (if congaction (wn s) \<and> (\<not> seqno < maxseq s \<or> SetCWRonRetransmit (conf s))
      then (p\<lparr>cong_action := True\<rparr>, s\<lparr>wn := (wn s)\<lparr>congaction := False\<rparr>\<rparr>)
      else (p, s))"

definition qs_rate_wanted :: "'b tcp_scheme \<Rightarrow> int res" where
  "qs_rate_wanted s =
     (let c = conf s; left = curseq s - maxseq s - 1
      in res_bind (cdiv (left * (psize c + headersize c)) 1024) (\<lambda>dataout.
           if qs_request_mode c = 1 \<and> 0 < qs_rtt c
           then res_bind (cdiv (dataout * 1000) (qs_rtt c)) (\<lambda>rate.
                  let qs_rr = (if rate < rate_request c then int32_of rate else rate_request c)
                  in Inr (if left < qs_thresh c then 0 else qs_rr))
           else Inr (rate_request c)))"

definition output_qs :: "tpkt \<Rightarrow> 'b tcp_scheme \<Rightarrow> (tpkt \<times> 'b tcp_scheme) res" where
  "output_qs p s =
     (if qs_on (conf s)
      then res_bind (qs_rate_wanted s) (\<lambda>qs_rr.
             if 0 < qs_rr
             then res_bind (Bps_to_rate (rate_function (conf s)) (of_int (qs_rr * 1024))) (\<lambda>rate.
                    let ttl = rng_int s (drawn s)
                    in Inr (p\<lparr>qs_flag := QS_REQUEST, qs_ttl := ttl, qs_rate := rate\<rparr>,
                            s\<lparr>drawn := drawn s + 1,
                              qs := (qs s)\<lparr>ttl_diff := crem (tp_ttl p - ttl) 256, qs_requested := True\<rparr>\<rparr>))
             else Inr (p\<lparr>qs_flag := QS_DISABLE\<rparr>, s))
      else Inr (p, s))"

text \<open>The first packet. The last component of the SYN is False when the connection is given up.\<close>

definition output_syn :: "time \<Rightarrow> tpkt \<Rightarrow> 'b tcp_scheme \<Rightarrow> (tpkt \<times> 'b tcp_scheme \<times> bool) res" where
  "output_syn now p s =
     (if syn (conf s)
      then let s = (if maxseq s = - 1 then s\<lparr>curseq := curseq s + 1\<rparr> else s);
               p = p\<lparr>tp_size := tcpip_base_hdr_size (conf s)\<rparr>;
               s = s\<lparr>syn_connects := syn_connects s + 1\<rparr>
           in if 0 < max_connects (conf s) \<and> max_connects (conf s) < syn_connects s
              then res_bind (rtx_resched now (Fin 10000) (s\<lparr>curseq := 0\<rparr>)) (\<lambda>s. Inr (p, s, False))
              else Inr (p, s, True)
      else Inr (p, s, True))"

definition output_ecn_setup :: "tpkt \<Rightarrow> 'b tcp_scheme \<Rightarrow> tpkt" where
  "output_ecn_setup p s = (if ecn_on (conf s) then p\<lparr>ecnecho := True, ect := False\<rparr> else p)"

text \<open>Sending: the counters, the highest packet sent and the measured packet.\<close>

definition output_send :: "time \<Rightarrow> seq_t \<Rightarrow> int \<Rightarrow> tpkt \<Rightarrow> 'b tcp_scheme \<Rightarrow> 'b tcp_scheme" where
  "output_send now seqno databytes p s =
     (let s = s\<lparr>st := (st s)\<lparr>ndatapack := ndatapack (st s) + 1, ndatabytes := ndatabytes (st s) + databytes\<rparr>,
                out := out s @ [p]\<rparr>;
          s = (if seqno = curseq s \<and> maxseq s < seqno then s\<lparr>notices := notices s @ [Idle]\<rparr> else s)
      in if maxseq s < seqno
         then let s = s\<lparr>maxseq := seqno\<rparr>
              in if rtt_active s then s
                 else let s = s\<lparr>rtt_active := True\<rparr>
                      in if rtt_seq s < seqno then s\<lparr>rtt_seq := seqno, rtt_ts := now\<rparr> else s
         else s\<lparr>st := (st s)\<lparr>nrexmitpack := nrexmitpack (st s) + 1,
                            nrexmitbytes := nrexmitbytes (st s) + databytes\<rparr>\<rparr>)"

definition output_finish ::
  "time \<Rightarrow> seq_t \<Rightarrow> int \<Rightarrow> tpkt \<Rightarrow> 'b tcp_scheme \<Rightarrow> 'b tcp_scheme res" where
  "output_finish now seqno databytes p s =
     (let force_set_rtx_timer = (highest_ack s = maxseq s);
          s = output_send now seqno databytes p s
      in if \<not> pending (rtx_timer s) \<or> force_set_rtx_timer then set_rtx_timer now s else Inr s)"

definition tcp_output :: "time \<Rightarrow> seq_t \<Rightarrow> int \<Rightarrow> 'b tcp_scheme \<Rightarrow> 'b tcp_scheme res" where
  "tcp_output now seqno reason s =
     res_bind (tss_grow seqno s) (\<lambda>s.
     res_bind (tss_store seqno now s) (\<lambda>s.
       let (p, s) = output_cwr seqno (output_header now seqno reason s) s;
           databytes = psize (conf s)
       in if seqno = 0
          then res_bind (output_syn now p s) (\<lambda>(p, s, go).
                 if go
                 then res_bind (output_qs (output_ecn_setup p s) s) (\<lambda>(p, s).
                        output_finish now seqno (if syn (conf s) then 0 else databytes) p s)
                 else Inr s)
          else output_finish now seqno databytes
                 (if useHeaders (conf s) then p\<lparr>tp_size := tp_size p + headersize (conf s)\<rparr> else p) s))"

subsection \<open>Windows\<close>

definition force_wnd :: "int \<Rightarrow> 'b tcp_scheme \<Rightarrow> int" where
  "force_wnd num s = int32_of (recover s + num - int32_of (highest_ack s))"

definition tcp_window :: "'b tcp_scheme \<Rightarrow> int" where
  "tcp_window s =
     (let wd = wnd (wc (conf s))
      in if frto s = 2
         then if of_int (force_wnd 2 s) < wd then force_wnd 2 s else int_of_double wd
         else if cwnd (wn s) < wd then int_of_double (cwnd (wn s)) else int_of_double wd)"

definition tcp_windowd :: "'b tcp_scheme \<Rightarrow> real" where
  "tcp_windowd s = (let wd = wnd (wc (conf s)) in if cwnd (wn s) < wd then cwnd (wn s) else wd)"

abbreviation tahoe :: "'b vwindow" where "tahoe \<equiv> (tcp_window, tcp_windowd)"

definition tcp_slowdown :: "'b vwindow \<Rightarrow> slow_flag set \<Rightarrow> 'b tcp_scheme \<Rightarrow> 'b tcp_scheme res" where
  "tcp_slowdown v how s =
     res_bind (slowdown (wc (conf s)) (vwin v s) (vwind v s) (W_used (qo s)) how (wn s))
       (\<lambda>w. Inr (s\<lparr>wn := w\<rparr>))"

definition tcp_opencwnd :: "'b tcp_scheme \<Rightarrow> 'b tcp_scheme res" where
  "tcp_opencwnd s = res_bind (opencwnd (rc (conf s)) (rt s) (wc (conf s)) (wn s)) (\<lambda>w. Inr (s\<lparr>wn := w\<rparr>))"

definition tcp_initial_window :: "'b tcp_scheme \<Rightarrow> real res" where
  "tcp_initial_window s = initial_window (qs_cwnd (qs s)) (psize (conf s)) (wn s)"

definition set_cwnd :: "real \<Rightarrow> 'b tcp_scheme \<Rightarrow> 'b tcp_scheme" where
  "set_cwnd x s = s\<lparr>wn := (wn s)\<lparr>cwnd := x\<rparr>\<rparr>"

definition set_action :: "cwnd_action \<Rightarrow> 'b tcp_scheme \<Rightarrow> 'b tcp_scheme" where
  "set_action a s = s\<lparr>wn := (wn s)\<lparr>last_cwnd_action := a\<rparr>\<rparr>"

definition set_initial_window :: "'b tcp_scheme \<Rightarrow> 'b tcp_scheme res" where
  "set_initial_window s =
     (if syn (conf s) \<and> delay_growth (conf s) then Inr ((set_cwnd 1 s)\<lparr>syn_connects := 0\<rparr>)
      else res_bind (tcp_initial_window s) (\<lambda>x. Inr (set_cwnd x s)))"

text \<open>\<open>quench\<close>, obsolete like \<open>closecwnd\<close>.\<close>

definition quench :: "'b vwindow \<Rightarrow> int \<Rightarrow> 'b tcp_scheme \<Rightarrow> 'b tcp_scheme res" where
  "quench v how s =
     (if recover s \<le> highest_ack s
      then let s = set_action CWND_ACTION_ECN (s\<lparr>recover := maxseq s\<rparr>)
           in res_bind (closecwnd (vwin v s) how (wn s)) (\<lambda>w. Inr (s\<lparr>wn := w\<rparr>))
      else Inr s)"

subsection \<open>The quiescence option\<close>

definition tcp_ticks :: "time \<Rightarrow> 'b tcp_scheme \<Rightarrow> int res" where
  "tcp_ticks now s =
     (let tick = tcp_tick (rc (conf s))
      in if tick = 0 then Inl NotFinite else Inr (int_of_double (now / tick + 1 / 2)))"

primrec slowdowns :: "nat \<Rightarrow> 'b vwindow \<Rightarrow> 'b tcp_scheme \<Rightarrow> 'b tcp_scheme res" where
  "slowdowns 0 v s = Inr s"
| "slowdowns (Suc n) v s = res_bind (tcp_slowdown v {CWND_HALF_WITH_MIN, TCP_IDLE} s) (slowdowns n v)"

text \<open>The sender has been application-limited: two reductions.\<close>

definition qo_limited :: "'b vwindow \<Rightarrow> 'b tcp_scheme \<Rightarrow> 'b tcp_scheme res" where
  "qo_limited v s =
     res_bind (tcp_slowdown v {THREE_QUARTER_SSTHRESH, TCP_IDLE} s)
       (tcp_slowdown v {CLOSE_CWND_HALF_WAY, TCP_IDLE})"

definition qo_idle :: "'b vwindow \<Rightarrow> nat \<Rightarrow> 'b tcp_scheme \<Rightarrow> 'b tcp_scheme res" where
  "qo_idle v n s = res_bind (tcp_slowdown v {THREE_QUARTER_SSTHRESH, TCP_IDLE} s) (slowdowns n v)"

definition reset_qoption :: "time \<Rightarrow> 'b tcp_scheme \<Rightarrow> 'b tcp_scheme res" where
  "reset_qoption now s =
     res_bind (tcp_ticks now s) (\<lambda>tn.
       Inr (s\<lparr>qo := (qo s)\<lparr>T_start := tn, RTT_count := 0, RTT_prev := 0, RTT_goodcount := 1,
                          F_counting := False, W_timed := - 1, F_full := False, Backoffs := 0\<rparr>\<rparr>))"

text \<open>\<open>W_used\<close> and the state after the packet that uses the window, or the last one of the data.\<close>

definition qo_used :: "'b tcp_scheme \<Rightarrow> 'b tcp_scheme" where
  "qo_used s =
     (let tmp = int32_of (t_seqno s - highest_ack s)
      in if W_used (qo s) < tmp then s\<lparr>qo := (qo s)\<lparr>W_used := tmp\<rparr>\<rparr> else s)"

text \<open>The parts of \<open>rtt_counting\<close>: after an idle period, at the end of a period of counting, after the
  last packet, and the start of the next measurement.\<close>

definition count_idle :: "'b vwindow \<Rightarrow> int \<Rightarrow> int \<Rightarrow> 'b tcp_scheme \<Rightarrow> 'b tcp_scheme res" where
  "count_idle v tn rtt s =
     (if 2 * rtt \<le> tn - T_last (qo s)
      then res_bind (cdiv ((tn - T_last (qo s)) * RTT_goodcount (qo s)) (rtt * 2)) (\<lambda>RTTs.
             let RTTs = RTTs - Backoffs (qo s); s = s\<lparr>qo := (qo s)\<lparr>Backoffs := 0\<rparr>\<rparr>
             in if 0 < RTTs
                then res_bind (qo_idle v (nat RTTs) s) (\<lambda>s.
                       Inr (s\<lparr>qo := (qo s)\<lparr>RTT_prev := RTT_count (qo s), W_used := 0\<rparr>\<rparr>))
                else Inr s)
      else Inr s)"

definition count_period :: "int \<Rightarrow> int \<Rightarrow> 'b tcp_scheme \<Rightarrow> 'b tcp_scheme" where
  "count_period tn rtt s =
     (let q = (qo s)\<lparr>T_last := tn\<rparr>;
          good = (if RTT_goodcount q < RTT_count q \<or> F_full q
                  then (if RTT_count q < 1 then 1 else RTT_count q) else RTT_goodcount q)
      in s\<lparr>qo := (if 2 * rtt \<le> tn - T_start q
                  then q\<lparr>RTT_goodcount := good, RTT_prev := RTT_prev q - RTT_count q, RTT_count := 0,
                         T_start := tn, F_full := False\<rparr>
                  else q)\<rparr>)"

definition count_limited :: "'b vwindow \<Rightarrow> 'b tcp_scheme \<Rightarrow> 'b tcp_scheme res" where
  "count_limited v s =
     (if t_seqno s = highest_ack s + vwin v s
      then Inr (s\<lparr>qo := (qo s)\<lparr>W_used := 0, F_full := True, RTT_prev := RTT_count (qo s)\<rparr>\<rparr>)
      else if t_seqno s = curseq s - 1
      then let s = qo_used s
           in if 2 \<le> RTT_count (qo s) - RTT_prev (qo s)
              then res_bind (qo_limited v s) (\<lambda>s.
                     Inr (s\<lparr>qo := (qo s)\<lparr>RTT_prev := RTT_count (qo s), Backoffs := Backoffs (qo s) + 1,
                                        W_used := 0\<rparr>\<rparr>))
              else Inr s
      else Inr s)"

definition count_start :: "'b tcp_scheme \<Rightarrow> 'b tcp_scheme" where
  "count_start s =
     (if F_counting (qo s) then s
      else s\<lparr>qo := (qo s)\<lparr>W_timed := int32_of (t_seqno s), F_counting := True\<rparr>\<rparr>)"

definition rtt_counting :: "'b vwindow \<Rightarrow> time \<Rightarrow> 'b tcp_scheme \<Rightarrow> 'b tcp_scheme res" where
  "rtt_counting v now s =
     res_bind (tcp_ticks now s) (\<lambda>tn.
     res_bind (shr (t_srtt (rt s)) (T_SRTT_BITS (rc (conf s)))) (\<lambda>rtt.
       let rtt = (if rtt < 1 then 1 else rtt) in
       res_bind (count_idle v tn rtt s) (\<lambda>s.
       res_bind (count_limited v (count_period tn rtt s)) (\<lambda>s. Inr (count_start s)))))"

definition send_idle :: "'b vwindow \<Rightarrow> int \<Rightarrow> int \<Rightarrow> 'b tcp_scheme \<Rightarrow> 'b tcp_scheme res" where
  "send_idle v tn rto s =
     (if rto \<le> tn - T_last (qo s)
      then res_bind (cdiv (tn - T_last (qo s)) rto) (\<lambda>n.
           res_bind (qo_idle v (nat n) s) (\<lambda>s.
             Inr (s\<lparr>qo := (qo s)\<lparr>T_prev := tn, W_used := 0\<rparr>\<rparr>)))
      else Inr s)"

definition send_limited :: "'b vwindow \<Rightarrow> int \<Rightarrow> int \<Rightarrow> 'b tcp_scheme \<Rightarrow> 'b tcp_scheme res" where
  "send_limited v tn rto s =
     (if t_seqno s = highest_ack s + vwin v s
      then Inr (s\<lparr>qo := (qo s)\<lparr>T_prev := tn, W_used := 0\<rparr>\<rparr>)
      else if t_seqno s = curseq s - 1
      then let s = qo_used s
           in if rto \<le> tn - T_prev (qo s)
              then res_bind (qo_limited v s) (\<lambda>s.
                     Inr (s\<lparr>qo := (qo s)\<lparr>T_prev := tn, W_used := 0\<rparr>\<rparr>))
              else Inr s
      else Inr s)"

definition process_qoption_after_send :: "'b vwindow \<Rightarrow> time \<Rightarrow> 'b tcp_scheme \<Rightarrow> 'b tcp_scheme res" where
  "process_qoption_after_send v now s =
     (if EnblRTTCtr (conf s) then rtt_counting v now s
      else
        res_bind (tcp_ticks now s) (\<lambda>tn.
        let rto = int_of_double (t_rtxcur (rt s) / tcp_tick (rc (conf s))) in
        res_bind (send_idle v tn rto s) (\<lambda>s.
          send_limited v tn rto (s\<lparr>qo := (qo s)\<lparr>T_last := tn\<rparr>\<rparr>))))"

definition process_qoption_after_ack :: "seq_t \<Rightarrow> 'b tcp_scheme \<Rightarrow> 'b tcp_scheme" where
  "process_qoption_after_ack seqno s =
     (let q = qo s
      in if F_counting q
         then if W_timed q \<le> seqno
              then s\<lparr>qo := q\<lparr>RTT_count := RTT_count q + 1, F_counting := False\<rparr>\<rparr>
              else if dupacks s = numdupacks (conf s) then s\<lparr>qo := q\<lparr>RTT_count := RTT_count q + 1\<rparr>\<rparr>
              else s
         else s)"

subsection \<open>Sending\<close>

text \<open>
  One round of the loop of \<open>send_much\<close>; the result tells whether the loop goes on. When the timer for
  delayed sending is pending and no packet is sent, nothing changes and the loop would not end.
\<close>

definition send_packet :: "'b vwindow \<Rightarrow> time \<Rightarrow> int \<Rightarrow> 'b tcp_scheme \<Rightarrow> 'b tcp_scheme res" where
  "send_packet v now reason s =
     res_bind (tcp_output now (t_seqno s) reason s) (\<lambda>s.
     res_bind (if QOption (conf s) then process_qoption_after_send v now s else Inr s) (\<lambda>s.
       Inr (s\<lparr>t_seqno := t_seqno s + 1\<rparr>)))"

definition draw_unif :: "real \<Rightarrow> 'b tcp_scheme \<Rightarrow> real \<times> 'b tcp_scheme" where
  "draw_unif r s = (r * rng_unif s (drawn s), s\<lparr>drawn := drawn s + 1\<rparr>)"

definition send_paced :: "time \<Rightarrow> int \<Rightarrow> 'b tcp_scheme \<Rightarrow> 'b tcp_scheme res" where
  "send_paced now win s =
     (let delay = xdiv (of_int (t_rtt (rt s)) * tcp_tick (rc (conf s))) (of_int win)
      in if overhead (conf s) \<noteq> 0
         then let (u, s) = draw_unif (overhead (conf s)) s in delsnd_resched now (xadd u delay) s
         else delsnd_resched now delay s)"

definition send_step ::
  "'b vwindow \<Rightarrow> time \<Rightarrow> bool \<Rightarrow> int \<Rightarrow> int \<Rightarrow> 'b tcp_scheme \<Rightarrow> (bool \<times> 'b tcp_scheme) res" where
  "send_step v now force reason win s =
     (if overhead (conf s) = 0 \<or> force \<or> qs_approved (qs s)
      then res_bind (send_packet v now reason s) (\<lambda>s.
             if qs_approved (qs s) then res_bind (send_paced now win s) (\<lambda>s. Inr (False, s))
             else Inr (True, s))
      else if \<not> pending (delsnd_timer s)
      then let (u, s) = draw_unif (overhead (conf s)) s
           in res_bind (delsnd_resched now (Fin u) s) (\<lambda>s. Inr (False, s))
      else Inl LoopDoesNotEnd)"

end
