(* ===== verification/Tcp_Sender.thy ===== *)
theory Tcp_Sender
  imports Tcp_Agent
begin

section \<open>Sending, acknowledgements and timeouts of \<open>TcpAgent\<close>\<close>

text \<open>
  The loop of \<open>send_much\<close> and the handlers of \<open>TcpAgent\<close> that end in it: \<open>recv\<close> for an
  acknowledgement, \<open>timeout\<close>, and the commands of the application. Before the loop stands the frame
  of \<open>output\<close>, from which its termination follows: every round moves \<open>t_seqno_\<close> towards \<open>curseq_\<close>,
  which only the very first packet can move, by one.
\<close>

subsection \<open>What \<open>output\<close> leaves alone\<close>

definition keeps :: "'b tcp_scheme \<Rightarrow> 'b tcp_scheme \<Rightarrow> bool" where
  "keeps s s' \<longleftrightarrow>
     conf s' = conf s \<and> qo s' = qo s \<and> t_seqno s' = t_seqno s \<and> highest_ack s' = highest_ack s \<and>
     last_ack s' = last_ack s \<and> recover s' = recover s \<and> prev_highest_ack s' = prev_highest_ack s \<and>
     dupacks s' = dupacks s \<and> frto s' = frto s \<and> pipe_prev s' = pipe_prev s \<and>
     tlastreset s' = tlastreset s \<and> closed s' = closed s \<and> delsnd_timer s' = delsnd_timer s \<and>
     burstsnd_timer s' = burstsnd_timer s \<and> qs_approved (qs s') = qs_approved (qs s) \<and>
     qs_window (qs s') = qs_window (qs s) \<and> qs_cwnd (qs s') = qs_cwnd (qs s) \<and>
     (wn s')\<lparr>congaction := False\<rparr> = (wn s)\<lparr>congaction := False\<rparr> \<and> tcp.more s' = tcp.more s"

lemma keeps_refl [simp]: "keeps s s"
  by (simp add: keeps_def)

lemma keeps_trans: "keeps s t \<Longrightarrow> keeps t u \<Longrightarrow> keeps s u"
  by (simp add: keeps_def)

lemma keeps_rtx_resched: "rtx_resched now d s = Inr s' \<Longrightarrow> keeps s s' \<and> curseq s' = curseq s"
  by (auto simp: rtx_resched_def keeps_def)

lemma keeps_set_rtx_timer: "set_rtx_timer now s = Inr s' \<Longrightarrow> keeps s s' \<and> curseq s' = curseq s"
  by (auto simp: set_rtx_timer_def rtx_resched_def keeps_def)

lemma keeps_tss_grow: "tss_grow q s = Inr s' \<Longrightarrow> keeps s s' \<and> curseq s' = curseq s"
  by (auto simp: tss_grow_def Let_def keeps_def split: option.splits if_splits)

lemma keeps_tss_store: "tss_store q t s = Inr s' \<Longrightarrow> keeps s s' \<and> curseq s' = curseq s"
  by (auto simp: tss_store_def keeps_def split: option.splits)

lemma keeps_output_cwr: "output_cwr q p s = (p', s') \<Longrightarrow> keeps s s' \<and> curseq s' = curseq s"
  by (auto simp: output_cwr_def keeps_def split: if_splits)

lemma keeps_output_qs: "output_qs p s = Inr (p', s') \<Longrightarrow> keeps s s' \<and> curseq s' = curseq s"
  by (auto simp: output_qs_def keeps_def Let_def split: if_splits)

lemma keeps_output_send: "keeps s (output_send now q n p s)" "curseq (output_send now q n p s) = curseq s"
  by (simp_all add: output_send_def keeps_def Let_def)

lemma keeps_output_finish:
  assumes "output_finish now q n p s = Inr s'"
  shows "keeps s s' \<and> curseq s' = curseq s"
proof -
  let ?t = "output_send now q n p s"
  have "s' = ?t \<or> set_rtx_timer now ?t = Inr s'"
    using assms by (auto simp: output_finish_def Let_def split: if_splits)
  then show ?thesis
    using keeps_output_send(1) [of s now q n p] keeps_output_send(2) [of now q n p s]
      keeps_set_rtx_timer [of now ?t s'] keeps_trans [of s ?t s'] by metis
qed

lemma keeps_output_syn:
  "output_syn now p s = Inr (p', s', go) \<Longrightarrow>
   keeps s s' \<and> (curseq s' = curseq s \<or> curseq s' = curseq s + 1 \<or> curseq s' = 0)"
  by (auto simp: output_syn_def rtx_resched_def keeps_def Let_def split: if_splits)

lemma keeps_output:
  assumes "tcp_output now q reason s = Inr s'"
  shows "keeps s s' \<and> (curseq s' = curseq s \<or> q = 0 \<and> (curseq s' = curseq s + 1 \<or> curseq s' = 0))"
proof -
  obtain s1 s2 where s: "tss_grow q s = Inr s1" "tss_store q now s1 = Inr s2"
    using assms by (auto simp: tcp_output_def)
  obtain p s3 where p: "output_cwr q (output_header now q reason s2) s2 = (p, s3)" by fastforce
  have k: "keeps s s3" "curseq s3 = curseq s"
    using keeps_tss_grow [OF s(1)] keeps_tss_store [OF s(2)] keeps_output_cwr [OF p]
    by (auto intro: keeps_trans)
  show ?thesis
  proof (cases "q = 0")
    case True
    then obtain p' s4 go where y: "output_syn now p s3 = Inr (p', s4, go)"
      using assms s p by (auto simp: tcp_output_def)
    note z = keeps_output_syn [OF y]
    show ?thesis
    proof (cases go)
      case True
      then obtain p'' s5 where w: "output_qs (output_ecn_setup p' s4) s4 = Inr (p'', s5)"
        "output_finish now 0 (if syn (conf s5) then 0 else psize (conf s3)) p'' s5 = Inr s'"
        using assms s p y \<open>q = 0\<close> by (auto simp: tcp_output_def)
      show ?thesis
        using k z keeps_output_qs [OF w(1)] keeps_output_finish [OF w(2)] \<open>q = 0\<close> by (metis keeps_trans)
    next
      case False
      then show ?thesis using assms s p y z k \<open>q = 0\<close> by (auto simp: tcp_output_def intro: keeps_trans)
    qed
  next
    case False
    then have "\<exists>n p. output_finish now q n p s3 = Inr s'" using assms s p by (auto simp: tcp_output_def)
    then show ?thesis using k keeps_output_finish by (metis keeps_trans)
  qed
qed

text \<open>The quiescence option writes only the window and its own state.\<close>

definition qo_frame :: "'b tcp_scheme \<Rightarrow> 'b tcp_scheme \<Rightarrow> bool" where
  "qo_frame s s' \<longleftrightarrow> s'\<lparr>wn := wn s, qo := qo s\<rparr> = s"

lemma qo_frameE:
  assumes "qo_frame s s'" obtains w q where "s' = s\<lparr>wn := w, qo := q\<rparr>"
proof -
  have "s = s'\<lparr>wn := wn s, qo := qo s\<rparr>" using assms by (simp add: qo_frame_def)
  then have "s\<lparr>wn := wn s', qo := qo s'\<rparr> = s'\<lparr>wn := wn s, qo := qo s\<rparr>\<lparr>wn := wn s', qo := qo s'\<rparr>"
    by (rule arg_cong)
  then have "s' = s\<lparr>wn := wn s', qo := qo s'\<rparr>" by simp
  then show ?thesis by (rule that)
qed

lemma qo_frame_refl [simp]: "qo_frame s s"
  by (simp add: qo_frame_def)

lemma qo_frame_upd [simp]:
  "qo_frame s (t\<lparr>qo := q\<rparr>) = qo_frame s t" "qo_frame s (t\<lparr>wn := w\<rparr>) = qo_frame s t"
  by (simp_all add: qo_frame_def)

lemma qo_frame_trans: "qo_frame s t \<Longrightarrow> qo_frame t u \<Longrightarrow> qo_frame s u"
  by (erule qo_frameE, erule qo_frameE) (simp add: qo_frame_def)

lemma qo_frame_sym: "qo_frame s t \<Longrightarrow> qo_frame t s"
  by (erule qo_frameE) (simp add: qo_frame_def)

lemma qo_frame_left: "qo_frame t t' \<Longrightarrow> qo_frame t' u = qo_frame t u"
  using qo_frame_trans qo_frame_sym by blast

lemma qo_frame_upd_left [simp]:
  "qo_frame (t\<lparr>qo := q\<rparr>) u = qo_frame t u" "qo_frame (t\<lparr>wn := w\<rparr>) u = qo_frame t u"
  by (rule qo_frame_left, simp)+

lemma qo_frame_slowdown: "tcp_slowdown v how s = Inr s' \<Longrightarrow> qo_frame s s'"
  by (auto simp: tcp_slowdown_def)

lemma qo_frame_slowdowns: "slowdowns n v s = Inr s' \<Longrightarrow> qo_frame s s'"
  by (induction n arbitrary: s) (auto dest: qo_frame_slowdown intro: qo_frame_trans)

lemma qo_frame_limited: "qo_limited v s = Inr s' \<Longrightarrow> qo_frame s s'"
  by (auto simp: qo_limited_def dest!: qo_frame_slowdown intro: qo_frame_trans)

lemma qo_frame_idle: "qo_idle v n s = Inr s' \<Longrightarrow> qo_frame s s'"
  by (auto simp: qo_idle_def dest!: qo_frame_slowdown qo_frame_slowdowns intro: qo_frame_trans)

lemma qo_frame_used [simp]: "qo_frame s (qo_used t) = qo_frame s t" "qo_frame (qo_used t) s = qo_frame t s"
  by (simp_all add: qo_used_def Let_def)

lemma qo_frame_count [simp]:
  "qo_frame s (count_period tn rtt t) = qo_frame s t" "qo_frame (count_period tn rtt t) s = qo_frame t s"
  "qo_frame s (count_start t) = qo_frame s t" "qo_frame (count_start t) s = qo_frame t s"
  by (simp_all add: count_period_def count_start_def Let_def)

lemma qo_frame_counts:
  "count_idle v tn rtt s = Inr s' \<Longrightarrow> qo_frame s s'" "count_limited v s = Inr s' \<Longrightarrow> qo_frame s s'"
  by (auto simp: count_idle_def count_limited_def Let_def dest!: qo_frame_idle qo_frame_limited split: if_splits)

lemma qo_frame_sends:
  "send_idle v tn rto s = Inr s' \<Longrightarrow> qo_frame s s'" "send_limited v tn rto s = Inr s' \<Longrightarrow> qo_frame s s'"
  by (auto simp: send_idle_def send_limited_def Let_def dest!: qo_frame_idle qo_frame_limited split: if_splits)

lemma qo_frame_after_send: "process_qoption_after_send v now s = Inr s' \<Longrightarrow> qo_frame s s'"
  unfolding process_qoption_after_send_def rtt_counting_def Let_def
  by (auto dest!: qo_frame_counts qo_frame_sends intro: qo_frame_trans split: if_splits)

subsection \<open>\<open>send_much\<close>\<close>

lemma send_packet_progress:
  assumes "send_packet v now reason s = Inr s'"
  shows "t_seqno s' = t_seqno s + 1 \<and>
    (curseq s' = curseq s \<or> t_seqno s = 0 \<and> (curseq s' = curseq s + 1 \<or> curseq s' = 0))"
proof -
  obtain s1 s2 where s: "tcp_output now (t_seqno s) reason s = Inr s1"
    "(if QOption (conf s1) then process_qoption_after_send v now s1 else Inr s1) = Inr s2"
    "s' = s2\<lparr>t_seqno := t_seqno s2 + 1\<rparr>"
    using assms unfolding send_packet_def by (simp split del: if_split) blast
  have "qo_frame s1 s2" using s(2) by (auto dest: qo_frame_after_send split: if_splits)
  then have "t_seqno s2 = t_seqno s1" "curseq s2 = curseq s1" by (auto elim: qo_frameE)
  then show ?thesis using keeps_output [OF s(1)] s(3) by (auto simp: keeps_def)
qed

lemma send_step_progress:
  assumes "send_step v now force reason win s = Inr (True, s')"
  shows "t_seqno s' = t_seqno s + 1 \<and>
    (curseq s' = curseq s \<or> t_seqno s = 0 \<and> (curseq s' = curseq s + 1 \<or> curseq s' = 0))"
proof -
  have "send_packet v now reason s = Inr s'"
    using assms by (auto simp: send_step_def draw_unif_def split: if_splits)
  then show ?thesis by (rule send_packet_progress)
qed

function send_loop ::
  "'b vwindow \<Rightarrow> time \<Rightarrow> bool \<Rightarrow> int \<Rightarrow> int \<Rightarrow> int \<Rightarrow> int \<Rightarrow> 'b tcp_scheme \<Rightarrow> 'b tcp_scheme res" where
  "send_loop v now force reason mb win npackets s =
     (if t_seqno s \<le> highest_ack s + win \<and> t_seqno s < curseq s
      then res_bind (send_step v now force reason win s) (\<lambda>(go, s).
             if go
             then if mb \<noteq> 0 \<and> npackets + 1 = mb then Inr s
                  else send_loop v now force reason mb (vwin v s) (npackets + 1) s
             else Inr s)
      else Inr s)"
  by pat_completeness auto
termination
proof (relation "measure (\<lambda>(v, now, force, reason, mb, win, npackets, s).
    nat (curseq s - t_seqno s) + (if t_seqno s \<le> 0 then 1 else 0))", goal_cases)
  case (2 v now force reason mb win npackets s x go s')
  then have "send_step v now force reason win s = Inr (True, s')" by simp
  from send_step_progress [OF this] 2(1) show ?case by auto
qed simp

declare send_loop.simps [simp del]

definition send_much ::
  "'b vwindow \<Rightarrow> time \<Rightarrow> bool \<Rightarrow> int \<Rightarrow> int \<Rightarrow> 'b tcp_scheme \<Rightarrow> 'b tcp_scheme res" where
  "send_much v now force reason mb s =
     (let win = vwin v s
      in if \<not> force \<and> pending (delsnd_timer s) then Inr s
         else let s = (if t_seqno s = 0 then s\<lparr>firstsent := now\<rparr> else s)
              in if pending (burstsnd_timer s) then Inr s
                 else send_loop v now force reason mb win 0 s)"

subsection \<open>Acknowledgements\<close>

definition newtimer :: "time \<Rightarrow> tpkt \<Rightarrow> 'b tcp_scheme \<Rightarrow> 'b tcp_scheme res" where
  "newtimer now pkt s =
     (if tp_seqno pkt < t_seqno s \<or> tp_seqno pkt < maxseq s \<or> cwnd (wn s) < 1
      then set_rtx_timer now s else Inr (cancel_rtx_timer s))"

definition tcp_rtt_update :: "time \<Rightarrow> real \<Rightarrow> 'b tcp_scheme \<Rightarrow> 'b tcp_scheme res" where
  "tcp_rtt_update now tao s =
     res_bind (rtt_update (rc (conf s)) now tao (rt s)) (\<lambda>r. Inr (s\<lparr>rt := r\<rparr>))"

definition end_backoff :: "tpkt \<Rightarrow> 'b tcp_scheme \<Rightarrow> 'b tcp_scheme" where
  "end_backoff pkt s =
     (if \<not> ect_on s \<or> \<not> ecn_backoff s \<or> \<not> ecnecho pkt
      then s\<lparr>rt := (rt s)\<lparr>t_backoff := 1\<rparr>, ecn_backoff := False\<rparr> else s)"

definition newack_ts :: "time \<Rightarrow> tpkt \<Rightarrow> 'b tcp_scheme \<Rightarrow> 'b tcp_scheme res" where
  "newack_ts now pkt s =
     (if ts_option (rc (conf s))
      then res_bind (tcp_rtt_update now (now - tp_ts_echo pkt) (s\<lparr>ts_echoed := tp_ts_echo pkt\<rparr>))
             (\<lambda>s. Inr (if ts_resetRTO (conf s) then end_backoff pkt s else s))
      else Inr s)"

definition newack_timed :: "time \<Rightarrow> tpkt \<Rightarrow> 'b tcp_scheme \<Rightarrow> 'b tcp_scheme res" where
  "newack_timed now pkt s =
     (if rtt_active s \<and> rtt_seq s \<le> tp_seqno pkt
      then let s = (end_backoff pkt s)\<lparr>rtt_active := False\<rparr>
           in if ts_option (rc (conf s)) then Inr s else tcp_rtt_update now (now - rtt_ts s) s
      else Inr s)"

definition newack_advance :: "seq_t \<Rightarrow> 'b tcp_scheme \<Rightarrow> 'b tcp_scheme" where
  "newack_advance seqno s =
     (let s = s\<lparr>dupacks := 0, last_ack := seqno, prev_highest_ack := int32_of (highest_ack s),
                highest_ack := seqno\<rparr>
      in if t_seqno s < last_ack s + 1 then s\<lparr>t_seqno := last_ack s + 1\<rparr> else s)"

definition newack :: "time \<Rightarrow> tpkt \<Rightarrow> 'b tcp_scheme \<Rightarrow> 'b tcp_scheme res" where
  "newack now pkt s =
     res_bind (if timerfix (conf s) then Inr s else newtimer now pkt s) (\<lambda>s.
       let s = newack_advance (tp_seqno pkt) s in
     res_bind (if no_ts pkt then Inr s else res_bind (newack_ts now pkt s) (newack_timed now pkt)) (\<lambda>s.
     res_bind (if timerfix (conf s) then newtimer now pkt s else Inr s) (\<lambda>s.
       let th = wnd_th (wc (conf s))
       in Inr (s\<lparr>wn := (wn s)\<lparr>awnd := awnd (wn s) * (1 - th) + th * cwnd (wn s)\<rparr>\<rparr>))))"

definition ecn :: "'b vwindow \<Rightarrow> seq_t \<Rightarrow> 'b tcp_scheme \<Rightarrow> 'b tcp_scheme res" where
  "ecn v seqno s =
     (if recover s < seqno \<or> last_cwnd_action (wn s) = CWND_ACTION_TIMEOUT
      then let s = set_action CWND_ACTION_ECN (s\<lparr>recover := maxseq s\<rparr>)
           in res_bind (if cwnd (wn s) \<le> 1
                        then if ecn_backoff s then tcp_backoff s else Inr (s\<lparr>ecn_backoff := True\<rparr>)
                        else Inr (s\<lparr>ecn_backoff := False\<rparr>)) (\<lambda>s.
              res_bind (tcp_slowdown v {CLOSE_CWND_HALF, CLOSE_SSTHRESH_HALF} s) (\<lambda>s.
                Inr (s\<lparr>st := (st s)\<lparr>necnresponses := necnresponses (st s) + 1\<rparr>\<rparr>)))
      else Inr s)"

definition network_limited :: "'b vwindow \<Rightarrow> 'b tcp_scheme \<Rightarrow> bool" where
  "network_limited v s \<longleftrightarrow> prev_highest_ack s + vwin v s < t_seqno s"

text \<open>After a timeout that F-RTO finds to be spurious.\<close>

definition spurious_timeout :: "'b tcp_scheme \<Rightarrow> 'b tcp_scheme" where
  "spurious_timeout s =
     (let x = (if spurious_response (conf s) = 2 then of_int (ssthresh (wn s))
               else if spurious_response (conf s) = 3 then 1
               else of_int (t_seqno s - prev_highest_ack s))
      in s\<lparr>frto := 0, wn := (wn s)\<lparr>cwnd := x, ssthresh := pipe_prev s\<rparr>, recover := highest_ack s - 1\<rparr>)"

definition newack_frto :: "'b tcp_scheme \<Rightarrow> 'b tcp_scheme" where
  "newack_frto s =
     (if frto s = 1
      then if of_int (highest_ack s) + wnd (wc (conf s)) \<le> of_int (recover s + 1) \<or> curseq s \<le> recover s + 1
           then s\<lparr>frto := 0\<rparr>
           else if highest_ack s = recover s then s\<lparr>frto := 0\<rparr>
           else s\<lparr>t_seqno := recover s + 1, frto := 2\<rparr>
      else if frto s = 2 then spurious_timeout s
      else s)"

definition newack_ecn :: "tpkt \<Rightarrow> 'b tcp_scheme \<Rightarrow> 'b tcp_scheme" where
  "newack_ecn pkt s =
     (let s = (if ect_on s
               then s\<lparr>ecn_backoff := (if ecnecho pkt then ecn_backoff s else False), ecn_burst := ecnecho pkt\<rparr>
               else s)
      in if \<not> ect_on s \<and> ecnecho pkt \<and> \<not> cong_action pkt then s\<lparr>ect_on := True\<rparr> else s)"

definition newack_done :: "'b tcp_scheme \<Rightarrow> 'b tcp_scheme" where
  "newack_done s =
     (let s = (if curseq s - 1 \<le> highest_ack s \<and> \<not> closed s
               then s\<lparr>closed := True, notices := notices s @ [Done]\<rparr> else s)
      in if QOption (conf s) \<and> curseq s = highest_ack s + 1 then cancel_rtx_timer s else s)"

definition newack_open :: "'b vwindow \<Rightarrow> tpkt \<Rightarrow> 'b tcp_scheme \<Rightarrow> 'b tcp_scheme res" where
  "newack_open v pkt s =
     (if \<not> ect_on s \<or> \<not> ecnecho pkt \<or> (old_ecn (conf s) \<and> ecn_burst s)
      then if \<not> control_increase (conf s) \<or> network_limited v s then tcp_opencwnd s else Inr s
      else Inr s)"

definition recv_newack_helper :: "'b vwindow \<Rightarrow> time \<Rightarrow> tpkt \<Rightarrow> 'b tcp_scheme \<Rightarrow> 'b tcp_scheme res" where
  "recv_newack_helper v now pkt s =
     res_bind (newack now pkt s) (\<lambda>s.
       let s = (if qs_window (qs s) \<noteq> 0 \<and> qs_window (qs s) \<le> highest_ack s
                then s\<lparr>qs := (qs s)\<lparr>qs_window := 0\<rparr>\<rparr> else s)
       in res_bind (newack_open v pkt s) (\<lambda>s. Inr (newack_frto (newack_done (newack_ecn pkt s)))))"

subsection \<open>Duplicate acknowledgements\<close>

definition send_one :: "'b vwindow \<Rightarrow> time \<Rightarrow> 'b tcp_scheme \<Rightarrow> 'b tcp_scheme res" where
  "send_one v now s =
     (if of_int (t_seqno s) \<le> of_int (highest_ack s) + wnd (wc (conf s)) \<and> t_seqno s < curseq s \<and>
         of_int (t_seqno s) \<le> of_int (highest_ack s) + cwnd (wn s) + of_int (dupacks s)
      then send_packet v now 0 s else Inr s)"

definition lossQuickStart :: "'b vwindow \<Rightarrow> time \<Rightarrow> 'b tcp_scheme \<Rightarrow> (bool \<times> 'b tcp_scheme) res" where
  "lossQuickStart v now s =
     (if qs_window (qs s) \<noteq> 0 \<and> tcp_qs_recovery (conf s)
      then res_bind (tcp_slowdown v {CLOSE_CWND_INIT} s) (\<lambda>s.
           res_bind (tcp_output now (last_ack s + 1) TCP_REASON_DUPACK (s\<lparr>qs := (qs s)\<lparr>qs_window := 0\<rparr>\<rparr>))
             (\<lambda>s. Inr (True, s)))
      else Inr (False, s))"

definition tahoe_action :: "'b vwindow \<Rightarrow> time \<Rightarrow> 'b tcp_scheme \<Rightarrow> 'b tcp_scheme res" where
  "tahoe_action v now s =
     res_bind (lossQuickStart v now (s\<lparr>recover := maxseq s\<rparr>)) (\<lambda>(lost, s).
     res_bind (if lost then Inr s
               else tcp_slowdown v {CLOSE_SSTHRESH_HALF, CLOSE_CWND_ONE} (set_action CWND_ACTION_DUPACK s))
       (reset_rtx_timer now False False))"

definition dupack_action :: "'b vwindow \<Rightarrow> time \<Rightarrow> 'b tcp_scheme \<Rightarrow> 'b tcp_scheme res" where
  "dupack_action v now s =
     (if recover s < highest_ack s \<or> (\<not> bug_fix (conf s) \<and> \<not> ecn_on (conf s)) \<or>
         (bugfix_ss (conf s) \<and> highest_ack s = 0)
      then tahoe_action v now s
      else if ecn_on (conf s) \<and> last_cwnd_action (wn s) = CWND_ACTION_ECN
      then res_bind (tcp_slowdown v {CLOSE_CWND_ONE} (set_action CWND_ACTION_DUPACK s))
             (reset_rtx_timer now False False)
      else if bug_fix (conf s) then Inr s
      else tahoe_action v now s)"

definition tcp_eln :: "'b vwindow \<Rightarrow> time \<Rightarrow> tpkt \<Rightarrow> 'b tcp_scheme \<Rightarrow> 'b tcp_scheme res" where
  "tcp_eln v now pkt s =
     (let s = s\<lparr>dupacks := dupacks s + 1\<rparr>
      in if dupacks s = eln_rxmit_thresh (conf s) \<and> eln_last_rxmit s < tp_seqno pkt
         then res_bind (tcp_output now (last_ack s + 1) TCP_REASON_DUPACK s) (\<lambda>s.
                Inr (s\<lparr>eln_last_rxmit := int32_of (last_ack s + 1)\<rparr>))
         else send_much v now False 0 (maxburst (conf s)) s)"

subsection \<open>Quick-Start\<close>

definition endQuickStart :: "'b tcp_scheme \<Rightarrow> 'b tcp_scheme res" where
  "endQuickStart s =
     (let s = s\<lparr>qs := (qs s)\<lparr>qs_approved := False, qs_cwnd := 0, qs_window := int32_of (maxseq s)\<rparr>\<rparr>;
          new_cwnd = int32_of (maxseq s - last_ack s)
      in if 1 < new_cwnd \<and> of_int new_cwnd < cwnd (wn s)
         then let s = set_cwnd (of_int new_cwnd) s
              in res_bind (tcp_initial_window s) (\<lambda>iw.
                   Inr (if cwnd (wn s) < iw then set_cwnd iw s else s))
         else Inr s)"

definition processQuickStart :: "time \<Rightarrow> tpkt \<Rightarrow> 'b tcp_scheme \<Rightarrow> 'b tcp_scheme res" where
  "processQuickStart now pkt s =
     (let s = s\<lparr>qs := (qs s)\<lparr>qs_requested := False, qs_approved := False\<rparr>\<rparr>;
          size = psize (conf s) + headersize (conf s)
      in if qs_flag pkt = QS_RESPONSE \<and> qs_ttl pkt = ttl_diff (qs s) \<and> 0 < qs_rate pkt
         then if size = 0 then Inl NotFinite
              else let app_rate = int_of_double (rate_to_Bps (rate_function (conf s)) (qs_rate pkt) *
                                                 (now - tp_ts_echo pkt) / of_int size)
                   in res_bind (tcp_initial_window s) (\<lambda>iw.
                        Inr (if iw < of_int app_rate
                             then s\<lparr>qs := (qs s)\<lparr>qs_cwnd := app_rate, qs_approved := True\<rparr>\<rparr> else s))
         else Inr s)"

subsection \<open>\<open>recv\<close>\<close>

definition recv_frto_helper :: "tpkt \<Rightarrow> 'b tcp_scheme \<Rightarrow> 'b tcp_scheme" where
  "recv_frto_helper pkt s =
     (if tp_seqno pkt = last_ack s \<and> frto s \<noteq> 0
      then (set_cwnd (of_int (frto s)) s)\<lparr>t_seqno := highest_ack s + 1, frto := 0, dupacks := - 1\<rparr>
      else s)"

text \<open>The answer of the network to a Quick-Start request.\<close>

definition recv_qs :: "time \<Rightarrow> tpkt \<Rightarrow> 'b tcp_scheme \<Rightarrow> 'b tcp_scheme res" where
  "recv_qs now pkt s =
     res_bind (if qs_approved (qs s) \<and> last_ack s < tp_seqno pkt then endQuickStart s else Inr s) (\<lambda>s.
       if qs_requested (qs s) then processQuickStart now pkt s else Inr s)"

text \<open>The result tells whether the packet is of this incarnation of the connection.\<close>

definition recv_check :: "'b vwindow \<Rightarrow> tpkt \<Rightarrow> 'b tcp_scheme \<Rightarrow> (bool \<times> 'b tcp_scheme) res" where
  "recv_check v pkt s =
     (if tp_ts pkt < tlastreset s then Inr (False, s)
      else let s = s\<lparr>st := (st s)\<lparr>nackpack := nackpack (st s) + 1\<rparr>, ts_peer := tp_ts pkt\<rparr>
           in res_bind (if ecnecho pkt \<and> ecn_on (conf s) then ecn v (tp_seqno pkt) s else Inr s)
                (\<lambda>s. Inr (True, recv_frto_helper pkt s)))"

text \<open>What \<open>recv\<close> of \<open>TcpAgent\<close> and of \<open>RenoTcpAgent\<close> do first.\<close>

definition recv_begin :: "'b vwindow \<Rightarrow> time \<Rightarrow> tpkt \<Rightarrow> 'b tcp_scheme \<Rightarrow> (bool \<times> 'b tcp_scheme) res" where
  "recv_begin v now pkt s = res_bind (recv_qs now pkt s) (recv_check v pkt)"

text \<open>A new acknowledgement, with the larger initial window after the SYN.\<close>

definition recv_new :: "'b vwindow \<Rightarrow> time \<Rightarrow> tpkt \<Rightarrow> 'b tcp_scheme \<Rightarrow> 'b tcp_scheme res" where
  "recv_new v now pkt s =
     res_bind (recv_newack_helper v now pkt s) (\<lambda>s.
       if last_ack s = 0 \<and> delay_growth (conf s)
       then res_bind (tcp_initial_window s) (\<lambda>iw. Inr (set_cwnd iw s)) else Inr s)"

definition recv_dup ::
  "'b vwindow \<Rightarrow> (time \<Rightarrow> 'b tcp_scheme \<Rightarrow> 'b tcp_scheme res) \<Rightarrow> time \<Rightarrow> 'b tcp_scheme \<Rightarrow> 'b tcp_scheme res" where
  "recv_dup v da now s =
     (let s = s\<lparr>dupacks := dupacks s + 1\<rparr>
      in if dupacks s = numdupacks (conf s) \<and> \<not> noFastRetrans (conf s) then da now s
         else if dupacks s < numdupacks (conf s) \<and> singledup (conf s) then send_one v now s
         else Inr s)"

definition recv_end :: "'b vwindow \<Rightarrow> time \<Rightarrow> tpkt \<Rightarrow> 'b tcp_scheme \<Rightarrow> 'b tcp_scheme res" where
  "recv_end v now pkt s =
     (let s = (if QOption (conf s) \<and> EnblRTTCtr (conf s)
               then process_qoption_after_ack (tp_seqno pkt) s else s)
      in if last_ack s \<le> tp_seqno pkt \<or> aggressive_maxburst (conf s)
         then send_much v now False 0 (maxburst (conf s)) s else Inr s)"

definition tcp_recv ::
  "'b vwindow \<Rightarrow> (time \<Rightarrow> 'b tcp_scheme \<Rightarrow> 'b tcp_scheme res) \<Rightarrow> time \<Rightarrow> tpkt \<Rightarrow>
   'b tcp_scheme \<Rightarrow> 'b tcp_scheme res" where
  "tcp_recv v da now pkt s =
     res_bind (recv_begin v now pkt s) (\<lambda>(go, s).
       if \<not> go then Inr s
       else if last_ack s < tp_seqno pkt then res_bind (recv_new v now pkt s) (recv_end v now pkt)
       else if tp_seqno pkt = last_ack s
       then if eln_flag pkt \<and> eln_on (conf s) then tcp_eln v now pkt s
            else res_bind (recv_dup v da now s) (recv_end v now pkt)
       else recv_end v now pkt s)"

subsection \<open>Timeouts\<close>

datatype tcp_timer = TCP_TIMER_RTX | TCP_TIMER_DELSND | TCP_TIMER_BURSTSND

definition timeout_nonrtx :: "'b vwindow \<Rightarrow> time \<Rightarrow> tcp_timer \<Rightarrow> 'b tcp_scheme \<Rightarrow> 'b tcp_scheme res" where
  "timeout_nonrtx v now tno s =
     (if tno = TCP_TIMER_DELSND then send_much v now True TCP_REASON_TIMEOUT (maxburst (conf s)) s else Inr s)"

definition rtx_begin :: "'b vwindow \<Rightarrow> 'b tcp_scheme \<Rightarrow> 'b tcp_scheme" where
  "rtx_begin v s =
     (let s = s\<lparr>frto := 0\<rparr>;
          s = s\<lparr>pipe_prev := (if ssthresh (wn s) < vwin v s then vwin v s else ssthresh (wn s))\<rparr>;
          s = (if cwnd (wn s) < 1 then set_cwnd 1 s else s)
      in s\<lparr>qs := (qs s)\<lparr>qs_approved := False\<rparr>\<rparr>)"

text \<open>A lost first packet ends the use of a larger initial window.\<close>

definition rtx_first :: "'b tcp_scheme \<Rightarrow> 'b tcp_scheme" where
  "rtx_first s =
     (if highest_ack s = - 1 \<and> wnd_init_option (wn s) = 2 then s\<lparr>wn := (wn s)\<lparr>wnd_init_option := 1\<rparr>\<rparr>
      else if highest_ack s = - 1 \<and> wnd_init_option (wn s) = 1 \<and> 1 < wnd_init (wn s) \<and> bugfix_ss (conf s)
      then s\<lparr>wn := (wn s)\<lparr>wnd_init := 1\<rparr>\<rparr>
      else s)"

definition rtx_frto :: "'b tcp_scheme \<Rightarrow> 'b tcp_scheme" where
  "rtx_frto s = (if frto_enabled (conf s) \<or> sfrto_enabled (conf s) then s\<lparr>frto := 1\<rparr> else s)"

definition rtx_slowdown :: "'b vwindow \<Rightarrow> 'b tcp_scheme \<Rightarrow> 'b tcp_scheme res" where
  "rtx_slowdown v s =
     (if highest_ack s = maxseq s \<and> \<not> slow_start_restart (conf s) then Inr s
      else let s = rtx_first (s\<lparr>recover := maxseq s\<rparr>)
           in if highest_ack s = maxseq s \<and> restart_bugfix (conf s)
              then tcp_slowdown v {CLOSE_CWND_ONE, NO_OUTSTANDING_DATA} s
              else if highest_ack s < recover s \<and> last_cwnd_action (wn s) = CWND_ACTION_ECN
              then res_bind (tcp_slowdown v {CLOSE_CWND_ONE} s) (\<lambda>s. Inr (rtx_frto s))
              else res_bind (tcp_slowdown v {CLOSE_SSTHRESH_HALF, CLOSE_CWND_RESTART}
                       (set_action CWND_ACTION_TIMEOUT (s\<lparr>st := (st s)\<lparr>nrexmit := nrexmit (st s) + 1\<rparr>\<rparr>)))
                     (\<lambda>s. Inr (rtx_frto s)))"

definition tcp_timeout :: "'b vwindow \<Rightarrow> time \<Rightarrow> tcp_timer \<Rightarrow> 'b tcp_scheme \<Rightarrow> 'b tcp_scheme res" where
  "tcp_timeout v now tno s =
     (if tno = TCP_TIMER_RTX
      then res_bind (rtx_slowdown v (rtx_begin v s)) (\<lambda>s.
           res_bind (reset_rtx_timer now False (\<not> (highest_ack s = maxseq s \<and> restart_bugfix (conf s))) s) (\<lambda>s.
             let s = set_action CWND_ACTION_TIMEOUT s
             in send_much v now False TCP_REASON_TIMEOUT (maxburst (conf s)) s))
      else timeout_nonrtx v now tno s)"

text \<open>The \<open>expire\<close> methods of the three timers; \<open>timeout\<close> is virtual.\<close>

definition rtx_timer_handle :: "(tcp_timer \<Rightarrow> 'b tcp_scheme \<Rightarrow> 'b tcp_scheme res) \<Rightarrow> 'b tcp_scheme \<Rightarrow> 'b tcp_scheme res" where
  "rtx_timer_handle tmo = tm_handle rtx_timer (\<lambda>t. rtx_timer_update (\<lambda>_. t)) (tmo TCP_TIMER_RTX)"

definition delsnd_timer_handle :: "(tcp_timer \<Rightarrow> 'b tcp_scheme \<Rightarrow> 'b tcp_scheme res) \<Rightarrow> 'b tcp_scheme \<Rightarrow> 'b tcp_scheme res" where
  "delsnd_timer_handle tmo = tm_handle delsnd_timer (\<lambda>t. delsnd_timer_update (\<lambda>_. t)) (tmo TCP_TIMER_DELSND)"

definition burstsnd_timer_handle :: "(tcp_timer \<Rightarrow> 'b tcp_scheme \<Rightarrow> 'b tcp_scheme res) \<Rightarrow> 'b tcp_scheme \<Rightarrow> 'b tcp_scheme res" where
  "burstsnd_timer_handle tmo = tm_handle burstsnd_timer (\<lambda>t. burstsnd_timer_update (\<lambda>_. t)) (tmo TCP_TIMER_BURSTSND)"

subsection \<open>Application and commands\<close>

definition tcp_sendmsg :: "'b vwindow \<Rightarrow> time \<Rightarrow> int \<Rightarrow> 'b tcp_scheme \<Rightarrow> 'b tcp_scheme res" where
  "tcp_sendmsg v now nbytes s =
     res_bind (if nbytes = - 1 \<and> curseq s \<le> TCP_MAXSEQ then Inr (s\<lparr>curseq := TCP_MAXSEQ\<rparr>)
               else res_bind (cdiv nbytes (psize (conf s))) (\<lambda>q.
                      Inr (s\<lparr>curseq := curseq s + (q + (if crem nbytes (psize (conf s)) \<noteq> 0 then 1 else 0))\<rparr>)))
       (\<lambda>s. send_much v now False 0 (maxburst (conf s)) s)"

definition advanceby :: "'b vwindow \<Rightarrow> time \<Rightarrow> int \<Rightarrow> 'b tcp_scheme \<Rightarrow> 'b tcp_scheme res" where
  "advanceby v now delta s =
     (let s = s\<lparr>curseq := curseq s + delta\<rparr>;
          s = (if 0 < delta then s\<lparr>closed := False\<rparr> else s)
      in send_much v now False 0 (maxburst (conf s)) s)"

definition command_advance :: "'b vwindow \<Rightarrow> time \<Rightarrow> int \<Rightarrow> 'b tcp_scheme \<Rightarrow> 'b tcp_scheme res" where
  "command_advance v now newseq s =
     (if maxseq s < newseq then advanceby v now (int32_of (newseq - curseq s)) s
      else advanceby v now (int32_of (maxseq s - curseq s)) s)"

definition command_persist :: "'c tcp_scheme \<Rightarrow> 'b tcp_scheme \<Rightarrow> 'b tcp_scheme" where
  "command_persist other s =
     s\<lparr>wn := (wn s)\<lparr>cwnd := cwnd (wn other), awnd := awnd (wn other), ssthresh := ssthresh (wn other)\<rparr>,
       rt := (rt s)\<lparr>t_rtt := t_rtt (rt other), t_srtt := t_srtt (rt other), t_rttvar := t_rttvar (rt other),
                    t_backoff := t_backoff (rt other)\<rparr>\<rparr>"

text \<open>The constructor sets these members; the others are bound or set by \<open>reset\<close>.\<close>

definition new_TcpAgent :: "'b tcp_scheme \<Rightarrow> 'b tcp_scheme" where
  "new_TcpAgent s =
     s\<lparr>rt := (rt s)\<lparr>t_rtt := 0, t_srtt := 0, t_rttvar := 0, t_backoff := 0, use_rtt := False\<rparr>,
       wn := (wn s)\<lparr>cwnd := 0, ssthresh := 0, count := 0, first_decrease := True, fcnt := 0, congaction := False,
                    hs := \<lparr>low_p = 0, dec1 = 0, dec2 = 0, p1 = 0, p2 = 0, cwnd_last = 0, increase_last = 0\<rparr>\<rparr>,
       qs := (qs s)\<lparr>qs_requested := False, qs_approved := False, qs_window := 0, qs_cwnd := 0\<rparr>,
       st := (st s)\<lparr>nrexmit := 0\<rparr>,
       t_seqno := 0, dupacks := 0, curseq := 0, highest_ack := 0, maxseq := 0, rtt_active := False,
       rtt_seq := - 1, rtt_ts := 0, tlastreset := 0, closed := False, ts_peer := 0, ts_echoed := 0,
       tss := None, tss_size := 100, rtx_timer := new_timer, delsnd_timer := new_timer,
       burstsnd_timer := new_timer, ecn_burst := False, ecn_backoff := False, ect_on := False, frto := 0\<rparr>"

definition reset_window :: "'b tcp_scheme \<Rightarrow> 'b tcp_scheme" where
  "reset_window s =
     (let c = wc (conf s); w = wn s; th = int_of_double (wnd c)
      in s\<lparr>wn := w\<lparr>ssthresh := (if 0 < max_ssthresh c \<and> max_ssthresh c < th then max_ssthresh c else th),
                   wnd_restart := 1, awnd := wnd_init w / 2, last_cwnd_action := NO_ACTION,
                   first_decrease := True, ncwndcuts := 0, ncwndcuts1 := 0\<rparr>\<rparr>)"

definition reset_options :: "time \<Rightarrow> 'b tcp_scheme \<Rightarrow> 'b tcp_scheme res" where
  "reset_options now s =
     res_bind (if wnd_option (wc (conf s)) = 8
               then res_bind (hstcp_reset (wc (conf s)) (hs (wn s))) (\<lambda>h. Inr (s\<lparr>wn := (wn s)\<lparr>hs := h\<rparr>\<rparr>))
               else Inr s) (\<lambda>s.
     if QOption (conf s)
     then res_bind (tcp_ticks now s) (\<lambda>tn.
            let s = s\<lparr>qo := (qo s)\<lparr>T_last := tn, T_prev := tn, W_used := 0\<rparr>\<rparr>
            in if EnblRTTCtr (conf s) then reset_qoption now s else Inr s)
     else Inr s)"

definition tcp_reset :: "time \<Rightarrow> 'b tcp_scheme \<Rightarrow> 'b tcp_scheme res" where
  "tcp_reset now s =
     res_bind (rtt_init (rc (conf s)) (rt s)) (\<lambda>r.
     res_bind (set_initial_window (s\<lparr>rt := r, rtt_seq := - 1, dupacks := 0, curseq := 0\<rparr>)) (\<lambda>s.
       let s = reset_window (s\<lparr>t_seqno := 0, maxseq := - 1, last_ack := - 1, highest_ack := - 1,
                               recover := 0, closed := False\<rparr>);
           (u, s) = draw_unif (tcp_tick (rc (conf s))) s;
           s = s\<lparr>rt := (rt s)\<lparr>boot_time := u\<rparr>, tlastreset := now,
                  st := \<lparr>ndatapack = 0, ndatabytes = 0, nackpack = 0, nrexmit = 0, nrexmitpack = 0,
                         nrexmitbytes = 0, necnresponses = 0\<rparr>\<rparr>;
           s = cancel_timers s;
           s = (if control_increase (conf s) then s\<lparr>prev_highest_ack := int32_of (highest_ack s)\<rparr> else s)
       in reset_options now s))"

end
