(* ===== verification/Tcp_Reno.thy ===== *)
theory Tcp_Reno
  imports Tcp_Sender
begin

section \<open>Reno TCP (\<open>tcp/tcp-reno.cc\<close>: \<open>RenoTcpAgent\<close>)\<close>

text \<open>
  Fast recovery: duplicate acknowledgements inflate the window by \<open>dupwnd_\<close>, an \<open>unsigned int\<close>.
  \<open>RenoTcpAgent\<close> overrides \<open>window\<close>, \<open>windowd\<close>, \<open>recv\<close>, \<open>dupack_action\<close> and \<open>timeout\<close>.
\<close>

record reno = tcp +
  dupwnd :: int

definition reno_window :: "'b reno_scheme \<Rightarrow> int" where
  "reno_window s =
     (let win = int32_of (int_of_double (cwnd (wn s)) + dupwnd s);
          win = (if frto s = 2 then force_wnd 2 s else win);
          wd = int_of_double (wnd (wc (conf s)))
      in if wd < win then wd else win)"

definition reno_windowd :: "'b reno_scheme \<Rightarrow> real" where
  "reno_windowd s =
     (let win = cwnd (wn s) + of_int (dupwnd s); wd = wnd (wc (conf s))
      in if wd < win then wd else win)"

type_synonym 'b renoext = "'b reno_ext"

abbreviation reno_vt :: "'b renoext vwindow" where "reno_vt \<equiv> (reno_window, reno_windowd)"

definition new_RenoTcpAgent :: "'b reno_scheme \<Rightarrow> 'b reno_scheme" where
  "new_RenoTcpAgent s = (new_TcpAgent s)\<lparr>dupwnd := 0\<rparr>"

definition set_dupwnd :: "int \<Rightarrow> 'b reno_scheme \<Rightarrow> 'b reno_scheme" where
  "set_dupwnd n s = s\<lparr>dupwnd := n mod 2 ^ 32\<rparr>"

definition reno_dup ::
  "(time \<Rightarrow> 'b reno_scheme \<Rightarrow> 'b reno_scheme res) \<Rightarrow> time \<Rightarrow> 'b reno_scheme \<Rightarrow> 'b reno_scheme res" where
  "reno_dup da now s =
     (let s = s\<lparr>dupacks := dupacks s + 1\<rparr>
      in if dupacks s = numdupacks (conf s)
         then res_bind (da now s) (\<lambda>s.
                Inr (if exitFastRetrans (conf s) then s else set_dupwnd (numdupacks (conf s)) s))
         else if numdupacks (conf s) < dupacks s \<and>
                 (\<not> exitFastRetrans (conf s) \<or> last_cwnd_action (wn s) = CWND_ACTION_DUPACK)
         then Inr (set_dupwnd (dupwnd s + 1) s)
         else if dupacks s < numdupacks (conf s) \<and> singledup (conf s) then send_one reno_vt now s
         else Inr s)"

definition reno_new :: "time \<Rightarrow> tpkt \<Rightarrow> 'b reno_scheme \<Rightarrow> 'b reno_scheme res" where
  "reno_new now pkt s =
     (let s = (if last_cwnd_action (wn s) = CWND_ACTION_DUPACK then set_action CWND_ACTION_EXITED s else s)
      in recv_new reno_vt now pkt (s\<lparr>dupwnd := 0\<rparr>))"

definition reno_end :: "time \<Rightarrow> tpkt \<Rightarrow> 'b reno_scheme \<Rightarrow> 'b reno_scheme res" where
  "reno_end now pkt s =
     (if (last_ack s \<le> tp_seqno pkt \<or> aggressive_maxburst (conf s)) \<and>
         (dupacks s = 0 \<or> numdupacks (conf s) - 1 < dupacks s)
      then send_much reno_vt now False 0 (maxburst (conf s)) s else Inr s)"

definition reno_recv ::
  "(time \<Rightarrow> 'b reno_scheme \<Rightarrow> 'b reno_scheme res) \<Rightarrow> time \<Rightarrow> tpkt \<Rightarrow> 'b reno_scheme \<Rightarrow> 'b reno_scheme res" where
  "reno_recv da now pkt s =
     res_bind (recv_begin reno_vt now pkt s) (\<lambda>(go, s).
       if \<not> go then Inr s
       else if last_ack s < tp_seqno pkt then res_bind (reno_new now pkt s) (reno_end now pkt)
       else if tp_seqno pkt = last_ack s
       then if eln_flag pkt \<and> eln_on (conf s) then tcp_eln reno_vt now pkt s
            else res_bind (reno_dup da now s) (reno_end now pkt)
       else reno_end now pkt s)"

definition allow_fast_retransmit :: "cwnd_action \<Rightarrow> bool" where
  "allow_fast_retransmit a \<longleftrightarrow> a = CWND_ACTION_DUPACK"

text \<open>Retransmission of the first unacknowledged packet, which starts fast recovery.\<close>

definition reno_retransmit :: "time \<Rightarrow> 'b reno_scheme \<Rightarrow> 'b reno_scheme res" where
  "reno_retransmit now s =
     res_bind (reset_rtx_timer now True False s) (\<lambda>s.
     res_bind (tcp_output now (last_ack s + 1) TCP_REASON_DUPACK s) (\<lambda>s.
       Inr (set_dupwnd (numdupacks (conf s)) s)))"

definition reno_action :: "time \<Rightarrow> 'b reno_scheme \<Rightarrow> 'b reno_scheme res" where
  "reno_action now s =
     res_bind (tcp_slowdown reno_vt {CLOSE_SSTHRESH_HALF, CLOSE_CWND_HALF}
                 (set_action CWND_ACTION_DUPACK (s\<lparr>recover := maxseq s\<rparr>)))
       (reno_retransmit now)"

definition reno_dupack_action :: "time \<Rightarrow> 'b reno_scheme \<Rightarrow> 'b reno_scheme res" where
  "reno_dupack_action now s =
     (if recover s < highest_ack s \<or> (\<not> bug_fix (conf s) \<and> \<not> ecn_on (conf s)) \<or>
         allow_fast_retransmit (last_cwnd_action (wn s)) \<or> (bugfix_ss (conf s) \<and> highest_ack s = 0)
      then reno_action now s
      else if ecn_on (conf s) \<and> last_cwnd_action (wn s) = CWND_ACTION_ECN
      then reno_retransmit now (set_action CWND_ACTION_DUPACK s)
      else if bug_fix (conf s) then Inr s
      else reno_action now s)"

definition reno_timeout :: "time \<Rightarrow> tcp_timer \<Rightarrow> 'b reno_scheme \<Rightarrow> 'b reno_scheme res" where
  "reno_timeout now tno s =
     (if tno = TCP_TIMER_RTX
      then let s = s\<lparr>dupwnd := 0, dupacks := 0\<rparr>;
               s = (if bug_fix (conf s) then s\<lparr>recover := maxseq s\<rparr> else s)
           in tcp_timeout reno_vt now tno s
      else timeout_nonrtx reno_vt now tno s)"

end
