(* ===== verification/Tcp_Invariant.thy ===== *)
theory Tcp_Invariant
  imports Tcp_Reno
begin

section \<open>Invariant of the TCP senders\<close>

text \<open>
  What every operation of \<open>TcpAgent\<close> and \<open>RenoTcpAgent\<close> keeps: the operations return, the sequence
  numbers are ordered, a pending timer covers outstanding data. The lemmas are proved for any
  \<open>window()\<close> and are used by both senders. F-RTO and the timestamp table of \<open>bugfix_ts_\<close> are off and
  a SYN is retransmitted without limit, as in the default configuration; so is Quick-Start off.
\<close>

subsection \<open>The invariant\<close>

definition tcp_conf_ok :: "tcp_conf \<Rightarrow> bool" where
  "tcp_conf_ok c \<longleftrightarrow>
     rtt_conf_ok (rc c) \<and> win_conf_ok (wc c) \<and> 0 < psize c \<and> 0 < tcpip_base_hdr_size c \<and>
     0 \<le> ts_option_size c \<and> max_connects c \<le> 0 \<and> \<not> bugfix_ts c \<and> \<not> frto_enabled c \<and> \<not> sfrto_enabled c \<and>
     \<not> qs_on c"

definition snd_ok :: "'b tcp_scheme \<Rightarrow> bool" where
  "snd_ok s \<longleftrightarrow>
     tcp_conf_ok (conf s) \<and> rtt_ok (rc (conf s)) (rt s) \<and> cw_ok (wn s) \<and> \<not> qs_requested (qs s) \<and>
     \<not> qs_approved (qs s) \<and> qs_window (qs s) = 0 \<and> qs_cwnd (qs s) = 0 \<and> timer_ok (rtx_timer s) \<and>
     timer_ok (delsnd_timer s) \<and> timer_ok (burstsnd_timer s) \<and> tss s = None \<and> frto s = 0 \<and> last_ack s = highest_ack s \<and> - 1 \<le> highest_ack s \<and>
     highest_ack s \<le> maxseq s \<and> highest_ack s < t_seqno s \<and> t_seqno s \<le> maxseq s + 1"

definition guarded :: "'b tcp_scheme \<Rightarrow> bool" where
  "guarded s \<longleftrightarrow> (highest_ack s < maxseq s \<longrightarrow> pending (rtx_timer s))"

definition in_data :: "'b tcp_scheme \<Rightarrow> bool" where
  "in_data s \<longleftrightarrow> maxseq s < curseq s"

definition good_pkt :: "time \<Rightarrow> seq_t \<Rightarrow> tpkt \<Rightarrow> bool" where
  "good_pkt now mx p \<longleftrightarrow> 0 \<le> tp_seqno p \<and> tp_seqno p \<le> mx \<and> 0 < tp_size p \<and> tp_ts p = now"

text \<open>
  What an operation may change of the data sent and acknowledged, the packets it sends and the calls
  it makes: a call of \<open>done\<close> means that all data has been acknowledged.
\<close>

definition grows :: "'b tcp_scheme \<Rightarrow> 'b tcp_scheme \<Rightarrow> bool" where
  "grows s s' \<longleftrightarrow>
     conf s' = conf s \<and> tlastreset s' = tlastreset s \<and> maxseq s \<le> maxseq s' \<and>
     highest_ack s \<le> highest_ack s' \<and> curseq s \<le> curseq s' \<and> (0 \<le> maxseq s \<longrightarrow> curseq s' = curseq s)"

definition sends :: "time \<Rightarrow> 'b tcp_scheme \<Rightarrow> 'b tcp_scheme \<Rightarrow> bool" where
  "sends now s s' \<longleftrightarrow> (\<exists>ps. out s' = out s @ ps \<and> (\<forall>p\<in>set ps. good_pkt now (maxseq s') p))"

definition notifies :: "'b tcp_scheme \<Rightarrow> 'b tcp_scheme \<Rightarrow> bool" where
  "notifies s s' \<longleftrightarrow> (\<exists>ns. notices s' = notices s @ ns \<and>
     (Done \<in> set ns \<longrightarrow> 0 \<le> maxseq s' \<and> curseq s' \<le> highest_ack s' + 1))"

definition evolves :: "time \<Rightarrow> 'b tcp_scheme \<Rightarrow> 'b tcp_scheme \<Rightarrow> bool" where
  "evolves now s s' \<longleftrightarrow> grows s s' \<and> sends now s s' \<and> notifies s s'"

lemma sends_same: "out s' = out s \<Longrightarrow> sends now s s'"
  by (simp add: sends_def)

lemma notifies_same: "notices s' = notices s \<Longrightarrow> notifies s s'"
  by (simp add: notifies_def)

lemma evolves_same: "grows s s' \<Longrightarrow> out s' = out s \<Longrightarrow> notices s' = notices s \<Longrightarrow> evolves now s s'"
  by (simp add: evolves_def sends_same notifies_same)

lemma evolves_refl [simp]: "evolves now s s"
  by (rule evolves_same) (simp_all add: grows_def)

lemma evolves_trans:
  assumes "evolves now s t" "evolves now t u"
  shows "evolves now s u"
proof -
  have g: "grows s t" "grows t u" using assms by (simp_all add: evolves_def)
  obtain ps qs where o: "out t = out s @ ps" "\<forall>p\<in>set ps. good_pkt now (maxseq t) p"
    "out u = out t @ qs" "\<forall>p\<in>set qs. good_pkt now (maxseq u) p"
    using assms unfolding evolves_def sends_def by (elim conjE exE)
  obtain ns ms where n: "notices t = notices s @ ns" "Done \<in> set ns \<longrightarrow> 0 \<le> maxseq t \<and> curseq t \<le> highest_ack t + 1"
    "notices u = notices t @ ms" "Done \<in> set ms \<longrightarrow> 0 \<le> maxseq u \<and> curseq u \<le> highest_ack u + 1"
    using assms unfolding evolves_def notifies_def by (elim conjE exE)
  have "grows s u" using g by (simp add: grows_def)
  moreover have "good_pkt now (maxseq u) p" if "p \<in> set ps" for p
    using o(2) that g(2) by (force simp: good_pkt_def grows_def)
  then have "\<forall>p\<in>set (ps @ qs). good_pkt now (maxseq u) p" using o(4) by auto
  then have "sends now s u" unfolding sends_def using o(1,3) by (intro exI [of _ "ps @ qs"]) simp
  moreover have "Done \<in> set (ns @ ms) \<longrightarrow> 0 \<le> maxseq u \<and> curseq u \<le> highest_ack u + 1"
    using n(2,4) g(2) by (auto simp: grows_def)
  then have "notifies s u" unfolding notifies_def using n(1,3) by (intro exI [of _ "ns @ ms"]) simp
  ultimately show ?thesis by (simp add: evolves_def)
qed

definition safe_to :: "time \<Rightarrow> 'b tcp_scheme \<Rightarrow> 'b tcp_scheme \<Rightarrow> bool" where
  "safe_to now s s' \<longleftrightarrow>
     snd_ok s' \<and> evolves now s s' \<and> (pending (rtx_timer s) \<longrightarrow> pending (rtx_timer s')) \<and>
     (guarded s \<longrightarrow> guarded s') \<and> (1 \<le> cwnd (wn s) \<longrightarrow> 1 \<le> cwnd (wn s'))"

lemma safe_to_refl [simp]: "safe_to now s s = snd_ok s"
  by (simp add: safe_to_def)

lemma safe_to_trans: "safe_to now s t \<Longrightarrow> safe_to now t u \<Longrightarrow> safe_to now s u"
  by (auto simp: safe_to_def intro: evolves_trans)

lemma safe_to_ok: "safe_to now s t \<Longrightarrow> snd_ok t"
  by (simp add: safe_to_def)

subsection \<open>\<open>output\<close>\<close>

lemma rtx_resched_ok:
  assumes "timer_ok (rtx_timer s)"
  shows "rtx_resched now d s = Inr (s\<lparr>rtx_timer := \<lparr>status = TIMER_PENDING, event_at = Some (xadd now d)\<rparr>\<rparr>)"
  using assms by (simp add: rtx_resched_def tm_resched_ok)

lemma set_rtx_timer_ok:
  assumes "rtt_conf_ok (rc (conf s))" "rtt_ok (rc (conf s)) (rt s)" "timer_ok (rtx_timer s)"
  shows "\<exists>t. rto_ok (rc (conf s)) t \<and>
    set_rtx_timer now s = Inr (s\<lparr>rt := (rt s)\<lparr>use_rtt := False\<rparr>,
      rtx_timer := \<lparr>status = TIMER_PENDING, event_at = Some (Fin (now + t))\<rparr>\<rparr>)"
  using rtt_timeout_ok [OF assms(1,2)] assms(3) by (auto simp: set_rtx_timer_def rtx_resched_ok)

definition output_to :: "time \<Rightarrow> seq_t \<Rightarrow> 'b tcp_scheme \<Rightarrow> 'b tcp_scheme \<Rightarrow> bool" where
  "output_to now q s s' \<longleftrightarrow>
     keeps s s' \<and> rtt_ok (rc (conf s)) (rt s') \<and> timer_ok (rtx_timer s') \<and> pending (rtx_timer s') \<and>
     tss s' = None \<and> qs s' = qs s \<and> maxseq s' = max (maxseq s) q \<and> curseq s \<le> curseq s' \<and>
     (0 \<le> maxseq s \<longrightarrow> curseq s' = curseq s) \<and>
     (\<exists>p. out s' = out s @ [p] \<and> tp_seqno p = q \<and> 0 < tp_size p \<and> tp_ts p = now) \<and>
     (notices s' = notices s \<or> notices s' = notices s @ [Idle])"

lemma output_send_sel:
  "rtx_timer (output_send now q n p s) = rtx_timer s" "rt (output_send now q n p s) = rt s"
  "conf (output_send now q n p s) = conf s" "out (output_send now q n p s) = out s @ [p]"
  "maxseq (output_send now q n p s) = max (maxseq s) q" "tss (output_send now q n p s) = tss s"
  "curseq (output_send now q n p s) = curseq s" "qs (output_send now q n p s) = qs s"
  "notices (output_send now q n p s) = notices s \<or> notices (output_send now q n p s) = notices s @ [Idle]"
  by (auto simp: output_send_def Let_def max_def)

lemma output_finish_ok:
  assumes c: "rtt_conf_ok (rc (conf s))" and s: "rtt_ok (rc (conf s)) (rt s)" "timer_ok (rtx_timer s)" "tss s = None"
    and p: "tp_seqno p = q" "0 < tp_size p" "tp_ts p = now"
  shows "returns (output_finish now q n p s) (output_to now q s)"
proof -
  let ?t = "output_send now q n p s"
  obtain t where t: "set_rtx_timer now ?t = Inr (?t\<lparr>rt := (rt ?t)\<lparr>use_rtt := False\<rparr>,
      rtx_timer := \<lparr>status = TIMER_PENDING, event_at = Some (Fin (now + t))\<rparr>\<rparr>)"
    using set_rtx_timer_ok [of ?t now] c s(1,2) by (auto simp: output_send_sel)
  have k: "keeps s ?t" by (rule keeps_output_send)
  have o: "output_to now q s (?t\<lparr>rt := (rt ?t)\<lparr>use_rtt := False\<rparr>,
      rtx_timer := \<lparr>status = TIMER_PENDING, event_at = Some (Fin (now + t))\<rparr>\<rparr>)"
    using k s p output_send_sel(9) [of now q n p s] by (simp add: output_to_def keeps_def output_send_sel)
  have "output_to now q s ?t" if "pending (rtx_timer s)"
    using that k s p output_send_sel(9) [of now q n p s] by (simp add: output_to_def output_send_sel)
  then show ?thesis
    using t o by (auto simp: output_finish_def Let_def returns_def output_send_sel)
qed

text \<open>The steps before sending change the congestion flag, the SYN counter and the Quick-Start state.\<close>

definition prepares :: "'b tcp_scheme \<Rightarrow> 'b tcp_scheme \<Rightarrow> bool" where
  "prepares s s' \<longleftrightarrow>
     keeps s s' \<and> rt s' = rt s \<and> qs s' = qs s \<and> rtx_timer s' = rtx_timer s \<and> tss s' = tss s \<and> maxseq s' = maxseq s \<and>
     out s' = out s \<and> notices s' = notices s \<and> curseq s \<le> curseq s' \<and> (0 \<le> maxseq s \<longrightarrow> curseq s' = curseq s)"

lemma prepares_refl [simp]: "prepares s s"
  by (simp add: prepares_def)

lemma prepares_trans: "prepares s t \<Longrightarrow> prepares t u \<Longrightarrow> prepares s u"
  by (auto simp: prepares_def intro: keeps_trans)

lemma output_to_prepares: "prepares s t \<Longrightarrow> output_to now q t u \<Longrightarrow> output_to now q s u"
  unfolding prepares_def output_to_def by (auto simp: keeps_def)

definition hdr_of :: "time \<Rightarrow> seq_t \<Rightarrow> tpkt \<Rightarrow> bool" where
  "hdr_of now q p \<longleftrightarrow> tp_seqno p = q \<and> tp_ts p = now \<and> 0 < tp_size p"

lemma output_cwr_ok:
  "hdr_of now q p \<Longrightarrow> output_cwr q p s = (p', s') \<Longrightarrow> hdr_of now q p' \<and> prepares s s'"
  by (auto simp: output_cwr_def prepares_def keeps_def hdr_of_def split: if_splits)

lemma output_syn_ok:
  assumes "tcp_conf_ok (conf s)" "hdr_of now q p"
  shows "returns (output_syn now p s) (\<lambda>(p', s', go). go \<and> hdr_of now q p' \<and> prepares s s')"
  using assms
  by (auto simp: output_syn_def Let_def tcp_conf_ok_def prepares_def keeps_def hdr_of_def)

lemma output_qs_off: "tcp_conf_ok (conf s) \<Longrightarrow> output_qs p s = Inr (p, s)"
  by (simp add: output_qs_def tcp_conf_ok_def)

lemma headersize_pos: "tcp_conf_ok c \<Longrightarrow> 0 < headersize c"
  by (simp add: headersize_def tcp_conf_ok_def)

lemma output_ok:
  assumes ok: "snd_ok s"
  shows "returns (tcp_output now q reason s) (output_to now q s)"
proof -
  have c: "tcp_conf_ok (conf s)" using ok by (simp add: snd_ok_def)
  have t: "tss_grow q s = Inr s" "tss_store q now s = Inr s"
    using ok c by (simp_all add: tss_grow_def tss_store_def snd_ok_def tcp_conf_ok_def)
  let ?h = "output_header now q reason s"
  have h: "hdr_of now q ?h"
    using c by (simp add: hdr_of_def output_header_def tcp_allocpkt_def tcp_conf_ok_def)
  obtain p s1 where p: "output_cwr q ?h s = (p, s1)" by fastforce
  from output_cwr_ok [OF h p] have s1: "hdr_of now q p" "prepares s s1" by simp_all
  have fin: "returns (output_finish now q n p' s') (output_to now q s)"
    if "hdr_of now q p'" "prepares s s'" for n p' s'
  proof -
    have "returns (output_finish now q n p' s') (output_to now q s')"
      using that ok by (intro output_finish_ok)
        (simp_all add: hdr_of_def prepares_def keeps_def snd_ok_def tcp_conf_ok_def)
    then show ?thesis by (rule returns_mono) (rule output_to_prepares [OF that(2)])
  qed
  have c1: "tcp_conf_ok (conf s1)" using c s1(2) by (simp add: prepares_def keeps_def)
  show ?thesis
  proof (cases "q = 0")
    case True
    have "returns (res_bind (output_syn now p s1) (\<lambda>(p, s, go).
        if go then res_bind (output_qs (output_ecn_setup p s) s) (\<lambda>(p, s).
                     output_finish now q (if syn (conf s) then 0 else psize (conf s1)) p s)
        else Inr s)) (output_to now q s)"
    proof (rule returns_bind [OF output_syn_ok [OF c1 s1(1)]], clarsimp)
      fix p2 s2
      assume h2: "hdr_of now q p2" "prepares s1 s2"
      then have "hdr_of now q (output_ecn_setup p2 s2)" by (simp add: hdr_of_def output_ecn_setup_def)
      moreover have "tcp_conf_ok (conf s2)" using c1 h2(2) by (simp add: prepares_def keeps_def)
      ultimately show "returns (res_bind (output_qs (output_ecn_setup p2 s2) s2)
          (\<lambda>(p, s). output_finish now q (if syn (conf s) then 0 else psize (conf s1)) p s)) (output_to now q s)"
        using prepares_trans [OF s1(2) h2(2)] fin by (simp add: output_qs_off)
    qed
    then show ?thesis
      unfolding tcp_output_def by (simp only: t p res_bind.simps Let_def prod.case if_P [OF True])
  next
    case False
    have "hdr_of now q (if useHeaders (conf s1) then p\<lparr>tp_size := tp_size p + headersize (conf s1)\<rparr> else p)"
      using s1(1) headersize_pos [OF c1] by (simp add: hdr_of_def)
    from fin [OF this s1(2)] False show ?thesis by (simp add: tcp_output_def t p Let_def)
  qed
qed

lemma keeps_wn:
  assumes "keeps s s'"
  shows "cwnd (wn s') = cwnd (wn s)" "cw_ok (wn s') = cw_ok (wn s)"
    "last_cwnd_action (wn s') = last_cwnd_action (wn s)"
proof -
  have "(wn s')\<lparr>congaction := False\<rparr> = (wn s)\<lparr>congaction := False\<rparr>" using assms by (simp add: keeps_def)
  then have "f ((wn s')\<lparr>congaction := False\<rparr>) = f ((wn s)\<lparr>congaction := False\<rparr>)" for f :: "cw \<Rightarrow> 'x" by simp
  from this [of cwnd] this [of cw_ok] this [of last_cwnd_action]
  show "cwnd (wn s') = cwnd (wn s)" "cw_ok (wn s') = cw_ok (wn s)"
    "last_cwnd_action (wn s') = last_cwnd_action (wn s)" by simp_all
qed

lemma output_to_safe:
  assumes ok: "snd_ok s" and q: "0 \<le> q" "q \<le> maxseq s + 1" and o: "output_to now q s s'"
  shows "safe_to now s s'"
proof -
  have k: "keeps s s'" using o by (simp add: output_to_def)
  have "highest_ack s \<le> max (maxseq s) q" "t_seqno s \<le> max (maxseq s) q + 1"
    using ok by (auto simp: snd_ok_def max_def)
  then have "snd_ok s'" using ok o k keeps_wn(2) [OF k] by (simp add: snd_ok_def output_to_def keeps_def)
  moreover have "grows s s'" using o k by (simp add: grows_def output_to_def keeps_def)
  moreover have "sends now s s'" using o q(1) by (auto simp: output_to_def sends_def good_pkt_def)
  moreover have "notifies s s'" using o by (auto simp: output_to_def notifies_def)
  ultimately show ?thesis
    using o keeps_wn(1) [OF k] by (simp add: safe_to_def evolves_def guarded_def output_to_def)
qed

subsection \<open>The quiescence option\<close>

definition qo_to :: "'b tcp_scheme \<Rightarrow> 'b tcp_scheme \<Rightarrow> bool" where
  "qo_to s s' \<longleftrightarrow> qo_frame s s' \<and> (cw_ok (wn s) \<longrightarrow> cw_ok (wn s')) \<and> (1 \<le> cwnd (wn s) \<longrightarrow> 1 \<le> cwnd (wn s')) \<and>
     last_cwnd_action (wn s') = last_cwnd_action (wn s)"

lemma qo_to_refl [simp]: "qo_to s s"
  by (simp add: qo_to_def)

lemma qo_to_trans: "qo_to s t \<Longrightarrow> qo_to t u \<Longrightarrow> qo_to s u"
  by (auto simp: qo_to_def intro: qo_frame_trans)

lemma qo_to_upd [simp]: "qo_to s (t\<lparr>qo := q\<rparr>) = qo_to s t" "qo_to (s\<lparr>qo := q\<rparr>) = qo_to s"
  by (auto simp: qo_to_def fun_eq_iff)

lemma qo_to_pure [simp]:
  "qo_to s (qo_used t) = qo_to s t" "qo_to s (count_period tn r t) = qo_to s t" "qo_to s (count_start t) = qo_to s t"
  "qo_to (qo_used t) = qo_to t" "qo_to (count_period tn r t) = qo_to t"
  by (simp_all add: qo_used_def count_period_def count_start_def Let_def)

lemma qo_to_sel:
  assumes "qo_to s s'"
  shows "conf s' = conf s" "rt s' = rt s" "qs s' = qs s" "t_seqno s' = t_seqno s" "curseq s' = curseq s"
  using assms by (auto simp: qo_to_def elim!: qo_frameE)

lemma tcp_slowdown_ok:
  assumes "win_conf_ok (wc (conf s))" "cw_ok (wn s)"
  shows "returns (tcp_slowdown v how s) (\<lambda>s'. slow_to how (wn s) (wn s') \<and> s' = s\<lparr>wn := wn s'\<rparr>)"
proof -
  obtain w where w: "slowdown (wc (conf s)) (vwin v s) (vwind v s) (W_used (qo s)) how (wn s) = Inr w"
    "slow_to how (wn s) w" by (rule returnsE [OF slowdown_ok [OF assms]])
  then show ?thesis by (simp add: tcp_slowdown_def)
qed

lemma slowdown_qo_to:
  assumes "CLOSE_CWND_HALF \<notin> how" "win_conf_ok (wc (conf s))" "cw_ok (wn s)"
  shows "returns (tcp_slowdown v how s) (qo_to s)"
  using tcp_slowdown_ok [OF assms(2,3)]
proof (rule returns_mono)
  fix s' assume "slow_to how (wn s) (wn s') \<and> s' = s\<lparr>wn := wn s'\<rparr>"
  moreover from this have "qo_frame s s'" by (metis qo_frame_refl qo_frame_upd(2))
  ultimately show "qo_to s s'" using assms(1) by (simp add: qo_to_def slow_to_def)
qed

lemma qo_to_bind:
  assumes "returns m (qo_to s)" "\<And>t. qo_to s t \<Longrightarrow> returns (f t) (qo_to t)"
  shows "returns (res_bind m f) (qo_to s)"
  using assms(1) by (rule returns_bind) (rule returns_mono [OF assms(2)], assumption, rule qo_to_trans)

definition qo_pre :: "'b tcp_scheme \<Rightarrow> bool" where
  "qo_pre s \<longleftrightarrow> win_conf_ok (wc (conf s)) \<and> cw_ok (wn s)"

lemma qo_pre_to: "qo_pre s \<Longrightarrow> qo_to s t \<Longrightarrow> qo_pre t"
  using qo_to_sel(1) [of s t] by (simp add: qo_pre_def qo_to_def)

lemma qo_pre_upd [simp]:
  "qo_pre (t\<lparr>qo := q\<rparr>) = qo_pre t" "qo_pre (qo_used t) = qo_pre t" "qo_pre (count_period tn r t) = qo_pre t"
  by (simp_all add: qo_pre_def qo_used_def count_period_def Let_def)

lemma slowdown_pre: "CLOSE_CWND_HALF \<notin> how \<Longrightarrow> qo_pre s \<Longrightarrow> returns (tcp_slowdown v how s) (qo_to s)"
  unfolding qo_pre_def by (rule slowdown_qo_to) simp_all

lemma slowdowns_ok: "qo_pre s \<Longrightarrow> returns (slowdowns n v s) (qo_to s)"
  by (induction n arbitrary: s) (auto intro!: qo_to_bind slowdown_pre dest: qo_pre_to)

lemma qo_idle_ok: "qo_pre s \<Longrightarrow> returns (qo_idle v n s) (qo_to s)"
  unfolding qo_idle_def by (auto intro!: qo_to_bind slowdown_pre slowdowns_ok elim: qo_pre_to)

lemma qo_limited_ok: "qo_pre s \<Longrightarrow> returns (qo_limited v s) (qo_to s)"
  unfolding qo_limited_def by (auto intro!: qo_to_bind slowdown_pre elim: qo_pre_to)

lemma count_idle_ok:
  assumes "qo_pre s" "1 \<le> rtt"
  shows "returns (count_idle v tn rtt s) (qo_to s)"
proof (cases "2 * rtt \<le> tn - T_last (qo s)")
  case True
  obtain n where n: "cdiv ((tn - T_last (qo s)) * RTT_goodcount (qo s)) (rtt * 2) = Inr n"
    using assms(2) by (simp add: cdiv_def)
  have "returns (qo_idle v m (s\<lparr>qo := q\<rparr>)) (qo_to s)" for m q
    using qo_idle_ok [of "s\<lparr>qo := q\<rparr>" v m] assms(1) by simp
  then show ?thesis
    using True by (auto simp: count_idle_def n Let_def intro!: returns_bind [of _ "qo_to s"])
qed (simp add: count_idle_def)

lemma count_limited_ok:
  assumes "qo_pre s"
  shows "returns (count_limited v s) (qo_to s)"
proof -
  have "returns (qo_limited v (qo_used s)) (qo_to s)"
    using qo_limited_ok [of "qo_used s" v] assms by simp
  then show ?thesis by (auto simp: count_limited_def Let_def intro!: returns_bind [of _ "qo_to s"])
qed

lemma send_idle_ok:
  assumes "qo_pre s" "1 \<le> rto"
  shows "returns (send_idle v tn rto s) (qo_to s)"
proof -
  obtain n where n: "cdiv (tn - T_last (qo s)) rto = Inr n" using assms(2) by (simp add: cdiv_def)
  show ?thesis
    using qo_idle_ok [OF assms(1), of v "nat n"]
    by (auto simp: send_idle_def n intro!: returns_bind [of _ "qo_to s"])
qed

lemma send_limited_ok:
  assumes "qo_pre s"
  shows "returns (send_limited v tn rto s) (qo_to s)"
proof -
  have "returns (qo_limited v (qo_used s)) (qo_to s)"
    using qo_limited_ok [of "qo_used s" v] assms by simp
  then show ?thesis by (auto simp: send_limited_def Let_def intro!: returns_bind [of _ "qo_to s"])
qed

lemma tcp_ticks_ok: "rtt_conf_ok (rc (conf s)) \<Longrightarrow> \<exists>n. tcp_ticks now s = Inr n"
  by (simp add: tcp_ticks_def Let_def rtt_conf_ok_def)

lemma qoption_ok:
  assumes ok: "snd_ok s"
  shows "returns (process_qoption_after_send v now s) (qo_to s)"
proof -
  have c: "rtt_conf_ok (rc (conf s))" and r: "rtt_ok (rc (conf s)) (rt s)" and pre: "qo_pre s"
    using ok by (simp_all add: snd_ok_def tcp_conf_ok_def qo_pre_def)
  obtain tn where tn: "tcp_ticks now s = Inr tn" using tcp_ticks_ok [OF c] by blast
  obtain m where m: "shr (t_srtt (rt s)) (T_SRTT_BITS (rc (conf s))) = Inr m"
    using c by (simp add: rtt_conf_ok_def shr_ok)
  show ?thesis
  proof (cases "EnblRTTCtr (conf s)")
    case True
    let ?rtt = "if m < 1 then 1 else m"
    have "returns (res_bind (count_idle v tn ?rtt s) (\<lambda>s.
        res_bind (count_limited v (count_period tn ?rtt s)) (\<lambda>s. Inr (count_start s)))) (qo_to s)"
    proof (rule qo_to_bind)
      show "returns (count_idle v tn ?rtt s) (qo_to s)" by (rule count_idle_ok [OF pre]) simp
      fix t assume "qo_to s t"
      then have "returns (count_limited v (count_period tn ?rtt t)) (qo_to t)"
        using count_limited_ok [of "count_period tn ?rtt t" v] qo_pre_to [OF pre] by simp
      then show "returns (res_bind (count_limited v (count_period tn ?rtt t)) (\<lambda>s. Inr (count_start s))) (qo_to t)"
        by (rule returns_bind) simp
    qed
    then show ?thesis
      using True by (simp add: process_qoption_after_send_def rtt_counting_def tn m Let_def)
  next
    case False
    let ?rto = "int_of_double (t_rtxcur (rt s) / tcp_tick (rc (conf s)))"
    have "1 \<le> t_rtxcur (rt s) / tcp_tick (rc (conf s))"
      using c r by (simp add: rtt_conf_ok_def rtt_ok_def)
    then have rto: "1 \<le> ?rto" using int_of_double_ge_int [of 1] by simp
    have "returns (res_bind (send_idle v tn ?rto s) (\<lambda>s. send_limited v tn ?rto (s\<lparr>qo := (qo s)\<lparr>T_last := tn\<rparr>\<rparr>)))
        (qo_to s)"
    proof (rule qo_to_bind [OF send_idle_ok [OF pre rto]])
      fix t assume "qo_to s t"
      then have "qo_pre (t\<lparr>qo := (qo t)\<lparr>T_last := tn\<rparr>\<rparr>)" using qo_pre_to [OF pre] by simp
      from send_limited_ok [OF this] show "returns (send_limited v tn ?rto (t\<lparr>qo := (qo t)\<lparr>T_last := tn\<rparr>\<rparr>)) (qo_to t)"
        by simp
    qed
    then show ?thesis using False by (simp add: process_qoption_after_send_def tn Let_def)
  qed
qed

lemma qo_to_safe:
  assumes "snd_ok s" "qo_to s s'"
  shows "safe_to now s s'"
proof -
  obtain w q where "s' = s\<lparr>wn := w, qo := q\<rparr>" using assms(2) by (auto simp: qo_to_def elim: qo_frameE)
  moreover have "cw_ok (wn s')" "1 \<le> cwnd (wn s) \<longrightarrow> 1 \<le> cwnd (wn s')"
    using assms by (simp_all add: qo_to_def snd_ok_def)
  ultimately show ?thesis
    using assms(1) by (auto simp: safe_to_def snd_ok_def guarded_def grows_def intro: evolves_same)
qed

subsection \<open>\<open>send_much\<close>\<close>

definition sent_to :: "time \<Rightarrow> 'b tcp_scheme \<Rightarrow> 'b tcp_scheme \<Rightarrow> bool" where
  "sent_to now s s' \<longleftrightarrow>
     safe_to now s s' \<and> highest_ack s' = highest_ack s \<and> burstsnd_timer s' = burstsnd_timer s \<and>
     qs_approved (qs s') = qs_approved (qs s) \<and> tcp.more s' = tcp.more s"

lemma sent_to_refl [simp]: "sent_to now s s = snd_ok s"
  by (simp add: sent_to_def)

lemma sent_to_trans: "sent_to now s t \<Longrightarrow> sent_to now t u \<Longrightarrow> sent_to now s u"
  by (auto simp: sent_to_def intro: safe_to_trans)

lemma sent_to_conf: "sent_to now s t \<Longrightarrow> conf t = conf s \<and> snd_ok t"
  by (simp add: sent_to_def safe_to_def evolves_def grows_def)

lemma output_sent:
  assumes "snd_ok s" "0 \<le> q" "q \<le> maxseq s + 1"
  shows "returns (tcp_output now q reason s)
    (\<lambda>s'. sent_to now s s' \<and> output_to now q s s')"
  using output_ok [OF assms(1)]
proof (rule returns_mono)
  fix s' assume o: "output_to now q s s'"
  from output_to_safe [OF assms this] o show "sent_to now s s' \<and> output_to now q s s'"
    by (simp add: sent_to_def output_to_def keeps_def)
qed

text \<open>A packet is sent: the next one follows, and the retransmission timer is pending.\<close>

lemma send_packet_ok:
  assumes ok: "snd_ok s"
  shows "returns (send_packet v now reason s)
    (\<lambda>s'. sent_to now s s' \<and> pending (rtx_timer s') \<and> t_seqno s' = t_seqno s + 1 \<and> delsnd_timer s' = delsnd_timer s \<and>
          (t_seqno s < curseq s \<and> in_data s \<longrightarrow> in_data s') \<and>
          (\<exists>p. out s' = out s @ [p] \<and> tp_seqno p = t_seqno s))"
  unfolding send_packet_def
proof (rule returns_bind)
  have q: "0 \<le> t_seqno s" "t_seqno s \<le> maxseq s + 1" using ok by (auto simp: snd_ok_def)
  show "returns (tcp_output now (t_seqno s) reason s) (\<lambda>s'. sent_to now s s' \<and> output_to now (t_seqno s) s s')"
    by (rule output_sent [OF ok q])
  fix t assume t: "sent_to now s t \<and> output_to now (t_seqno s) s t"
  then have ok': "snd_ok t" "t_seqno t = t_seqno s" "t_seqno s \<le> maxseq t"
    by (auto simp: sent_to_def safe_to_def output_to_def keeps_def)
  have "returns (if QOption (conf t) then process_qoption_after_send v now t else Inr t) (qo_to t)"
    using qoption_ok [OF ok'(1)] by simp
  then show "returns (res_bind (if QOption (conf t) then process_qoption_after_send v now t else Inr t)
      (\<lambda>s. Inr (s\<lparr>t_seqno := t_seqno s + 1\<rparr>)))
      (\<lambda>s'. sent_to now s s' \<and> pending (rtx_timer s') \<and> t_seqno s' = t_seqno s + 1 \<and> delsnd_timer s' = delsnd_timer s \<and>
          (t_seqno s < curseq s \<and> in_data s \<longrightarrow> in_data s') \<and>
          (\<exists>p. out s' = out s @ [p] \<and> tp_seqno p = t_seqno s))"
  proof (rule returns_bind)
    fix u assume u: "qo_to t u"
    obtain w q where e: "u = t\<lparr>wn := w, qo := q\<rparr>" using u by (auto simp: qo_to_def elim: qo_frameE)
    let ?u = "u\<lparr>t_seqno := t_seqno u + 1\<rparr>"
    have "safe_to now t u" by (rule qo_to_safe [OF ok'(1) u])
    moreover have "safe_to now u ?u"
      using calculation ok'(2,3) e
      by (auto simp: safe_to_def snd_ok_def guarded_def grows_def intro!: evolves_same)
    ultimately have "safe_to now t ?u" by (rule safe_to_trans)
    then have "sent_to now t ?u" using e by (simp add: sent_to_def)
    then have "sent_to now s ?u" using t sent_to_trans by blast
    then show "returns (Inr ?u) (\<lambda>s'. sent_to now s s' \<and> pending (rtx_timer s') \<and> t_seqno s' = t_seqno s + 1 \<and>
        delsnd_timer s' = delsnd_timer s \<and> (t_seqno s < curseq s \<and> in_data s \<longrightarrow> in_data s') \<and>
        (\<exists>p. out s' = out s @ [p] \<and> tp_seqno p = t_seqno s))"
      using t e ok'(2) by (auto simp: output_to_def keeps_def in_data_def)
  qed
qed

lemma delsnd_resched_ok:
  assumes "snd_ok s"
  shows "returns (delsnd_resched now d s) (\<lambda>s'. sent_to now s s' \<and> pending (delsnd_timer s') \<and>
           in_data s' = in_data s \<and> out s' = out s \<and> rtx_timer s' = rtx_timer s \<and> t_seqno s' = t_seqno s)"
  using assms
  by (auto simp: delsnd_resched_def tm_resched_ok snd_ok_def sent_to_def safe_to_def guarded_def grows_def in_data_def
      intro!: evolves_same)

lemma draw_unif_sent: "snd_ok s \<Longrightarrow> draw_unif r s = (x, s') \<Longrightarrow> sent_to now s s' \<and> in_data s' = in_data s"
  by (auto simp: in_data_def draw_unif_def snd_ok_def sent_to_def safe_to_def guarded_def grows_def intro!: evolves_same)

definition first_sent :: "seq_t \<Rightarrow> 'b tcp_scheme \<Rightarrow> 'b tcp_scheme \<Rightarrow> bool" where
  "first_sent q s s' \<longleftrightarrow> (\<exists>p ps. out s' = out s @ p # ps \<and> tp_seqno p = q)"

lemma first_sent_more:
  assumes "first_sent q s t" "sent_to now t u" shows "first_sent q s u"
proof -
  obtain p ps where "out t = out s @ p # ps" "tp_seqno p = q" using assms(1) by (auto simp: first_sent_def)
  moreover obtain qs where "out u = out t @ qs"
    using assms(2) by (auto simp: sent_to_def safe_to_def evolves_def sends_def)
  ultimately show ?thesis unfolding first_sent_def by (intro exI [of _ p] exI [of _ "ps @ qs"]) simp
qed

definition round_to :: "time \<Rightarrow> bool \<Rightarrow> 'b tcp_scheme \<Rightarrow> bool \<Rightarrow> 'b tcp_scheme \<Rightarrow> bool" where
  "round_to now force s go s' \<longleftrightarrow>
     sent_to now s s' \<and> (in_data s \<longrightarrow> in_data s') \<and> (pending (rtx_timer s') \<or> pending (delsnd_timer s')) \<and>
     (go \<longrightarrow> pending (rtx_timer s') \<and> (overhead (conf s) = 0 \<or> force)) \<and>
     (overhead (conf s) = 0 \<or> force \<longrightarrow> first_sent (t_seqno s) s s') \<and>
     (\<not> (overhead (conf s) = 0 \<or> force) \<longrightarrow> pending (delsnd_timer s') \<and> t_seqno s' = t_seqno s)"

lemma send_step_ok:
  assumes ok: "snd_ok s" and d: "overhead (conf s) = 0 \<or> force \<or> \<not> pending (delsnd_timer s)"
    and less: "t_seqno s < curseq s"
  shows "returns (send_step v now force reason win s) (\<lambda>(go, s'). round_to now force s go s')"
proof (cases "overhead (conf s) = 0 \<or> force")
  case True
  have "returns (res_bind (send_packet v now reason s) (\<lambda>s.
      if qs_approved (qs s) then res_bind (send_paced now win s) (\<lambda>s. Inr (False, s)) else Inr (True, s)))
      (\<lambda>(go, s'). round_to now force s go s')"
  proof (rule returns_bind [OF send_packet_ok [OF ok]])
    fix t assume t: "sent_to now s t \<and> pending (rtx_timer t) \<and> t_seqno t = t_seqno s + 1 \<and>
      delsnd_timer t = delsnd_timer s \<and> (t_seqno s < curseq s \<and> in_data s \<longrightarrow> in_data t) \<and>
      (\<exists>p. out t = out s @ [p] \<and> tp_seqno p = t_seqno s)"
    then have "first_sent (t_seqno s) s t" "\<not> qs_approved (qs t)"
      using sent_to_conf [of now s t] by (auto simp: first_sent_def snd_ok_def)
    then show "returns (if qs_approved (qs t) then res_bind (send_paced now win t) (\<lambda>s. Inr (False, s)) else Inr (True, t))
        (\<lambda>(go, s'). round_to now force s go s')"
      using t True less by (auto simp: round_to_def)
  qed
  then show ?thesis using True by (auto simp: send_step_def)
next
  case False
  obtain u t where u: "draw_unif (overhead (conf s)) s = (u, t)" by fastforce
  have t: "sent_to now s t" "snd_ok t" "in_data t = in_data s" "t_seqno t = t_seqno s"
    using draw_unif_sent [OF ok u] sent_to_conf u by (auto simp: draw_unif_def)
  have "returns (delsnd_resched now (Fin u) t) (\<lambda>s'. round_to now force s False s')"
    using delsnd_resched_ok [OF t(2)]
    by (rule returns_mono) (use t False sent_to_trans in \<open>auto simp: round_to_def\<close>)
  then have "returns (res_bind (delsnd_resched now (Fin u) t) (\<lambda>s. Inr (False, s))) (\<lambda>(go, s'). round_to now force s go s')"
    by (rule returns_bind) simp
  then show ?thesis using False d ok by (simp add: send_step_def u snd_ok_def)
qed

definition loop_to :: "time \<Rightarrow> bool \<Rightarrow> int \<Rightarrow> 'b tcp_scheme \<Rightarrow> 'b tcp_scheme \<Rightarrow> bool" where
  "loop_to now force win s s' \<longleftrightarrow>
     sent_to now s s' \<and> (in_data s \<longrightarrow> in_data s') \<and>
     (t_seqno s \<le> highest_ack s + win \<and> t_seqno s < curseq s \<longrightarrow>
        (pending (rtx_timer s') \<or> pending (delsnd_timer s')) \<and>
        (overhead (conf s) = 0 \<or> force \<longrightarrow> first_sent (t_seqno s) s s') \<and>
        (\<not> (overhead (conf s) = 0 \<or> force) \<longrightarrow> pending (delsnd_timer s') \<and> t_seqno s' = t_seqno s)) \<and>
     (\<not> (t_seqno s \<le> highest_ack s + win \<and> t_seqno s < curseq s) \<longrightarrow> s' = s)"

lemma send_loop_ok:
  assumes "snd_ok s" "overhead (conf s) = 0 \<or> force \<or> \<not> pending (delsnd_timer s)"
  shows "returns (send_loop v now force reason mb win npackets s) (loop_to now force win s)"
  using assms
proof (induction v now force reason mb win npackets s rule: send_loop.induct)
  case (1 v now force reason mb win npackets s)
  show ?case
  proof (cases "t_seqno s \<le> highest_ack s + win \<and> t_seqno s < curseq s")
    case True
    let ?rest = "\<lambda>(go, s). if go
        then if mb \<noteq> 0 \<and> npackets + 1 = mb then Inr s
             else send_loop v now force reason mb (vwin v s) (npackets + 1) s
        else Inr s"
    have "returns (res_bind (send_step v now force reason win s) ?rest) (loop_to now force win s)"
    proof -
      obtain go t where t: "send_step v now force reason win s = Inr (go, t)" "round_to now force s go t"
        using send_step_ok [OF 1(2,3), of v now reason win] True by (auto simp: returns_def)
      have here: "loop_to now force win s t" using t(2) True by (simp add: loop_to_def round_to_def)
      show ?thesis
      proof (cases "go \<and> \<not> (mb \<noteq> 0 \<and> npackets + 1 = mb)")
        case go: True
        have ok: "snd_ok t" "overhead (conf t) = 0 \<or> force"
          using t(2) go sent_to_conf by (fastforce simp: round_to_def)+
        have "returns (send_loop v now force reason mb (vwin v t) (npackets + 1) t) (loop_to now force (vwin v t) t)"
          using 1(1) [OF True t(1) refl] go ok by blast
        then have "returns (send_loop v now force reason mb (vwin v t) (npackets + 1) t) (loop_to now force win s)"
        proof (rule returns_mono)
          fix u assume u: "loop_to now force (vwin v t) t u"
          then have m: "sent_to now t u" "in_data t \<longrightarrow> in_data u" by (simp_all add: loop_to_def)
          have r: "sent_to now s t" "pending (rtx_timer t)" "in_data s \<longrightarrow> in_data t" "overhead (conf s) = 0 \<or> force"
            "overhead (conf s) = 0 \<or> force \<longrightarrow> first_sent (t_seqno s) s t"
            using t(2) go unfolding round_to_def by blast+
          have "pending (rtx_timer u)" using m(1) r(2) by (simp add: sent_to_def safe_to_def)
          then show "loop_to now force win s u"
            using sent_to_trans [OF r(1) m(1)] r(3-5) m(2) first_sent_more [OF _ m(1)] True
            by (simp add: loop_to_def)
        qed
        then show ?thesis using t(1) go by auto
      qed (use t(1) here in auto)
    qed
    then show ?thesis using True by (simp add: send_loop.simps [of v now force reason mb win npackets s])
  next
    case False
    then have "send_loop v now force reason mb win npackets s = Inr s"
      by (subst send_loop.simps) (rule if_not_P)
    moreover have "loop_to now force win s s" unfolding loop_to_def using 1(2) False by (intro conjI impI) simp_all
    ultimately show ?thesis by simp
  qed
qed

text \<open>
  \<open>send_much\<close> returns; and when the window has room for a packet, a timer is pending afterwards
  while data remains.
\<close>

definition much_to :: "'b vwindow \<Rightarrow> time \<Rightarrow> bool \<Rightarrow> 'b tcp_scheme \<Rightarrow> 'b tcp_scheme \<Rightarrow> bool" where
  "much_to v now force s s' \<longleftrightarrow>
     sent_to now s s' \<and> (in_data s \<longrightarrow> in_data s') \<and>
     (guarded s \<and> \<not> pending (burstsnd_timer s) \<and> (1 \<le> vwin v s \<or> pending (rtx_timer s)) \<and>
      highest_ack s' + 1 < curseq s' \<longrightarrow> pending (rtx_timer s') \<or> pending (delsnd_timer s')) \<and>
     (\<not> pending (burstsnd_timer s) \<and> t_seqno s = highest_ack s + 1 \<and> 1 \<le> vwin v s \<and> t_seqno s < curseq s \<longrightarrow>
        first_sent (t_seqno s) s s' \<or> \<not> force \<and> pending (delsnd_timer s') \<and> t_seqno s' = t_seqno s)"

lemma guarded_awake:
  assumes "snd_ok s" "guarded s" "1 \<le> win \<or> pending (rtx_timer s)"
    and "\<not> (t_seqno s \<le> highest_ack s + win \<and> t_seqno s < curseq s)" "highest_ack s + 1 < curseq s"
  shows "pending (rtx_timer s)"
  using assms by (auto simp: guarded_def snd_ok_def)

lemma send_much_cases:
  assumes ok: "snd_ok s"
  shows "\<exists>s1. snd_ok s1 \<and> sent_to now s s1 \<and> in_data s1 = in_data s \<and> highest_ack s1 = highest_ack s \<and> t_seqno s1 = t_seqno s \<and> curseq s1 = curseq s \<and>
    conf s1 = conf s \<and> rtx_timer s1 = rtx_timer s \<and> delsnd_timer s1 = delsnd_timer s \<and> out s1 = out s \<and>
    send_much v now force reason mb s =
      (if \<not> force \<and> pending (delsnd_timer s) then Inr s
       else if pending (burstsnd_timer s) then Inr s1
       else send_loop v now force reason mb (vwin v s) 0 s1)"
  using ok
  by (intro exI [of _ "if t_seqno s = 0 then s\<lparr>firstsent := now\<rparr> else s"])
    (simp add: send_much_def Let_def snd_ok_def sent_to_def safe_to_def guarded_def evolves_same grows_def in_data_def)

lemma send_much_ok:
  assumes ok: "snd_ok s"
  shows "returns (send_much v now force reason mb s) (much_to v now force s)"
proof -
  obtain t where t: "snd_ok t" "sent_to now s t" "in_data t = in_data s" and eq: "highest_ack t = highest_ack s" "t_seqno t = t_seqno s"
    "curseq t = curseq s" "conf t = conf s" "rtx_timer t = rtx_timer s" "delsnd_timer t = delsnd_timer s" "out t = out s"
    and m: "send_much v now force reason mb s =
      (if \<not> force \<and> pending (delsnd_timer s) then Inr s
       else if pending (burstsnd_timer s) then Inr t
       else send_loop v now force reason mb (vwin v s) 0 t)"
    using send_much_cases [OF ok, of now v force reason mb] by (elim exE conjE)
  consider "\<not> force \<and> pending (delsnd_timer s)" | "force \<or> \<not> pending (delsnd_timer s)" "pending (burstsnd_timer s)"
    | "force \<or> \<not> pending (delsnd_timer s)" "\<not> pending (burstsnd_timer s)" by blast
  then show ?thesis
  proof cases
    case 1
    then have "send_much v now force reason mb s = Inr s" using m by simp
    then show ?thesis using ok 1 by (simp add: much_to_def)
  next
    case 2
    then have "send_much v now force reason mb s = Inr t" using m by auto
    then show ?thesis using t 2(2) by (simp add: much_to_def)
  next
    case 3
    have r: "returns (send_loop v now force reason mb (vwin v s) 0 t) (loop_to now force (vwin v s) t)"
      using 3(1) by (intro send_loop_ok [OF t(1)]) (auto simp: eq)
    have "much_to v now force s u" if u: "loop_to now force (vwin v s) t u" for u
    proof -
      let ?room = "t_seqno s \<le> highest_ack s + vwin v s \<and> t_seqno s < curseq s"
      have l: "sent_to now t u" "in_data t \<longrightarrow> in_data u" "?room \<Longrightarrow> pending (rtx_timer u) \<or> pending (delsnd_timer u)"
        "?room \<Longrightarrow> first_sent (t_seqno s) s u \<or> \<not> force \<and> pending (delsnd_timer u) \<and> t_seqno u = t_seqno s" "\<not> ?room \<Longrightarrow> u = t"
        using u by (auto simp: loop_to_def eq first_sent_def)
      have su: "sent_to now s u" using t(2) l(1) by (rule sent_to_trans)
      have "pending (rtx_timer u) \<or> pending (delsnd_timer u)"
        if a: "guarded s" "1 \<le> vwin v s \<or> pending (rtx_timer s)" "highest_ack u + 1 < curseq u"
      proof (cases ?room)
        case False
        then have "highest_ack s + 1 < curseq s" using l(5) a(3) eq by simp
        from guarded_awake [OF ok a(1,2) False this] show ?thesis using l(5) [OF False] eq by simp
      qed (use l(3) in blast)
      then show ?thesis using su l(2,4) t(3) unfolding much_to_def by auto
    qed
    with r have "returns (send_loop v now force reason mb (vwin v s) 0 t) (much_to v now force s)"
      by (rule returns_mono)
    then show ?thesis using m 3 by auto
  qed
qed

end
