(* ===== verification/Tcp_Handlers.thy ===== *)
theory Tcp_Handlers
  imports Tcp_Invariant
begin

section \<open>The handlers of the TCP senders keep the invariant\<close>

text \<open>
  Acknowledgements, duplicate acknowledgements and timeouts. A handler is a sequence of operations
  that leave the sequence numbers and packets alone (\<open>mild\<close>), at most one step of the cumulative
  acknowledgement (\<open>acks\<close>), and \<open>send_much\<close>.
\<close>

subsection \<open>Operations on the window and the estimate\<close>

definition mild :: "'b tcp_scheme \<Rightarrow> 'b tcp_scheme \<Rightarrow> bool" where
  "mild s s' \<longleftrightarrow>
     snd_ok s' \<and> conf s' = conf s \<and> tlastreset s' = tlastreset s \<and> maxseq s' = maxseq s \<and> curseq s' = curseq s \<and>
     highest_ack s' = highest_ack s \<and> t_seqno s' = t_seqno s \<and> out s' = out s \<and> notices s' = notices s \<and>
     burstsnd_timer s' = burstsnd_timer s \<and> delsnd_timer s' = delsnd_timer s \<and> rtx_timer s' = rtx_timer s \<and>
     tcp.more s' = tcp.more s"

lemma mild_refl [simp]: "mild s s = snd_ok s"
  by (simp add: mild_def)

lemma mild_trans: "mild s t \<Longrightarrow> mild t u \<Longrightarrow> mild s u"
  by (simp add: mild_def)

lemma mild_ok: "mild s t \<Longrightarrow> snd_ok t"
  by (simp add: mild_def)

lemma mild_wn: "snd_ok s \<Longrightarrow> cw_ok w \<Longrightarrow> mild s (s\<lparr>wn := w\<rparr>)"
  by (simp add: mild_def snd_ok_def)

lemma mild_set [simp]:
  "snd_ok s \<Longrightarrow> mild s (set_action a s)" "snd_ok s \<Longrightarrow> mild s (set_cwnd x s)"
  by (simp_all add: set_action_def set_cwnd_def mild_wn snd_ok_def [of s])

lemma set_sel [simp]:
  "wn (set_action a s) = (wn s)\<lparr>last_cwnd_action := a\<rparr>" "wn (set_cwnd x s) = (wn s)\<lparr>cwnd := x\<rparr>"
  "conf (set_action a s) = conf s" "conf (set_cwnd x s) = conf s"
  by (simp_all add: set_action_def set_cwnd_def)

lemma slowdown_mild:
  assumes "snd_ok s"
  shows "returns (tcp_slowdown v how s) (\<lambda>s'. mild s s' \<and> slow_to how (wn s) (wn s') \<and> recover s' = recover s)"
proof -
  have "win_conf_ok (wc (conf s))" "cw_ok (wn s)" using assms by (simp_all add: snd_ok_def tcp_conf_ok_def)
  from tcp_slowdown_ok [OF this] show ?thesis
  proof (rule returns_mono)
    fix s' assume a: "slow_to how (wn s) (wn s') \<and> s' = s\<lparr>wn := wn s'\<rparr>"
    then have e: "s' = s\<lparr>wn := wn s'\<rparr>" and w: "slow_to how (wn s) (wn s')" by blast+
    have "mild s (s\<lparr>wn := wn s'\<rparr>)" using assms w by (intro mild_wn) (simp_all add: slow_to_def)
    moreover have "recover (s\<lparr>wn := wn s'\<rparr>) = recover s" by simp
    ultimately show "mild s s' \<and> slow_to how (wn s) (wn s') \<and> recover s' = recover s"
      using w e by metis
  qed
qed

lemma backoff_mild:
  assumes "snd_ok s"
  shows "returns (tcp_backoff s) (\<lambda>s'. mild s s' \<and> wn s' = wn s)"
proof -
  have "rtt_conf_ok (rc (conf s))" "rtt_ok (rc (conf s)) (rt s)"
    using assms by (simp_all add: snd_ok_def tcp_conf_ok_def)
  then obtain r where "rtt_backoff (rc (conf s)) (rt s) = Inr r" "rtt_ok (rc (conf s)) r"
    using rtt_backoff_ok by blast
  then show ?thesis using assms by (simp add: tcp_backoff_def mild_def snd_ok_def)
qed

lemma mild_bind:
  assumes "returns m (mild s)" "\<And>t. mild s t \<Longrightarrow> returns (f t) (mild t)"
  shows "returns (res_bind m f) (mild s)"
  using assms(1) by (rule returns_bind) (rule returns_mono [OF assms(2)], assumption, rule mild_trans)

text \<open>The response to an ECN echo halves the window, which may fall below one packet.\<close>

lemma mild_ecn_fields [simp]:
  "snd_ok s \<Longrightarrow> mild s (s\<lparr>ecn_backoff := x\<rparr>)" "snd_ok s \<Longrightarrow> mild s (s\<lparr>st := y\<rparr>)"
  "snd_ok s \<Longrightarrow> mild s (s\<lparr>recover := z\<rparr>)"
  by (simp_all add: mild_def snd_ok_def)

lemma ecn_mild:
  assumes ok: "snd_ok s"
  shows "returns (ecn v q s) (mild s)"
proof (cases "recover s < q \<or> last_cwnd_action (wn s) = CWND_ACTION_TIMEOUT")
  case True
  let ?s = "set_action CWND_ACTION_ECN (s\<lparr>recover := maxseq s\<rparr>)"
  have r: "mild s (s\<lparr>recover := maxseq s\<rparr>)" using ok by simp
  have s1: "mild s ?s" by (rule mild_trans [OF r]) (rule mild_set(1) [OF mild_ok [OF r]])
  have "returns (tcp_backoff ?s) (mild ?s)"
    by (rule returns_mono [OF backoff_mild [OF mild_ok [OF s1]]]) blast
  then have b: "returns (if cwnd (wn ?s) \<le> 1 then if ecn_backoff ?s then tcp_backoff ?s else Inr (?s\<lparr>ecn_backoff := True\<rparr>)
      else Inr (?s\<lparr>ecn_backoff := False\<rparr>)) (mild ?s)"
    using mild_ok [OF s1] by simp
  have d: "returns (tcp_slowdown v how t) (mild t)" if "snd_ok t" for how t
    using slowdown_mild [OF that] by (rule returns_mono) blast
  have "returns (res_bind (if cwnd (wn ?s) \<le> 1 then if ecn_backoff ?s then tcp_backoff ?s else Inr (?s\<lparr>ecn_backoff := True\<rparr>)
      else Inr (?s\<lparr>ecn_backoff := False\<rparr>)) (\<lambda>s.
      res_bind (tcp_slowdown v {CLOSE_CWND_HALF, CLOSE_SSTHRESH_HALF} s) (\<lambda>s.
        Inr (s\<lparr>st := (st s)\<lparr>necnresponses := necnresponses (st s) + 1\<rparr>\<rparr>)))) (mild ?s)"
    by (intro mild_bind [OF b] mild_bind [OF d]) (auto dest: mild_ok)
  then show ?thesis
    unfolding ecn_def Let_def if_P [OF True] by (rule returns_mono) (rule mild_trans [OF s1])
qed (use ok in \<open>simp add: ecn_def\<close>)

subsection \<open>A new acknowledgement\<close>

text \<open>The estimate, the timer and the flags of ECN: what \<open>newack\<close> changes beside the sequence numbers.\<close>

definition rt_frame :: "'b tcp_scheme \<Rightarrow> 'b tcp_scheme \<Rightarrow> bool" where
  "rt_frame s s' \<longleftrightarrow>
     s'\<lparr>rt := rt s, ts_echoed := ts_echoed s, ecn_backoff := ecn_backoff s, rtt_active := rtt_active s,
        rtx_timer := rtx_timer s\<rparr> = s \<and>
     (rtt_ok (rc (conf s)) (rt s) \<longrightarrow> rtt_ok (rc (conf s)) (rt s'))"

lemma rt_frameE:
  assumes "rt_frame s s'"
  obtains r e b a t where
    "s' = s\<lparr>rt := r, ts_echoed := e, ecn_backoff := b, rtt_active := a, rtx_timer := t\<rparr>"
proof -
  have "s = s'\<lparr>rt := rt s, ts_echoed := ts_echoed s, ecn_backoff := ecn_backoff s, rtt_active := rtt_active s,
        rtx_timer := rtx_timer s\<rparr>" using assms by (simp add: rt_frame_def)
  then have "s\<lparr>rt := rt s', ts_echoed := ts_echoed s', ecn_backoff := ecn_backoff s', rtt_active := rtt_active s',
        rtx_timer := rtx_timer s'\<rparr> =
      s'\<lparr>rt := rt s, ts_echoed := ts_echoed s, ecn_backoff := ecn_backoff s, rtt_active := rtt_active s,
        rtx_timer := rtx_timer s\<rparr>\<lparr>rt := rt s', ts_echoed := ts_echoed s', ecn_backoff := ecn_backoff s',
        rtt_active := rtt_active s', rtx_timer := rtx_timer s'\<rparr>"
    by (rule arg_cong)
  then have "s' = s\<lparr>rt := rt s', ts_echoed := ts_echoed s', ecn_backoff := ecn_backoff s', rtt_active := rtt_active s',
        rtx_timer := rtx_timer s'\<rparr>" by simp
  then show ?thesis by (rule that)
qed

lemma rt_frame_refl [simp]: "rt_frame s s"
  by (simp add: rt_frame_def)

lemma rt_frame_trans:
  assumes "rt_frame s t" "rt_frame t u" shows "rt_frame s u"
proof -
  have "conf t = conf s" using assms(1) by (auto elim: rt_frameE)
  then have "rtt_ok (rc (conf s)) (rt s) \<longrightarrow> rtt_ok (rc (conf s)) (rt u)" using assms by (simp add: rt_frame_def)
  with assms show ?thesis by (elim rt_frameE) (simp add: rt_frame_def)
qed

lemma end_backoff_frame: "rt_frame s (end_backoff p s)"
  by (simp add: end_backoff_def rt_frame_def)

lemma end_backoff_timer [simp]: "rtx_timer (end_backoff p s) = rtx_timer s" "conf (end_backoff p s) = conf s"
  by (simp_all add: end_backoff_def)

definition timed_to :: "'b tcp_scheme \<Rightarrow> 'b tcp_scheme \<Rightarrow> bool" where
  "timed_to s s' \<longleftrightarrow> rt_frame s s' \<and> rtx_timer s' = rtx_timer s"

lemma timed_to_trans: "timed_to s t \<Longrightarrow> timed_to t u \<Longrightarrow> timed_to s u"
  by (auto simp: timed_to_def intro: rt_frame_trans)

lemma tcp_rtt_update_ok:
  assumes "rtt_conf_ok (rc (conf s))" "rtt_ok (rc (conf s)) (rt s)"
  shows "returns (tcp_rtt_update now tao s) (timed_to s)"
proof -
  obtain r where "rtt_update (rc (conf s)) now tao (rt s) = Inr r" "rtt_ok (rc (conf s)) r"
    using rtt_update_ok [OF assms] by blast
  then show ?thesis by (simp add: tcp_rtt_update_def timed_to_def rt_frame_def)
qed

lemma newack_ts_ok:
  assumes "rtt_conf_ok (rc (conf s))" "rtt_ok (rc (conf s)) (rt s)"
  shows "returns (newack_ts now p s) (timed_to s)"
proof -
  let ?s = "s\<lparr>ts_echoed := tp_ts_echo p\<rparr>"
  have "timed_to s ?s" by (simp add: timed_to_def rt_frame_def)
  then have "returns (tcp_rtt_update now x ?s) (timed_to s)" for x
    using returns_mono [OF tcp_rtt_update_ok [of ?s now x] timed_to_trans] assms by simp
  moreover have "timed_to t (end_backoff p t)" for t by (simp add: timed_to_def end_backoff_frame)
  then have "timed_to s (end_backoff p t)" if "timed_to s t" for t using that timed_to_trans by blast
  moreover have "timed_to s s" by (simp add: timed_to_def)
  ultimately show ?thesis
    by (auto simp: newack_ts_def intro!: returns_bind [of _ "timed_to s"])
qed

lemma newack_timed_ok:
  assumes "rtt_conf_ok (rc (conf s))" "rtt_ok (rc (conf s)) (rt s)"
  shows "returns (newack_timed now p s) (timed_to s)"
proof -
  let ?s = "(end_backoff p s)\<lparr>rtt_active := False\<rparr>"
  have m: "timed_to s ?s" "rtt_ok (rc (conf s)) (rt ?s)"
    using assms by (auto simp: timed_to_def rt_frame_def end_backoff_def)
  then have "returns (tcp_rtt_update now x ?s) (timed_to s)" for x
    using returns_mono [OF tcp_rtt_update_ok [of ?s now x] timed_to_trans] assms(1) by simp
  then show ?thesis using m by (auto simp: newack_timed_def Let_def timed_to_def)
qed

lemma newtimer_ok:
  assumes "rtt_conf_ok (rc (conf s))" "rtt_ok (rc (conf s)) (rt s)" "timer_ok (rtx_timer s)"
  shows "returns (newtimer now p s) (\<lambda>s'. rt_frame s s' \<and> timer_ok (rtx_timer s') \<and>
           (tp_seqno p < maxseq s \<longrightarrow> pending (rtx_timer s')))"
proof -
  obtain t where "set_rtx_timer now s = Inr (s\<lparr>rt := (rt s)\<lparr>use_rtt := False\<rparr>,
      rtx_timer := \<lparr>status = TIMER_PENDING, event_at = Some (Fin (now + t))\<rparr>\<rparr>)"
    using set_rtx_timer_ok [OF assms] by blast
  then show ?thesis using assms by (auto simp: newtimer_def cancel_rtx_timer_def rt_frame_def)
qed

definition acks :: "seq_t \<Rightarrow> 'b tcp_scheme \<Rightarrow> 'b tcp_scheme \<Rightarrow> bool" where
  "acks a s s' \<longleftrightarrow>
     snd_ok s' \<and> highest_ack s' = a \<and> guarded s' \<and> conf s' = conf s \<and> tlastreset s' = tlastreset s \<and>
     maxseq s' = maxseq s \<and> curseq s' = curseq s \<and> out s' = out s \<and> notices s' = notices s \<and>
     burstsnd_timer s' = burstsnd_timer s \<and> delsnd_timer s' = delsnd_timer s \<and> cwnd (wn s') = cwnd (wn s) \<and>
     tcp.more s' = tcp.more s"

lemma newack_ok:
  assumes ok: "snd_ok s" and a: "highest_ack s < tp_seqno p" "tp_seqno p \<le> maxseq s"
  shows "returns (newack now p s) (acks (tp_seqno p) s)"
proof -
  have c: "rtt_conf_ok (rc (conf s))" using ok by (simp add: snd_ok_def tcp_conf_ok_def)
  have r: "rtt_ok (rc (conf s)) (rt s)" "timer_ok (rtx_timer s)" using ok by (simp_all add: snd_ok_def)
  have first: "returns (if timerfix (conf s) then Inr s else newtimer now p s)
      (\<lambda>t. rt_frame s t \<and> timer_ok (rtx_timer t) \<and> (\<not> timerfix (conf s) \<and> tp_seqno p < maxseq s \<longrightarrow> pending (rtx_timer t)))"
    using newtimer_ok [OF c r] r by (simp add: returns_mono)
  obtain t where t: "(if timerfix (conf s) then Inr s else newtimer now p s) = Inr t" "rt_frame s t"
    "timer_ok (rtx_timer t)" "\<not> timerfix (conf s) \<and> tp_seqno p < maxseq s \<longrightarrow> pending (rtx_timer t)"
    by (rule returnsE [OF first]) blast
  let ?u = "newack_advance (tp_seqno p) t"
  have te: "conf t = conf s" "rtt_ok (rc (conf s)) (rt t)"
    using t(2) r(1) by (auto elim: rt_frameE) (simp add: rt_frame_def)
  have ue: "conf ?u = conf s" "rt ?u = rt t" "rtx_timer ?u = rtx_timer t"
    using te by (simp_all add: newack_advance_def Let_def)
  have second: "returns (if no_ts p then Inr ?u else res_bind (newack_ts now p ?u) (newack_timed now p)) (timed_to ?u)"
  proof -
    have "returns (newack_timed now p w) (timed_to ?u)" if "timed_to ?u w" for w
    proof (rule returns_mono [OF newack_timed_ok])
      show "rtt_conf_ok (rc (conf w))" using that c ue by (auto simp: timed_to_def elim: rt_frameE)
      have "conf w = conf ?u" using that by (auto simp: timed_to_def elim: rt_frameE)
      then show "rtt_ok (rc (conf w)) (rt w)" using that te(2) ue by (simp add: timed_to_def rt_frame_def)
    qed (rule timed_to_trans [OF that])
    moreover have "returns (newack_ts now p ?u) (timed_to ?u)"
      using c te(2) by (intro newack_ts_ok) (simp_all add: ue)
    ultimately have "returns (res_bind (newack_ts now p ?u) (newack_timed now p)) (timed_to ?u)"
      by (intro returns_bind)
    moreover have "timed_to ?u ?u" by (simp add: timed_to_def)
    ultimately show ?thesis by simp
  qed
  obtain w where w: "(if no_ts p then Inr ?u else res_bind (newack_ts now p ?u) (newack_timed now p)) = Inr w"
    "timed_to ?u w" by (rule returnsE [OF second]) blast
  have we: "conf w = conf s" "maxseq w = maxseq s"
    using w(2) t(2) by (auto simp: timed_to_def newack_advance_def Let_def elim!: rt_frameE)
  have wr: "rtt_ok (rc (conf w)) (rt w)" "rtx_timer w = rtx_timer t"
    using w(2) te ue we by (simp_all add: timed_to_def rt_frame_def)
  have third: "returns (if timerfix (conf w) then newtimer now p w else Inr w)
      (\<lambda>x. rt_frame w x \<and> timer_ok (rtx_timer x) \<and> (tp_seqno p < maxseq s \<longrightarrow> pending (rtx_timer x)))"
    using newtimer_ok [of w now p] wr we c t(3,4) by simp
  obtain x where x: "(if timerfix (conf w) then newtimer now p w else Inr w) = Inr x" "rt_frame w x"
    "timer_ok (rtx_timer x)" "tp_seqno p < maxseq s \<longrightarrow> pending (rtx_timer x)"
    by (rule returnsE [OF third]) blast
  let ?y = "x\<lparr>wn := (wn x)\<lparr>awnd := awnd (wn x) * (1 - wnd_th (wc (conf x))) + wnd_th (wc (conf x)) * cwnd (wn x)\<rparr>\<rparr>"
  have "newack now p s = Inr ?y"
    by (simp add: newack_def t(1) w(1) x(1) Let_def)
  moreover have "acks (tp_seqno p) s ?y"
  proof -
    have "rtt_ok (rc (conf s)) (rt x)" using x(2) wr we by (simp add: rt_frame_def)
    moreover from t(2) w(2) x(2) have
      "conf x = conf s \<and> tlastreset x = tlastreset s \<and> maxseq x = maxseq s \<and> curseq x = curseq s \<and> out x = out s \<and>
       notices x = notices s \<and> burstsnd_timer x = burstsnd_timer s \<and> delsnd_timer x = delsnd_timer s \<and> wn x = wn s \<and>
       tcp.more x = tcp.more s \<and> highest_ack x = tp_seqno p \<and> last_ack x = tp_seqno p \<and> qs x = qs s \<and> tss x = tss s \<and>
       frto x = frto s \<and> t_seqno x = max (t_seqno s) (tp_seqno p + 1)"
      by (auto simp: timed_to_def newack_advance_def Let_def max_def elim!: rt_frameE)
    ultimately show ?thesis
      using ok a x(3,4) by (auto simp: acks_def snd_ok_def guarded_def)
  qed
  ultimately show ?thesis by (rule returnsI)
qed

text \<open>The rest of \<open>recv_newack_helper\<close>: growth of the window, the end of the data.\<close>

lemma acks_mild: "acks a s t \<Longrightarrow> mild t u \<Longrightarrow> cwnd (wn u) = cwnd (wn t) \<Longrightarrow> acks a s u"
  by (simp add: acks_def mild_def guarded_def)

definition acked_to :: "time \<Rightarrow> seq_t \<Rightarrow> 'b tcp_scheme \<Rightarrow> 'b tcp_scheme \<Rightarrow> bool" where
  "acked_to now a s s' \<longleftrightarrow>
     snd_ok s' \<and> evolves now s s' \<and> highest_ack s' = a \<and> guarded s' \<and> maxseq s' = maxseq s \<and> curseq s' = curseq s \<and>
     out s' = out s \<and> burstsnd_timer s' = burstsnd_timer s \<and> delsnd_timer s' = delsnd_timer s \<and>
     (1 \<le> cwnd (wn s) \<longrightarrow> 1 \<le> cwnd (wn s')) \<and> tcp.more s' = tcp.more s"

lemma opencwnd_mild:
  assumes "snd_ok s"
  shows "returns (tcp_opencwnd s) (\<lambda>s'. mild s s' \<and> (1 \<le> cwnd (wn s) \<longrightarrow> 1 \<le> cwnd (wn s')))"
proof -
  have "win_conf_ok (wc (conf s))" "rtt_conf_ok (rc (conf s))" "cw_ok (wn s)"
    using assms by (simp_all add: snd_ok_def tcp_conf_ok_def)
  from opencwnd_ok [OF this, of "rt s"] obtain w where
    "opencwnd (rc (conf s)) (rt s) (wc (conf s)) (wn s) = Inr w" "cw_ok w" "0 \<le> cwnd (wn s) \<longrightarrow> 1 \<le> cwnd w"
    by (elim returnsE) blast
  then show ?thesis using mild_wn [OF assms] by (simp add: tcp_opencwnd_def)
qed

lemma newack_open_mild:
  "snd_ok s \<Longrightarrow> returns (newack_open v p s) (\<lambda>s'. mild s s' \<and> (1 \<le> cwnd (wn s) \<longrightarrow> 1 \<le> cwnd (wn s')))"
  using opencwnd_mild [of s] by (simp add: newack_open_def)

lemma newack_ecn_mild: "snd_ok s \<Longrightarrow> mild s (newack_ecn p s) \<and> wn (newack_ecn p s) = wn s"
  by (auto simp: newack_ecn_def mild_def snd_ok_def Let_def)

lemma newack_done_ok:
  assumes ok: "snd_ok s" "guarded s" "0 \<le> highest_ack s" and q: "QOption (conf s) \<longrightarrow> in_data s"
  shows "snd_ok (newack_done s) \<and> guarded (newack_done s) \<and> evolves now s (newack_done s) \<and> newack_frto (newack_done s) = newack_done s \<and>
    highest_ack (newack_done s) = highest_ack s \<and> maxseq (newack_done s) = maxseq s \<and> curseq (newack_done s) = curseq s \<and>
    out (newack_done s) = out s \<and> burstsnd_timer (newack_done s) = burstsnd_timer s \<and>
    delsnd_timer (newack_done s) = delsnd_timer s \<and> wn (newack_done s) = wn s \<and> tcp.more (newack_done s) = tcp.more s"
proof -
  have n: "notifies s (newack_done s)"
    using ok by (auto simp: notifies_def newack_done_def Let_def cancel_rtx_timer_def snd_ok_def)
  have f: "frto (newack_done s) = 0"
    using ok(1) by (simp add: newack_done_def Let_def cancel_rtx_timer_def snd_ok_def)
  then have "newack_frto (newack_done s) = newack_done s" by (simp add: newack_frto_def)
  moreover have "grows s (newack_done s)" "sends now s (newack_done s)"
    by (simp_all add: newack_done_def Let_def cancel_rtx_timer_def grows_def sends_def)
  moreover have "guarded (newack_done s)"
    using ok(2) q by (auto simp: guarded_def newack_done_def Let_def cancel_rtx_timer_def in_data_def)
  moreover have "snd_ok (newack_done s)"
    using ok(1) by (simp add: newack_done_def Let_def cancel_rtx_timer_def snd_ok_def)
  ultimately show ?thesis
    using n by (simp add: evolves_def) (simp add: newack_done_def Let_def cancel_rtx_timer_def)
qed

lemma acks_evolves: "acks a s s' \<Longrightarrow> highest_ack s \<le> a \<Longrightarrow> evolves now s s'"
  by (auto simp: acks_def grows_def intro!: evolves_same)

lemma recv_newack_ok:
  assumes ok: "snd_ok s" and a: "highest_ack s < tp_seqno p" "tp_seqno p \<le> maxseq s"
    and q: "QOption (conf s) \<longrightarrow> in_data s"
  shows "returns (recv_newack_helper v now p s) (acked_to now (tp_seqno p) s)"
  unfolding recv_newack_helper_def
proof (rule returns_bind [OF newack_ok [OF ok a]], goal_cases)
  case (1 t)
  have w: "(if qs_window (qs t) \<noteq> 0 \<and> qs_window (qs t) \<le> highest_ack t then t\<lparr>qs := (qs t)\<lparr>qs_window := 0\<rparr>\<rparr> else t) = t"
    using 1 by (simp add: acks_def snd_ok_def)
  have ev: "evolves now s t" by (rule acks_evolves [OF 1 less_imp_le [OF a(1)]])
  have t: "snd_ok t" "highest_ack t = tp_seqno p" "guarded t" "conf t = conf s" "maxseq t = maxseq s" "curseq t = curseq s"
    "out t = out s" "burstsnd_timer t = burstsnd_timer s" "delsnd_timer t = delsnd_timer s" "cwnd (wn t) = cwnd (wn s)"
    "tcp.more t = tcp.more s"
    using 1 by (simp_all add: acks_def)
  show ?case
    unfolding Let_def w
  proof (rule returns_bind [OF newack_open_mild [OF t(1)]])
    fix u assume u: "mild t u \<and> (1 \<le> cwnd (wn t) \<longrightarrow> 1 \<le> cwnd (wn u))"
    define x where "x = newack_ecn p u"
    have m: "mild u x" "wn x = wn u" using newack_ecn_mild [of u p] u mild_ok unfolding x_def by blast+
    have tx: "mild t x" using u m(1) mild_trans by blast
    then have x: "snd_ok x" "guarded x" "0 \<le> highest_ack x" "QOption (conf x) \<longrightarrow> in_data x"
      using t(3,4,5,6) q 1 a(1) ok by (auto simp: mild_def guarded_def in_data_def acks_def snd_ok_def)
    have tx': "evolves now t x" using tx by (auto simp: mild_def grows_def intro!: evolves_same)
    note d = newack_done_ok [OF x, of now]
    have "evolves now s (newack_done x)" using ev tx' d evolves_trans by blast
    then show "returns (Inr (newack_frto (newack_done (newack_ecn p u)))) (acked_to now (tp_seqno p) s)"
      using d tx t u m(2) unfolding x_def [symmetric] by (simp add: acked_to_def mild_def)
  qed
qed

lemma initial_window_ok: "snd_ok s \<Longrightarrow> returns (tcp_initial_window s) (\<lambda>iw. 1 \<le> iw)"
  by (auto simp: tcp_initial_window_def initial_window_def snd_ok_def cw_ok_def)

lemma recv_new_ok:
  assumes "snd_ok s" "highest_ack s < tp_seqno p" "tp_seqno p \<le> maxseq s" "QOption (conf s) \<longrightarrow> in_data s"
  shows "returns (recv_new v now p s) (acked_to now (tp_seqno p) s)"
  unfolding recv_new_def
proof (rule returns_bind [OF recv_newack_ok [OF assms]])
  fix t assume t: "acked_to now (tp_seqno p) s t"
  then have ok: "snd_ok t" by (simp add: acked_to_def)
  have "acked_to now (tp_seqno p) s (set_cwnd iw t)" if "1 \<le> iw" for iw
  proof -
    have "evolves now t (set_cwnd iw t)" by (rule evolves_same) (simp_all add: grows_def set_cwnd_def)
    then have "evolves now s (set_cwnd iw t)" using t evolves_trans by (auto simp: acked_to_def)
    then show ?thesis
      using t that mild_set(2) [OF ok, of iw] by (simp add: acked_to_def mild_def guarded_def)
  qed
  then show "returns (if last_ack t = 0 \<and> delay_growth (conf t)
      then res_bind (tcp_initial_window t) (\<lambda>iw. Inr (set_cwnd iw t)) else Inr t) (acked_to now (tp_seqno p) s)"
    using t initial_window_ok [OF ok] by (auto intro!: returns_bind [of "tcp_initial_window t"])
qed

subsection \<open>Duplicate acknowledgements\<close>

definition hand_to :: "time \<Rightarrow> 'b tcp_scheme \<Rightarrow> 'b tcp_scheme \<Rightarrow> bool" where
  "hand_to now s s' \<longleftrightarrow>
     snd_ok s' \<and> evolves now s s' \<and> (guarded s \<longrightarrow> guarded s') \<and> highest_ack s' = highest_ack s \<and>
     burstsnd_timer s' = burstsnd_timer s"

definition stays_open :: "'b tcp_scheme \<Rightarrow> 'b tcp_scheme \<Rightarrow> bool" where
  "stays_open s s' \<longleftrightarrow> (1 \<le> cwnd (wn s) \<longrightarrow> 1 \<le> cwnd (wn s')) \<and> (in_data s \<longrightarrow> in_data s')"

lemma hand_to_refl [simp]: "hand_to now s s = snd_ok s" "stays_open s s"
  by (simp_all add: hand_to_def stays_open_def)

lemma hand_to_trans: "hand_to now s t \<Longrightarrow> hand_to now t u \<Longrightarrow> hand_to now s u"
  by (auto simp: hand_to_def intro: evolves_trans)

lemma stays_open_trans: "stays_open s t \<Longrightarrow> stays_open t u \<Longrightarrow> stays_open s u"
  by (simp add: stays_open_def)

lemma hand_to_ok: "hand_to now s t \<Longrightarrow> snd_ok t"
  by (simp add: hand_to_def)

lemma sent_hand: "sent_to now s t \<Longrightarrow> hand_to now s t"
  by (simp add: sent_to_def safe_to_def hand_to_def)

lemma sent_open: "sent_to now s t \<Longrightarrow> in_data s \<longrightarrow> in_data t \<Longrightarrow> stays_open s t"
  by (simp add: sent_to_def safe_to_def stays_open_def)

lemma mild_hand: "mild s t \<Longrightarrow> hand_to now s t"
  by (auto simp: mild_def hand_to_def guarded_def grows_def intro!: evolves_same)

lemma mild_open: "mild s t \<Longrightarrow> 1 \<le> cwnd (wn s) \<longrightarrow> 1 \<le> cwnd (wn t) \<Longrightarrow> stays_open s t"
  by (simp add: mild_def stays_open_def in_data_def)

definition rearms :: "time \<Rightarrow> bool \<Rightarrow> 'b tcp_scheme \<Rightarrow> 'b tcp_scheme \<Rightarrow> bool" where
  "rearms now m s s' \<longleftrightarrow>
     snd_ok s' \<and> pending (rtx_timer s') \<and> wn s' = wn s \<and> conf s' = conf s \<and> tlastreset s' = tlastreset s \<and>
     maxseq s' = maxseq s \<and> curseq s' = curseq s \<and> highest_ack s' = highest_ack s \<and> out s' = out s \<and>
     notices s' = notices s \<and> burstsnd_timer s' = burstsnd_timer s \<and> delsnd_timer s' = delsnd_timer s \<and>
     t_seqno s' = (if m then t_seqno s else highest_ack s + 1) \<and> recover s' = recover s \<and> tcp.more s' = tcp.more s"

lemma reset_rtx_timer_ok:
  assumes ok: "snd_ok s"
  shows "returns (reset_rtx_timer now m backoff s) (rearms now m s)"
proof -
  have b: "returns (if backoff then tcp_backoff s else Inr s) (\<lambda>t. mild s t \<and> wn t = wn s \<and> recover t = recover s)"
  proof (cases backoff)
    case True
    obtain r where "rtt_backoff (rc (conf s)) (rt s) = Inr r" "rtt_ok (rc (conf s)) r"
      using rtt_backoff_ok [of "rc (conf s)" "rt s"] ok by (auto simp: snd_ok_def tcp_conf_ok_def)
    then show ?thesis using True ok by (simp add: tcp_backoff_def mild_def snd_ok_def)
  qed (use ok in simp)
  show ?thesis
    unfolding reset_rtx_timer_def
  proof (rule returns_bind [OF b])
    fix t assume t: "mild s t \<and> wn t = wn s \<and> recover t = recover s"
    obtain d where "set_rtx_timer now t = Inr (t\<lparr>rt := (rt t)\<lparr>use_rtt := False\<rparr>,
        rtx_timer := \<lparr>status = TIMER_PENDING, event_at = Some (Fin (now + d))\<rparr>\<rparr>)"
      using set_rtx_timer_ok [of t now] t by (auto simp: mild_def snd_ok_def tcp_conf_ok_def)
    moreover define u where "u = t\<lparr>rt := (rt t)\<lparr>use_rtt := False\<rparr>,
        rtx_timer := \<lparr>status = TIMER_PENDING, event_at = Some (Fin (now + d))\<rparr>,
        t_seqno := (if m then t_seqno t else highest_ack t + 1), rtt_active := False\<rparr>"
    moreover have "snd_ok u" using mild_ok [of s t] t unfolding u_def snd_ok_def by simp
    then have "rearms now m s u" using t by (auto simp: rearms_def mild_def u_def)
    ultimately show "returns (res_bind (set_rtx_timer now t) (\<lambda>s.
        Inr (s\<lparr>t_seqno := (if m then t_seqno s else highest_ack s + 1), rtt_active := False\<rparr>))) (rearms now m s)"
      by (cases m) simp_all
  qed
qed

lemma rearms_hand: "rearms now m s t \<Longrightarrow> hand_to now s t"
  by (auto simp: rearms_def hand_to_def guarded_def grows_def intro!: evolves_same)

lemma rearms_open: "rearms now m s t \<Longrightarrow> stays_open s t"
  by (simp add: rearms_def stays_open_def in_data_def)

lemma lossQuickStart_off: "snd_ok s \<Longrightarrow> lossQuickStart v now s = Inr (False, s)"
  by (simp add: lossQuickStart_def snd_ok_def)

abbreviation calm :: "time \<Rightarrow> 'b tcp_scheme \<Rightarrow> 'b tcp_scheme \<Rightarrow> bool" where
  "calm now s s' \<equiv> hand_to now s s' \<and> stays_open s s'"

lemma calm_trans: "calm now s t \<Longrightarrow> calm now t u \<Longrightarrow> calm now s u"
  using hand_to_trans stays_open_trans by blast

lemma calm_bind:
  assumes "returns m (calm now s)" "\<And>t. calm now s t \<Longrightarrow> returns (f t) (calm now t)"
  shows "returns (res_bind m f) (calm now s)"
  using assms(1) by (rule returns_bind) (rule returns_mono [OF assms(2)], assumption, rule calm_trans)

lemma mild_calm: "mild s t \<Longrightarrow> cwnd (wn t) = cwnd (wn s) \<Longrightarrow> calm now s t"
  by (simp add: mild_hand mild_open)

lemma slowdown_calm:
  assumes "snd_ok s" "CLOSE_CWND_HALF \<notin> how"
  shows "returns (tcp_slowdown v how s) (calm now s)"
proof (rule returns_mono [OF slowdown_mild [OF assms(1)]])
  fix t assume t: "mild s t \<and> slow_to how (wn s) (wn t) \<and> recover t = recover s"
  then have "1 \<le> cwnd (wn s) \<longrightarrow> 1 \<le> cwnd (wn t)" using assms(2) unfolding slow_to_def by blast
  then show "calm now s t" using t mild_hand mild_open by blast
qed

lemma reset_rtx_calm: "snd_ok s \<Longrightarrow> returns (reset_rtx_timer now m b s) (calm now s)"
  by (rule returns_mono [OF reset_rtx_timer_ok]) (use rearms_hand rearms_open in auto)

lemma set_action_calm: "snd_ok s \<Longrightarrow> calm now s (set_action a s)"
  by (intro mild_calm mild_set) simp_all

lemma tahoe_action_ok:
  assumes ok: "snd_ok s"
  shows "returns (tahoe_action v now s) (calm now s)"
proof -
  let ?s = "s\<lparr>recover := maxseq s\<rparr>"
  have s1: "calm now s ?s" using ok by (intro mild_calm) simp_all
  then have ok1: "snd_ok ?s" using hand_to_ok by blast
  let ?t = "set_action CWND_ACTION_DUPACK ?s"
  have t: "calm now ?s ?t" "snd_ok ?t" using set_action_calm [OF ok1] hand_to_ok by blast+
  have "returns (res_bind (tcp_slowdown v {CLOSE_SSTHRESH_HALF, CLOSE_CWND_ONE} ?t) (reset_rtx_timer now False False)) (calm now ?t)"
    by (rule calm_bind [OF slowdown_calm [OF t(2)]]) (auto intro!: reset_rtx_calm dest: hand_to_ok)
  then show ?thesis
    unfolding tahoe_action_def lossQuickStart_off [OF ok1] res_bind.simps prod.case if_False
    by (rule returns_mono) (use s1 t calm_trans in blast)
qed

lemma dupack_action_ok:
  assumes ok: "snd_ok s"
  shows "returns (dupack_action v now s) (calm now s)"
proof -
  let ?t = "set_action CWND_ACTION_DUPACK s"
  have t: "calm now s ?t" "snd_ok ?t" using set_action_calm [OF ok] hand_to_ok by blast+
  have "returns (res_bind (tcp_slowdown v {CLOSE_CWND_ONE} ?t) (reset_rtx_timer now False False)) (calm now ?t)"
    by (rule calm_bind [OF slowdown_calm [OF t(2)]]) (auto intro!: reset_rtx_calm dest: hand_to_ok)
  then have "returns (res_bind (tcp_slowdown v {CLOSE_CWND_ONE} ?t) (reset_rtx_timer now False False)) (calm now s)"
    by (rule returns_mono) (use t calm_trans in blast)
  then show ?thesis using tahoe_action_ok [OF ok, of v now] ok by (simp add: dupack_action_def)
qed

lemma send_one_ok:
  assumes ok: "snd_ok s"
  shows "returns (send_one v now s) (calm now s)"
proof (cases "of_int (t_seqno s) \<le> of_int (highest_ack s) + wnd (wc (conf s)) \<and> t_seqno s < curseq s \<and>
         of_int (t_seqno s) \<le> of_int (highest_ack s) + cwnd (wn s) + of_int (dupacks s)")
  case True
  have "returns (send_packet v now 0 s) (calm now s)"
    by (rule returns_mono [OF send_packet_ok [OF ok]]) (use True sent_hand sent_open in blast)
  then show ?thesis unfolding send_one_def if_P [OF True] .
next
  case False
  then show ?thesis unfolding send_one_def if_not_P [OF False] using ok by simp
qed

lemma dupacks_calm: "snd_ok s \<Longrightarrow> calm now s (s\<lparr>dupacks := n\<rparr>)"
  by (intro mild_calm) (simp_all add: mild_def snd_ok_def)

lemma recv_dup_ok:
  assumes ok: "snd_ok s" and da: "\<And>t. snd_ok t \<Longrightarrow> returns (da now t) (calm now t)"
  shows "returns (recv_dup v da now s) (calm now s)"
proof -
  define t where "t = s\<lparr>dupacks := dupacks s + 1\<rparr>"
  have s: "calm now s t" "snd_ok t" unfolding t_def using dupacks_calm [OF ok] hand_to_ok by blast+
  have "returns (if dupacks t = numdupacks (conf t) \<and> \<not> noFastRetrans (conf t) then da now t
      else if dupacks t < numdupacks (conf t) \<and> singledup (conf t) then send_one v now t else Inr t) (calm now t)"
    using da [OF s(2)] send_one_ok [OF s(2), of v now] s(2) by simp
  then show ?thesis
    unfolding recv_dup_def Let_def t_def [symmetric] by (rule returns_mono) (use s calm_trans in blast)
qed

subsection \<open>\<open>recv\<close>\<close>

lemma recv_qs_off: "snd_ok s \<Longrightarrow> recv_qs now p s = Inr s"
  by (simp add: recv_qs_def snd_ok_def)

lemma recv_check_ok:
  assumes ok: "snd_ok s"
  shows "returns (recv_check v p s) (\<lambda>(go, t). mild s t \<and> (go \<longrightarrow> tlastreset s \<le> tp_ts p) \<and>
           (\<not> go \<longrightarrow> tp_ts p < tlastreset s) \<and> (\<not> ecn_on (conf s) \<longrightarrow> cwnd (wn t) = cwnd (wn s)))"
proof -
  define t where "t = s\<lparr>st := (st s)\<lparr>nackpack := nackpack (st s) + 1\<rparr>, ts_peer := tp_ts p\<rparr>"
  have t: "mild s t" "wn t = wn s" "conf t = conf s"
    using ok by (simp_all add: t_def mild_def snd_ok_def)
  have f: "recv_frto_helper p u = u" if "mild s u" for u
    using that by (simp add: recv_frto_helper_def mild_def snd_ok_def)
  have e: "returns (if ecnecho p \<and> ecn_on (conf t) then ecn v (tp_seqno p) t else Inr t)
      (\<lambda>u. mild s u \<and> (\<not> ecn_on (conf s) \<longrightarrow> cwnd (wn u) = cwnd (wn s)))"
  proof (cases "ecnecho p \<and> ecn_on (conf t)")
    case True
    have "returns (ecn v (tp_seqno p) t) (\<lambda>u. mild s u \<and> (\<not> ecn_on (conf s) \<longrightarrow> cwnd (wn u) = cwnd (wn s)))"
      by (rule returns_mono [OF ecn_mild [OF mild_ok [OF t(1)]]]) (use t True mild_trans in auto)
    then show ?thesis using True by simp
  next
    case False
    show ?thesis unfolding if_not_P [OF False] using t by simp
  qed
  have "returns (if tp_ts p < tlastreset s then Inr (False, s)
      else res_bind (if ecnecho p \<and> ecn_on (conf t) then ecn v (tp_seqno p) t else Inr t)
             (\<lambda>s. Inr (True, recv_frto_helper p s)))
      (\<lambda>(go, t). mild s t \<and> (go \<longrightarrow> tlastreset s \<le> tp_ts p) \<and> (\<not> go \<longrightarrow> tp_ts p < tlastreset s) \<and>
         (\<not> ecn_on (conf s) \<longrightarrow> cwnd (wn t) = cwnd (wn s)))"
  proof (cases "tp_ts p < tlastreset s")
    case False
    show ?thesis
      unfolding if_not_P [OF False]
      by (rule returns_bind [OF e]) (use False f in \<open>auto simp: not_less\<close>)
  qed (use ok in simp)
  then show ?thesis unfolding recv_check_def t_def Let_def .
qed

lemma recv_begin_ok:
  assumes "snd_ok s"
  shows "returns (recv_begin v now p s) (\<lambda>(go, t). mild s t \<and> (go \<longrightarrow> tlastreset s \<le> tp_ts p) \<and>
           (\<not> go \<longrightarrow> tp_ts p < tlastreset s) \<and> (\<not> ecn_on (conf s) \<longrightarrow> cwnd (wn t) = cwnd (wn s)))"
  unfolding recv_begin_def recv_qs_off [OF assms] res_bind.simps by (rule recv_check_ok [OF assms])

text \<open>
  The whole of \<open>recv\<close>. \<open>awake\<close>: while data remains, a timer is pending that will send or resend.
\<close>

definition awake :: "'b tcp_scheme \<Rightarrow> bool" where
  "awake s \<longleftrightarrow> 1 \<le> cwnd (wn s) \<and> \<not> pending (burstsnd_timer s) \<and>
     (highest_ack s + 1 < curseq s \<longrightarrow> pending (rtx_timer s) \<or> pending (delsnd_timer s))"

definition recv_to :: "time \<Rightarrow> tpkt \<Rightarrow> 'b tcp_scheme \<Rightarrow> 'b tcp_scheme \<Rightarrow> bool" where
  "recv_to now p s s' \<longleftrightarrow>
     snd_ok s' \<and> evolves now s s' \<and> (guarded s \<longrightarrow> guarded s') \<and>
     highest_ack s' = (if tlastreset s \<le> tp_ts p then max (highest_ack s) (tp_seqno p) else highest_ack s) \<and>
     burstsnd_timer s' = burstsnd_timer s"

text \<open>A congestion window of one packet or more opens the window; Reno's may wrap around.\<close>

definition opens :: "'b vwindow \<Rightarrow> tcp_conf \<Rightarrow> bool" where
  "opens v c \<longleftrightarrow> (\<forall>u. conf u = c \<and> 1 \<le> cwnd (wn u) \<and> frto u = 0 \<longrightarrow> 1 \<le> vwin v u)"

lemma much_hand: "much_to v now f s t \<Longrightarrow> hand_to now s t"
  by (simp add: much_to_def sent_hand)

lemma much_open: "much_to v now f s t \<Longrightarrow> stays_open s t"
  unfolding much_to_def using sent_open by blast

lemma much_awake:
  assumes "much_to v now f s t" "guarded s" "1 \<le> cwnd (wn s)" "1 \<le> vwin v s" "\<not> pending (burstsnd_timer s)"
  shows "awake t"
  using assms by (simp add: awake_def much_to_def sent_to_def safe_to_def)

lemma qoption_ack_mild: "snd_ok s \<Longrightarrow> mild s (process_qoption_after_ack q s) \<and> wn (process_qoption_after_ack q s) = wn s"
  by (auto simp: process_qoption_after_ack_def mild_def snd_ok_def Let_def)

lemma recv_end_ok:
  assumes ok: "snd_ok s"
  shows "returns (recv_end v now p s) (\<lambda>t. calm now s t \<and>
    (guarded s \<and> 1 \<le> cwnd (wn s) \<and> \<not> pending (burstsnd_timer s) \<and> opens v (conf s) \<and>
     (last_ack s \<le> tp_seqno p \<or> awake s) \<longrightarrow> awake t))"
proof -
  define t where "t = (if QOption (conf s) \<and> EnblRTTCtr (conf s) then process_qoption_after_ack (tp_seqno p) s else s)"
  have t: "mild s t" "wn t = wn s" using qoption_ack_mild [OF ok] ok by (auto simp: t_def)
  have c: "calm now s t" using t by (intro mild_calm) simp_all
  have l: "last_ack t = last_ack s" using t(1) ok by (simp add: mild_def snd_ok_def)
  have a: "awake t = awake s" using t by (simp add: awake_def mild_def)
  show ?thesis
  proof (cases "last_ack t \<le> tp_seqno p \<or> aggressive_maxburst (conf t)")
    case True
    have "returns (send_much v now False 0 (maxburst (conf t)) t) (much_to v now False t)"
      by (rule send_much_ok [OF mild_ok [OF t(1)]])
    then have "returns (send_much v now False 0 (maxburst (conf t)) t) (\<lambda>u. calm now s u \<and>
      (guarded s \<and> 1 \<le> cwnd (wn s) \<and> \<not> pending (burstsnd_timer s) \<and> opens v (conf s) \<and>
       (last_ack s \<le> tp_seqno p \<or> awake s) \<longrightarrow> awake u))"
    proof (rule returns_mono)
      fix u assume u: "much_to v now False t u"
      have "calm now s u" using c much_hand [OF u] much_open [OF u] calm_trans by blast
      moreover have "awake u" if "guarded s" "1 \<le> cwnd (wn s)" "\<not> pending (burstsnd_timer s)"
        "opens v (conf s)"
        using that t mild_ok [OF t(1)] by (intro much_awake [OF u]) (simp_all add: mild_def guarded_def snd_ok_def opens_def)
      ultimately show "calm now s u \<and> (guarded s \<and> 1 \<le> cwnd (wn s) \<and> \<not> pending (burstsnd_timer s) \<and> opens v (conf s) \<and> (last_ack s \<le> tp_seqno p \<or> awake s) \<longrightarrow> awake u)"
        by blast
    qed
    then show ?thesis using True unfolding recv_end_def t_def [symmetric] Let_def by simp
  next
    case False
    then show ?thesis using c a l unfolding recv_end_def t_def [symmetric] Let_def by auto
  qed
qed

end
