(* ===== verification/Tcp_Tahoe.thy ===== *)
theory Tcp_Tahoe
  imports Tcp_Handlers
begin

section \<open>Tahoe: \<open>recv\<close>, the timers and the application\<close>

text \<open>
  The handlers of \<open>TcpAgent\<close> as a whole: they return, keep the invariant, advance the cumulative
  acknowledgement by acknowledgements only and leave a timer pending while data remains.
\<close>

subsection \<open>\<open>recv\<close>\<close>

definition ready :: "'b vwindow \<Rightarrow> 'b tcp_scheme \<Rightarrow> bool" where
  "ready v s \<longleftrightarrow> guarded s \<and> awake s \<and> opens v (conf s) \<and> \<not> ecn_on (conf s)"

definition recv_post :: "'b vwindow \<Rightarrow> time \<Rightarrow> tpkt \<Rightarrow> 'b tcp_scheme \<Rightarrow> 'b tcp_scheme \<Rightarrow> bool" where
  "recv_post v now p s s' \<longleftrightarrow> recv_to now p s s' \<and> (ready v s \<longrightarrow> awake s')"

lemma hand_recv_to:
  assumes "hand_to now s t" "tlastreset s \<le> tp_ts p \<longrightarrow> tp_seqno p \<le> highest_ack s"
  shows "recv_to now p s t"
  using assms by (auto simp: hand_to_def recv_to_def max_def)

lemma acked_recv_to:
  assumes "acked_to now (tp_seqno p) s t" "hand_to now t u" "highest_ack s < tp_seqno p" "tlastreset s \<le> tp_ts p"
  shows "recv_to now p s u"
  using assms evolves_trans [of now s t u] by (simp add: acked_to_def hand_to_def recv_to_def max_def)

lemma mild_recv_to:
  assumes "mild s t" "recv_to now p t u"
  shows "recv_to now p s u"
proof -
  have "evolves now s u"
    using mild_hand [OF assms(1), of now] assms(2) evolves_trans by (auto simp: hand_to_def recv_to_def)
  then show ?thesis using assms by (auto simp: mild_def recv_to_def guarded_def)
qed

lemma mild_ready:
  assumes "mild s t" "cwnd (wn t) = cwnd (wn s)"
  shows "ready v t = ready v s"
  using assms by (simp add: ready_def mild_def guarded_def awake_def)

lemma recv_end_post:
  assumes "snd_ok s"
  shows "returns (recv_end v now p s) (\<lambda>t. hand_to now s t \<and>
    (guarded s \<and> 1 \<le> cwnd (wn s) \<and> \<not> pending (burstsnd_timer s) \<and> opens v (conf s) \<and>
     (highest_ack s \<le> tp_seqno p \<or> awake s) \<longrightarrow> awake t))"
  using recv_end_ok [OF assms, of v now p]
  by (rule returns_mono) (use assms in \<open>auto simp: snd_ok_def\<close>)

lemma recv_new_post:
  assumes ok: "snd_ok s" and a: "highest_ack s < tp_seqno p" "tp_seqno p \<le> maxseq s"
    and q: "QOption (conf s) \<longrightarrow> in_data s" and ts: "tlastreset s \<le> tp_ts p"
  shows "returns (res_bind (recv_new v now p s) (recv_end v now p)) (recv_post v now p s)"
proof (rule returns_bind [OF recv_new_ok [OF ok a q]])
  fix t assume t: "acked_to now (tp_seqno p) s t"
  then have t': "snd_ok t" "guarded t" "highest_ack t = tp_seqno p" "conf t = conf s" "burstsnd_timer t = burstsnd_timer s"
    "1 \<le> cwnd (wn s) \<longrightarrow> 1 \<le> cwnd (wn t)"
    by (simp_all add: acked_to_def evolves_def grows_def)
  show "returns (recv_end v now p t) (recv_post v now p s)"
  proof (rule returns_mono [OF recv_end_post [OF t'(1)]])
    fix u assume u: "hand_to now t u \<and> (guarded t \<and> 1 \<le> cwnd (wn t) \<and> \<not> pending (burstsnd_timer t) \<and> opens v (conf t) \<and>
      (highest_ack t \<le> tp_seqno p \<or> awake t) \<longrightarrow> awake u)"
    then have "awake u" if "ready v s" using that t' by (simp add: ready_def awake_def)
    then show "recv_post v now p s u" using acked_recv_to [OF t _ a(1) ts] u by (simp add: recv_post_def)
  qed
qed

lemma recv_dup_post:
  assumes ok: "snd_ok s" and da: "\<And>t. snd_ok t \<Longrightarrow> returns (da now t) (calm now t)" and a: "tp_seqno p = highest_ack s"
  shows "returns (res_bind (recv_dup v da now s) (recv_end v now p)) (recv_post v now p s)"
proof (rule returns_bind [OF recv_dup_ok [OF ok, of da now v]])
  show "snd_ok t \<Longrightarrow> returns (da now t) (calm now t)" for t by (rule da)
  fix t assume t: "calm now s t"
  then have t': "snd_ok t" "guarded s \<longrightarrow> guarded t" "highest_ack t = tp_seqno p" "conf t = conf s"
    "burstsnd_timer t = burstsnd_timer s" "1 \<le> cwnd (wn s) \<longrightarrow> 1 \<le> cwnd (wn t)"
    using a by (simp_all add: hand_to_def stays_open_def evolves_def grows_def)
  show "returns (recv_end v now p t) (recv_post v now p s)"
  proof (rule returns_mono [OF recv_end_post [OF t'(1)]])
    fix u assume u: "hand_to now t u \<and> (guarded t \<and> 1 \<le> cwnd (wn t) \<and> \<not> pending (burstsnd_timer t) \<and> opens v (conf t) \<and>
      (highest_ack t \<le> tp_seqno p \<or> awake t) \<longrightarrow> awake u)"
    then have "awake u" if "ready v s" using that t' by (simp add: ready_def awake_def)
    moreover have "hand_to now s u" using t u hand_to_trans by blast
    ultimately show "recv_post v now p s u" using a by (simp add: recv_post_def hand_recv_to)
  qed
qed

text \<open>The response to an explicit loss notification resends the packet or goes on sending.\<close>

lemma tcp_eln_post:
  assumes ok: "snd_ok s" and a: "tp_seqno p = highest_ack s"
  shows "returns (tcp_eln v now p s) (recv_post v now p s)"
proof -
  define t where "t = s\<lparr>dupacks := dupacks s + 1\<rparr>"
  have t: "mild s t" "snd_ok t" "wn t = wn s" using ok by (simp_all add: t_def mild_def snd_ok_def)
  have post: "recv_post v now p s u" if "hand_to now t u" "ready v t \<longrightarrow> awake u" for u
  proof -
    have "hand_to now s u" using hand_to_trans [OF mild_hand [OF t(1)] that(1)] .
    moreover have "ready v t = ready v s" by (rule mild_ready [OF t(1)]) (simp add: t(3))
    ultimately show ?thesis using a that(2) by (simp add: recv_post_def hand_recv_to)
  qed
  have "returns (send_much v now False 0 (maxburst (conf t)) t) (recv_post v now p s)"
  proof (rule returns_mono [OF send_much_ok [OF t(2)]])
    fix u assume u: "much_to v now False t u"
    have "awake u" if "ready v t"
      using that t(2) by (intro much_awake [OF u]) (auto simp: ready_def awake_def opens_def snd_ok_def)
    then show "recv_post v now p s u" by (intro post much_hand [OF u]) blast
  qed
  moreover have "returns (res_bind (tcp_output now (last_ack t + 1) TCP_REASON_DUPACK t) (\<lambda>s.
      Inr (s\<lparr>eln_last_rxmit := int32_of (last_ack s + 1)\<rparr>))) (recv_post v now p s)"
  proof (rule returns_bind)
    have q: "0 \<le> last_ack t + 1" "last_ack t + 1 \<le> maxseq t + 1" using t(2) by (simp_all add: snd_ok_def)
    show "returns (tcp_output now (last_ack t + 1) TCP_REASON_DUPACK t)
      (\<lambda>u. sent_to now t u \<and> output_to now (last_ack t + 1) t u)" by (rule output_sent [OF t(2) q])
    fix u assume u: "sent_to now t u \<and> output_to now (last_ack t + 1) t u"
    have m: "mild u (u\<lparr>eln_last_rxmit := x\<rparr>)" for x
      using conjunct2 [OF sent_to_conf [OF conjunct1 [OF u]]] by (simp add: mild_def snd_ok_def)
    have "hand_to now t (u\<lparr>eln_last_rxmit := x\<rparr>)" for x
      using hand_to_trans [OF sent_hand mild_hand [OF m]] u by blast
    moreover have "awake (u\<lparr>eln_last_rxmit := x\<rparr>)" if "ready v t" for x
      using u that by (simp add: awake_def ready_def output_to_def sent_to_def safe_to_def)
    ultimately show "returns (Inr (u\<lparr>eln_last_rxmit := int32_of (last_ack u + 1)\<rparr>)) (recv_post v now p s)"
      by (simp add: post)
  qed
  ultimately show ?thesis
    unfolding tcp_eln_def Let_def t_def [symmetric] by simp
qed

lemma tcp_recv_ok:
  assumes ok: "snd_ok s" and a: "tp_seqno p \<le> maxseq s" and q: "QOption (conf s) \<longrightarrow> in_data s"
    and da: "\<And>t. snd_ok t \<Longrightarrow> returns (da now t) (calm now t)"
  shows "returns (tcp_recv v da now p s) (recv_post v now p s)"
  unfolding tcp_recv_def
proof (rule returns_bind [OF recv_begin_ok [OF ok]], clarify)
  fix go t
  assume t: "mild s t" "go \<longrightarrow> tlastreset s \<le> tp_ts p" "\<not> go \<longrightarrow> tp_ts p < tlastreset s"
    "\<not> ecn_on (conf s) \<longrightarrow> cwnd (wn t) = cwnd (wn s)"
  then have t': "snd_ok t" "tlastreset t = tlastreset s" "maxseq t = maxseq s" "last_ack t = highest_ack t"
    "QOption (conf t) \<longrightarrow> in_data t" "ready v s \<longrightarrow> ready v t"
    using q mild_ready [OF t(1), of v] by (auto simp: mild_def snd_ok_def in_data_def ready_def)
  have post: "recv_post v now p s u" if "recv_post v now p t u" for u
    using that mild_recv_to [OF t(1)] t'(6) by (auto simp: recv_post_def)
  let ?body = "if \<not> go then Inr t
       else if last_ack t < tp_seqno p then res_bind (recv_new v now p t) (recv_end v now p)
       else if tp_seqno p = last_ack t
       then if eln_flag p \<and> eln_on (conf t) then tcp_eln v now p t
            else res_bind (recv_dup v da now t) (recv_end v now p)
       else recv_end v now p t"
  have "returns ?body (recv_post v now p t)"
  proof -
    consider "\<not> go" | "go" "last_ack t < tp_seqno p" | "go" "tp_seqno p = last_ack t" | "go" "tp_seqno p < last_ack t"
      by linarith
    then show ?thesis
    proof cases
      case 1
      have "recv_post v now p t t" using t'(1,2) t(3) 1 by (auto simp: recv_post_def ready_def intro!: hand_recv_to)
      then show ?thesis using 1 by simp
    next
      case 2
      have "returns (res_bind (recv_new v now p t) (recv_end v now p)) (recv_post v now p t)"
        using 2 t' t(2) a by (intro recv_new_post) auto
      then show ?thesis using 2 by simp
    next
      case 3
      have "returns (tcp_eln v now p t) (recv_post v now p t)"
        "returns (res_bind (recv_dup v da now t) (recv_end v now p)) (recv_post v now p t)"
        using tcp_eln_post [OF t'(1), of p v now] recv_dup_post [of t da now p v, OF t'(1) da] 3 t'(4) by simp_all
      then show ?thesis using 3 by simp
    next
      case 4
      have "returns (recv_end v now p t) (recv_post v now p t)"
      proof (rule returns_mono [OF recv_end_post [OF t'(1)]])
        fix u assume u: "hand_to now t u \<and> (guarded t \<and> 1 \<le> cwnd (wn t) \<and> \<not> pending (burstsnd_timer t) \<and> opens v (conf t) \<and>
          (highest_ack t \<le> tp_seqno p \<or> awake t) \<longrightarrow> awake u)"
        then have "awake u" if "ready v t" using that by (simp add: ready_def awake_def)
        then show "recv_post v now p t u" using 4 t'(4) u by (simp add: recv_post_def hand_recv_to)
      qed
      then show ?thesis using 4 by simp
    qed
  qed
  then show "returns ?body (recv_post v now p s)" by (rule returns_mono) (rule post)
qed

end
