(* ===== verification/Tcp_Timers.thy ===== *)
theory Tcp_Timers
  imports Tcp_Tahoe
begin

section \<open>The timers of a TCP sender and its application\<close>

text \<open>
  The retransmission timer, the timer for delayed sending, and data from the application. After a
  timeout the first unacknowledged packet is sent, or will be when the sending delay has passed.
\<close>

subsection \<open>A timeout\<close>

text \<open>Window reductions that leave room for one packet.\<close>

definition eased :: "'b tcp_scheme \<Rightarrow> 'b tcp_scheme \<Rightarrow> bool" where
  "eased s s' \<longleftrightarrow> mild s s' \<and> (1 \<le> cwnd (wn s) \<longrightarrow> 1 \<le> cwnd (wn s'))"

lemma eased_trans: "eased s t \<Longrightarrow> eased t u \<Longrightarrow> eased s u"
  by (auto simp: eased_def intro: mild_trans)

lemma eased_ok: "eased s t \<Longrightarrow> snd_ok t"
  unfolding eased_def using mild_ok by blast

lemma eased_set_action [simp]: "snd_ok s \<Longrightarrow> eased s (set_action a s)"
  by (simp add: eased_def)

lemma eased_fields [simp]: "snd_ok s \<Longrightarrow> eased s (s\<lparr>st := x\<rparr>)" "snd_ok s \<Longrightarrow> eased s (s\<lparr>recover := r\<rparr>)"
  by (simp_all add: eased_def)

lemma slowdown_eased:
  assumes "snd_ok s" "CLOSE_CWND_HALF \<notin> how"
  shows "returns (tcp_slowdown v how s) (eased s)"
  by (rule returns_mono [OF slowdown_mild [OF assms(1)]]) (use assms(2) in \<open>auto simp: eased_def slow_to_def\<close>)

lemma rtx_begin_ok:
  assumes "snd_ok s"
  shows "mild s (rtx_begin v s)" "1 \<le> cwnd (wn (rtx_begin v s))"
  using assms by (simp_all add: rtx_begin_def Let_def mild_def snd_ok_def set_cwnd_def)

lemma rtx_first_eased: "snd_ok s \<Longrightarrow> eased s (rtx_first s)"
  by (auto simp: rtx_first_def eased_def mild_def snd_ok_def cw_ok_def)

lemma rtx_frto_off: "snd_ok s \<Longrightarrow> rtx_frto s = s"
  by (simp add: rtx_frto_def snd_ok_def tcp_conf_ok_def)

lemma slowdown_frto_eased:
  assumes "snd_ok s" "CLOSE_CWND_HALF \<notin> how"
  shows "returns (res_bind (tcp_slowdown v how s) (\<lambda>s. Inr (rtx_frto s))) (eased s)"
  by (rule returns_bind [OF slowdown_eased [OF assms]]) (simp add: rtx_frto_off eased_ok)

lemma rtx_slowdown_ok:
  assumes ok: "snd_ok s"
  shows "returns (rtx_slowdown v s) (eased s)"
proof -
  define t where "t = rtx_first (s\<lparr>recover := maxseq s\<rparr>)"
  have r: "eased s (s\<lparr>recover := maxseq s\<rparr>)" using ok by simp
  have t: "eased s t" unfolding t_def by (rule eased_trans [OF r rtx_first_eased [OF eased_ok [OF r]]])
  have tok: "snd_ok t" by (rule eased_ok [OF t])
  define u where "u = set_action CWND_ACTION_TIMEOUT (t\<lparr>st := (st t)\<lparr>nrexmit := nrexmit (st t) + 1\<rparr>\<rparr>)"
  have x: "eased t (t\<lparr>st := (st t)\<lparr>nrexmit := nrexmit (st t) + 1\<rparr>\<rparr>)" using tok by simp
  have u: "eased t u" unfolding u_def by (rule eased_trans [OF x eased_set_action [OF eased_ok [OF x]]])
  have "returns (tcp_slowdown v {CLOSE_CWND_ONE, NO_OUTSTANDING_DATA} t) (eased t)"
    "returns (res_bind (tcp_slowdown v {CLOSE_CWND_ONE} t) (\<lambda>s. Inr (rtx_frto s))) (eased t)"
    using slowdown_eased [OF tok] slowdown_frto_eased [OF tok] by simp_all
  moreover have "returns (res_bind (tcp_slowdown v {CLOSE_SSTHRESH_HALF, CLOSE_CWND_RESTART} u) (\<lambda>s. Inr (rtx_frto s))) (eased t)"
    by (rule returns_mono [OF slowdown_frto_eased [OF eased_ok [OF u]]]) (simp_all add: eased_trans [OF u])
  ultimately have "returns (if highest_ack t = maxseq t \<and> restart_bugfix (conf t)
      then tcp_slowdown v {CLOSE_CWND_ONE, NO_OUTSTANDING_DATA} t
      else if highest_ack t < recover t \<and> last_cwnd_action (wn t) = CWND_ACTION_ECN
      then res_bind (tcp_slowdown v {CLOSE_CWND_ONE} t) (\<lambda>s. Inr (rtx_frto s))
      else res_bind (tcp_slowdown v {CLOSE_SSTHRESH_HALF, CLOSE_CWND_RESTART} u) (\<lambda>s. Inr (rtx_frto s))) (eased t)"
    by simp
  then have "returns (if highest_ack t = maxseq t \<and> restart_bugfix (conf t)
      then tcp_slowdown v {CLOSE_CWND_ONE, NO_OUTSTANDING_DATA} t
      else if highest_ack t < recover t \<and> last_cwnd_action (wn t) = CWND_ACTION_ECN
      then res_bind (tcp_slowdown v {CLOSE_CWND_ONE} t) (\<lambda>s. Inr (rtx_frto s))
      else res_bind (tcp_slowdown v {CLOSE_SSTHRESH_HALF, CLOSE_CWND_RESTART} u) (\<lambda>s. Inr (rtx_frto s))) (eased s)"
    by (rule returns_mono) (rule eased_trans [OF t])
  moreover have "eased s s" using ok by (simp add: eased_def)
  ultimately show ?thesis unfolding rtx_slowdown_def u_def t_def Let_def by simp
qed

definition resends :: "'b tcp_scheme \<Rightarrow> 'b tcp_scheme \<Rightarrow> bool" where
  "resends s s' \<longleftrightarrow> first_sent (highest_ack s + 1) s s' \<or> pending (delsnd_timer s') \<and> t_seqno s' = highest_ack s' + 1"

definition timeout_to :: "'b vwindow \<Rightarrow> time \<Rightarrow> 'b tcp_scheme \<Rightarrow> 'b tcp_scheme \<Rightarrow> bool" where
  "timeout_to v now s s' \<longleftrightarrow>
     hand_to now s s' \<and> guarded s' \<and> pending (rtx_timer s') \<and> 1 \<le> cwnd (wn s') \<and>
     (opens v (conf s) \<and> \<not> pending (burstsnd_timer s) \<and> highest_ack s + 1 < curseq s \<longrightarrow> resends s s')"

lemma much_resends:
  assumes m: "much_to v now False s t" and ok: "snd_ok s" and s: "t_seqno s = highest_ack s + 1" "1 \<le> cwnd (wn s)"
    and o: "opens v (conf s)" "\<not> pending (burstsnd_timer s)" "highest_ack s + 1 < curseq s"
  shows "resends s t"
proof -
  have "1 \<le> vwin v s" using o(1) s(2) ok by (simp add: opens_def snd_ok_def)
  moreover have "highest_ack t = highest_ack s" using m by (simp add: much_to_def sent_to_def)
  ultimately show ?thesis using m s o(2,3) unfolding much_to_def resends_def by auto
qed

lemma rearm_send_ok:
  assumes ok: "snd_ok s" and w: "1 \<le> cwnd (wn s)"
  shows "returns (res_bind (reset_rtx_timer now False b s) (\<lambda>s.
             let s = set_action CWND_ACTION_TIMEOUT s
             in send_much v now False TCP_REASON_TIMEOUT (maxburst (conf s)) s)) (timeout_to v now s)"
proof (rule returns_bind [OF reset_rtx_timer_ok [OF ok]])
  fix t assume t: "rearms now False s t"
  define u where "u = set_action CWND_ACTION_TIMEOUT t"
  have u: "mild t u" "cwnd (wn u) = cwnd (wn t)"
    using t by (simp_all add: u_def rearms_def)
  have uok: "snd_ok u" by (rule mild_ok [OF u(1)])
  have su: "hand_to now s u" using rearms_hand [OF t] mild_hand [OF u(1)] hand_to_trans by blast
  have e: "pending (rtx_timer u)" "conf u = conf s" "curseq u = curseq s" "highest_ack u = highest_ack s" "out u = out s"
    "burstsnd_timer u = burstsnd_timer s" "t_seqno u = highest_ack u + 1" "1 \<le> cwnd (wn u)"
    using t u w by (simp_all add: rearms_def mild_def)
  have "returns (send_much v now False TCP_REASON_TIMEOUT (maxburst (conf u)) u) (timeout_to v now s)"
  proof (rule returns_mono [OF send_much_ok [OF uok]])
    fix x assume x: "much_to v now False u x"
    have "hand_to now s x" using su much_hand [OF x] hand_to_trans by blast
    moreover have "pending (rtx_timer x)" "1 \<le> cwnd (wn x)"
      using x e(1,8) by (simp_all add: much_to_def sent_to_def safe_to_def)
    moreover have "resends s x" if "opens v (conf s)" "\<not> pending (burstsnd_timer s)" "highest_ack s + 1 < curseq s"
      using much_resends [OF x uok e(7,8)] that e by (simp add: resends_def first_sent_def)
    ultimately show "timeout_to v now s x" by (simp add: timeout_to_def guarded_def)
  qed
  then show "returns (let s = set_action CWND_ACTION_TIMEOUT t
      in send_much v now False TCP_REASON_TIMEOUT (maxburst (conf s)) s) (timeout_to v now s)"
    unfolding Let_def u_def .
qed

lemma mild_timeout_to:
  assumes m: "mild s t" and t: "timeout_to v now t u"
  shows "timeout_to v now s u"
proof -
  have "hand_to now s u" using mild_hand [OF m] t hand_to_trans unfolding timeout_to_def by blast
  then show ?thesis using m t by (simp add: timeout_to_def mild_def resends_def first_sent_def)
qed

lemma tcp_timeout_ok:
  assumes ok: "snd_ok s"
  shows "returns (tcp_timeout v now TCP_TIMER_RTX s) (timeout_to v now s)"
proof -
  define t where "t = rtx_begin v s"
  have t: "mild s t" "1 \<le> cwnd (wn t)" unfolding t_def by (rule rtx_begin_ok [OF ok])+
  have "returns (res_bind (rtx_slowdown v t) (\<lambda>s.
      res_bind (reset_rtx_timer now False (\<not> (highest_ack s = maxseq s \<and> restart_bugfix (conf s))) s) (\<lambda>s.
        let s = set_action CWND_ACTION_TIMEOUT s
        in send_much v now False TCP_REASON_TIMEOUT (maxburst (conf s)) s))) (timeout_to v now s)"
  proof (rule returns_bind [OF rtx_slowdown_ok [OF mild_ok [OF t(1)]]])
    fix u assume u: "eased t u"
    then have su: "mild s u" "1 \<le> cwnd (wn u)" using t mild_trans by (auto simp: eased_def)
    show "returns (res_bind (reset_rtx_timer now False (\<not> (highest_ack u = maxseq u \<and> restart_bugfix (conf u))) u) (\<lambda>s.
        let s = set_action CWND_ACTION_TIMEOUT s
        in send_much v now False TCP_REASON_TIMEOUT (maxburst (conf s)) s)) (timeout_to v now s)"
      by (rule returns_mono [OF rearm_send_ok [OF mild_ok [OF su(1)] su(2)]]) (rule mild_timeout_to [OF su(1)])
  qed
  then show ?thesis unfolding tcp_timeout_def t_def by simp
qed

text \<open>The event of the timer: during \<open>expire\<close> it is not pending.\<close>

lemma handling_frame:
  assumes "snd_ok s"
  shows "snd_ok (s\<lparr>rtx_timer := handling\<rparr>)" "evolves now s (s\<lparr>rtx_timer := handling\<rparr>)"
    "snd_ok (s\<lparr>delsnd_timer := handling\<rparr>)" "evolves now s (s\<lparr>delsnd_timer := handling\<rparr>)"
  using assms by (auto simp: snd_ok_def grows_def intro!: evolves_same)

lemma rtx_handle_ok:
  assumes ok: "snd_ok s" and p: "pending (rtx_timer s)"
    and tmo: "\<And>t. snd_ok t \<Longrightarrow> returns (tmo TCP_TIMER_RTX t) (timeout_to v now t)"
  shows "returns (rtx_timer_handle tmo s) (timeout_to v now s)"
  unfolding rtx_timer_handle_def tm_handle_pending [of rtx_timer, OF p]
proof (rule returns_bind [OF tmo [OF handling_frame(1) [OF ok]]])
  fix t assume t: "timeout_to v now (s\<lparr>rtx_timer := handling\<rparr>) t"
  have "evolves now (s\<lparr>rtx_timer := handling\<rparr>) t" using t by (simp add: timeout_to_def hand_to_def)
  then have "evolves now s t" by (rule evolves_trans [OF handling_frame(2) [OF ok]])
  moreover have "resends (s\<lparr>rtx_timer := handling\<rparr>) t = resends s t" by (simp add: resends_def first_sent_def)
  ultimately have "timeout_to v now s t" using t by (simp add: timeout_to_def hand_to_def)
  moreover have "status (rtx_timer t) \<noteq> TIMER_HANDLING" using t by (simp add: timeout_to_def)
  ultimately show "returns (Inr (if status (rtx_timer t) = TIMER_HANDLING
      then t\<lparr>rtx_timer := (rtx_timer t)\<lparr>status := TIMER_IDLE\<rparr>\<rparr> else t)) (timeout_to v now s)" by simp
qed

subsection \<open>Delayed sending\<close>

definition delsnd_to :: "'b vwindow \<Rightarrow> time \<Rightarrow> 'b tcp_scheme \<Rightarrow> 'b tcp_scheme \<Rightarrow> bool" where
  "delsnd_to v now s s' \<longleftrightarrow>
     hand_to now s s' \<and>
     (opens v (conf s) \<and> guarded s \<and> 1 \<le> cwnd (wn s) \<and> \<not> pending (burstsnd_timer s) \<longrightarrow> awake s') \<and>
     (opens v (conf s) \<and> 1 \<le> cwnd (wn s) \<and> \<not> pending (burstsnd_timer s) \<and> highest_ack s + 1 < curseq s \<and>
      t_seqno s = highest_ack s + 1 \<longrightarrow> first_sent (highest_ack s + 1) s s')"

lemma much_delsnd:
  assumes m: "much_to v now True s t" and ok: "snd_ok s"
  shows "delsnd_to v now s t"
proof -
  have w: "1 \<le> vwin v s" if "opens v (conf s)" "1 \<le> cwnd (wn s)" using that ok by (simp add: opens_def snd_ok_def)
  then have "awake t" if "opens v (conf s)" "guarded s" "1 \<le> cwnd (wn s)" "\<not> pending (burstsnd_timer s)"
    using that by (intro much_awake [OF m])
  moreover have "first_sent (highest_ack s + 1) s t" if "opens v (conf s)" "1 \<le> cwnd (wn s)"
    "\<not> pending (burstsnd_timer s)" "highest_ack s + 1 < curseq s" "t_seqno s = highest_ack s + 1"
    using m w [OF that(1,2)] that(3-5) unfolding much_to_def by auto
  ultimately show ?thesis using much_hand [OF m] unfolding delsnd_to_def by blast
qed

lemma idle_delsnd:
  assumes "delsnd_to v now s t"
  shows "delsnd_to v now s (if status (delsnd_timer t) = TIMER_HANDLING
      then t\<lparr>delsnd_timer := (delsnd_timer t)\<lparr>status := TIMER_IDLE\<rparr>\<rparr> else t)"
proof (cases "status (delsnd_timer t) = TIMER_HANDLING")
  case True
  let ?t = "t\<lparr>delsnd_timer := (delsnd_timer t)\<lparr>status := TIMER_IDLE\<rparr>\<rparr>"
  have ok: "snd_ok t" using assms by (simp add: delsnd_to_def hand_to_def)
  then have "snd_ok ?t" using True by (auto simp: snd_ok_def timer_ok_def)
  then have "hand_to now t ?t" by (auto simp: hand_to_def guarded_def grows_def intro!: evolves_same)
  then have "hand_to now s ?t" using assms hand_to_trans unfolding delsnd_to_def by blast
  moreover have "awake ?t = awake t" using True by (simp add: awake_def)
  ultimately show ?thesis using assms True by (simp add: delsnd_to_def first_sent_def)
qed (use assms in simp)

lemma delsnd_handle_ok:
  assumes ok: "snd_ok s" and p: "pending (delsnd_timer s)"
    and tmo: "\<And>t. snd_ok t \<Longrightarrow> returns (tmo TCP_TIMER_DELSND t) (delsnd_to v now t)"
  shows "returns (delsnd_timer_handle tmo s) (delsnd_to v now s)"
  unfolding delsnd_timer_handle_def tm_handle_pending [of delsnd_timer, OF p]
proof (rule returns_bind [OF tmo [OF handling_frame(3) [OF ok]]])
  fix t assume t: "delsnd_to v now (s\<lparr>delsnd_timer := handling\<rparr>) t"
  have "evolves now (s\<lparr>delsnd_timer := handling\<rparr>) t" using t by (simp add: delsnd_to_def hand_to_def)
  then have "evolves now s t" by (rule evolves_trans [OF handling_frame(4) [OF ok]])
  then have "delsnd_to v now s t" using t by (simp add: delsnd_to_def hand_to_def first_sent_def guarded_def)
  from idle_delsnd [OF this] show "returns (Inr (if status (delsnd_timer t) = TIMER_HANDLING
      then t\<lparr>delsnd_timer := (delsnd_timer t)\<lparr>status := TIMER_IDLE\<rparr>\<rparr> else t)) (delsnd_to v now s)" by simp
qed

lemma timeout_nonrtx_ok: "snd_ok s \<Longrightarrow> returns (timeout_nonrtx v now TCP_TIMER_DELSND s) (delsnd_to v now s)"
  unfolding timeout_nonrtx_def by (auto intro!: returns_mono [OF send_much_ok] intro: much_delsnd)

subsection \<open>Data from the application\<close>

definition supplied :: "'b vwindow \<Rightarrow> time \<Rightarrow> int \<Rightarrow> 'b tcp_scheme \<Rightarrow> 'b tcp_scheme \<Rightarrow> bool" where
  "supplied v now n s s' \<longleftrightarrow>
     hand_to now (s\<lparr>curseq := curseq s + n\<rparr>) s' \<and>
     (opens v (conf s) \<and> guarded s \<and> 1 \<le> cwnd (wn s) \<and> \<not> pending (burstsnd_timer s) \<longrightarrow> awake s')"

lemma supplied_ok:
  assumes ok: "snd_ok s" and t: "t = s\<lparr>curseq := curseq s + n\<rparr> \<or> t = s\<lparr>curseq := curseq s + n, closed := False\<rparr>"
  shows "returns (send_much v now False 0 (maxburst (conf t)) t) (supplied v now n s)"
proof -
  have m: "mild (s\<lparr>curseq := curseq s + n\<rparr>) t" using ok t by (auto simp: mild_def snd_ok_def)
  have e: "wn t = wn s" using t by auto
  show ?thesis
  proof (rule returns_mono [OF send_much_ok [OF mild_ok [OF m]]])
    fix u assume u: "much_to v now False t u"
    have "hand_to now (s\<lparr>curseq := curseq s + n\<rparr>) u" using mild_hand [OF m] much_hand [OF u] hand_to_trans by blast
    moreover have "awake u" if "opens v (conf s)" "guarded s" "1 \<le> cwnd (wn s)" "\<not> pending (burstsnd_timer s)"
      using that m e mild_ok [OF m] by (intro much_awake [OF u]) (auto simp: opens_def mild_def guarded_def snd_ok_def)
    ultimately show "supplied v now n s u" by (simp add: supplied_def)
  qed
qed

lemma advanceby_ok:
  assumes "snd_ok s"
  shows "returns (advanceby v now n s) (supplied v now n s)"
  unfolding advanceby_def Let_def by (rule supplied_ok [OF assms]) auto

end
