(* ===== verification/Tcp_Recovery.thy ===== *)
theory Tcp_Recovery
  imports Tcp_Timers
begin

section \<open>Reno keeps the invariant of the senders\<close>

text \<open>
  The same invariant for \<open>RenoTcpAgent\<close>, whose fast retransmission sends the first unacknowledged
  packet and may send a packet beyond the data when everything has been acknowledged.
\<close>

lemma hand_dupwnd: "snd_ok s \<Longrightarrow> hand_to now s (s\<lparr>dupwnd := n\<rparr>)"
  by (auto simp: hand_to_def snd_ok_def guarded_def grows_def intro!: evolves_same)

lemma hand_set_dupwnd: "snd_ok s \<Longrightarrow> hand_to now s (set_dupwnd n s)"
  by (simp add: set_dupwnd_def hand_dupwnd)

lemma hand_bind:
  assumes "returns m (hand_to now s)" "\<And>t. hand_to now s t \<Longrightarrow> returns (f t) (hand_to now t)"
  shows "returns (res_bind m f) (hand_to now s)"
  using assms(1) by (rule returns_bind) (rule returns_mono [OF assms(2)], assumption, rule hand_to_trans)

lemma calm_hand: "returns m (calm now s) \<Longrightarrow> returns m (hand_to now s)"
  by (erule returns_mono) simp

text \<open>Fast retransmission: the packet after the last acknowledged one, whatever its number.\<close>

definition retransmits :: "'b reno_scheme \<Rightarrow> 'b reno_scheme \<Rightarrow> bool" where
  "retransmits s s' \<longleftrightarrow>
     first_sent (highest_ack s + 1) s s' \<and> length (out s') = length (out s) + 1 \<and>
     dupwnd s' = numdupacks (conf s) mod 2 ^ 32 \<and> t_seqno s' = t_seqno s \<and> maxseq s' = max (maxseq s) (highest_ack s + 1)"

lemma retransmit_output_ok:
  assumes ok: "snd_ok s"
  shows "returns (res_bind (tcp_output now (last_ack s + 1) reason s) (\<lambda>s. Inr (set_dupwnd (numdupacks (conf s)) s)))
    (\<lambda>t. hand_to now s t \<and> retransmits s t)"
proof (rule returns_bind [OF output_sent [OF ok]])
  show "0 \<le> last_ack s + 1" "last_ack s + 1 \<le> maxseq s + 1" using ok by (simp_all add: snd_ok_def)
  fix u assume u: "sent_to now s u \<and> output_to now (last_ack s + 1) s u"
  then have uok: "snd_ok u" using sent_to_conf by blast
  have "hand_to now s (set_dupwnd n u)" for n
    using sent_hand [of now s u] hand_set_dupwnd [OF uok] u hand_to_trans by blast
  moreover have "last_ack s = highest_ack s" using ok by (simp add: snd_ok_def)
  then have "retransmits s (set_dupwnd (numdupacks (conf u)) u)"
    using u by (auto simp: retransmits_def set_dupwnd_def first_sent_def output_to_def keeps_def)
  ultimately show "returns (Inr (set_dupwnd (numdupacks (conf u)) u)) (\<lambda>t. hand_to now s t \<and> retransmits s t)"
    by simp
qed

lemma rearms_retransmits: "rearms now True s t \<Longrightarrow> retransmits t u \<Longrightarrow> retransmits s u"
  by (simp add: retransmits_def rearms_def first_sent_def)

lemma reno_retransmit_ok:
  assumes ok: "snd_ok s"
  shows "returns (reno_retransmit now s) (\<lambda>t. hand_to now s t \<and> retransmits s t)"
  unfolding reno_retransmit_def
proof (rule returns_bind [OF reset_rtx_timer_ok [OF ok]])
  fix t assume t: "rearms now True s t"
  then have "snd_ok t" by (simp add: rearms_def)
  from retransmit_output_ok [OF this, of now TCP_REASON_DUPACK]
  show "returns (res_bind (tcp_output now (last_ack t + 1) TCP_REASON_DUPACK t) (\<lambda>s.
       Inr (set_dupwnd (numdupacks (conf s)) s))) (\<lambda>t. hand_to now s t \<and> retransmits s t)"
    by (rule returns_mono) (use rearms_hand [OF t] rearms_retransmits [OF t] hand_to_trans in blast)
qed

lemma mild_retransmits: "mild s t \<Longrightarrow> retransmits t u \<Longrightarrow> retransmits s u"
  by (simp add: retransmits_def mild_def first_sent_def)

lemma mild_retransmit_ok:
  assumes "mild s t"
  shows "returns (reno_retransmit now t) (\<lambda>u. hand_to now s u \<and> retransmits s u)"
  using reno_retransmit_ok [OF mild_ok [OF assms]]
  by (rule returns_mono) (use assms mild_hand hand_to_trans mild_retransmits in blast)

lemma reno_action_ok:
  assumes ok: "snd_ok s"
  shows "returns (reno_action now s) (\<lambda>t. hand_to now s t \<and> retransmits s t)"
proof -
  let ?r = "s\<lparr>recover := maxseq s\<rparr>" and ?t = "set_action CWND_ACTION_DUPACK (s\<lparr>recover := maxseq s\<rparr>)"
  have r: "mild s ?r" using ok by simp
  have t: "mild s ?t" by (rule mild_trans [OF r mild_set(1) [OF mild_ok [OF r]]])
  show ?thesis
    unfolding reno_action_def
  proof (rule returns_bind [OF slowdown_mild [OF mild_ok [OF t]]])
    fix u assume "mild ?t u \<and> slow_to {CLOSE_SSTHRESH_HALF, CLOSE_CWND_HALF} (wn ?t) (wn u) \<and> recover u = recover ?t"
    then have "mild s u" using mild_trans [OF t] by blast
    then show "returns (reno_retransmit now u) (\<lambda>t. hand_to now s t \<and> retransmits s t)" by (rule mild_retransmit_ok)
  qed
qed

lemma reno_dupack_ok:
  assumes ok: "snd_ok s"
  shows "returns (reno_dupack_action now s) (\<lambda>t. hand_to now s t \<and> (t = s \<or> retransmits s t))"
proof -
  have a: "returns (reno_action now s) (\<lambda>t. hand_to now s t \<and> (t = s \<or> retransmits s t))"
    by (rule returns_mono [OF reno_action_ok [OF ok]]) blast
  have "mild s (set_action CWND_ACTION_DUPACK s)" using ok by simp
  then have "returns (reno_retransmit now (set_action CWND_ACTION_DUPACK s))
      (\<lambda>t. hand_to now s t \<and> (t = s \<or> retransmits s t))"
    by (rule returns_mono [OF mild_retransmit_ok]) blast
  with a ok show ?thesis by (simp add: reno_dupack_action_def)
qed

lemma hand_dupacks: "snd_ok s \<Longrightarrow> hand_to now s (s\<lparr>dupacks := n\<rparr>)"
  using dupacks_calm by blast

lemma reno_dup_ok:
  assumes ok: "snd_ok s" and da: "\<And>t. snd_ok t \<Longrightarrow> returns (da now t) (hand_to now t)"
  shows "returns (reno_dup da now s) (hand_to now s)"
proof -
  define t where "t = s\<lparr>dupacks := dupacks s + 1\<rparr>"
  have t: "hand_to now s t" "snd_ok t" unfolding t_def using hand_dupacks [OF ok] hand_to_ok by blast+
  have "returns (res_bind (da now t) (\<lambda>s.
      Inr (if exitFastRetrans (conf s) then s else set_dupwnd (numdupacks (conf s)) s))) (hand_to now t)"
    by (rule hand_bind [OF da [OF t(2)]]) (auto simp: hand_set_dupwnd dest: hand_to_ok)
  moreover have "returns (send_one reno_vt now t) (hand_to now t)" by (rule calm_hand [OF send_one_ok [OF t(2)]])
  moreover have "hand_to now t (set_dupwnd n t)" for n by (rule hand_set_dupwnd [OF t(2)])
  ultimately have "returns (if dupacks t = numdupacks (conf t)
         then res_bind (da now t) (\<lambda>s.
                Inr (if exitFastRetrans (conf s) then s else set_dupwnd (numdupacks (conf s)) s))
         else if numdupacks (conf t) < dupacks t \<and>
                 (\<not> exitFastRetrans (conf t) \<or> last_cwnd_action (wn t) = CWND_ACTION_DUPACK)
         then Inr (set_dupwnd (dupwnd t + 1) t)
         else if dupacks t < numdupacks (conf t) \<and> singledup (conf t) then send_one reno_vt now t
         else Inr t) (hand_to now t)"
    using t(2) by simp
  then show ?thesis
    unfolding reno_dup_def Let_def t_def [symmetric] by (rule returns_mono) (rule hand_to_trans [OF t(1)])
qed

lemma reno_end_ok:
  assumes ok: "snd_ok s"
  shows "returns (reno_end now p s) (hand_to now s)"
proof -
  have "returns (send_much reno_vt now False 0 (maxburst (conf s)) s) (hand_to now s)"
    by (rule returns_mono [OF send_much_ok [OF ok]]) (rule much_hand)
  then show ?thesis using ok unfolding reno_end_def by simp
qed

text \<open>A new acknowledgement, seen from outside.\<close>

definition advances :: "time \<Rightarrow> seq_t \<Rightarrow> 'b tcp_scheme \<Rightarrow> 'b tcp_scheme \<Rightarrow> bool" where
  "advances now a s s' \<longleftrightarrow>
     snd_ok s' \<and> evolves now s s' \<and> highest_ack s' = a \<and> (guarded s \<longrightarrow> guarded s') \<and> burstsnd_timer s' = burstsnd_timer s"

lemma acked_advances: "acked_to now a s t \<Longrightarrow> advances now a s t"
  by (simp add: acked_to_def advances_def)

lemma advances_hand: "advances now a s t \<Longrightarrow> hand_to now t u \<Longrightarrow> advances now a s u"
  by (auto simp: advances_def hand_to_def intro: evolves_trans)

lemma hand_advances: "hand_to now s t \<Longrightarrow> advances now a t u \<Longrightarrow> advances now a s u"
  by (auto simp: advances_def hand_to_def intro: evolves_trans)

lemma advances_recv:
  "advances now (tp_seqno p) s t \<Longrightarrow> highest_ack s < tp_seqno p \<Longrightarrow> tlastreset s \<le> tp_ts p \<Longrightarrow> recv_to now p s t"
  by (simp add: recv_to_def advances_def)

lemma reno_new_ok:
  assumes ok: "snd_ok s" and a: "highest_ack s < tp_seqno p" "tp_seqno p \<le> maxseq s" and q: "\<not> QOption (conf s)"
  shows "returns (reno_new now p s) (advances now (tp_seqno p) s)"
proof -
  define u where "u = (if last_cwnd_action (wn s) = CWND_ACTION_DUPACK then set_action CWND_ACTION_EXITED s else s)"
  have u: "mild s u" using ok by (simp add: u_def)
  define t where "t = u\<lparr>dupwnd := 0\<rparr>"
  have t: "hand_to now s t" using mild_hand [OF u] hand_dupwnd [OF mild_ok [OF u]] hand_to_trans unfolding t_def by blast
  have e: "maxseq t = maxseq s" "conf t = conf s" "highest_ack t = highest_ack s" using u by (simp_all add: t_def mild_def)
  have "returns (recv_new reno_vt now p t) (acked_to now (tp_seqno p) t)"
    using a q by (intro recv_new_ok hand_to_ok [OF t]) (simp_all add: e)
  then have "returns (recv_new reno_vt now p t) (advances now (tp_seqno p) s)"
    by (rule returns_mono) (rule hand_advances [OF t acked_advances])
  then show ?thesis unfolding reno_new_def Let_def t_def u_def .
qed

text \<open>The case distinction of \<open>recv\<close>, which Reno and NewReno share.\<close>

lemma check_recv_ok:
  assumes ok: "snd_ok s" and a: "tp_seqno p \<le> maxseq s" and q: "\<not> QOption (conf s)"
    and new: "\<And>t. snd_ok t \<Longrightarrow> highest_ack t < tp_seqno p \<Longrightarrow> tp_seqno p \<le> maxseq t \<Longrightarrow> \<not> QOption (conf t) \<Longrightarrow>
      returns (f t) (advances now (tp_seqno p) t)"
    and dup: "\<And>t. snd_ok t \<Longrightarrow> returns (g t) (hand_to now t)" and fin: "\<And>t. snd_ok t \<Longrightarrow> returns (h t) (hand_to now t)"
  shows "returns (res_bind (recv_check v p s) (\<lambda>(go, s).
       if \<not> go then Inr s
       else if last_ack s < tp_seqno p then res_bind (f s) h
       else if tp_seqno p = last_ack s
       then if eln_flag p \<and> eln_on (conf s) then tcp_eln v now p s else res_bind (g s) h
       else h s)) (recv_to now p s)"
proof (rule returns_bind [OF recv_check_ok [OF ok]], clarify)
  fix go t
  assume t: "mild s t" "go \<longrightarrow> tlastreset s \<le> tp_ts p" "\<not> go \<longrightarrow> tp_ts p < tlastreset s"
    "\<not> ecn_on (conf s) \<longrightarrow> cwnd (wn t) = cwnd (wn s)"
  have tok: "snd_ok t" by (rule mild_ok [OF t(1)])
  have t': "tlastreset t = tlastreset s" "maxseq t = maxseq s" "last_ack t = highest_ack t" "\<not> QOption (conf t)"
    using t(1) tok q by (simp_all add: mild_def snd_ok_def)
  let ?body = "if \<not> go then Inr t
       else if last_ack t < tp_seqno p then res_bind (f t) h
       else if tp_seqno p = last_ack t
       then if eln_flag p \<and> eln_on (conf t) then tcp_eln v now p t else res_bind (g t) h
       else h t"
  have "returns ?body (recv_to now p t)"
  proof -
    consider "\<not> go" | "go" "last_ack t < tp_seqno p" | "go" "tp_seqno p = last_ack t" | "go" "tp_seqno p < last_ack t"
      by linarith
    then show ?thesis
    proof cases
      case 1
      have "recv_to now p t t" using tok t'(1) t(3) 1 by (intro hand_recv_to) auto
      then show ?thesis using 1 by simp
    next
      case 2
      have "returns (f t) (advances now (tp_seqno p) t)" using 2 t' a by (intro new [OF tok]) simp_all
      then have "returns (res_bind (f t) h) (recv_to now p t)"
      proof (rule returns_bind)
        fix x assume x: "advances now (tp_seqno p) t x"
        then have "snd_ok x" by (simp add: advances_def)
        from fin [OF this] show "returns (h x) (recv_to now p t)"
          by (rule returns_mono) (use advances_recv [OF advances_hand [OF x]] 2 t' t(2) in auto)
      qed
      then show ?thesis using 2 by simp
    next
      case 3
      have "returns (res_bind (g t) h) (hand_to now t)"
        by (rule hand_bind [OF dup [OF tok]]) (auto intro!: fin dest: hand_to_ok)
      then have "returns (res_bind (g t) h) (recv_to now p t)"
        by (rule returns_mono) (use 3 t'(3) in \<open>simp add: hand_recv_to\<close>)
      moreover have "returns (tcp_eln v now p t) (recv_to now p t)"
        using 3 t'(3) by (intro returns_mono [OF tcp_eln_post [OF tok]]) (simp_all add: recv_post_def)
      ultimately show ?thesis using 3 by simp
    next
      case 4
      have "returns (h t) (recv_to now p t)"
        by (rule returns_mono [OF fin [OF tok]]) (use 4 t'(3) in \<open>simp add: hand_recv_to\<close>)
      then show ?thesis using 4 by simp
    qed
  qed
  then show "returns ?body (recv_to now p s)" by (rule returns_mono) (rule mild_recv_to [OF t(1)])
qed

lemma reno_recv_ok:
  assumes ok: "snd_ok s" and a: "tp_seqno p \<le> maxseq s" and q: "\<not> QOption (conf s)"
    and da: "\<And>t. snd_ok t \<Longrightarrow> returns (da now t) (hand_to now t)"
  shows "returns (reno_recv da now p s) (recv_to now p s)"
  unfolding reno_recv_def recv_begin_def recv_qs_off [OF ok] res_bind.simps
  by (rule check_recv_ok [OF ok a q reno_new_ok reno_dup_ok [where da = da, OF _ da] reno_end_ok])

lemma reno_timeout_ok:
  assumes ok: "snd_ok s"
  shows "returns (reno_timeout now TCP_TIMER_RTX s) (timeout_to reno_vt now s)"
    and "returns (reno_timeout now TCP_TIMER_DELSND s) (delsnd_to reno_vt now s)"
proof -
  define t where "t = (if bug_fix (conf s) then s\<lparr>dupwnd := 0, dupacks := 0, recover := maxseq s\<rparr>
                       else s\<lparr>dupwnd := 0, dupacks := 0\<rparr>)"
  have t: "hand_to now s t" "conf t = conf s" "curseq t = curseq s" "highest_ack t = highest_ack s" "out t = out s"
    "burstsnd_timer t = burstsnd_timer s"
    using ok by (auto simp: t_def hand_to_def snd_ok_def guarded_def grows_def intro!: evolves_same)
  have "returns (tcp_timeout reno_vt now TCP_TIMER_RTX t) (timeout_to reno_vt now s)"
  proof (rule returns_mono [OF tcp_timeout_ok [OF hand_to_ok [OF t(1)]]])
    fix u assume u: "timeout_to reno_vt now t u"
    then have "hand_to now s u" using t(1) hand_to_trans unfolding timeout_to_def by blast
    moreover have "resends t u = resends s u" using t by (simp add: resends_def first_sent_def)
    ultimately show "timeout_to reno_vt now s u" using u t by (simp add: timeout_to_def)
  qed
  then show "returns (reno_timeout now TCP_TIMER_RTX s) (timeout_to reno_vt now s)"
    unfolding t_def by (cases "bug_fix (conf s)") (simp_all add: reno_timeout_def)
  show "returns (reno_timeout now TCP_TIMER_DELSND s) (delsnd_to reno_vt now s)"
    using timeout_nonrtx_ok [OF ok] by (simp add: reno_timeout_def)
qed

end
