(* ===== verification/Tcp_Start.thy ===== *)
theory Tcp_Start
  imports Tcp_Recovery
begin

section \<open>\<open>TcpAgent::reset\<close> establishes the invariant\<close>

text \<open>\<open>fresh\<close> is what the constructor and the bound parameters give; \<open>started\<close> is a connection before its first packet.\<close>

definition fresh :: "'b tcp_scheme \<Rightarrow> bool" where
  "fresh s \<longleftrightarrow>
     tcp_conf_ok (conf s) \<and> 1 \<le> wnd_init (wn s) \<and> wnd_init_option (wn s) \<in> {1, 2} \<and>
     \<not> qs_requested (qs s) \<and> \<not> qs_approved (qs s) \<and> qs_window (qs s) = 0 \<and> qs_cwnd (qs s) = 0 \<and>
     timer_ok (rtx_timer s) \<and> timer_ok (delsnd_timer s) \<and> timer_ok (burstsnd_timer s) \<and>
     tss s = None \<and> frto s = 0"

definition started :: "time \<Rightarrow> 'b tcp_scheme \<Rightarrow> 'b tcp_scheme \<Rightarrow> bool" where
  "started now s s' \<longleftrightarrow>
     snd_ok s' \<and> conf s' = conf s \<and> 1 \<le> cwnd (wn s') \<and> curseq s' = 0 \<and> maxseq s' = - 1 \<and> highest_ack s' = - 1 \<and>
     t_seqno s' = 0 \<and> tlastreset s' = now \<and> out s' = out s \<and> notices s' = notices s \<and> \<not> closed s' \<and>
     \<not> pending (rtx_timer s') \<and> \<not> pending (delsnd_timer s') \<and> \<not> pending (burstsnd_timer s') \<and>
     tcp.more s' = tcp.more s"

lemma reset_options_ok:
  assumes "started now s t"
  shows "returns (reset_options now t) (started now s)"
proof -
  have w: "wnd_option (wc (conf t)) \<noteq> 8" "rtt_conf_ok (rc (conf t))"
    using assms by (auto simp: started_def snd_ok_def tcp_conf_ok_def win_conf_ok_def)
  have "snd_ok (t\<lparr>qo := q\<rparr>) = snd_ok t" for q by (simp add: snd_ok_def)
  then have "started now s (t\<lparr>qo := q\<rparr>)" for q using assms by (simp add: started_def)
  then show ?thesis
    using w assms by (simp add: reset_options_def reset_qoption_def tcp_ticks_def rtt_conf_ok_def Let_def)
qed

lemma reset_ssthresh:
  assumes "win_conf_ok c"
  shows "2 \<le> (if 0 < max_ssthresh c \<and> max_ssthresh c < int_of_double (wnd c) then max_ssthresh c else int_of_double (wnd c))"
  using assms int_of_double_ge_int [of 2 "wnd c"] by (auto simp: win_conf_ok_def)

lemma set_initial_window_ok:
  assumes "fresh s" "wn t = wn s" "qs t = qs s"
  shows "returns (set_initial_window t) (\<lambda>u. \<exists>x\<ge>1. u = set_cwnd x t \<or> u = (set_cwnd x t)\<lparr>syn_connects := 0\<rparr>)"
proof (cases "syn (conf t) \<and> delay_growth (conf t)")
  case False
  have "1 \<le> wnd_init (wn s)" "wnd_init_option (wn s) = 1 \<or> wnd_init_option (wn s) = 2" "qs_cwnd (qs s) = 0"
    using assms(1) by (simp_all add: fresh_def)
  then have "returns (tcp_initial_window t) (\<lambda>x. 1 \<le> x)"
    unfolding tcp_initial_window_def initial_window_def assms(2,3) by (elim disjE) simp_all
  then have "returns (res_bind (tcp_initial_window t) (\<lambda>x. Inr (set_cwnd x t))) (\<lambda>u. \<exists>x\<ge>1. u = set_cwnd x t \<or> u = (set_cwnd x t)\<lparr>syn_connects := 0\<rparr>)"
    by (rule returns_bind) (unfold returns_Inr, blast)
  then show ?thesis unfolding set_initial_window_def if_not_P [OF False] .
next
  case True
  then show ?thesis unfolding set_initial_window_def if_P [OF True] returns_Inr by (intro exI [of _ 1]) simp
qed

lemma reset_window_ok:
  assumes "fresh s" "conf t = conf s" "wnd_init (wn t) = wnd_init (wn s)" "wnd_init_option (wn t) = wnd_init_option (wn s)"
  shows "cw_ok (wn (reset_window t))" "cwnd (wn (reset_window t)) = cwnd (wn t)"
  using assms reset_ssthresh [of "wc (conf s)"]
  by (auto simp: reset_window_def Let_def cw_ok_def fresh_def tcp_conf_ok_def)

lemma reset_window_frame: "reset_window t = t\<lparr>wn := wn (reset_window t)\<rparr>"
  by (simp add: reset_window_def Let_def)

text \<open>The second half of \<open>reset\<close>, from the window on.\<close>

lemma reset_tail:
  assumes f: "fresh s" and u: "conf u = conf s" "rtt_ok (rc (conf s)) (rt u)" "cw_ok w" "1 \<le> cwnd w"
    "curseq u = 0" "qs u = qs s" "rtx_timer u = rtx_timer s" "delsnd_timer u = delsnd_timer s"
    "burstsnd_timer u = burstsnd_timer s" "tss u = tss s" "frto u = frto s" "out u = out s" "notices u = notices s"
    "tcp.more u = tcp.more s"
  shows "started now s (cancel_timers (u\<lparr>t_seqno := 0, maxseq := - 1, last_ack := - 1, highest_ack := - 1,
    recover := 0, closed := False, wn := w, drawn := d, rt := (rt u)\<lparr>boot_time := b\<rparr>, tlastreset := now, st := x\<rparr>))"
  using f u by (simp add: started_def snd_ok_def cancel_timers_def fresh_def rtt_ok_def)

lemma tcp_reset_ok:
  assumes f: "fresh s"
  shows "returns (tcp_reset now s) (started now s)"
proof -
  have c: "tcp_conf_ok (conf s)" using f by (simp add: fresh_def)
  obtain r where r: "rtt_init (rc (conf s)) (rt s) = Inr r" "rtt_ok (rc (conf s)) r"
    using rtt_init_ok [of "rc (conf s)" "rt s"] c by (auto simp: tcp_conf_ok_def)
  define t where "t = s\<lparr>rt := r, rtt_seq := - 1, dupacks := 0, curseq := 0\<rparr>"
  have "returns (set_initial_window t) (\<lambda>u. \<exists>x\<ge>1. u = set_cwnd x t \<or> u = (set_cwnd x t)\<lparr>syn_connects := 0\<rparr>)"
    by (rule set_initial_window_ok [OF f]) (simp_all add: t_def)
  then obtain u x where u: "set_initial_window t = Inr u" "1 \<le> x" "u = set_cwnd x t \<or> u = (set_cwnd x t)\<lparr>syn_connects := 0\<rparr>"
    by (elim returnsE exE conjE)
  have e: "conf u = conf s" "rt u = r" "curseq u = 0" "qs u = qs s" "rtx_timer u = rtx_timer s"
    "delsnd_timer u = delsnd_timer s" "burstsnd_timer u = burstsnd_timer s" "tss u = tss s" "frto u = frto s"
    "out u = out s" "notices u = notices s" "tcp.more u = tcp.more s" "wn u = (wn s)\<lparr>cwnd := x\<rparr>"
    using u(3) by (elim disjE; simp add: set_cwnd_def t_def)+
  let ?u = "u\<lparr>t_seqno := 0, maxseq := - 1, last_ack := - 1, highest_ack := - 1, recover := 0, closed := False\<rparr>"
  define w where "w = wn (reset_window ?u)"
  have rw: "reset_window ?u = ?u\<lparr>wn := w\<rparr>" unfolding w_def by (rule reset_window_frame)
  have w: "cw_ok w" "1 \<le> cwnd w" unfolding w_def using reset_window_ok [OF f, of ?u] u(2) e by simp_all
  let ?w = "cancel_timers (u\<lparr>t_seqno := 0, maxseq := - 1, last_ack := - 1, highest_ack := - 1,
      recover := 0, closed := False, wn := w, drawn := drawn u + 1,
      rt := (rt u)\<lparr>boot_time := tcp_tick (rc (conf u)) * rng_unif u (drawn u)\<rparr>, tlastreset := now,
      st := \<lparr>ndatapack = 0, ndatabytes = 0, nackpack = 0, nrexmit = 0, nrexmitpack = 0,
             nrexmitbytes = 0, necnresponses = 0\<rparr>\<rparr>)"
  have sw: "started now s ?w" by (rule reset_tail [OF f]) (use e r(2) w in simp_all)
  moreover have "snd_ok (t\<lparr>prev_highest_ack := h\<rparr>) = snd_ok t" for t :: "'a tcp_scheme" and h by (simp add: snd_ok_def)
  ultimately have sp: "started now s (?w\<lparr>prev_highest_ack := h\<rparr>)" for h by (simp add: started_def)
  have eq: "tcp_reset now s = reset_options now (if control_increase (conf u) then ?w\<lparr>prev_highest_ack := int32_of (- 1)\<rparr> else ?w)"
    unfolding tcp_reset_def r(1) res_bind.simps t_def [symmetric] u(1) Let_def rw
    by (simp add: draw_unif_def cancel_timers_def)
  have "returns (reset_options now (if b then ?w\<lparr>prev_highest_ack := h\<rparr> else ?w)) (started now s)" for b h
    by (rule reset_options_ok, cases b) (simp_all only: if_True if_False sp sw)
  then show ?thesis unfolding eq .
qed

end
