(* ===== verification/Tcp_Transfer.thy ===== *)
theory Tcp_Transfer
  imports Tcp_Start Tcp_Receiver
begin

section \<open>A sender and a sink over an unreliable network\<close>

text \<open>
  A TCP sender and a \<open>TcpSink\<close>, and between them two paths on which packets are lost, duplicated
  and reordered at will. A step is the delivery of a packet, the loss or duplication of one, the
  expiry of a timer or a call of the application. The sender is any agent that satisfies the
  contract \<open>sender\<close>; the sink has any \<open>Acker\<close>. Packets whose number is beyond what the array of the
  sink can take are not delivered.
\<close>

subsection \<open>The network\<close>

record ('b, 'z, 'k) net =
  tx :: "'b tcp_scheme"
  rx :: "('z, 'k) sink"
  data_path :: "tpkt list"
  ack_path :: "tpkt list"

datatype net_act =
    Deliver nat | Drop nat | Dup nat
  | DeliverAck nat | DropAck nat | DupAck nat
  | RtxExpires | DelsndExpires | Supply int

definition remove_at :: "nat \<Rightarrow> 'a list \<Rightarrow> 'a list" where
  "remove_at i xs = take i xs @ drop (Suc i) xs"

text \<open>What the sender or the sink sends goes on its path.\<close>

definition tx_step :: "('b tcp_scheme \<Rightarrow> 'b tcp_scheme res) \<Rightarrow> ('b, 'z, 'k) net \<Rightarrow> ('b, 'z, 'k) net res" where
  "tx_step f n = res_bind (f (tx n)) (\<lambda>s.
     Inr (n\<lparr>tx := s, data_path := data_path n @ drop (length (out (tx n))) (out s)\<rparr>))"

definition rx_step :: "(('z, 'k) sink \<Rightarrow> ('z, 'k) sink res) \<Rightarrow> ('b, 'z, 'k) net \<Rightarrow> ('b, 'z, 'k) net res" where
  "rx_step f n = res_bind (f (rx n)) (\<lambda>k.
     Inr (n\<lparr>rx := k, ack_path := ack_path n @ drop (length (acks_sent (rx n))) (acks_sent k)\<rparr>))"

type_synonym 'b agent =
  "(time \<Rightarrow> tpkt \<Rightarrow> 'b tcp_scheme \<Rightarrow> 'b tcp_scheme res) \<times>
   (time \<Rightarrow> tcp_timer \<Rightarrow> 'b tcp_scheme \<Rightarrow> 'b tcp_scheme res) \<times> 'b vwindow"

fun net_step :: "'b agent \<Rightarrow> 'z appender \<Rightarrow> time \<Rightarrow> net_act \<Rightarrow> ('b, 'z, 'k) net \<Rightarrow> ('b, 'z, 'k) net res" where
  "net_step (rcv, tmo, v) apd now (Deliver i) n =
     (if i < length (data_path n) \<and> tp_seqno (data_path n ! i) < 2 ^ 30 - 2
      then rx_step (sink_recv apd now (data_path n ! i)) (n\<lparr>data_path := remove_at i (data_path n)\<rparr>) else Inr n)"
| "net_step (rcv, tmo, v) apd now (Drop i) n = Inr (n\<lparr>data_path := remove_at i (data_path n)\<rparr>)"
| "net_step (rcv, tmo, v) apd now (Dup i) n =
     Inr (n\<lparr>data_path := data_path n @ take 1 (drop i (data_path n))\<rparr>)"
| "net_step (rcv, tmo, v) apd now (DeliverAck i) n =
     (if i < length (ack_path n)
      then tx_step (rcv now (ack_path n ! i)) (n\<lparr>ack_path := remove_at i (ack_path n)\<rparr>) else Inr n)"
| "net_step (rcv, tmo, v) apd now (DropAck i) n = Inr (n\<lparr>ack_path := remove_at i (ack_path n)\<rparr>)"
| "net_step (rcv, tmo, v) apd now (DupAck i) n =
     Inr (n\<lparr>ack_path := ack_path n @ take 1 (drop i (ack_path n))\<rparr>)"
| "net_step (rcv, tmo, v) apd now RtxExpires n =
     (if pending (rtx_timer (tx n)) then tx_step (rtx_timer_handle (tmo now)) n else Inr n)"
| "net_step (rcv, tmo, v) apd now DelsndExpires n =
     (if pending (delsnd_timer (tx n)) then tx_step (delsnd_timer_handle (tmo now)) n else Inr n)"
| "net_step (rcv, tmo, v) apd now (Supply k) n = tx_step (advanceby v now k) n"

fun net_run :: "'b agent \<Rightarrow> 'z appender \<Rightarrow> (time \<times> net_act) list \<Rightarrow> ('b, 'z, 'k) net \<Rightarrow> ('b, 'z, 'k) net res" where
  "net_run ag apd [] n = Inr n"
| "net_run ag apd ((now, a) # as) n = res_bind (net_step ag apd now a n) (net_run ag apd as)"

definition act_ok :: "time \<Rightarrow> time \<times> net_act \<Rightarrow> bool" where
  "act_ok T a \<longleftrightarrow> T \<le> fst a \<and> (case snd a of Supply k \<Rightarrow> 0 \<le> k | _ \<Rightarrow> True)"

definition done_calls :: "'b tcp_scheme \<Rightarrow> nat" where
  "done_calls s = count_list (notices s) Done"

lemma set_remove_at: "set (remove_at i xs) \<subseteq> set xs"
  unfolding remove_at_def using set_take_subset [of i xs] set_drop_subset [of "Suc i" xs] by auto

lemma set_dup: "set (xs @ take 1 (drop i xs)) \<subseteq> set xs"
  using set_take_subset [of 1 "drop i xs"] set_drop_subset [of i xs] by auto

lemma net_run_append: "net_run ag apd (xs @ ys) n = res_bind (net_run ag apd xs n) (net_run ag apd ys)"
proof (induction xs arbitrary: n)
  case (Cons x xs)
  obtain now a where "x = (now, a)" by fastforce
  with Cons show ?case by (cases "net_step ag apd now a n") simp_all
qed simp

subsection \<open>The contract of a sender\<close>

definition net_inv ::
  "('b tcp_scheme \<Rightarrow> bool) \<Rightarrow> ('z acker_scheme \<Rightarrow> (int \<Rightarrow> int) \<Rightarrow> bool) \<Rightarrow> time \<Rightarrow> (int \<Rightarrow> int) \<Rightarrow> ('b, 'z, 'k) net \<Rightarrow> bool" where
  "net_inv sinv ext T h n \<longleftrightarrow>
     sinv (tx n) \<and> tlastreset (tx n) \<le> T \<and> lastreset (rx n) \<le> T \<and> sink_rep ext 0 0 h (rx n) \<and>
     (\<forall>i. h i \<noteq> 0 \<longrightarrow> 0 \<le> i \<and> i \<le> maxseq (tx n)) \<and> highest_ack (tx n) < next_seq (acker_obj (rx n)) \<and>
     (\<forall>p\<in>set (data_path n). 0 \<le> tp_seqno p \<and> tp_seqno p \<le> maxseq (tx n) \<and> 0 < tp_size p \<and> T \<le> tp_ts p) \<and>
     (\<forall>q\<in>set (ack_path n). tp_seqno q < next_seq (acker_obj (rx n)) \<and> T \<le> tp_ts q)"

definition done_right :: "('b, 'z, 'k) net \<Rightarrow> ('b, 'z, 'k) net \<Rightarrow> bool" where
  "done_right n n' \<longleftrightarrow>
     (done_calls (tx n) < done_calls (tx n') \<longrightarrow>
      0 \<le> maxseq (tx n') \<and> curseq (tx n') \<le> highest_ack (tx n') + 1 \<and> curseq (tx n') \<le> next_seq (acker_obj (rx n')))"

lemma evolves_done:
  assumes "evolves now s t" "done_calls s < done_calls t"
  shows "0 \<le> maxseq t \<and> curseq t \<le> highest_ack t + 1"
proof -
  obtain ns where ns: "notices t = notices s @ ns" "Done \<in> set ns \<longrightarrow> 0 \<le> maxseq t \<and> curseq t \<le> highest_ack t + 1"
    using assms(1) by (auto simp: evolves_def notifies_def)
  have "0 < count_list ns Done" using assms(2) ns(1) by (simp add: done_calls_def)
  then have "Done \<in> set ns" by (metis count_notin neq0_conv)
  with ns(2) show ?thesis by blast
qed

lemma next_seq_mono:
  assumes "acker_rep a h" "acker_rep b h'" "\<And>i. h i \<noteq> 0 \<Longrightarrow> h' i \<noteq> 0"
  shows "next_seq a \<le> next_seq b"
proof (rule ccontr)
  assume "\<not> next_seq a \<le> next_seq b"
  moreover have "0 \<le> next_seq b" "h' (next_seq b) = 0" using assms(2) by (simp_all add: acker_rep_def acker_mid_def acker_win_def)
  ultimately show False using assms(1,3) by (auto simp: acker_rep_def acker_mid_def)
qed

lemma next_seq_sent:
  assumes "net_inv sinv ext T h n" "snd_ok (tx n)"
  shows "next_seq (acker_obj (rx n)) \<le> maxseq (tx n) + 1"
proof (rule ccontr)
  let ?m = "next_seq (acker_obj (rx n))"
  assume "\<not> ?m \<le> maxseq (tx n) + 1"
  then have "maxseq (tx n) < ?m - 1" "0 \<le> ?m - 1" using assms(2) by (auto simp: snd_ok_def)
  moreover from this have "h (?m - 1) \<noteq> 0" using assms(1) by (simp add: net_inv_def sink_rep_def acker_rep_def acker_mid_def)
  ultimately show False using assms(1) unfolding net_inv_def by force
qed

definition fits :: "('b tcp_scheme \<Rightarrow> bool) \<Rightarrow> time \<Rightarrow> seq_t \<Rightarrow> ('b, 'z, 'k) net \<Rightarrow> 'b tcp_scheme \<Rightarrow> bool" where
  "fits sinv now c n s \<longleftrightarrow>
     evolves now ((tx n)\<lparr>curseq := c\<rparr>) s \<and> sinv s \<and> highest_ack s < next_seq (acker_obj (rx n))"

locale sender =
  fixes rcv :: "time \<Rightarrow> tpkt \<Rightarrow> 'b tcp_scheme \<Rightarrow> 'b tcp_scheme res"
    and tmo :: "time \<Rightarrow> tcp_timer \<Rightarrow> 'b tcp_scheme \<Rightarrow> 'b tcp_scheme res"
    and v :: "'b vwindow"
    and sinv :: "'b tcp_scheme \<Rightarrow> bool"
  assumes inv_snd: "sinv s \<Longrightarrow> snd_ok s"
    and rcv_ok: "sinv s \<Longrightarrow> tp_seqno p \<le> maxseq s \<Longrightarrow> returns (rcv now p s) (\<lambda>t. recv_to now p s t \<and> sinv t)"
    and rtx_ok: "sinv s \<Longrightarrow> pending (rtx_timer s) \<Longrightarrow>
      returns (rtx_timer_handle (tmo now) s) (\<lambda>t. hand_to now s t \<and> sinv t)"
    and del_ok: "sinv s \<Longrightarrow> pending (delsnd_timer s) \<Longrightarrow>
      returns (delsnd_timer_handle (tmo now) s) (\<lambda>t. hand_to now s t \<and> sinv t)"
    and supply_ok: "sinv s \<Longrightarrow> 0 \<le> k \<Longrightarrow>
      returns (advanceby v now k s) (\<lambda>t. hand_to now (s\<lparr>curseq := curseq s + k\<rparr>) t \<and> sinv t)"

locale transfer = sender rcv tmo v sinv + sink_acker append_ack ext_ok
  for rcv :: "time \<Rightarrow> tpkt \<Rightarrow> 'b tcp_scheme \<Rightarrow> 'b tcp_scheme res" and tmo v sinv
    and append_ack :: "'z appender" and ext_ok
begin

text \<open>What the sender's operations do to the network.\<close>

lemma recv_to_net:
  assumes n: "net_inv sinv ext_ok T h n" and T: "T \<le> now" and s: "sinv s" "evolves now ((tx n)\<lparr>curseq := c\<rparr>) s"
    "highest_ack s < next_seq (acker_obj (rx n))"
  shows "net_inv sinv ext_ok T h (n\<lparr>tx := s, data_path := data_path n @ drop (length (out (tx n))) (out s)\<rparr>)"
proof -
  obtain ps where ps: "out s = out (tx n) @ ps" "\<forall>p\<in>set ps. good_pkt now (maxseq s) p"
    using s(2) by (auto simp: evolves_def sends_def)
  have g: "maxseq (tx n) \<le> maxseq s" "tlastreset s = tlastreset (tx n)" using s(2) by (simp_all add: evolves_def grows_def)
  have "0 \<le> i \<and> i \<le> maxseq s" if "h i \<noteq> 0" for i
    using n that g(1) unfolding net_inv_def by (meson order_trans)
  moreover have "0 \<le> tp_seqno p \<and> tp_seqno p \<le> maxseq s \<and> 0 < tp_size p \<and> T \<le> tp_ts p" if "p \<in> set (data_path n)" for p
    using n that g(1) unfolding net_inv_def by (meson order_trans)
  moreover have "0 \<le> tp_seqno p \<and> tp_seqno p \<le> maxseq s \<and> 0 < tp_size p \<and> T \<le> tp_ts p" if "p \<in> set ps" for p
    using ps(2) that T by (auto simp: good_pkt_def)
  ultimately show ?thesis using n s(1,3) g(2) ps(1) by (simp add: net_inv_def) blast
qed

lemma tx_step_ok:
  assumes n: "net_inv sinv ext_ok T h n" and T: "T \<le> now"
    and f: "returns (f (tx n)) (\<lambda>s. fits sinv now c n s \<and> P s)"
  shows "returns (tx_step f n) (\<lambda>n'. net_inv sinv ext_ok T h n' \<and> done_right n n' \<and> P (tx n') \<and> rx n' = rx n \<and>
    ack_path n' = ack_path n \<and> data_path n' = data_path n @ drop (length (out (tx n))) (out (tx n')))"
  unfolding tx_step_def
proof (rule returns_bind [OF f])
  fix s assume s: "fits sinv now c n s \<and> P s"
  then have "done_right n (n\<lparr>tx := s, data_path := d\<rparr>)" for d
    using evolves_done [of now "(tx n)\<lparr>curseq := c\<rparr>" s] by (auto simp: fits_def done_right_def done_calls_def)
  then show "returns (Inr (n\<lparr>tx := s, data_path := data_path n @ drop (length (out (tx n))) (out s)\<rparr>))
      (\<lambda>n'. net_inv sinv ext_ok T h n' \<and> done_right n n' \<and> P (tx n') \<and> rx n' = rx n \<and> ack_path n' = ack_path n \<and>
         data_path n' = data_path n @ drop (length (out (tx n))) (out (tx n')))"
    using recv_to_net [OF n T, of s c] s by (simp add: fits_def)
qed

text \<open>A packet reaches the sink.\<close>

lemma rx_step_ok:
  assumes n: "net_inv sinv ext_ok T h n" and T: "T \<le> now"
    and p: "0 \<le> tp_seqno p" "tp_seqno p \<le> maxseq (tx n)" "0 < tp_size p" "T \<le> tp_ts p" "tp_seqno p < 2 ^ 30 - 2"
  shows "returns (rx_step (sink_recv append_ack now p) n) (\<lambda>n'. \<exists>q. net_inv sinv ext_ok T (sink_receive p (rx n) h) n' \<and> tx n' = tx n \<and>
    data_path n' = data_path n \<and> ack_path n' = ack_path n @ [q] \<and> tp_seqno q = Seqno (acker_obj (rx n')))"
proof -
  let ?h = "sink_receive p (rx n) h"
  have ok: "tpkt_ok p" "lastreset (rx n) \<le> tp_ts p" using p n by (auto simp: tpkt_ok_def net_inv_def)
  have rep: "sink_rep ext_ok 0 0 h (rx n)" using n by (simp add: net_inv_def)
  then obtain k q where k: "sink_recv append_ack now p (rx n) = Inr k" "sink_rep ext_ok 0 0 ?h k" "sink_frame (rx n) k"
    "acks_sent k = acks_sent (rx n) @ [q]" "tp_seqno q = Seqno (acker_obj k)" "tp_ts q = now"
    using sink_recv_ok [OF rep ok, of now] by blast
  have h: "?h i \<noteq> 0 \<longleftrightarrow> h i \<noteq> 0 \<or> i = tp_seqno p" for i
    using rep by (intro receive_iff [OF _ ok(1)]) (simp add: sink_rep_def)
  have m: "next_seq (acker_obj (rx n)) \<le> next_seq (acker_obj k)"
    using rep k(2) h by (intro next_seq_mono [of _ h _ ?h]) (simp_all add: sink_rep_def)
  let ?n = "n\<lparr>rx := k, ack_path := ack_path n @ [q]\<rparr>"
  have "tp_seqno x < next_seq (acker_obj k) \<and> T \<le> tp_ts x" if "x \<in> set (ack_path n)" for x
    using n that m unfolding net_inv_def by fastforce
  moreover have "tp_seqno q < next_seq (acker_obj k) \<and> T \<le> tp_ts q" using k(5,6) T by (simp add: Seqno_def)
  moreover have "0 \<le> i \<and> i \<le> maxseq (tx n)" if "?h i \<noteq> 0" for i
    using n that h [of i] p(1,2) unfolding net_inv_def by blast
  ultimately have "net_inv sinv ext_ok T ?h ?n"
    using n k(2,3) m unfolding net_inv_def sink_frame_def by auto
  then show ?thesis using k(1,4,5) by (simp add: rx_step_def)
qed

lemma net_inv_paths:
  assumes "net_inv sinv ext_ok T h n" "set d \<subseteq> set (data_path n)" "set a \<subseteq> set (ack_path n)"
  shows "net_inv sinv ext_ok T h (n\<lparr>data_path := d, ack_path := a\<rparr>)"
  using assms by (auto simp: net_inv_def subset_iff)

lemma net_inv_ack:
  assumes n: "net_inv sinv ext_ok T h n" and q: "tp_seqno q < next_seq (acker_obj (rx n))"
  shows "returns (rcv now q (tx n)) (\<lambda>s. fits sinv now (curseq (tx n)) n s \<and>
    (T \<le> tp_ts q \<longrightarrow> highest_ack s = max (highest_ack (tx n)) (tp_seqno q)))"
proof -
  have i: "sinv (tx n)" using n by (simp add: net_inv_def)
  have m: "tp_seqno q \<le> maxseq (tx n)" using q next_seq_sent [OF n inv_snd [OF i]] by simp
  show ?thesis
    by (rule returns_mono [OF rcv_ok [OF i m]]) (use n q in \<open>auto simp: fits_def recv_to_def net_inv_def max_def\<close>)
qed

lemma hand_net:
  assumes "net_inv sinv ext_ok T h n" "returns m (\<lambda>t. hand_to now ((tx n)\<lparr>curseq := c\<rparr>) t \<and> sinv t \<and> P t)"
  shows "returns m (\<lambda>s. fits sinv now c n s \<and> P s)"
  by (rule returns_mono [OF assms(2)]) (use assms(1) in \<open>auto simp: fits_def hand_to_def net_inv_def\<close>)

abbreviation (input) kept :: "time \<Rightarrow> ('b, 'z, 'k) net \<Rightarrow> bool" where
  "kept T n \<equiv> \<exists>h. net_inv sinv ext_ok T h n"

lemma done_right_same: "tx n' = tx n \<Longrightarrow> done_right n n'"
  by (simp add: done_right_def)

lemma tx_step_kept:
  assumes "net_inv sinv ext_ok T h n" "T \<le> now"
    and "returns (f (tx n)) (\<lambda>s. fits sinv now c n s \<and> P s)"
  shows "returns (tx_step f n) (\<lambda>n'. kept T n' \<and> done_right n n')"
  by (rule returns_mono [OF tx_step_ok [where f = f, OF assms]]) blast

lemma deliver_ok:
  assumes n: "net_inv sinv ext_ok T h n" and T: "T \<le> now" and i: "i < length (data_path n)" "tp_seqno (data_path n ! i) < 2 ^ 30 - 2"
  shows "returns (net_step (rcv, tmo, v) append_ack now (Deliver i) n) (\<lambda>n'. \<exists>q.
    net_inv sinv ext_ok T (sink_receive (data_path n ! i) (rx n) h) n' \<and> tx n' = tx n \<and>
    ack_path n' = ack_path n @ [q] \<and> tp_seqno q = Seqno (acker_obj (rx n')))"
proof -
  let ?p = "data_path n ! i" and ?n = "n\<lparr>data_path := remove_at i (data_path n)\<rparr>"
  have p: "?p \<in> set (data_path n)" using i(1) by simp
  have "net_inv sinv ext_ok T h ?n"
    using net_inv_paths [OF n set_remove_at [of i] subset_refl] by simp
  from rx_step_ok [OF this T, of ?p] p n i(2)
  have "returns (rx_step (sink_recv append_ack now ?p) ?n) (\<lambda>n'. \<exists>q. net_inv sinv ext_ok T (sink_receive ?p (rx ?n) h) n' \<and> tx n' = tx ?n \<and>
    data_path n' = data_path ?n \<and> ack_path n' = ack_path ?n @ [q] \<and> tp_seqno q = Seqno (acker_obj (rx n')))"
    by (simp add: net_inv_def)
  then show ?thesis unfolding net_step.simps if_P [OF conjI [OF i]] by (rule returns_mono) auto
qed

lemma deliver_ack_ok:
  assumes n: "net_inv sinv ext_ok T h n" and T: "T \<le> now" and i: "i < length (ack_path n)"
  shows "returns (net_step (rcv, tmo, v) append_ack now (DeliverAck i) n) (\<lambda>n'. net_inv sinv ext_ok T h n' \<and> done_right n n' \<and>
    highest_ack (tx n') = max (highest_ack (tx n)) (tp_seqno (ack_path n ! i)) \<and> evolves now (tx n) (tx n'))"
proof -
  let ?q = "ack_path n ! i" and ?n = "n\<lparr>ack_path := remove_at i (ack_path n)\<rparr>"
  have q: "?q \<in> set (ack_path n)" using i by simp
  then have q': "tp_seqno ?q < next_seq (acker_obj (rx ?n))" "T \<le> tp_ts ?q" using n by (auto simp: net_inv_def)
  have n': "net_inv sinv ext_ok T h ?n" using net_inv_paths [OF n subset_refl set_remove_at [of i]] by simp
  have dr: "done_right ?n = done_right n" by (simp add: fun_eq_iff done_right_def)
  have "returns (rcv now ?q (tx ?n)) (\<lambda>s. fits sinv now (curseq (tx ?n)) ?n s \<and>
    (evolves now (tx n) s \<and> highest_ack s = max (highest_ack (tx n)) (tp_seqno ?q)))"
    by (rule returns_mono [OF net_inv_ack [OF n' q'(1)]]) (use q'(2) in \<open>auto simp: fits_def simp del: max_less_iff_conj\<close>)
  from tx_step_ok [where f = "rcv now ?q", OF n' T this] show ?thesis
    unfolding net_step.simps if_P [OF i] dr by (rule returns_mono) blast
qed

lemma timer_net:
  assumes n: "net_inv sinv ext_ok T h n"
  shows "pending (rtx_timer (tx n)) \<Longrightarrow> returns (rtx_timer_handle (tmo now) (tx n))
      (\<lambda>s. fits sinv now (curseq (tx n)) n s \<and> hand_to now (tx n) s)"
    and "pending (delsnd_timer (tx n)) \<Longrightarrow> returns (delsnd_timer_handle (tmo now) (tx n))
      (\<lambda>s. fits sinv now (curseq (tx n)) n s \<and> hand_to now (tx n) s)"
proof -
  have i: "sinv (tx n)" using n by (simp add: net_inv_def)
  show "pending (rtx_timer (tx n)) \<Longrightarrow> returns (rtx_timer_handle (tmo now) (tx n))
      (\<lambda>s. fits sinv now (curseq (tx n)) n s \<and> hand_to now (tx n) s)"
    by (rule hand_net [OF n], rule returns_mono [OF rtx_ok [OF i]]) simp_all
  show "pending (delsnd_timer (tx n)) \<Longrightarrow> returns (delsnd_timer_handle (tmo now) (tx n))
      (\<lambda>s. fits sinv now (curseq (tx n)) n s \<and> hand_to now (tx n) s)"
    by (rule hand_net [OF n], rule returns_mono [OF del_ok [OF i]]) simp_all
qed

lemma supply_net:
  assumes n: "net_inv sinv ext_ok T h n" and k: "0 \<le> k"
  shows "returns (advanceby v now k (tx n)) (\<lambda>s. fits sinv now (curseq (tx n) + k) n s \<and> True)"
proof -
  have i: "sinv (tx n)" using n by (simp add: net_inv_def)
  show ?thesis by (rule hand_net [OF n], rule returns_mono [OF supply_ok [OF i k]]) simp
qed

lemma net_step_ok:
  assumes n: "net_inv sinv ext_ok T h n" and a: "act_ok T (now, a)"
  shows "returns (net_step (rcv, tmo, v) append_ack now a n) (\<lambda>n'. kept T n' \<and> done_right n n')"
proof -
  have T: "T \<le> now" using a by (simp add: act_ok_def)
  have same: "kept T n \<and> done_right n n" using n by (auto intro: done_right_same)
  have paths: "kept T (n\<lparr>data_path := d\<rparr>) \<and> done_right n (n\<lparr>data_path := d\<rparr>)" if "set d \<subseteq> set (data_path n)" for d
    using net_inv_paths [OF n that subset_refl] by (auto intro: done_right_same)
  have paths': "kept T (n\<lparr>ack_path := d\<rparr>) \<and> done_right n (n\<lparr>ack_path := d\<rparr>)" if "set d \<subseteq> set (ack_path n)" for d
    using net_inv_paths [OF n subset_refl that] by (auto intro: done_right_same)
  show ?thesis
  proof (cases a)
    case (Deliver i)
    show ?thesis
    proof (cases "i < length (data_path n) \<and> tp_seqno (data_path n ! i) < 2 ^ 30 - 2")
      case True
      then show ?thesis
        unfolding Deliver using deliver_ok [OF n T] by (elim conjE) (rule returns_mono, blast, blast intro: done_right_same)
    qed (use same Deliver in auto)
  next
    case (DeliverAck i)
    show ?thesis
    proof (cases "i < length (ack_path n)")
      case True
      show ?thesis unfolding DeliverAck by (rule returns_mono [OF deliver_ack_ok [OF n T True]]) blast
    qed (use same DeliverAck in simp)
  next
    case RtxExpires
    then show ?thesis using tx_step_kept [where f = "rtx_timer_handle (tmo now)", OF n T timer_net(1) [OF n]] same by simp
  next
    case DelsndExpires
    then show ?thesis using tx_step_kept [where f = "delsnd_timer_handle (tmo now)", OF n T timer_net(2) [OF n]] same by simp
  next
    case (Supply k)
    then have "0 \<le> k" using a by (simp add: act_ok_def)
    from tx_step_kept [where f = "advanceby v now k", OF n T supply_net [OF n this]] Supply show ?thesis by simp
  next
    case (Drop i)
    then show ?thesis using paths [OF set_remove_at] by simp
  next
    case (Dup i)
    then show ?thesis using paths [OF set_dup [of "data_path n" i]] by simp
  next
    case (DropAck i)
    then show ?thesis using paths' [OF set_remove_at] by simp
  next
    case (DupAck i)
    then show ?thesis using paths' [OF set_dup [of "ack_path n" i]] by simp
  qed
qed

lemma net_run_ok:
  assumes "kept T n" "\<forall>a\<in>set acts. act_ok T a"
  shows "returns (net_run (rcv, tmo, v) append_ack acts n) (kept T)"
  using assms
proof (induction acts arbitrary: n)
  case (Cons x acts)
  obtain now a where x: "x = (now, a)" by fastforce
  obtain h where h: "net_inv sinv ext_ok T h n" using Cons.prems(1) by blast
  have "returns (net_step (rcv, tmo, v) append_ack now a n) (\<lambda>n'. kept T n' \<and> done_right n n')"
    using Cons.prems(2) x by (intro net_step_ok [OF h]) simp
  then have "returns (res_bind (net_step (rcv, tmo, v) append_ack now a n) (net_run (rcv, tmo, v) append_ack acts)) (kept T)"
    by (rule returns_bind) (use Cons in simp)
  then show ?case unfolding x net_run.simps .
qed simp

end

end
