(* ===== verification/Tcp_Progress.thy ===== *)
theory Tcp_Progress
  imports Tcp_Transfer
begin

section \<open>Every transfer can complete\<close>

text \<open>
  From any state of the network, also after the loss of everything under way, the timers of a
  sender that wakes up and a network that delivers again complete the transfer: a timeout sends the
  first unacknowledged packet, the sink answers, and the acknowledgement advances.
\<close>

subsection \<open>Runs\<close>

definition can_reach ::
  "'b agent \<Rightarrow> 'z appender \<Rightarrow> time \<Rightarrow> ('b, 'z, 'k) net \<Rightarrow> ('b, 'z, 'k) net \<Rightarrow> bool" where
  "can_reach ag apd now n n' \<longleftrightarrow>
     (\<exists>acts. (\<forall>a\<in>set acts. \<forall>k. a \<noteq> Supply k) \<and> net_run ag apd (map (Pair now) acts) n = Inr n')"

lemma can_reach_refl [simp]: "can_reach ag apd now n n"
  unfolding can_reach_def by (intro exI [of _ "[]"]) simp

lemma can_reach_trans:
  assumes "can_reach ag apd now n m" "can_reach ag apd now m l"
  shows "can_reach ag apd now n l"
proof -
  obtain xs ys where "\<forall>a\<in>set xs. \<forall>k. a \<noteq> Supply k" "net_run ag apd (map (Pair now) xs) n = Inr m"
    "\<forall>a\<in>set ys. \<forall>k. a \<noteq> Supply k" "net_run ag apd (map (Pair now) ys) m = Inr l"
    using assms unfolding can_reach_def by (elim exE conjE)
  then show ?thesis unfolding can_reach_def by (intro exI [of _ "xs @ ys"]) (auto simp: net_run_append)
qed

lemma can_reach_step: "net_step ag apd now a n = Inr m \<Longrightarrow> \<forall>k. a \<noteq> Supply k \<Longrightarrow> can_reach ag apd now n m"
  unfolding can_reach_def by (intro exI [of _ "[a]"]) simp

lemma returns_conj: "returns m P \<Longrightarrow> returns m Q \<Longrightarrow> returns m (\<lambda>x. P x \<and> Q x)"
  by (auto simp: returns_def)

subsection \<open>Senders that wake up\<close>

locale live_sender = sender rcv tmo v sinv
  for rcv :: "time \<Rightarrow> tpkt \<Rightarrow> 'b tcp_scheme \<Rightarrow> 'b tcp_scheme res" and tmo v sinv +
  assumes wakes: "sinv s \<Longrightarrow> highest_ack s + 1 < curseq s \<Longrightarrow>
      pending (rtx_timer s) \<or> pending (delsnd_timer s) \<and> t_seqno s = highest_ack s + 1"
    and rtx_resends: "sinv s \<Longrightarrow> highest_ack s + 1 < curseq s \<Longrightarrow> pending (rtx_timer s) \<Longrightarrow>
      returns (rtx_timer_handle (tmo now) s) (resends s)"
    and del_sends: "sinv s \<Longrightarrow> highest_ack s + 1 < curseq s \<Longrightarrow> pending (delsnd_timer s) \<Longrightarrow>
      t_seqno s = highest_ack s + 1 \<Longrightarrow>
      returns (delsnd_timer_handle (tmo now) s) (first_sent (highest_ack s + 1) s)"

locale live_transfer = transfer rcv tmo v sinv append_ack ext_ok + live_sender rcv tmo v sinv
  for rcv :: "time \<Rightarrow> tpkt \<Rightarrow> 'b tcp_scheme \<Rightarrow> 'b tcp_scheme res" and tmo v sinv
    and append_ack :: "'z appender" and ext_ok
begin

abbreviation (input) reach :: "time \<Rightarrow> ('b, 'z, 'k) net \<Rightarrow> ('b, 'z, 'k) net \<Rightarrow> bool" where
  "reach \<equiv> can_reach (rcv, tmo, v) append_ack"

text \<open>The first unacknowledged packet is under way.\<close>

definition underway :: "('b, 'z, 'k) net \<Rightarrow> bool" where
  "underway n \<longleftrightarrow> (\<exists>i<length (data_path n). tp_seqno (data_path n ! i) = highest_ack (tx n) + 1)"

lemma first_sent_underway:
  assumes "first_sent (highest_ack s + 1) s (tx n)" "data_path n = d @ drop (length (out s)) (out (tx n))"
    "highest_ack (tx n) = highest_ack s"
  shows "underway n"
proof -
  obtain p ps where "out (tx n) = out s @ p # ps" "tp_seqno p = highest_ack s + 1"
    using assms(1) by (auto simp: first_sent_def)
  then show ?thesis using assms(2,3) unfolding underway_def by (intro exI [of _ "length d"]) simp
qed

lemma delsnd_round:
  assumes n: "net_inv sinv ext_ok T h n" and T: "T \<le> now" and l: "highest_ack (tx n) + 1 < curseq (tx n)"
    and d: "pending (delsnd_timer (tx n))" "t_seqno (tx n) = highest_ack (tx n) + 1"
  shows "\<exists>m. reach now n m \<and> net_inv sinv ext_ok T h m \<and> underway m \<and> hand_to now (tx n) (tx m)"
proof -
  have i: "sinv (tx n)" using n by (simp add: net_inv_def)
  have "returns (delsnd_timer_handle (tmo now) (tx n)) (\<lambda>s. fits sinv now (curseq (tx n)) n s \<and>
      (hand_to now (tx n) s \<and> first_sent (highest_ack (tx n) + 1) (tx n) s))"
    using returns_conj [OF timer_net(2) [OF n d(1)] del_sends [OF i l d]] by (rule returns_mono) blast
  from tx_step_ok [where f = "delsnd_timer_handle (tmo now)", OF n T this] obtain m where
    m: "tx_step (delsnd_timer_handle (tmo now)) n = Inr m" "net_inv sinv ext_ok T h m" "hand_to now (tx n) (tx m)"
      "first_sent (highest_ack (tx n) + 1) (tx n) (tx m)" "data_path m = data_path n @ drop (length (out (tx n))) (out (tx m))"
    by (elim returnsE conjE)
  have "reach now n m" using m(1) d(1) by (intro can_reach_step [of _ _ _ DelsndExpires]) simp_all
  moreover have "underway m" using m(3) by (intro first_sent_underway [OF m(4,5)]) (simp add: hand_to_def)
  ultimately show ?thesis using m(2,3) by blast
qed

lemma rtx_round:
  assumes n: "net_inv sinv ext_ok T h n" and T: "T \<le> now" and l: "highest_ack (tx n) + 1 < curseq (tx n)"
    and d: "pending (rtx_timer (tx n))"
  shows "\<exists>m. reach now n m \<and> net_inv sinv ext_ok T h m \<and> underway m \<and> hand_to now (tx n) (tx m)"
proof -
  have i: "sinv (tx n)" using n by (simp add: net_inv_def)
  have "returns (rtx_timer_handle (tmo now) (tx n)) (\<lambda>s. fits sinv now (curseq (tx n)) n s \<and>
      (hand_to now (tx n) s \<and> resends (tx n) s))"
    using returns_conj [OF timer_net(1) [OF n d] rtx_resends [OF i l d]] by (rule returns_mono) blast
  from tx_step_ok [where f = "rtx_timer_handle (tmo now)", OF n T this] obtain m where
    m: "tx_step (rtx_timer_handle (tmo now)) n = Inr m" "net_inv sinv ext_ok T h m" "hand_to now (tx n) (tx m)"
      "resends (tx n) (tx m)" "data_path m = data_path n @ drop (length (out (tx n))) (out (tx m))"
    by (elim returnsE conjE)
  have r: "reach now n m" using m(1) d by (intro can_reach_step [of _ _ _ RtxExpires]) simp_all
  have e: "highest_ack (tx m) = highest_ack (tx n)" "curseq (tx n) \<le> curseq (tx m)"
    using m(3) by (simp_all add: hand_to_def evolves_def grows_def)
  show ?thesis
  proof (cases "first_sent (highest_ack (tx n) + 1) (tx n) (tx m)")
    case True
    then have "underway m" by (rule first_sent_underway [OF _ m(5) e(1)])
    then show ?thesis using r m(2,3) by blast
  next
    case False
    then have "pending (delsnd_timer (tx m))" "t_seqno (tx m) = highest_ack (tx m) + 1"
      using m(4) by (simp_all add: resends_def)
    from delsnd_round [OF m(2) T _ this] l e obtain k where
      "reach now m k" "net_inv sinv ext_ok T h k" "underway k" "hand_to now (tx m) (tx k)" by auto
    then show ?thesis using r m(3) can_reach_trans hand_to_trans by blast
  qed
qed

text \<open>A packet is delivered and its acknowledgement returns.\<close>

lemma ack_round:
  assumes n: "net_inv sinv ext_ok T h n" and T: "T \<le> now" and u: "underway n" "highest_ack (tx n) + 1 < 2 ^ 30 - 2"
  shows "\<exists>m h'. reach now n m \<and> net_inv sinv ext_ok T h' m \<and> evolves now (tx n) (tx m) \<and> highest_ack (tx n) < highest_ack (tx m)"
proof -
  obtain i where i: "i < length (data_path n)" "tp_seqno (data_path n ! i) = highest_ack (tx n) + 1"
    using u(1) by (auto simp: underway_def)
  let ?p = "data_path n ! i"
  let ?h = "sink_receive ?p (rx n) h"
  have b: "tp_seqno ?p < 2 ^ 30 - 2" using i(2) u(2) by simp
  from deliver_ok [OF n T i(1) b] obtain k q where
    k: "net_step (rcv, tmo, v) append_ack now (Deliver i) n = Inr k" "net_inv sinv ext_ok T ?h k" "tx k = tx n"
      "ack_path k = ack_path n @ [q]" "tp_seqno q = Seqno (acker_obj (rx k))"
    by (elim returnsE exE conjE)
  have rep: "acker_rep (acker_obj (rx n)) h" "acker_rep (acker_obj (rx k)) ?h"
    using n k(2) by (simp_all add: net_inv_def sink_rep_def)
  have p: "tpkt_ok ?p" using n i(1) b by (simp add: net_inv_def tpkt_ok_def)
  have "next_seq (acker_obj (rx n)) \<le> next_seq (acker_obj (rx k))"
    by (rule next_seq_mono [OF rep]) (use receive_iff [OF rep(1) p] in blast)
  moreover have "?h (highest_ack (tx n) + 1) \<noteq> 0" using receive_iff [OF rep(1) p] i(2) by simp
  then have "next_seq (acker_obj (rx k)) \<noteq> highest_ack (tx n) + 1" using rep(2) by (auto simp: acker_rep_def)
  moreover have "highest_ack (tx n) < next_seq (acker_obj (rx n))" using n by (simp add: net_inv_def)
  ultimately have q: "highest_ack (tx n) < tp_seqno q" using k(5) by (simp add: Seqno_def)
  have a: "length (ack_path n) < length (ack_path k)" using k(4) by simp
  from deliver_ack_ok [OF k(2) T a] obtain m where
    m: "net_step (rcv, tmo, v) append_ack now (DeliverAck (length (ack_path n))) k = Inr m" "net_inv sinv ext_ok T ?h m"
      "highest_ack (tx m) = max (highest_ack (tx k)) (tp_seqno (ack_path k ! length (ack_path n)))" "evolves now (tx k) (tx m)"
    by (elim returnsE conjE)
  have "reach now n m"
    using can_reach_trans [OF can_reach_step [OF k(1)] can_reach_step [OF m(1)]] by simp
  moreover have "highest_ack (tx n) < highest_ack (tx m)" using m(3) q k(3,4) by simp
  ultimately show ?thesis using m(2,4) k(3) by metis
qed

lemma progress:
  assumes n: "net_inv sinv ext_ok T h n" and T: "T \<le> now" and l: "highest_ack (tx n) + 1 < curseq (tx n)" "curseq (tx n) < 2 ^ 30 - 2"
  shows "\<exists>m h'. reach now n m \<and> net_inv sinv ext_ok T h' m \<and> evolves now (tx n) (tx m) \<and> highest_ack (tx n) < highest_ack (tx m)"
proof -
  have i: "sinv (tx n)" using n by (simp add: net_inv_def)
  have "\<exists>k. reach now n k \<and> net_inv sinv ext_ok T h k \<and> underway k \<and> hand_to now (tx n) (tx k)"
    using wakes [OF i l(1)] rtx_round [OF n T l(1)] delsnd_round [OF n T l(1)] by blast
  then obtain k where k: "reach now n k" "net_inv sinv ext_ok T h k" "underway k" "hand_to now (tx n) (tx k)" by blast
  have e: "highest_ack (tx k) = highest_ack (tx n)" "evolves now (tx n) (tx k)" using k(4) by (simp_all add: hand_to_def)
  have "highest_ack (tx k) + 1 < 2 ^ 30 - 2" using e(1) l by simp
  from ack_round [OF k(2) T k(3) this] obtain m h' where
    m: "reach now k m" "net_inv sinv ext_ok T h' m" "evolves now (tx k) (tx m)" "highest_ack (tx k) < highest_ack (tx m)" by blast
  have "reach now n m" by (rule can_reach_trans [OF k(1) m(1)])
  moreover have "evolves now (tx n) (tx m)" by (rule evolves_trans [OF e(2) m(3)])
  ultimately show ?thesis using m(2,4) e(1) by (intro exI [of _ m] exI [of _ h']) simp
qed

lemma completes:
  assumes "net_inv sinv ext_ok T h n" "T \<le> now" "0 \<le> maxseq (tx n)" "curseq (tx n) < 2 ^ 30 - 2"
  shows "\<exists>m h'. reach now n m \<and> net_inv sinv ext_ok T h' m \<and> curseq (tx m) = curseq (tx n) \<and> curseq (tx m) \<le> highest_ack (tx m) + 1"
  using assms
proof (induction "nat (curseq (tx n) - highest_ack (tx n))" arbitrary: n h rule: less_induct)
  case less
  show ?case
  proof (cases "highest_ack (tx n) + 1 < curseq (tx n)")
    case True
    obtain k h' where k: "reach now n k" "net_inv sinv ext_ok T h' k" "evolves now (tx n) (tx k)" "highest_ack (tx n) < highest_ack (tx k)"
      using progress [OF less.prems(1,2) True less.prems(4)] by blast
    have e: "curseq (tx k) = curseq (tx n)" "0 \<le> maxseq (tx k)"
      using k(3) less.prems(3) by (auto simp: evolves_def grows_def)
    have "nat (curseq (tx k) - highest_ack (tx k)) < nat (curseq (tx n) - highest_ack (tx n))" using k(4) e(1) True by simp
    from less.hyps [OF this k(2) less.prems(2) e(2)] e(1) less.prems(4) obtain m h'' where
      "reach now k m" "net_inv sinv ext_ok T h'' m" "curseq (tx m) = curseq (tx n)" "curseq (tx m) \<le> highest_ack (tx m) + 1" by auto
    then show ?thesis using can_reach_trans [OF k(1)] by blast
  next
    case False
    then show ?thesis using less.prems(1) by (intro exI [of _ n] exI [of _ h]) simp
  qed
qed

end

end
