(* ===== verification/Tcp_Sessions.thy ===== *)
theory Tcp_Sessions
  imports Tcp_Progress Tcp_Properties
begin

section \<open>Tahoe and Reno over the network\<close>

text \<open>
  The two senders satisfy the contract of a sender, and Tahoe without ECN that of a sender that
  wakes up, with a plain \<open>TcpSink\<close> and with a SACK sink.
\<close>

subsection \<open>Agents\<close>

definition tahoe_agent :: "'b agent" where
  "tahoe_agent = (tcp_recv tahoe (dupack_action tahoe), tcp_timeout tahoe, tahoe)"

definition reno_agent :: "'b renoext agent" where
  "reno_agent = (reno_recv reno_dupack_action, reno_timeout, reno_vt)"

definition snd_inv :: "'b tcp_scheme \<Rightarrow> bool" where
  "snd_inv s \<longleftrightarrow> snd_ok s \<and> guarded s \<and> \<not> QOption (conf s)"

definition snd_live :: "'b tcp_scheme \<Rightarrow> bool" where
  "snd_live s \<longleftrightarrow> snd_inv s \<and> awake s \<and> \<not> ecn_on (conf s)"

lemma opens_tahoe: "tcp_conf_ok c \<Longrightarrow> opens tahoe c"
  using int_of_double_ge_int [of 1]
  by (auto simp: opens_def tcp_window_def Let_def tcp_conf_ok_def win_conf_ok_def)

lemma hand_conf: "hand_to now s t \<Longrightarrow> conf t = conf s"
  by (simp add: hand_to_def evolves_def grows_def)

lemma recv_conf: "recv_to now p s t \<Longrightarrow> conf t = conf s"
  by (simp add: recv_to_def evolves_def grows_def)

lemma hand_inv: "hand_to now s t \<Longrightarrow> snd_inv s \<Longrightarrow> snd_inv t"
  using hand_conf [of now s t] by (auto simp: hand_to_def snd_inv_def)

lemma recv_inv: "recv_to now p s t \<Longrightarrow> snd_inv s \<Longrightarrow> snd_inv t"
  using recv_conf [of now p s t] by (auto simp: recv_to_def snd_inv_def)

lemma timeout_inv:
  assumes "timeout_to v now s t" "snd_inv s" shows "hand_to now s t \<and> snd_inv t"
  using assms hand_conf [of now s t] unfolding timeout_to_def by (auto simp: snd_inv_def hand_to_def)

lemma supplied_inv:
  assumes "supplied v now k s t" "snd_inv s" shows "hand_to now (s\<lparr>curseq := curseq s + k\<rparr>) t \<and> snd_inv t"
proof -
  have h: "hand_to now (s\<lparr>curseq := curseq s + k\<rparr>) t" using assms(1) by (simp add: supplied_def)
  moreover have "snd_inv (s\<lparr>curseq := curseq s + k\<rparr>)" using assms(2) by (simp add: snd_inv_def snd_ok_def guarded_def)
  ultimately show ?thesis using hand_inv by blast
qed

subsection \<open>Reno\<close>

lemma reno_dupack_hand: "snd_ok s \<Longrightarrow> returns (reno_dupack_action now s) (hand_to now s)"
  by (rule returns_mono [OF reno_dupack_ok]) auto

interpretation reno: sender "reno_recv reno_dupack_action" reno_timeout reno_vt snd_inv
proof (unfold_locales, goal_cases)
  case (1 s)
  then show ?case by (simp add: snd_inv_def)
next
  case (2 s p now)
  have "returns (reno_recv reno_dupack_action now p s) (recv_to now p s)"
    using 2 by (intro reno_recv_ok) (auto simp: snd_inv_def intro: reno_dupack_hand)
  then show ?case by (rule returns_mono) (use 2 recv_inv in auto)
next
  case (3 s now)
  then have "returns (rtx_timer_handle (reno_timeout now) s) (timeout_to reno_vt now s)"
    by (intro rtx_handle_ok reno_timeout_ok(1)) (simp_all add: snd_inv_def)
  then show ?case by (rule returns_mono) (rule timeout_inv [OF _ 3(1)])
next
  case (4 s now)
  then have "returns (delsnd_timer_handle (reno_timeout now) s) (delsnd_to reno_vt now s)"
    by (intro delsnd_handle_ok reno_timeout_ok(2)) (simp_all add: snd_inv_def)
  then show ?case by (rule returns_mono) (use 4 hand_inv in \<open>auto simp: delsnd_to_def\<close>)
next
  case (5 s k now)
  then have "returns (advanceby reno_vt now k s) (supplied reno_vt now k s)" by (intro advanceby_ok) (simp add: snd_inv_def)
  then show ?case by (rule returns_mono) (rule supplied_inv [OF _ 5(1)])
qed

subsection \<open>Tahoe\<close>

lemma tahoe_recv_ok:
  assumes "snd_inv s" "tp_seqno p \<le> maxseq s"
  shows "returns (tcp_recv tahoe (dupack_action tahoe) now p s) (recv_post tahoe now p s)"
  using assms by (intro tcp_recv_ok dupack_action_ok) (simp_all add: snd_inv_def)

lemma tahoe_rtx_ok:
  "snd_ok s \<Longrightarrow> pending (rtx_timer s) \<Longrightarrow> returns (rtx_timer_handle (tcp_timeout tahoe now) s) (timeout_to tahoe now s)"
  by (intro rtx_handle_ok tcp_timeout_ok)

lemma tahoe_delsnd_ok:
  assumes "snd_ok s" "pending (delsnd_timer s)"
  shows "returns (delsnd_timer_handle (tcp_timeout tahoe now) s) (delsnd_to tahoe now s)"
proof -
  have "tcp_timeout tahoe now TCP_TIMER_DELSND t = timeout_nonrtx tahoe now TCP_TIMER_DELSND t" for t :: "'a tcp_scheme"
    by (simp add: tcp_timeout_def)
  then show ?thesis using timeout_nonrtx_ok by (intro delsnd_handle_ok [OF assms]) simp
qed

interpretation tahoe: sender "tcp_recv tahoe (dupack_action tahoe)" "tcp_timeout tahoe" tahoe snd_inv
proof (unfold_locales, goal_cases)
  case (1 s)
  then show ?case by (simp add: snd_inv_def)
next
  case (2 s p now)
  show ?case by (rule returns_mono [OF tahoe_recv_ok [OF 2]]) (use 2 recv_inv in \<open>auto simp: recv_post_def\<close>)
next
  case (3 s now)
  then have "returns (rtx_timer_handle (tcp_timeout tahoe now) s) (timeout_to tahoe now s)"
    by (intro tahoe_rtx_ok) (simp_all add: snd_inv_def)
  then show ?case by (rule returns_mono) (rule timeout_inv [OF _ 3(1)])
next
  case (4 s now)
  then have "returns (delsnd_timer_handle (tcp_timeout tahoe now) s) (delsnd_to tahoe now s)"
    by (intro tahoe_delsnd_ok) (simp_all add: snd_inv_def)
  then show ?case by (rule returns_mono) (use 4 hand_inv in \<open>auto simp: delsnd_to_def\<close>)
next
  case (5 s k now)
  then have "returns (advanceby tahoe now k s) (supplied tahoe now k s)" by (intro advanceby_ok) (simp add: snd_inv_def)
  then show ?case by (rule returns_mono) (rule supplied_inv [OF _ 5(1)])
qed

lemma live_facts:
  fixes s :: "'b tcp_scheme"
  assumes "snd_live s"
  shows "snd_inv s" "snd_ok s" "guarded s" "opens (tahoe :: 'b vwindow) (conf s)" "1 \<le> cwnd (wn s)" "\<not> pending (burstsnd_timer s)"
    "ready tahoe s"
proof -
  show i: "snd_inv s" "snd_ok s" "guarded s" using assms by (simp_all add: snd_live_def snd_inv_def)
  then show o: "opens (tahoe :: 'b vwindow) (conf s)" by (intro opens_tahoe) (simp add: snd_ok_def)
  show "1 \<le> cwnd (wn s)" "\<not> pending (burstsnd_timer s)" using assms by (simp_all add: snd_live_def awake_def)
  show "ready tahoe s" using assms o i by (simp add: ready_def snd_live_def)
qed

lemma live_hand: "hand_to now s t \<Longrightarrow> snd_live s \<Longrightarrow> awake t \<Longrightarrow> snd_live t"
  using hand_inv [of now s t] hand_conf [of now s t] by (simp add: snd_live_def)

lemma timeout_live: "timeout_to v now s t \<Longrightarrow> snd_live s \<Longrightarrow> snd_live t"
  using live_hand [of now s t] by (auto simp: timeout_to_def awake_def hand_to_def snd_live_def)

interpretation tahoe_live: live_sender "tcp_recv tahoe (dupack_action tahoe)" "tcp_timeout tahoe" tahoe snd_live
proof (unfold_locales, goal_cases)
  case (1 s)
  then show ?case by (rule live_facts(2))
next
  case (2 s p now)
  have "returns (tcp_recv tahoe (dupack_action tahoe) now p s) (recv_post tahoe now p s)"
    by (rule tahoe_recv_ok [OF live_facts(1) [OF 2(1)] 2(2)])
  then show ?case
  proof (rule returns_mono)
    fix t assume t: "recv_post tahoe now p s t"
    then have "recv_to now p s t" "awake t" using live_facts(7) [OF 2(1)] by (simp_all add: recv_post_def)
    then show "recv_to now p s t \<and> snd_live t"
      using recv_inv [of now p s t] recv_conf [of now p s t] 2(1) by (simp add: snd_live_def)
  qed
next
  case (3 s now)
  show ?case
    by (rule returns_mono [OF tahoe_rtx_ok [OF live_facts(2) [OF 3(1)] 3(2)]])
      (use timeout_live [OF _ 3(1)] timeout_inv [OF _ live_facts(1) [OF 3(1)]] in blast)
next
  case (4 s now)
  show ?case
    by (rule returns_mono [OF tahoe_delsnd_ok [OF live_facts(2) [OF 4(1)] 4(2)]])
      (use live_facts [OF 4(1)] live_hand [OF _ 4(1)] in \<open>auto simp: delsnd_to_def\<close>)
next
  case (5 s k now)
  show ?case
  proof (rule returns_mono [OF advanceby_ok [OF live_facts(2) [OF 5(1)]]])
    fix t assume t: "supplied tahoe now k s t"
    have "awake t" using t live_facts [OF 5(1)] by (simp add: supplied_def)
    moreover have "conf t = conf s" using t hand_conf by (force simp: supplied_def)
    ultimately show "hand_to now (s\<lparr>curseq := curseq s + k\<rparr>) t \<and> snd_live t"
      using supplied_inv [OF t live_facts(1) [OF 5(1)]] 5(1) by (simp add: snd_live_def)
  qed
next
  case (6 s)
  then show ?case
    using live_facts(2,3) [OF 6(1)] by (auto simp: snd_live_def awake_def guarded_def snd_ok_def)
next
  case (7 s now)
  show ?case
    by (rule returns_mono [OF tahoe_rtx_ok [OF live_facts(2) [OF 7(1)] 7(3)]])
      (use live_facts [OF 7(1)] 7(2) in \<open>simp add: timeout_to_def\<close>)
next
  case (8 s now)
  show ?case
    by (rule returns_mono [OF tahoe_delsnd_ok [OF live_facts(2) [OF 8(1)] 8(3)]])
      (use live_facts [OF 8(1)] 8(2,4) in \<open>simp add: delsnd_to_def\<close>)
qed

subsection \<open>Transfers\<close>

interpretation tahoe_plain: transfer "tcp_recv tahoe (dupack_action tahoe)" "tcp_timeout tahoe" tahoe snd_inv
  acker_append_ack "\<lambda>_ _. True" ..

interpretation reno_plain: transfer "reno_recv reno_dupack_action" reno_timeout reno_vt snd_inv
  acker_append_ack "\<lambda>_ _. True" ..

interpretation reno_sack: transfer "reno_recv reno_dupack_action" reno_timeout reno_vt snd_inv
  sacker_append_ack "sack_ext_ok nb" for nb ..

interpretation tahoe_completes: live_transfer "tcp_recv tahoe (dupack_action tahoe)" "tcp_timeout tahoe" tahoe snd_live
  acker_append_ack "\<lambda>_ _. True" ..

text \<open>The start of a connection, before the application has given any data.\<close>

definition conn_start :: "'b tcp_scheme \<Rightarrow> ('z, 'k) sink \<Rightarrow> ('b, 'z, 'k) net" where
  "conn_start s k = \<lparr>tx = s, rx = k, data_path = [], ack_path = []\<rparr>"

lemma net_inv_start:
  assumes "started T s0 s" "sinv s" "sink_rep ext 0 0 (\<lambda>_. 0) k" "lastreset k \<le> T"
  shows "net_inv sinv ext T (\<lambda>_. 0) (conn_start s k)"
proof -
  have "0 \<le> next_seq (acker_obj k)" using assms(3) by (simp add: sink_rep_def acker_rep_def acker_mid_def acker_win_def)
  then show ?thesis using assms by (simp add: net_inv_def conn_start_def started_def)
qed

lemma started_inv: "started T s0 s \<Longrightarrow> \<not> QOption (conf s0) \<Longrightarrow> snd_inv s"
  by (simp add: started_def snd_inv_def guarded_def)

lemma started_live: "started T s0 s \<Longrightarrow> \<not> QOption (conf s0) \<Longrightarrow> \<not> ecn_on (conf s0) \<Longrightarrow> snd_live s"
  using started_inv [of T s0 s] by (simp add: snd_live_def started_def awake_def)

end
