(* ===== verification/Tcp_Burst.thy ===== *)
theory Tcp_Burst
  imports Tcp_Recovery
begin

section \<open>What \<open>send_much\<close> sends\<close>

text \<open>
  The packets of one call: consecutive, from \<open>t_seqno_\<close> on, within the window and the data, and
  no more than \<open>maxburst\<close>. The window does not change during the call.
\<close>

definition steady :: "'b vwindow \<Rightarrow> bool" where
  "steady v \<longleftrightarrow> (\<forall>s s'. keeps s s' \<longrightarrow> vwin v s' = vwin v s) \<and> (\<forall>s n. vwin v (s\<lparr>t_seqno := n\<rparr>) = vwin v s)"

lemma steady_tahoe: "steady tahoe"
  by (auto simp: steady_def tcp_window_def force_wnd_def Let_def keeps_wn(1)) (auto simp: keeps_def)

lemma keeps_dupwnd: "keeps s s' \<Longrightarrow> dupwnd s' = dupwnd s" for s :: "'b reno_scheme"
  by (cases s; cases s') (simp add: keeps_def)

lemma steady_reno: "steady reno_vt"
  by (auto simp: steady_def reno_window_def force_wnd_def Let_def keeps_wn(1) keeps_dupwnd) (auto simp: keeps_def)

definition burst :: "int \<Rightarrow> int \<Rightarrow> int \<Rightarrow> 'b tcp_scheme \<Rightarrow> 'b tcp_scheme \<Rightarrow> bool" where
  "burst win mb k s s' \<longleftrightarrow>
     (\<exists>ps. out s' = out s @ ps \<and> map tp_seqno ps = [t_seqno s .. t_seqno s' - 1] \<and>
        (ps \<noteq> [] \<longrightarrow> t_seqno s' \<le> highest_ack s + win + 1 \<and> t_seqno s' \<le> curseq s') \<and>
        (0 \<le> k \<and> k < mb \<longrightarrow> k + int (length ps) \<le> mb)) \<and>
     t_seqno s \<le> t_seqno s'"

lemma burst_none: "out s' = out s \<Longrightarrow> t_seqno s' = t_seqno s \<Longrightarrow> burst win mb k s s'"
  by (simp add: burst_def)

lemma send_packet_kept:
  assumes "send_packet v now reason s = Inr s'" "\<not> QOption (conf s)"
  shows "\<exists>u. keeps s u \<and> s' = u\<lparr>t_seqno := t_seqno u + 1\<rparr>"
proof -
  obtain u where u: "tcp_output now (t_seqno s) reason s = Inr u"
    "res_bind (if QOption (conf u) then process_qoption_after_send v now u else Inr u)
      (\<lambda>s. Inr (s\<lparr>t_seqno := t_seqno s + 1\<rparr>)) = Inr s'"
    using assms(1) unfolding send_packet_def by (cases "tcp_output now (t_seqno s) reason s") simp_all
  have k: "keeps s u" using keeps_output [OF u(1)] by blast
  then have "\<not> QOption (conf u)" using assms(2) by (simp add: keeps_def)
  then have "s' = u\<lparr>t_seqno := t_seqno u + 1\<rparr>" using u(2) by simp
  with k show ?thesis by blast
qed

lemma burst_cons:
  assumes p: "out t = out s @ [p]" "tp_seqno p = t_seqno s" "t_seqno t = t_seqno s + 1" "highest_ack t = highest_ack s"
    and r: "t_seqno s \<le> highest_ack s + win" "t_seqno s < curseq t" "curseq t \<le> curseq u"
    and b: "burst win mb (k + 1) t u" "mb \<noteq> 0 \<and> k + 1 = mb \<longrightarrow> u = t"
  shows "burst win mb k s u"
proof -
  obtain ps where ps: "out u = out t @ ps" "map tp_seqno ps = [t_seqno t .. t_seqno u - 1]"
    "ps \<noteq> [] \<longrightarrow> t_seqno u \<le> highest_ack t + win + 1 \<and> t_seqno u \<le> curseq u"
    "0 \<le> k + 1 \<and> k + 1 < mb \<longrightarrow> k + 1 + int (length ps) \<le> mb" "t_seqno t \<le> t_seqno u"
    using b(1) unfolding burst_def by (elim conjE exE)
  have "map tp_seqno (p # ps) = [t_seqno s .. t_seqno u - 1]"
    using ps(2,5) p by (simp add: upto_rec1 [of "t_seqno s"])
  moreover have "t_seqno u \<le> highest_ack s + win + 1 \<and> t_seqno u \<le> curseq u"
  proof (cases "ps = []")
    case True
    then have "t_seqno u \<le> t_seqno t" using ps(2) by simp
    then show ?thesis using r p(3) by simp
  qed (use ps(3) p(4) in simp)
  moreover have "k + int (length (p # ps)) \<le> mb" if "0 \<le> k" "k < mb"
  proof (cases "k + 1 = mb")
    case True
    then have "ps = []" using b(2) ps(1) that(1) by auto
    then show ?thesis using True by simp
  qed (use that ps(4) in auto)
  ultimately show ?thesis
    using ps(1,5) p(1,3) unfolding burst_def by (intro conjI exI [of _ "p # ps"]) simp_all
qed

lemma send_step_sent:
  assumes ok: "snd_ok s" and q: "\<not> QOption (conf s)" and v: "steady v" and st: "send_step v now force reason win s = Inr (True, t)"
  shows "snd_ok t \<and> \<not> QOption (conf t) \<and> vwin v t = vwin v s \<and> t_seqno t = t_seqno s + 1 \<and> highest_ack t = highest_ack s \<and>
    delsnd_timer t = delsnd_timer s \<and> conf t = conf s \<and> curseq s \<le> curseq t \<and> (overhead (conf s) = 0 \<or> force) \<and>
    (\<exists>p. out t = out s @ [p] \<and> tp_seqno p = t_seqno s)"
proof -
  have o: "overhead (conf s) = 0 \<or> force" and sp: "send_packet v now reason s = Inr t"
    using st ok by (auto simp: send_step_def draw_unif_def snd_ok_def split: if_splits)
  obtain u where u: "keeps s u" "t = u\<lparr>t_seqno := t_seqno u + 1\<rparr>" using send_packet_kept [OF sp q] by blast
  have t: "sent_to now s t" "delsnd_timer t = delsnd_timer s" "\<exists>p. out t = out s @ [p] \<and> tp_seqno p = t_seqno s"
    "t_seqno t = t_seqno s + 1"
    using returnsD [OF send_packet_ok [OF ok] sp] by blast+
  have "vwin v t = vwin v s" using v u by (simp add: steady_def)
  moreover have "snd_ok t" "conf t = conf s" using sent_to_conf [OF t(1)] by simp_all
  moreover have "highest_ack t = highest_ack s" "curseq s \<le> curseq t"
    using t(1) by (simp_all add: sent_to_def safe_to_def evolves_def grows_def)
  ultimately show ?thesis using t(2-4) q o by simp
qed

lemma send_step_stops:
  assumes "snd_ok s" "send_step v now force reason win s = Inr (False, t)"
  shows "out t = out s" "t_seqno t = t_seqno s"
proof -
  obtain x where x: "send_packet v now reason s = Inr x" "sent_to now s x"
    by (rule returnsE [OF send_packet_ok [OF assms(1)]]) blast
  then have "\<not> qs_approved (qs x)" using sent_to_conf by (auto simp: snd_ok_def)
  then have "send_step v now force reason win s = Inr (True, x)" if "overhead (conf s) = 0 \<or> force"
    using that x(1) by (auto simp: send_step_def)
  then have "\<not> (overhead (conf s) = 0 \<or> force)" using assms(2) by auto
  then show "out t = out s" "t_seqno t = t_seqno s"
    using assms by (auto simp: send_step_def draw_unif_def delsnd_resched_def tm_resched_ok snd_ok_def split: if_splits)
qed

lemma send_loop_burst:
  assumes "snd_ok s" "\<not> QOption (conf s)" "steady v" "win = vwin v s"
    "send_loop v now force reason mb win k s = Inr s'" "overhead (conf s) = 0 \<or> force \<or> \<not> pending (delsnd_timer s)"
  shows "burst win mb k s s'"
  using assms
proof (induction v now force reason mb win k s rule: send_loop.induct)
  case (1 v now force reason mb win k s)
  show ?case
  proof (cases "t_seqno s \<le> highest_ack s + win \<and> t_seqno s < curseq s")
    case True
    let ?rest = "\<lambda>(go, s). if go
        then if mb \<noteq> 0 \<and> k + 1 = mb then Inr s
             else send_loop v now force reason mb (vwin v s) (k + 1) s
        else Inr s"
    have eq: "send_loop v now force reason mb win k s = res_bind (send_step v now force reason win s) ?rest"
      using True by (simp add: send_loop.simps [of v now force reason mb win k s])
    obtain go t where t: "send_step v now force reason win s = Inr (go, t)" "?rest (go, t) = Inr s'"
      using 1(6) unfolding eq by (cases "send_step v now force reason win s") auto
    show ?thesis
    proof (cases go)
      case go: True
      have ts: "send_step v now force reason win s = Inr (True, t)" using t(1) go by simp
      obtain p where e: "snd_ok t" "\<not> QOption (conf t)" "vwin v t = vwin v s" "t_seqno t = t_seqno s + 1"
        "highest_ack t = highest_ack s" "curseq s \<le> curseq t" "overhead (conf s) = 0 \<or> force" "conf t = conf s"
        "out t = out s @ [p]" "tp_seqno p = t_seqno s"
        using send_step_sent [OF 1(2,3,4) ts] by (elim conjE exE)
      have lt: "t_seqno s < curseq t" using True e(6) by simp
      show ?thesis
      proof (cases "mb \<noteq> 0 \<and> k + 1 = mb")
        case stop: True
        then have "s' = t" using t(2) go by simp
        moreover have "burst win mb (k + 1) t t" by (rule burst_none) simp_all
        ultimately show ?thesis using True lt burst_cons [OF e(9,10,4,5)] by simp
      next
        case False
        then have l: "send_loop v now force reason mb (vwin v t) (k + 1) t = Inr s'" using t(2) go by auto
        have "burst (vwin v t) mb (k + 1) t s'"
          using 1(1) [OF True t(1) refl go False e(1,2) 1(4) refl l] e(7,8) by auto
        then have b: "burst win mb (k + 1) t s'" using e(3) 1(5) by simp
        have "loop_to now force (vwin v t) t s'"
          using returnsD [OF send_loop_ok [OF e(1)] l] e(7,8) by auto
        then have "curseq t \<le> curseq s'" by (simp add: loop_to_def sent_to_def safe_to_def evolves_def grows_def)
        from burst_cons [OF e(9,10,4,5) _ lt this b] True False show ?thesis by simp
      qed
    next
      case False
      then have "send_step v now force reason win s = Inr (False, t)" "s' = t" using t by simp_all
      then show ?thesis using send_step_stops [OF 1(2)] by (intro burst_none) auto
    qed
  next
    case False
    then have "send_loop v now force reason mb win k s = Inr s" by (subst send_loop.simps) (rule if_not_P)
    then show ?thesis using 1(6) by (intro burst_none) simp_all
  qed
qed

lemma send_much_burst:
  assumes ok: "snd_ok s" and q: "\<not> QOption (conf s)" and v: "steady v"
    and f: "\<And>t x. vwin v (t\<lparr>firstsent := x\<rparr>) = vwin v t"
  shows "returns (send_much v now force reason mb s) (burst (vwin v s) mb 0 s)"
proof -
  define t where "t = (if t_seqno s = 0 then s\<lparr>firstsent := now\<rparr> else s)"
  have t: "snd_ok t" "vwin v t = vwin v s" "\<not> QOption (conf t)" "out t = out s" "t_seqno t = t_seqno s"
    "highest_ack t = highest_ack s" "delsnd_timer t = delsnd_timer s" "burstsnd_timer t = burstsnd_timer s"
    using ok f q unfolding t_def by (simp_all add: snd_ok_def)
  obtain s' where s': "send_much v now force reason mb s = Inr s'"
    by (rule returnsE [OF send_much_ok [OF ok]])
  have m: "send_much v now force reason mb s =
      (if \<not> force \<and> pending (delsnd_timer s) then Inr s
       else if pending (burstsnd_timer s) then Inr t
       else send_loop v now force reason mb (vwin v s) 0 t)"
    unfolding send_much_def Let_def t_def [symmetric] t(8) ..
  consider "s' = s" | "s' = t" | "force \<or> \<not> pending (delsnd_timer s)" "send_loop v now force reason mb (vwin v s) 0 t = Inr s'"
    using s' unfolding m by (cases "\<not> force \<and> pending (delsnd_timer s)"; cases "pending (burstsnd_timer s)") auto
  then have "burst (vwin v s) mb 0 s s'"
  proof cases
    case 3
    have "burst (vwin v s) mb 0 t s'"
      by (rule send_loop_burst [OF t(1,3) v t(2) [symmetric] 3(2)]) (use 3(1) t(7) in auto)
    then show ?thesis using t by (simp add: burst_def)
  qed (use t in \<open>simp_all add: burst_none\<close>)
  with s' show ?thesis by simp
qed

end
