(* ===== verification/Sender_Properties.thy ===== *)
theory Sender_Properties
  imports Tcp_Sessions Tcp_Burst
begin

section \<open>Properties of the TCP senders\<close>

text \<open>
  The claims about \<open>tcp.cc\<close> and \<open>tcp-reno.cc\<close>: reliable transfer over any network, its completion,
  the window, retransmission, the estimate of the round-trip time and the growth of the window.
\<close>

subsection \<open>The default configuration\<close>

text \<open>The defaults of \<open>tcl/lib/ns-default.tcl\<close>.\<close>

definition sample_conf :: tcp_conf where
  "sample_conf =
     \<lparr>rc = \<lparr>T_SRTT_BITS = 3, T_RTTVAR_BITS = 2, rttvar_exp = 2, srtt_init = 0, rttvar_init = 12, rtxcur_init = 3,
            tcp_tick = 1 / 100, minrto = 1 / 5, maxrto = 60, rfc2988 = True, ts_option = False\<rparr>,
      wc = \<lparr>wnd = 20, wnd_const = 4, wnd_th = 1 / 500, wnd_option = 1, increase_num = 1, maxcwnd = 0,
            precision_reduce = True, k_parameter = 0, l_parameter = 1, low_window = 38, high_window = 83000,
            high_p = 1 / 10000000, high_decrease = 1 / 10, max_ssthresh = 0, cwnd_range = 0\<rparr>,
      psize = 1000, afid = 1, attl = 32, overhead = 0, numdupacks = 3, tcpip_base_hdr_size = 40, ts_option_size = 10,
      ts_resetRTO = False, timerfix = True, syn = True, delay_growth = True, max_connects = - 1, frto_enabled = False,
      sfrto_enabled = False, spurious_response = 1, bug_fix = True, exitFastRetrans = True, bugfix_ts = False,
      old_ecn = False, bugfix_ss = True, maxburst = 0, aggressive_maxburst = True, slow_start_restart = True,
      restart_bugfix = True, singledup = True, noFastRetrans = False, useHeaders = True, ecn_on = False,
      SetCWRonRetransmit = True, eln_on = False, eln_rxmit_thresh = 1, control_increase = False, QOption = False,
      EnblRTTCtr = False, qs_on = False, rate_request = 0, tcp_qs_recovery = True, qs_request_mode = 1, qs_thresh = 4,
      qs_rtt = 50, rate_function = 2\<rparr>"

definition sample_tcp :: reno where
  "sample_tcp = new_RenoTcpAgent
     \<lparr>conf = sample_conf,
      rt = \<lparr>t_rtt = 0, t_srtt = 0, t_rttvar = 0, t_rtxcur = 0, t_backoff = 0, use_rtt = False, boot_time = 0\<rparr>,
      wn = \<lparr>cwnd = 0, ssthresh = 0, count = 0, fcnt = 0, awnd = 0, wnd_init = 2, wnd_init_option = 1, wnd_restart = 1,
            decrease_num = 1 / 2, first_decrease = True, last_cwnd_action = NO_ACTION, congaction = False,
            ncwndcuts = 0, ncwndcuts1 = 0,
            hs = \<lparr>low_p = 0, dec1 = 0, dec2 = 0, p1 = 0, p2 = 0, cwnd_last = 0, increase_last = 0\<rparr>\<rparr>,
      qs = \<lparr>qs_requested = False, qs_approved = False, qs_window = 0, qs_cwnd = 0, ttl_diff = 0\<rparr>,
      qo = \<lparr>T_last = 0, T_prev = 0, T_start = 0, RTT_count = 0, RTT_prev = 0, RTT_goodcount = 0, F_counting = False,
            W_used = 0, W_timed = 0, F_full = False, Backoffs = 0\<rparr>,
      st = \<lparr>ndatapack = 0, ndatabytes = 0, nackpack = 0, nrexmit = 0, nrexmitpack = 0, nrexmitbytes = 0,
            necnresponses = 0\<rparr>,
      t_seqno = 0, curseq = 0, highest_ack = 0, last_ack = 0, maxseq = 0, recover = 0, prev_highest_ack = 0,
      dupacks = 0, frto = 0, pipe_prev = 0, rtt_active = False, rtt_seq = - 1, rtt_ts = 0, firstsent = 0,
      tlastreset = 0, closed = False, ts_peer = 0, ts_echoed = 0, tss = None, tss_size = 100, syn_connects = 0,
      ecn_burst = False, ecn_backoff = False, ect_on = False, eln_last_rxmit = 0, rtx_timer = new_timer,
      delsnd_timer = new_timer, burstsnd_timer = new_timer, rng_unif = (\<lambda>_. 0), rng_int = (\<lambda>_. 0), drawn = 0,
      out = [], notices = [], dupwnd = 0\<rparr>"

lemma sample_conf_ok: "tcp_conf_ok sample_conf"
  by (simp add: tcp_conf_ok_def sample_conf_def rtt_conf_ok_def win_conf_ok_def)

lemma sample_fresh: "fresh sample_tcp"
  using sample_conf_ok by (simp add: fresh_def sample_tcp_def new_RenoTcpAgent_def new_TcpAgent_def)

lemma sample_off: "\<not> QOption (conf sample_tcp)" "\<not> ecn_on (conf sample_tcp)"
  by (simp_all add: sample_tcp_def new_RenoTcpAgent_def new_TcpAgent_def sample_conf_def)

text \<open>The logarithm and the exponential function have no code; no run below calls them.\<close>

lemma raw_ln_real_code [code]: "raw_ln_real x = raw_ln_real x" ..

lemma exp_code [code]: "exp x = exp x" ..

definition sample_net :: "unit renoext agent \<Rightarrow> (time \<times> net_act) list \<Rightarrow> (unit renoext, unit, unit) net res" where
  "sample_net ag acts = res_bind (tcp_reset 0 sample_tcp) (\<lambda>s.
     net_run ag acker_append_ack acts (conn_start s (plain_sink sample_acker (sample_sink sample_acker))))"

definition net_view :: "(unit renoext, unit, unit) net \<Rightarrow> nat \<times> int \<times> int \<times> int \<times> int" where
  "net_view n = (done_calls (tx n), curseq (tx n), maxseq (tx n), highest_ack (tx n), next_seq (acker_obj (rx n)))"

text \<open>A SYN and two packets, delivered and acknowledged.\<close>

definition sample_acts :: "(time \<times> net_act) list" where
  "sample_acts = [(1, Supply 2), (2, Deliver 0), (3, DeliverAck 0), (4, Deliver 0), (5, DeliverAck 0), (6, Deliver 0)]"

lemma sample_acts_ok: "\<forall>x\<in>set sample_acts. act_ok 0 x"
  by (simp add: sample_acts_def act_ok_def)

definition sample_loss :: "(time \<times> net_act) list" where
  "sample_loss = [(1, Supply 2), (2, Deliver 0), (3, DeliverAck 0), (4, Drop 0)]"

lemma sample_loss_ok: "\<forall>x\<in>set sample_loss. act_ok 0 x"
  by (simp add: sample_loss_def act_ok_def)

lemma sample_view:
  "map_sum id net_view (sample_net reno_agent sample_acts) = Inr (0, 3, 2, 1, 3)"
  "map_sum id net_view (sample_net reno_agent (sample_acts @ [(7, DeliverAck 0)])) = Inr (1, 3, 2, 2, 3)"
  "map_sum id net_view (sample_net tahoe_agent sample_loss) = Inr (0, 3, 2, 0, 1)"
  "map_sum id net_view (sample_net tahoe_agent (sample_loss @ [(4, Drop 0)])) = Inr (0, 3, 2, 0, 1)"
  by code_simp+

subsection \<open>Reliable transfer\<close>

lemma transfer_start:
  assumes "fresh s0" "\<not> QOption (conf s0)" "acks_sent k = []" "0 \<le> T"
  shows "\<exists>s. tcp_reset T s0 = Inr s \<and> started T s0 s \<and>
    net_inv snd_inv (\<lambda>_ _. True) T (\<lambda>_. 0) (conn_start s (plain_sink a k))"
proof -
  obtain s where s: "tcp_reset T s0 = Inr s" "started T s0 s"
    by (rule returnsE [OF tcp_reset_ok [OF assms(1)]])
  have "net_inv snd_inv (\<lambda>_ _. True) T (\<lambda>_. 0) (conn_start s (plain_sink a k))"
    using assms(4) by (intro net_inv_start [OF s(2)] started_inv [OF s(2) assms(2)] sink_rep_plain [OF assms(3)]) simp
  with s show ?thesis by blast
qed

lemma transfer_run:
  assumes ag: "ag = tahoe_agent \<or> ag = reno_agent" and n: "net_inv snd_inv (\<lambda>_ _. True) T h n" and acts: "\<forall>x\<in>set acts. act_ok T x"
  shows "returns (net_run ag acker_append_ack acts n) (\<lambda>n'. \<exists>h. net_inv snd_inv (\<lambda>_ _. True) T h n')"
  using ag tahoe_plain.net_run_ok [OF exI [of _ h], OF n acts] reno_plain.net_run_ok [OF exI [of _ h], OF n acts]
  unfolding tahoe_agent_def reno_agent_def by blast

lemma transfer_step:
  assumes ag: "ag = tahoe_agent \<or> ag = reno_agent" and n: "net_inv snd_inv (\<lambda>_ _. True) T h n" and a: "act_ok T (now, a)"
  shows "returns (net_step ag acker_append_ack now a n) (\<lambda>n'. (\<exists>h. net_inv snd_inv (\<lambda>_ _. True) T h n') \<and> done_right n n')"
  using ag tahoe_plain.net_step_ok [OF n a] reno_plain.net_step_ok [OF n a]
  unfolding tahoe_agent_def reno_agent_def by blast

text \<open>
  (C2) A TCP connection is reliable. Tahoe or Reno sends to a \<open>TcpSink\<close> over a network that loses,
  duplicates and reorders packets and acknowledgements at will, timers expire at any time and the
  application supplies data at any time: every handler returns, and when a step of the network makes
  the sender call \<open>done\<close> (\<open>finish()\<close>), every packet below \<open>curseq_\<close> has been acknowledged and delivered
  by the sink.
\<close>
theorem tcp_done_means_delivered:
  assumes "ag = tahoe_agent \<or> ag = reno_agent" "fresh s0" "\<not> QOption (conf s0)" "acks_sent k = []" "0 \<le> T"
    and "\<forall>x\<in>set acts. act_ok T x" "act_ok T (now, a)"
  shows "\<exists>s n n'. tcp_reset T s0 = Inr s \<and> net_run ag acker_append_ack acts (conn_start s (plain_sink ac k)) = Inr n \<and>
    net_step ag acker_append_ack now a n = Inr n' \<and>
    (done_calls (tx n) < done_calls (tx n') \<longrightarrow>
       curseq (tx n') \<le> highest_ack (tx n') + 1 \<and> curseq (tx n') \<le> next_seq (acker_obj (rx n')))"
proof -
  obtain s where s: "tcp_reset T s0 = Inr s" "net_inv snd_inv (\<lambda>_ _. True) T (\<lambda>_. 0) (conn_start s (plain_sink ac k))"
    using transfer_start [OF assms(2-5)] by blast
  obtain n h where n: "net_run ag acker_append_ack acts (conn_start s (plain_sink ac k)) = Inr n" "net_inv snd_inv (\<lambda>_ _. True) T h n"
    by (rule returnsE [OF transfer_run [OF assms(1) s(2) assms(6)]]) blast
  obtain n' where "net_step ag acker_append_ack now a n = Inr n'" "done_right n n'"
    by (rule returnsE [OF transfer_step [OF assms(1) n(2) assms(7)]]) blast
  with s(1) n(1) show ?thesis by (auto simp: done_right_def)
qed

text \<open>The last acknowledgement of a transfer of two packets makes Reno call \<open>done\<close>.\<close>
theorem tcp_done_means_delivered_witness:
  "\<exists>n n'. sample_net reno_agent sample_acts = Inr n \<and> net_step reno_agent acker_append_ack 7 (DeliverAck 0) n = Inr n' \<and>
     done_calls (tx n) = 0 \<and> done_calls (tx n') = 1 \<and> curseq (tx n') = 3 \<and> 3 \<le> next_seq (acker_obj (rx n'))"
proof -
  have a: "act_ok 0 (7, DeliverAck 0)" by (simp add: act_ok_def)
  have k: "acks_sent (sample_sink sample_acker) = []" by (simp add: sample_sink_def)
  obtain s n n' where r: "tcp_reset 0 sample_tcp = Inr s"
    "net_run reno_agent acker_append_ack sample_acts (conn_start s (plain_sink sample_acker (sample_sink sample_acker))) = Inr n"
    "net_step reno_agent acker_append_ack 7 (DeliverAck 0) n = Inr n'"
    "done_calls (tx n) < done_calls (tx n') \<longrightarrow> curseq (tx n') \<le> highest_ack (tx n') + 1 \<and> curseq (tx n') \<le> next_seq (acker_obj (rx n'))"
    using tcp_done_means_delivered [OF disjI2 [OF refl] sample_fresh sample_off(1) k order_refl sample_acts_ok a, of sample_acker]
    by blast
  have "sample_net reno_agent sample_acts = Inr n" "sample_net reno_agent (sample_acts @ [(7, DeliverAck 0)]) = Inr n'"
    using r(1-3) by (simp_all add: sample_net_def net_run_append)
  with sample_view r(3,4) show ?thesis by (intro exI [of _ n] exI [of _ n']) (simp add: net_view_def)
qed

text \<open>
  (C9) The invariant of a TCP connection, in every state such a network can reach: the sequence
  numbers of the sender are ordered, the cumulative acknowledgement is behind what the sink has and
  the sink has nothing that was not sent, only packets that were sent are under way, and while data is
  outstanding the retransmission timer is pending.
\<close>
theorem tcp_network_invariant:
  assumes "ag = tahoe_agent \<or> ag = reno_agent" "fresh s0" "\<not> QOption (conf s0)" "acks_sent k = []" "0 \<le> T"
    and "\<forall>x\<in>set acts. act_ok T x"
  shows "\<exists>s n. tcp_reset T s0 = Inr s \<and> net_run ag acker_append_ack acts (conn_start s (plain_sink ac k)) = Inr n \<and>
    - 1 \<le> highest_ack (tx n) \<and> highest_ack (tx n) \<le> maxseq (tx n) \<and> highest_ack (tx n) < t_seqno (tx n) \<and>
    t_seqno (tx n) \<le> maxseq (tx n) + 1 \<and>
    highest_ack (tx n) < next_seq (acker_obj (rx n)) \<and> next_seq (acker_obj (rx n)) \<le> maxseq (tx n) + 1 \<and>
    (\<forall>p\<in>set (data_path n). 0 \<le> tp_seqno p \<and> tp_seqno p \<le> maxseq (tx n)) \<and>
    (\<forall>q\<in>set (ack_path n). tp_seqno q < next_seq (acker_obj (rx n))) \<and>
    (highest_ack (tx n) < maxseq (tx n) \<longrightarrow> pending (rtx_timer (tx n)))"
proof -
  obtain s where s: "tcp_reset T s0 = Inr s" "net_inv snd_inv (\<lambda>_ _. True) T (\<lambda>_. 0) (conn_start s (plain_sink ac k))"
    using transfer_start [OF assms(2-5)] by blast
  obtain n h where n: "net_run ag acker_append_ack acts (conn_start s (plain_sink ac k)) = Inr n" "net_inv snd_inv (\<lambda>_ _. True) T h n"
    by (rule returnsE [OF transfer_run [OF assms(1) s(2) assms(6)]]) blast
  then have ok: "snd_ok (tx n)" "guarded (tx n)" by (simp_all add: net_inv_def snd_inv_def)
  show ?thesis
    using s(1) n ok next_seq_sent [OF n(2) ok(1)]
    by (intro exI [of _ s] exI [of _ n]) (simp add: net_inv_def snd_ok_def guarded_def)
qed

text \<open>Of two packets sent one has been lost.\<close>
theorem tcp_network_invariant_witness:
  "\<exists>s n. tcp_reset 0 sample_tcp = Inr s \<and> net_run tahoe_agent acker_append_ack sample_loss
       (conn_start s (plain_sink sample_acker (sample_sink sample_acker))) = Inr n \<and>
     highest_ack (tx n) < maxseq (tx n) \<and> pending (rtx_timer (tx n))"
proof -
  have k: "acks_sent (sample_sink sample_acker) = []" by (simp add: sample_sink_def)
  obtain s n where r: "tcp_reset 0 sample_tcp = Inr s"
    "net_run tahoe_agent acker_append_ack sample_loss (conn_start s (plain_sink sample_acker (sample_sink sample_acker))) = Inr n"
    "highest_ack (tx n) < maxseq (tx n) \<longrightarrow> pending (rtx_timer (tx n))"
    using tcp_network_invariant [OF disjI1 [OF refl] sample_fresh sample_off(1) k order_refl sample_loss_ok, of sample_acker] by blast
  with sample_view(3) show ?thesis by (intro exI [of _ s] exI [of _ n]) (simp add: sample_net_def net_view_def)
qed

subsection \<open>Completion\<close>

text \<open>
  (C3) A transfer can always complete. In whatever state the network has left Tahoe (without ECN and
  without the quiescence option) and its sink - also when everything under way has been lost - there
  are further steps of the timers and of the network, and no further data, after which the sink has
  delivered every packet below \<open>curseq_\<close> and the sender knows it. In particular the sender never waits
  for ever.
\<close>
theorem tcp_transfer_completes:
  assumes "fresh s0" "\<not> QOption (conf s0)" "\<not> ecn_on (conf s0)" "acks_sent k = []" "0 \<le> T" "T \<le> now"
    and "\<forall>x\<in>set acts. act_ok T x"
  shows "\<exists>s n. tcp_reset T s0 = Inr s \<and> net_run tahoe_agent acker_append_ack acts (conn_start s (plain_sink ac k)) = Inr n \<and>
    (0 \<le> maxseq (tx n) \<and> curseq (tx n) < 2 ^ 30 - 2 \<longrightarrow>
     (\<exists>more n'. (\<forall>a\<in>set more. \<forall>j. a \<noteq> Supply j) \<and> net_run tahoe_agent acker_append_ack (map (Pair now) more) n = Inr n' \<and>
        curseq (tx n') = curseq (tx n) \<and> curseq (tx n') \<le> highest_ack (tx n') + 1 \<and>
        curseq (tx n') \<le> next_seq (acker_obj (rx n'))))"
proof -
  obtain s where s: "tcp_reset T s0 = Inr s" "started T s0 s"
    by (rule returnsE [OF tcp_reset_ok [OF assms(1)]])
  have i: "net_inv snd_live (\<lambda>_ _. True) T (\<lambda>_. 0) (conn_start s (plain_sink ac k))"
    using assms(5)
    by (intro net_inv_start [OF s(2)] started_live [OF s(2) assms(2,3)] sink_rep_plain [OF assms(4)]) simp
  obtain n h where n: "net_run tahoe_agent acker_append_ack acts (conn_start s (plain_sink ac k)) = Inr n"
    "net_inv snd_live (\<lambda>_ _. True) T h n"
    unfolding tahoe_agent_def
    by (rule returnsE [OF tahoe_completes.net_run_ok [OF exI [of _ "\<lambda>_. 0"], OF i assms(7)]]) blast
  have "\<exists>more n'. (\<forall>a\<in>set more. \<forall>j. a \<noteq> Supply j) \<and> net_run tahoe_agent acker_append_ack (map (Pair now) more) n = Inr n' \<and>
        curseq (tx n') = curseq (tx n) \<and> curseq (tx n') \<le> highest_ack (tx n') + 1 \<and> curseq (tx n') \<le> next_seq (acker_obj (rx n'))"
    if b: "0 \<le> maxseq (tx n)" "curseq (tx n) < 2 ^ 30 - 2"
  proof -
    obtain n' h' where n': "can_reach tahoe_agent acker_append_ack now n n'" "net_inv snd_live (\<lambda>_ _. True) T h' n'"
      "curseq (tx n') = curseq (tx n)" "curseq (tx n') \<le> highest_ack (tx n') + 1"
      using tahoe_completes.completes [OF n(2) assms(6) b] unfolding tahoe_agent_def by blast
    then have "curseq (tx n') \<le> next_seq (acker_obj (rx n'))" by (simp add: net_inv_def)
    with n' show ?thesis unfolding can_reach_def by blast
  qed
  with s(1) n(1) show ?thesis by blast
qed

text \<open>Everything is lost after the third step.\<close>
theorem tcp_transfer_completes_witness:
  "\<exists>n more n'. sample_net tahoe_agent (sample_loss @ [(4, Drop 0)]) = Inr n \<and>
     highest_ack (tx n) = 0 \<and> net_run tahoe_agent acker_append_ack (map (Pair 10) more) n = Inr n' \<and>
     curseq (tx n') = 3 \<and> 2 \<le> highest_ack (tx n') \<and> 3 \<le> next_seq (acker_obj (rx n'))"
proof -
  let ?acts = "sample_loss @ [(4, Drop 0)]"
  have a: "\<forall>x\<in>set ?acts. act_ok 0 x" using sample_loss_ok by (auto simp: act_ok_def)
  have k: "acks_sent (sample_sink sample_acker) = []" and t: "(0 :: time) \<le> 10" by (simp_all add: sample_sink_def)
  obtain s n where r: "tcp_reset 0 sample_tcp = Inr s"
    "net_run tahoe_agent acker_append_ack ?acts (conn_start s (plain_sink sample_acker (sample_sink sample_acker))) = Inr n"
    "0 \<le> maxseq (tx n) \<and> curseq (tx n) < 2 ^ 30 - 2 \<longrightarrow>
     (\<exists>more n'. (\<forall>a\<in>set more. \<forall>j. a \<noteq> Supply j) \<and> net_run tahoe_agent acker_append_ack (map (Pair 10) more) n = Inr n' \<and>
        curseq (tx n') = curseq (tx n) \<and> curseq (tx n') \<le> highest_ack (tx n') + 1 \<and> curseq (tx n') \<le> next_seq (acker_obj (rx n')))"
    using tcp_transfer_completes [OF sample_fresh sample_off k order_refl t a, of sample_acker] by blast
  have e: "sample_net tahoe_agent ?acts = Inr n" using r(1,2) by (simp add: sample_net_def)
  have v: "curseq (tx n) = 3" "maxseq (tx n) = 2" "highest_ack (tx n) = 0"
    using e sample_view(4) by (simp_all add: net_view_def)
  with r(3) obtain more n' where "net_run tahoe_agent acker_append_ack (map (Pair 10) more) n = Inr n'"
    "curseq (tx n') = 3" "curseq (tx n') \<le> highest_ack (tx n') + 1" "curseq (tx n') \<le> next_seq (acker_obj (rx n'))" by auto
  with e v show ?thesis by (intro exI [of _ n] exI [of _ more] exI [of _ n']) simp
qed

end
