(* ===== verification/Window_Properties.thy ===== *)
theory Window_Properties
  imports Sender_Properties
begin

section \<open>Retransmission, window and timeout of the TCP senders\<close>

text \<open>
  The claims about single operations of \<open>tcp.cc\<close> and \<open>tcp-reno.cc\<close>, in the states the invariant
  allows; the states of the witnesses are reached by runs of the default configuration.
\<close>

lemma sample_state:
  assumes ag: "ag = tahoe_agent \<or> ag = reno_agent" and acts: "\<forall>x\<in>set acts. act_ok 0 x"
  shows "\<exists>n. sample_net ag acts = Inr n \<and> snd_inv (tx n)"
proof -
  have k: "acks_sent (sample_sink sample_acker) = []" by (simp add: sample_sink_def)
  obtain s where s: "tcp_reset 0 sample_tcp = Inr s"
    "net_inv snd_inv (\<lambda>_ _. True) 0 (\<lambda>_. 0) (conn_start s (plain_sink sample_acker (sample_sink sample_acker)))"
    using transfer_start [OF sample_fresh sample_off(1) k order_refl] by blast
  from transfer_run [OF ag s(2) acts] s(1) show ?thesis
    by (auto simp: sample_net_def returns_def net_inv_def)
qed

subsection \<open>Handlers\<close>

text \<open>
  (C27) The handlers of the senders are well defined on well-formed states: in a state that satisfies
  the invariant, \<open>recv\<close> of an acknowledgement of a packet that was sent, \<open>expire\<close> of either timer and
  \<open>advanceby\<close> return - no failed assertion, no double scheduling of a timer, no negative timeout, no
  division by zero - and the state they return satisfies the invariant.
\<close>
theorem tcp_handlers_well_defined:
  fixes s :: "'b reno_scheme"
  assumes "snd_inv s"
  shows "(tp_seqno p \<le> maxseq s \<longrightarrow>
      returns (tcp_recv tahoe (dupack_action tahoe) now p s) snd_inv \<and> returns (reno_recv reno_dupack_action now p s) snd_inv) \<and>
    (pending (rtx_timer s) \<longrightarrow>
      returns (rtx_timer_handle (tcp_timeout tahoe now) s) snd_inv \<and> returns (rtx_timer_handle (reno_timeout now) s) snd_inv) \<and>
    (pending (delsnd_timer s) \<longrightarrow>
      returns (delsnd_timer_handle (tcp_timeout tahoe now) s) snd_inv \<and> returns (delsnd_timer_handle (reno_timeout now) s) snd_inv) \<and>
    (0 \<le> k \<longrightarrow> returns (advanceby tahoe now k s) snd_inv \<and> returns (advanceby reno_vt now k s) snd_inv)"
proof (intro conjI impI)
  have mono: "returns m snd_inv" if "returns m (\<lambda>t. R t \<and> snd_inv t)" for m and R :: "'b reno_scheme \<Rightarrow> bool"
    using that by (rule returns_mono) simp
  show "returns (tcp_recv tahoe (dupack_action tahoe) now p s) snd_inv" "returns (reno_recv reno_dupack_action now p s) snd_inv"
    if "tp_seqno p \<le> maxseq s"
    by (rule mono [OF tahoe.rcv_ok [OF assms that]], rule mono [OF reno.rcv_ok [OF assms that]])
  show "returns (rtx_timer_handle (tcp_timeout tahoe now) s) snd_inv" "returns (rtx_timer_handle (reno_timeout now) s) snd_inv"
    if "pending (rtx_timer s)"
    by (rule mono [OF tahoe.rtx_ok [OF assms that]], rule mono [OF reno.rtx_ok [OF assms that]])
  show "returns (delsnd_timer_handle (tcp_timeout tahoe now) s) snd_inv" "returns (delsnd_timer_handle (reno_timeout now) s) snd_inv"
    if "pending (delsnd_timer s)"
    by (rule mono [OF tahoe.del_ok [OF assms that]], rule mono [OF reno.del_ok [OF assms that]])
  show "returns (advanceby tahoe now k s) snd_inv" "returns (advanceby reno_vt now k s) snd_inv" if "0 \<le> k"
    by (rule mono [OF tahoe.supply_ok [OF assms that]], rule mono [OF reno.supply_ok [OF assms that]])
qed

text \<open>With a packet outstanding.\<close>
theorem tcp_handlers_well_defined_witness:
  "\<exists>n. sample_net tahoe_agent sample_loss = Inr n \<and> snd_inv (tx n) \<and>
     returns (tcp_recv tahoe (dupack_action tahoe) 5 (sample_pkt 1 4) (tx n)) snd_inv \<and>
     returns (rtx_timer_handle (reno_timeout 5) (tx n)) snd_inv \<and> returns (advanceby reno_vt 5 3 (tx n)) snd_inv"
proof -
  obtain n where n: "sample_net tahoe_agent sample_loss = Inr n" "snd_inv (tx n)"
    using sample_state [OF disjI1 [OF refl] sample_loss_ok] by blast
  have v: "maxseq (tx n) = 2" "highest_ack (tx n) = 0" using n(1) sample_view(3) by (simp_all add: net_view_def)
  then have p: "pending (rtx_timer (tx n))" using n(2) by (simp add: snd_inv_def guarded_def)
  have "tp_seqno (sample_pkt 1 4) \<le> maxseq (tx n)" using v by (simp add: sample_pkt_def)
  with n p show ?thesis
    using tcp_handlers_well_defined [OF n(2), of "sample_pkt 1 4" 5 3] by simp
qed

text \<open>
  (C24) A retransmission timeout of Tahoe: the timer is pending again, the congestion window has room
  for a packet, and while data remains the first packet sent is the first unacknowledged one - at once,
  or when the pending delay of \<open>overhead_\<close> is over.
\<close>
theorem tcp_timeout_resends:
  assumes "snd_ok s" "pending (rtx_timer s)" "\<not> pending (burstsnd_timer s)"
  shows "\<exists>s'. rtx_timer_handle (tcp_timeout tahoe now) s = Inr s' \<and> pending (rtx_timer s') \<and>
    highest_ack s' = highest_ack s \<and> 1 \<le> cwnd (wn s') \<and>
    (highest_ack s + 1 < curseq s \<longrightarrow>
       (\<exists>p ps. out s' = out s @ p # ps \<and> tp_seqno p = highest_ack s + 1) \<or>
       (pending (delsnd_timer s') \<and> t_seqno s' = highest_ack s' + 1))"
proof -
  obtain s' where s': "rtx_timer_handle (tcp_timeout tahoe now) s = Inr s'" "timeout_to tahoe now s s'"
    by (rule returnsE [OF tahoe_rtx_ok [OF assms(1,2)]])
  moreover have "opens (tahoe :: 'a vwindow) (conf s)" using assms(1) by (intro opens_tahoe) (simp add: snd_ok_def)
  ultimately show ?thesis
    using assms(3) by (intro exI [of _ s']) (auto simp: timeout_to_def hand_to_def resends_def first_sent_def)
qed

text \<open>Packet 1 has been lost and is sent again.\<close>
theorem tcp_timeout_resends_witness:
  "\<exists>n s'. sample_net tahoe_agent sample_loss = Inr n \<and> highest_ack (tx n) = 0 \<and>
     rtx_timer_handle (tcp_timeout tahoe 5) (tx n) = Inr s' \<and> pending (rtx_timer s') \<and> highest_ack s' = 0 \<and>
     ((\<exists>p ps. out s' = out (tx n) @ p # ps \<and> tp_seqno p = 1) \<or> pending (delsnd_timer s'))"
proof -
  obtain n where n: "sample_net tahoe_agent sample_loss = Inr n" "snd_inv (tx n)"
    using sample_state [OF disjI1 [OF refl] sample_loss_ok] by blast
  have v: "maxseq (tx n) = 2" "highest_ack (tx n) = 0" "curseq (tx n) = 3"
    using n(1) sample_view(3) by (simp_all add: net_view_def)
  then have p: "pending (rtx_timer (tx n))" "snd_ok (tx n)" using n(2) by (simp_all add: snd_inv_def guarded_def)
  have "map_sum id (\<lambda>n. pending (burstsnd_timer (tx n))) (sample_net tahoe_agent sample_loss) = Inr False" by code_simp
  then have b: "\<not> pending (burstsnd_timer (tx n))" using n(1) by simp
  obtain s' where "rtx_timer_handle (tcp_timeout tahoe 5) (tx n) = Inr s'" "pending (rtx_timer s')"
    "highest_ack s' = highest_ack (tx n)"
    "highest_ack (tx n) + 1 < curseq (tx n) \<longrightarrow>
       (\<exists>p ps. out s' = out (tx n) @ p # ps \<and> tp_seqno p = highest_ack (tx n) + 1) \<or>
       (pending (delsnd_timer s') \<and> t_seqno s' = highest_ack s' + 1)"
    using tcp_timeout_resends [OF p(2,1) b, of 5] by blast
  with n(1) v show ?thesis by (intro exI [of _ n] exI [of _ s']) auto
qed

text \<open>
  (C38) Fast retransmission of Reno, \<open>dupack_action\<close> after \<open>numdupacks_\<close> duplicates, when the last
  recovery is over: exactly one packet is sent, number \<open>highest_ack_ + 1\<close>, the window is inflated by
  \<open>numdupacks_\<close>, and \<open>t_seqno_\<close> stays. This happens also when everything has been acknowledged: the
  packet then lies beyond the data, with the number \<open>curseq_\<close>, and \<open>maxseq_\<close> becomes \<open>curseq_\<close>.
\<close>
theorem reno_fast_retransmit:
  assumes "snd_ok s" "recover s < highest_ack s"
  shows "\<exists>s' p. reno_dupack_action now s = Inr s' \<and> out s' = out s @ [p] \<and> tp_seqno p = highest_ack s + 1 \<and>
    dupwnd s' = numdupacks (conf s) mod 2 ^ 32 \<and> t_seqno s' = t_seqno s \<and> highest_ack s' = highest_ack s \<and>
    maxseq s' = max (maxseq s) (highest_ack s + 1) \<and>
    (highest_ack s = maxseq s \<and> curseq s = maxseq s + 1 \<longrightarrow> tp_seqno p = curseq s \<and> maxseq s' = curseq s)"
proof -
  obtain s' where s': "reno_action now s = Inr s'" "hand_to now s s'" "retransmits s s'"
    by (rule returnsE [OF reno_action_ok [OF assms(1)]]) blast
  then have "reno_dupack_action now s = Inr s'" using assms(2) by (simp add: reno_dupack_action_def)
  moreover obtain p ps where "out s' = out s @ p # ps" "tp_seqno p = highest_ack s + 1"
    using s'(3) by (auto simp: retransmits_def first_sent_def)
  ultimately show ?thesis
    using s'(2,3) by (intro exI [of _ s'] exI [of _ p]) (auto simp: retransmits_def hand_to_def)
qed

text \<open>After the complete transfer of packets 0 to 2 the sender sends a packet 3, which is no data.\<close>
theorem reno_fast_retransmit_witness:
  "\<exists>n s' p. sample_net reno_agent (sample_acts @ [(7, DeliverAck 0)]) = Inr n \<and> curseq (tx n) = 3 \<and> highest_ack (tx n) = 2 \<and>
     reno_dupack_action 8 (tx n) = Inr s' \<and> out s' = out (tx n) @ [p] \<and> tp_seqno p = 3 \<and> maxseq s' = 3"
proof -
  have a: "\<forall>x\<in>set (sample_acts @ [(7, DeliverAck 0)]). act_ok 0 x" using sample_acts_ok by (auto simp: act_ok_def)
  obtain n where n: "sample_net reno_agent (sample_acts @ [(7, DeliverAck 0)]) = Inr n" "snd_inv (tx n)"
    using sample_state [OF disjI2 [OF refl] a] by blast
  have v: "maxseq (tx n) = 2" "highest_ack (tx n) = 2" "curseq (tx n) = 3"
    using n(1) sample_view(2) by (simp_all add: net_view_def)
  have "map_sum id (\<lambda>n. recover (tx n)) (sample_net reno_agent (sample_acts @ [(7, DeliverAck 0)])) = Inr 0" by code_simp
  then have r: "recover (tx n) < highest_ack (tx n)" "snd_ok (tx n)" using n v by (simp_all add: snd_inv_def)
  obtain s' p where "reno_dupack_action 8 (tx n) = Inr s'" "out s' = out (tx n) @ [p]" "tp_seqno p = highest_ack (tx n) + 1"
    "maxseq s' = max (maxseq (tx n)) (highest_ack (tx n) + 1)"
    using reno_fast_retransmit [OF r(2,1), of 8] by blast
  with n(1) v show ?thesis by (intro exI [of _ n] exI [of _ s'] exI [of _ p]) simp
qed

subsection \<open>The window\<close>

text \<open>
  (C25) \<open>send_much\<close> of Tahoe and Reno stays within the window: it returns, the packets it sends are
  consecutive from \<open>t_seqno_\<close> on, none is beyond \<open>highest_ack_ + window()\<close> or beyond the data, and with
  \<open>maxburst > 0\<close> there are at most \<open>maxburst\<close> of them.
\<close>
theorem tcp_send_within_window:
  assumes "snd_ok s" "\<not> QOption (conf s)" "v = tahoe \<or> v = reno_vt"
  shows "\<exists>s' ps. send_much v now force reason mb s = Inr s' \<and> out s' = out s @ ps \<and>
    map tp_seqno ps = [t_seqno s .. t_seqno s' - 1] \<and>
    (\<forall>p\<in>set ps. tp_seqno p \<le> highest_ack s + vwin v s \<and> tp_seqno p < curseq s') \<and>
    (0 < mb \<longrightarrow> int (length ps) \<le> mb)"
proof -
  have st: "steady v" using assms(3) steady_tahoe steady_reno by blast
  have f: "vwin v (t\<lparr>firstsent := x\<rparr>) = vwin v t" for t x
    using assms(3) by (auto simp: tcp_window_def reno_window_def force_wnd_def Let_def)
  obtain s' where s': "send_much v now force reason mb s = Inr s'" "burst (vwin v s) mb 0 s s'"
    by (rule returnsE [OF send_much_burst [OF assms(1,2) st f]])
  then obtain ps where ps: "out s' = out s @ ps" "map tp_seqno ps = [t_seqno s .. t_seqno s' - 1]"
    "ps \<noteq> [] \<longrightarrow> t_seqno s' \<le> highest_ack s + vwin v s + 1 \<and> t_seqno s' \<le> curseq s'" "0 < mb \<longrightarrow> int (length ps) \<le> mb"
    by (auto simp: burst_def)
  have "tp_seqno p \<le> highest_ack s + vwin v s \<and> tp_seqno p < curseq s'" if p: "p \<in> set ps" for p
  proof -
    have "tp_seqno p \<in> set (map tp_seqno ps)" using p by simp
    then have "tp_seqno p \<le> t_seqno s' - 1" unfolding ps(2) by simp
    moreover have "ps \<noteq> []" using p by auto
    ultimately show ?thesis using ps(3) by auto
  qed
  with s'(1) ps show ?thesis by blast
qed

text \<open>The state after the SYN, with seven packets of data and a window of two.\<close>
theorem tcp_send_within_window_witness:
  "\<exists>n s' ps. sample_net reno_agent [(1, Supply 2), (2, Deliver 0)] = Inr n \<and>
     send_much reno_vt 3 False 0 4 ((tx n)\<lparr>curseq := 7\<rparr>) = Inr s' \<and> out s' = out (tx n) @ ps \<and>
     (\<forall>p\<in>set ps. tp_seqno p \<le> highest_ack (tx n) + reno_window (tx n) \<and> tp_seqno p < curseq s') \<and> length ps \<le> 4"
proof -
  have a: "\<forall>x\<in>set [(1, Supply 2), (2, Deliver 0)]. act_ok 0 x" by (simp add: act_ok_def)
  obtain n where n: "sample_net reno_agent [(1, Supply 2), (2, Deliver 0)] = Inr n" "snd_inv (tx n)"
    using sample_state [OF disjI2 [OF refl] a] by blast
  have s: "snd_ok ((tx n)\<lparr>curseq := 7\<rparr>)" "\<not> QOption (conf ((tx n)\<lparr>curseq := 7\<rparr>))"
    using n(2) by (simp_all add: snd_inv_def snd_ok_def)
  from tcp_send_within_window [OF s disjI2 [OF refl], of 3 False 0 4] n(1) show ?thesis
    by (fastforce simp: reno_window_def force_wnd_def)
qed

text \<open>
  Additive increase. In congestion avoidance with the standard window option, the acknowledgements
  of one window of \<open>n\<close> packets (\<open>n \<le> cwnd_\<close>) raise \<open>cwnd_\<close> by at most \<open>increase_num_ * n / cwnd_\<close>, so by at
  most \<open>increase_num_\<close>, and by at least \<open>increase_num_ * n / (cwnd_ + 1)\<close>.
\<close>
theorem tcp_additive_increase:
  assumes "wnd_option c = 1" "maxcwnd c = 0" "max_ssthresh c \<le> 0" "0 \<le> increase_num c" "increase_num c \<le> 1"
    and "of_int (ssthresh w) \<le> cwnd w" "0 < cwnd w" "of_nat n \<le> cwnd w"
  shows "\<exists>w'. opencwnds rcf r c n w = Inr w' \<and> ssthresh w' = ssthresh w \<and>
    cwnd w + increase_num c * of_nat n / (cwnd w + 1) \<le> cwnd w' \<and>
    cwnd w' \<le> cwnd w + increase_num c * of_nat n / cwnd w \<and> cwnd w' \<le> cwnd w + increase_num c"
proof -
  have "increase_num c * of_nat n \<le> increase_num c * cwnd w" using assms(4,8) by (rule mult_left_mono [rotated])
  then have b: "increase_num c * of_nat n / cwnd w \<le> increase_num c" using assms(7) by (simp add: pos_divide_le_eq)
  then have "cwnd w + increase_num c * of_nat n / cwnd w \<le> cwnd w + 1" using assms(5) by simp
  from opencwnds_additive [OF assms(1-7) order_refl this, of rcf r] b show ?thesis by force
qed

text \<open>Ten acknowledgements at a window of ten packets.\<close>
theorem tcp_additive_increase_witness:
  "\<exists>w'. opencwnds (rc sample_conf) (rt sample_tcp) (wc sample_conf) 10 ((wn sample_tcp)\<lparr>cwnd := 10, ssthresh := 8\<rparr>) = Inr w' \<and>
     10 + 10 / 11 \<le> cwnd w' \<and> cwnd w' \<le> 11"
proof -
  have "\<exists>w'. opencwnds (rc sample_conf) (rt sample_tcp) (wc sample_conf) 10 ((wn sample_tcp)\<lparr>cwnd := 10, ssthresh := 8\<rparr>) = Inr w' \<and>
     ssthresh w' = ssthresh ((wn sample_tcp)\<lparr>cwnd := 10, ssthresh := 8\<rparr>) \<and>
     cwnd ((wn sample_tcp)\<lparr>cwnd := 10, ssthresh := 8\<rparr>) + increase_num (wc sample_conf) * of_nat 10 / (cwnd ((wn sample_tcp)\<lparr>cwnd := 10, ssthresh := 8\<rparr>) + 1) \<le> cwnd w' \<and>
     cwnd w' \<le> cwnd ((wn sample_tcp)\<lparr>cwnd := 10, ssthresh := 8\<rparr>) + increase_num (wc sample_conf) * of_nat 10 / cwnd ((wn sample_tcp)\<lparr>cwnd := 10, ssthresh := 8\<rparr>) \<and>
     cwnd w' \<le> cwnd ((wn sample_tcp)\<lparr>cwnd := 10, ssthresh := 8\<rparr>) + increase_num (wc sample_conf)"
    by (rule tcp_additive_increase) (simp_all add: sample_conf_def)
  then show ?thesis by (auto simp: sample_conf_def)
qed

text \<open>
  The formulas that the comments of \<open>decrease_param\<close> and \<open>increase_param\<close> call \<open>OLD\<close>.
\<close>

definition old_decrease :: "win_conf \<Rightarrow> real \<Rightarrow> real" where
  "old_decrease c x = linear (ln x) (ln (of_int (low_window c))) (1 / 2) (ln (of_int (high_window c))) (high_decrease c)"

definition old_increase :: "win_conf \<Rightarrow> real \<Rightarrow> real" where
  "old_increase c x =
     (let p = exp (linear (ln x) (ln (of_int (low_window c))) (ln (3 / 2 / (of_int (low_window c) * of_int (low_window c))))
                     (ln (of_int (high_window c))) (ln (high_p c)))
      in x * x * p * (2 * old_decrease c x) / (2 - old_decrease c x))"

text \<open>
  (C39) The parameters of HighSpeed TCP: with the coefficients that \<open>reset\<close> computes, \<open>decrease_param\<close>
  and the uncached branch of \<open>increase_param\<close> have the values of the formulas they replaced, which
  interpolate between \<open>low_window_\<close> and \<open>high_window_\<close>, as the comments \<open>NEW, but equivalent\<close> say.
\<close>
theorem highspeed_parameters_equivalent:
  assumes h: "hstcp_reset c h0 = Inr h" "hs w = h" and x: "of_int (low_window c) < cwnd w"
    and last: "\<not> (cwnd_last h \<le> cwnd w \<and> cwnd w < cwnd_last h + of_int (cwnd_range c))"
    and d: "old_decrease c (cwnd w) \<noteq> 0" "old_decrease c (cwnd w) \<noteq> 2"
  shows "decrease_param w = Inr (old_decrease c (cwnd w)) \<and>
    (\<exists>w'. increase_param c w = Inr (old_increase c (cwnd w) / cwnd w, w') \<and> increase_last (hs w') = old_increase c (cwnd w))"
proof -
  let ?lo = "of_int (low_window c) :: real" and ?hi = "of_int (high_window c) :: real"
  have g: "0 < low_window c" "h = h0\<lparr>low_p := 3 / 2 / (?lo * ?lo),
      dec1 := 1 / 2 - ln ?lo * (high_decrease c - 1 / 2) / (ln ?hi - ln ?lo), dec2 := (high_decrease c - 1 / 2) / (ln ?hi - ln ?lo),
      p1 := ln (3 / 2 / (?lo * ?lo)) - ln ?lo * (ln (high_p c) - ln (3 / 2 / (?lo * ?lo))) / (ln ?hi - ln ?lo),
      p2 := (ln (high_p c) - ln (3 / 2 / (?lo * ?lo))) / (ln ?hi - ln ?lo)\<rparr>"
    using h(1) by (auto simp: hstcp_reset_def Let_def split: if_splits)
  have pos: "0 < cwnd w" using g(1) x by (meson le_less_trans of_int_0_le_iff less_imp_le order.strict_trans1)
  have dec: "decrease_param w = Inr (old_decrease c (cwnd w))"
    using pos by (simp add: decrease_param_def h(2) g(2) old_decrease_def linear_alt)
  define p where "p = exp (p1 h + ln (cwnd w) * p2 h)"
  have p: "p = exp (linear (ln (cwnd w)) (ln ?lo) (ln (3 / 2 / (?lo * ?lo))) (ln ?hi) (ln (high_p c)))"
    by (simp add: p_def g(2) linear_alt)
  let ?d = "old_decrease c (cwnd w)"
  have nd: "1 / ?d \<noteq> 1 / 2" using d by (simp add: field_simps)
  have inc: "cwnd w * cwnd w * p / (1 / ?d - 1 / 2) = old_increase c (cwnd w)"
    unfolding increase_alt [OF d] old_increase_def Let_def p ..
  have "increase_param c w = Inr (old_increase c (cwnd w) / cwnd w,
      w\<lparr>hs := (hs w)\<lparr>cwnd_last := cwnd w, increase_last := old_increase c (cwnd w)\<rparr>\<rparr>)"
    using pos x last d(1) nd by (auto simp: increase_param_def dec h(2) Let_def p_def [symmetric] inc)
  with dec show ?thesis by simp
qed

text \<open>The default coefficients at the upper end of the range.\<close>
theorem highspeed_parameters_equivalent_witness:
  "\<exists>h. hstcp_reset (wc sample_conf) (hs (wn sample_tcp)) = Inr h \<and>
     decrease_param ((wn sample_tcp)\<lparr>cwnd := 83000, hs := h\<rparr>) = Inr (1 / 10)"
proof -
  obtain h where h: "hstcp_reset (wc sample_conf) (hs (wn sample_tcp)) = Inr h"
    "cwnd_last h = 0"
    by (simp add: hstcp_reset_def sample_conf_def Let_def sample_tcp_def new_RenoTcpAgent_def new_TcpAgent_def
        in_int32_def)
  let ?w = "(wn sample_tcp)\<lparr>cwnd := 83000, hs := h\<rparr>"
  have "ln (83000 :: real) - ln 38 \<noteq> 0" by simp
  then have o: "old_decrease (wc sample_conf) (cwnd ?w) = 1 / 10"
    by (simp add: old_decrease_def linear_def sample_conf_def)
  have "decrease_param ?w = Inr (old_decrease (wc sample_conf) (cwnd ?w))"
    using highspeed_parameters_equivalent [OF h(1), of ?w] h(2) o by (simp add: sample_conf_def)
  with h(1) o show ?thesis by (intro exI [of _ h]) simp
qed

subsection \<open>The retransmission timeout\<close>

text \<open>
  (C26) The retransmission timeout follows the measured round-trip times. After any sequence of
  measurements between \<open>l\<close> and \<open>u\<close> ticks (below \<open>2^15\<close>, the range of the \<open>short\<close> in \<open>rtt_update\<close>), from a
  fresh estimate on, \<open>t_rtxcur_\<close> lies between \<open>l\<close> and \<open>(2^rttvar_exp_ + 1) (u + 1)\<close> ticks, and the timeout
  that \<open>rtt_timeout\<close> returns is at least one tick and at most the larger of \<open>maxrto_\<close> and two ticks; the
  error exit for a negative timeout is not taken.
\<close>
theorem tcp_rto_follows_samples:
  assumes "rtt_conf_ok c" "t_srtt r = 0" "1 \<le> l" "u < 2 ^ 15" "t_backoff r = 1" "xs \<noteq> []"
    and "\<forall>(now, tao)\<in>set xs. l \<le> rtt_sample c now tao r \<and> rtt_sample c now tao r \<le> u"
  shows "\<exists>r' t r''. rtt_updates c xs r = Inr r' \<and> of_int l * tcp_tick c \<le> t_rtxcur r' \<and>
    t_rtxcur r' \<le> of_int ((2 ^ nat (rttvar_exp c) + 1) * (u + 1)) * tcp_tick c \<and>
    rtt_timeout c r' = Inr (t, r'') \<and> tcp_tick c \<le> t \<and> t \<le> max (maxrto c) (2 * tcp_tick c)"
proof -
  obtain r' where r': "rtt_updates c xs r = Inr r'" "rtt_within c l u r'" "rto_within c l u r'"
    using rtt_updates_within [OF assms(1,3,4,7)] assms(2,6) by blast
  have b: "t_backoff r' = t_backoff r" using r'(1) by (rule rtt_updates_backoff)
  have "tcp_tick c * 1 \<le> tcp_tick c * of_int l"
    using assms(1,3) by (intro mult_left_mono) (simp_all add: rtt_conf_ok_def)
  then have "tcp_tick c \<le> t_rtxcur r'" using r'(3) by (simp add: rto_within_def mult.commute)
  moreover have "0 \<le> 2 ^ nat (T_SRTT_BITS c) * l" using assms(3) by simp
  then have "0 \<le> t_srtt r'" using r'(2) unfolding rtt_within_def by linarith
  ultimately have "rtt_ok c r'" using r'(2) b assms(5) by (auto simp: rtt_ok_def rtt_within_def intro: exI [of _ 0])
  from rtt_timeout_ok [OF assms(1) this] r'(1,3) show ?thesis by (auto simp: rto_ok_def rto_within_def)
qed

text \<open>Two measurements, of 10 and 20 ticks.\<close>
theorem tcp_rto_follows_samples_witness:
  "\<exists>r' t r''. rtt_updates (rc sample_conf) [(1, 1 / 10), (2, 1 / 5)] ((rt sample_tcp)\<lparr>t_backoff := 1\<rparr>) = Inr r' \<and>
     1 / 10 \<le> t_rtxcur r' \<and> t_rtxcur r' \<le> 21 / 20 \<and> rtt_timeout (rc sample_conf) r' = Inr (t, r'') \<and> t \<le> 60"
proof -
  let ?r = "(rt sample_tcp)\<lparr>t_backoff := 1\<rparr>"
  have c: "rtt_conf_ok (rc sample_conf)" using sample_conf_ok by (simp add: tcp_conf_ok_def)
  have s: "rtt_sample (rc sample_conf) 1 (1 / 10) ?r = 10" "rtt_sample (rc sample_conf) 2 (1 / 5) ?r = 20"
    by code_simp+
  have "\<exists>r' t r''. rtt_updates (rc sample_conf) [(1, 1 / 10), (2, 1 / 5)] ?r = Inr r' \<and>
      of_int 10 * tcp_tick (rc sample_conf) \<le> t_rtxcur r' \<and>
      t_rtxcur r' \<le> of_int ((2 ^ nat (rttvar_exp (rc sample_conf)) + 1) * (20 + 1)) * tcp_tick (rc sample_conf) \<and>
      rtt_timeout (rc sample_conf) r' = Inr (t, r'') \<and> tcp_tick (rc sample_conf) \<le> t \<and>
      t \<le> max (maxrto (rc sample_conf)) (2 * tcp_tick (rc sample_conf))"
    using s by (intro tcp_rto_follows_samples [OF c]) (simp_all add: sample_tcp_def new_RenoTcpAgent_def new_TcpAgent_def)
  then show ?thesis by (simp add: sample_conf_def) blast
qed

subsection \<open>The timestamp table\<close>

text \<open>
  With \<open>bugFix_ts_\<close> on, the first packets of a connection must not run ahead: when no packet has
  been acknowledged and packet 90 is sent, beyond nine tenths of the initial table of 100 times,
  \<open>output\<close> copies the table from index \<open>highest_ack_ = -1\<close> on, before the start of the array.
\<close>
lemma tcp_tss_before_array:
  assumes "bugfix_ts (conf s)" "tss_size s = 100" "highest_ack s = - 1" "90 \<le> q"
  shows "tcp_output now q reason s = Inl IndexOutOfRange"
proof -
  have u: "[0..99 :: int] = 0 # [1..99]" by (simp add: upto_rec1)
  have "(90 :: real) < of_int (q + 1)" using assms(4) by linarith
  then have "tss_grow q s = Inl IndexOutOfRange"
    using assms(1-3) by (cases "tss s") (simp_all add: tss_grow_def Let_def u tss_index_def crem_def)
  then show ?thesis by (simp add: tcp_output_def)
qed

text \<open>Packet 90 of a larger initial window, after the packets 0 to 89 sent at time 1.\<close>
lemma tcp_tss_before_array_witness:
  "tcp_output 1 90 0 (sample_tcp\<lparr>conf := sample_conf\<lparr>bugfix_ts := True\<rparr>, highest_ack := - 1, maxseq := 89,
     tss := Some (replicate 90 1 @ replicate 10 0)\<rparr>) = Inl IndexOutOfRange"
  by (rule tcp_tss_before_array) (simp_all add: sample_tcp_def new_RenoTcpAgent_def new_TcpAgent_def)

end
