(* ===== verification/Red_Queue.thy ===== *)
theory Red_Queue
  imports Queue_Base
begin

section \<open>Random early detection (\<open>queue/red.h\<close>, \<open>queue/red.cc\<close>: \<open>REDQueue\<close>)\<close>

text \<open>
  \<open>REDQueue\<close> keeps an exponentially weighted average of its length and drops or marks arrivals with
  a probability that grows with it. The records \<open>edp\<close> and \<open>edv\<close> are the structures of the same names,
  the parameters and the variables of the early drop. The bits of \<open>hdr_flags\<close> it reads and writes are
  \<open>hf_ect\<close> and \<open>hf_ce\<close>, by the address of the packet. The \<open>n\<close>-th random number is \<open>rng_double n\<close> or
  \<open>rng_pos n\<close>, and \<open>rdrawn\<close> counts the draws. A packet given to the early-drop target is in \<open>dropped\<close>
  like every other dropped packet, and also in \<open>edropped\<close>. \<open>rlink\<close> has the bandwidth and the delay of
  the link. \<open>pickPacketForECN\<close> and \<open>pickPacketToDrop\<close> are those of the class itself. The
  counters of packets and bytes since the last drop wrap around at 32 bits.
\<close>

subsection \<open>State\<close>

datatype red_status = Above | Below | Between

record edp =
  mean_pktsize :: int
  idle_pktsize :: int
  bytes :: bool
  wait :: bool
  setbit :: bool
  gentle :: bool
  th_min :: real
  th_min_pkts :: real
  th_max :: real
  th_max_pkts :: real
  max_p_inv :: real
  mark_p :: real
  use_mark_p :: bool
  q_w :: real
  adaptive :: int
  cautious :: int
  alpha :: real
  beta :: real
  interval :: time
  targetdelay :: time
  top_p :: real
  bottom_p :: real
  feng_adaptive :: int
  ptc :: real
  link_delay :: time

record edv =
  v_ave :: real
  v_prob1 :: real
  v_slope :: real
  v_prob :: real
  v_a :: real
  v_b :: real
  v_c :: real
  v_d :: real
  ecount :: int
  ecount_bytes :: int
  old :: bool
  cur_max_p :: real
  lastset :: time
  estatus :: red_status

record red = queue +
  ep :: edp
  ev :: edv
  red_q :: packet_queue
  rqib :: bool
  red_stats_on :: bool
  red_drop_front :: bool
  red_drop_rand :: bool
  ns1_compat :: bool
  idle :: bool
  idletime :: time
  curq :: int
  rlink :: "(real \<times> time) option"
  has_de_drop :: bool
  edropped :: "addr list"
  hf_ect :: "addr \<Rightarrow> bool"
  hf_ce :: "addr \<Rightarrow> bool"
  rng_double :: "nat \<Rightarrow> real"
  rng_pos :: "nat \<Rightarrow> nat"
  rdrawn :: nat

definition initParams :: "edp \<Rightarrow> edv \<Rightarrow> edp \<times> edv" where
  "initParams e v =
     (e\<lparr>mean_pktsize := 0, idle_pktsize := 0, bytes := False, wait := False, setbit := False, gentle := False,
        th_min := 0, th_min_pkts := 0, th_max := 0, th_max_pkts := 0, max_p_inv := 0, q_w := 0, adaptive := 0,
        cautious := 0, alpha := 0, beta := 0, interval := 0, targetdelay := 0, top_p := 0, bottom_p := 0,
        feng_adaptive := 0, ptc := 0, link_delay := 0\<rparr>,
      v\<lparr>v_ave := 0, v_prob1 := 0, v_slope := 0, v_prob := 0, v_a := 0, v_b := 0, v_c := 0, v_d := 0,
        ecount := 0, ecount_bytes := 0, old := False, cur_max_p := 1, lastset := 0\<rparr>)"

text \<open>The constructor; the bound variables are set afterwards.\<close>

definition new_REDQueue :: "red \<Rightarrow> red" where
  "new_REDQueue s =
     (let s = Queue_init s; (e, v) = initParams (ep s) (ev s)
      in s\<lparr>ep := e, ev := v, red_q := new_packet_queue, rlink := None, has_de_drop := False, idle := True,
           idletime := 0\<rparr>)"

definition red_size :: "red \<Rightarrow> int" where
  "red_size s = (if rqib s then pq_bytes (red_q s) else pq_len (red_q s))"

definition red_stats :: "time \<Rightarrow> red \<Rightarrow> red" where
  "red_stats now s = (if red_stats_on s then updateStats now (red_size s) s else s)"

subsection \<open>Parameters\<close>

text \<open>The automatic settings: the weight, the thresholds and the minimum of \<open>max_p\<close>.\<close>

definition init_q_w :: "edp \<Rightarrow> real res" where
  "init_q_w e =
     (if q_w e = 0 \<or> q_w e = - 2
      then if ptc e = 0 then Inl NotFinite else Inr (1 - exp (- (if q_w e = 0 then 1 else 10) / ptc e))
      else if q_w e = - 1
      then if ptc e = 0 then Inl NotFinite
           else let rtt = 3 * (link_delay e + 1 / ptc e); rtt = (if rtt < 1 / 10 then 1 / 10 else rtt)
                in Inr (1 - exp (- 1 / (10 * rtt * ptc e)))
      else Inr (q_w e))"

definition init_thresholds :: "edp \<Rightarrow> edp" where
  "init_thresholds e =
     (let e = (if th_min_pkts e = 0
               then let targetqueue = targetdelay e * ptc e
                    in e\<lparr>th_min_pkts := (if 5 < targetqueue / 2 then targetqueue / 2 else 5)\<rparr>
               else e)
      in if th_max_pkts e = 0 then e\<lparr>th_max_pkts := 3 * th_min_pkts e\<rparr> else e)"

definition init_bottom :: "real \<Rightarrow> edp \<Rightarrow> edp res" where
  "init_bottom bandwidth e =
     (if bottom_p e = 0
      then if bandwidth = 0 then Inl NotFinite
           else let bottom1 = 80000 / bandwidth
                in Inr (e\<lparr>bottom_p := (if bottom1 < 1 / 100 then bottom1 else 1 / 100)\<rparr>)
      else Inr e)"

definition initialize_params :: "real \<Rightarrow> edp \<Rightarrow> edp res" where
  "initialize_params bandwidth e =
     res_bind (init_q_w e) (\<lambda>w. init_bottom bandwidth (init_thresholds (e\<lparr>q_w := w\<rparr>)))"

definition set_ptc :: "real \<Rightarrow> edp \<Rightarrow> edp res" where
  "set_ptc bandwidth e =
     (if mean_pktsize e = 0 then Inl NotFinite
      else Inr (e\<lparr>ptc := bandwidth / (8 * of_int (mean_pktsize e))\<rparr>))"

definition red_command_link :: "real \<Rightarrow> time \<Rightarrow> red \<Rightarrow> red res" where
  "red_command_link bandwidth dly s =
     res_bind (set_ptc bandwidth (ep s)) (\<lambda>e.
       let e = e\<lparr>link_delay := dly\<rparr>
       in res_bind (if q_w e \<le> 0 \<or> th_min_pkts e = 0 \<or> th_max_pkts e = 0
                    then initialize_params bandwidth e else Inr e) (\<lambda>e.
            Inr (s\<lparr>rlink := Some (bandwidth, dly), ep := e\<rparr>)))"

definition red_early_drop_target :: "red \<Rightarrow> red" where
  "red_early_drop_target s = s\<lparr>has_de_drop := True\<rparr>"

text \<open>The parameters in the units of the queue, and the coefficients of the probability.\<close>

definition reset_params :: "red \<Rightarrow> edp res" where
  "reset_params s =
     res_bind (case rlink s of
                 None \<Rightarrow> Inr (ep s)
               | Some (bandwidth, _) \<Rightarrow> res_bind (set_ptc bandwidth (ep s)) (initialize_params bandwidth)) (\<lambda>e.
       let e = (if th_max_pkts e = 0 then e\<lparr>th_max_pkts := 3 * th_min_pkts e\<rparr> else e);
           unit = (if rqib s then of_int (mean_pktsize e) else 1)
       in Inr (e\<lparr>th_min := th_min_pkts e * unit, th_max := th_max_pkts e * unit\<rparr>))"

definition reset_vars :: "edp \<Rightarrow> edv \<Rightarrow> edv res" where
  "reset_vars e v =
     (let d = th_max e - th_min e; th_diff = (if d = 0 then 1 else d)
      in if max_p_inv e = 0 then Inl NotFinite
         else let v = v\<lparr>v_ave := 0, v_slope := 0, ecount := 0, ecount_bytes := 0, old := False, v_a := 1 / th_diff,
                        cur_max_p := 1 / max_p_inv e, v_b := - th_min e / th_diff, lastset := 0\<rparr>
              in if \<not> gentle e then Inr v
                 else if th_max e = 0 then Inl NotFinite
                 else Inr (v\<lparr>v_c := (1 - cur_max_p v) / th_max e, v_d := 2 * cur_max_p v - 1\<rparr>))"

subsection \<open>The average and the adaptation of \<open>max_p\<close>\<close>

definition updateMaxPFeng :: "real \<Rightarrow> edp \<Rightarrow> edv \<Rightarrow> edv res" where
  "updateMaxPFeng new_ave e v =
     (let v = (if th_min e < new_ave \<and> new_ave < th_max e then v\<lparr>estatus := Between\<rparr> else v)
      in res_bind (if new_ave < th_min e \<and> estatus v \<noteq> Below
                   then if alpha e = 0 then Inl NotFinite
                        else Inr (v\<lparr>estatus := Below, cur_max_p := cur_max_p v / alpha e\<rparr>)
                   else Inr v) (\<lambda>v.
           Inr (if th_max e < new_ave \<and> estatus v \<noteq> Above
                then v\<lparr>estatus := Above, cur_max_p := cur_max_p v * beta e\<rparr> else v)))"

definition updateMaxP :: "real \<Rightarrow> time \<Rightarrow> edp \<Rightarrow> edv \<Rightarrow> edv" where
  "updateMaxP new_ave now e v =
     (let part = 2 / 5 * (th_max e - th_min e)
      in if new_ave < th_min e + part \<and> bottom_p e < cur_max_p v
         then v\<lparr>cur_max_p := cur_max_p v * beta e, lastset := now\<rparr>
         else if th_max e - part < new_ave \<and> cur_max_p v < top_p e
         then let a = (if cur_max_p v / 4 < alpha e then cur_max_p v / 4 else alpha e)
              in v\<lparr>cur_max_p := cur_max_p v + a, lastset := now\<rparr>
         else v)"

function est_loop :: "int \<Rightarrow> real \<Rightarrow> real \<Rightarrow> real" where
  "est_loop m w x = (if 1 \<le> m - 1 then est_loop (m - 1) w (x * (1 - w)) else x)"
  by pat_completeness auto
termination by (relation "measure (\<lambda>(m, _). nat m)") auto

declare est_loop.simps [simp del]

definition estimator :: "time \<Rightarrow> int \<Rightarrow> int \<Rightarrow> real \<Rightarrow> real \<Rightarrow> edp \<Rightarrow> edv \<Rightarrow> (real \<times> edv) res" where
  "estimator now nqueued m ave w e v =
     (let new_ave = est_loop m w ave * (1 - w) + w * of_int nqueued
      in res_bind (if adaptive e = 1
                   then if feng_adaptive e = 1 then updateMaxPFeng new_ave e v
                        else Inr (if lastset v + interval e < now then updateMaxP new_ave now e v else v)
                   else Inr v) (\<lambda>v. Inr (new_ave, v)))"

text \<open>The obsolete form.\<close>

definition run_estimator :: "int \<Rightarrow> int \<Rightarrow> edp \<Rightarrow> edv \<Rightarrow> edv" where
  "run_estimator nqueued m e v =
     v\<lparr>v_ave := est_loop m (q_w e) (v_ave v) * (1 - q_w e) + q_w e * of_int nqueued\<rparr>"

subsection \<open>The probability\<close>

definition calculate_p_new ::
  "real \<Rightarrow> real \<Rightarrow> bool \<Rightarrow> real \<Rightarrow> real \<Rightarrow> real \<Rightarrow> real \<Rightarrow> real \<Rightarrow> real" where
  "calculate_p_new ave thmax gtl a b c d max_p =
     (let p = (if gtl \<and> thmax \<le> ave then c * ave + d
               else if \<not> gtl \<and> thmax \<le> ave then 1
               else (a * ave + b) * max_p)
      in if 1 < p then 1 else p)"

definition calculate_p ::
  "real \<Rightarrow> real \<Rightarrow> bool \<Rightarrow> real \<Rightarrow> real \<Rightarrow> real \<Rightarrow> real \<Rightarrow> real \<Rightarrow> real res" where
  "calculate_p ave thmax gtl a b c d maxpinv =
     (if maxpinv = 0 then Inl NotFinite else Inr (calculate_p_new ave thmax gtl a b c d (1 / maxpinv)))"

definition spread_p :: "bool \<Rightarrow> real \<Rightarrow> real \<Rightarrow> real" where
  "spread_p wt count1 p =
     (if wt then if count1 * p < 1 then 0 else if count1 * p < 2 then p / (2 - count1 * p) else 1
      else if count1 * p < 1 then p / (1 - count1 * p) else 1)"

definition modify_p :: "real \<Rightarrow> int \<Rightarrow> int \<Rightarrow> bool \<Rightarrow> int \<Rightarrow> bool \<Rightarrow> int \<Rightarrow> real res" where
  "modify_p p cnt cnt_bytes byts mean wt sz =
     res_bind (if byts then cdiv cnt_bytes mean else Inr cnt) (\<lambda>n.
       let p = spread_p wt (of_int n) p;
           p = (if byts \<and> p < 1 then p * of_int sz / of_int mean else p)
       in Inr (if 1 < p then 1 else p))"

text \<open>The share of the average that is left after 50 ms without arrivals.\<close>

definition ave_fraction :: "edp \<Rightarrow> real res" where
  "ave_fraction e = cpow (1 - q_w e) (ptc e * (1 / 20))"

definition red_uniform :: "red \<Rightarrow> real \<times> red" where
  "red_uniform s = (rng_double s (rdrawn s), s\<lparr>rdrawn := rdrawn s + 1\<rparr>)"

text \<open>Less chance of a drop when the queue is far below its average (\<open>cautious_\<close> is 2).\<close>

definition cautious_u :: "real \<Rightarrow> red \<Rightarrow> real res" where
  "cautious_u u s =
     (if cautious (ep s) = 2
      then res_bind (ave_fraction (ep s)) (\<lambda>f.
             if f * v_ave (ev s) = 0 then Inl NotFinite
             else let ratio = of_int (red_size s) / (f * v_ave (ev s))
                  in if ratio = 0 then Inl NotFinite else Inr (if ratio < 1 then u * (1 / ratio) else u))
      else Inr u)"

definition pickPacketForECN :: "addr \<Rightarrow> red \<Rightarrow> addr" where
  "pickPacketForECN p s = p"

text \<open>The result tells whether the packet is dropped.\<close>

definition drop_or_mark :: "addr \<Rightarrow> red \<Rightarrow> bool \<times> red" where
  "drop_or_mark p s =
     (let s = s\<lparr>ev := (ev s)\<lparr>ecount := 0, ecount_bytes := 0\<rparr>\<rparr>; q = pickPacketForECN p s; e = ep s
      in if setbit e \<and> hf_ect s q \<and> (\<not> use_mark_p e \<or> v_prob1 (ev s) < mark_p e)
         then (False, s\<lparr>hf_ce := (hf_ce s)(q := True)\<rparr>) else (True, s))"

definition drop_early :: "addr \<Rightarrow> red \<Rightarrow> (bool \<times> red) res" where
  "drop_early p s =
     (let e = ep s; v = ev s;
          prob1 = calculate_p_new (v_ave v) (th_max e) (gentle e) (v_a v) (v_b v) (v_c v) (v_d v) (cur_max_p v)
      in res_bind (modify_p prob1 (ecount v) (ecount_bytes v) (bytes e) (mean_pktsize e) (wait e)
                     (psize (mem s) p)) (\<lambda>prob.
           let s = s\<lparr>ev := v\<lparr>v_prob1 := prob1, v_prob := prob\<rparr>\<rparr> in
           res_bind (if cautious e = 1
                     then res_bind (ave_fraction e) (\<lambda>f. Inr (of_int (red_size s) < f * v_ave v))
                     else Inr False) (\<lambda>below.
             if below then Inr (False, s)
             else let (u, s) = red_uniform s
                  in res_bind (cautious_u u s) (\<lambda>u.
                       Inr (if u \<le> v_prob (ev s) then drop_or_mark p s else (False, s))))))"

subsection \<open>\<open>enque\<close> and \<open>deque\<close>\<close>

definition red_victim :: "red \<Rightarrow> (int \<times> red) res" where
  "red_victim s =
     (let len = pq_len (red_q s)
      in if red_drop_front s then Inr (tmin 1 (len - 1), s)
         else if red_drop_rand s
         then if len = 0 then Inl DivisionByZero
              else Inr (int (rng_pos s (rdrawn s)) mod len, s\<lparr>rdrawn := rdrawn s + 1\<rparr>)
         else Inr (len - 1, s))"

definition pickPacketToDrop :: "red \<Rightarrow> (addr option \<times> red) res" where
  "pickPacketToDrop s =
     res_bind (red_victim s) (\<lambda>(n, s).
       case pq_lookup (mem s) (red_q s) n of None \<Rightarrow> Inl LoopDoesNotEnd | Some r \<Rightarrow> Inr (r, s))"

definition red_q_enque :: "addr \<Rightarrow> red \<Rightarrow> red" where
  "red_q_enque p s = (case pq_enque p (mem s) (red_q s) of (_, m, q) \<Rightarrow> s\<lparr>mem := m, red_q := q\<rparr>)"

definition red_q_remove :: "addr option \<Rightarrow> red \<Rightarrow> (addr \<times> red) res" where
  "red_q_remove r s =
     (case r of
        None \<Rightarrow> Inl RemoveTargetNotFound
      | Some p \<Rightarrow> res_bind (of_loop (pq_remove p (mem s) (red_q s))) (\<lambda>(m, q).
                    Inr (p, s\<lparr>mem := m, red_q := q\<rparr>)))"

text \<open>The number of packets that an idle link could have sent.\<close>

definition idle_rate :: "edp \<Rightarrow> real" where
  "idle_rate e =
     (if cautious e = 3 then ptc e * of_int (mean_pktsize e) / of_int (idle_pktsize e) else ptc e)"

definition idle_arrivals :: "time \<Rightarrow> red \<Rightarrow> (int \<times> red) res" where
  "idle_arrivals now s =
     (if idle s
      then let e = ep s
           in if cautious e = 3 \<and> idle_pktsize e = 0 then Inl NotFinite
              else let m = int_of_double (idle_rate e * (now - idletime s))
                   in if in_int32 m \<and> in_int32 (m + 1) then Inr (m, s\<lparr>idle := False\<rparr>) else Inl IntOutOfRange
      else Inr (0, s))"

definition red_average :: "time \<Rightarrow> red \<Rightarrow> red res" where
  "red_average now s =
     res_bind (idle_arrivals now s) (\<lambda>(m, s).
     res_bind (estimator now (red_size s) (m + 1) (v_ave (ev s)) (q_w (ep s)) (ep s) (ev s)) (\<lambda>(a, v).
       Inr (s\<lparr>ev := v\<lparr>v_ave := a\<rparr>\<rparr>)))"

datatype drop_type = DTYPE_NONE | DTYPE_FORCED | DTYPE_UNFORCED

definition red_limit :: "red \<Rightarrow> int" where
  "red_limit s = (if rqib s then qlim s * mean_pktsize (ep s) else qlim s)"

definition above_max :: "red \<Rightarrow> bool" where
  "above_max s \<longleftrightarrow>
     \<not> use_mark_p (ep s) \<and>
     (\<not> gentle (ep s) \<and> th_max (ep s) \<le> v_ave (ev s) \<or> gentle (ep s) \<and> 2 * th_max (ep s) \<le> v_ave (ev s))"

definition red_decide :: "addr \<Rightarrow> red \<Rightarrow> (drop_type \<times> red) res" where
  "red_decide p s =
     (let qlen = red_size s; s = s\<lparr>curq := qlen\<rparr>
      in res_bind
           (if th_min (ep s) \<le> v_ave (ev s) \<and> 1 < qlen
            then if above_max s then Inr (DTYPE_FORCED, s)
                 else if \<not> old (ev s)
                 then Inr (DTYPE_NONE, s\<lparr>ev := (ev s)\<lparr>ecount := 1, ecount_bytes := psize (mem s) p, old := True\<rparr>\<rparr>)
                 else res_bind (drop_early p s) (\<lambda>(d, s). Inr (if d then DTYPE_UNFORCED else DTYPE_NONE, s))
            else Inr (DTYPE_NONE, s\<lparr>ev := (ev s)\<lparr>v_prob := 0, old := False\<rparr>\<rparr>)) (\<lambda>(d, s).
           Inr (if red_limit s \<le> qlen then DTYPE_FORCED else d, s)))"

definition red_drop :: "addr \<Rightarrow> red \<Rightarrow> red" where
  "red_drop p s = (if has_de_drop s then (queue_drop p s)\<lparr>edropped := edropped s @ [p]\<rparr> else queue_drop p s)"

definition drop_unforced :: "addr \<Rightarrow> red \<Rightarrow> red res" where
  "drop_unforced p s =
     (let q = pickPacketForECN p s
      in if q \<noteq> p then res_bind (red_q_remove (Some q) (red_q_enque p s)) (\<lambda>(q, s). Inr (red_drop q s))
         else Inr (red_drop p s))"

definition drop_forced :: "red \<Rightarrow> red res" where
  "drop_forced s =
     res_bind (pickPacketToDrop s) (\<lambda>(r, s).
     res_bind (red_q_remove r s) (\<lambda>(p, s).
       let s = queue_drop p s
       in Inr (if ns1_compat s then s else s\<lparr>ev := (ev s)\<lparr>ecount := 0, ecount_bytes := 0\<rparr>\<rparr>)))"

definition red_count :: "addr \<Rightarrow> red \<Rightarrow> red" where
  "red_count p s =
     s\<lparr>ev := (ev s)\<lparr>ecount := int32_of (ecount (ev s) + 1),
                   ecount_bytes := int32_of (ecount_bytes (ev s) + psize (mem s) p)\<rparr>\<rparr>"

definition red_enque :: "time \<Rightarrow> addr \<Rightarrow> red \<Rightarrow> red res" where
  "red_enque now p s =
     res_bind (red_average now s) (\<lambda>s.
     res_bind (red_decide p (red_count p (red_stats now s))) (\<lambda>(d, s).
       if d = DTYPE_UNFORCED then drop_unforced p s
       else let s = red_q_enque p s in if d = DTYPE_FORCED then drop_forced s else Inr s))"

definition red_deque :: "time \<Rightarrow> red \<Rightarrow> (addr option \<times> red) res" where
  "red_deque now s =
     (let s = red_stats now s; (r, q) = pq_deque (mem s) (red_q s); s = s\<lparr>red_q := q\<rparr>
      in Inr (r, if r = None then s\<lparr>idle := True, idletime := now\<rparr> else s\<lparr>idle := False\<rparr>))"

definition red_reset :: "time \<Rightarrow> red \<Rightarrow> red res" where
  "red_reset now s =
     res_bind (reset_params s) (\<lambda>e.
     res_bind (reset_vars e (ev s)) (\<lambda>v.
       Queue_reset red_deque now (s\<lparr>ep := e, ev := v, idle := True, idletime := now\<rparr>)))"

definition red_recv :: "time \<Rightarrow> addr \<Rightarrow> red \<Rightarrow> red res" where
  "red_recv = Queue_recv red_enque red_deque"

definition red_resume :: "time \<Rightarrow> red \<Rightarrow> red res" where
  "red_resume = Queue_resume red_deque"

end
