(* ===== verification/Red_List.thy ===== *)
theory Red_List
  imports Red_Queue
begin

section \<open>The packets of a RED queue\<close>

text \<open>
  What \<open>enque\<close> and \<open>deque\<close> of \<open>REDQueue\<close> do to the list of queued packets. The decision to drop reads
  the list but changes only the variables of the early drop, the marks and the counter of random
  numbers. The contract of a work-conserving discipline is discharged for the class.
\<close>

definition red_holds :: "red \<Rightarrow> addr list \<Rightarrow> bool" where
  "red_holds s xs \<longleftrightarrow> pq_rep (mem s) (red_q s) xs"

definition red_frame :: "red \<Rightarrow> red \<Rightarrow> bool" where
  "red_frame s s' \<longleftrightarrow>
     mem s' = mem s \<and> qlim s' = qlim s \<and> blocked s' = blocked s \<and> unblock_on_resume s' = unblock_on_resume s \<and>
     forwarded s' = forwarded s \<and> dropped s' = dropped s \<and> ep s' = ep s \<and> red_q s' = red_q s \<and> rqib s' = rqib s \<and>
     red_drop_front s' = red_drop_front s \<and> red_drop_rand s' = red_drop_rand s \<and> ns1_compat s' = ns1_compat s \<and>
     has_de_drop s' = has_de_drop s \<and> edropped s' = edropped s \<and> hf_ect s' = hf_ect s \<and>
     rng_double s' = rng_double s \<and> rng_pos s' = rng_pos s \<and>
     idletime s' = idletime s"

lemma red_frame_refl [simp]: "red_frame s s"
  by (simp add: red_frame_def)

lemma red_frame_trans: "red_frame s t \<Longrightarrow> red_frame t u \<Longrightarrow> red_frame s u"
  by (simp add: red_frame_def)

lemma red_more:
  fixes s s' :: red
  assumes "queue.more s' = queue.more s"
  shows "ep s' = ep s" "ev s' = ev s" "red_q s' = red_q s" "rqib s' = rqib s" "red_drop_front s' = red_drop_front s"
    "red_drop_rand s' = red_drop_rand s" "ns1_compat s' = ns1_compat s" "has_de_drop s' = has_de_drop s"
    "edropped s' = edropped s" "hf_ect s' = hf_ect s" "rng_double s' = rng_double s" "rng_pos s' = rng_pos s"
    "idle s' = idle s" "idletime s' = idletime s" "red_stats_on s' = red_stats_on s"
  using assms by (cases s; cases s'; simp)+

lemma red_stats_only: "stats_only s (red_stats now s)"
  by (simp add: red_stats_def updateStats_stats)

lemma red_frame_stats: "red_frame s (red_stats now s)"
  using red_stats_only [of s now] red_more [of "red_stats now s" s] by (simp add: red_frame_def stats_only_def)

lemma red_stats_sel [simp]:
  "mem (red_stats now s) = mem s" "red_q (red_stats now s) = red_q s" "blocked (red_stats now s) = blocked s"
  "unblock_on_resume (red_stats now s) = unblock_on_resume s" "forwarded (red_stats now s) = forwarded s"
  "dropped (red_stats now s) = dropped s" "ep (red_stats now s) = ep s"
  using red_frame_stats [of s now] by (simp_all add: red_frame_def)

lemma red_stats_vars [simp]: "ev (red_stats now s) = ev s" "idle (red_stats now s) = idle s"
  "idletime (red_stats now s) = idletime s"
  using red_stats_only [of s now] red_more [of "red_stats now s" s] by (simp_all add: stats_only_def)

lemma red_frame_upd [simp]:
  "red_frame s (t\<lparr>ev := v\<rparr>) = red_frame s t" "red_frame s (t\<lparr>curq := n\<rparr>) = red_frame s t"
  "red_frame s (t\<lparr>hf_ce := c\<rparr>) = red_frame s t" "red_frame s (t\<lparr>rdrawn := k\<rparr>) = red_frame s t"
  "red_frame s (t\<lparr>idle := b\<rparr>) = red_frame s t"
  by (simp_all add: red_frame_def)

lemma red_frame_upd_left [simp]:
  "red_frame (t\<lparr>ev := v\<rparr>) s = red_frame t s" "red_frame (t\<lparr>curq := n\<rparr>) s = red_frame t s"
  "red_frame (t\<lparr>rdrawn := k\<rparr>) s = red_frame t s" "red_frame (t\<lparr>idle := b\<rparr>) s = red_frame t s"
  by (simp_all add: red_frame_def)

lemma red_frame_average: "red_average now s = Inr s' \<Longrightarrow> red_frame s s'"
  by (auto simp: red_average_def idle_arrivals_def Let_def split: if_splits)

lemma red_frame_count: "red_frame s (red_count p s)"
  by (simp add: red_count_def)

lemma red_frame_drop_or_mark: "drop_or_mark p s = (d, s') \<Longrightarrow> red_frame s s'"
  by (auto simp: drop_or_mark_def Let_def split: if_splits)

lemma red_frame_drop_early:
  assumes "drop_early p s = Inr (d, s')" shows "red_frame s s'"
proof -
  obtain v k where "s' = s\<lparr>ev := v\<rparr> \<or> s' = s\<lparr>ev := v, rdrawn := k\<rparr> \<or> drop_or_mark p (s\<lparr>ev := v, rdrawn := k\<rparr>) = (d, s')"
    using assms unfolding drop_early_def Let_def red_uniform_def by (auto split: if_splits)
  then show ?thesis by (auto dest: red_frame_drop_or_mark)
qed

lemma red_frame_decide:
  assumes "red_decide p s = Inr (d, s')" shows "red_frame s s'"
proof -
  obtain v where "s' = s\<lparr>curq := red_size s\<rparr> \<or> s' = s\<lparr>curq := red_size s, ev := v\<rparr> \<or>
      (\<exists>b. drop_early p (s\<lparr>curq := red_size s\<rparr>) = Inr (b, s'))"
    using assms unfolding red_decide_def Let_def by (auto split: if_splits)
  then show ?thesis by (auto dest: red_frame_drop_early)
qed

lemma red_holds_frame: "red_frame s s' \<Longrightarrow> red_holds s' xs = red_holds s xs"
  by (simp add: red_frame_def red_holds_def)

lemma red_holds_len: "red_holds s xs \<Longrightarrow> pq_len (red_q s) = int (length xs)"
  by (simp add: red_holds_def pq_rep_length)

lemma red_holds_size:
  "red_holds s xs \<Longrightarrow> red_size s = (if rqib s then total_size (mem s) xs else int (length xs))"
  by (simp add: red_holds_def red_size_def pq_rep_length pq_rep_bytes)

subsection \<open>Dropping\<close>

lemma red_q_enque_holds:
  assumes "red_holds s xs" "p \<notin> set xs"
  obtains m q where "red_q_enque p s = s\<lparr>mem := m, red_q := q\<rparr>" "pq_rep m q (xs @ [p])" "pkt_at m = pkt_at (mem s)"
proof -
  obtain pt m q where e: "pq_enque p (mem s) (red_q s) = (pt, m, q)" by (metis prod_cases3)
  have "pq_rep m q (xs @ [p])" "pkt_at m = pkt_at (mem s)"
    using pq_enque_rep [OF _ assms(2) e] assms(1) by (simp_all add: red_holds_def)
  with that e show thesis by (simp add: red_q_enque_def)
qed

text \<open>The packet a full queue drops: the second one, a random one, or the last.\<close>

definition victim_index :: "red \<Rightarrow> nat \<Rightarrow> nat" where
  "victim_index s n =
     (if red_drop_front s then min 1 (n - 1)
      else if red_drop_rand s then rng_pos s (rdrawn s) mod n else n - 1)"

lemma red_victim_holds:
  assumes "red_holds s xs" "xs \<noteq> []"
  obtains s1 where "red_victim s = Inr (int (victim_index s (length xs)), s1)" "red_frame s s1" "ev s1 = ev s"
    "idle s1 = idle s" "idletime s1 = idletime s"
proof -
  have n: "pq_len (red_q s) = int (length xs)" "0 < length xs" using assms red_holds_len by auto
  let ?s = "if \<not> red_drop_front s \<and> red_drop_rand s then s\<lparr>rdrawn := rdrawn s + 1\<rparr> else s"
  have "red_victim s = Inr (int (victim_index s (length xs)), ?s)"
    using n by (auto simp: red_victim_def victim_index_def tmin_def of_nat_mod Let_def min_def not_less
        le_Suc_eq of_nat_diff)
  then show thesis by (rule that) (simp_all add: red_frame_def)
qed

lemma victim_index_less: "xs \<noteq> [] \<Longrightarrow> victim_index s (length xs) < length xs"
  by (cases xs) (auto simp: victim_index_def)

text \<open>A forced drop clears the counters of the early drop, or not (\<open>ns1_compat_\<close>).\<close>

definition vars_kept :: "red \<Rightarrow> red \<Rightarrow> bool" where
  "vars_kept s s' \<longleftrightarrow> ev s' = ev s \<or> ev s' = (ev s)\<lparr>ecount := 0, ecount_bytes := 0\<rparr>"

lemma drop_forced_holds:
  assumes h: "red_holds s xs" "xs \<noteq> []"
  obtains m q s1 where "drop_forced s = Inr s1" "mem s1 = m" "red_q s1 = q" "pkt_at m = pkt_at (mem s)"
    "pq_rep m q (take (victim_index s (length xs)) xs @ drop (Suc (victim_index s (length xs))) xs)"
    "red_frame (s\<lparr>mem := m, red_q := q, dropped := dropped s @ [xs ! victim_index s (length xs)]\<rparr>) s1"
    "vars_kept s s1" "idle s1 = idle s" "idletime s1 = idletime s"
proof -
  let ?i = "victim_index s (length xs)"
  obtain s0 where v: "red_victim s = Inr (int ?i, s0)" "red_frame s s0" "ev s0 = ev s" "idle s0 = idle s"
    "idletime s0 = idletime s"
    by (rule red_victim_holds [OF h])
  have i: "?i < length xs" using h(2) by (rule victim_index_less)
  have rep: "pq_rep (mem s) (red_q s) xs" using h(1) by (simp add: red_holds_def)
  have k: "mem s0 = mem s" "red_q s0 = red_q s" using v(2) by (simp_all add: red_frame_def)
  have l: "pq_lookup (mem s) (red_q s) (int ?i) = Some (Some (xs ! ?i))" using pq_lookup_rep [OF rep] i by simp
  have "xs = take ?i xs @ xs ! ?i # drop (Suc ?i) xs" using i by (rule id_take_nth_drop)
  then obtain m q where r: "of_loop (pq_remove (xs ! ?i) (mem s) (red_q s)) = Inr (m, q)"
    "pq_rep m q (take ?i xs @ drop (Suc ?i) xs)" "pkt_at m = pkt_at (mem s)"
    using pqf.rem_rep [of "mem s" "red_q s" "take ?i xs" "xs ! ?i" "drop (Suc ?i) xs"] rep by metis
  let ?t = "queue_drop (xs ! ?i) (s0\<lparr>mem := m, red_q := q\<rparr>)"
  let ?s1 = "if ns1_compat s then ?t else ?t\<lparr>ev := (ev ?t)\<lparr>ecount := 0, ecount_bytes := 0\<rparr>\<rparr>"
  have n: "ns1_compat ?t = ns1_compat s" using v(2) by (simp add: red_frame_def queue_drop_def)
  have "drop_forced s = Inr ?s1"
    using v(1) l r(1) n by (simp add: drop_forced_def pickPacketToDrop_def k red_q_remove_def Let_def)
  then show thesis
    by (rule that [where m = m and q = q]) (use v r in \<open>simp_all add: red_frame_def queue_drop_def vars_kept_def\<close>)
qed

subsection \<open>\<open>enque\<close>\<close>

text \<open>\<open>enque\<close> as a function on lists, given the kind of drop and the victim of a forced one.\<close>

definition abs_red_enque :: "drop_type \<Rightarrow> nat \<Rightarrow> addr \<Rightarrow> addr list \<Rightarrow> addr list \<times> addr list" where
  "abs_red_enque d i p xs =
     (let ys = xs @ [p]
      in case d of
           DTYPE_UNFORCED \<Rightarrow> (xs, [p])
         | DTYPE_NONE \<Rightarrow> (ys, [])
         | DTYPE_FORCED \<Rightarrow> (take i ys @ drop (Suc i) ys, [ys ! i]))"

lemma abs_red_enque_mset:
  assumes "abs_red_enque d i p xs = (ys, ds)" "i \<le> length xs"
  shows "mset ys + mset ds = mset xs + {#p#}"
proof (cases d)
  case DTYPE_FORCED
  have "mset (xs @ [p]) = mset (take i (xs @ [p]) @ (xs @ [p]) ! i # drop (Suc i) (xs @ [p]))"
    using assms(2) by (subst id_take_nth_drop [of i "xs @ [p]", symmetric]) simp_all
  then show ?thesis using assms(1) DTYPE_FORCED by (auto simp: abs_red_enque_def Let_def)
qed (use assms in \<open>auto simp: abs_red_enque_def\<close>)

text \<open>A completed \<open>enque\<close>: the state \<open>s1\<close> after the decision, and what is left of it.\<close>

definition enqueued :: "addr \<Rightarrow> addr list \<Rightarrow> drop_type \<Rightarrow> red \<Rightarrow> red \<Rightarrow> bool" where
  "enqueued p xs d s1 s' \<longleftrightarrow>
     (\<exists>ys ds. abs_red_enque d (victim_index s1 (length xs + 1)) p xs = (ys, ds) \<and> red_holds s' ys \<and>
        pkt_at (mem s') = pkt_at (mem s1) \<and> dropped s' = dropped s1 @ ds)"

definition same_port :: "red \<Rightarrow> red \<Rightarrow> bool" where
  "same_port s s' \<longleftrightarrow>
     blocked s' = blocked s \<and> unblock_on_resume s' = unblock_on_resume s \<and> forwarded s' = forwarded s \<and>
     qlim s' = qlim s \<and> ep s' = ep s \<and> rqib s' = rqib s \<and> pkt_at (mem s') = pkt_at (mem s) \<and>
     red_drop_front s' = red_drop_front s \<and> red_drop_rand s' = red_drop_rand s \<and> hf_ect s' = hf_ect s"

lemma same_port_trans: "same_port s t \<Longrightarrow> same_port t u \<Longrightarrow> same_port s u"
  by (simp add: same_port_def)

lemma red_frame_port: "red_frame s s' \<Longrightarrow> same_port s s'"
  by (simp add: red_frame_def same_port_def)

lemma red_drop_sel [simp]:
  "mem (red_drop p s) = mem s" "red_q (red_drop p s) = red_q s" "ev (red_drop p s) = ev s"
  "dropped (red_drop p s) = dropped s @ [p]" "same_port s (red_drop p s)" "idle (red_drop p s) = idle s"
  "idletime (red_drop p s) = idletime s"
  by (simp_all add: red_drop_def queue_drop_def same_port_def)

lemma red_enque_cases:
  assumes h: "red_holds s xs" "p \<notin> set xs"
    and a: "red_average now s = Inr s0" and d: "red_decide p (red_count p (red_stats now s0)) = Inr (d, s1)"
  shows "\<exists>s'. red_enque now p s = Inr s' \<and> enqueued p xs d s1 s' \<and> same_port s s' \<and> vars_kept s1 s' \<and>
    idle s' = idle s1 \<and> idletime s' = idletime s1"
proof -
  have "red_frame (red_stats now s0) s1" by (rule red_frame_trans [OF red_frame_count red_frame_decide [OF d]])
  then have f: "red_frame s s1"
    using red_frame_trans [OF red_frame_trans [OF red_frame_average [OF a] red_frame_stats]] by blast
  then have h1: "red_holds s1 xs" using h(1) red_holds_frame by blast
  obtain m q where e: "red_q_enque p s1 = s1\<lparr>mem := m, red_q := q\<rparr>" "pq_rep m q (xs @ [p])"
    "pkt_at m = pkt_at (mem s1)" by (rule red_q_enque_holds [OF h1 h(2)])
  have port: "same_port s s1" using f by (rule red_frame_port)
  show ?thesis
  proof (cases d)
    case DTYPE_UNFORCED
    then have "red_enque now p s = Inr (red_drop p s1)"
      using a d by (simp add: red_enque_def drop_unforced_def pickPacketForECN_def)
    moreover have "enqueued p xs d s1 (red_drop p s1)"
      using h1 DTYPE_UNFORCED by (auto simp: enqueued_def abs_red_enque_def red_holds_def)
    ultimately show ?thesis using same_port_trans [OF port, of "red_drop p s1"] by (auto simp: vars_kept_def)
  next
    case DTYPE_NONE
    then have "red_enque now p s = Inr (s1\<lparr>mem := m, red_q := q\<rparr>)" using a d e by (simp add: red_enque_def)
    moreover have "enqueued p xs d s1 (s1\<lparr>mem := m, red_q := q\<rparr>)"
      using e DTYPE_NONE by (auto simp: enqueued_def abs_red_enque_def red_holds_def)
    ultimately show ?thesis using port e(3) by (auto simp: vars_kept_def same_port_def)
  next
    case DTYPE_FORCED
    let ?t = "s1\<lparr>mem := m, red_q := q\<rparr>" and ?ys = "xs @ [p]" and ?i = "victim_index s1 (length xs + 1)"
    have ht: "red_holds ?t ?ys" using e(2) by (simp add: red_holds_def)
    have i: "victim_index ?t (length ?ys) = ?i" by (simp add: victim_index_def)
    obtain m' q' s2 where r: "drop_forced ?t = Inr s2" "mem s2 = m'" "red_q s2 = q'" "pkt_at m' = pkt_at (mem ?t)"
      "pq_rep m' q' (take ?i ?ys @ drop (Suc ?i) ?ys)"
      "red_frame (?t\<lparr>mem := m', red_q := q', dropped := dropped ?t @ [?ys ! ?i]\<rparr>) s2"
      "vars_kept ?t s2"
      "idle s2 = idle ?t" "idletime s2 = idletime ?t"
      using drop_forced_holds [OF ht] unfolding i by blast
    have "red_enque now p s = Inr s2" using a d e(1) r(1) DTYPE_FORCED by (simp add: red_enque_def)
    moreover have "enqueued p xs d s1 s2"
      using r e(3) DTYPE_FORCED by (auto simp: enqueued_def abs_red_enque_def red_holds_def red_frame_def Let_def)
    moreover have "same_port s1 s2" using r e(3) by (auto simp: red_frame_def same_port_def)
    ultimately show ?thesis using same_port_trans [OF port] r(7-9) by (auto simp: vars_kept_def)
  qed
qed

lemma red_enqueE:
  assumes h: "red_holds s xs" "p \<notin> set xs" and r: "red_enque now p s = Inr s'"
  obtains s0 d s1 where "red_average now s = Inr s0" "red_decide p (red_count p (red_stats now s0)) = Inr (d, s1)"
    "enqueued p xs d s1 s'" "same_port s s'" "vars_kept s1 s'" "red_frame s s1" "idle s' = idle s1"
    "idletime s' = idletime s1"
proof -
  obtain s0 d s1 where a: "red_average now s = Inr s0" and d: "red_decide p (red_count p (red_stats now s0)) = Inr (d, s1)"
    using r by (auto simp: red_enque_def)
  have "red_frame (red_stats now s0) s1" by (rule red_frame_trans [OF red_frame_count red_frame_decide [OF d]])
  then have f: "red_frame s s1"
    using red_frame_trans [OF red_frame_trans [OF red_frame_average [OF a] red_frame_stats]] by blast
  show thesis using red_enque_cases [OF h a d] r that [OF a d _ _ _ f] by auto
qed

subsection \<open>\<open>deque\<close> and the contract\<close>

lemma red_deque_nil:
  "red_holds s [] \<Longrightarrow> red_deque now s = Inr (None, (red_stats now s)\<lparr>idle := True, idletime := now\<rparr>)"
proof -
  assume "red_holds s []"
  then have "pq_deque (mem (red_stats now s)) (red_q (red_stats now s)) = (None, red_q (red_stats now s))"
    by (simp add: red_holds_def pqf.deq_nil)
  then show ?thesis by (simp add: red_deque_def Let_def)
qed

lemma red_deque_cons:
  assumes "red_holds s (x # xs)"
  obtains q where "red_deque now s = Inr (Some x, (red_stats now s)\<lparr>red_q := q, idle := False\<rparr>)"
    "pq_rep (mem s) q xs"
proof -
  have "pq_rep (mem s) (red_q s) (x # xs)" using assms by (simp add: red_holds_def)
  from pqf.deq_cons [OF this] that show thesis by (auto simp: red_deque_def Let_def)
qed

lemma red_deque_link:
  assumes "red_deque now s = Inr (r, s')"
  shows "blocked s' = blocked s \<and> unblock_on_resume s' = unblock_on_resume s \<and> forwarded s' = forwarded s"
proof -
  obtain q where q: "pq_deque (mem (red_stats now s)) (red_q (red_stats now s)) = (r, q)"
    using assms by (auto simp: red_deque_def Let_def split: prod.splits)
  show ?thesis using assms q by (cases r) (auto simp: red_deque_def Let_def)
qed

text \<open>\<open>enque\<close> leaves the link alone, whatever the queue holds.\<close>

definition link_kept :: "red \<Rightarrow> red \<Rightarrow> bool" where
  "link_kept s s' \<longleftrightarrow>
     blocked s' = blocked s \<and> unblock_on_resume s' = unblock_on_resume s \<and> forwarded s' = forwarded s"

lemma link_kept_trans: "link_kept s t \<Longrightarrow> link_kept t u \<Longrightarrow> link_kept s u"
  by (simp add: link_kept_def)

lemma link_kept_frame: "red_frame s s' \<Longrightarrow> link_kept s s'"
  by (simp add: red_frame_def link_kept_def)

lemma link_kept_enque: "link_kept s (red_q_enque p s)"
  by (simp add: link_kept_def red_q_enque_def split: prod.splits)

lemma link_kept_drop: "link_kept s (red_drop p s)" "link_kept s (queue_drop p s)"
  by (simp_all add: link_kept_def red_drop_def queue_drop_def)

lemma link_kept_remove: "red_q_remove r s = Inr (p, s') \<Longrightarrow> link_kept s s'"
  by (auto simp: red_q_remove_def link_kept_def split: option.splits)

lemma link_kept_pick: "pickPacketToDrop s = Inr (r, s') \<Longrightarrow> link_kept s s'"
  by (auto simp: pickPacketToDrop_def red_victim_def link_kept_def Let_def split: if_splits option.splits)

lemma link_kept_forced:
  assumes "drop_forced s = Inr s'" shows "link_kept s s'"
proof -
  obtain r s1 p s2 where r: "pickPacketToDrop s = Inr (r, s1)" "red_q_remove r s1 = Inr (p, s2)"
    "s' = queue_drop p s2 \<or> (\<exists>v. s' = (queue_drop p s2)\<lparr>ev := v\<rparr>)"
    using assms by (auto simp: drop_forced_def Let_def split: if_splits)
  have "link_kept s2 s'" using r(3) link_kept_drop(2) [of s2 p] by (auto simp: link_kept_def)
  then show ?thesis using link_kept_trans [OF link_kept_trans [OF link_kept_pick [OF r(1)] link_kept_remove [OF r(2)]]] by blast
qed

lemma link_kept_red_enque:
  assumes "red_enque now p s = Inr s'" shows "link_kept s s'"
proof -
  obtain s0 d s1 where a: "red_average now s = Inr s0" "red_decide p (red_count p (red_stats now s0)) = Inr (d, s1)"
    "(if d = DTYPE_UNFORCED then drop_unforced p s1
      else if d = DTYPE_FORCED then drop_forced (red_q_enque p s1) else Inr (red_q_enque p s1)) = Inr s'"
    using assms unfolding red_enque_def Let_def by (simp split del: if_split) blast
  have "red_frame (red_stats now s0) s1" by (rule red_frame_trans [OF red_frame_count red_frame_decide [OF a(2)]])
  then have f: "link_kept s s1"
    using red_frame_trans [OF red_frame_trans [OF red_frame_average [OF a(1)] red_frame_stats]] link_kept_frame by blast
  have "link_kept s1 s'"
    using a(3) link_kept_drop(1) link_kept_enque [of s1 p] link_kept_forced [of "red_q_enque p s1" s'] link_kept_trans
    by (auto simp: drop_unforced_def pickPacketForECN_def split: if_splits)
  with f show ?thesis by (rule link_kept_trans)
qed

interpretation redw: work_conserving red_holds red_enque red_deque
proof (unfold_locales, goal_cases)
  case (1 s' s xs)
  then show ?case using red_more(3) [of s' s] by (simp add: red_holds_def)
next
  case (2 s xs p now s')
  obtain s0 d s1 where e: "enqueued p xs d s1 s'" "same_port s s'" "red_frame s s1"
    by (rule red_enqueE [OF 2])
  then obtain ys ds where ys: "abs_red_enque d (victim_index s1 (length xs + 1)) p xs = (ys, ds)" "red_holds s' ys"
    "dropped s' = dropped s @ ds" by (auto simp: enqueued_def red_frame_def)
  have "victim_index s1 (length xs + 1) \<le> length xs" using victim_index_less [of "xs @ [p]" s1] by simp
  from abs_red_enque_mset [OF ys(1) this] ys e(2) show ?case
    by (intro exI [of _ ys]) (auto simp: accounted_def same_port_def ac_simps)
next
  case (3 now p s s')
  then show ?case using link_kept_red_enque [of now p s s'] by (simp add: link_kept_def)
next
  case (4 s xs now r s')
  show ?case
  proof (cases xs)
    case Nil
    then show ?thesis using 4 red_deque_nil [of s now]
      by (intro exI [of _ "[]"]) (auto simp: accounted_def red_holds_def)
  next
    case (Cons x ys)
    then obtain q where "red_deque now s = Inr (Some x, (red_stats now s)\<lparr>red_q := q, idle := False\<rparr>)"
      "pq_rep (mem s) q ys" using red_deque_cons 4(1) by blast
    then show ?thesis using 4(2) Cons by (intro exI [of _ ys]) (auto simp: accounted_def red_holds_def)
  qed
next
  case (5 now s r s')
  then show ?case by (rule red_deque_link)
next
  case (6 s xs now s')
  show ?case
  proof (cases xs)
    case Nil
    then show ?thesis using 6 red_deque_nil [of s now] by (auto simp: red_holds_def)
  next
    case (Cons x ys)
    then show ?thesis using 6 red_deque_cons [of s x ys now] by auto
  qed
qed

end
