(* ===== verification/Red_Probability.thy ===== *)
theory Red_Probability
  imports Red_List
begin

section \<open>Average and probability of RED\<close>

text \<open>
  The arithmetic of the early drop: the average as a weighted mean, the bounds of the adapted
  \<open>max_p\<close>, the ramp of the probability between the thresholds, and the spreading of the drops. Then
  the invariant of the variables and that every operation of the queue keeps it.
\<close>

subsection \<open>The average\<close>

lemma est_loop_power: "est_loop m w x = x * (1 - w) ^ nat (m - 1)"
proof (induction m w x rule: est_loop.induct)
  case (1 m w x)
  show ?case
  proof (cases "1 \<le> m - 1")
    case True
    then have "nat (m - 1) = Suc (nat (m - 1 - 1))" by simp
    with 1 [OF True] True show ?thesis by (subst est_loop.simps) (simp add: ac_simps)
  next
    case False
    then show ?thesis by (subst est_loop.simps) simp
  qed
qed

lemma weighted_mean_bounds:
  fixes w :: real
  assumes "0 \<le> w" "w \<le> 1" "0 \<le> x" "x \<le> B" "0 \<le> y" "y \<le> B"
  shows "0 \<le> x * (1 - w) + w * y" "x * (1 - w) + w * y \<le> B"
proof -
  show "0 \<le> x * (1 - w) + w * y" using assms by simp
  have "x * (1 - w) + w * y \<le> B * (1 - w) + w * B" using assms by (intro add_mono mult_left_mono mult_right_mono) auto
  then show "x * (1 - w) + w * y \<le> B" by (simp add: algebra_simps)
qed

lemma est_loop_bounds:
  fixes w :: real
  assumes "0 \<le> w" "w \<le> 1" "0 \<le> x" "x \<le> B"
  shows "0 \<le> est_loop m w x" "est_loop m w x \<le> B"
proof -
  have q: "0 \<le> (1 - w) ^ nat (m - 1)" "(1 - w) ^ nat (m - 1) \<le> 1" using assms by (simp_all add: power_le_one)
  have "x * (1 - w) ^ nat (m - 1) \<le> x * 1" using q(2) assms(3) by (rule mult_left_mono)
  then show "est_loop m w x \<le> B" using assms(4) by (simp add: est_loop_power)
  show "0 \<le> est_loop m w x" using q assms by (simp add: est_loop_power)
qed

subsection \<open>The adaptation of \<open>max_p\<close>\<close>

definition adapt_ok :: "edp \<Rightarrow> bool" where
  "adapt_ok e \<longleftrightarrow> 0 \<le> alpha e \<and> 0 \<le> beta e \<and> (adaptive e = 1 \<and> feng_adaptive e = 1 \<longrightarrow> 0 < alpha e)"

lemma updateMaxP_keeps:
  "v_ave (updateMaxP a now e v) = v_ave v" "v_a (updateMaxP a now e v) = v_a v" "v_b (updateMaxP a now e v) = v_b v"
  "v_c (updateMaxP a now e v) = v_c v" "v_d (updateMaxP a now e v) = v_d v" "ecount (updateMaxP a now e v) = ecount v"
  "ecount_bytes (updateMaxP a now e v) = ecount_bytes v" "old (updateMaxP a now e v) = old v"
  "v_prob1 (updateMaxP a now e v) = v_prob1 v" "v_prob (updateMaxP a now e v) = v_prob v"
  by (simp_all add: updateMaxP_def Let_def)

lemma updateMaxP_bounds:
  assumes "0 \<le> alpha e" "0 \<le> beta e" "beta e \<le> 1" "0 \<le> bottom_p e"
    and "beta e * bottom_p e \<le> cur_max_p v" "cur_max_p v \<le> top_p e + alpha e"
  shows "beta e * bottom_p e \<le> cur_max_p (updateMaxP a now e v)"
    "cur_max_p (updateMaxP a now e v) \<le> top_p e + alpha e"
proof -
  have nn: "0 \<le> cur_max_p v" using mult_nonneg_nonneg [OF assms(2,4)] assms(5) by linarith
  have down: "cur_max_p v * beta e \<le> cur_max_p v * 1" using assms(3) nn by (rule mult_left_mono)
  have low: "beta e * bottom_p e \<le> cur_max_p v * beta e" if "bottom_p e < cur_max_p v"
    using that assms(2) mult_left_mono [of "bottom_p e" "cur_max_p v" "beta e"] by (simp add: mult.commute)
  let ?a = "if cur_max_p v / 4 < alpha e then cur_max_p v / 4 else alpha e"
  have a: "0 \<le> ?a" "?a \<le> alpha e" using nn assms(1) by auto
  show "beta e * bottom_p e \<le> cur_max_p (updateMaxP a now e v)"
    using low a(1) assms(5) by (auto simp: updateMaxP_def Let_def)
  show "cur_max_p (updateMaxP a now e v) \<le> top_p e + alpha e"
    using down a(2) assms(6) by (auto simp: updateMaxP_def Let_def)
qed

text \<open>
  Steps with the average low, or high. \<open>low_average\<close> and \<open>high_average\<close> are the averages outside the
  middle fifth between the thresholds.
\<close>

definition low_average :: "edp \<Rightarrow> real \<Rightarrow> bool" where
  "low_average e a \<longleftrightarrow> a < th_min e + 2 / 5 * (th_max e - th_min e)"

definition high_average :: "edp \<Rightarrow> real \<Rightarrow> bool" where
  "high_average e a \<longleftrightarrow> th_max e - 2 / 5 * (th_max e - th_min e) < a"

lemma low_not_high: "th_min e < th_max e \<Longrightarrow> low_average e a \<Longrightarrow> \<not> high_average e a"
  by (simp add: low_average_def high_average_def field_simps)

lemma updateMaxP_low:
  "th_min e < th_max e \<Longrightarrow> low_average e a \<Longrightarrow>
   cur_max_p (updateMaxP a now e v) = (if bottom_p e < cur_max_p v then cur_max_p v * beta e else cur_max_p v)"
  using low_not_high [of e a] by (auto simp: updateMaxP_def Let_def low_average_def high_average_def)

lemma updateMaxP_high:
  "th_min e < th_max e \<Longrightarrow> high_average e a \<Longrightarrow>
   cur_max_p (updateMaxP a now e v) =
     (if cur_max_p v < top_p e then cur_max_p v + min (alpha e) (cur_max_p v / 4) else cur_max_p v)"
  using low_not_high [of e a] by (auto simp: updateMaxP_def Let_def low_average_def high_average_def min_def)

text \<open>The adaptation at successive averages and times.\<close>

fun adapt_run :: "(real \<times> time) list \<Rightarrow> edp \<Rightarrow> edv \<Rightarrow> edv" where
  "adapt_run [] e v = v"
| "adapt_run ((a, now) # xs) e v = adapt_run xs e (updateMaxP a now e v)"

lemma adapt_run_low:
  assumes "th_min e < th_max e" "0 \<le> beta e" "beta e \<le> 1" "0 \<le> bottom_p e" "0 \<le> cur_max_p v"
    and "\<forall>(a, now)\<in>set xs. low_average e a"
  shows "cur_max_p (adapt_run xs e v) \<le> max (bottom_p e) (cur_max_p v * beta e ^ length xs)"
  using assms(5,6)
proof (induction xs arbitrary: v)
  case (Cons y xs)
  obtain a now where y: "y = (a, now)" "low_average e a" using Cons.prems(2) by (cases y) auto
  let ?v = "updateMaxP a now e v"
  have u: "cur_max_p ?v = (if bottom_p e < cur_max_p v then cur_max_p v * beta e else cur_max_p v)"
    by (rule updateMaxP_low [OF assms(1) y(2)])
  have "0 \<le> cur_max_p ?v" using u Cons.prems(1) assms(2) by simp
  then have i: "cur_max_p (adapt_run xs e ?v) \<le> max (bottom_p e) (cur_max_p ?v * beta e ^ length xs)"
    using Cons.IH [of ?v] Cons.prems(2) by simp
  have p: "beta e ^ length xs \<le> 1" using assms(2,3) by (simp add: power_le_one)
  show ?case
  proof (cases "bottom_p e < cur_max_p v")
    case True
    then show ?thesis using i u y(1) by (simp add: mult.assoc)
  next
    case False
    then have "cur_max_p ?v * beta e ^ length xs \<le> cur_max_p v * 1"
      using u Cons.prems(1) by (simp only: if_False) (rule mult_left_mono [OF p])
    then show ?thesis using i y(1) False by simp
  qed
qed simp

lemma adapt_run_high:
  assumes "th_min e < th_max e" "0 \<le> alpha e" "0 \<le> d" "d \<le> alpha e" "4 * d \<le> cur_max_p v"
    and "\<forall>(a, now)\<in>set xs. high_average e a"
  shows "min (top_p e) (cur_max_p v + real (length xs) * d) \<le> cur_max_p (adapt_run xs e v)"
  using assms(5,6)
proof (induction xs arbitrary: v)
  case (Cons y xs)
  obtain a now where y: "y = (a, now)" "high_average e a" using Cons.prems(2) by (cases y) auto
  let ?v = "updateMaxP a now e v" and ?k = "real (length xs) * d"
  have u: "cur_max_p ?v = (if cur_max_p v < top_p e then cur_max_p v + min (alpha e) (cur_max_p v / 4) else cur_max_p v)"
    by (rule updateMaxP_high [OF assms(1) y(2)])
  have g: "d \<le> min (alpha e) (cur_max_p v / 4)" using assms(4) Cons.prems(1) by simp
  have k: "0 \<le> ?k" using assms(3) by simp
  have "4 * d \<le> cur_max_p ?v" using u g Cons.prems(1) assms(3) by (simp split: if_splits)
  then have i: "min (top_p e) (cur_max_p ?v + ?k) \<le> cur_max_p (adapt_run xs e ?v)"
    using Cons.IH [of ?v] Cons.prems(2) by simp
  have s: "real (length (y # xs)) * d = d + ?k" by (simp add: algebra_simps)
  show ?case
  proof (cases "cur_max_p v < top_p e")
    case True
    then have "cur_max_p v + (d + ?k) \<le> cur_max_p ?v + ?k" using u g by simp
    then show ?thesis using i y(1) s by (auto simp: min_def split: if_splits)
  next
    case False
    then have "top_p e \<le> cur_max_p ?v + ?k" using u k by simp
    then show ?thesis using i y(1) by (simp add: min_def split: if_splits)
  qed
qed simp

text \<open>So a long enough run of low averages reaches the bottom, one of high averages the top.\<close>

lemma adapt_reaches_bottom:
  assumes "th_min e < th_max e" "0 \<le> beta e" "beta e < 1" "0 < bottom_p e" "0 \<le> cur_max_p v"
  shows "\<exists>N. \<forall>xs. N \<le> length xs \<and> (\<forall>(a, now)\<in>set xs. low_average e a) \<longrightarrow>
    cur_max_p (adapt_run xs e v) \<le> bottom_p e"
proof -
  obtain N where N: "beta e ^ N < bottom_p e / (cur_max_p v + 1)"
    using real_arch_pow_inv [of "bottom_p e / (cur_max_p v + 1)" "beta e"] assms(3-5) by auto
  have "cur_max_p (adapt_run xs e v) \<le> bottom_p e"
    if x: "N \<le> length xs" "\<forall>(a, now)\<in>set xs. low_average e a" for xs
  proof -
    have "beta e ^ length xs \<le> beta e ^ N" using x(1) assms(2,3) by (simp add: power_decreasing)
    then have "cur_max_p v * beta e ^ length xs \<le> (cur_max_p v + 1) * (bottom_p e / (cur_max_p v + 1))"
      using N assms(2,5) by (intro mult_mono) auto
    also have "\<dots> = bottom_p e" using assms(5) by simp
    finally show ?thesis using adapt_run_low [OF assms(1,2) _ _ assms(5) x(2)] assms(3,4) by simp
  qed
  then show ?thesis by blast
qed

lemma adapt_reaches_top:
  assumes "th_min e < th_max e" "0 < alpha e" "0 < cur_max_p v"
  shows "\<exists>N. \<forall>xs. N \<le> length xs \<and> (\<forall>(a, now)\<in>set xs. high_average e a) \<longrightarrow>
    top_p e \<le> cur_max_p (adapt_run xs e v)"
proof -
  let ?d = "min (alpha e) (cur_max_p v / 4)"
  have d: "0 < ?d" "?d \<le> alpha e" "4 * ?d \<le> cur_max_p v" using assms(2,3) by (auto simp: min_def)
  obtain N where N: "top_p e \<le> real N * ?d"
    using reals_Archimedean3 [OF d(1)] less_imp_le by blast
  have "top_p e \<le> cur_max_p (adapt_run xs e v)"
    if x: "N \<le> length xs" "\<forall>(a, now)\<in>set xs. high_average e a" for xs
  proof -
    have "real N * ?d \<le> real (length xs) * ?d" using x(1) d(1) by (intro mult_right_mono) auto
    then have "top_p e \<le> cur_max_p v + real (length xs) * ?d" using N assms(3) by linarith
    then show ?thesis
      using adapt_run_high [OF assms(1) _ _ d(2,3) x(2)] d(1) assms(2) by (simp add: min_def split: if_splits)
  qed
  then show ?thesis by blast
qed

lemma estimator_ok:
  assumes ok: "adapt_ok e" "0 \<le> cur_max_p v" and w: "0 \<le> w" "w \<le> 1" "0 \<le> ave" "ave \<le> B" "0 \<le> n" "of_int n \<le> B"
  shows "\<exists>a v'. estimator now n m ave w e v = Inr (a, v') \<and> 0 \<le> a \<and> a \<le> B \<and> 0 \<le> cur_max_p v' \<and>
    v_a v' = v_a v \<and> v_b v' = v_b v \<and> v_c v' = v_c v \<and> v_d v' = v_d v \<and> ecount v' = ecount v \<and>
    ecount_bytes v' = ecount_bytes v \<and> old v' = old v \<and> v_prob1 v' = v_prob1 v \<and> v_prob v' = v_prob v"
proof -
  define a where "a = est_loop m w ave * (1 - w) + w * of_int n"
  have b: "0 \<le> a" "a \<le> B"
    using weighted_mean_bounds [OF w(1,2) est_loop_bounds [OF w(1-4)], of "of_int n"] w(5,6) by (simp_all add: a_def)
  have p: "0 \<le> cur_max_p (updateMaxP a now e v)" using ok by (auto simp: updateMaxP_def Let_def adapt_ok_def)
  show ?thesis
  proof (cases "adaptive e = 1")
    case False
    then show ?thesis using b ok(2) by (simp add: estimator_def a_def Let_def)
  next
    case True
    show ?thesis
    proof (cases "feng_adaptive e = 1")
      case False
      then show ?thesis using b ok(2) True p updateMaxP_keeps [of a now e v]
        by (simp add: estimator_def a_def [symmetric] Let_def)
    next
      case F: True
      then have "0 < alpha e" "0 \<le> beta e" using ok True by (auto simp: adapt_ok_def)
      then have "\<exists>v'. updateMaxPFeng a e v = Inr v' \<and> 0 \<le> cur_max_p v' \<and> v_a v' = v_a v \<and> v_b v' = v_b v \<and>
          v_c v' = v_c v \<and> v_d v' = v_d v \<and> ecount v' = ecount v \<and> ecount_bytes v' = ecount_bytes v \<and>
          old v' = old v \<and> v_prob1 v' = v_prob1 v \<and> v_prob v' = v_prob v"
        using ok(2) by (simp add: updateMaxPFeng_def Let_def)
      then show ?thesis using b True F by (auto simp: estimator_def a_def [symmetric] Let_def)
    qed
  qed
qed

subsection \<open>The ramp\<close>

text \<open>The coefficients that \<open>reset\<close> computes, for the initial \<open>max_p\<close>.\<close>

definition ramp_ok :: "edp \<Rightarrow> edv \<Rightarrow> bool" where
  "ramp_ok e v \<longleftrightarrow>
     0 \<le> th_min e \<and> th_min e < th_max e \<and> 1 \<le> max_p_inv e \<and>
     v_a v = 1 / (th_max e - th_min e) \<and> v_b v = - th_min e / (th_max e - th_min e) \<and>
     (gentle e \<longrightarrow> v_c v = (1 - 1 / max_p_inv e) / th_max e \<and> v_d v = 2 / max_p_inv e - 1)"

lemma reset_vars_ramp:
  assumes "0 \<le> th_min e" "th_min e < th_max e" "1 \<le> max_p_inv e"
  shows "\<exists>v'. reset_vars e v = Inr v' \<and> ramp_ok e v' \<and> v_ave v' = 0 \<and> cur_max_p v' = 1 / max_p_inv e \<and>
    v_prob1 v' = v_prob1 v \<and> v_prob v' = v_prob v \<and> ecount v' = 0 \<and> ecount_bytes v' = 0 \<and> \<not> old v'"
  using assms by (auto simp: reset_vars_def ramp_ok_def Let_def)

abbreviation ramp :: "edp \<Rightarrow> edv \<Rightarrow> real \<Rightarrow> real" where
  "ramp e v x \<equiv> calculate_p_new x (th_max e) (gentle e) (v_a v) (v_b v) (v_c v) (v_d v) (cur_max_p v)"

lemma ramp_below:
  assumes "ramp_ok e v" "x < th_max e" "0 \<le> cur_max_p v" "cur_max_p v \<le> 1"
  shows "ramp e v x = cur_max_p v * ((x - th_min e) / (th_max e - th_min e))"
proof -
  let ?d = "th_max e - th_min e"
  have d: "0 < ?d" using assms(1) by (simp add: ramp_ok_def)
  have p: "(v_a v * x + v_b v) = (x - th_min e) / ?d" using assms(1) by (simp add: ramp_ok_def diff_divide_distrib)
  have "(x - th_min e) / ?d < 1" using d assms(2) by (simp add: divide_less_eq)
  then have "(x - th_min e) / ?d * cur_max_p v \<le> 1 * cur_max_p v" using assms(3) by (intro mult_right_mono) auto
  then have "\<not> 1 < (x - th_min e) / ?d * cur_max_p v" using assms(4) by linarith
  then show ?thesis using assms(2) unfolding calculate_p_new_def Let_def p by (simp add: mult.commute)
qed

lemma ramp_gentle:
  assumes "ramp_ok e v" "gentle e" "th_max e \<le> x"
  shows "ramp e v x = min 1 (1 / max_p_inv e + (1 - 1 / max_p_inv e) * ((x - th_max e) / th_max e))"
proof -
  have t: "0 < th_max e" using assms(1) by (simp add: ramp_ok_def)
  have "v_c v * x + v_d v = 1 / max_p_inv e + (1 - 1 / max_p_inv e) * ((x - th_max e) / th_max e)"
  proof -
    let ?p = "1 / max_p_inv e"
    have "v_c v * x + v_d v = (1 - ?p) * (x / th_max e) + (2 * ?p - 1)" using assms(1,2) by (simp add: ramp_ok_def)
    also have "\<dots> = ?p + (1 - ?p) * (x / th_max e - 1)" by (simp add: algebra_simps)
    also have "x / th_max e - 1 = (x - th_max e) / th_max e" using t by (simp add: diff_divide_distrib)
    finally show ?thesis .
  qed
  then show ?thesis using assms(2,3) by (auto simp: calculate_p_new_def min_def Let_def)
qed

lemma ramp_fraction:
  assumes "ramp_ok e v" "0 \<le> cur_max_p v" "th_min e \<le> x"
  shows "0 \<le> ramp e v x" "ramp e v x \<le> 1"
proof -
  show "ramp e v x \<le> 1" by (simp add: calculate_p_new_def Let_def)
  let ?d = "th_max e - th_min e"
  have d: "0 < ?d" "0 < th_max e" "0 < 1 / max_p_inv e" "1 / max_p_inv e \<le> 1" using assms(1) by (auto simp: ramp_ok_def)
  have p: "(v_a v * x + v_b v) = (x - th_min e) / ?d" using assms(1) by (simp add: ramp_ok_def diff_divide_distrib)
  show "0 \<le> ramp e v x"
  proof (cases "th_max e \<le> x")
    case False
    have "0 \<le> (x - th_min e) / ?d * cur_max_p v" using d(1) assms(2,3) by simp
    with False show ?thesis unfolding calculate_p_new_def Let_def p by simp
  next
    case True
    show ?thesis
    proof (cases "gentle e")
      case True
      have "0 \<le> (1 - 1 / max_p_inv e) * ((x - th_max e) / th_max e)"
        using d(2,4) \<open>th_max e \<le> x\<close> by (intro mult_nonneg_nonneg) auto
      then show ?thesis using ramp_gentle [OF assms(1) True \<open>th_max e \<le> x\<close>] d(3) by simp
    next
      case False
      then show ?thesis using True by (simp add: calculate_p_new_def)
    qed
  qed
qed

subsection \<open>Spreading the drops\<close>

lemma spread_nonneg: "0 \<le> p \<Longrightarrow> 0 \<le> spread_p wt c p"
  by (simp add: spread_p_def)

lemma cdiv_nonneg: "0 \<le> a \<Longrightarrow> 0 < b \<Longrightarrow> cdiv a b = Inr (a div b)"
  by (cases "a = 0") (simp_all add: cdiv_def)

lemma modify_p_fraction:
  assumes "0 \<le> p" "0 < mean" "0 \<le> sz"
  shows "\<exists>r. modify_p p n cb byts mean wt sz = Inr r \<and> 0 \<le> r \<and> r \<le> 1"
  using assms spread_nonneg [OF assms(1)] by (simp add: modify_p_def cdiv_def Let_def)

text \<open>
  Without \<open>wait_\<close>: given a constant probability \<open>p\<close>, every possible number of packets before the next
  drop has the same probability.
\<close>

lemma spread_product:
  assumes "0 < p" "real k * p < 1" "1 \<le> k"
  shows "(\<Prod>i\<in>{1..<k}. 1 - spread_p False (real i) p) = (1 - real k * p) / (1 - p)"
  using assms(3,2)
proof (induction k rule: nat_induct_at_least)
  case base
  then show ?case using assms(1) by simp
next
  case (Suc k)
  have k: "real k * p + p < 1" using Suc.prems by (simp add: algebra_simps)
  then have l: "real k * p < 1" using assms(1) by linarith
  have "1 - spread_p False (real k) p = (1 - real (Suc k) * p) / (1 - real k * p)"
    using l by (simp add: spread_p_def field_simps)
  moreover have "(\<Prod>i\<in>{1..<Suc k}. 1 - spread_p False (real i) p) =
      (\<Prod>i\<in>{1..<k}. 1 - spread_p False (real i) p) * (1 - spread_p False (real k) p)"
    using Suc.hyps by (simp add: prod.atLeastLessThan_Suc)
  ultimately show ?case using Suc.IH [OF l] l by simp
qed

lemma spread_uniform:
  assumes "0 < p" "1 \<le> k" "real (k + 1) * p \<le> 1"
  shows "(\<Prod>i\<in>{1..<k}. 1 - spread_p False (real i) p) * spread_p False (real k) p = p / (1 - p)"
proof -
  have l: "real k * p < 1" using assms by (simp add: algebra_simps)
  have "spread_p False (real k) p = p / (1 - real k * p)" using l by (simp add: spread_p_def)
  then show ?thesis using spread_product [OF assms(1) l assms(2)] l by simp
qed

text \<open>The longest gap takes what is left, and a drop is certain then.\<close>

lemma spread_certain: "0 < p \<Longrightarrow> 1 \<le> real (k + 1) * p \<Longrightarrow> 1 \<le> spread_p False (real k) p"
  by (simp add: spread_p_def le_divide_eq algebra_simps)

lemma wait_certain: "0 < p \<Longrightarrow> 1 \<le> real k * p \<Longrightarrow> 2 \<le> real (k + 1) * p \<Longrightarrow> 1 \<le> spread_p True (real k) p"
  by (simp add: spread_p_def le_divide_eq algebra_simps)

text \<open>With \<open>wait_\<close>: after \<open>c\<close> packets, the first number with \<open>c p \<ge> 1\<close>, likewise.\<close>

lemma wait_product:
  assumes "0 < p" "1 \<le> real c * p" "c \<le> k" "real k * p < 2"
  shows "(\<Prod>i\<in>{c..<k}. 1 - spread_p True (real i) p) = (2 - real k * p) / (2 - real c * p)"
  using assms(3,4)
proof (induction k rule: nat_induct_at_least)
  case base
  then show ?case by simp
next
  case (Suc k)
  have k: "real k * p + p < 2" using Suc.prems by (simp add: algebra_simps)
  then have l: "real k * p < 2" using assms(1) by linarith
  have "real c * p \<le> real k * p" using Suc.hyps assms(1) by simp
  then have "1 \<le> real k * p" using assms(2) by linarith
  then have "1 - spread_p True (real k) p = (2 - real (Suc k) * p) / (2 - real k * p)"
    using l by (simp add: spread_p_def field_simps)
  moreover have "(\<Prod>i\<in>{c..<Suc k}. 1 - spread_p True (real i) p) =
      (\<Prod>i\<in>{c..<k}. 1 - spread_p True (real i) p) * (1 - spread_p True (real k) p)"
    using Suc.hyps by (simp add: prod.atLeastLessThan_Suc)
  ultimately show ?case using Suc.IH [OF l] l by simp
qed

lemma wait_uniform:
  assumes "0 < p" "1 \<le> real c * p" "c \<le> k" "real (k + 1) * p \<le> 2"
  shows "(\<Prod>i\<in>{c..<k}. 1 - spread_p True (real i) p) * spread_p True (real k) p = p / (2 - real c * p)"
proof -
  have l: "real k * p < 2" using assms by (simp add: algebra_simps)
  have "real c * p \<le> real k * p" using assms(1,3) by simp
  then have "spread_p True (real k) p = p / (2 - real k * p)" using l assms(2) by (simp add: spread_p_def)
  then show ?thesis using wait_product [OF assms(1-3) l] l by simp
qed

subsection \<open>The invariant of the variables\<close>

definition red_conf_ok :: "red \<Rightarrow> bool" where
  "red_conf_ok s \<longleftrightarrow> 0 \<le> q_w (ep s) \<and> q_w (ep s) \<le> 1 \<and> 0 < mean_pktsize (ep s) \<and> adapt_ok (ep s)"

definition vars_ok :: "real \<Rightarrow> red \<Rightarrow> bool" where
  "vars_ok B s \<longleftrightarrow>
     red_conf_ok s \<and> ramp_ok (ep s) (ev s) \<and> 0 \<le> cur_max_p (ev s) \<and>
     0 \<le> v_ave (ev s) \<and> v_ave (ev s) \<le> B \<and> fraction (v_prob1 (ev s)) \<and> fraction (v_prob (ev s))"

lemma ramp_ok_upd [simp]:
  "ramp_ok e (v\<lparr>v_prob1 := x\<rparr>) = ramp_ok e v" "ramp_ok e (v\<lparr>v_prob := x\<rparr>) = ramp_ok e v"
  "ramp_ok e (v\<lparr>v_ave := x\<rparr>) = ramp_ok e v" "ramp_ok e (v\<lparr>ecount := n\<rparr>) = ramp_ok e v"
  "ramp_ok e (v\<lparr>ecount_bytes := n\<rparr>) = ramp_ok e v" "ramp_ok e (v\<lparr>old := b\<rparr>) = ramp_ok e v"
  by (simp_all add: ramp_ok_def)

lemma vars_ok_average:
  assumes ok: "vars_ok B s" and n: "0 \<le> red_size s" "of_int (red_size s) \<le> B" and r: "red_average now s = Inr s'"
  shows "vars_ok B s'"
proof -
  obtain m s1 where i: "idle_arrivals now s = Inr (m, s1)" using r by (auto simp: red_average_def)
  then have s1: "ev s1 = ev s" "ep s1 = ep s" "red_size s1 = red_size s"
    by (auto simp: idle_arrivals_def Let_def red_size_def split: if_splits)
  have c: "adapt_ok (ep s)" "0 \<le> cur_max_p (ev s)" "0 \<le> q_w (ep s)" "q_w (ep s) \<le> 1" "0 \<le> v_ave (ev s)" "v_ave (ev s) \<le> B"
    using ok by (auto simp: vars_ok_def red_conf_ok_def)
  obtain a v where a: "estimator now (red_size s) (m + 1) (v_ave (ev s)) (q_w (ep s)) (ep s) (ev s) = Inr (a, v)"
    "0 \<le> a" "a \<le> B" "0 \<le> cur_max_p v" "v_a v = v_a (ev s)" "v_b v = v_b (ev s)" "v_c v = v_c (ev s)"
    "v_d v = v_d (ev s)" "ecount_bytes v = ecount_bytes (ev s)" "v_prob1 v = v_prob1 (ev s)" "v_prob v = v_prob (ev s)"
    using estimator_ok [OF c n, of now "m + 1"] by blast
  have "s' = s1\<lparr>ev := v\<lparr>v_ave := a\<rparr>\<rparr>" using r i a(1) by (simp add: red_average_def s1)
  then show ?thesis using ok a(2-) by (simp add: vars_ok_def red_conf_ok_def ramp_ok_def s1)
qed

lemma vars_ok_cong:
  "ep s' = ep s \<Longrightarrow> ev s' = ev s \<Longrightarrow> vars_ok B s' = vars_ok B s"
  by (simp add: vars_ok_def red_conf_ok_def)

lemma vars_ok_count: "vars_ok B s \<Longrightarrow> vars_ok B (red_count p s)"
  by (simp add: vars_ok_def red_conf_ok_def red_count_def)

lemma vars_ok_mark: "vars_ok B s \<Longrightarrow> drop_or_mark p s = (d, s') \<Longrightarrow> vars_ok B s'"
  by (auto simp: drop_or_mark_def vars_ok_def red_conf_ok_def Let_def split: if_splits)

lemma vars_ok_drop_early:
  assumes ok: "vars_ok B s" and t: "th_min (ep s) \<le> v_ave (ev s)" "0 \<le> psize (mem s) p"
    and r: "drop_early p s = Inr (d, s')"
  shows "vars_ok B s'"
proof -
  define x where "x = ramp (ep s) (ev s) (v_ave (ev s))"
  have c: "ramp_ok (ep s) (ev s)" "0 \<le> cur_max_p (ev s)" "0 < mean_pktsize (ep s)"
    using ok by (auto simp: vars_ok_def red_conf_ok_def)
  have f: "0 \<le> x" "x \<le> 1" using ramp_fraction [OF c(1,2) t(1)] by (auto simp: x_def)
  obtain q where q: "modify_p x (ecount (ev s)) (ecount_bytes (ev s)) (bytes (ep s)) (mean_pktsize (ep s)) (wait (ep s))
      (psize (mem s) p) = Inr q" "0 \<le> q" "q \<le> 1" using modify_p_fraction [OF f(1) c(3) t(2)] by blast
  let ?s = "s\<lparr>ev := (ev s)\<lparr>v_prob1 := x, v_prob := q\<rparr>\<rparr>"
  have s: "vars_ok B ?s" using ok f q by (simp add: vars_ok_def red_conf_ok_def)
  then have u: "vars_ok B (?s\<lparr>rdrawn := k\<rparr>)" for k by (simp add: vars_ok_def red_conf_ok_def)
  obtain k where "s' = ?s \<or> s' = ?s\<lparr>rdrawn := k\<rparr> \<or> drop_or_mark p (?s\<lparr>rdrawn := k\<rparr>) = (d, s')"
    using r unfolding drop_early_def Let_def red_uniform_def x_def [symmetric] q(1) by (auto split: if_splits)
  then show ?thesis using s u vars_ok_mark [OF u] by blast
qed

text \<open>The four outcomes of the decision.\<close>

lemma red_decide_cases:
  assumes r: "red_decide p s = Inr (d, s')"
  obtains (low) "\<not> (th_min (ep s) \<le> v_ave (ev s) \<and> 1 < red_size s)" "d \<noteq> DTYPE_UNFORCED"
      "s' = s\<lparr>curq := red_size s, ev := (ev s)\<lparr>v_prob := 0, old := False\<rparr>\<rparr>"
      "d = DTYPE_FORCED \<longleftrightarrow> red_limit s \<le> red_size s"
    | (high) "th_min (ep s) \<le> v_ave (ev s)" "1 < red_size s" "above_max s" "d = DTYPE_FORCED" "s' = s\<lparr>curq := red_size s\<rparr>"
    | (first) "th_min (ep s) \<le> v_ave (ev s)" "1 < red_size s" "\<not> above_max s" "\<not> old (ev s)" "d \<noteq> DTYPE_UNFORCED"
      "s' = s\<lparr>curq := red_size s, ev := (ev s)\<lparr>ecount := 1, ecount_bytes := psize (mem s) p, old := True\<rparr>\<rparr>"
      "d = DTYPE_FORCED \<longleftrightarrow> red_limit s \<le> red_size s"
    | (early) b where "th_min (ep s) \<le> v_ave (ev s)" "1 < red_size s" "\<not> above_max s" "old (ev s)"
      "drop_early p (s\<lparr>curq := red_size s\<rparr>) = Inr (b, s')"
      "d = (if red_limit s \<le> red_size s then DTYPE_FORCED else if b then DTYPE_UNFORCED else DTYPE_NONE)"
proof (cases "th_min (ep s) \<le> v_ave (ev s) \<and> 1 < red_size s")
  case False
  then show thesis using r by (intro low) (auto simp: red_decide_def Let_def red_limit_def split: if_splits)
next
  case c: True
  have m: "above_max (s\<lparr>curq := n\<rparr>) = above_max s" "red_limit (s\<lparr>curq := n\<rparr>) = red_limit s" for n
    by (simp_all add: above_max_def red_limit_def)
  show thesis
  proof (cases "above_max s")
    case True
    then show thesis using r c by (intro high) (auto simp: red_decide_def Let_def m split: if_splits)
  next
    case False
    show thesis
    proof (cases "old (ev s)")
      case False
      then show thesis using r c \<open>\<not> above_max s\<close>
        by (intro first) (auto simp: red_decide_def Let_def m red_limit_def split: if_splits)
    next
      case True
      obtain b where b: "drop_early p (s\<lparr>curq := red_size s\<rparr>) = Inr (b, s')"
        "d = (if red_limit s' \<le> red_size s then DTYPE_FORCED else if b then DTYPE_UNFORCED else DTYPE_NONE)"
        using r c \<open>\<not> above_max s\<close> True by (auto simp: red_decide_def Let_def m)
      have "red_limit s' = red_limit s"
        using red_frame_drop_early [OF b(1)] by (simp add: red_frame_def red_limit_def)
      with b c True \<open>\<not> above_max s\<close> show thesis by (intro early) auto
    qed
  qed
qed

lemma vars_ok_decide:
  assumes ok: "vars_ok B s" and p: "0 \<le> psize (mem s) p" and r: "red_decide p s = Inr (d, s')"
  shows "vars_ok B s'"
  using r
proof (cases rule: red_decide_cases)
  case (early b)
  have "vars_ok B (s\<lparr>curq := red_size s\<rparr>)" using ok by (simp add: vars_ok_def red_conf_ok_def)
  from vars_ok_drop_early [OF this _ _ early(5)] early(1) p show ?thesis by simp
qed (use ok p in \<open>simp_all add: vars_ok_def red_conf_ok_def\<close>)

end
