(* ===== verification/Red_Runs.thy ===== *)
theory Red_Runs
  imports Red_Probability
begin

section \<open>Runs of a RED queue\<close>

text \<open>
  Packets arrive and the link finishes sending, in any order. The invariant \<open>red_inv\<close> has the size
  of the queue, the average and the probabilities within their bounds. \<open>M\<close> bounds the size of the
  arriving packets, \<open>T\<close> the times: an idle link may have sent at most 2 ^ 31 - 2 packets by then.
\<close>

datatype red_event = Arrive addr | LinkDone

fun red_event_step :: "time \<Rightarrow> red_event \<Rightarrow> red \<Rightarrow> red res" where
  "red_event_step now (Arrive p) s = red_recv now p s"
| "red_event_step now LinkDone s = (if blocked s then red_resume now s else Inr s)"

fun red_run :: "(time \<times> red_event) list \<Rightarrow> red \<Rightarrow> red res" where
  "red_run [] s = Inr s"
| "red_run ((now, e) # es) s = res_bind (red_event_step now e s) (red_run es)"

fun arrivals :: "(time \<times> red_event) list \<Rightarrow> addr list" where
  "arrivals [] = []"
| "arrivals ((now, Arrive p) # es) = p # arrivals es"
| "arrivals ((now, LinkDone) # es) = arrivals es"

subsection \<open>The invariant\<close>

definition red_bound :: "int \<Rightarrow> red \<Rightarrow> int" where
  "red_bound M s = (if rqib s then qlim s * mean_pktsize (ep s) + M else qlim s)"

definition red_core :: "int \<Rightarrow> red \<Rightarrow> addr list \<Rightarrow> bool" where
  "red_core M s xs \<longleftrightarrow>
     red_holds s xs \<and> (\<forall>x\<in>set xs. 0 \<le> psize (mem s) x) \<and> red_size s \<le> red_bound M s \<and>
     vars_ok (of_int (red_bound M s)) s \<and> 0 \<le> qlim s \<and> 0 \<le> M \<and> (rqib s \<longrightarrow> \<not> red_drop_front s \<and> \<not> red_drop_rand s)"

text \<open>Where the variants of \<open>cautious_\<close> divide: by the average (2) and by \<open>idle_pktsize_\<close> (3).\<close>

definition cautious_ok :: "edp \<Rightarrow> bool" where
  "cautious_ok e \<longleftrightarrow>
     (cautious e = 1 \<or> cautious e = 2 \<longrightarrow> q_w e < 1) \<and> (cautious e = 2 \<longrightarrow> 0 < th_min e) \<and>
     (cautious e = 3 \<longrightarrow> idle_pktsize e \<noteq> 0)"

definition red_timing :: "time \<Rightarrow> red \<Rightarrow> bool" where
  "red_timing T s \<longleftrightarrow>
     0 \<le> idletime s \<and> idletime s \<le> T \<and> cautious_ok (ep s) \<and> 0 \<le> idle_rate (ep s) \<and>
     idle_rate (ep s) * T < 2 ^ 31 - 2"

lemma red_core_port:
  assumes c: "red_core M s xs" and p: "same_port s s'" and ys: "red_holds s' ys" "\<forall>x\<in>set ys. 0 \<le> psize (mem s) x"
    "red_size s' \<le> red_bound M s" "vars_ok (of_int (red_bound M s)) s'"
  shows "red_core M s' ys"
proof -
  have "red_bound M s' = red_bound M s" using p by (simp add: same_port_def red_bound_def)
  with assms show ?thesis unfolding red_core_def same_port_def by simp
qed

lemma vars_ok_kept: "vars_kept s s' \<Longrightarrow> ep s' = ep s \<Longrightarrow> vars_ok B s \<Longrightarrow> vars_ok B s'"
  by (auto simp: vars_kept_def vars_ok_def red_conf_ok_def)

lemma red_size_nonneg: "red_holds s xs \<Longrightarrow> \<forall>x\<in>set xs. 0 \<le> psize (mem s) x \<Longrightarrow> 0 \<le> red_size s"
  by (auto simp: red_holds_size intro!: sum_list_nonneg)

lemma decide_none: "red_decide p s = Inr (DTYPE_NONE, s') \<Longrightarrow> red_size s < red_limit s"
  by (erule red_decide_cases) (auto split: if_splits)

text \<open>An arrival, on the list: it is queued only below the limit, and a full queue stays as long.\<close>

lemma abs_red_enque_bound:
  assumes a: "abs_red_enque d (victim_index s (length xs + 1)) p xs = (ys, ds)"
    and h: "red_holds s xs" "red_size s \<le> red_bound M s" "0 \<le> M" "psize (mem s) p \<le> M"
    and r: "rqib s \<longrightarrow> \<not> red_drop_front s \<and> \<not> red_drop_rand s" and n: "d = DTYPE_NONE \<longrightarrow> red_size s < red_limit s"
    and s': "red_holds s' ys" "pkt_at (mem s') = pkt_at (mem s)" "rqib s' = rqib s"
  shows "red_size s' \<le> red_bound M s" "set ys \<subseteq> insert p (set xs)"
proof -
  let ?i = "victim_index s (length xs + 1)" and ?zs = "xs @ [p]"
  have i: "?i < length ?zs" using victim_index_less [of ?zs s] by simp
  have sz: "red_size s' = (if rqib s then total_size (mem s) ys else int (length ys))"
    "red_size s = (if rqib s then total_size (mem s) xs else int (length xs))"
    using red_holds_size [OF s'(1)] red_holds_size [OF h(1)] s'(2,3) by simp_all
  have "red_size s' \<le> red_bound M s \<and> set ys \<subseteq> insert p (set xs)"
  proof (cases d)
    case DTYPE_NONE
    then show ?thesis using a n h(4) by (auto simp: sz abs_red_enque_def red_limit_def red_bound_def)
  next
    case DTYPE_UNFORCED
    then show ?thesis using a h(2) by (auto simp: sz abs_red_enque_def)
  next
    case DTYPE_FORCED
    then have ys: "ys = take ?i ?zs @ drop (Suc ?i) ?zs" using a by (simp add: abs_red_enque_def Let_def)
    have "set ys \<subseteq> set ?zs" unfolding ys using set_take_subset [of ?i ?zs] set_drop_subset [of "Suc ?i" ?zs] by auto
    moreover have "length ys = length xs" using i by (simp add: ys)
    moreover have "ys = xs" if "rqib s" using that r by (simp add: ys victim_index_def)
    ultimately show ?thesis using h(2) by (auto simp: sz)
  qed
  then show "red_size s' \<le> red_bound M s" "set ys \<subseteq> insert p (set xs)" by auto
qed

lemma red_core_enque:
  assumes c: "red_core M s xs" and p: "p \<notin> set xs" "0 \<le> psize (mem s) p" "psize (mem s) p \<le> M"
    and r: "red_enque now p s = Inr s'"
  shows "\<exists>ys. red_core M s' ys \<and> same_port s s' \<and> idletime s' = idletime s"
proof -
  have h: "red_holds s xs" "\<forall>x\<in>set xs. 0 \<le> psize (mem s) x" "red_size s \<le> red_bound M s" "0 \<le> M"
    "vars_ok (of_int (red_bound M s)) s" "rqib s \<longrightarrow> \<not> red_drop_front s \<and> \<not> red_drop_rand s"
    using c by (simp_all add: red_core_def)
  obtain s0 d s1 where e: "red_average now s = Inr s0" "red_decide p (red_count p (red_stats now s0)) = Inr (d, s1)"
    "enqueued p xs d s1 s'" "same_port s s'" "vars_kept s1 s'" "red_frame s s1" "idletime s' = idletime s1"
    by (rule red_enqueE [OF h(1) p(1) r])
  let ?t = "red_count p (red_stats now s0)"
  have f0: "red_frame s s0" by (rule red_frame_average [OF e(1)])
  then have ft: "red_frame s ?t" using red_frame_trans [OF red_frame_trans [OF _ red_frame_stats] red_frame_count] by blast
  have f: "mem s1 = mem s" "ep s1 = ep s" "rqib s1 = rqib s" "qlim s1 = qlim s" "red_drop_front s1 = red_drop_front s"
    "red_drop_rand s1 = red_drop_rand s" "red_size s1 = red_size s" "red_limit s1 = red_limit s" "red_bound M s1 = red_bound M s"
    using e(6) by (simp_all add: red_frame_def red_size_def red_limit_def red_bound_def)
  have t: "mem ?t = mem s" "red_size ?t = red_size s" "red_limit ?t = red_limit s"
    using ft by (simp_all add: red_frame_def red_size_def red_limit_def)
  have v0: "vars_ok (of_int (red_bound M s)) s0"
    using vars_ok_average [OF h(5) red_size_nonneg [OF h(1,2)] _ e(1)] h(3) by simp
  have m0: "mem s0 = mem s" using f0 by (simp add: red_frame_def)
  have "vars_ok (of_int (red_bound M s)) (red_stats now s0)" using v0 by (simp add: vars_ok_def red_conf_ok_def)
  then have vt: "vars_ok (of_int (red_bound M s)) ?t" by (rule vars_ok_count)
  have v1: "vars_ok (of_int (red_bound M s)) s1" by (rule vars_ok_decide [OF vt _ e(2)]) (simp add: t(1) p(2))
  have ep': "ep s' = ep s1" using e(4) f by (simp add: same_port_def)
  have v': "vars_ok (of_int (red_bound M s)) s'" by (rule vars_ok_kept [OF e(5) ep' v1])
  obtain ys ds where ys: "abs_red_enque d (victim_index s1 (length xs + 1)) p xs = (ys, ds)" "red_holds s' ys"
    "pkt_at (mem s') = pkt_at (mem s1)" using e(3) by (auto simp: enqueued_def)
  have h1: "red_holds s1 xs" using h(1) red_holds_frame [OF e(6)] by simp
  have n: "d = DTYPE_NONE \<longrightarrow> red_size s1 < red_limit s1" using decide_none [of p ?t s1] e(2) t(2,3) f(7,8) by simp
  have q: "rqib s' = rqib s1" using e(4) f by (simp add: same_port_def)
  have b: "red_size s' \<le> red_bound M s" "set ys \<subseteq> insert p (set xs)"
    using abs_red_enque_bound [OF ys(1) h1 _ h(4) _ _ n ys(2,3) q] h(3,6) p(3) f by simp_all
  then have "\<forall>x\<in>set ys. 0 \<le> psize (mem s) x" using h(2) p(2) by auto
  with red_core_port [OF c e(4) ys(2) _ b(1) v'] e(4,6,7) show ?thesis
    by (auto simp: red_frame_def)
qed

lemma red_core_deque:
  assumes c: "red_core M s xs" and r: "red_deque now s = Inr (q, s')"
  shows "\<exists>ys. red_core M s' ys \<and> same_port s s' \<and> idletime s' \<in> {idletime s, now} \<and> set ys \<subseteq> set xs"
proof -
  have h: "red_holds s xs" "\<forall>x\<in>set xs. 0 \<le> psize (mem s) x" "red_size s \<le> red_bound M s"
    "vars_ok (of_int (red_bound M s)) s" using c by (simp_all add: red_core_def)
  have port: "same_port s (red_stats now s)" using red_frame_stats by (rule red_frame_port)
  show ?thesis
  proof (cases xs)
    case Nil
    then have s': "s' = (red_stats now s)\<lparr>idle := True, idletime := now\<rparr>" using r red_deque_nil h(1) by simp
    then have k: "same_port s s'" "red_holds s' []" "red_size s' = red_size s" "vars_ok (of_int (red_bound M s)) s'"
      using port h(1,4) Nil red_frame_stats [of s now]
      by (simp_all add: same_port_def red_holds_def red_size_def vars_ok_def red_conf_ok_def red_frame_def)
    then have "red_core M s' []" using h(3) by (intro red_core_port [OF c k(1,2)]) simp_all
    then show ?thesis using k(1) s' by auto
  next
    case (Cons x ys)
    obtain q1 where q: "red_deque now s = Inr (Some x, (red_stats now s)\<lparr>red_q := q1, idle := False\<rparr>)" "pq_rep (mem s) q1 ys"
      using red_deque_cons h(1) Cons by blast
    then have s': "s' = (red_stats now s)\<lparr>red_q := q1, idle := False\<rparr>" using r by simp
    have k: "same_port s s'" "red_holds s' ys" "vars_ok (of_int (red_bound M s)) s'" "mem s' = mem s"
      using port h(4) q(2) by (simp_all add: s' same_port_def red_holds_def vars_ok_def red_conf_ok_def)
    have "red_size s' \<le> red_size s"
      using red_holds_size [OF k(2)] red_holds_size [OF h(1)] k(1,4) h(2) Cons by (simp add: same_port_def)
    then have "red_core M s' ys" using h(2,3) Cons k(3) by (intro red_core_port [OF c k(1,2)]) auto
    moreover have "idletime s' = idletime s" by (simp add: s')
    ultimately show ?thesis using k(1) Cons by auto
  qed
qed

subsection \<open>Steps\<close>

text \<open>\<open>enque\<close> returns: the number of packets of an idle period fits in an \<open>int\<close>.\<close>

lemma red_average_returns:
  assumes c: "red_core M s xs" and t: "red_timing T s" "0 \<le> now" "now \<le> T"
  shows "\<exists>s'. red_average now s = Inr s'"
proof -
  have h: "red_holds s xs" "\<forall>x\<in>set xs. 0 \<le> psize (mem s) x" "red_size s \<le> red_bound M s"
    "vars_ok (of_int (red_bound M s)) s" using c by (simp_all add: red_core_def)
  have k: "adapt_ok (ep s)" "0 \<le> cur_max_p (ev s)" "0 \<le> q_w (ep s)" "q_w (ep s) \<le> 1" "0 \<le> v_ave (ev s)"
    "v_ave (ev s) \<le> of_int (red_bound M s)" using h(4) by (auto simp: vars_ok_def red_conf_ok_def)
  let ?x = "idle_rate (ep s) * (now - idletime s)"
  have "\<bar>now - idletime s\<bar> \<le> T" using t by (auto simp: red_timing_def)
  then have "\<bar>?x\<bar> \<le> idle_rate (ep s) * T" using t(1) by (auto simp: red_timing_def abs_mult intro: mult_left_mono)
  then have x: "?x \<le> of_int (2 ^ 31 - 2)" "of_int (- (2 ^ 31) + 2) \<le> ?x" using t(1) by (auto simp: red_timing_def)
  have "in_int32 (int_of_double ?x)" "in_int32 (int_of_double ?x + 1)"
    using int_of_double_le_int [OF x(1)] int_of_double_ge_int [OF x(2)] by (auto simp: in_int32_def)
  then have "\<exists>m s1. idle_arrivals now s = Inr (m, s1) \<and> ev s1 = ev s \<and> ep s1 = ep s \<and> red_size s1 = red_size s"
    using t(1) by (auto simp: idle_arrivals_def red_timing_def cautious_ok_def Let_def red_size_def)
  then obtain m s1 where "idle_arrivals now s = Inr (m, s1)" "ev s1 = ev s" "ep s1 = ep s" "red_size s1 = red_size s" by blast
  moreover obtain a v where "estimator now (red_size s) (m + 1) (v_ave (ev s)) (q_w (ep s)) (ep s) (ev s) = Inr (a, v)"
    using estimator_ok [OF k red_size_nonneg [OF h(1,2)], of now "m + 1"] h(3) by auto
  ultimately show ?thesis by (simp add: red_average_def)
qed

lemma ave_fraction_pos: "q_w e < 1 \<Longrightarrow> \<exists>f. ave_fraction e = Inr f \<and> 0 < f"
  by (simp add: ave_fraction_def cpow_def)

lemma cautious_u_returns:
  assumes "cautious_ok (ep s)" "th_min (ep s) \<le> v_ave (ev s)" "0 < red_size s"
  shows "\<exists>u'. cautious_u u s = Inr u'"
proof (cases "cautious (ep s) = 2")
  case True
  then obtain f where "ave_fraction (ep s) = Inr f" "0 < f" "0 < v_ave (ev s)"
    using assms(1,2) ave_fraction_pos [of "ep s"] by (auto simp: cautious_ok_def)
  then show ?thesis using assms(3) True by (simp add: cautious_u_def Let_def)
qed (simp add: cautious_u_def)

lemma drop_early_returns:
  assumes c: "cautious_ok (ep s)" "0 < mean_pktsize (ep s)" and t: "th_min (ep s) \<le> v_ave (ev s)" "0 < red_size s"
  shows "\<exists>d s'. drop_early p s = Inr (d, s')"
proof -
  have mod: "returns (modify_p x n cb b (mean_pktsize (ep s)) w sz) (\<lambda>_. True)" for x n cb b w sz
    using c(2) by (simp add: modify_p_def cdiv_def Let_def)
  have below: "returns (if cautious (ep s) = 1 then res_bind (ave_fraction (ep s)) (\<lambda>f. Inr (P f)) else Inr False)
      (\<lambda>_. True)" for P
    using c(1) ave_fraction_pos [of "ep s"] by (auto simp: cautious_ok_def)
  have u: "returns (cautious_u u (s\<lparr>ev := (ev s)\<lparr>v_prob1 := x, v_prob := q\<rparr>, rdrawn := k\<rparr>)) (\<lambda>_. True)" for u x q k
  proof -
    let ?s = "s\<lparr>ev := (ev s)\<lparr>v_prob1 := x, v_prob := q\<rparr>, rdrawn := k\<rparr>"
    have "red_size ?s = red_size s" by (simp add: red_size_def)
    then have "\<exists>r. cautious_u u ?s = Inr r" using c(1) t by (intro cautious_u_returns) simp_all
    then show ?thesis by (auto simp: returns_def)
  qed
  have "returns (drop_early p s) (\<lambda>_. True)"
    unfolding drop_early_def Let_def red_uniform_def prod.case
    by (rule returns_bind [OF mod], rule returns_bind [OF below])
      (simp, intro impI returns_bind [OF u], simp)
  then show ?thesis by (auto simp: returns_def)
qed

lemma red_decide_returns:
  assumes "cautious_ok (ep s)" "0 < mean_pktsize (ep s)"
  shows "\<exists>d s'. red_decide p s = Inr (d, s')"
proof -
  have "red_size (s\<lparr>curq := n\<rparr>) = red_size s" for n by (simp add: red_size_def)
  then have "\<exists>d s'. drop_early p (s\<lparr>curq := red_size s\<rparr>) = Inr (d, s')"
    if "th_min (ep s) \<le> v_ave (ev s)" "1 < red_size s"
    using drop_early_returns [of "s\<lparr>curq := red_size s\<rparr>" p] assms that by simp
  then show ?thesis by (auto simp: red_decide_def Let_def)
qed

lemma red_core_enque_returns:
  assumes c: "red_core M s xs" "p \<notin> set xs" and t: "red_timing T s" "0 \<le> now" "now \<le> T"
  shows "\<exists>s'. red_enque now p s = Inr s'"
proof -
  obtain s0 where a: "red_average now s = Inr s0" using red_average_returns [OF c(1) t] by blast
  have f: "red_frame s s0" by (rule red_frame_average [OF a])
  have m: "0 < mean_pktsize (ep s)" "cautious_ok (ep s)" "red_holds s xs"
    using c(1) t(1) by (auto simp: red_core_def vars_ok_def red_conf_ok_def red_timing_def)
  let ?t = "red_count p (red_stats now s0)"
  have "ep ?t = ep s" using f by (simp add: red_frame_def red_count_def)
  then obtain d s1 where "red_decide p ?t = Inr (d, s1)" using red_decide_returns [of ?t p] m(1,2) by auto
  from red_enque_cases [OF m(3) c(2) a this] show ?thesis by blast
qed

definition red_inv :: "int \<Rightarrow> time \<Rightarrow> red \<Rightarrow> addr list \<Rightarrow> bool" where
  "red_inv M T s xs \<longleftrightarrow> red_core M s xs \<and> red_timing T s \<and> unblock_on_resume s \<and> (blocked s \<or> xs = [])"

lemma red_core_cong:
  assumes "mem s' = mem s" "qlim s' = qlim s" "queue.more s' = queue.more s"
  shows "red_core M s' xs = red_core M s xs" "red_timing T s' = red_timing T s"
  using assms red_more [OF assms(3)]
  by (simp_all add: red_core_def red_holds_def red_size_def red_bound_def vars_ok_def red_conf_ok_def red_timing_def)

lemma timing_port: "red_timing T s \<Longrightarrow> same_port s s' \<Longrightarrow> 0 \<le> idletime s' \<Longrightarrow> idletime s' \<le> T \<Longrightarrow> red_timing T s'"
  by (simp add: red_timing_def same_port_def)

lemma red_deque_total: "\<exists>r s1. red_deque now s = Inr (r, s1)"
  by (cases "pq_deque (mem s) (red_q s)") (simp add: red_deque_def Let_def)

text \<open>Both callers of \<open>deque\<close> end in a state that differs from its result outside the discipline.\<close>

lemma serve_core:
  assumes c: "red_core M s xs" "red_timing T s" "0 \<le> now" "now \<le> T"
  shows "\<exists>s' ys. queue_serve red_deque now s = Inr s' \<and> red_core M s' ys \<and> red_timing T s' \<and>
    unblock_on_resume s' = unblock_on_resume s \<and> pkt_at (mem s') = pkt_at (mem s)"
proof (cases "blocked s")
  case True
  then show ?thesis using c by (auto simp: queue_serve_def)
next
  case False
  obtain r s1 where d: "red_deque now s = Inr (r, s1)" using red_deque_total by blast
  obtain ys where k: "red_core M s1 ys" "same_port s s1" "idletime s1 \<in> {idletime s, now}"
    using red_core_deque [OF c(1) d] by blast
  have t: "red_timing T s1" using k(2,3) c by (intro timing_port [OF c(2)]) (auto simp: red_timing_def)
  let ?s' = "case r of None \<Rightarrow> s1 | Some p \<Rightarrow> queue_send now p ((util_mark now s1)\<lparr>blocked := True\<rparr>)"
  have e: "mem ?s' = mem s1" "qlim ?s' = qlim s1" "queue.more ?s' = queue.more s1" "unblock_on_resume ?s' = unblock_on_resume s1"
    by (cases r; simp add: queue_send_def)+
  have "queue_serve red_deque now s = Inr ?s'" using False d by (cases r) (simp_all add: queue_serve_def)
  then show ?thesis using red_core_cong [OF e(1-3)] k t e by (auto simp: same_port_def)
qed

lemma resume_core:
  assumes c: "red_core M s xs" "red_timing T s" "0 \<le> now" "now \<le> T"
  shows "\<exists>s' ys. red_resume now s = Inr s' \<and> red_core M s' ys \<and> red_timing T s' \<and>
    unblock_on_resume s' = unblock_on_resume s \<and> pkt_at (mem s') = pkt_at (mem s)"
proof -
  obtain r s1 where d: "red_deque now s = Inr (r, s1)" using red_deque_total by blast
  obtain ys where k: "red_core M s1 ys" "same_port s s1" "idletime s1 \<in> {idletime s, now}"
    using red_core_deque [OF c(1) d] by blast
  have t: "red_timing T s1" using k(2,3) c by (intro timing_port [OF c(2)]) (auto simp: red_timing_def)
  let ?s' = "case r of Some p \<Rightarrow> queue_send now p s1
     | None \<Rightarrow> (util_mark now s1)\<lparr>blocked := \<not> unblock_on_resume s1\<rparr>"
  have e: "mem ?s' = mem s1" "qlim ?s' = qlim s1" "queue.more ?s' = queue.more s1" "unblock_on_resume ?s' = unblock_on_resume s1"
    by (cases r; simp add: queue_send_def)+
  have "red_resume now s = Inr ?s'" using d by (cases r) (simp_all add: red_resume_def Queue_resume_def)
  then show ?thesis using red_core_cong [OF e(1-3)] k t e by (auto simp: same_port_def)
qed

lemma red_step_ok:
  assumes i: "red_inv M T s xs" and t: "0 \<le> now" "now \<le> T"
    and p: "\<forall>p. e = Arrive p \<longrightarrow> p \<notin> set xs \<and> 0 \<le> psize (mem s) p \<and> psize (mem s) p \<le> M"
  shows "\<exists>s' ys. red_event_step now e s = Inr s' \<and> red_inv M T s' ys \<and> pkt_at (mem s') = pkt_at (mem s) \<and>
    accounted s' ys = accounted s xs + mset (arrivals [(now, e)])"
proof -
  have c: "red_core M s xs" "red_timing T s" "unblock_on_resume s" "blocked s \<or> xs = []" "red_holds s xs"
    using i by (auto simp: red_inv_def red_core_def)
  have fin: "\<exists>ys. red_inv M T s' ys \<and> accounted s' ys = A"
    if "red_core M s' zs" "red_timing T s'" "unblock_on_resume s'" "red_holds s' ys" "accounted s' ys = A" "blocked s' \<or> red_holds s' []"
    for s' zs ys A
  proof -
    have "zs = ys" using that(1,4) pq_rep_unique by (auto simp: red_core_def red_holds_def)
    moreover have "blocked s' \<or> ys = []" using that(4,6) pq_rep_unique by (auto simp: red_holds_def)
    ultimately show ?thesis using that by (auto simp: red_inv_def)
  qed
  show ?thesis
  proof (cases e)
    case LinkDone
    show ?thesis
    proof (cases "blocked s")
      case False
      then show ?thesis using i LinkDone by auto
    next
      case True
      obtain s' zs where r: "red_resume now s = Inr s'" "red_core M s' zs" "red_timing T s'" "unblock_on_resume s'"
        "pkt_at (mem s') = pkt_at (mem s)" using resume_core [OF c(1,2) t] c(3) by blast
      have r': "Queue_resume red_deque now s = Inr s'" using r(1) by (simp add: red_resume_def)
      obtain ys where ys: "red_holds s' ys" "accounted s' ys = accounted s xs" using redw.resume_account [OF c(5) r'] by blast
      from fin [OF r(2-4) ys redw.resume_busy [OF c(5) True r']] r LinkDone True show ?thesis by auto
    qed
  next
    case (Arrive p)
    then have q: "p \<notin> set xs" "0 \<le> psize (mem s) p" "psize (mem s) p \<le> M" using p by auto
    obtain s1 where e: "red_enque now p s = Inr s1" using red_core_enque_returns [OF c(1) q(1) c(2) t] by blast
    obtain zs where z: "red_core M s1 zs" "same_port s s1" "idletime s1 = idletime s" using red_core_enque [OF c(1) q e] by blast
    have t1: "red_timing T s1" using z c(2) by (intro timing_port [OF c(2)]) (auto simp: red_timing_def)
    obtain s' us where r: "queue_serve red_deque now s1 = Inr s'" "red_core M s' us" "red_timing T s'"
      "unblock_on_resume s'" "pkt_at (mem s') = pkt_at (mem s)"
      using serve_core [OF z(1) t1 t] z(2) c(3) by (auto simp: same_port_def)
    have r': "Queue_recv red_enque red_deque now p s = Inr s'" using e r(1) by (simp add: Queue_recv_def)
    obtain ys where ys: "red_holds s' ys" "accounted s' ys = accounted s xs + {#p#}"
      using redw.recv_account [OF c(5) q(1) r'] by blast
    from fin [OF r(2-4) ys redw.recv_busy [OF c(5) q(1) r']] r(5) r' Arrive show ?thesis by (auto simp: red_recv_def)
  qed
qed

text \<open>The packets of a run are new to the queue: they are pairwise different and none is under way.\<close>

definition events_ok :: "int \<Rightarrow> time \<Rightarrow> pkt_mem \<Rightarrow> (time \<times> red_event) list \<Rightarrow> bool" where
  "events_ok M T m es \<longleftrightarrow>
     distinct (arrivals es) \<and> (\<forall>p\<in>set (arrivals es). 0 \<le> psize m p \<and> psize m p \<le> M) \<and>
     (\<forall>(now, e)\<in>set es. 0 \<le> now \<and> now \<le> T)"

lemma red_run_ok:
  assumes "red_inv M T s xs" "events_ok M T (mem s) es" "set (arrivals es) \<inter> set_mset (accounted s xs) = {}"
  shows "\<exists>s' ys. red_run es s = Inr s' \<and> red_inv M T s' ys \<and> accounted s' ys = accounted s xs + mset (arrivals es)"
  using assms
proof (induction es arbitrary: s xs)
  case (Cons a es)
  obtain now e where a: "a = (now, e)" by fastforce
  have t: "0 \<le> now" "now \<le> T" using Cons.prems(2) a by (auto simp: events_ok_def)
  have p: "\<forall>p. e = Arrive p \<longrightarrow> p \<notin> set xs \<and> 0 \<le> psize (mem s) p \<and> psize (mem s) p \<le> M"
    using Cons.prems(2,3) a by (auto simp: events_ok_def accounted_def)
  obtain s1 ys where s1: "red_event_step now e s = Inr s1" "red_inv M T s1 ys" "pkt_at (mem s1) = pkt_at (mem s)"
    "accounted s1 ys = accounted s xs + mset (arrivals [(now, e)])" using red_step_ok [OF Cons.prems(1) t p] by blast
  have arr: "arrivals (a # es) = arrivals [(now, e)] @ arrivals es" by (cases e) (simp_all add: a)
  have "events_ok M T (mem s1) es" using Cons.prems(2) s1(3) arr by (auto simp: events_ok_def)
  moreover have "set (arrivals es) \<inter> set_mset (accounted s1 ys) = {}"
    using Cons.prems(2,3) unfolding s1(4) events_ok_def arr by auto
  ultimately obtain s' zs where "red_run es s1 = Inr s'" "red_inv M T s' zs" "accounted s' zs = accounted s1 ys + mset (arrivals es)"
    using Cons.IH [OF s1(2)] by blast
  then show ?case using s1(1,4) a arr by auto
qed auto

subsection \<open>\<open>reset\<close>\<close>

definition params_ok :: "time \<Rightarrow> edp \<Rightarrow> bool" where
  "params_ok T e \<longleftrightarrow>
     0 \<le> q_w e \<and> q_w e \<le> 1 \<and> 0 < mean_pktsize e \<and> adapt_ok e \<and> 0 \<le> th_min e \<and> th_min e < th_max e \<and>
     1 \<le> max_p_inv e \<and> cautious_ok e \<and> 0 \<le> idle_rate e \<and> idle_rate e * T < 2 ^ 31 - 2"

text \<open>\<open>reset\<close> drops what is queued.\<close>

lemma red_reset_loop:
  assumes "red_holds s xs"
  shows "\<exists>s'. reset_loop red_deque now s = Some (Inr s') \<and> red_holds s' [] \<and> dropped s' = dropped s @ xs \<and>
    same_port s s' \<and> ev s' = ev s \<and> idletime s' = now"
  using assms
proof (induction xs arbitrary: s)
  case Nil
  have "same_port s (red_stats now s)" using red_frame_stats by (rule red_frame_port)
  then show ?case using red_deque_nil [OF Nil, of now] Nil
    by (subst reset_loop.simps) (simp add: same_port_def red_holds_def)
next
  case (Cons x xs)
  obtain q where d: "red_deque now s = Inr (Some x, (red_stats now s)\<lparr>red_q := q, idle := False\<rparr>)" "pq_rep (mem s) q xs"
    by (rule red_deque_cons [OF Cons.prems])
  let ?t = "queue_drop x ((red_stats now s)\<lparr>red_q := q, idle := False\<rparr>)"
  have h: "red_holds ?t xs" using d(2) by (simp add: red_holds_def queue_drop_def)
  have p: "same_port s ?t" "ev ?t = ev s" "dropped ?t = dropped s @ [x]"
    using red_frame_port [OF red_frame_stats [of s now]] by (simp_all add: same_port_def queue_drop_def)
  obtain s' where "reset_loop red_deque now ?t = Some (Inr s')" "red_holds s' []" "dropped s' = dropped ?t @ xs"
    "same_port ?t s'" "ev s' = ev ?t" "idletime s' = now" using Cons.IH [OF h] by blast
  then show ?case using d(1) p same_port_trans [OF p(1)] by (subst reset_loop.simps) auto
qed

lemma red_reset_ok:
  assumes h: "red_holds s xs" "unblock_on_resume s" "\<not> blocked s" and e: "reset_params s = Inr e" "params_ok T e"
    and q: "0 \<le> qlim s" "0 \<le> M" "rqib s \<longrightarrow> \<not> red_drop_front s \<and> \<not> red_drop_rand s"
    and f: "fraction (v_prob1 (ev s))" "fraction (v_prob (ev s))" and t: "0 \<le> now" "now \<le> T"
  shows "\<exists>s'. red_reset now s = Inr s' \<and> red_inv M T s' [] \<and> dropped s' = dropped s @ xs \<and>
    forwarded s' = forwarded s \<and> pkt_at (mem s') = pkt_at (mem s)"
proof -
  have c: "0 \<le> th_min e" "th_min e < th_max e" "1 \<le> max_p_inv e" using e(2) by (auto simp: params_ok_def)
  obtain v where v: "reset_vars e (ev s) = Inr v" "ramp_ok e v" "v_ave v = 0" "cur_max_p v = 1 / max_p_inv e"
    "v_prob1 v = v_prob1 (ev s)" "v_prob v = v_prob (ev s)"
    using reset_vars_ramp [OF c, of "ev s"] by blast
  let ?t = "s\<lparr>ep := e, ev := v, idle := True, idletime := now\<rparr>\<lparr>total_time := 0, true_ave := 0\<rparr>"
  have ht: "red_holds ?t xs" using h(1) by (simp add: red_holds_def)
  obtain s' where s': "reset_loop red_deque now ?t = Some (Inr s')" "red_holds s' []" "dropped s' = dropped ?t @ xs"
    "same_port ?t s'" "ev s' = ev ?t" "idletime s' = now" using red_reset_loop [OF ht] by blast
  have b: "0 \<le> red_bound M s'" "ep s' = e" "ev s' = v"
    using s'(4,5) q e(2) by (auto simp: red_bound_def same_port_def params_ok_def)
  have z: "red_size s' = 0" using red_holds_size [OF s'(2)] by simp
  have vo: "vars_ok (of_int (red_bound M s')) s'"
    using b v f e(2) by (simp add: vars_ok_def red_conf_ok_def params_ok_def)
  have "red_core M s' []" using s'(2,4) b(1) z vo q unfolding red_core_def by (simp add: same_port_def)
  moreover have "red_timing T s'" using b(2) s'(6) t e(2) by (simp add: red_timing_def params_ok_def)
  ultimately have "red_inv M T s' []" using s'(4) h(2) by (simp add: red_inv_def same_port_def)
  moreover have "red_reset now s = Inr s'" using e(1) v(1) s'(1) by (simp add: red_reset_def Queue_reset_def)
  ultimately show ?thesis using s'(3,4) by (auto simp: same_port_def)
qed

end
