(* ===== verification/Red_Properties.thy ===== *)
theory Red_Properties
  imports Red_Runs
begin

section \<open>Properties of RED\<close>

text \<open>The claims about \<open>queue/red.cc\<close>, with a small queue as the concrete case.\<close>

subsection \<open>A sample queue\<close>

text \<open>Thresholds 1 and 3, limit 4, weight 1/2, \<open>max_p\<close> 1/10; the packets with even addresses have ECN.\<close>

definition sample_edp :: edp where
  "sample_edp =
     \<lparr>mean_pktsize = 500, idle_pktsize = 100, bytes = False, wait = True, setbit = True, gentle = True,
      th_min = 0, th_min_pkts = 1, th_max = 0, th_max_pkts = 3, max_p_inv = 10, mark_p = 1 / 10, use_mark_p = False,
      q_w = 1 / 2, adaptive = 0, cautious = 0, alpha = 1 / 100, beta = 9 / 10, interval = 1 / 2,
      targetdelay = 1 / 200, top_p = 1 / 2, bottom_p = 1 / 100, feng_adaptive = 0, ptc = 1, link_delay = 0\<rparr>"

definition sample_red :: red where
  "sample_red = Queue_init
     \<lparr>mem = \<lparr>nxt = (\<lambda>_. None), pkt_at = (\<lambda>_. allocpkt PT_OTHER 500)\<rparr>, qlim = 4, blocked = False,
      unblock_on_resume = True, true_ave = 0, total_time = 0, last_change = 0, old_util = 0, util_weight = 0,
      util_check_intv = 0, period_begin = 0, cur_util = 0, buf_slot = 0, util_buf = [], util_records = 0,
      forwarded = [], dropped = [], ep = sample_edp,
      ev = \<lparr>v_ave = 0, v_prob1 = 0, v_slope = 0, v_prob = 0, v_a = 0, v_b = 0, v_c = 0, v_d = 0, ecount = 0,
            ecount_bytes = 0, old = False, cur_max_p = 1, lastset = 0, estatus = Below\<rparr>,
      red_q = new_packet_queue, rqib = False, red_stats_on = False, red_drop_front = False, red_drop_rand = False,
      ns1_compat = False, idle = True, idletime = 0, curq = 0, rlink = None, has_de_drop = False, edropped = [],
      hf_ect = even, hf_ce = (\<lambda>_. False), rng_double = (\<lambda>_. 1 / 2), rng_pos = (\<lambda>_. 0), rdrawn = 0\<rparr>"

definition sample_params :: edp where
  "sample_params = sample_edp\<lparr>th_min := 1, th_max := 3\<rparr>"

lemma sample_red_facts:
  "red_holds sample_red []" "unblock_on_resume sample_red" "\<not> blocked sample_red" "qlim sample_red = 4"
  "\<not> rqib sample_red" "v_prob1 (ev sample_red) = 0" "v_prob (ev sample_red) = 0" "dropped sample_red = []"
  "forwarded sample_red = []" "pkt_at (mem sample_red) = (\<lambda>_. allocpkt PT_OTHER 500)" "rlink sample_red = None"
  "ep sample_red = sample_edp"
  by (simp_all add: sample_red_def Queue_init_def red_holds_def)

lemma sample_reset_params: "reset_params sample_red = Inr sample_params"
  by (simp add: reset_params_def sample_red_facts sample_edp_def sample_params_def)

lemma sample_params_ok: "params_ok 100 sample_params"
  by (simp add: params_ok_def sample_params_def sample_edp_def adapt_ok_def cautious_ok_def idle_rate_def)

subsection \<open>Runs\<close>

text \<open>
  (C18) A RED port keeps its bounds over every run. After a reset with thresholds in order (and, where
  the variants of \<open>cautious_\<close> divide, with divisors that are not zero), packets of at most \<open>M\<close> bytes
  arrive and the link finishes, in any order and at any times up to \<open>T\<close>: every step returns. With the
  limit in packets the queue never holds more than the limit, \<open>qlim_\<close> packets. With the limit in
  bytes (\<open>queue_in_bytes_\<close>, the default), which requires drops at the tail here, it may exceed the
  limit of \<open>qlim_ * mean_pktsize_\<close> bytes, but by \<open>M\<close> bytes at most: an arrival is queued whenever the
  queue is below the limit. The average is between 0 and that bound and both probabilities between 0
  and 1; a port that is not sending holds no packet; and every packet that arrived is queued, dropped
  or sent, exactly once.
\<close>
theorem red_keeps_bounds:
  assumes "red_holds s0 []" "unblock_on_resume s0" "\<not> blocked s0" "reset_params s0 = Inr e" "params_ok T e"
    and "0 \<le> qlim s0" "0 \<le> M" "rqib s0 \<longrightarrow> \<not> red_drop_front s0 \<and> \<not> red_drop_rand s0"
    and "fraction (v_prob1 (ev s0))" "fraction (v_prob (ev s0))" "dropped s0 = []" "forwarded s0 = []"
    and "0 \<le> t0" "t0 \<le> T" "events_ok M T (mem s0) es"
  shows "\<exists>s s' xs. red_reset t0 s0 = Inr s \<and> red_run es s = Inr s' \<and> red_holds s' xs \<and>
    red_size s' \<le> (if rqib s' then red_limit s' + M else red_limit s') \<and>
    0 \<le> v_ave (ev s') \<and> v_ave (ev s') \<le> of_int (if rqib s' then red_limit s' + M else red_limit s') \<and>
    fraction (v_prob1 (ev s')) \<and> fraction (v_prob (ev s')) \<and> (blocked s' \<or> xs = []) \<and>
    mset xs + mset (dropped s') + mset (map snd (forwarded s')) = mset (arrivals es)"
proof -
  obtain s where s: "red_reset t0 s0 = Inr s" "red_inv M T s []" "dropped s = []" "forwarded s = []"
    "pkt_at (mem s) = pkt_at (mem s0)" using red_reset_ok [OF assms(1-10) assms(13,14)] assms(11,12) by auto
  have "events_ok M T (mem s) es" "set (arrivals es) \<inter> set_mset (accounted s []) = {}"
    using assms(15) s(3-5) by (simp_all add: events_ok_def accounted_def)
  from red_run_ok [OF s(2) this] obtain s' xs where "red_run es s = Inr s'" "red_inv M T s' xs"
    "accounted s' xs = mset (arrivals es)" using s(3,4) by (auto simp: accounted_def)
  moreover have "red_bound M s' = (if rqib s' then red_limit s' + M else red_limit s')"
    by (simp add: red_bound_def red_limit_def)
  ultimately show ?thesis using s(1) by (auto simp: red_inv_def red_core_def vars_ok_def accounted_def)
qed

text \<open>Six packets arrive while the link sends the first.\<close>
theorem red_keeps_bounds_witness:
  "\<exists>s s' xs. red_reset 0 sample_red = Inr s \<and> red_run (map (\<lambda>p. (1, Arrive p)) [0, 1, 2, 3, 4, 5]) s = Inr s' \<and>
     red_holds s' xs \<and> \<not> rqib sample_red \<and> red_size s' \<le> (if rqib s' then red_limit s' + 500 else red_limit s') \<and>
     mset xs + mset (dropped s') + mset (map snd (forwarded s')) = mset [0, 1, 2, 3, 4, 5]"
proof -
  let ?es = "map (\<lambda>p. (1, Arrive p)) [0, 1, 2, 3, 4, 5] :: (time \<times> red_event) list"
  have es: "events_ok 500 100 (mem sample_red) ?es" "arrivals ?es = [0, 1, 2, 3, 4, 5]"
    by (simp_all add: events_ok_def sample_red_facts)
  obtain s s' xs where "red_reset 0 sample_red = Inr s" "red_run ?es s = Inr s'" "red_holds s' xs"
    "red_size s' \<le> (if rqib s' then red_limit s' + 500 else red_limit s')"
    "mset xs + mset (dropped s') + mset (map snd (forwarded s')) = mset (arrivals ?es)"
    using red_keeps_bounds [OF sample_red_facts(1-3) sample_reset_params sample_params_ok _ _ _ _ _
        sample_red_facts(8,9) _ _ es(1), of 0] by (auto simp: sample_red_facts)
  then show ?thesis using sample_red_facts(5) unfolding es(2) by blast
qed

subsection \<open>Drops\<close>

text \<open>The average of an arrival is that of \<open>red_average\<close>: the decision does not change it.\<close>

lemma drop_early_ave: "drop_early p s = Inr (d, s') \<Longrightarrow> v_ave (ev s') = v_ave (ev s)"
proof -
  assume r: "drop_early p s = Inr (d, s')"
  obtain x q k where "s' = s\<lparr>ev := (ev s)\<lparr>v_prob1 := x, v_prob := q\<rparr>\<rparr> \<or>
      s' = s\<lparr>ev := (ev s)\<lparr>v_prob1 := x, v_prob := q\<rparr>, rdrawn := k\<rparr> \<or>
      drop_or_mark p (s\<lparr>ev := (ev s)\<lparr>v_prob1 := x, v_prob := q\<rparr>, rdrawn := k\<rparr>) = (d, s')"
    using r unfolding drop_early_def Let_def red_uniform_def by (auto split: if_splits)
  then show ?thesis by (auto simp: drop_or_mark_def Let_def split: if_splits)
qed

text \<open>Whether \<open>RED\<close> would mark the packet instead of dropping it.\<close>

definition marks :: "addr \<Rightarrow> red \<Rightarrow> bool" where
  "marks p s \<longleftrightarrow> setbit (ep s) \<and> hf_ect s p \<and> (\<not> use_mark_p (ep s) \<or> v_prob1 (ev s) < mark_p (ep s))"

lemma drop_early_marks: "drop_early p s = Inr (True, s') \<Longrightarrow> \<not> marks p s'"
  by (auto simp: drop_early_def Let_def red_uniform_def drop_or_mark_def pickPacketForECN_def marks_def split: if_splits)

text \<open>An early drop is drawn with the probability that \<open>modify_p\<close> computed.\<close>

lemma drop_early_draw:
  assumes "drop_early p s = Inr (True, s')" "cautious (ep s) \<noteq> 2"
  shows "rng_double s (rdrawn s) \<le> v_prob (ev s')"
  using assms
  by (auto simp: drop_early_def Let_def red_uniform_def cautious_u_def drop_or_mark_def split: if_splits)

text \<open>The threshold from which the average alone forces a drop, unless \<open>use_mark_p_\<close> is set.\<close>

definition forcing_average :: "edp \<Rightarrow> real" where
  "forcing_average e = (if gentle e then 2 * th_max e else th_max e)"

lemma above_max_forcing:
  "above_max s \<longleftrightarrow> \<not> use_mark_p (ep s) \<and> forcing_average (ep s) \<le> v_ave (ev s)"
  by (auto simp: above_max_def forcing_average_def)

text \<open>The packet is queued, or a packet is dropped by force, or the packet itself early.\<close>

lemma decide_reasons:
  assumes "red_decide p s = Inr (d, s')"
  shows "v_ave (ev s') = v_ave (ev s)"
    "d = DTYPE_NONE \<Longrightarrow> red_size s < red_limit s"
    "d = DTYPE_FORCED \<Longrightarrow> red_limit s \<le> red_size s \<or> th_min (ep s) \<le> v_ave (ev s) \<and> 1 < red_size s \<and> above_max s"
    "d = DTYPE_UNFORCED \<Longrightarrow> th_min (ep s) \<le> v_ave (ev s) \<and> 1 < red_size s \<and> \<not> above_max s \<and> old (ev s) \<and> \<not> marks p s' \<and>
      (cautious (ep s) \<noteq> 2 \<longrightarrow> rng_double s (rdrawn s) \<le> v_prob (ev s'))"
proof -
  show "v_ave (ev s') = v_ave (ev s)"
    using assms by (cases rule: red_decide_cases) (auto dest: drop_early_ave)
  show "red_size s < red_limit s" if "d = DTYPE_NONE"
    using assms that by (simp add: decide_none)
  show "red_limit s \<le> red_size s \<or> th_min (ep s) \<le> v_ave (ev s) \<and> 1 < red_size s \<and> above_max s" if "d = DTYPE_FORCED"
    using assms that by (cases rule: red_decide_cases) (auto split: if_splits)
  show "th_min (ep s) \<le> v_ave (ev s) \<and> 1 < red_size s \<and> \<not> above_max s \<and> old (ev s) \<and> \<not> marks p s' \<and>
      (cautious (ep s) \<noteq> 2 \<longrightarrow> rng_double s (rdrawn s) \<le> v_prob (ev s'))" if "d = DTYPE_UNFORCED"
    using assms that by (cases rule: red_decide_cases) (auto split: if_splits dest: drop_early_marks drop_early_draw)
qed

lemma average_old:
  assumes "red_average now s = Inr s'" shows "old (ev s') = old (ev s)"
proof -
  have feng: "old v' = old v" if "updateMaxPFeng a e v = Inr v'" for a e v v'
    using that by (auto simp: updateMaxPFeng_def Let_def split: if_splits)
  have "old v' = old v" if "estimator now n m a w e v = Inr (b, v')" for n m a w e v b v'
    using that by (auto simp: estimator_def Let_def updateMaxP_keeps split: if_splits dest: feng)
  then show ?thesis using assms by (auto simp: red_average_def idle_arrivals_def Let_def split: if_splits)
qed

lemma average_draws: "red_average now s = Inr s' \<Longrightarrow> rdrawn s' = rdrawn s"
  by (auto simp: red_average_def idle_arrivals_def Let_def split: if_splits)

lemma stats_draws [simp]: "rdrawn (red_stats now s) = rdrawn s"
  using red_stats_only [of s now] by (cases s; cases "red_stats now s") (simp add: stats_only_def)

text \<open>
  (C21) Why RED drops. A completed \<open>enque\<close> has one of three outcomes. The packet is queued, nothing is
  dropped and the queue was below its limit. One packet of the queue or the arrival is dropped by
  force: the queue was at its limit, or \<open>use_mark_p_\<close> is off and the new average, with more than one
  packet or byte queued, at \<open>th_max\<close> (twice that with \<open>gentle_\<close>). Or the arrival alone is dropped
  early: more than one packet or byte was queued, the average is at least \<open>th_min\<close> and was at the
  arrival before too, ECN did not allow a mark, and the random number drawn is within the probability
  of the drop (for \<open>cautious_\<close> other than 2, which scales it). Early drops end at the
  threshold of the forced ones only where \<open>use_mark_p_\<close> is off: with \<open>use_mark_p_\<close>, the default, the average has no
  upper threshold. A packet that can be marked is never dropped early.
\<close>
theorem red_drop_reasons:
  assumes h: "red_holds s xs" "p \<notin> set xs" and r: "red_enque now p s = Inr s'"
  shows "red_holds s' (xs @ [p]) \<and> dropped s' = dropped s \<and> red_size s < red_limit s \<or>
    (\<exists>x\<in>set (xs @ [p]). dropped s' = dropped s @ [x] \<and>
       (red_limit s \<le> red_size s \<or>
        \<not> use_mark_p (ep s) \<and> 1 < red_size s \<and> th_min (ep s) \<le> v_ave (ev s') \<and>
          (if gentle (ep s) then 2 * th_max (ep s) else th_max (ep s)) \<le> v_ave (ev s'))) \<or>
    red_holds s' xs \<and> dropped s' = dropped s @ [p] \<and> 1 < red_size s \<and> th_min (ep s) \<le> v_ave (ev s') \<and>
      (use_mark_p (ep s) \<or> v_ave (ev s') < (if gentle (ep s) then 2 * th_max (ep s) else th_max (ep s))) \<and>
      old (ev s) \<and> \<not> marks p s' \<and> (cautious (ep s) \<noteq> 2 \<longrightarrow> rng_double s (rdrawn s) \<le> v_prob (ev s'))"
proof -
  obtain s0 d s1 where e: "red_average now s = Inr s0" "red_decide p (red_count p (red_stats now s0)) = Inr (d, s1)"
    "enqueued p xs d s1 s'" "same_port s s'" "vars_kept s1 s'" "red_frame s s1"
    by (rule red_enqueE [OF h r])
  let ?t = "red_count p (red_stats now s0)"
  have "red_frame s ?t"
    using red_frame_trans [OF red_frame_trans [OF red_frame_average [OF e(1)] red_frame_stats] red_frame_count] .
  then have t: "ep ?t = ep s" "red_size ?t = red_size s" "red_limit ?t = red_limit s" "rng_double ?t = rng_double s"
    by (simp_all add: red_frame_def red_size_def red_limit_def)
  have w: "rdrawn ?t = rdrawn s" using average_draws [OF e(1)] by (simp add: red_count_def)
  have o: "old (ev ?t) = old (ev s)" using average_old [OF e(1)] by (simp add: red_count_def)
  have v: "v_ave (ev s') = v_ave (ev s1)" "v_prob1 (ev s') = v_prob1 (ev s1)"
    "v_prob (ev s') = v_prob (ev s1)" using e(5) by (auto simp: vars_kept_def)
  have a: "v_ave (ev s') = v_ave (ev ?t)" using v decide_reasons(1) [OF e(2)] by simp
  have m: "above_max ?t \<longleftrightarrow> \<not> use_mark_p (ep s) \<and>
      (if gentle (ep s) then 2 * th_max (ep s) else th_max (ep s)) \<le> v_ave (ev s')"
    using a t(1) by (simp add: above_max_forcing forcing_average_def)
  have k: "marks p s' = marks p s1" using e(4,6) v by (simp add: marks_def same_port_def red_frame_def)
  obtain ys ds where ys: "abs_red_enque d (victim_index s1 (length xs + 1)) p xs = (ys, ds)" "red_holds s' ys"
    "dropped s' = dropped s @ ds" using e(3,6) by (auto simp: enqueued_def red_frame_def)
  have i: "victim_index s1 (length xs + 1) < length (xs @ [p])" using victim_index_less [of "xs @ [p]" s1] by simp
  show ?thesis
  proof (cases d)
    case DTYPE_NONE
    then show ?thesis using ys decide_reasons(2) [OF e(2)] t by (simp add: abs_red_enque_def)
  next
    case DTYPE_UNFORCED
    then show ?thesis using ys decide_reasons(4) [OF e(2)] t o a m k v(3) w by (auto simp: abs_red_enque_def not_le)
  next
    case DTYPE_FORCED
    then have "dropped s' = dropped s @ [(xs @ [p]) ! victim_index s1 (length xs + 1)]"
      using ys by (auto simp: abs_red_enque_def Let_def)
    moreover have "(xs @ [p]) ! victim_index s1 (length xs + 1) \<in> set (xs @ [p])" using i by (rule nth_mem)
    moreover have "red_limit s \<le> red_size s \<or> \<not> use_mark_p (ep s) \<and> 1 < red_size s \<and> th_min (ep s) \<le> v_ave (ev s') \<and>
        (if gentle (ep s) then 2 * th_max (ep s) else th_max (ep s)) \<le> v_ave (ev s')"
      using decide_reasons(3) [OF e(2)] DTYPE_FORCED t a m by auto
    ultimately show ?thesis by blast
  qed
qed

text \<open>Two packets are queued and the average is 2; the arrival has no ECN and is dropped early.\<close>

definition sample_busy :: red where
  "sample_busy = red_q_enque 1 (red_q_enque 0 sample_red)
     \<lparr>idle := False, ep := sample_params,
      ev := (ev sample_red)\<lparr>v_ave := 2, v_a := 1 / 2, v_b := - 1 / 2, cur_max_p := 1, ecount := 3, old := True\<rparr>\<rparr>"

lemma red_holds_enque: "red_holds s xs \<Longrightarrow> p \<notin> set xs \<Longrightarrow> red_holds (red_q_enque p s) (xs @ [p])"
  by (erule (1) red_q_enque_holds) (simp add: red_holds_def)

lemma sample_busy_holds: "red_holds sample_busy [0, 1]"
  using red_holds_enque [OF red_holds_enque [OF sample_red_facts(1), of 0], of 1]
  by (simp add: sample_busy_def red_holds_def)

lemma sample_busy_early:
  "case red_enque 1 3 sample_busy of Inr s' \<Rightarrow> dropped s' = [3] \<and> v_ave (ev s') < 6 | _ \<Rightarrow> False"
  by code_simp

theorem red_drop_reasons_witness:
  "\<exists>s'. red_enque 1 3 sample_busy = Inr s' \<and> dropped s' = [3] \<and> red_holds s' [0, 1] \<and> old (ev sample_busy) \<and>
     \<not> marks 3 s' \<and> 1 / 2 \<le> v_prob (ev s')"
proof -
  obtain s' where s': "red_enque 1 3 sample_busy = Inr s'" "dropped s' = [3]" "v_ave (ev s') < 6"
    using sample_busy_early by (auto split: sum.splits)
  have f: "dropped sample_busy = []" "red_size sample_busy < red_limit sample_busy" "gentle (ep sample_busy)"
    "th_max (ep sample_busy) = 3" "cautious (ep sample_busy) = 0" "rng_double sample_busy (rdrawn sample_busy) = 1 / 2"
    by code_simp+
  from red_drop_reasons [OF sample_busy_holds _ s'(1)] s' f show ?thesis by auto
qed

subsection \<open>Probability\<close>

text \<open>
  (C23) The probability between the thresholds. With the coefficients that \<open>reset\<close> computes,
  \<open>calculate_p_new\<close> grows linearly from 0 at \<open>th_min\<close> to the current \<open>max_p\<close> at \<open>th_max\<close>. From there
  it is 1, and with \<open>gentle_\<close> it grows linearly from the initial \<open>max_p\<close> (which the adaptation does not
  change) at \<open>th_max\<close> to 1 at twice \<open>th_max\<close> and beyond.
\<close>
theorem red_probability_ramp:
  assumes "0 \<le> th_min e" "th_min e < th_max e" "1 \<le> max_p_inv e" "reset_vars e v = Inr v1" "fraction m" "0 \<le> x"
  shows "let p = calculate_p_new x (th_max e) (gentle e) (v_a v1) (v_b v1) (v_c v1) (v_d v1) m in
    (x < th_max e \<longrightarrow> p = m * ((x - th_min e) / (th_max e - th_min e))) \<and>
    (th_max e \<le> x \<and> \<not> gentle e \<longrightarrow> p = 1) \<and>
    (th_max e \<le> x \<and> x \<le> 2 * th_max e \<and> gentle e \<longrightarrow>
       p = 1 / max_p_inv e + (1 - 1 / max_p_inv e) * ((x - th_max e) / th_max e)) \<and>
    (2 * th_max e \<le> x \<longrightarrow> p = 1)"
proof -
  let ?v = "v1\<lparr>cur_max_p := m\<rparr>" and ?y = "(x - th_max e) / th_max e" and ?q = "1 / max_p_inv e"
  have "ramp_ok e v1" using reset_vars_ramp [OF assms(1-3), of v] assms(4) by auto
  then have r: "ramp_ok e ?v" by (simp add: ramp_ok_def)
  have q: "0 \<le> 1 - ?q" "0 < th_max e" using assms(1-3) by auto
  have below: "ramp e ?v x = m * ((x - th_min e) / (th_max e - th_min e))" if "x < th_max e"
    using ramp_below [OF r that] assms(5) by simp
  have above: "ramp e ?v x = min 1 (?q + (1 - ?q) * ?y)" if "th_max e \<le> x" "gentle e"
    using ramp_gentle [OF r that(2,1)] .
  have le: "?q + (1 - ?q) * ?y \<le> 1" if "x \<le> 2 * th_max e"
  proof -
    have "?y \<le> 1" using that q(2) by (simp add: divide_le_eq)
    from mult_left_mono [OF this q(1)] show ?thesis by (simp only: mult_1_right)
  qed
  have ge: "1 \<le> ?q + (1 - ?q) * ?y" if "2 * th_max e \<le> x"
  proof -
    have "1 \<le> ?y" using that q(2) by (simp add: le_divide_eq)
    from mult_left_mono [OF this q(1)] show ?thesis by (simp only: mult_1_right)
  qed
  have one: "ramp e ?v x = 1" if "th_max e \<le> x" "\<not> gentle e" using that by (simp add: calculate_p_new_def)
  have "2 * th_max e \<le> x \<longrightarrow> ramp e ?v x = 1"
    using above one ge q(2) by (cases "gentle e") auto
  with below above one le show ?thesis by (simp add: Let_def)
qed

text \<open>Thresholds 1 and 3, average 2, current \<open>max_p\<close> 1/5: the probability is half of that.\<close>
theorem red_probability_ramp_witness:
  "case reset_vars sample_params (ev sample_red) of
     Inr v \<Rightarrow> calculate_p_new 2 3 True (v_a v) (v_b v) (v_c v) (v_d v) (1 / 5) = 1 / 10
   | Inl _ \<Rightarrow> False"
proof -
  have e: "th_min sample_params = 1" "th_max sample_params = 3" "max_p_inv sample_params = 10" "gentle sample_params"
    by (simp_all add: sample_params_def sample_edp_def)
  obtain v where v: "reset_vars sample_params (ev sample_red) = Inr v"
    using reset_vars_ramp [of sample_params "ev sample_red"] e by auto
  from red_probability_ramp [OF _ _ _ v, of "1 / 5" 2] e v show ?thesis by (simp add: Let_def)
qed

text \<open>The chance of a drop at the \<open>n\<close>-th arrival after the last one, counting packets.\<close>

definition drop_chance :: "bool \<Rightarrow> real \<Rightarrow> nat \<Rightarrow> real" where
  "drop_chance wt p n = (case modify_p p (int n) 0 False 1 wt 0 of Inr q \<Rightarrow> q | Inl _ \<Rightarrow> 0)"

lemma drop_chance_modify_p: "modify_p p (int n) cb False mean wt sz = Inr (drop_chance wt p n)"
  by (simp add: drop_chance_def modify_p_def Let_def)

lemma drop_chance_min: "drop_chance wt p n = min 1 (spread_p wt (real n) p)"
  by (simp add: drop_chance_def modify_p_def Let_def min_def)

text \<open>Counting bytes: the number of mean packets in the bytes since the last drop is what counts.\<close>

lemma drop_chance_bytes:
  assumes "0 < mean" "0 \<le> cb" "cb div mean = int k"
  shows "modify_p p n cb True mean wt sz =
    Inr (if drop_chance wt p k < 1 then min 1 (drop_chance wt p k * of_int sz / of_int mean) else 1)"
  using assms by (simp add: modify_p_def cdiv_nonneg drop_chance_min Let_def min_def)

lemma drop_chance_spread:
  assumes "0 < p" "real (n + 1) * p \<le> (if wt then 2 else 1)"
  shows "drop_chance wt p n = spread_p wt (real n) p"
proof -
  have "real n * p + p \<le> (if wt then 2 else 1)" using assms(2) by (simp add: algebra_simps)
  then have "spread_p wt (real n) p \<le> 1" using assms(1) by (auto simp: spread_p_def divide_le_eq split: if_splits)
  then show ?thesis by (simp add: drop_chance_min)
qed

text \<open>The probability of a gap \<open>k\<close>: \<open>k - 1\<close> arrivals pass and the next one is dropped.\<close>

definition gap_chance :: "bool \<Rightarrow> real \<Rightarrow> nat \<Rightarrow> real" where
  "gap_chance wt p k = (\<Prod>i\<in>{1..<k}. 1 - drop_chance wt p i) * drop_chance wt p k"

lemma drop_chance_prod:
  assumes "0 < p" "real k * p \<le> (if wt then 2 else 1)"
  shows "(\<Prod>i\<in>{c..<k}. 1 - drop_chance wt p i) = (\<Prod>i\<in>{c..<k}. 1 - spread_p wt (real i) p)"
proof (intro prod.cong refl)
  fix i assume "i \<in> {c..<k}"
  then have "real (i + 1) * p \<le> real k * p" using assms(1) by (intro mult_right_mono) auto
  then show "1 - drop_chance wt p i = 1 - spread_p wt (real i) p"
    using drop_chance_spread [OF assms(1)] assms(2) by simp
qed

text \<open>No gap is longer than one at which the drop was certain.\<close>

lemma gap_chance_beyond:
  assumes "1 < k" "drop_chance wt p (k - 1) = 1"
  shows "gap_chance wt p k = 0"
proof -
  have "(\<Prod>i\<in>{1..<k}. 1 - drop_chance wt p i) = 0"
    using assms by (intro prod_zero) (auto intro!: bexI [of _ "k - 1"])
  then show ?thesis by (simp add: gap_chance_def)
qed

lemma gap_chance_plain:
  assumes p: "0 < p" "p < 1" and k: "1 \<le> k"
  shows "gap_chance False p k =
    (if real (k + 1) * p \<le> 1 then p / (1 - p) else if real k * p < 1 then (1 - real k * p) / (1 - p) else 0)"
proof -
  consider (most) "real (k + 1) * p \<le> 1" | (last) "1 < real (k + 1) * p" "real k * p < 1" | (none) "1 \<le> real k * p"
    by linarith
  then show ?thesis
  proof cases
    case most
    then have "real k * p \<le> 1" using p by (simp add: algebra_simps)
    then show ?thesis
      using most drop_chance_prod [OF p(1), of k False 1] drop_chance_spread [OF p(1), of k False]
        spread_uniform [OF p(1) k most] by (simp add: gap_chance_def)
  next
    case last
    then have "drop_chance False p k = 1" using spread_certain [OF p(1), of k] by (simp add: drop_chance_min)
    then show ?thesis
      using last drop_chance_prod [OF p(1), of k False 1] spread_product [OF p(1) last(2) k]
      by (simp add: gap_chance_def)
  next
    case none
    then have l: "1 < k" using p k by (cases "k = 1") auto
    then have "1 \<le> spread_p False (real (k - 1)) p" using none by (intro spread_certain [OF p(1)]) simp
    then have "drop_chance False p (k - 1) = 1" by (simp add: drop_chance_min)
    moreover have "\<not> real (k + 1) * p \<le> 1" using none p by (simp add: algebra_simps)
    ultimately show ?thesis using gap_chance_beyond [OF l] none by simp
  qed
qed

text \<open>With \<open>wait_\<close> nothing is dropped before the count \<open>c\<close>.\<close>

lemma gap_chance_from:
  assumes "1 \<le> c" "c \<le> k" "\<And>i. i < c \<Longrightarrow> real i * p < 1"
  shows "gap_chance True p k = (\<Prod>i\<in>{c..<k}. 1 - drop_chance True p i) * drop_chance True p k"
proof -
  have "{1..<k} = {1..<c} \<union> {c..<k}" using assms(1,2) by auto
  then have "(\<Prod>i\<in>{1..<k}. 1 - drop_chance True p i) =
      (\<Prod>i\<in>{1..<c}. 1 - drop_chance True p i) * (\<Prod>i\<in>{c..<k}. 1 - drop_chance True p i)"
    by (simp only: prod.union_disjoint [of "{1..<c}" "{c..<k}"] finite_atLeastLessThan ivl_disj_int)
  moreover have "(\<Prod>i\<in>{1..<c}. 1 - drop_chance True p i) = 1"
    using assms(3) by (intro prod.neutral) (simp add: drop_chance_min spread_p_def)
  ultimately show ?thesis by (simp add: gap_chance_def)
qed

lemma gap_chance_wait:
  assumes p: "0 < p" "p < 1" and k: "1 \<le> k" and c: "c = nat \<lceil>1 / p\<rceil>"
  shows "gap_chance True p k =
    (if real k * p < 1 then 0 else if real (k + 1) * p \<le> 2 then p / (2 - real c * p)
     else if real k * p < 2 then (2 - real k * p) / (2 - real c * p) else 0)"
proof -
  have "0 < \<lceil>1 / p\<rceil>" using p by simp
  then have c1: "1 \<le> c" "1 / p \<le> real c" unfolding c by linarith+
  then have cp: "1 \<le> real c * p" using p by (simp add: divide_le_eq)
  have below: "real i * p < 1" if "i < c" for i
  proof -
    have "real i < 1 / p" using that unfolding c by linarith
    then show ?thesis using p by (simp add: less_divide_eq)
  qed
  show ?thesis
  proof (cases "real k * p < 1")
    case True
    then show ?thesis by (simp add: gap_chance_def drop_chance_min spread_p_def)
  next
    case False
    then have ck: "c \<le> k" using below [of k] by (cases "k < c") auto
    note g = gap_chance_from [OF c1(1) ck below]
    consider (most) "real (k + 1) * p \<le> 2" | (last) "2 < real (k + 1) * p" "real k * p < 2" | (none) "2 \<le> real k * p"
      by linarith
    then show ?thesis
    proof cases
      case most
      then have "real k * p \<le> 2" using p by (simp add: algebra_simps)
      then show ?thesis
        using most False g drop_chance_prod [OF p(1), of k True c] drop_chance_spread [OF p(1), of k True]
          wait_uniform [OF p(1) cp ck most] by simp
    next
      case last
      then have "drop_chance True p k = 1" using wait_certain [OF p(1), of k] False by (simp add: drop_chance_min)
      then show ?thesis
        using last False g drop_chance_prod [OF p(1), of k True c] wait_product [OF p(1) cp ck last(2)] by simp
    next
      case none
      then have l: "1 < k" using p k by (cases "k = 1") auto
      then have "1 \<le> spread_p True (real (k - 1)) p"
        using none p by (intro wait_certain [OF p(1)]) (simp_all add: of_nat_diff algebra_simps)
      then have "drop_chance True p (k - 1) = 1" by (simp add: drop_chance_min)
      moreover have "\<not> real (k + 1) * p \<le> 2" using none p by (simp add: algebra_simps)
      ultimately show ?thesis using gap_chance_beyond [OF l] none by simp
    qed
  qed
qed

text \<open>
  (C22) How the drops are spread. The arrivals since the last drop are counted from 1, and \<open>modify_p\<close>
  turns a constant probability \<open>p\<close> into the chance of a drop for each count, in packets or in bytes:
  then the count is the number of packets of \<open>mean_pktsize_\<close> bytes in the bytes since the last drop, and a chance
  below 1 is scaled by the size of the packet. The distribution of the gap \<open>k\<close>, that \<open>k - 1\<close> arrivals pass and the
  next is dropped, is uniform but for the longest gap. Without \<open>wait_\<close> every gap with \<open>(k + 1) p \<le> 1\<close>
  has probability \<open>p / (1 - p)\<close>, the longest one, with \<open>k p < 1 < (k + 1) p\<close>, the remainder, and no gap has
  \<open>k p \<ge> 1\<close>. With \<open>wait_\<close> no gap is shorter than \<open>c\<close>, the first count with \<open>c p \<ge> 1\<close>; from
  there on every gap with \<open>(k + 1) p \<le> 2\<close> has probability \<open>p / (2 - c p)\<close>, the longest one, with
  \<open>k p < 2 < (k + 1) p\<close>, the remainder, and no gap has \<open>k p \<ge> 2\<close>.
\<close>
theorem red_uniform_drops:
  assumes "0 < p" "p < 1" "1 \<le> k"
  shows "modify_p p (int k) cb False mean wt sz = Inr (drop_chance wt p k) \<and>
    (0 < mean \<and> 0 \<le> cb \<and> cb div mean = int k \<longrightarrow>
      modify_p p n cb True mean wt sz =
        Inr (if drop_chance wt p k < 1 then min 1 (drop_chance wt p k * of_int sz / of_int mean) else 1)) \<and>
    gap_chance False p k =
      (if real (k + 1) * p \<le> 1 then p / (1 - p) else if real k * p < 1 then (1 - real k * p) / (1 - p) else 0) \<and>
    (let c = nat \<lceil>1 / p\<rceil> in
     gap_chance True p k =
      (if real k * p < 1 then 0 else if real (k + 1) * p \<le> 2 then p / (2 - real c * p)
       else if real k * p < 2 then (2 - real k * p) / (2 - real c * p) else 0))"
  using drop_chance_modify_p drop_chance_bytes gap_chance_plain [OF assms] gap_chance_wait [OF assms refl]
  by (simp add: Let_def)

text \<open>For \<open>p\<close> = 3/10: gaps 1 and 2 have probability 3/7, gap 3 the remaining 1/7.\<close>
theorem red_uniform_drops_witness:
  "gap_chance False (3 / 10) 2 = 3 / 7 \<and> gap_chance False (3 / 10) 3 = 1 / 7 \<and>
   gap_chance True (3 / 10) 3 = 0"
  using red_uniform_drops [of "3 / 10" 2] red_uniform_drops [of "3 / 10" 3] by (simp add: Let_def)

subsection \<open>Adaptation\<close>

text \<open>
  (C40) The adaptation of \<open>max_p\<close>. With an increment \<open>alpha_\<close> and a factor \<open>beta_\<close> of at most 1,
  \<open>updateMaxP\<close> keeps \<open>cur_max_p\<close> between \<open>beta_ * bottom_\<close> and \<open>top_ + alpha_\<close>, whatever the average. Both
  can be passed that far: one step below \<open>bottom_\<close> and one step above \<open>top_\<close>. In the middle
  fifth between the thresholds nothing changes. Below it \<open>cur_max_p\<close> is multiplied by \<open>beta_\<close> as long as it
  is above \<open>bottom_\<close>, and with a factor below 1 every long enough run of such averages brings it to
  \<open>bottom_\<close> or below. Above it a quarter of \<open>cur_max_p\<close>, at most \<open>alpha_\<close>, is added as long as it is below
  \<open>top_\<close>, and every long enough run of such averages brings it to \<open>top_\<close> or above.
\<close>
theorem red_adaptive_bounds:
  assumes "0 \<le> alpha e" "0 \<le> beta e" "beta e \<le> 1" "0 \<le> bottom_p e" "th_min e < th_max e"
    and "beta e * bottom_p e \<le> cur_max_p v" "cur_max_p v \<le> top_p e + alpha e"
  shows "beta e * bottom_p e \<le> cur_max_p (updateMaxP a now e v) \<and>
    cur_max_p (updateMaxP a now e v) \<le> top_p e + alpha e \<and>
    (\<not> low_average e a \<and> \<not> high_average e a \<longrightarrow> updateMaxP a now e v = v) \<and>
    (low_average e a \<longrightarrow> cur_max_p (updateMaxP a now e v) =
      (if bottom_p e < cur_max_p v then cur_max_p v * beta e else cur_max_p v)) \<and>
    (high_average e a \<longrightarrow> cur_max_p (updateMaxP a now e v) =
      (if cur_max_p v < top_p e then cur_max_p v + min (alpha e) (cur_max_p v / 4) else cur_max_p v)) \<and>
    (beta e < 1 \<and> 0 < bottom_p e \<longrightarrow>
      (\<exists>N. \<forall>xs. N \<le> length xs \<and> (\<forall>(a, now)\<in>set xs. low_average e a) \<longrightarrow>
        cur_max_p (adapt_run xs e v) \<le> bottom_p e)) \<and>
    (0 < alpha e \<and> 0 < cur_max_p v \<longrightarrow>
      (\<exists>N. \<forall>xs. N \<le> length xs \<and> (\<forall>(a, now)\<in>set xs. high_average e a) \<longrightarrow>
        top_p e \<le> cur_max_p (adapt_run xs e v)))"
proof -
  have nn: "0 \<le> cur_max_p v" using mult_nonneg_nonneg [OF assms(2,4)] assms(6) by linarith
  have "updateMaxP a now e v = v" if "\<not> low_average e a" "\<not> high_average e a"
    using that by (simp add: updateMaxP_def low_average_def high_average_def Let_def)
  then show ?thesis
    using updateMaxP_bounds [OF assms(1-4,6,7), of a now] updateMaxP_low [OF assms(5)] updateMaxP_high [OF assms(5)]
      adapt_reaches_bottom [OF assms(5,2) _ _ nn] adapt_reaches_top [OF assms(5)] by blast
qed

text \<open>The sample with \<open>cur_max_p\<close> just below \<open>top_\<close> = 1/2: one step takes it above \<open>top_\<close>.\<close>
theorem red_adaptive_bounds_witness:
  "let v = (ev sample_red)\<lparr>cur_max_p := 499 / 1000\<rparr> in
   top_p sample_params < cur_max_p (updateMaxP 3 1 sample_params v) \<and>
   cur_max_p (updateMaxP 3 1 sample_params v) \<le> top_p sample_params + alpha sample_params"
proof -
  have "top_p sample_params < cur_max_p (updateMaxP 3 1 sample_params ((ev sample_red)\<lparr>cur_max_p := 499 / 1000\<rparr>))"
    by (simp add: sample_params_def sample_edp_def updateMaxP_def)
  then show ?thesis
    using red_adaptive_bounds [of sample_params "(ev sample_red)\<lparr>cur_max_p := 499 / 1000\<rparr>" 3 1]
    by (simp add: sample_params_def sample_edp_def Let_def)
qed

end
