(* ===== verification/Tcp_Newreno.thy ===== *)
theory Tcp_Newreno
  imports Tcp_Reno
begin

section \<open>NewReno TCP (\<open>tcp/tcp-newreno.cc\<close>: \<open>NewRenoTcpAgent\<close>)\<close>

text \<open>
  NewReno stays in fast recovery until everything that was outstanding at its start has been
  acknowledged (\<open>recover_\<close>); an acknowledgement of less, a partial one, makes it send the next missing
  packet. It overrides \<open>recv\<close>, \<open>dupack_action\<close> and \<open>allow_fast_retransmit\<close> of \<open>RenoTcpAgent\<close>. The bound
  parameters are the argument \<open>nc\<close>: those of the class and the two of \<open>TcpAgent\<close> that only this class
  reads. A conversion to \<open>int\<close> that is out of range leaves \<open>new_ssthresh_\<close> undefined, \<open>None\<close>; reading
  it then is the error.
\<close>

subsection \<open>State\<close>

record newreno_conf =
  newreno_changes :: int
  newreno_changes1 :: bool
  partial_window_deflation :: bool
  exit_recovery_fix :: bool
  less_careful :: bool
  bugfix_ack :: bool

record newreno = reno +
  nr_acked :: int
  new_ssthresh :: "int option"
  ack2 :: time
  ack3 :: time
  basertt :: time
  firstpartial :: bool

definition new_NewRenoTcpAgent :: "'b newreno_scheme \<Rightarrow> 'b newreno_scheme" where
  "new_NewRenoTcpAgent s = (new_RenoTcpAgent s)\<lparr>nr_acked := 0, firstpartial := False\<rparr>"

subsection \<open>Partial acknowledgements\<close>

definition deflate_window :: "tpkt \<Rightarrow> 'b newreno_scheme \<Rightarrow> 'b newreno_scheme" where
  "deflate_window pkt s =
     (let deflate = (if last_ack s < tp_seqno pkt then (tp_seqno pkt - last_ack s) mod 2 ^ 32 else 0);
          s = (if deflate < dupwnd s then set_dupwnd (dupwnd s - (deflate - 1)) s
               else (set_cwnd (cwnd (wn s) - of_int (deflate - dupwnd s)) s)\<lparr>dupwnd := 1\<rparr>)
      in if cwnd (wn s) < 1 then set_cwnd 1 s else s)"

definition partialnewack :: "newreno_conf \<Rightarrow> tpkt \<Rightarrow> 'b newreno_scheme \<Rightarrow> 'b newreno_scheme" where
  "partialnewack nc pkt s =
     (let s = (if partial_window_deflation nc then deflate_window pkt s else s);
          s = s\<lparr>last_ack := tp_seqno pkt, highest_ack := tp_seqno pkt\<rparr>;
          s = (if t_seqno s < last_ack s + 1 then s\<lparr>t_seqno := last_ack s + 1\<rparr> else s)
      in if rtt_active s \<and> rtt_seq s \<le> tp_seqno pkt
         then s\<lparr>rtt_active := False, rt := (rt s)\<lparr>t_backoff := 1\<rparr>\<rparr> else s)"

definition partialnewack_helper ::
  "newreno_conf \<Rightarrow> time \<Rightarrow> tpkt \<Rightarrow> 'b newreno_scheme \<Rightarrow> 'b newreno_scheme res" where
  "partialnewack_helper nc now pkt s =
     res_bind (if \<not> newreno_changes1 nc \<or> \<not> firstpartial s then newtimer now pkt (s\<lparr>firstpartial := True\<rparr>)
               else Inr s) (\<lambda>s.
       let s = partialnewack nc pkt s in tcp_output now (last_ack s + 1) 0 s)"

subsection \<open>Duplicate acknowledgements\<close>

definition newreno_action :: "time \<Rightarrow> 'b newreno_scheme \<Rightarrow> 'b newreno_scheme res" where
  "newreno_action now s =
     res_bind (reset_rtx_timer now True False (s\<lparr>recover := maxseq s\<rparr>)) (\<lambda>s.
     res_bind (lossQuickStart reno_vt now s) (\<lambda>(lost, s).
       if lost then Inr s
       else res_bind (tcp_slowdown reno_vt {CLOSE_SSTHRESH_HALF, CLOSE_CWND_HALF} (set_action CWND_ACTION_DUPACK s)) (\<lambda>s.
            res_bind (tcp_output now (last_ack s + 1) TCP_REASON_DUPACK s) (\<lambda>s.
              Inr (set_dupwnd (numdupacks (conf s)) s)))))"

text \<open>The packet that made the sink acknowledge was sent after the retransmission (\<open>bugfix_ts_\<close>).\<close>

definition echo_matches :: "'b newreno_scheme \<Rightarrow> bool res" where
  "echo_matches s =
     (if bugfix_ts (conf s)
      then case tss s of
             None \<Rightarrow> Inl NullPointer
           | Some xs \<Rightarrow> res_bind (tss_index (highest_ack s) (tss_size s)) (\<lambda>k. Inr (xs ! k = ts_echoed s))
      else Inr False)"

definition newreno_dupack_action :: "newreno_conf \<Rightarrow> time \<Rightarrow> 'b newreno_scheme \<Rightarrow> 'b newreno_scheme res" where
  "newreno_dupack_action nc now s =
     (if recover s < highest_ack s \<or> (\<not> bug_fix (conf s) \<and> \<not> ecn_on (conf s)) \<or>
         (bugfix_ss (conf s) \<and> highest_ack s = 0)
      then newreno_action now s
      else if bug_fix (conf s) \<and> less_careful nc \<and> highest_ack s = recover s then newreno_action now s
      else if ecn_on (conf s) \<and> last_cwnd_action (wn s) = CWND_ACTION_ECN
      then reno_retransmit now (set_action CWND_ACTION_DUPACK s)
      else if bug_fix (conf s)
      then res_bind (echo_matches s) (\<lambda>late.
             if late then newreno_action now s
             else if bugfix_ack nc \<and> 1 < cwnd (wn s) \<and> highest_ack s - prev_highest_ack s \<le> numdupacks (conf s)
             then newreno_action now s
             else Inr s)
      else newreno_action now s)"

definition newreno_dup :: "newreno_conf \<Rightarrow> time \<Rightarrow> 'b newreno_scheme \<Rightarrow> 'b newreno_scheme res" where
  "newreno_dup nc now s =
     (let s = s\<lparr>dupacks := dupacks s + 1\<rparr>
      in if dupacks s = numdupacks (conf s)
         then res_bind (newreno_dupack_action nc now s) (\<lambda>s.
                Inr (if exitFastRetrans (conf s) then s else set_dupwnd (numdupacks (conf s)) s))
         else if numdupacks (conf s) < dupacks s \<and>
                 (\<not> exitFastRetrans (conf s) \<or> last_cwnd_action (wn s) = CWND_ACTION_DUPACK)
         then let s = set_dupwnd (dupwnd s + 1) s
              in if 0 < newreno_changes nc \<and> crem (dupacks s) 2 = 1
                 then tcp_output now (t_seqno s) 0 (s\<lparr>t_seqno := t_seqno s + 1\<rparr>) else Inr s
         else if dupacks s < numdupacks (conf s) \<and> singledup (conf s) then send_one reno_vt now s
         else Inr s)"

subsection \<open>\<open>recv\<close>\<close>

text \<open>An estimate of the window from the first three acknowledgements, used with \<open>newreno_changes_\<close>.\<close>

definition ssthresh_estimate :: "'b newreno_scheme \<Rightarrow> int option" where
  "ssthresh_estimate s =
     (if ack3 s = ack2 s \<or> psize (conf s) = 0 then None
      else let size = of_int (psize (conf s)); n = int_of_double (basertt s * (size / (ack3 s - ack2 s)) / size)
           in if in_int32 n then Some n else None)"

definition newreno_estimate :: "newreno_conf \<Rightarrow> time \<Rightarrow> 'b newreno_scheme \<Rightarrow> 'b newreno_scheme res" where
  "newreno_estimate nc now s =
     (let s = s\<lparr>nr_acked := nr_acked s + 1\<rparr>
      in if nr_acked s = 1 then Inr (s\<lparr>basertt := now - firstsent s\<rparr>)
         else if nr_acked s = 2 then Inr (s\<lparr>ack2 := now\<rparr>)
         else if nr_acked s = 3
         then let s = s\<lparr>ack3 := now\<rparr>; s = s\<lparr>new_ssthresh := ssthresh_estimate s\<rparr>
              in if 0 < newreno_changes nc
                 then case new_ssthresh s of
                        None \<Rightarrow> Inl IntOutOfRange
                      | Some n \<Rightarrow> Inr (if n < ssthresh (wn s) then s\<lparr>wn := (wn s)\<lparr>ssthresh := n\<rparr>\<rparr> else s)
                 else Inr s
         else Inr s)"

text \<open>The end of fast recovery.\<close>

definition leave_recovery :: "newreno_conf \<Rightarrow> tpkt \<Rightarrow> 'b newreno_scheme \<Rightarrow> 'b newreno_scheme" where
  "leave_recovery nc pkt s =
     (if 0 < dupwnd s
      then let s = s\<lparr>dupwnd := 0\<rparr>;
               s = (if last_cwnd_action (wn s) = CWND_ACTION_DUPACK then set_action CWND_ACTION_EXITED s else s)
           in if exit_recovery_fix nc
              then let outstanding = int32_of (maxseq s - tp_seqno pkt + 1)
                   in set_cwnd (of_int (if ssthresh (wn s) < outstanding then ssthresh (wn s) else outstanding)) s
              else s
      else s)"

definition newreno_new :: "newreno_conf \<Rightarrow> time \<Rightarrow> tpkt \<Rightarrow> 'b newreno_scheme \<Rightarrow> 'b newreno_scheme res" where
  "newreno_new nc now pkt s =
     (if recover s \<le> tp_seqno pkt \<or> last_cwnd_action (wn s) \<noteq> CWND_ACTION_DUPACK
      then recv_new reno_vt now pkt ((leave_recovery nc pkt s)\<lparr>firstpartial := False\<rparr>)
      else partialnewack_helper nc now pkt (if partial_window_deflation nc then s else s\<lparr>dupwnd := 0\<rparr>))"

definition newreno_end :: "newreno_conf \<Rightarrow> time \<Rightarrow> tpkt \<Rightarrow> 'b newreno_scheme \<Rightarrow> 'b newreno_scheme res" where
  "newreno_end nc now pkt s =
     (if last_ack s \<le> tp_seqno pkt \<or> aggressive_maxburst (conf s)
      then if dupacks s = 0 then send_much reno_vt now False 0 (maxburst (conf s)) s
           else if numdupacks (conf s) - 1 < dupacks s \<and> newreno_changes nc = 0 then send_much reno_vt now False 0 2 s
           else Inr s
      else Inr s)"

definition newreno_recv :: "newreno_conf \<Rightarrow> time \<Rightarrow> tpkt \<Rightarrow> 'b newreno_scheme \<Rightarrow> 'b newreno_scheme res" where
  "newreno_recv nc now pkt s =
     res_bind (recv_qs now pkt s) (\<lambda>s.
     res_bind (newreno_estimate nc now s) (\<lambda>s.
     res_bind (recv_check reno_vt pkt s) (\<lambda>(go, s).
       if \<not> go then Inr s
       else if last_ack s < tp_seqno pkt then res_bind (newreno_new nc now pkt s) (newreno_end nc now pkt)
       else if tp_seqno pkt = last_ack s
       then if eln_flag pkt \<and> eln_on (conf s) then tcp_eln reno_vt now pkt s
            else res_bind (newreno_dup nc now s) (newreno_end nc now pkt)
       else newreno_end nc now pkt s)))"

end
