(* ===== verification/Tcp_Partial.thy ===== *)
theory Tcp_Partial
  imports Tcp_Burst Tcp_Newreno
begin

section \<open>NewReno keeps the invariant of the senders\<close>

text \<open>
  The same invariant for \<open>NewRenoTcpAgent\<close>, with \<open>newreno_changes_\<close> at its default of 0 or negative: a
  positive value sends packets beyond the window and the data.
\<close>

lemma hand_newreno_fields:
  assumes "snd_ok s"
  shows "hand_to now s (s\<lparr>firstpartial := b\<rparr>)" "hand_to now s (s\<lparr>nr_acked := n\<rparr>)" "hand_to now s (s\<lparr>basertt := x\<rparr>)"
    "hand_to now s (s\<lparr>ack2 := x\<rparr>)" "hand_to now s (s\<lparr>ack3 := x\<rparr>)" "hand_to now s (s\<lparr>new_ssthresh := m\<rparr>)"
  using assms by (auto simp: hand_to_def snd_ok_def guarded_def grows_def intro!: evolves_same)

subsection \<open>Duplicate acknowledgements\<close>

lemma newreno_action_ok:
  assumes ok: "snd_ok s"
  shows "returns (newreno_action now s) (\<lambda>t. hand_to now s t \<and> retransmits s t)"
proof -
  have r: "mild s (s\<lparr>recover := maxseq s\<rparr>)" using ok by simp
  show ?thesis
    unfolding newreno_action_def
  proof (rule returns_bind [OF reset_rtx_timer_ok [OF mild_ok [OF r]]])
    fix t assume t: "rearms now True (s\<lparr>recover := maxseq s\<rparr>) t"
    then have tok: "snd_ok t" by (simp add: rearms_def)
    have st: "hand_to now s t" using mild_hand [OF r] rearms_hand [OF t] hand_to_trans by blast
    let ?t = "set_action CWND_ACTION_DUPACK t"
    have m: "mild t ?t" using tok by simp
    have "returns (res_bind (tcp_slowdown reno_vt {CLOSE_SSTHRESH_HALF, CLOSE_CWND_HALF} ?t) (\<lambda>s.
        res_bind (tcp_output now (last_ack s + 1) TCP_REASON_DUPACK s) (\<lambda>s.
          Inr (set_dupwnd (numdupacks (conf s)) s)))) (\<lambda>t. hand_to now s t \<and> retransmits s t)"
    proof (rule returns_bind [OF slowdown_mild [OF mild_ok [OF m]]])
      fix u assume "mild ?t u \<and> slow_to {CLOSE_SSTHRESH_HALF, CLOSE_CWND_HALF} (wn ?t) (wn u) \<and> recover u = recover ?t"
      then have u: "mild t u" using mild_trans [OF m] by blast
      show "returns (res_bind (tcp_output now (last_ack u + 1) TCP_REASON_DUPACK u) (\<lambda>s.
          Inr (set_dupwnd (numdupacks (conf s)) s))) (\<lambda>t. hand_to now s t \<and> retransmits s t)"
      proof (rule returns_mono [OF retransmit_output_ok [OF mild_ok [OF u]]])
        fix w assume w: "hand_to now u w \<and> retransmits u w"
        have "retransmits s w"
          using mild_retransmits [OF r] rearms_retransmits [OF t] mild_retransmits [OF u] w by blast
        then show "hand_to now s w \<and> retransmits s w" using st mild_hand [OF u] w hand_to_trans by blast
      qed
    qed
    then show "returns (res_bind (lossQuickStart reno_vt now t) (\<lambda>(lost, s). if lost then Inr s
         else res_bind (tcp_slowdown reno_vt {CLOSE_SSTHRESH_HALF, CLOSE_CWND_HALF} (set_action CWND_ACTION_DUPACK s)) (\<lambda>s.
            res_bind (tcp_output now (last_ack s + 1) TCP_REASON_DUPACK s) (\<lambda>s.
              Inr (set_dupwnd (numdupacks (conf s)) s))))) (\<lambda>t. hand_to now s t \<and> retransmits s t)"
      unfolding lossQuickStart_off [OF tok] res_bind.simps prod.case if_False .
  qed
qed

lemma newreno_dupack_ok:
  assumes ok: "snd_ok s"
  shows "returns (newreno_dupack_action nc now s) (\<lambda>t. hand_to now s t \<and> (t = s \<or> retransmits s t))"
proof -
  have a: "returns (newreno_action now s) (\<lambda>t. hand_to now s t \<and> (t = s \<or> retransmits s t))"
    by (rule returns_mono [OF newreno_action_ok [OF ok]]) blast
  have "mild s (set_action CWND_ACTION_DUPACK s)" using ok by simp
  then have "returns (reno_retransmit now (set_action CWND_ACTION_DUPACK s))
      (\<lambda>t. hand_to now s t \<and> (t = s \<or> retransmits s t))"
    by (rule returns_mono [OF mild_retransmit_ok]) blast
  moreover have "echo_matches s = Inr False" using ok by (simp add: echo_matches_def snd_ok_def tcp_conf_ok_def)
  ultimately show ?thesis using a ok by (simp add: newreno_dupack_action_def)
qed

lemma newreno_dupack_hand: "snd_ok s \<Longrightarrow> returns (newreno_dupack_action nc now s) (hand_to now s)"
  by (rule returns_mono [OF newreno_dupack_ok]) auto

text \<open>Without \<open>newreno_changes_\<close> a duplicate acknowledgement is treated as by Reno.\<close>

lemma newreno_dup_reno:
  "newreno_changes nc \<le> 0 \<Longrightarrow> newreno_dup nc now s = reno_dup (newreno_dupack_action nc) now s"
  by (auto simp: newreno_dup_def reno_dup_def Let_def)

lemma newreno_dup_ok:
  assumes "snd_ok s" "newreno_changes nc \<le> 0"
  shows "returns (newreno_dup nc now s) (hand_to now s)"
  unfolding newreno_dup_reno [OF assms(2)] by (rule reno_dup_ok [OF assms(1) newreno_dupack_hand])

lemma newreno_end_ok:
  assumes ok: "snd_ok s"
  shows "returns (newreno_end nc now p s) (hand_to now s)"
proof -
  have "returns (send_much reno_vt now False 0 n s) (hand_to now s)" for n
    by (rule returns_mono [OF send_much_ok [OF ok]]) (rule much_hand)
  then show ?thesis using ok by (simp add: newreno_end_def)
qed

subsection \<open>Partial acknowledgements\<close>

text \<open>What a partial acknowledgement leaves alone before the retransmission.\<close>

definition partial_frame :: "'b newreno_scheme \<Rightarrow> 'b newreno_scheme \<Rightarrow> bool" where
  "partial_frame s s' \<longleftrightarrow>
     conf s' = conf s \<and> maxseq s' = maxseq s \<and> curseq s' = curseq s \<and> recover s' = recover s \<and> out s' = out s \<and>
     notices s' = notices s \<and> tlastreset s' = tlastreset s \<and> burstsnd_timer s' = burstsnd_timer s \<and>
     delsnd_timer s' = delsnd_timer s \<and> qs s' = qs s \<and> tss s' = tss s \<and> frto s' = frto s \<and> dupacks s' = dupacks s \<and>
     ssthresh (wn s') = ssthresh (wn s) \<and> last_cwnd_action (wn s') = last_cwnd_action (wn s) \<and> (cw_ok (wn s) \<longrightarrow> cw_ok (wn s'))"

lemma partial_frame_refl [simp]: "partial_frame s s"
  by (simp add: partial_frame_def)

lemma partial_frame_trans: "partial_frame s t \<Longrightarrow> partial_frame t u \<Longrightarrow> partial_frame s u"
  by (simp add: partial_frame_def)

lemma deflate_frame:
  "partial_frame s (deflate_window p s)" "rt (deflate_window p s) = rt s" "rtx_timer (deflate_window p s) = rtx_timer s"
  "t_seqno (deflate_window p s) = t_seqno s" "rtt_active (deflate_window p s) = rtt_active s"
  "rtt_seq (deflate_window p s) = rtt_seq s" "highest_ack (deflate_window p s) = highest_ack s"
  "last_ack (deflate_window p s) = last_ack s"
  by (simp_all add: deflate_window_def Let_def partial_frame_def set_cwnd_def set_dupwnd_def)

text \<open>The window after a partial acknowledgement.\<close>

definition deflated :: "newreno_conf \<Rightarrow> tpkt \<Rightarrow> 'b newreno_scheme \<Rightarrow> real \<times> int" where
  "deflated nc p s =
     (let t = (if partial_window_deflation nc then deflate_window p s else s) in (cwnd (wn t), dupwnd t))"

lemma deflated_cong:
  "last_ack t = last_ack s \<Longrightarrow> dupwnd t = dupwnd s \<Longrightarrow> wn t = wn s \<Longrightarrow> deflated nc p t = deflated nc p s"
  by (simp add: deflated_def deflate_window_def Let_def set_dupwnd_def set_cwnd_def)

lemma partialnewack_ok:
  assumes r: "rtt_ok (rc (conf s)) (rt s)" and t: "t = partialnewack nc p s"
  shows "partial_frame s t" "rtt_ok (rc (conf s)) (rt t)" "rtx_timer t = rtx_timer s" "highest_ack t = tp_seqno p"
    "last_ack t = tp_seqno p" "t_seqno t = max (t_seqno s) (tp_seqno p + 1)" "(cwnd (wn t), dupwnd t) = deflated nc p s"
proof -
  define u where "u = (if partial_window_deflation nc then deflate_window p s else s)"
  have u: "partial_frame s u" "rt u = rt s" "rtx_timer u = rtx_timer s" "t_seqno u = t_seqno s"
    by (simp_all add: u_def deflate_frame)
  have b: "rtt_ok c (q\<lparr>t_backoff := 1\<rparr>)" if "rtt_ok c q" for c q
    using that by (auto simp: rtt_ok_def intro: exI [of _ 0])
  note d = t partialnewack_def u_def [symmetric] Let_def
  show "partial_frame s t" using u(1) unfolding d by (simp add: partial_frame_def)
  show "rtt_ok (rc (conf s)) (rt t)" using b [OF r] r u(2) unfolding d by simp
  show "rtx_timer t = rtx_timer s" "highest_ack t = tp_seqno p" "last_ack t = tp_seqno p" using u(3) unfolding d by simp_all
  show "t_seqno t = max (t_seqno s) (tp_seqno p + 1)" using u(4) unfolding d by simp
  show "(cwnd (wn t), dupwnd t) = deflated nc p s" unfolding deflated_def d by simp
qed

text \<open>One packet is sent, the one after the acknowledged ones.\<close>

definition resent :: "newreno_conf \<Rightarrow> tpkt \<Rightarrow> 'b newreno_scheme \<Rightarrow> 'b newreno_scheme \<Rightarrow> bool" where
  "resent nc p s s' \<longleftrightarrow>
     (\<exists>q. out s' = out s @ [q] \<and> tp_seqno q = tp_seqno p + 1) \<and> recover s' = recover s \<and>
     maxseq s' = max (maxseq s) (tp_seqno p + 1) \<and> last_cwnd_action (wn s') = last_cwnd_action (wn s) \<and>
     ssthresh (wn s') = ssthresh (wn s) \<and> pending (rtx_timer s') \<and> (cwnd (wn s'), dupwnd s') = deflated nc p s \<and>
     t_seqno s' = max (t_seqno s) (tp_seqno p + 1) \<and> dupacks s' = dupacks s"

lemma reno_more: "tcp.more s' = tcp.more s \<Longrightarrow> dupwnd s' = dupwnd s"
  by (cases s; cases s') simp

lemma keeps_reno: "keeps s s' \<Longrightarrow> dupwnd s' = dupwnd s" "keeps s s' \<Longrightarrow> cwnd (wn s') = cwnd (wn s)"
  "keeps s s' \<Longrightarrow> ssthresh (wn s') = ssthresh (wn s)" "keeps s s' \<Longrightarrow> last_cwnd_action (wn s') = last_cwnd_action (wn s)"
proof -
  assume k: "keeps s s'"
  then have e: "(wn s')\<lparr>congaction := False\<rparr> = (wn s)\<lparr>congaction := False\<rparr>" "tcp.more s' = tcp.more s"
    by (simp_all add: keeps_def)
  show "dupwnd s' = dupwnd s" using reno_more e(2) by blast
  from arg_cong [OF e(1), of cwnd] arg_cong [OF e(1), of ssthresh] arg_cong [OF e(1), of last_cwnd_action]
  show "cwnd (wn s') = cwnd (wn s)" "ssthresh (wn s') = ssthresh (wn s)" "last_cwnd_action (wn s') = last_cwnd_action (wn s)"
    by simp_all
qed

lemma partial_start_ok:
  assumes ok: "snd_ok s"
  shows "returns (if \<not> newreno_changes1 nc \<or> \<not> firstpartial s then newtimer now p (s\<lparr>firstpartial := True\<rparr>) else Inr s)
    (\<lambda>t. partial_frame s t \<and> rtt_ok (rc (conf s)) (rt t) \<and> timer_ok (rtx_timer t) \<and> t_seqno t = t_seqno s \<and>
         deflated nc p t = deflated nc p s \<and> (guarded s \<and> highest_ack s < tp_seqno p \<and> tp_seqno p < maxseq s \<longrightarrow> pending (rtx_timer t)))"
proof (cases "\<not> newreno_changes1 nc \<or> \<not> firstpartial s")
  case True
  have c: "rtt_conf_ok (rc (conf s))" "rtt_ok (rc (conf s)) (rt s)" "timer_ok (rtx_timer s)"
    using ok by (simp_all add: snd_ok_def tcp_conf_ok_def)
  have "returns (newtimer now p (s\<lparr>firstpartial := True\<rparr>))
    (\<lambda>t. partial_frame s t \<and> rtt_ok (rc (conf s)) (rt t) \<and> timer_ok (rtx_timer t) \<and> t_seqno t = t_seqno s \<and>
         deflated nc p t = deflated nc p s \<and> (guarded s \<and> highest_ack s < tp_seqno p \<and> tp_seqno p < maxseq s \<longrightarrow> pending (rtx_timer t)))"
  proof (rule returns_mono [OF newtimer_ok])
    fix t assume t: "rt_frame (s\<lparr>firstpartial := True\<rparr>) t \<and> timer_ok (rtx_timer t) \<and>
        (tp_seqno p < maxseq (s\<lparr>firstpartial := True\<rparr>) \<longrightarrow> pending (rtx_timer t))"
    then have e: "partial_frame s t \<and> t_seqno t = t_seqno s \<and> last_ack t = last_ack s \<and> dupwnd t = dupwnd s \<and> wn t = wn s"
      by (auto simp: partial_frame_def elim!: rt_frameE)
    then have "deflated nc p t = deflated nc p s" by (intro deflated_cong) simp_all
    then show "partial_frame s t \<and> rtt_ok (rc (conf s)) (rt t) \<and> timer_ok (rtx_timer t) \<and> t_seqno t = t_seqno s \<and>
         deflated nc p t = deflated nc p s \<and> (guarded s \<and> highest_ack s < tp_seqno p \<and> tp_seqno p < maxseq s \<longrightarrow> pending (rtx_timer t))"
      using t e c(2) by (simp add: rt_frame_def)
  qed (use c in simp_all)
  then show ?thesis using True by simp
next
  case False
  show ?thesis unfolding if_not_P [OF False] using ok by (simp add: snd_ok_def guarded_def)
qed

lemma partial_helper_ok:
  assumes ok: "snd_ok s" and a: "highest_ack s < tp_seqno p" "tp_seqno p \<le> maxseq s"
  shows "returns (partialnewack_helper nc now p s) (\<lambda>w. advances now (tp_seqno p) s w \<and> resent nc p s w)"
  unfolding partialnewack_helper_def Let_def
proof (rule returns_bind [OF partial_start_ok [OF ok, where p = p]])
  fix t assume t: "partial_frame s t \<and> rtt_ok (rc (conf s)) (rt t) \<and> timer_ok (rtx_timer t) \<and> t_seqno t = t_seqno s \<and>
         deflated nc p t = deflated nc p s \<and> (guarded s \<and> highest_ack s < tp_seqno p \<and> tp_seqno p < maxseq s \<longrightarrow> pending (rtx_timer t))"
  define u where "u = partialnewack nc p t"
  have ct: "conf t = conf s" using t by (simp add: partial_frame_def)
  then have r: "rtt_ok (rc (conf t)) (rt t)" using t by simp
  note u = partialnewack_ok [OF r u_def]
  have f: "partial_frame s u" using t u(1) partial_frame_trans by blast
  have uok: "snd_ok u" using ok a t u(2-6) f ct by (simp add: snd_ok_def partial_frame_def)
  have g: "guarded u" if "guarded s" using that t a u(3,4) f by (auto simp: guarded_def partial_frame_def)
  have ad: "advances now (tp_seqno p) s u"
    using uok g u(4) f a by (auto simp: advances_def partial_frame_def grows_def intro!: evolves_same)
  show "returns (tcp_output now (last_ack (partialnewack nc p t) + 1) 0 (partialnewack nc p t))
      (\<lambda>w. advances now (tp_seqno p) s w \<and> resent nc p s w)"
    unfolding u_def [symmetric]
  proof (rule returns_mono [OF output_sent [OF uok]])
    show "0 \<le> last_ack u + 1" "last_ack u + 1 \<le> maxseq u + 1" using uok by (simp_all add: snd_ok_def)
    fix w assume w: "sent_to now u w \<and> output_to now (last_ack u + 1) u w"
    then have k: "keeps u w" by (simp add: output_to_def)
    have "resent nc p s w"
      using w k keeps_reno [OF k] f u(5-7) t by (auto simp: resent_def output_to_def keeps_def partial_frame_def)
    then show "advances now (tp_seqno p) s w \<and> resent nc p s w"
      using advances_hand [OF ad] sent_hand w by blast
  qed
qed

text \<open>\<open>send_much\<close> leaves the window and the recovery alone.\<close>

definition same_window :: "'b tcp_scheme \<Rightarrow> 'b tcp_scheme \<Rightarrow> bool" where
  "same_window s s' \<longleftrightarrow>
     (wn s')\<lparr>congaction := False\<rparr> = (wn s)\<lparr>congaction := False\<rparr> \<and> recover s' = recover s"

lemma same_window_refl [simp]: "same_window s s"
  by (simp add: same_window_def)

lemma same_window_trans: "same_window s t \<Longrightarrow> same_window t u \<Longrightarrow> same_window s u"
  by (simp add: same_window_def)

lemma same_windowD:
  assumes "same_window s s'"
  shows "cwnd (wn s') = cwnd (wn s)" "ssthresh (wn s') = ssthresh (wn s)"
    "last_cwnd_action (wn s') = last_cwnd_action (wn s)" "recover s' = recover s"
proof -
  have e: "(wn s')\<lparr>congaction := False\<rparr> = (wn s)\<lparr>congaction := False\<rparr>" using assms by (simp add: same_window_def)
  from arg_cong [OF e, of cwnd] arg_cong [OF e, of ssthresh] arg_cong [OF e, of last_cwnd_action]
  show "cwnd (wn s') = cwnd (wn s)" "ssthresh (wn s') = ssthresh (wn s)"
    "last_cwnd_action (wn s') = last_cwnd_action (wn s)" by simp_all
  show "recover s' = recover s" using assms by (simp add: same_window_def)
qed

lemma send_step_window:
  assumes ok: "snd_ok s" and q: "\<not> QOption (conf s)" and st: "send_step v now force reason win s = Inr (go, t)"
  shows "same_window s t"
proof -
  have k: "same_window s u" if "send_packet v now reason s = Inr u" for u
    using send_packet_kept [OF that q] by (auto simp: same_window_def keeps_def)
  have "\<not> qs_approved (qs u)" if "send_packet v now reason s = Inr u" for u
  proof -
    have "sent_to now s u" using returnsD [OF send_packet_ok [OF ok] that] by blast
    then show ?thesis using sent_to_conf by (auto simp: snd_ok_def)
  qed
  then show ?thesis
    using st k ok by (auto simp: send_step_def draw_unif_def delsnd_resched_def tm_resched_ok snd_ok_def same_window_def
        split: if_splits)
qed

lemma send_loop_window:
  assumes "snd_ok s" "\<not> QOption (conf s)" "steady v" "send_loop v now force reason mb win k s = Inr s'"
  shows "same_window s s'"
  using assms
proof (induction v now force reason mb win k s rule: send_loop.induct)
  case (1 v now force reason mb win k s)
  show ?case
  proof (cases "t_seqno s \<le> highest_ack s + win \<and> t_seqno s < curseq s")
    case True
    let ?rest = "\<lambda>(go, s). if go
        then if mb \<noteq> 0 \<and> k + 1 = mb then Inr s
             else send_loop v now force reason mb (vwin v s) (k + 1) s
        else Inr s"
    have eq: "send_loop v now force reason mb win k s = res_bind (send_step v now force reason win s) ?rest"
      using True by (simp add: send_loop.simps [of v now force reason mb win k s])
    obtain go t where t: "send_step v now force reason win s = Inr (go, t)" "?rest (go, t) = Inr s'"
      using 1(5) unfolding eq by (cases "send_step v now force reason win s") auto
    have w: "same_window s t" by (rule send_step_window [OF 1(2,3) t(1)])
    show ?thesis
    proof (cases "go \<and> \<not> (mb \<noteq> 0 \<and> k + 1 = mb)")
      case go: True
      then have ts: "send_step v now force reason win s = Inr (True, t)" using t(1) by simp
      have e: "snd_ok t" "\<not> QOption (conf t)" using send_step_sent [OF 1(2,3,4) ts] by blast+
      have l: "send_loop v now force reason mb (vwin v t) (k + 1) t = Inr s'" using t(2) go by auto
      have "same_window t s'" using 1(1) [OF True t(1) refl _ _ e 1(4) l] go by simp
      then show ?thesis using w same_window_trans by blast
    next
      case False
      then show ?thesis using t(2) w by (auto split: if_splits)
    qed
  next
    case False
    then have "send_loop v now force reason mb win k s = Inr s" by (subst send_loop.simps) (rule if_not_P)
    then show ?thesis using 1(5) by simp
  qed
qed

lemma send_much_window:
  assumes ok: "snd_ok s" and q: "\<not> QOption (conf s)" and v: "steady v"
    and r: "send_much v now force reason mb s = Inr s'"
  shows "same_window s s'"
proof -
  define t where "t = (if t_seqno s = 0 then s\<lparr>firstsent := now\<rparr> else s)"
  have t: "snd_ok t" "\<not> QOption (conf t)" "same_window s t" "burstsnd_timer t = burstsnd_timer s"
    using ok q unfolding t_def by (simp_all add: snd_ok_def same_window_def)
  have m: "send_much v now force reason mb s =
      (if \<not> force \<and> pending (delsnd_timer s) then Inr s
       else if pending (burstsnd_timer s) then Inr t
       else send_loop v now force reason mb (vwin v s) 0 t)"
    unfolding send_much_def Let_def t_def [symmetric] t(4) ..
  consider "s' = s" | "s' = t" | "send_loop v now force reason mb (vwin v s) 0 t = Inr s'"
    using r unfolding m by (cases "\<not> force \<and> pending (delsnd_timer s)"; cases "pending (burstsnd_timer s)") auto
  then show ?thesis
  proof cases
    case 3
    then show ?thesis using send_loop_window [OF t(1,2) v] t(3) same_window_trans by blast
  qed (use t in simp_all)
qed

subsection \<open>\<open>recv\<close>\<close>

lemma leave_recovery_hand:
  assumes ok: "snd_ok s"
  shows "hand_to now s ((leave_recovery nc p s)\<lparr>firstpartial := False\<rparr>)" "maxseq (leave_recovery nc p s) = maxseq s"
    "conf (leave_recovery nc p s) = conf s" "highest_ack (leave_recovery nc p s) = highest_ack s"
proof -
  have c: "hand_to now u (set_cwnd x u)" "hand_to now u (set_action b u)" if "snd_ok u" for u :: "'a newreno_scheme" and x b
    using that mild_set mild_hand by blast+
  define t where "t = s\<lparr>dupwnd := 0\<rparr>"
  define u where "u = (if last_cwnd_action (wn t) = CWND_ACTION_DUPACK then set_action CWND_ACTION_EXITED t else t)"
  have t: "hand_to now s t" "snd_ok t" using hand_dupwnd [OF ok] hand_to_ok unfolding t_def by blast+
  have u: "hand_to now s u" "snd_ok u"
    using t c(2) [OF t(2)] hand_to_trans [OF t(1)] hand_to_ok [OF c(2) [OF t(2)]] unfolding u_def by auto
  have "hand_to now s (leave_recovery nc p s)"
    using ok u hand_to_trans [OF u(1) c(1) [OF u(2)]] unfolding leave_recovery_def t_def [symmetric] u_def [symmetric] Let_def by simp
  then show "hand_to now s ((leave_recovery nc p s)\<lparr>firstpartial := False\<rparr>)"
    using hand_newreno_fields(1) hand_to_ok hand_to_trans by blast
  show "maxseq (leave_recovery nc p s) = maxseq s" "conf (leave_recovery nc p s) = conf s"
    "highest_ack (leave_recovery nc p s) = highest_ack s"
    by (simp_all add: leave_recovery_def Let_def set_cwnd_def set_action_def)
qed

lemma newreno_new_ok:
  assumes ok: "snd_ok s" and a: "highest_ack s < tp_seqno p" "tp_seqno p \<le> maxseq s" and q: "\<not> QOption (conf s)"
  shows "returns (newreno_new nc now p s) (advances now (tp_seqno p) s)"
proof (cases "recover s \<le> tp_seqno p \<or> last_cwnd_action (wn s) \<noteq> CWND_ACTION_DUPACK")
  case True
  let ?t = "(leave_recovery nc p s)\<lparr>firstpartial := False\<rparr>"
  note t = leave_recovery_hand(1) [OF ok, of now nc p] leave_recovery_hand(2-4) [OF ok, of nc p]
  have "returns (recv_new reno_vt now p ?t) (acked_to now (tp_seqno p) ?t)"
    using a q t(2-4) by (intro recv_new_ok hand_to_ok [OF t(1)]) simp_all
  then have "returns (recv_new reno_vt now p ?t) (advances now (tp_seqno p) s)"
    by (rule returns_mono) (rule hand_advances [OF t(1) acked_advances])
  then show ?thesis unfolding newreno_new_def if_P [OF True] .
next
  case False
  define t where "t = (if partial_window_deflation nc then s else s\<lparr>dupwnd := 0\<rparr>)"
  have t: "hand_to now s t" "highest_ack t = highest_ack s" "maxseq t = maxseq s"
    using ok hand_dupwnd [OF ok] by (auto simp: t_def)
  have "returns (partialnewack_helper nc now p t) (\<lambda>w. advances now (tp_seqno p) t w \<and> resent nc p t w)"
    using a t by (intro partial_helper_ok hand_to_ok [OF t(1)]) simp_all
  then have "returns (partialnewack_helper nc now p t) (advances now (tp_seqno p) s)"
    by (rule returns_mono) (use hand_advances [OF t(1)] in blast)
  then show ?thesis unfolding newreno_new_def if_not_P [OF False] t_def .
qed

lemma newreno_estimate_ok:
  assumes ok: "snd_ok s" and nc: "newreno_changes nc \<le> 0"
  shows "returns (newreno_estimate nc now s) (\<lambda>t. hand_to now s t \<and> maxseq t = maxseq s)"
proof -
  note h = hand_newreno_fields [where now = now]
  define t where "t = s\<lparr>nr_acked := nr_acked s + 1\<rparr>"
  have t: "hand_to now s t" "snd_ok t" using h(2) [OF ok] hand_to_ok unfolding t_def by blast+
  have u: "hand_to now s (t\<lparr>basertt := x\<rparr>)" "hand_to now s (t\<lparr>ack2 := x\<rparr>)" "hand_to now s (t\<lparr>ack3 := x\<rparr>)" for x
    using hand_to_trans [OF t(1)] h(3-5) [OF t(2)] by blast+
  then have "hand_to now s (t\<lparr>ack3 := x, new_ssthresh := m\<rparr>)" for x m
    using h(6) [OF hand_to_ok [OF u(3)]] hand_to_trans by blast
  moreover have "maxseq t = maxseq s" by (simp add: t_def)
  ultimately show ?thesis using nc t u unfolding newreno_estimate_def t_def [symmetric] Let_def by simp
qed

lemma hand_recv_trans: "hand_to now s t \<Longrightarrow> recv_to now p t u \<Longrightarrow> recv_to now p s u"
proof -
  assume h: "hand_to now s t" "recv_to now p t u"
  then have "tlastreset t = tlastreset s" "evolves now s u"
    using evolves_trans [of now s t u] by (simp_all add: hand_to_def recv_to_def evolves_def grows_def)
  then show ?thesis using h by (simp add: hand_to_def recv_to_def)
qed

lemma newreno_recv_ok:
  assumes ok: "snd_ok s" and a: "tp_seqno p \<le> maxseq s" and q: "\<not> QOption (conf s)" and nc: "newreno_changes nc \<le> 0"
  shows "returns (newreno_recv nc now p s) (recv_to now p s)"
  unfolding newreno_recv_def recv_qs_off [OF ok] res_bind.simps
proof (rule returns_bind [OF newreno_estimate_ok [OF ok nc]])
  fix r assume r: "hand_to now s r \<and> maxseq r = maxseq s"
  then have c: "snd_ok r" "conf r = conf s" by (auto simp: hand_to_def evolves_def grows_def)
  show "returns (res_bind (recv_check reno_vt p r) (\<lambda>(go, s).
       if \<not> go then Inr s
       else if last_ack s < tp_seqno p then res_bind (newreno_new nc now p s) (newreno_end nc now p)
       else if tp_seqno p = last_ack s
       then if eln_flag p \<and> eln_on (conf s) then tcp_eln reno_vt now p s
            else res_bind (newreno_dup nc now s) (newreno_end nc now p)
       else newreno_end nc now p s)) (recv_to now p s)"
  proof (rule returns_mono [OF check_recv_ok [OF c(1) _ _ newreno_new_ok newreno_dup_ok newreno_end_ok]])
    fix w assume "recv_to now p r w"
    then show "recv_to now p s w" using r hand_recv_trans by blast
  qed (use a q nc r c in simp_all)
qed

end
