(* ===== verification/Newreno_Properties.thy ===== *)
theory Newreno_Properties
  imports Tcp_Partial Sender_Properties
begin

section \<open>Properties of NewReno\<close>

text \<open>
  The claims about \<open>tcp-newreno.cc\<close>. The contract \<open>newreno_sender\<close> of the parameters makes NewReno one
  of the senders of \<open>Tcp_Transfer\<close>, for a connection with a \<open>TcpSink\<close>.
\<close>

subsection \<open>NewReno over the network\<close>

definition newreno_agent :: "newreno_conf \<Rightarrow> 'b newreno_ext renoext agent" where
  "newreno_agent nc = (newreno_recv nc, reno_timeout, reno_vt)"

locale newreno_sender =
  fixes nc :: newreno_conf
  assumes no_changes: "newreno_changes nc \<le> 0"

sublocale newreno_sender \<subseteq> nr: sender "newreno_recv nc" reno_timeout reno_vt snd_inv
proof (unfold_locales, goal_cases)
  case (1 s)
  then show ?case by (simp add: snd_inv_def)
next
  case (2 s p now)
  have "returns (newreno_recv nc now p s) (recv_to now p s)"
    using 2 no_changes by (intro newreno_recv_ok) (auto simp: snd_inv_def)
  then show ?case by (rule returns_mono) (use 2 recv_inv in auto)
next
  case (3 s now)
  then show ?case by (rule reno.rtx_ok)
next
  case (4 s now)
  then show ?case by (rule reno.del_ok)
next
  case (5 s k now)
  then show ?case by (rule reno.supply_ok)
qed

sublocale newreno_sender \<subseteq> nrt: transfer "newreno_recv nc" reno_timeout reno_vt snd_inv acker_append_ack "\<lambda>_ _. True" ..

context newreno_sender
begin

lemma newreno_run:
  assumes "net_inv snd_inv (\<lambda>_ _. True) T h n" "\<forall>x\<in>set acts. act_ok T x"
  shows "returns (net_run (newreno_agent nc) acker_append_ack acts n) (\<lambda>n'. \<exists>h. net_inv snd_inv (\<lambda>_ _. True) T h n')"
  using nrt.net_run_ok [OF exI [of _ h], OF assms] by (simp add: newreno_agent_def)

lemma newreno_step:
  assumes "net_inv snd_inv (\<lambda>_ _. True) T h n" "act_ok T (now, a)"
  shows "returns (net_step (newreno_agent nc) acker_append_ack now a n)
    (\<lambda>n'. (\<exists>h. net_inv snd_inv (\<lambda>_ _. True) T h n') \<and> done_right n n')"
  using nrt.net_step_ok [OF assms] by (simp add: newreno_agent_def)

end

text \<open>The defaults of \<open>tcl/lib/ns-default.tcl\<close>.\<close>

definition default_newreno :: newreno_conf where
  "default_newreno =
     \<lparr>newreno_changes = 0, newreno_changes1 = True, partial_window_deflation = True, exit_recovery_fix = False,
      less_careful = False, bugfix_ack = False\<rparr>"

interpretation newreno_default: newreno_sender default_newreno
  by unfold_locales (simp add: default_newreno_def)

definition sample_newreno :: newreno where
  "sample_newreno = new_NewRenoTcpAgent (reno.extend sample_tcp (newreno.fields 0 None 0 0 0 False))"

lemma sample_newreno_fresh: "fresh sample_newreno" "\<not> QOption (conf sample_newreno)"
  using sample_conf_ok
  by (simp_all add: fresh_def sample_newreno_def new_NewRenoTcpAgent_def new_RenoTcpAgent_def new_TcpAgent_def sample_tcp_def
      reno.extend_def newreno.fields_def sample_conf_def)

lemma newreno_transfer_start:
  assumes "fresh s0" "\<not> QOption (conf s0)" "acks_sent k = []" "0 \<le> T"
  obtains s where "tcp_reset T s0 = Inr s" "net_inv snd_inv (\<lambda>_ _. True) T (\<lambda>_. 0) (conn_start s (plain_sink ac k))"
  using transfer_start [OF assms] by blast

text \<open>
  (C19) NewReno is reliable, with \<open>newreno_changes_\<close> off and any other parameters of the class. Over the
  network that loses, duplicates and reorders, with timers and application calls at any time, every
  handler returns; while data is outstanding the retransmission timer is pending and the sink is ahead
  of the cumulative acknowledgement; and when a step makes the sender call \<open>done\<close>, every packet below
  \<open>curseq_\<close> has been acknowledged and delivered.
\<close>
theorem newreno_reliable:
  assumes "newreno_changes nc \<le> 0" "fresh s0" "\<not> QOption (conf s0)" "acks_sent k = []" "0 \<le> T"
    and "\<forall>x\<in>set acts. act_ok T x" "act_ok T (now, a)"
  shows "\<exists>s n n'. tcp_reset T s0 = Inr s \<and>
    net_run (newreno_agent nc) acker_append_ack acts (conn_start s (plain_sink ac k)) = Inr n \<and>
    net_step (newreno_agent nc) acker_append_ack now a n = Inr n' \<and>
    highest_ack (tx n) < t_seqno (tx n) \<and> t_seqno (tx n) \<le> maxseq (tx n) + 1 \<and>
    highest_ack (tx n) < next_seq (acker_obj (rx n)) \<and> next_seq (acker_obj (rx n)) \<le> maxseq (tx n) + 1 \<and>
    (highest_ack (tx n) < maxseq (tx n) \<longrightarrow> pending (rtx_timer (tx n))) \<and>
    (done_calls (tx n) < done_calls (tx n') \<longrightarrow>
       curseq (tx n') \<le> highest_ack (tx n') + 1 \<and> curseq (tx n') \<le> next_seq (acker_obj (rx n')))"
proof -
  have nr: "newreno_sender nc" using assms(1) by unfold_locales
  obtain s where s: "tcp_reset T s0 = Inr s" "net_inv snd_inv (\<lambda>_ _. True) T (\<lambda>_. 0) (conn_start s (plain_sink ac k))"
    by (rule newreno_transfer_start [OF assms(2-5)])
  obtain n h where n: "net_run (newreno_agent nc) acker_append_ack acts (conn_start s (plain_sink ac k)) = Inr n"
    "net_inv snd_inv (\<lambda>_ _. True) T h n"
    by (rule returnsE [OF newreno_sender.newreno_run [OF nr s(2) assms(6)]]) blast
  obtain n' where n': "net_step (newreno_agent nc) acker_append_ack now a n = Inr n'" "done_right n n'"
    by (rule returnsE [OF newreno_sender.newreno_step [OF nr n(2) assms(7)]]) blast
  have ok: "snd_ok (tx n)" "guarded (tx n)" using n(2) by (simp_all add: net_inv_def snd_inv_def)
  show ?thesis
    using s(1) n n' ok next_seq_sent [OF n(2) ok(1)]
    by (intro exI [of _ s] exI [of _ n] exI [of _ n']) (simp add: net_inv_def snd_ok_def guarded_def done_right_def)
qed

text \<open>The last acknowledgement of a transfer of two packets.\<close>

definition newreno_net :: "(time \<times> net_act) list \<Rightarrow> (unit newreno_ext renoext, unit, unit) net res" where
  "newreno_net acts = res_bind (tcp_reset 0 sample_newreno) (\<lambda>s.
     net_run (newreno_agent default_newreno) acker_append_ack acts
       (conn_start s (plain_sink sample_acker (sample_sink sample_acker))))"

lemma newreno_net_done:
  "map_sum id (\<lambda>n. (done_calls (tx n), curseq (tx n))) (newreno_net sample_acts) = Inr (0, 3)"
  "map_sum id (\<lambda>n. (done_calls (tx n), curseq (tx n))) (newreno_net (sample_acts @ [(7, DeliverAck 0)])) = Inr (1, 3)"
  by code_simp+

theorem newreno_reliable_witness:
  "\<exists>n n'. newreno_net sample_acts = Inr n \<and>
     net_step (newreno_agent default_newreno) acker_append_ack 7 (DeliverAck 0) n = Inr n' \<and>
     done_calls (tx n) = 0 \<and> done_calls (tx n') = 1 \<and> curseq (tx n') = 3 \<and> 3 \<le> next_seq (acker_obj (rx n'))"
proof -
  have a: "act_ok 0 (7, DeliverAck 0)" by (simp add: act_ok_def)
  have k: "acks_sent (sample_sink sample_acker) = []" by (simp add: sample_sink_def)
  have nc: "newreno_changes default_newreno \<le> 0" by (simp add: default_newreno_def)
  obtain s n n' where r: "tcp_reset 0 sample_newreno = Inr s"
    "net_run (newreno_agent default_newreno) acker_append_ack sample_acts
       (conn_start s (plain_sink sample_acker (sample_sink sample_acker))) = Inr n"
    "net_step (newreno_agent default_newreno) acker_append_ack 7 (DeliverAck 0) n = Inr n'"
    "done_calls (tx n) < done_calls (tx n') \<longrightarrow> curseq (tx n') \<le> highest_ack (tx n') + 1 \<and> curseq (tx n') \<le> next_seq (acker_obj (rx n'))"
    using newreno_reliable [OF nc sample_newreno_fresh k order_refl sample_acts_ok a, of sample_acker] by blast
  have "newreno_net sample_acts = Inr n" "newreno_net (sample_acts @ [(7, DeliverAck 0)]) = Inr n'"
    using r(1-3) by (simp_all add: newreno_net_def net_run_append)
  with newreno_net_done r(3,4) show ?thesis by (intro exI [of _ n] exI [of _ n']) simp
qed

subsection \<open>Partial acknowledgements\<close>

lemma deflated_window:
  assumes pw: "partial_window_deflation nc" and d: "last_ack s < tp_seqno p" "tp_seqno p - last_ack s < 2 ^ 32"
    and w: "1 \<le> cwnd (wn s)" "0 \<le> dupwnd s" "dupwnd s < 2 ^ 32" and e: "(c, n) = deflated nc p s"
  shows "c + of_int n = max 2 (cwnd (wn s) + of_int (dupwnd s) - of_int (tp_seqno p - last_ack s) + 1) \<and> 1 \<le> c \<and> 0 < n"
proof -
  let ?d = "tp_seqno p - last_ack s"
  have m: "?d mod 2 ^ 32 = ?d" using d by simp
  show ?thesis
  proof (cases "?d < dupwnd s")
    case True
    have "(dupwnd s - (?d - 1)) mod 2 ^ 32 = dupwnd s - (?d - 1)" using True d w by (intro mod_pos_pos_trivial) auto
    then have "c = cwnd (wn s)" "n = dupwnd s - (?d - 1)"
      using e pw d(1) True m w(1) by (simp_all add: deflated_def deflate_window_def set_dupwnd_def Let_def)
    moreover have "of_int (?d + 1) \<le> (of_int (dupwnd s) :: real)" using True by (simp only: of_int_le_iff)
    ultimately show ?thesis using w True by simp
  next
    case False
    then have "c = max 1 (cwnd (wn s) - of_int (?d - dupwnd s))" "n = 1"
      using e pw d(1) m by (auto simp: deflated_def deflate_window_def set_cwnd_def Let_def max_def split: if_splits)
    then show ?thesis by (simp add: max_def)
  qed
qed

text \<open>The acknowledgement itself: what \<open>newreno_new\<close> does with a partial one.\<close>

definition partial_acked :: "newreno_conf \<Rightarrow> tpkt \<Rightarrow> 'b newreno_scheme \<Rightarrow> 'b newreno_scheme \<Rightarrow> bool" where
  "partial_acked nc p s s' \<longleftrightarrow>
     last_cwnd_action (wn s') = CWND_ACTION_DUPACK \<and> recover s' = recover s \<and> ssthresh (wn s') = ssthresh (wn s) \<and>
     (if partial_window_deflation nc
      then cwnd (wn s') + of_int (dupwnd s') =
             max 2 (cwnd (wn s) + of_int (dupwnd s) - of_int (tp_seqno p - highest_ack s) + 1) \<and>
           1 \<le> cwnd (wn s') \<and> 0 < dupwnd s'
      else cwnd (wn s') = cwnd (wn s) \<and> dupwnd s' = 0)"

lemma newreno_new_partial:
  assumes ok: "snd_ok s" and a: "highest_ack s < tp_seqno p" "tp_seqno p < recover s" "recover s \<le> maxseq s"
    and r: "last_cwnd_action (wn s) = CWND_ACTION_DUPACK"
    and w: "1 \<le> cwnd (wn s)" "0 \<le> dupwnd s" "dupwnd s < 2 ^ 32" "tp_seqno p - highest_ack s < 2 ^ 32"
  shows "\<exists>s' q. newreno_new nc now p s = Inr s' \<and> out s' = out s @ [q] \<and> tp_seqno q = tp_seqno p + 1 \<and>
    advances now (tp_seqno p) s s' \<and> maxseq s' = maxseq s \<and> dupacks s' = dupacks s \<and>
    t_seqno s' = max (t_seqno s) (tp_seqno p + 1) \<and> pending (rtx_timer s') \<and> partial_acked nc p s s'"
proof -
  define t where "t = (if partial_window_deflation nc then s else s\<lparr>dupwnd := 0\<rparr>)"
  have t: "snd_ok t" "highest_ack t = highest_ack s" "maxseq t = maxseq s" "out t = out s" "recover t = recover s" "wn t = wn s"
    "t_seqno t = t_seqno s" "dupacks t = dupacks s"
    using ok hand_to_ok [OF hand_dupwnd [OF ok]] by (simp_all add: t_def)
  have st: "hand_to now s t" using ok hand_dupwnd [OF ok] by (simp add: t_def)
  obtain s' where s': "partialnewack_helper nc now p t = Inr s'" "advances now (tp_seqno p) t s'" "resent nc p t s'"
    by (rule returnsE [OF partial_helper_ok [OF t(1)]]) (use a t in auto)
  have n: "newreno_new nc now p s = Inr s'" using a r s'(1) by (simp add: newreno_new_def t_def)
  have win: "(cwnd (wn s'), dupwnd s') = deflated nc p t" using s'(3) by (simp add: resent_def)
  have l: "last_ack s = highest_ack s" using ok by (simp add: snd_ok_def)
  have "partial_acked nc p s s'"
  proof (cases "partial_window_deflation nc")
    case True
    then show ?thesis using deflated_window [OF True _ _ w(1-3)] win a(1) w(4) l r s'(3) t
      by (simp add: t_def partial_acked_def resent_def)
  next
    case False
    then show ?thesis using win r s'(3) t by (simp add: t_def deflated_def partial_acked_def resent_def)
  qed
  moreover obtain q where "out s' = out s @ [q]" "tp_seqno q = tp_seqno p + 1" using s'(3) t by (auto simp: resent_def)
  moreover have "advances now (tp_seqno p) s s'" by (rule hand_advances [OF st s'(2)])
  ultimately show ?thesis using n s'(3) t a
    by (intro exI [of _ s'] exI [of _ q]) (simp add: resent_def)
qed

text \<open>Before it, \<open>recv\<close> counts the acknowledgement and changes nothing else that matters here.\<close>

definition same_transfer :: "'b newreno_scheme \<Rightarrow> 'b newreno_scheme \<Rightarrow> bool" where
  "same_transfer s t \<longleftrightarrow> conf t = conf s \<and> out t = out s \<and> t_seqno t = t_seqno s \<and> highest_ack t = highest_ack s \<and>
     maxseq t = maxseq s \<and> curseq t = curseq s \<and> recover t = recover s \<and> dupacks t = dupacks s \<and> wn t = wn s \<and>
     dupwnd t = dupwnd s \<and> tlastreset t = tlastreset s \<and> frto t = frto s \<and> last_ack t = last_ack s"

lemma estimate_same: "newreno_changes nc \<le> 0 \<Longrightarrow> newreno_estimate nc now s = Inr u \<Longrightarrow> same_transfer s u"
  by (auto simp: newreno_estimate_def Let_def same_transfer_def split: if_splits)

lemma newreno_before:
  assumes ok: "snd_ok s" and nc: "newreno_changes nc \<le> 0" and g: "tlastreset s \<le> tp_ts p" "\<not> (ecnecho p \<and> ecn_on (conf s))"
    and a: "highest_ack s < tp_seqno p"
  obtains t where "newreno_recv nc now p s = res_bind (newreno_new nc now p t) (newreno_end nc now p)" "snd_ok t"
    "same_transfer s t"
proof -
  obtain u where u: "newreno_estimate nc now s = Inr u" "snd_ok u"
    by (rule returnsE [OF newreno_estimate_ok [OF ok nc]]) (auto dest: hand_to_ok)
  have su: "same_transfer s u" by (rule estimate_same [OF nc u(1)])
  define t where "t = u\<lparr>st := (st u)\<lparr>nackpack := nackpack (st u) + 1\<rparr>, ts_peer := tp_ts p\<rparr>"
  have t: "snd_ok t" "same_transfer s t" using u(2) su by (simp_all add: t_def snd_ok_def same_transfer_def)
  have "\<not> tp_ts p < tlastreset u" "\<not> (ecnecho p \<and> ecn_on (conf u))" using g su by (auto simp: same_transfer_def)
  moreover have "recv_frto_helper p t = t" using t(1) by (simp add: recv_frto_helper_def snd_ok_def)
  ultimately have c: "recv_check reno_vt p u = Inr (True, t)" unfolding recv_check_def Let_def t_def by auto
  have l: "last_ack t < tp_seqno p" using t(1) a t(2) by (simp add: snd_ok_def same_transfer_def)
  have "newreno_recv nc now p s = res_bind (newreno_new nc now p t) (newreno_end nc now p)"
    unfolding newreno_recv_def recv_qs_off [OF ok] res_bind.simps u(1) c prod.case using l by simp
  then show thesis using that t by blast
qed

text \<open>After it, \<open>recv\<close> may send packets from \<open>t_seqno_\<close> on.\<close>

lemma newreno_end_burst:
  assumes ok: "snd_ok s" and q: "\<not> QOption (conf s)" and l: "highest_ack s = tp_seqno p"
  shows "\<exists>s'. newreno_end nc now p s = Inr s' \<and> same_window s s' \<and> sent_to now s s' \<and>
    (if dupacks s = 0 then burst (reno_window s) (maxburst (conf s)) 0 s s'
     else if numdupacks (conf s) \<le> dupacks s \<and> newreno_changes nc = 0 then burst (reno_window s) 2 0 s s'
     else s' = s)"
proof -
  have la: "last_ack s \<le> tp_seqno p" using ok l by (simp add: snd_ok_def)
  have m: "\<exists>s'. send_much reno_vt now False 0 k s = Inr s' \<and> same_window s s' \<and> sent_to now s s' \<and>
      burst (reno_window s) k 0 s s'" for k
  proof -
    have f: "vwin reno_vt (t\<lparr>firstsent := x\<rparr>) = vwin reno_vt t" for t :: "'a newreno_scheme" and x
      by (simp add: reno_window_def force_wnd_def Let_def)
    obtain s' where s': "send_much reno_vt now False 0 k s = Inr s'" "much_to reno_vt now False s s'"
      by (rule returnsE [OF send_much_ok [OF ok]])
    have "burst (vwin reno_vt s) k 0 s s'" by (rule returnsD [OF send_much_burst [OF ok q steady_reno f] s'(1)])
    moreover have "same_window s s'" by (rule send_much_window [OF ok q steady_reno s'(1)])
    ultimately show ?thesis using s' by (intro exI [of _ s']) (simp add: much_to_def)
  qed
  show ?thesis
  proof (cases "dupacks s = 0")
    case True
    then show ?thesis using m la by (simp add: newreno_end_def)
  next
    case False
    show ?thesis
    proof (cases "numdupacks (conf s) \<le> dupacks s \<and> newreno_changes nc = 0")
      case True
      then show ?thesis using m [of 2] la False by (simp add: newreno_end_def)
    next
      case False': False
      then have "newreno_end nc now p s = Inr s" using la False by (auto simp: newreno_end_def)
      then show ?thesis using ok False False' by (intro exI [of _ s]) auto
    qed
  qed
qed

text \<open>The packets that may follow the retransmission: how many, and which.\<close>

definition followed_by :: "newreno_conf \<Rightarrow> 'b newreno_scheme \<Rightarrow> seq_t \<Rightarrow> 'b newreno_scheme \<Rightarrow> tpkt list \<Rightarrow> bool" where
  "followed_by nc s from s' ps \<longleftrightarrow>
     map tp_seqno ps = [from .. t_seqno s' - 1] \<and> from \<le> t_seqno s' \<and>
     (ps \<noteq> [] \<longrightarrow> t_seqno s' \<le> highest_ack s' + reno_window s' + 1 \<and> t_seqno s' \<le> curseq s') \<and>
     (if dupacks s = 0 then 0 < maxburst (conf s) \<longrightarrow> int (length ps) \<le> maxburst (conf s)
      else if numdupacks (conf s) \<le> dupacks s \<and> newreno_changes nc = 0 then length ps \<le> 2
      else ps = [])"

lemma sent_reno_window: "snd_ok s \<Longrightarrow> same_window s s' \<Longrightarrow> sent_to now s s' \<Longrightarrow> reno_window s' = reno_window s"
  using same_windowD(1) [of s s'] reno_more [of s' s]
  by (simp add: reno_window_def Let_def sent_to_def safe_to_def evolves_def grows_def snd_ok_def)

lemma newreno_end_follows:
  assumes ok: "snd_ok s" and q: "\<not> QOption (conf s)" and l: "highest_ack s = tp_seqno p"
  shows "\<exists>s' ps. newreno_end nc now p s = Inr s' \<and> same_window s s' \<and> sent_to now s s' \<and>
    out s' = out s @ ps \<and> followed_by nc s (t_seqno s) s' ps"
proof -
  obtain s' where s': "newreno_end nc now p s = Inr s'" "same_window s s'" "sent_to now s s'"
    "if dupacks s = 0 then burst (reno_window s) (maxburst (conf s)) 0 s s'
     else if numdupacks (conf s) \<le> dupacks s \<and> newreno_changes nc = 0 then burst (reno_window s) 2 0 s s'
     else s' = s"
    using newreno_end_burst [OF assms] by blast
  note win = sent_reno_window [OF ok s'(2,3)]
  have h: "highest_ack s' = highest_ack s" using s'(3) by (simp add: sent_to_def)
  have "\<exists>ps. out s' = out s @ ps \<and> followed_by nc s (t_seqno s) s' ps"
  proof (cases "dupacks s = 0 \<or> numdupacks (conf s) \<le> dupacks s \<and> newreno_changes nc = 0")
    case True
    then have "burst (reno_window s) (if dupacks s = 0 then maxburst (conf s) else 2) 0 s s'"
      using s'(4) by (simp split: if_splits)
    then show ?thesis using True h win unfolding burst_def followed_by_def
      by (elim conjE exE) (rule exI, rule conjI, assumption, auto)
  next
    case False
    then have "s' = s" using s'(4) by (simp split: if_splits)
    then show ?thesis using False by (intro exI [of _ "[]"]) (auto simp: followed_by_def)
  qed
  with s' show ?thesis by blast
qed

text \<open>
  (C20) A partial acknowledgement, from the arrival of the packet to the end of \<open>recv\<close>, with
  \<open>newreno_changes_\<close> off, no ECN echo and an acknowledgement of this connection. In fast recovery, a new
  acknowledgement below \<open>recover_\<close> makes NewReno send the first packet that is not acknowledged, which is
  not above \<open>recover_\<close>. It may then send packets from \<open>t_seqno_\<close> on, consecutive, within the window and
  the data: at most two when \<open>numdupacks_\<close> duplicates or more have arrived, at most \<open>maxburst_\<close> (when
  that is not 0) when the count of duplicates is 0, and none otherwise. It stays in recovery with the same
  \<open>recover_\<close> and \<open>ssthresh_\<close> and with the retransmission timer pending. With \<open>partial_window_deflation_\<close> the
  window, \<open>cwnd_ + dupwnd_\<close>, shrinks by the packets acknowledged less one, to no less than 2, and
  \<open>dupwnd_\<close> stays positive; without it \<open>dupwnd_\<close> is 0 and \<open>cwnd_\<close> is kept.
\<close>
theorem newreno_partial_ack:
  assumes ok: "snd_ok s" "\<not> QOption (conf s)" "newreno_changes nc \<le> 0"
    and g: "tlastreset s \<le> tp_ts p" "\<not> (ecnecho p \<and> ecn_on (conf s))"
    and a: "highest_ack s < tp_seqno p" "tp_seqno p < recover s" "recover s \<le> maxseq s"
    and r: "last_cwnd_action (wn s) = CWND_ACTION_DUPACK"
    and w: "1 \<le> cwnd (wn s)" "0 \<le> dupwnd s" "dupwnd s < 2 ^ 32" "tp_seqno p - highest_ack s < 2 ^ 32"
  shows "\<exists>s' q ps. newreno_recv nc now p s = Inr s' \<and> out s' = out s @ q # ps \<and>
    tp_seqno q = tp_seqno p + 1 \<and> tp_seqno q \<le> recover s \<and>
    followed_by nc s (max (t_seqno s) (tp_seqno p + 1)) s' ps \<and> highest_ack s' = tp_seqno p \<and>
    pending (rtx_timer s') \<and> last_cwnd_action (wn s') = CWND_ACTION_DUPACK \<and> recover s' = recover s \<and>
    ssthresh (wn s') = ssthresh (wn s) \<and>
    (if partial_window_deflation nc
     then cwnd (wn s') + of_int (dupwnd s') =
            max 2 (cwnd (wn s) + of_int (dupwnd s) - of_int (tp_seqno p - highest_ack s) + 1) \<and>
          1 \<le> cwnd (wn s') \<and> 0 < dupwnd s'
     else cwnd (wn s') = cwnd (wn s) \<and> dupwnd s' = 0)"
proof -
  obtain t where t: "newreno_recv nc now p s = res_bind (newreno_new nc now p t) (newreno_end nc now p)" "snd_ok t"
    "same_transfer s t" by (rule newreno_before [OF ok(1,3) g a(1)])
  note same = t(3) [unfolded same_transfer_def]
  obtain u q where u: "newreno_new nc now p t = Inr u" "out u = out s @ [q]" "tp_seqno q = tp_seqno p + 1"
    "advances now (tp_seqno p) t u" "dupacks u = dupacks s" "t_seqno u = max (t_seqno s) (tp_seqno p + 1)"
    "pending (rtx_timer u)" "partial_acked nc p t u"
    using newreno_new_partial [OF t(2), of p nc now] same a r w by auto
  have uok: "snd_ok u" "highest_ack u = tp_seqno p" "conf u = conf s"
    using u(4) same by (simp_all add: advances_def evolves_def grows_def)
  obtain s' ps where s': "newreno_end nc now p u = Inr s'" "same_window u s'" "sent_to now u s'" "out s' = out u @ ps"
    "followed_by nc u (t_seqno u) s' ps"
    using newreno_end_follows [OF uok(1) _ uok(2), of nc now] ok(2) uok(3) by auto
  have d: "dupwnd s' = dupwnd u" using s'(3) reno_more [of s' u] by (simp add: sent_to_def)
  have "pending (rtx_timer s')" "highest_ack s' = tp_seqno p"
    using s'(3) u(7) uok(2) by (simp_all add: sent_to_def safe_to_def)
  moreover have "followed_by nc s (max (t_seqno s) (tp_seqno p + 1)) s' ps"
    using s'(5) unfolding followed_by_def u(5,6) uok(3) .
  moreover have "newreno_recv nc now p s = Inr s'" using t(1) u(1) s'(1) by simp
  moreover note same_windowD [OF s'(2)]
  ultimately show ?thesis using u(2,3,8) s'(4) d same a(2)
    by (intro exI [of _ s'] exI [of _ q] exI [of _ ps]) (simp add: partial_acked_def)
qed

text \<open>
  Packets 3 to 8 are outstanding and six duplicates have arrived; the acknowledgement of 5 makes NewReno
  send packet 6, and then at most the new packets 9 and 10.
\<close>

definition recovering :: "newreno \<Rightarrow> newreno" where
  "recovering s =
     s\<lparr>maxseq := 8, t_seqno := 9, curseq := 20, highest_ack := 2, last_ack := 2, recover := 8, dupwnd := 6, dupacks := 6,
       wn := (wn s)\<lparr>cwnd := 4, last_cwnd_action := CWND_ACTION_DUPACK\<rparr>\<rparr>"

theorem newreno_partial_ack_witness:
  "\<exists>s s' q ps. tcp_reset 0 sample_newreno = Inr s \<and>
     newreno_recv default_newreno 1 (sample_pkt 5 0) (recovering s) = Inr s' \<and> out s' = out s @ q # ps \<and>
     tp_seqno q = 6 \<and> map tp_seqno ps = [9 .. t_seqno s' - 1] \<and> length ps \<le> 2 \<and>
     highest_ack s' = 5 \<and> cwnd (wn s') + of_int (dupwnd s') = 8"
proof -
  obtain s where s: "tcp_reset 0 sample_newreno = Inr s" "started 0 sample_newreno s"
    by (rule returnsE [OF tcp_reset_ok [OF sample_newreno_fresh(1)]])
  have "snd_ok s" "tlastreset s = 0" "conf s = conf sample_newreno" using s(2) by (simp_all add: started_def)
  moreover have "\<not> ecn_on (conf sample_newreno)" "numdupacks (conf sample_newreno) = 3"
    by (simp_all add: sample_newreno_def new_NewRenoTcpAgent_def new_RenoTcpAgent_def new_TcpAgent_def sample_tcp_def
        reno.extend_def newreno.fields_def sample_conf_def)
  ultimately have ok: "snd_ok (recovering s)" "\<not> QOption (conf (recovering s))" "newreno_changes default_newreno \<le> 0"
      "tlastreset (recovering s) \<le> tp_ts (sample_pkt 5 0)" "\<not> (ecnecho (sample_pkt 5 0) \<and> ecn_on (conf (recovering s)))"
      "numdupacks (conf (recovering s)) = 3"
    using sample_newreno_fresh(2) by (simp_all add: snd_ok_def recovering_def sample_pkt_def default_newreno_def)
  have p: "tp_seqno (sample_pkt 5 0) = 5" by (simp add: sample_pkt_def)
  have "\<exists>s' q ps. newreno_recv default_newreno 1 (sample_pkt 5 0) (recovering s) = Inr s' \<and>
      out s' = out (recovering s) @ q # ps \<and> tp_seqno q = 6 \<and> followed_by default_newreno (recovering s) 9 s' ps \<and>
      highest_ack s' = 5 \<and> cwnd (wn s') + of_int (dupwnd s') = 8"
    using newreno_partial_ack [OF ok(1-5), of 1] p
    by (auto simp: recovering_def default_newreno_def)
  then show ?thesis using s(1) ok(6) by (auto simp: recovering_def followed_by_def default_newreno_def)
qed

subsection \<open>With \<open>newreno_changes_\<close>\<close>

text \<open>
  With \<open>newreno_changes_\<close> every second duplicate acknowledgement sends the packet \<open>t_seqno_\<close> whether the
  application has supplied it or not: here the data ends before packet 9.
\<close>

lemma newreno_beyond_data:
  "map_sum id (\<lambda>s. (map tp_seqno (out s), curseq s, maxseq s))
     (res_bind (tcp_reset 0 sample_newreno) (\<lambda>s.
        newreno_dup (default_newreno\<lparr>newreno_changes := 1\<rparr>) 1 ((recovering s)\<lparr>curseq := 9, dupacks := 4\<rparr>))) =
   Inr ([9], 9, 9)"
  by code_simp

end
