(* ===== verification/Spec2Isabelle.thy ===== *)
theory Spec2Isabelle
  imports XPass_Properties Queue_Properties Scheduler_Properties Score_Properties Window_Properties
    Red_Properties Newreno_Properties
begin

text \<open>
  \<^bold>\<open>ns-2 with ExpressPass\<close>

  The repository is the network simulator ns-2 extended with ExpressPass, a transport protocol in
  which the data receiver paces the sender by credit packets. This development models, from the
  C++ sources, the protocol itself and the parts of the simulator it runs on or is compared with:
  the end-host agent, the switch port with its credit queue, the packet, drop-tail and RED queues, the
  timers, the event schedulers, and TCP: the senders Tahoe, Reno and NewReno, the receivers with and without
  selective acknowledgements, and the scoreboard of a SACK sender.

  \<^bold>\<open>How the parts work together\<close>

  The scheduler (\<open>common/scheduler.cc\<close>) holds events ordered by time and calls the handler of the
  first. A \<open>TimerHandler\<close> owns one such event. An \<open>XPassAgent\<close> (\<open>xpass/xpass.cc\<close>) has five timers
  and two state machines, one as the data sender and one as the data receiver. It reacts to packets
  and to its timers and sends packets. A packet travels through the \<open>XPassDropTail\<close> queue of a
  switch port (\<open>queue/xpass-drop-tail.cc\<close>), which \<open>Queue::recv\<close> and \<open>Queue::resume\<close>
  (\<open>queue/queue.cc\<close>) drive and which keeps data and credits in two \<open>PacketQueue\<close>s; credits leave at
  the rate of a token bucket, with a timer for the next. A \<open>TcpAgent\<close> (\<open>tcp/tcp.cc\<close>) sends the packets
  its window allows and again those its retransmission timer finds lost; \<open>RenoTcpAgent\<close>
  (\<open>tcp/tcp-reno.cc\<close>) overrides five of its methods and \<open>NewRenoTcpAgent\<close> (\<open>tcp/tcp-newreno.cc\<close>)
  three of those. A \<open>TcpSink\<close> (\<open>tcp/tcp-sink.cc\<close>) answers data with
  acknowledgements, with SACK blocks when its \<open>Acker\<close> is a \<open>Sacker\<close>; a SACK sender keeps the blocks
  in a \<open>ScoreBoard\<close> (\<open>tcp/scoreboard.cc\<close>).

  \<^bold>\<open>Conventions\<close>

  \<^item> An object is a record with the fields of its class, a method a function from the object to its
    next state; the packets an agent sends, and those a queue drops or forwards, are lists in the
    record. The current time of \<open>Scheduler::clock()\<close> is an argument. A virtual method is an argument
    of the functions that call it.
  \<^item> \<open>abort()\<close>, \<open>exit(1)\<close>, a failing \<open>assert\<close>, a read outside an array or of a null pointer, and a
    loop that does not end are values of the type \<open>sim_error\<close>; an operation that can fail returns
    \<open>sim_error + 'a\<close>. A loop whose end is not evident is a \<open>partial_function\<close> in \<open>option\<close>, and
    \<open>of_loop\<close> turns None into \<open>LoopDoesNotEnd\<close>. Theorems that a method returns state that its
    value is \<open>Inr\<close>.
  \<^item> \<open>int\<close> variables are integers. Overflow is treated in one of three ways.
    \<^bold>\<open>The error \<open>IntOutOfRange\<close>\<close>: the refill of the token bucket, the conversions of the credit rate to
    \<open>int\<close>, the arrivals that RED counts for an idle link, the doubling of the receiver's window, of the
    scoreboard and of the calendar, the window estimate of NewReno and the product of HighSpeed TCP.
    \<^bold>\<open>Two's complement\<close>: the bytes a sink has delivered, the counters of RED since the last drop, and every
    conversion from a 64-bit sequence number to an \<open>int\<close> or \<open>short\<close>; the size, indices and insertion
    counter of the heap are unsigned and wrap modulo 2 ^ 32, and where a wrapped size or index leads
    outside the array the operation is an error. \<^bold>\<open>The mathematical value\<close>: everything else, in
    particular the shifts of the round-trip estimator, the doubling of \<open>t_backoff_\<close>, byte counts of queues,
    the counters of an ExpressPass agent and all statistics. The theorems bound their inputs where a bound is needed: sequence
    numbers of TCP below 2 ^ 30 - 2, a pause of a switch port worth less than 2 ^ 31 tokens, fewer than
    2 ^ 31 events on the heap.
  \<^item> \<open>double\<close> variables are real numbers: rounding is not modelled. Divisions by zero that the code
    performs on doubles are in the type \<open>xreal\<close> with infinities.
  \<^item> Random choices of the code are arguments, restricted to the range the code draws from.

  \<^bold>\<open>The theories\<close>

  \<open>Prelude\<close>: scalar types, errors and the bind of results, ranges of \<open>int\<close>, the functions of
  \<open>tcp/template.h\<close>, shared lemmas. \<open>Packets\<close>: the header fields and \<open>Agent::allocpkt\<close>.
  \<open>Timer_Handler\<close>: \<open>common/timer-handler.cc\<close>, with the queue entry of the timer's event.

  \<^item> \<^bold>\<open>ExpressPass agent\<close> (\<open>xpass/xpass.h\<close>, \<open>xpass/xpass.cc\<close>). \<open>XPass_Agent\<close> has the record \<open>xpass\<close>, all
    packet constructors, handlers, timeouts and the Tcl command, and the step relation of an agent.
    \<open>XPass_Control\<close> proves the invariant between the two state machines and the five timers,
    \<open>XPass_Moves\<close> that every step is an edge of the protocol, \<open>XPass_Data\<close> the effect of each handler
    on sequence numbers and packets, \<open>XPass_Rate\<close> the credit feedback control, \<open>XPass_Drain\<close> what a list of
    credits makes a sender send. \<open>XPass_System\<close> puts two
    agents on a network that loses, reorders and duplicates packets. \<open>XPass_Properties\<close> states the
    results: the receiver never counts more than was sent, which timers run in which states, which
    exits of the code can be reached, the bounds of the credit rate, and how credits drain the data.
  \<^item> \<^bold>\<open>Queues\<close> (\<open>queue/queue.h\<close>, \<open>queue/queue.cc\<close>, \<open>queue/drop-tail.cc\<close>, \<open>queue/xpass-drop-tail.cc\<close>).
    \<open>Packet_Queue\<close> is the linked list on a memory of \<open>next_\<close> pointers; the locale \<open>packet_fifo\<close>
    states what its clients use, and is interpreted on it. \<open>Queue_Base\<close> is the base class over its
    virtual methods, with the locale \<open>queue_accounting\<close> of what \<open>recv\<close> and \<open>resume\<close> need of them, and two
    that extend it: \<open>queue_discipline\<close>, where \<open>enque\<close> always returns, and \<open>work_conserving\<close>, where \<open>deque\<close>
    returns a packet if there is one. \<open>Drop_Tail\<close>, \<open>XPass_Switch\<close> and \<open>Red_List\<close> interpret them. \<open>XPass_DropTail\<close> has the port with its token
    bucket, \<open>XPass_Switch\<close> its reachable states. \<open>Queue_Properties\<close>: the credit rate of a port over
    any interval, the byte limits, that no packet is lost or duplicated and no port stalls, FIFO
    order, refinement of list specifications, and the cases where the code misses its limit.
  \<^item> \<^bold>\<open>Random early detection\<close> (\<open>queue/red.h\<close>, \<open>queue/red.cc\<close>). \<open>Red_Queue\<close> has the records \<open>edp\<close>, \<open>edv\<close>
    and \<open>red\<close>, the automatic parameters, the average, both forms of adaptive RED, the probability with
    ECN marks, and \<open>enque\<close>, \<open>deque\<close> and \<open>reset\<close>. \<open>Red_List\<close> reduces them to lists of packets and interprets
    \<open>work_conserving\<close>, \<open>Red_Probability\<close> has the arithmetic of the early drop, \<open>Red_Runs\<close> the invariant of
    a port over any sequence of arrivals and link events. \<open>Red_Properties\<close> states the bounds of a run,
    the reasons for a drop, the ramp of the probability, the even spreading of the drops and the
    steps and bounds of the adaptation. A run covers both units of the queue's length, packets and bytes, and
    all variants of \<open>cautious_\<close>, with the divisors these use not zero, for times in which the
    link sends less than 2 ^ 31 - 2 packets; without that bound the length of an idle period does not
    fit in an \<open>int\<close>. In bytes the limit is tested before the arriving packet is added, so the bound of a
    run is the limit and one packet.
  \<^item> \<^bold>\<open>Schedulers\<close> (\<open>common/scheduler.cc\<close>, \<open>common/heap.h\<close>,
    \<open>common/splay-scheduler.cc\<close>). \<open>Event_Queue\<close> has the base class and the locale \<open>event_queue\<close>: a
    scheduler's queue is an ordered list of events. \<open>List_Scheduler\<close>, \<open>Splay_Scheduler\<close>,
    \<open>Heap_Scheduler\<close> (on the array of \<open>Heap_Array\<close>) and \<open>Calendar_Scheduler\<close> interpret it. The calendar
    is defined in \<open>Calendar_Queue\<close>, with its circular buckets, its adaptive width and its resizing;
    \<open>Calendar_Buckets\<close> has the invariant of the buckets and insertion and removal in one,
    \<open>Calendar_Resize\<close> that a resize keeps the events, \<open>Calendar_Search\<close> that the scan from the current
    bucket ends at the earliest event. \<open>Scheduler_Equivalence\<close> derives from the interface that two
    queues dispatch the same events, and \<open>Scheduler_Properties\<close> states it for the four: order of
    dispatch, equality of the splay tree, the heap and the calendar with the list, stable sorting.
    The heap does so below 2 ^ 31 insertions, and theorems show the wrong order after 2 ^ 32 and the growth
    that fails at 2 ^ 31 events; the calendar while its array of buckets can be indexed by an \<open>int\<close>, that is up to 2 ^ 30 events.
  \<^item> \<^bold>\<open>TCP receiver\<close> (\<open>tcp/tcp-sink.h\<close>, \<open>tcp/tcp-sink.cc\<close>). \<open>Ring_Window\<close> has the lemmas on arrays
    indexed modulo their size, as the locale \<open>ring\<close>. \<open>Tcp_Acker\<close> is the window of received
    packets with its resizing, \<open>Tcp_Sack\<close> the stack of SACK blocks, \<open>Tcp_Sink\<close> the two agents
    over the locale \<open>sink_acker\<close>, the contract of the virtual \<open>append_ack\<close>, interpreted for both
    ackers. \<open>Tcp_Receiver\<close> and \<open>Tcp_Delack\<close> prove their invariants in it, and \<open>Tcp_Properties\<close>
    states delivery in order and once, the truth of every SACK block, and the bounded delay.
  \<^item> \<^bold>\<open>TCP senders\<close> (\<open>tcp/tcp.h\<close>, \<open>tcp/tcp.cc\<close>, \<open>tcp/tcp-reno.cc\<close>, \<open>tcp/tcp-newreno.cc\<close>). \<open>Tcp_Rtt\<close> is the round-trip
    estimate, \<open>Tcp_Window\<close> the congestion window, \<open>Tcp_Agent\<close> the record \<open>tcp\<close>, \<open>output\<close>, the
    quiescence option and one round of \<open>send_much\<close>, \<open>Tcp_Sender\<close> the loop and all handlers, \<open>Tcp_Reno\<close>
    and \<open>Tcp_Newreno\<close> the subclasses. The virtual \<open>window()\<close>, \<open>windowd()\<close> and \<open>dupack_action()\<close> are arguments. \<open>Tcp_Invariant\<close>
    has the invariant \<open>snd_ok\<close> of a sender, with \<open>guarded\<close> (the timer is pending while packets are
    outstanding) and \<open>awake\<close> (a sender with data sends or has a timer); \<open>Tcp_Handlers\<close>, \<open>Tcp_Tahoe\<close>,
    \<open>Tcp_Timers\<close>, \<open>Tcp_Recovery\<close>, \<open>Tcp_Partial\<close> and \<open>Tcp_Start\<close> prove of every operation that it returns and what it keeps,
    as rules about \<open>returns\<close>. \<open>Tcp_Transfer\<close> connects a sender and a sink by a network that loses,
    reorders and duplicates; its locales \<open>sender\<close> and \<open>transfer\<close> state what it needs of the two, and
    \<open>Tcp_Progress\<close> adds \<open>live_sender\<close> and \<open>live_transfer\<close> for completion. \<open>Tcp_Sessions\<close> interprets them
    for Tahoe and Reno with plain and SACK sinks. \<open>Tcp_Burst\<close> has what \<open>send_much\<close> sends.
    \<open>Sender_Properties\<close> states reliable delivery, the invariant of a connection and that a transfer can
    always complete, \<open>Window_Properties\<close> retransmission, the window, its growth and the timeout.
    \<open>Newreno_Properties\<close> makes NewReno a \<open>sender\<close> through the locale \<open>newreno_sender\<close>, for parameters with
    \<open>newreno_changes_\<close> off, and states its reliability and the effect of a partial acknowledgement.
    The invariant is that of connections with F-RTO, \<open>bugFix_ts_\<close>, Quick-Start and the quiescence
    option off and no limit on the number of SYN packets, as in the default configuration;
    completion is for numbers below 2 ^ 30 - 2, which the sink's window can index, without ECN.
  \<^item> \<^bold>\<open>SACK scoreboard\<close> (\<open>tcp/scoreboard.h\<close>, \<open>tcp/scoreboard.cc\<close>). \<open>Score_Board\<close> has the ring of
    nodes and the operations, \<open>Score_Update\<close> the effect of an acknowledgement, \<open>Score_Properties\<close> that
    the board marks exactly the reported packets and finds the first hole. The theorem of the
    present theory composes it with the SACK sink: what the sender believes received has arrived.

  \<^bold>\<open>What the model showed of the code\<close>

  Theorems above also record behaviour that the comments do not intend: padding counted as data, a
  credit request of zero packets after a negative acknowledgement, a credit stop that is never
  retransmitted and one that aborts, the overflow of the token refill, a drop-front queue above its
  limit, the wrap of the heap's counter, SACK blocks of a former connection reported after a
  reset, a packet beyond the data that Reno sends on duplicates of the last acknowledgement,
  time stamps stored before the start of their array, packets beyond the data that NewReno sends
  with \<open>newreno_changes_\<close>, and a RED queue whose adapted probability
  leaves its documented bounds and jumps at the upper threshold.

  \<^bold>\<open>Not modelled\<close>

  Tcl binding and the interpreter, which set the fields before a run; tracing and printing; floating
  point rounding; the other disciplines of active queue management; the other senders of TCP (SACK, Vegas, full TCP and the experimental ones),
  the reassembly queue of full TCP, classifiers, routing, links, wireless layers and the other
  protocols of ns-2, which ExpressPass does not call; the map and real-time schedulers.
\<close>

text \<open>
  (C6) A SACK sender never takes a packet for received that has not arrived. Any packets arrive at a
  SACK sink in any order and number; any of its acknowledgements then reach a sender's empty
  scoreboard, in any order, repeated or not at all and with any cumulative acknowledgement the
  sender may hold. The scoreboard processes them all, and every packet marked on it has arrived.
\<close>
theorem sack_end_to_end:
  assumes "arrivals_ok 0 ps" "\<forall>i\<in>arrived ps. i < 2 ^ 29" "acks_sent s = []" "0 \<le> max_sack_blocks s"
    and "sink_run sacker_append_ack ps (sack_sink a s) = Inr s'"
    and "\<forall>(last_ack, q)\<in>set us. - 1 \<le> last_ack \<and> last_ack < 2 ^ 31 - 1 \<and> q \<in> set (acks_sent s')"
    and "sb_ok sb" "sb_length sb = 0"
  shows "\<exists>sb'. board_run us sb = Inr sb' \<and> sb_ok sb' \<and> (\<forall>i. sacked sb' i \<longrightarrow> i \<in> arrived ps)"
proof -
  obtain h where h: "sink_rep (sack_ext_ok (min (int NSA) (max_sack_blocks s))) 0 0 h s'"
    "\<forall>i. h i \<noteq> 0 \<longleftrightarrow> i \<in> arrived ps"
    using sack_sink_run [OF assms(1,3,4), of a] assms(5) by auto
  have "sacks_ok h (maxseen (acker_obj s')) q" if "q \<in> set (acks_sent s')" for q
    using h(1) that by (simp add: sink_rep_def sink_got_def ack_got_def)
  then have "\<forall>(last_ack, q)\<in>set us. - 1 \<le> last_ack \<and> last_ack < 2 ^ 31 - 1 \<and> 0 \<le> sa_length q \<and>
      (\<forall>(l, r)\<in>set (hdr_blocks q). r - last_ack < 2 ^ 30 - 1) \<and>
      covered (hdr_blocks q) \<subseteq> arrived ps"
    using assms(6) sacks_ok_blocks [OF _ h(2) assms(2)] by fast
  moreover have "\<forall>i. sacked sb i \<longrightarrow> i \<in> arrived ps"
    using assms(8) by (auto simp: sacked_def on_board_def)
  ultimately show ?thesis using board_run_ok [OF assms(7)] by blast
qed

text \<open>Packets 0 and 2 arrive; the board is given the last acknowledgement twice.\<close>
theorem sack_end_to_end_witness:
  "\<exists>s' sb'. sink_run sacker_append_ack [(1, sample_pkt 0 0), (2, sample_pkt 2 1)]
              (sack_sink sample_sacker (sample_sink sample_sacker)) = Inr s' \<and>
            board_run [(0, last (acks_sent s')), (0, last (acks_sent s'))] sample_board = Inr sb' \<and>
            (\<forall>i. sacked sb' i \<longrightarrow> i \<in> {0, 2})"
proof -
  let ?ps = "[(1, sample_pkt 0 0), (2, sample_pkt 2 1)] :: (time \<times> tpkt) list"
  have arr: "arrived ?ps = {0, 2}" by (simp add: arrived_def sample_pkt_def)
  have ok: "arrivals_ok 0 ?ps" by (simp add: arrivals_ok_def tpkt_ok_def sample_pkt_def)
  have s: "acks_sent (sample_sink sample_sacker) = []" "0 \<le> max_sack_blocks (sample_sink sample_sacker)"
    by (simp_all add: sample_sink_def)
  obtain s' where s': "sink_run sacker_append_ack ?ps
      (sack_sink sample_sacker (sample_sink sample_sacker)) = Inr s'" "length (acks_sent s') = 2"
    using sack_sink_run [OF ok s, of sample_sacker] by auto
  let ?us = "[(0, last (acks_sent s')), (0, last (acks_sent s'))] :: (int \<times> tpkt) list"
  have "acks_sent s' \<noteq> []" using s'(2) by auto
  then have us: "\<forall>(last_ack, q)\<in>set ?us. - 1 \<le> last_ack \<and> last_ack < 2 ^ 31 - 1 \<and> q \<in> set (acks_sent s')"
    by simp
  have small: "\<forall>i\<in>arrived ?ps. i < 2 ^ 29" by (simp add: arr)
  have empty: "sb_length sample_board = 0" by (simp add: sample_board_def new_ScoreBoard_def)
  from sack_end_to_end [OF ok small s s'(1) us sample_board_ok empty] s'(1) show ?thesis
    unfolding arr by blast
qed

end
